(* ===== verification/Prelude.thy ===== *)
theory Prelude
  imports Main "HOL-Library.Word" "HOL-Library.List_Lexorder" "HOL-Library.Char_ord"
begin

text \<open>
  Shared vocabulary of the development: machine words and bytes, the result type of C and C++
  code that can fault or raise, raw memory blocks and little-endian integers.  The collections
  declared here carry the component proofs: \<open>fault_simps\<close> unfolds the result combinators,
  \<open>mem_simps\<close> the memory blocks.
\<close>

named_theorems fault_simps "rewriting of results that can be a fault"
named_theorems mem_simps "rewriting of raw memory blocks"


section \<open>Words and bytes\<close>

type_synonym byte = "8 word"
type_synonym u16 = "16 word"
type_synonym u32 = "32 word"
type_synonym u64 = "64 word"


section \<open>Results\<close>

text \<open>
  A computation of the source ends with a value (\<open>Inr\<close>) or with a fault or an exception
  (\<open>Inl\<close>).  \<open>bind_res\<close> sequences two computations, the first fault wins.
\<close>

definition bind_res :: "'e + 'a \<Rightarrow> ('a \<Rightarrow> 'e + 'b) \<Rightarrow> 'e + 'b" where
  "bind_res m f = (case m of Inl e \<Rightarrow> Inl e | Inr x \<Rightarrow> f x)"

lemma bind_res_simps [simp, fault_simps]:
  "bind_res (Inl e) f = Inl e"
  "bind_res (Inr x) f = f x"
  by (simp_all add: bind_res_def)

lemma bind_res_Inr_iff [fault_simps]:
  "bind_res m f = Inr y \<longleftrightarrow> (\<exists>x. m = Inr x \<and> f x = Inr y)"
  by (cases m) auto

lemma bind_res_Inl_iff [fault_simps]:
  "bind_res m f = Inl e \<longleftrightarrow> m = Inl e \<or> (\<exists>x. m = Inr x \<and> f x = Inl e)"
  by (cases m) auto

lemma bind_res_assoc [fault_simps]:
  "bind_res (bind_res m f) g = bind_res m (\<lambda>x. bind_res (f x) g)"
  by (cases m) auto

lemma bind_res_cong:
  "m = m' \<Longrightarrow> (\<And>x. m' = Inr x \<Longrightarrow> f x = f' x) \<Longrightarrow> bind_res m f = bind_res m' f'"
  by (cases m') auto

text \<open>An \<^verbatim>\<open>assert\<close> (or a C++ guard that throws) continues with the value when it holds.\<close>

definition guard_res :: "bool \<Rightarrow> 'e \<Rightarrow> 'e + unit" where
  "guard_res b e = (if b then Inr () else Inl e)"

lemma guard_res_simps [simp, fault_simps]:
  "guard_res True e = Inr ()"
  "guard_res False e = Inl e"
  by (simp_all add: guard_res_def)

lemma guard_res_Inr_iff [fault_simps]: "guard_res b e = Inr u \<longleftrightarrow> b"
  by (simp add: guard_res_def)

lemma guard_res_Inl_iff [fault_simps]: "guard_res b e = Inl e' \<longleftrightarrow> \<not> b \<and> e' = e"
  by (auto simp: guard_res_def)

text \<open>The ways a C function of the client can go wrong besides returning an error code.\<close>

datatype c_fault =
    BufferOverrun      \<comment> \<open>a read or write outside the allocated block\<close>
  | AssertionFailed    \<comment> \<open>an \<^verbatim>\<open>assert\<close> that does not hold\<close>
  | NullDereference
  | DanglingPointer    \<comment> \<open>an access through a freed pointer\<close>
  | StillRunning       \<comment> \<open>the bound given for the turns of a loop was reached\<close>

type_synonym 'a cres = "c_fault + 'a"


section \<open>Memory blocks\<close>

text \<open>
  An allocated block is the list of its bytes.  \<open>mem_read\<close> and \<open>mem_write\<close> are \<^verbatim>\<open>memcpy\<close>
  from and to a block at an offset; leaving the block is a fault.
\<close>

type_synonym block = "byte list"

definition mem_read :: "block \<Rightarrow> nat \<Rightarrow> nat \<Rightarrow> byte list cres" where
  "mem_read b off n = (if off + n \<le> length b then Inr (take n (drop off b)) else Inl BufferOverrun)"

definition mem_write :: "block \<Rightarrow> nat \<Rightarrow> byte list \<Rightarrow> block cres" where
  "mem_write b off src =
     (if off + length src \<le> length b
      then Inr (take off b @ src @ drop (off + length src) b)
      else Inl BufferOverrun)"

lemma mem_write_length [mem_simps]:
  "mem_write b off src = Inr b' \<Longrightarrow> length b' = length b"
  by (auto simp: mem_write_def split: if_splits)

lemma mem_write_ok [mem_simps]:
  "off + length src \<le> length b \<Longrightarrow>
   mem_write b off src = Inr (take off b @ src @ drop (off + length src) b)"
  by (simp add: mem_write_def)

lemma mem_read_ok [mem_simps]:
  "off + n \<le> length b \<Longrightarrow> mem_read b off n = Inr (take n (drop off b))"
  by (simp add: mem_read_def)

lemma mem_read_Inr_iff:
  "mem_read b off n = Inr bs \<longleftrightarrow> off + n \<le> length b \<and> bs = take n (drop off b)"
  by (auto simp: mem_read_def)

lemma mem_write_mid:
  assumes "length p = off" and "k + length xs \<le> length r"
  shows "mem_write (p @ r @ s) (off + k) xs =
         Inr (p @ (take k r @ xs @ drop (k + length xs) r) @ s)"
proof -
  have "off + k + length xs \<le> length (p @ r @ s)"
    using assms by simp
  moreover have "take (off + k) (p @ r @ s) = p @ take k r"
    using assms by simp
  moreover have "drop (off + k + length xs) (p @ r @ s) = drop (k + length xs) r @ s"
    using assms by simp
  ultimately show ?thesis by (simp add: mem_write_def)
qed

lemma mem_read_mid:
  "length p = off \<Longrightarrow> length xs = n \<Longrightarrow> mem_read (p @ xs @ s) off n = Inr xs"
  by (simp add: mem_read_def)

text \<open>Two adjacent writes are one.\<close>

lemma mem_write_append:
  assumes "mem_write b q xs = Inr b1" and "mem_write b1 (q + length xs) ys = Inr b2"
  shows "mem_write b q (xs @ ys) = Inr b2"
proof -
  have q: "q + length xs \<le> length b" and b1: "b1 = take q b @ xs @ drop (q + length xs) b"
    using assms(1) by (auto simp: mem_write_def split: if_splits)
  have "q + length xs + length ys \<le> length b1"
    and b2: "b2 = take (q + length xs) b1 @ ys @ drop (q + length xs + length ys) b1"
    using assms(2) by (auto simp: mem_write_def split: if_splits)
  with q b1 have "q + length (xs @ ys) \<le> length b" by simp
  moreover have "b2 = take q b @ (xs @ ys) @ drop (q + length (xs @ ys)) b"
    using b2 q unfolding b1 by (simp add: ac_simps)
  ultimately show ?thesis by (simp add: mem_write_def)
qed

lemma mem_read_mem_write_same:
  assumes "mem_write b off src = Inr b'"
  shows "mem_read b' off (length src) = Inr src"
  using assms by (auto simp: mem_write_def mem_read_def split: if_splits)

lemma mem_read_mem_write_disjoint:
  assumes "mem_write b off src = Inr b'"
    and "off' + n \<le> off \<or> off + length src \<le> off'"
  shows "mem_read b' off' n = mem_read b off' n"
proof -
  from assms(1) have le: "off + length src \<le> length b"
    and b': "b' = take off b @ src @ drop (off + length src) b"
    by (auto simp: mem_write_def split: if_splits)
  from assms(2) show ?thesis
  proof
    assume "off' + n \<le> off"
    then have "take (n + off') b' = take (n + off') b"
      using le b' by (simp add: min_def)
    then have "take n (drop off' b') = take n (drop off' b)"
      by (simp only: take_drop)
    then show ?thesis
      using le b' by (simp add: mem_read_def)
  next
    assume "off + length src \<le> off'"
    then have "drop off' b' = drop off' b"
      using le b' by simp
    then show ?thesis
      using le b' by (simp add: mem_read_def)
  qed
qed


section \<open>Little-endian integers\<close>

text \<open>
  The structs of the protocol and of the log file are copied from memory byte by byte on a
  little-endian machine (x86).  \<open>le_bytes k n\<close> are the \<open>k\<close> bytes of \<open>n\<close>, \<open>le_nat\<close> reads them
  back.
\<close>

fun le_bytes :: "nat \<Rightarrow> nat \<Rightarrow> byte list" where
  "le_bytes 0 n = []"
| "le_bytes (Suc k) n = of_nat (n mod 256) # le_bytes k (n div 256)"

fun le_nat :: "byte list \<Rightarrow> nat" where
  "le_nat [] = 0"
| "le_nat (b # bs) = unat b + 256 * le_nat bs"

lemma length_le_bytes [simp]: "length (le_bytes k n) = k"
  by (induction k arbitrary: n) auto

lemma unat_of_nat_byte [simp]: "unat (of_nat (n mod 256) :: byte) = n mod 256"
  by (simp add: unat_of_nat take_bit_eq_mod)

lemma le_nat_le_bytes [simp]: "le_nat (le_bytes k n) = n mod 256 ^ k"
proof (induction k arbitrary: n)
  case 0
  then show ?case by simp
next
  case (Suc k)
  have "n mod (256 * 256 ^ k) = 256 * (n div 256 mod 256 ^ k) + n mod 256"
    by (rule mod_mult2_eq)
  then show ?case by (simp add: Suc.IH)
qed

lemma le_nat_less: "le_nat bs < 256 ^ length bs"
proof (induction bs)
  case Nil
  then show ?case by simp
next
  case (Cons b bs)
  have "unat b < 256"
    using unsigned_less [of b, where ?'a = nat] by simp
  with Cons show ?case by simp
qed

definition u16_bytes :: "u16 \<Rightarrow> byte list" where
  "u16_bytes w = le_bytes 2 (unat w)"

definition u32_bytes :: "u32 \<Rightarrow> byte list" where
  "u32_bytes w = le_bytes 4 (unat w)"

definition u64_bytes :: "u64 \<Rightarrow> byte list" where
  "u64_bytes w = le_bytes 8 (unat w)"

definition bytes_u16 :: "byte list \<Rightarrow> u16" where
  "bytes_u16 bs = of_nat (le_nat bs)"

definition bytes_u32 :: "byte list \<Rightarrow> u32" where
  "bytes_u32 bs = of_nat (le_nat bs)"

definition bytes_u64 :: "byte list \<Rightarrow> u64" where
  "bytes_u64 bs = of_nat (le_nat bs)"

lemma length_word_bytes [simp]:
  "length (u16_bytes a) = 2" "length (u32_bytes b) = 4" "length (u64_bytes c) = 8"
  by (simp_all add: u16_bytes_def u32_bytes_def u64_bytes_def)

lemma bytes_u16_u16_bytes [simp]: "bytes_u16 (u16_bytes w) = w"
proof -
  have "unat w < 256 ^ 2" using unsigned_less [of w, where ?'a = nat] by simp
  then show ?thesis by (simp add: u16_bytes_def bytes_u16_def)
qed

lemma bytes_u32_u32_bytes [simp]: "bytes_u32 (u32_bytes w) = w"
proof -
  have "unat w < 256 ^ 4" using unsigned_less [of w, where ?'a = nat] by simp
  then show ?thesis by (simp add: u32_bytes_def bytes_u32_def)
qed

lemma bytes_u64_u64_bytes [simp]: "bytes_u64 (u64_bytes w) = w"
proof -
  have "unat w < 256 ^ 8" using unsigned_less [of w, where ?'a = nat] by simp
  then show ?thesis by (simp add: u64_bytes_def bytes_u64_def)
qed

lemma unat_of_nat_u32: "n < 2 ^ 32 \<Longrightarrow> unat (of_nat n :: u32) = n"
  by (simp add: unat_of_nat take_bit_nat_eq_self)

lemma unat_of_nat_u16: "n < 2 ^ 16 \<Longrightarrow> unat (of_nat n :: u16) = n"
  by (simp add: unat_of_nat take_bit_nat_eq_self)

lemma unat_u32_less: "unat (w :: u32) < 4294967296"
  using unsigned_less [of w, where ?'a = nat] by simp

lemma u32_suc_less: "w \<noteq> (0xFFFFFFFF :: u32) \<Longrightarrow> unat w + 1 < 2 ^ 32"
proof -
  assume "w \<noteq> 0xFFFFFFFF"
  then have "unat w \<noteq> unat (0xFFFFFFFF :: u32)" by (metis unsigned_word_eqI)
  with unat_u32_less [of w] show ?thesis by simp
qed

text \<open>A 32-bit word read as a C \<^verbatim>\<open>int\<close>.\<close>

lemma sint_u32_small: "unat (w :: u32) < 2 ^ 31 \<Longrightarrow> sint w = int (unat w)"
proof -
  assume a: "unat w < 2 ^ 31"
  then have "int (unat w) < 2 ^ 31" by (metis of_nat_less_iff of_nat_numeral of_nat_power)
  moreover have "- (2 ^ 31) \<le> int (unat w)" by (rule order_trans [OF _ of_nat_0_le_iff]) simp
  ultimately show ?thesis unfolding sint_uint uint_nat by (intro signed_take_bit_int_eq_self) simp_all
qed

lemma sint_u32_big: "2 ^ 31 \<le> unat (w :: u32) \<Longrightarrow> sint w < 0"
proof -
  assume ge: "2 ^ 31 \<le> unat w"
  define k where "k = uint w"
  have k: "2147483648 \<le> k" "k < 4294967296"
  proof -
    have "int (2 ^ 31) \<le> int (unat w)" using ge by (simp only: of_nat_le_iff)
    then show "2147483648 \<le> k" by (simp add: k_def)
    show "k < 4294967296" using unsigned_less [of w, where ?'a = int] by (simp add: k_def)
  qed
  have "sint w = (k - 2147483648 + 4294967296) mod 4294967296 - 2147483648"
    by (simp add: k_def sint_uint signed_take_bit_eq_take_bit_shift take_bit_eq_mod add.commute)
  also have "\<dots> = (k - 2147483648) mod 4294967296 - 2147483648" by (simp only: mod_add_self2)
  also have "\<dots> = k - 2147483648 - 2147483648" using k by (subst mod_pos_pos_trivial) simp_all
  finally show ?thesis using k by simp
qed

lemma unat_u16_less: "unat (w :: u16) < 65536"
  using unsigned_less [of w, where ?'a = nat] by simp

end
