(* ===== verification/StreamBuffer.thy ===== *)
theory StreamBuffer
  imports Prelude
begin

text \<open>
  The growing byte buffer under every protocol message (\<^verbatim>\<open>struct STREAM_BUFFER\<close> and the
  \<^verbatim>\<open>stream_buffer_*\<close> functions of \<^verbatim>\<open>client/c/tioclient.c\<close>).  The allocated block is a list of
  bytes, the pointer \<^verbatim>\<open>current\<close> its offset into the block, and sizes are 32-bit words, so the
  arithmetic wraps where the C arithmetic does; a \<^verbatim>\<open>memcpy\<close> that leaves the block is a fault.
  The invariant \<open>stream_buffer_inv\<close> is kept by every operation, and under an explicit bound on
  the requested size no operation faults.
\<close>

record stream_buffer =
  sb_buffer :: block
  sb_current :: nat
  sb_buffer_size :: u32

definition stream_buffer_new :: stream_buffer where
  "stream_buffer_new =
     \<lparr> sb_buffer = replicate (1024 * 4) 0xFF, sb_current = 0, sb_buffer_size = 1024 * 4 \<rparr>"

definition stream_buffer_space_used :: "stream_buffer \<Rightarrow> u32" where
  "stream_buffer_space_used sb = of_nat (sb_current sb)"

definition stream_buffer_space_left :: "stream_buffer \<Rightarrow> u32" where
  "stream_buffer_space_left sb = sb_buffer_size sb - stream_buffer_space_used sb"

definition stream_buffer_ensure_space_left :: "stream_buffer \<Rightarrow> u32 \<Rightarrow> stream_buffer cres" where
  "stream_buffer_ensure_space_left sb n =
     (let used = stream_buffer_space_used sb in
      if n \<le> sb_buffer_size sb - used then Inr sb
      else
        let new_size = sb_buffer_size sb + n * 2;
            new_buffer = replicate (unat new_size) 0xFF
        in bind_res (mem_read (sb_buffer sb) 0 (unat (sb_buffer_size sb))) (\<lambda>old.
           bind_res (mem_write new_buffer 0 old) (\<lambda>buf.
             Inr (sb\<lparr> sb_buffer := buf, sb_buffer_size := new_size,
                      sb_current := unat used \<rparr>))))"

definition stream_buffer_seek :: "stream_buffer \<Rightarrow> u32 \<Rightarrow> u32 \<times> stream_buffer" where
  "stream_buffer_seek sb position =
     (let position =
            (if sb_buffer_size sb \<le> position then sb_buffer_size sb - 1 else position)
      in (position, sb\<lparr> sb_current := unat position \<rparr>))"

text \<open>The returned pointer is the offset of the reserved bytes.\<close>

definition stream_buffer_get_write_pointer ::
    "stream_buffer \<Rightarrow> u32 \<Rightarrow> (nat \<times> stream_buffer) cres" where
  "stream_buffer_get_write_pointer sb n =
     bind_res (stream_buffer_ensure_space_left sb n) (\<lambda>sb'.
       Inr (sb_current sb', sb'\<lparr> sb_current := sb_current sb' + unat n \<rparr>))"

text \<open>\<open>buffer\<close> is the source block of the \<^verbatim>\<open>memcpy\<close>; reading past its end is a fault too.\<close>

definition stream_buffer_write ::
    "stream_buffer \<Rightarrow> byte list \<Rightarrow> u32 \<Rightarrow> stream_buffer cres" where
  "stream_buffer_write sb buffer n =
     bind_res (stream_buffer_ensure_space_left sb n) (\<lambda>sb'.
     bind_res (mem_read buffer 0 (unat n)) (\<lambda>src.
     bind_res (mem_write (sb_buffer sb') (sb_current sb') src) (\<lambda>buf.
       Inr (sb'\<lparr> sb_buffer := buf, sb_current := sb_current sb' + unat n \<rparr>))))"

definition stream_buffer_read :: "stream_buffer \<Rightarrow> u32 \<Rightarrow> (u32 \<times> byte list) cres" where
  "stream_buffer_read sb n =
     (let left = stream_buffer_space_left sb;
          n = (if left < n then left else n)
      in bind_res (mem_read (sb_buffer sb) 0 (unat n)) (\<lambda>out. Inr (n, out)))"


section \<open>Invariant\<close>

definition stream_buffer_inv :: "stream_buffer \<Rightarrow> bool" where
  "stream_buffer_inv sb \<longleftrightarrow>
     length (sb_buffer sb) = unat (sb_buffer_size sb) \<and>
     sb_current sb \<le> length (sb_buffer sb)"

text \<open>The bytes written so far.\<close>

definition sb_written :: "stream_buffer \<Rightarrow> byte list" where
  "sb_written sb = take (sb_current sb) (sb_buffer sb)"

lemma stream_buffer_new_inv [simp]: "stream_buffer_inv stream_buffer_new"
  by (simp add: stream_buffer_inv_def stream_buffer_new_def)

lemma sb_written_new [simp]: "sb_written stream_buffer_new = []"
  by (simp add: sb_written_def stream_buffer_new_def)

lemma length_sb_written: "stream_buffer_inv sb \<Longrightarrow> length (sb_written sb) = sb_current sb"
  by (simp add: stream_buffer_inv_def sb_written_def)

lemma space_used_unat:
  "stream_buffer_inv sb \<Longrightarrow> unat (stream_buffer_space_used sb) = sb_current sb"
proof -
  assume inv: "stream_buffer_inv sb"
  then have "sb_current sb < 2 ^ 32"
    using unat_u32_less [of "sb_buffer_size sb"] unfolding stream_buffer_inv_def by simp
  then show ?thesis
    by (simp only: stream_buffer_space_used_def unat_of_nat_u32)
qed

lemma space_left_unat:
  assumes "stream_buffer_inv sb"
  shows "unat (sb_buffer_size sb - stream_buffer_space_used sb)
         = unat (sb_buffer_size sb) - sb_current sb"
proof -
  have "stream_buffer_space_used sb \<le> sb_buffer_size sb"
    using assms by (simp add: word_le_nat_alt space_used_unat) (simp add: stream_buffer_inv_def)
  then show ?thesis
    by (simp add: unat_sub space_used_unat [OF assms])
qed

text \<open>The size after a growth step, without wrap-around.\<close>

lemma grown_size_unat:
  assumes "unat bs + 2 * unat n < 2 ^ 32"
  shows "unat (bs + n * 2 :: u32) = unat bs + 2 * unat n"
proof -
  have "unat (n * 2) = 2 * unat n"
    using assms by (simp add: unat_word_ariths)
  then show ?thesis
    using assms by (simp add: unat_word_ariths)
qed

lemma ensure_space_left_ok:
  assumes inv: "stream_buffer_inv sb"
    and room: "unat (sb_buffer_size sb) + 2 * unat n < 2 ^ 32"
  shows "\<exists>sb'. stream_buffer_ensure_space_left sb n = Inr sb' \<and> stream_buffer_inv sb' \<and>
           sb_current sb' = sb_current sb \<and> sb_written sb' = sb_written sb \<and>
           sb_current sb + unat n \<le> length (sb_buffer sb') \<and>
           unat (sb_buffer_size sb') \<le> unat (sb_buffer_size sb) + 2 * unat n"
proof (cases "n \<le> sb_buffer_size sb - stream_buffer_space_used sb")
  case True
  then have "unat n \<le> unat (sb_buffer_size sb) - sb_current sb"
    by (simp add: word_le_nat_alt space_left_unat [OF inv])
  with True inv show ?thesis
    by (auto simp: stream_buffer_ensure_space_left_def Let_def stream_buffer_inv_def)
next
  case False
  let ?new = "sb_buffer_size sb + n * 2"
  have new: "unat ?new = unat (sb_buffer_size sb) + 2 * unat n"
    by (rule grown_size_unat [OF room])
  have small: "\<not> unat n \<le> unat (sb_buffer_size sb) - sb_current sb"
    using False by (simp add: word_le_nat_alt space_left_unat [OF inv])
  from inv have len: "length (sb_buffer sb) = unat (sb_buffer_size sb)"
    and cur: "sb_current sb \<le> length (sb_buffer sb)"
    by (auto simp: stream_buffer_inv_def)
  let ?buf = "sb_buffer sb @ replicate (2 * unat n) 0xFF"
  have "stream_buffer_ensure_space_left sb n =
          Inr (sb\<lparr> sb_buffer := ?buf, sb_buffer_size := ?new, sb_current := sb_current sb \<rparr>)"
    using False new len
    by (simp add: stream_buffer_ensure_space_left_def Let_def mem_read_def mem_write_def
          space_used_unat [OF inv])
  with new len cur small show ?thesis
    by (auto simp: stream_buffer_inv_def sb_written_def)
qed

lemma stream_buffer_write_ok:
  assumes inv: "stream_buffer_inv sb" and len: "length src = unat n"
    and room: "unat (sb_buffer_size sb) + 2 * unat n < 2 ^ 32"
  shows "\<exists>sb'. stream_buffer_write sb src n = Inr sb' \<and> stream_buffer_inv sb' \<and>
           sb_written sb' = sb_written sb @ src \<and>
           unat (sb_buffer_size sb') \<le> unat (sb_buffer_size sb) + 2 * unat n"
proof -
  obtain s1 where s1: "stream_buffer_ensure_space_left sb n = Inr s1"
    and inv1: "stream_buffer_inv s1"
    and cur: "sb_current s1 = sb_current sb" and wr: "sb_written s1 = sb_written sb"
    and fits: "sb_current sb + unat n \<le> length (sb_buffer s1)"
    and sz: "unat (sb_buffer_size s1) \<le> unat (sb_buffer_size sb) + 2 * unat n"
    using ensure_space_left_ok [OF inv room] by blast
  let ?buf = "take (sb_current s1) (sb_buffer s1) @ src @
              drop (sb_current s1 + length src) (sb_buffer s1)"
  let ?sb' = "s1\<lparr> sb_buffer := ?buf, sb_current := sb_current s1 + unat n \<rparr>"
  have w: "mem_write (sb_buffer s1) (sb_current s1) src = Inr ?buf"
    using fits cur len by (simp add: mem_write_ok)
  have "stream_buffer_write sb src n = Inr ?sb'"
    using len w by (simp add: stream_buffer_write_def s1 mem_read_def)
  moreover have "stream_buffer_inv ?sb'"
    using inv1 fits cur len by (auto simp: stream_buffer_inv_def)
  moreover have "sb_written ?sb' = sb_written s1 @ src"
    using inv1 fits cur len by (simp add: sb_written_def stream_buffer_inv_def)
  ultimately show ?thesis
    using sz wr by auto
qed

lemma stream_buffer_get_write_pointer_ok:
  assumes inv: "stream_buffer_inv sb"
    and room: "unat (sb_buffer_size sb) + 2 * unat n < 2 ^ 32"
  shows "\<exists>sb'. stream_buffer_get_write_pointer sb n = Inr (sb_current sb, sb') \<and>
           stream_buffer_inv sb' \<and> sb_current sb' = sb_current sb + unat n \<and>
           take (sb_current sb) (sb_buffer sb') = sb_written sb \<and>
           unat (sb_buffer_size sb') \<le> unat (sb_buffer_size sb) + 2 * unat n"
  using ensure_space_left_ok [OF inv room]
  by (auto simp: stream_buffer_get_write_pointer_def stream_buffer_inv_def sb_written_def)

text \<open>Seeking keeps the invariant as long as the buffer is not empty.\<close>

lemma stream_buffer_seek_inv:
  assumes "stream_buffer_inv sb" and "sb_buffer_size sb \<noteq> 0"
  shows "stream_buffer_inv (snd (stream_buffer_seek sb position))"
proof -
  have "unat (sb_buffer_size sb - 1) = unat (sb_buffer_size sb) - 1"
    using assms(2) by (simp add: unat_sub unat_gt_0 word_le_nat_alt Suc_leI)
  with assms show ?thesis
    by (auto simp: stream_buffer_seek_def stream_buffer_inv_def Let_def word_le_nat_alt not_le)
qed

text \<open>
  When the doubled request passes \<open>2 ^ 32\<close> the new size wraps below the old one, and copying the
  old bytes leaves the new block.
\<close>

lemma ensure_space_left_wraps:
  assumes inv: "stream_buffer_inv sb"
    and grow: "unat (sb_buffer_size sb) - sb_current sb < unat n"
    and wrap: "2 ^ 32 \<le> unat (sb_buffer_size sb) + 2 * unat n" and n: "unat n < 2 ^ 31"
  shows "stream_buffer_ensure_space_left sb n = Inl BufferOverrun"
proof -
  let ?new = "sb_buffer_size sb + n * 2"
  have bs: "unat (sb_buffer_size sb) < 2 ^ 32" using unat_u32_less by simp
  have "unat (n * 2) = 2 * unat n"
    using n by (simp add: unat_word_ariths)
  then have "unat ?new = (unat (sb_buffer_size sb) + 2 * unat n) mod 2 ^ 32"
    by (simp add: unat_word_ariths)
  also have "\<dots> = unat (sb_buffer_size sb) + 2 * unat n - 2 ^ 32"
    using wrap bs n by (simp add: mod_if)
  finally have small: "unat ?new < unat (sb_buffer_size sb)"
    using wrap n by simp
  have "\<not> n \<le> sb_buffer_size sb - stream_buffer_space_used sb"
    using grow by (simp add: word_le_nat_alt space_left_unat [OF inv])
  moreover have "length (sb_buffer sb) = unat (sb_buffer_size sb)"
    using inv by (simp add: stream_buffer_inv_def)
  ultimately show ?thesis
    using small by (simp add: stream_buffer_ensure_space_left_def Let_def mem_read_def mem_write_def)
qed

end
