(* ===== verification/Pr1Message.thy ===== *)
theory Pr1Message
  imports StreamBuffer
begin

text \<open>
  The binary protocol messages (\<^verbatim>\<open>pr1_message_*\<close> of \<^verbatim>\<open>client/c/tioclient.c\<close>, with the structs and
  codes of \<^verbatim>\<open>client/c/tioclient_internals.h\<close>): building a message field by field, filling its
  header, parsing the field table, reading fields, and preparing a message for reception.
  A pointer to a field is the offset of its header in the message's buffer.  A C \<^verbatim>\<open>int\<close> is a
  32-bit word (read with \<open>sint\<close>), a \<^verbatim>\<open>double\<close> the 64-bit word of its representation, since the
  code only copies it.  An \<^verbatim>\<open>assert\<close> that fails is a fault.  The main result is that a message
  built by any sequence of \<open>pr1_message_add_field\<close> calls is parsed back into exactly those
  fields, by the sender and by a receiver that copies the bytes.
\<close>

abbreviation (input) "MESSAGE_FIELD_TYPE_NONE \<equiv> (0x1 :: u16)"
abbreviation (input) "MESSAGE_FIELD_TYPE_STRING \<equiv> (0x2 :: u16)"
abbreviation (input) "MESSAGE_FIELD_TYPE_INT \<equiv> (0x3 :: u16)"
abbreviation (input) "MESSAGE_FIELD_TYPE_DOUBLE \<equiv> (0x4 :: u16)"
abbreviation (input) "MESSAGE_FIELD_TYPE_MAX_VALUE \<equiv> MESSAGE_FIELD_TYPE_DOUBLE"

abbreviation (input) "MESSAGE_FIELD_ID_COMMAND \<equiv> (0x1 :: u16)"
abbreviation (input) "MESSAGE_FIELD_ID_HANDLE \<equiv> (0x2 :: u16)"
abbreviation (input) "MESSAGE_FIELD_ID_KEY \<equiv> (0x3 :: u16)"
abbreviation (input) "MESSAGE_FIELD_ID_VALUE \<equiv> (0x4 :: u16)"
abbreviation (input) "MESSAGE_FIELD_ID_METADATA \<equiv> (0x5 :: u16)"
abbreviation (input) "MESSAGE_FIELD_ID_NAME \<equiv> (0x6 :: u16)"
abbreviation (input) "MESSAGE_FIELD_ID_TYPE \<equiv> (0x7 :: u16)"
abbreviation (input) "MESSAGE_FIELD_ID_ERROR_CODE \<equiv> (0x8 :: u16)"
abbreviation (input) "MESSAGE_FIELD_ID_ERROR_DESC \<equiv> (0x9 :: u16)"
abbreviation (input) "MESSAGE_FIELD_ID_EVENT_CODE \<equiv> (0xA :: u16)"
abbreviation (input) "MESSAGE_FIELD_ID_START_RECORD \<equiv> (0xB :: u16)"
abbreviation (input) "MESSAGE_FIELD_ID_END \<equiv> (0xC :: u16)"
abbreviation (input) "MESSAGE_FIELD_ID_QUERY_ID \<equiv> (0xD :: u16)"
abbreviation (input) "MESSAGE_FIELD_ID_GROUP_NAME \<equiv> (0xE :: u16)"
abbreviation (input) "MESSAGE_FIELD_ID_CONTAINER_NAME \<equiv> (0xF :: u16)"
abbreviation (input) "MESSAGE_FIELD_ID_CONTAINER_TYPE \<equiv> (0x10 :: u16)"
abbreviation (input) "MESSAGE_FIELD_ID_QUERY_EXPRESSION \<equiv> (0x11 :: u16)"
abbreviation (input) "MESSAGE_FIELD_ID_MAX_VALUE \<equiv> MESSAGE_FIELD_ID_QUERY_EXPRESSION"

abbreviation (input) "TIO_COMMAND_ANSWER \<equiv> (0x1 :: u32)"
abbreviation (input) "TIO_COMMAND_EVENT \<equiv> (0x2 :: u32)"
abbreviation (input) "TIO_COMMAND_QUERY_ITEM \<equiv> (0x3 :: u32)"
abbreviation (input) "TIO_COMMAND_NEW_GROUP_CONTAINER \<equiv> (0x4 :: u32)"
abbreviation (input) "TIO_COMMAND_WAIT_AND_POP_NEXT \<equiv> (0x21 :: u32)"
abbreviation (input) "TIO_COMMAND_PING \<equiv> (0x10 :: u32)"
abbreviation (input) "TIO_COMMAND_OPEN \<equiv> (0x11 :: u32)"
abbreviation (input) "TIO_COMMAND_CREATE \<equiv> (0x12 :: u32)"
abbreviation (input) "TIO_COMMAND_CLOSE \<equiv> (0x13 :: u32)"
abbreviation (input) "TIO_COMMAND_SET \<equiv> (0x14 :: u32)"
abbreviation (input) "TIO_COMMAND_INSERT \<equiv> (0x15 :: u32)"
abbreviation (input) "TIO_COMMAND_DELETE \<equiv> (0x16 :: u32)"
abbreviation (input) "TIO_COMMAND_PUSH_BACK \<equiv> (0x17 :: u32)"
abbreviation (input) "TIO_COMMAND_PUSH_FRONT \<equiv> (0x18 :: u32)"
abbreviation (input) "TIO_COMMAND_POP_BACK \<equiv> (0x19 :: u32)"
abbreviation (input) "TIO_COMMAND_POP_FRONT \<equiv> (0x1A :: u32)"
abbreviation (input) "TIO_COMMAND_CLEAR \<equiv> (0x1B :: u32)"
abbreviation (input) "TIO_COMMAND_COUNT \<equiv> (0x1C :: u32)"
abbreviation (input) "TIO_COMMAND_GET \<equiv> (0x1D :: u32)"
abbreviation (input) "TIO_COMMAND_SUBSCRIBE \<equiv> (0x1E :: u32)"
abbreviation (input) "TIO_COMMAND_UNSUBSCRIBE \<equiv> (0x1F :: u32)"
abbreviation (input) "TIO_COMMAND_QUERY \<equiv> (0x20 :: u32)"
abbreviation (input) "TIO_COMMAND_PROPGET \<equiv> (0x30 :: u32)"
abbreviation (input) "TIO_COMMAND_PROPSET \<equiv> (0x31 :: u32)"
abbreviation (input) "TIO_COMMAND_GROUP_ADD \<equiv> (0x33 :: u32)"
abbreviation (input) "TIO_COMMAND_GROUP_SUBSCRIBE \<equiv> (0x34 :: u32)"

abbreviation (input) "TIO_ERROR_GENERIC \<equiv> (- 1 :: int)"
abbreviation (input) "TIO_ERROR_NETWORK \<equiv> (- 2 :: int)"
abbreviation (input) "TIO_ERROR_PROTOCOL \<equiv> (- 3 :: int)"
abbreviation (input) "TIO_ERROR_MISSING_PARAMETER \<equiv> (- 4 :: int)"
abbreviation (input) "TIO_ERROR_NO_SUCH_OBJECT \<equiv> (- 5 :: int)"
abbreviation (input) "TIO_ERROR_TIMEOUT \<equiv> (- 6 :: int)"
abbreviation (input) "TIO_ERROR_OUT_OF_MEMORY \<equiv> (- 7 :: int)"


section \<open>Structs in the buffer\<close>

text \<open>
  \<^verbatim>\<open>struct PR1_MESSAGE_HEADER\<close> is \<^verbatim>\<open>message_size\<close> (4 bytes), \<^verbatim>\<open>field_count\<close> (2) and
  \<^verbatim>\<open>debug_session_seq_nun\<close> (2); \<^verbatim>\<open>struct PR1_MESSAGE_FIELD_HEADER\<close> is \<^verbatim>\<open>field_id\<close> (2),
  \<^verbatim>\<open>data_type\<close> (2) and \<^verbatim>\<open>data_size\<close> (4).  Both have no padding.
\<close>

abbreviation (input) "sizeof_PR1_MESSAGE_HEADER \<equiv> (8 :: nat)"
abbreviation (input) "sizeof_PR1_MESSAGE_FIELD_HEADER \<equiv> (8 :: nat)"

definition header_message_size :: "block \<Rightarrow> u32 cres" where
  "header_message_size b = bind_res (mem_read b 0 4) (\<lambda>bs. Inr (bytes_u32 bs))"

definition header_field_count :: "block \<Rightarrow> u16 cres" where
  "header_field_count b = bind_res (mem_read b 4 2) (\<lambda>bs. Inr (bytes_u16 bs))"

definition field_id_at :: "block \<Rightarrow> nat \<Rightarrow> u16 cres" where
  "field_id_at b f = bind_res (mem_read b f 2) (\<lambda>bs. Inr (bytes_u16 bs))"

definition data_type_at :: "block \<Rightarrow> nat \<Rightarrow> u16 cres" where
  "data_type_at b f = bind_res (mem_read b (f + 2) 2) (\<lambda>bs. Inr (bytes_u16 bs))"

definition data_size_at :: "block \<Rightarrow> nat \<Rightarrow> u32 cres" where
  "data_size_at b f = bind_res (mem_read b (f + 4) 4) (\<lambda>bs. Inr (bytes_u32 bs))"

definition sb_poke :: "stream_buffer \<Rightarrow> nat \<Rightarrow> byte list \<Rightarrow> stream_buffer cres" where
  "sb_poke sb off bs =
     bind_res (mem_write (sb_buffer sb) off bs) (\<lambda>b. Inr (sb\<lparr> sb_buffer := b \<rparr>))"


section \<open>Building a message\<close>

record pr1_message =
  pm_stream_buffer :: stream_buffer
  pm_field_array :: "nat list option"
  pm_field_count :: u16

abbreviation pm_block :: "pr1_message \<Rightarrow> block" where
  "pm_block m \<equiv> sb_buffer (pm_stream_buffer m)"

definition pr1_message_new :: "pr1_message cres" where
  "pr1_message_new =
     bind_res (stream_buffer_get_write_pointer stream_buffer_new
                 (of_nat sizeof_PR1_MESSAGE_HEADER)) (\<lambda>(header, sb).
     bind_res (sb_poke sb header (u32_bytes 0xFFFFFFFF)) (\<lambda>sb.
     bind_res (sb_poke sb (header + 6) (u16_bytes 0)) (\<lambda>sb.
       Inr \<lparr> pm_stream_buffer = sb, pm_field_array = None, pm_field_count = 0 \<rparr>)))"

definition pr1_message_add_field ::
    "pr1_message \<Rightarrow> u16 \<Rightarrow> u16 \<Rightarrow> byte list \<Rightarrow> u32 \<Rightarrow> pr1_message cres" where
  "pr1_message_add_field m field_id data_type buffer buffer_size =
     bind_res (stream_buffer_get_write_pointer (pm_stream_buffer m)
                 (of_nat sizeof_PR1_MESSAGE_FIELD_HEADER)) (\<lambda>(fh, sb).
     bind_res (sb_poke sb (fh + 2) (u16_bytes data_type)) (\<lambda>sb.
     bind_res (sb_poke sb fh (u16_bytes field_id)) (\<lambda>sb.
     bind_res (sb_poke sb (fh + 4) (u32_bytes buffer_size)) (\<lambda>sb.
     bind_res (stream_buffer_write sb buffer buffer_size) (\<lambda>sb.
       Inr (m\<lparr> pm_stream_buffer := sb, pm_field_count := pm_field_count m + 1 \<rparr>))))))"

definition pr1_message_add_field_int :: "pr1_message \<Rightarrow> u16 \<Rightarrow> u32 \<Rightarrow> pr1_message cres" where
  "pr1_message_add_field_int m field_id v =
     pr1_message_add_field m field_id MESSAGE_FIELD_TYPE_INT (u32_bytes v) 4"

definition pr1_message_add_field_double :: "pr1_message \<Rightarrow> u16 \<Rightarrow> u64 \<Rightarrow> pr1_message cres" where
  "pr1_message_add_field_double m field_id v =
     pr1_message_add_field m field_id MESSAGE_FIELD_TYPE_DOUBLE (u64_bytes v) 8"

text \<open>
  A C string is its bytes up to the terminating zero; \<^verbatim>\<open>strlen32\<close> asserts that the length fits
  32 bits.
\<close>

definition strlen32 :: "byte list \<Rightarrow> u32 cres" where
  "strlen32 str =
     (let n = length (takeWhile (\<lambda>c. c \<noteq> 0) str) in
      bind_res (guard_res (n < 0xFFFFFFFF) AssertionFailed) (\<lambda>_. Inr (of_nat n)))"

definition pr1_message_add_field_string ::
    "pr1_message \<Rightarrow> u16 \<Rightarrow> byte list \<Rightarrow> pr1_message cres" where
  "pr1_message_add_field_string m field_id v =
     bind_res (strlen32 v) (\<lambda>n.
       pr1_message_add_field m field_id MESSAGE_FIELD_TYPE_STRING v n)"

definition pr1_message_get_data_size :: "pr1_message \<Rightarrow> u32" where
  "pr1_message_get_data_size m = stream_buffer_space_used (pm_stream_buffer m)"

definition pr1_message_fill_header_info :: "pr1_message \<Rightarrow> u16 \<Rightarrow> pr1_message cres" where
  "pr1_message_fill_header_info m debug_seq_num =
     (let sb = pm_stream_buffer m in
      bind_res (sb_poke sb 0
        (u32_bytes (stream_buffer_space_used sb - of_nat sizeof_PR1_MESSAGE_HEADER))) (\<lambda>sb.
      bind_res (sb_poke sb 4 (u16_bytes (pm_field_count m))) (\<lambda>sb.
      bind_res (sb_poke sb 6 (u16_bytes debug_seq_num)) (\<lambda>sb.
        Inr (m\<lparr> pm_stream_buffer := sb \<rparr>)))))"

text \<open>The buffer handed to \<^verbatim>\<open>send\<close>: the used bytes, with the header filled in.\<close>

definition pr1_message_get_buffer ::
    "pr1_message \<Rightarrow> u16 \<Rightarrow> (byte list \<times> u32 \<times> pr1_message) cres" where
  "pr1_message_get_buffer m debug_seq_num =
     bind_res (pr1_message_fill_header_info m debug_seq_num) (\<lambda>m.
       let n = stream_buffer_space_used (pm_stream_buffer m) in
       bind_res (mem_read (pm_block m) 0 (unat n)) (\<lambda>bs. Inr (bs, n, m)))"


section \<open>Parsing\<close>

fun pr1_message_parse_loop ::
    "block \<Rightarrow> u32 \<Rightarrow> nat \<Rightarrow> nat \<Rightarrow> nat \<Rightarrow> nat list \<Rightarrow> nat list cres" where
  "pr1_message_parse_loop b message_size 0 current tot arr =
     bind_res (guard_res (tot = unat message_size) AssertionFailed) (\<lambda>_. Inr arr)"
| "pr1_message_parse_loop b message_size (Suc n) current tot arr =
     bind_res (data_size_at b current) (\<lambda>data_size.
     bind_res (field_id_at b current) (\<lambda>field_id.
     bind_res (data_type_at b current) (\<lambda>data_type.
     let offset = unat data_size + sizeof_PR1_MESSAGE_FIELD_HEADER;
         tot' = tot + offset
     in bind_res (guard_res (field_id \<noteq> 0) AssertionFailed) (\<lambda>_.
        bind_res (guard_res (field_id \<le> MESSAGE_FIELD_ID_MAX_VALUE) AssertionFailed) (\<lambda>_.
        bind_res (guard_res (data_type \<noteq> 0) AssertionFailed) (\<lambda>_.
        bind_res (guard_res (data_type \<le> MESSAGE_FIELD_TYPE_MAX_VALUE) AssertionFailed) (\<lambda>_.
        bind_res (guard_res (unat data_size \<le> unat message_size + sizeof_PR1_MESSAGE_HEADER)
                    AssertionFailed) (\<lambda>_.
        bind_res (guard_res (tot' \<le> unat message_size) AssertionFailed) (\<lambda>_.
          pr1_message_parse_loop b message_size n (current + offset) tot'
            (arr @ [current]))))))))))"

definition pr1_message_parse :: "pr1_message \<Rightarrow> pr1_message cres" where
  "pr1_message_parse m =
     bind_res (header_message_size (pm_block m)) (\<lambda>message_size.
     bind_res (guard_res (message_size \<noteq> 0xFFFFFFFF) AssertionFailed) (\<lambda>_.
     bind_res (header_field_count (pm_block m)) (\<lambda>field_count.
     bind_res (pr1_message_parse_loop (pm_block m) message_size (unat field_count)
                 sizeof_PR1_MESSAGE_HEADER 0 []) (\<lambda>arr.
       Inr (m\<lparr> pm_field_count := field_count, pm_field_array := Some arr \<rparr>)))))"


section \<open>Reading fields\<close>

fun pr1_message_find_loop :: "block \<Rightarrow> u32 \<Rightarrow> nat list \<Rightarrow> nat option cres" where
  "pr1_message_find_loop b field_id [] = Inr None"
| "pr1_message_find_loop b field_id (f # fs) =
     bind_res (field_id_at b f) (\<lambda>i.
       if (ucast i :: u32) = field_id then Inr (Some f) else pr1_message_find_loop b field_id fs)"

text \<open>
  The loop reads \<^verbatim>\<open>field_array[a]\<close> for \<open>a\<close> below \<^verbatim>\<open>field_count\<close>: the array is null before the
  first parse, and too short when fields were added after it.
\<close>

definition pr1_message_field_find_by_id :: "pr1_message \<Rightarrow> u32 \<Rightarrow> nat option cres" where
  "pr1_message_field_find_by_id m field_id =
     (case pm_field_array m of
        None \<Rightarrow> if pm_field_count m = 0 then Inr None else Inl NullDereference
      | Some fs \<Rightarrow>
          bind_res (pr1_message_find_loop (pm_block m) field_id (take (unat (pm_field_count m)) fs))
            (\<lambda>r. if r = None \<and> length fs < unat (pm_field_count m) then Inl BufferOverrun
                 else Inr r))"

definition pr1_message_field_get_int :: "block \<Rightarrow> nat \<Rightarrow> u32 cres" where
  "pr1_message_field_get_int b f =
     bind_res (data_size_at b f) (\<lambda>n.
     bind_res (guard_res (n = 4) AssertionFailed) (\<lambda>_.
     bind_res (mem_read b (f + sizeof_PR1_MESSAGE_FIELD_HEADER) 4) (\<lambda>bs. Inr (bytes_u32 bs))))"

definition pr1_message_field_get_double :: "block \<Rightarrow> nat \<Rightarrow> u64 cres" where
  "pr1_message_field_get_double b f =
     bind_res (data_size_at b f) (\<lambda>n.
     bind_res (guard_res (n = 8) AssertionFailed) (\<lambda>_.
     bind_res (mem_read b (f + sizeof_PR1_MESSAGE_FIELD_HEADER) 8) (\<lambda>bs. Inr (bytes_u64 bs))))"

definition pr1_message_field_get_buffer :: "nat \<Rightarrow> nat" where
  "pr1_message_field_get_buffer f = f + sizeof_PR1_MESSAGE_FIELD_HEADER"

text \<open>\<open>buffer\<close> is the caller's block, returned with what the function wrote to it.\<close>

definition pr1_message_field_get_string ::
    "block \<Rightarrow> nat \<Rightarrow> block \<Rightarrow> u32 \<Rightarrow> block cres" where
  "pr1_message_field_get_string b f buffer buffer_size =
     bind_res (data_size_at b f) (\<lambda>data_size.
     let copy_size = (if buffer_size < data_size then buffer_size else data_size) in
     bind_res (mem_read b (f + sizeof_PR1_MESSAGE_FIELD_HEADER) (unat copy_size)) (\<lambda>src.
     bind_res (mem_write buffer 0 src) (\<lambda>buffer.
       if copy_size < buffer_size then mem_write buffer (unat copy_size) [0] else Inr buffer)))"

definition pr1_message_field_get_string_malloc :: "block \<Rightarrow> nat \<Rightarrow> block cres" where
  "pr1_message_field_get_string_malloc b f =
     bind_res (data_size_at b f) (\<lambda>data_size.
     let n = data_size + 1 in
       pr1_message_field_get_string b f (replicate (unat n) 0) n)"


section \<open>Receiving\<close>

text \<open>The offset at which the payload is to be received, and the prepared message.\<close>

definition pr1_message_new_get_buffer_for_receive :: "block \<Rightarrow> (nat \<times> pr1_message) cres" where
  "pr1_message_new_get_buffer_for_receive message_header =
     bind_res pr1_message_new (\<lambda>m.
     let sb = snd (stream_buffer_seek (pm_stream_buffer m) 0) in
     bind_res (stream_buffer_write sb message_header (of_nat sizeof_PR1_MESSAGE_HEADER)) (\<lambda>sb.
     bind_res (header_message_size message_header) (\<lambda>message_size.
     bind_res (stream_buffer_get_write_pointer sb message_size) (\<lambda>(p, sb).
       Inr (p, m\<lparr> pm_stream_buffer := sb \<rparr>)))))"


section \<open>The fields a message holds\<close>

text \<open>
  A field as the sender gave it: its id, its type code and its bytes; and its encoding on the
  wire.
\<close>

type_synonym pr1_field = "u16 \<times> u16 \<times> byte list"

definition encode_field :: "pr1_field \<Rightarrow> byte list" where
  "encode_field f =
     (case f of (i, t, d) \<Rightarrow> u16_bytes i @ u16_bytes t @ u32_bytes (of_nat (length d)) @ d)"

definition encode_fields :: "pr1_field list \<Rightarrow> byte list" where
  "encode_fields fs = concat (map encode_field fs)"

lemma encode_fields_simps [simp]:
  "encode_fields [] = []"
  "encode_fields (f # fs) = encode_field f @ encode_fields fs"
  "encode_fields (fs @ gs) = encode_fields fs @ encode_fields gs"
  by (simp_all add: encode_fields_def)

lemma length_encode_field [simp]: "length (encode_field (i, t, d)) = 8 + length d"
  by (simp add: encode_field_def)

text \<open>The ids and type codes that the receiver accepts.\<close>

fun pr1_field_ok :: "pr1_field \<Rightarrow> bool" where
  "pr1_field_ok (i, t, d) \<longleftrightarrow>
     i \<noteq> 0 \<and> i \<le> MESSAGE_FIELD_ID_MAX_VALUE \<and> t \<noteq> 0 \<and> t \<le> MESSAGE_FIELD_TYPE_MAX_VALUE"

text \<open>
  \<open>pm_holds m fs\<close>: the message buffer carries, after its header, the encodings of \<open>fs\<close>, the
  count is their number (modulo \<open>2 ^ 16\<close>) and the buffer grew by at most twice what was asked.
\<close>

definition pm_holds :: "pr1_message \<Rightarrow> pr1_field list \<Rightarrow> bool" where
  "pm_holds m fs \<longleftrightarrow>
     stream_buffer_inv (pm_stream_buffer m) \<and>
     8 \<le> sb_current (pm_stream_buffer m) \<and>
     drop 8 (sb_written (pm_stream_buffer m)) = encode_fields fs \<and>
     pm_field_count m = of_nat (length fs) \<and>
     unat (sb_buffer_size (pm_stream_buffer m)) \<le> 4096 + 2 * length (encode_fields fs)"

lemma pm_holds_current:
  assumes "pm_holds m fs"
  shows "sb_current (pm_stream_buffer m) = 8 + length (encode_fields fs)"
proof -
  have "length (drop 8 (sb_written (pm_stream_buffer m))) = length (encode_fields fs)"
    using assms by (simp add: pm_holds_def)
  moreover have "stream_buffer_inv (pm_stream_buffer m)" "8 \<le> sb_current (pm_stream_buffer m)"
    using assms by (simp_all add: pm_holds_def)
  ultimately show ?thesis by (simp add: length_sb_written)
qed

lemma sb_poke_mid:
  assumes "sb_buffer sb = p @ r @ s" and "length p = off" and "k + length xs \<le> length r"
  shows "sb_poke sb (off + k) xs =
         Inr (sb\<lparr> sb_buffer := p @ (take k r @ xs @ drop (k + length xs) r) @ s \<rparr>)"
  by (simp only: sb_poke_def assms(1) mem_write_mid [OF assms(2,3)] bind_res_simps)

text \<open>Writing the three parts of a struct over its eight reserved bytes, in any order.\<close>

lemma field_header_pokes:
  assumes b: "sb_buffer sb = p @ r @ s" and p: "length p = off" and r: "length r = 8"
  shows "bind_res (sb_poke sb (off + 2) (u16_bytes t)) (\<lambda>sb.
         bind_res (sb_poke sb off (u16_bytes i)) (\<lambda>sb.
         bind_res (sb_poke sb (off + 4) (u32_bytes n)) g)) =
         g (sb\<lparr> sb_buffer := p @ (u16_bytes i @ u16_bytes t @ u32_bytes n) @ s \<rparr>)"
proof -
  let ?r1 = "take 2 r @ u16_bytes t @ drop 4 r"
  let ?s1 = "sb\<lparr> sb_buffer := p @ ?r1 @ s \<rparr>"
  have 1: "sb_poke sb (off + 2) (u16_bytes t) = Inr ?s1"
    using sb_poke_mid [OF b p, of 2 "u16_bytes t"] r by simp
  let ?r2 = "u16_bytes i @ u16_bytes t @ drop 4 r"
  let ?s2 = "sb\<lparr> sb_buffer := p @ ?r2 @ s \<rparr>"
  have 2: "sb_poke ?s1 off (u16_bytes i) = Inr ?s2"
    using sb_poke_mid [where sb = ?s1 and r = ?r1 and p = p and s = s and k = 0
        and xs = "u16_bytes i", OF _ p] r by simp
  have 3: "sb_poke ?s2 (off + 4) (u32_bytes n) =
      Inr (sb\<lparr> sb_buffer := p @ (u16_bytes i @ u16_bytes t @ u32_bytes n) @ s \<rparr>)"
    using sb_poke_mid [where sb = ?s2 and r = ?r2 and p = p and s = s and k = 4
        and xs = "u32_bytes n", OF _ p] r by simp
  show ?thesis by (simp only: 1 2 3 bind_res_simps)
qed

lemma message_header_pokes:
  assumes b: "sb_buffer sb = r @ s" and r: "length r = 8"
  shows "bind_res (sb_poke sb 0 (u32_bytes n)) (\<lambda>sb.
         bind_res (sb_poke sb 4 (u16_bytes c)) (\<lambda>sb.
         bind_res (sb_poke sb 6 (u16_bytes q)) g)) =
         g (sb\<lparr> sb_buffer := (u32_bytes n @ u16_bytes c @ u16_bytes q) @ s \<rparr>)"
proof -
  let ?r1 = "u32_bytes n @ drop 4 r"
  let ?s1 = "sb\<lparr> sb_buffer := ?r1 @ s \<rparr>"
  have 1: "sb_poke sb 0 (u32_bytes n) = Inr ?s1"
    using sb_poke_mid [where p = "[]" and off = 0 and k = 0 and r = r and s = s
        and xs = "u32_bytes n" and sb = sb] b r by simp
  let ?r2 = "u32_bytes n @ u16_bytes c @ drop 6 r"
  let ?s2 = "sb\<lparr> sb_buffer := ?r2 @ s \<rparr>"
  have 2: "sb_poke ?s1 4 (u16_bytes c) = Inr ?s2"
    using sb_poke_mid [where sb = ?s1 and r = ?r1 and p = "[]" and off = 0 and s = s and k = 4
        and xs = "u16_bytes c"] r by simp
  have 3: "sb_poke ?s2 6 (u16_bytes q) =
      Inr (sb\<lparr> sb_buffer := (u32_bytes n @ u16_bytes c @ u16_bytes q) @ s \<rparr>)"
    using sb_poke_mid [where sb = ?s2 and r = ?r2 and p = "[]" and off = 0 and s = s and k = 6
        and xs = "u16_bytes q"] r by simp
  show ?thesis by (simp only: 1 2 3 bind_res_simps)
qed

text \<open>A message under construction always holds the fields added so far.\<close>

lemma sb_split_reserved:
  assumes "stream_buffer_inv sb" and "sb_current sb = c + k"
  shows "\<exists>r s. sb_buffer sb = take c (sb_buffer sb) @ r @ s \<and> length r = k \<and>
           length (take c (sb_buffer sb)) = c"
proof (intro exI conjI)
  show "sb_buffer sb = take c (sb_buffer sb) @ take k (drop c (sb_buffer sb)) @
          drop (c + k) (sb_buffer sb)"
    by (metis add.commute append_take_drop_id drop_drop)
qed (use assms in \<open>auto simp: stream_buffer_inv_def\<close>)

lemma pr1_message_new_holds: "\<exists>m. pr1_message_new = Inr m \<and> pm_holds m []"
  by (simp add: pr1_message_new_def stream_buffer_get_write_pointer_def Let_def
        stream_buffer_ensure_space_left_def stream_buffer_new_def stream_buffer_space_used_def
        sb_poke_def mem_write_def pm_holds_def stream_buffer_inv_def sb_written_def)

lemma pr1_message_add_field_holds:
  assumes m: "pm_holds m fs" and d: "length d = unat n"
    and room: "length (encode_fields fs) + length d < 2 ^ 31 - 4096"
  shows "\<exists>m'. pr1_message_add_field m i t d n = Inr m' \<and> pm_holds m' (fs @ [(i, t, d)])"
proof -
  let ?sb = "pm_stream_buffer m" and ?E = "encode_fields fs"
  from m have inv: "stream_buffer_inv ?sb" and pay: "drop 8 (sb_written ?sb) = ?E"
    and cnt: "pm_field_count m = of_nat (length fs)" and cur8: "8 \<le> sb_current ?sb"
    and size: "unat (sb_buffer_size ?sb) \<le> 4096 + 2 * length ?E"
    by (auto simp: pm_holds_def)
  have room8: "unat (sb_buffer_size ?sb) + 2 * unat (of_nat 8 :: u32) < 2 ^ 32"
    using size room by simp
  obtain s1 where s1: "stream_buffer_get_write_pointer ?sb (of_nat 8) = Inr (sb_current ?sb, s1)"
    and inv1: "stream_buffer_inv s1" and cur1: "sb_current s1 = sb_current ?sb + 8"
    and wr1: "take (sb_current ?sb) (sb_buffer s1) = sb_written ?sb"
    and size1: "unat (sb_buffer_size s1) \<le> unat (sb_buffer_size ?sb) + 16"
    using stream_buffer_get_write_pointer_ok [OF inv room8] by auto
  obtain r s where b1: "sb_buffer s1 = take (sb_current ?sb) (sb_buffer s1) @ r @ s"
    and r: "length r = 8" and p: "length (take (sb_current ?sb) (sb_buffer s1)) = sb_current ?sb"
    using sb_split_reserved [OF inv1 cur1] by blast
  let ?h = "u16_bytes i @ u16_bytes t @ u32_bytes n"
  let ?s2 = "s1\<lparr> sb_buffer := sb_written ?sb @ ?h @ s \<rparr>"
  have inv2: "stream_buffer_inv ?s2"
    using inv1 b1 r p wr1 by (auto simp: stream_buffer_inv_def dest: arg_cong [where f = length])
  have w2: "sb_written ?s2 = sb_written ?sb @ ?h"
    using cur1 p wr1 by (simp add: sb_written_def)
  have "unat (sb_buffer_size ?s2) + 2 * unat n < 2 ^ 32"
    using size1 size room d by simp
  then obtain s3 where s3: "stream_buffer_write ?s2 d n = Inr s3" and inv3: "stream_buffer_inv s3"
    and w3: "sb_written s3 = sb_written ?s2 @ d"
    and size3: "unat (sb_buffer_size s3) \<le> unat (sb_buffer_size s1) + 2 * unat n"
    using stream_buffer_write_ok [OF inv2 d] by auto
  have res: "pr1_message_add_field m i t d n =
      Inr (m\<lparr> pm_stream_buffer := s3, pm_field_count := pm_field_count m + 1 \<rparr>)"
    by (simp only: pr1_message_add_field_def s1 bind_res_simps prod.case
          field_header_pokes [OF b1 p r] wr1 s3)
  have enc: "encode_field (i, t, d) = ?h @ d"
    using d by (simp add: encode_field_def)
  have "8 \<le> length (sb_written ?sb)"
    using cur8 length_sb_written [OF inv] by simp
  then have pay3: "drop 8 (sb_written s3) = ?E @ ?h @ d"
    unfolding w3 w2 by (simp add: pay)
  have cur3: "8 \<le> sb_current s3"
    using length_sb_written [OF inv3] \<open>8 \<le> length (sb_written ?sb)\<close> unfolding w3 w2 by simp
  have "unat (sb_buffer_size s3) \<le> 4096 + 2 * length (encode_fields (fs @ [(i, t, d)]))"
    using size3 size1 size d by simp
  then have "pm_holds (m\<lparr> pm_stream_buffer := s3, pm_field_count := pm_field_count m + 1 \<rparr>)
               (fs @ [(i, t, d)])"
    using inv3 cur3 pay3 enc cnt unfolding pm_holds_def by simp
  with res show ?thesis by blast
qed


text \<open>Only the first \<^verbatim>\<open>buffer_size\<close> bytes of the source block matter.\<close>

lemma stream_buffer_write_take:
  "unat n \<le> length b \<Longrightarrow> stream_buffer_write sb b n = stream_buffer_write sb (take (unat n) b) n"
  by (simp add: stream_buffer_write_def mem_read_def)

lemma pr1_message_add_field_take:
  "unat n \<le> length b \<Longrightarrow>
   pr1_message_add_field m i t b n = pr1_message_add_field m i t (take (unat n) b) n"
  by (simp add: pr1_message_add_field_def stream_buffer_write_take [of n b])


section \<open>Parsing what was built\<close>

fun field_offsets :: "nat \<Rightarrow> pr1_field list \<Rightarrow> nat list" where
  "field_offsets off [] = []"
| "field_offsets off (f # fs) = off # field_offsets (off + length (encode_field f)) fs"

lemma length_field_offsets [simp]: "length (field_offsets off fs) = length fs"
  by (induction fs arbitrary: off) auto

text \<open>Reading back the fields a field table points to.\<close>

definition read_field :: "block \<Rightarrow> nat \<Rightarrow> pr1_field cres" where
  "read_field b f =
     bind_res (field_id_at b f) (\<lambda>i.
     bind_res (data_type_at b f) (\<lambda>t.
     bind_res (data_size_at b f) (\<lambda>n.
     bind_res (mem_read b (pr1_message_field_get_buffer f) (unat n)) (\<lambda>d. Inr (i, t, d)))))"

fun read_fields :: "block \<Rightarrow> nat list \<Rightarrow> pr1_field list cres" where
  "read_fields b [] = Inr []"
| "read_fields b (f # fs) =
     bind_res (read_field b f) (\<lambda>x. bind_res (read_fields b fs) (\<lambda>xs. Inr (x # xs)))"

definition pr1_message_fields :: "pr1_message \<Rightarrow> pr1_field list cres" where
  "pr1_message_fields m =
     (case pm_field_array m of
        None \<Rightarrow> Inl NullDereference
      | Some arr \<Rightarrow> read_fields (pm_block m) arr)"

lemma field_at_reads:
  assumes b: "b = p @ encode_field (i, t, d) @ s" and p: "length p = off"
    and d: "length d < 2 ^ 32"
  shows "field_id_at b off = Inr i" "data_type_at b off = Inr t"
    "data_size_at b off = Inr (of_nat (length d))"
    "mem_read b (off + 8) (length d) = Inr d"
proof -
  have "b = p @ u16_bytes i @ (u16_bytes t @ u32_bytes (of_nat (length d)) @ d @ s)"
    using b by (simp add: encode_field_def)
  then have "mem_read b off 2 = Inr (u16_bytes i)"
    using p by (simp only: mem_read_mid length_word_bytes)
  then show "field_id_at b off = Inr i" by (simp add: field_id_at_def)
  have "b = (p @ u16_bytes i) @ u16_bytes t @ (u32_bytes (of_nat (length d)) @ d @ s)"
    using b by (simp add: encode_field_def)
  moreover have "length (p @ u16_bytes i) = off + 2" using p by simp
  ultimately have "mem_read b (off + 2) 2 = Inr (u16_bytes t)"
    by (simp only: mem_read_mid length_word_bytes)
  then show "data_type_at b off = Inr t" by (simp add: data_type_at_def)
  have "b = (p @ u16_bytes i @ u16_bytes t) @ u32_bytes (of_nat (length d)) @ (d @ s)"
    using b by (simp add: encode_field_def)
  moreover have "length (p @ u16_bytes i @ u16_bytes t) = off + 4" using p by simp
  ultimately have "mem_read b (off + 4) 4 = Inr (u32_bytes (of_nat (length d)))"
    by (simp only: mem_read_mid length_word_bytes)
  then show "data_size_at b off = Inr (of_nat (length d))" by (simp add: data_size_at_def)
  have "b = (p @ u16_bytes i @ u16_bytes t @ u32_bytes (of_nat (length d))) @ d @ s"
    using b by (simp add: encode_field_def)
  moreover have "length (p @ u16_bytes i @ u16_bytes t @ u32_bytes (of_nat (length d))) = off + 8"
    using p by simp
  ultimately show "mem_read b (off + 8) (length d) = Inr d"
    by (simp only: mem_read_mid)
qed

lemma read_fields_offsets:
  assumes "b = p @ encode_fields fs @ s" and "length p = off"
    and "length (encode_fields fs) < 2 ^ 32"
  shows "read_fields b (field_offsets off fs) = Inr fs"
  using assms
proof (induction fs arbitrary: p off)
  case Nil
  then show ?case by simp
next
  case (Cons f fs)
  obtain i t d where f: "f = (i, t, d)" by (cases f)
  have b: "b = p @ encode_field (i, t, d) @ (encode_fields fs @ s)"
    and b2: "b = (p @ encode_field f) @ encode_fields fs @ s"
    using Cons.prems f by simp_all
  have d: "length d < 2 ^ 32" using Cons.prems(3) f by simp
  have "read_field b off = Inr f"
    using field_at_reads [OF b Cons.prems(2) d] d
    by (simp add: read_field_def pr1_message_field_get_buffer_def unat_of_nat_u32 f)
  moreover have "read_fields b (field_offsets (off + length (encode_field f)) fs) = Inr fs"
    using Cons.IH [OF b2] Cons.prems(2,3) by simp
  ultimately show ?case by simp
qed

lemma pr1_message_parse_loop_ok:
  assumes "b = p @ encode_fields fs @ s" and "length p = cur"
    and "list_all pr1_field_ok fs" and "tot + length (encode_fields fs) = unat ms"
  shows "pr1_message_parse_loop b ms (length fs) cur tot acc = Inr (acc @ field_offsets cur fs)"
  using assms
proof (induction fs arbitrary: p cur tot acc)
  case Nil
  then show ?case by simp
next
  case (Cons f fs)
  obtain i t d where f: "f = (i, t, d)" by (cases f)
  have b: "b = p @ encode_field (i, t, d) @ (encode_fields fs @ s)"
    and b2: "b = (p @ encode_field f) @ encode_fields fs @ s"
    using Cons.prems f by simp_all
  have d: "length d < 2 ^ 32"
    using Cons.prems(4) f unat_u32_less [of ms] by simp
  have un: "unat (of_nat (length d) :: u32) = length d" by (rule unat_of_nat_u32 [OF d])
  have "pr1_message_parse_loop b ms (length fs) (cur + length (encode_field f))
          (tot + length (encode_field f)) (acc @ [cur])
        = Inr ((acc @ [cur]) @ field_offsets (cur + length (encode_field f)) fs)"
    using Cons.IH [OF b2] Cons.prems(2-4) by simp
  then show ?case
    using field_at_reads [OF b Cons.prems(2) d] Cons.prems(3,4) f un
    by (simp add: Let_def ac_simps)
qed

definition message_header_bytes :: "u32 \<Rightarrow> u16 \<Rightarrow> u16 \<Rightarrow> byte list" where
  "message_header_bytes n c q = u32_bytes n @ u16_bytes c @ u16_bytes q"

lemma length_message_header_bytes [simp]: "length (message_header_bytes n c q) = 8"
  by (simp add: message_header_bytes_def)

lemma message_header_reads:
  "header_message_size (message_header_bytes n c q @ s) = Inr n"
  "header_field_count (message_header_bytes n c q @ s) = Inr c"
proof -
  have "mem_read ([] @ u32_bytes n @ (u16_bytes c @ u16_bytes q @ s)) 0 4 = Inr (u32_bytes n)"
    by (rule mem_read_mid) simp_all
  then show "header_message_size (message_header_bytes n c q @ s) = Inr n"
    by (simp add: header_message_size_def message_header_bytes_def)
  have "mem_read (u32_bytes n @ u16_bytes c @ (u16_bytes q @ s)) 4 2 = Inr (u16_bytes c)"
    by (rule mem_read_mid) simp_all
  then show "header_field_count (message_header_bytes n c q @ s) = Inr c"
    by (simp add: header_field_count_def message_header_bytes_def)
qed

lemma pr1_message_parse_ok:
  assumes b: "pm_block m = message_header_bytes (of_nat (length (encode_fields fs)))
                 (of_nat (length fs)) q @ encode_fields fs @ s"
    and ok: "list_all pr1_field_ok fs" and n: "length fs < 2 ^ 16"
    and len: "length (encode_fields fs) < 2 ^ 31"
  shows "\<exists>m'. pr1_message_parse m = Inr m' \<and> pr1_message_fields m' = Inr fs \<and>
           pm_stream_buffer m' = pm_stream_buffer m \<and> pm_field_count m' = of_nat (length fs) \<and>
           pm_field_array m' = Some (field_offsets 8 fs)"
proof -
  let ?ms = "of_nat (length (encode_fields fs)) :: u32"
  have ms: "unat ?ms = length (encode_fields fs)"
    using len by (simp add: unat_of_nat_u32)
  have neq: "?ms \<noteq> 0xFFFFFFFF"
  proof
    assume "?ms = 0xFFFFFFFF"
    then have "unat ?ms = unat (0xFFFFFFFF :: u32)" by (rule arg_cong)
    then show False using ms len by simp
  qed
  have cnt: "unat (of_nat (length fs) :: u16) = length fs"
    using n by (simp add: unat_of_nat_u16)
  have "pr1_message_parse_loop (pm_block m) ?ms (length fs) 8 0 [] = Inr ([] @ field_offsets 8 fs)"
    by (rule pr1_message_parse_loop_ok [OF b]) (simp_all add: ok ms)
  moreover have "read_fields (pm_block m) (field_offsets 8 fs) = Inr fs"
    by (rule read_fields_offsets [OF b]) (use len in simp_all)
  ultimately show ?thesis
    using neq cnt
    by (simp add: pr1_message_parse_def b message_header_reads pr1_message_fields_def)
qed


section \<open>Looking fields up\<close>

text \<open>
  \<open>pm_finds m fs\<close>: looking up any id in \<open>m\<close> gives the first field of \<open>fs\<close> with that id.
\<close>

definition pm_finds :: "pr1_message \<Rightarrow> pr1_field list \<Rightarrow> bool" where
  "pm_finds m fs \<longleftrightarrow>
     (\<forall>fid. case find (\<lambda>g. (ucast (fst g) :: u32) = fid) fs of
        None \<Rightarrow> pr1_message_field_find_by_id m fid = Inr None
      | Some f \<Rightarrow> \<exists>p. pr1_message_field_find_by_id m fid = Inr (Some p) \<and>
                    read_field (pm_block m) p = Inr f)"

lemma pr1_message_find_loop_ok:
  assumes "b = p @ encode_fields fs @ s" and "length p = off"
    and "length (encode_fields fs) < 2 ^ 32"
  shows "case find (\<lambda>g. (ucast (fst g) :: u32) = fid) fs of
           None \<Rightarrow> pr1_message_find_loop b fid (field_offsets off fs) = Inr None
         | Some f \<Rightarrow> \<exists>o'. pr1_message_find_loop b fid (field_offsets off fs) = Inr (Some o') \<and>
                       read_field b o' = Inr f"
  using assms
proof (induction fs arbitrary: p off)
  case Nil
  then show ?case by simp
next
  case (Cons f fs)
  obtain i t d where f: "f = (i, t, d)" by (cases f)
  have b: "b = p @ encode_field (i, t, d) @ (encode_fields fs @ s)"
    and b2: "b = (p @ encode_field f) @ encode_fields fs @ s"
    using Cons.prems f by simp_all
  have d: "length d < 2 ^ 32" using Cons.prems(3) f by simp
  note reads = field_at_reads [OF b Cons.prems(2) d]
  have rd: "read_field b off = Inr f"
    using reads d by (simp add: read_field_def pr1_message_field_get_buffer_def unat_of_nat_u32 f)
  have IH: "case find (\<lambda>g. (ucast (fst g) :: u32) = fid) fs of
           None \<Rightarrow> pr1_message_find_loop b fid (field_offsets (off + length (encode_field f)) fs)
                    = Inr None
         | Some g \<Rightarrow> \<exists>o'. pr1_message_find_loop b fid
                         (field_offsets (off + length (encode_field f)) fs) = Inr (Some o') \<and>
                       read_field b o' = Inr g"
    using Cons.IH [OF b2] Cons.prems(2,3) by simp
  show ?case
    using IH reads(1) rd by (auto simp: f split: option.splits)
qed

lemma pr1_message_parse_find:
  assumes "pm_block m = message_header_bytes (of_nat (length (encode_fields fs)))
             (of_nat (length fs)) q @ encode_fields fs @ s"
    and "list_all pr1_field_ok fs" and "length fs < 2 ^ 16"
    and "length (encode_fields fs) < 2 ^ 31"
  shows "\<exists>m'. pr1_message_parse m = Inr m' \<and> pr1_message_fields m' = Inr fs \<and> pm_finds m' fs"
proof -
  obtain m' where m': "pr1_message_parse m = Inr m'"
    and sb: "pm_stream_buffer m' = pm_stream_buffer m"
    and cnt: "pm_field_count m' = of_nat (length fs)"
    and fs': "pr1_message_fields m' = Inr fs" and arr: "pm_field_array m' = Some (field_offsets 8 fs)"
    using pr1_message_parse_ok [OF assms] by blast
  have n: "unat (of_nat (length fs) :: u16) = length fs"
    using assms(3) by (simp add: unat_of_nat_u16)
  have loop: "case find (\<lambda>g. (ucast (fst g) :: u32) = fid) fs of
           None \<Rightarrow> pr1_message_find_loop (pm_block m) fid (field_offsets 8 fs) = Inr None
         | Some f \<Rightarrow> \<exists>o'. pr1_message_find_loop (pm_block m) fid (field_offsets 8 fs)
                         = Inr (Some o') \<and> read_field (pm_block m) o' = Inr f" for fid
    by (rule pr1_message_find_loop_ok [OF assms(1)]) (use assms(4) in simp_all)
  have "pm_finds m' fs"
    unfolding pm_finds_def
  proof (rule allI)
    fix fid :: u32
    show "case find (\<lambda>g. (ucast (fst g) :: u32) = fid) fs of
        None \<Rightarrow> pr1_message_field_find_by_id m' fid = Inr None
      | Some f \<Rightarrow> \<exists>p. pr1_message_field_find_by_id m' fid = Inr (Some p) \<and>
                    read_field (pm_block m') p = Inr f"
      using loop [of fid] sb cnt arr n
      by (auto simp: pr1_message_field_find_by_id_def split: option.splits)
  qed
  with m' fs' show ?thesis by blast
qed


section \<open>From the sender to the receiver\<close>

text \<open>A sequence of \<^verbatim>\<open>pr1_message_add_field\<close> calls, as the request builders issue them.\<close>

fun pr1_message_add_fields :: "pr1_message \<Rightarrow> pr1_field list \<Rightarrow> pr1_message cres" where
  "pr1_message_add_fields m [] = Inr m"
| "pr1_message_add_fields m ((i, t, d) # fs) =
     bind_res (pr1_message_add_field m i t d (of_nat (length d)))
       (\<lambda>m. pr1_message_add_fields m fs)"

lemma pr1_message_add_fields_holds:
  assumes "pm_holds m gs" and "length (encode_fields (gs @ fs)) < 2 ^ 31 - 4096"
  shows "\<exists>m'. pr1_message_add_fields m fs = Inr m' \<and> pm_holds m' (gs @ fs)"
  using assms
proof (induction fs arbitrary: m gs)
  case Nil
  then show ?case by simp
next
  case (Cons f fs)
  obtain i t d where f: "f = (i, t, d)" by (cases f)
  have room: "length (encode_fields gs) + length d < 2 ^ 31 - 4096"
    using Cons.prems(2) f by simp
  then have "length d = unat (of_nat (length d) :: u32)"
    by (simp add: unat_of_nat_u32)
  from pr1_message_add_field_holds [OF Cons.prems(1) this room]
  obtain m1 where m1: "pr1_message_add_field m i t d (of_nat (length d)) = Inr m1"
    and h1: "pm_holds m1 (gs @ [f])"
    using f by blast
  from Cons.IH [OF h1] Cons.prems(2)
  show ?case by (simp add: f m1)
qed

lemma pr1_message_get_buffer_holds:
  assumes h: "pm_holds m fs" and len: "length (encode_fields fs) < 2 ^ 31 - 4096"
  shows "\<exists>m' s. pr1_message_get_buffer m q =
           Inr (message_header_bytes (of_nat (length (encode_fields fs))) (of_nat (length fs)) q @
                encode_fields fs, of_nat (8 + length (encode_fields fs)), m') \<and>
           pm_block m' = message_header_bytes (of_nat (length (encode_fields fs)))
             (of_nat (length fs)) q @ encode_fields fs @ s"
proof -
  let ?sb = "pm_stream_buffer m" and ?E = "encode_fields fs"
  let ?H = "message_header_bytes (of_nat (length ?E)) (of_nat (length fs)) q"
  from h have inv: "stream_buffer_inv ?sb" and pay: "drop 8 (sb_written ?sb) = ?E"
    and cnt: "pm_field_count m = of_nat (length fs)"
    by (auto simp: pm_holds_def)
  have cur: "sb_current ?sb = 8 + length ?E" by (rule pm_holds_current [OF h])
  have used: "stream_buffer_space_used ?sb = of_nat (8 + length ?E)"
    by (simp add: stream_buffer_space_used_def cur)
  have b: "sb_buffer ?sb = take 8 (sb_buffer ?sb) @ ?E @ drop (sb_current ?sb) (sb_buffer ?sb)"
    using pay cur inv unfolding sb_written_def stream_buffer_inv_def
    by (metis append.assoc append_take_drop_id le_add1 take_take min.absorb2 min.commute)
  have l8: "length (take 8 (sb_buffer ?sb)) = 8"
    using inv cur by (auto simp: stream_buffer_inv_def)
  let ?s = "drop (sb_current ?sb) (sb_buffer ?sb)"
  let ?m' = "m\<lparr> pm_stream_buffer := ?sb\<lparr> sb_buffer := ?H @ ?E @ ?s \<rparr> \<rparr>"
  have size: "stream_buffer_space_used ?sb - of_nat 8 = of_nat (length ?E)"
    by (simp add: used)
  have fill: "pr1_message_fill_header_info m q = Inr ?m'"
    unfolding pr1_message_fill_header_info_def Let_def message_header_pokes [OF b l8] size cnt
    by (simp add: message_header_bytes_def)
  have "unat (of_nat (8 + length ?E) :: u32) = 8 + length ?E"
    using len by (intro unat_of_nat_u32) simp
  moreover have "mem_read (?H @ ?E @ ?s) 0 (8 + length ?E) = Inr (?H @ ?E)"
    by (simp add: mem_read_def)
  moreover have "stream_buffer_space_used (pm_stream_buffer ?m') = of_nat (8 + length ?E)"
    using used by (simp add: stream_buffer_space_used_def)
  ultimately have "pr1_message_get_buffer m q = Inr (?H @ ?E, of_nat (8 + length ?E), ?m')"
    by (simp add: pr1_message_get_buffer_def fill Let_def del: of_nat_add)
  moreover have "pm_block ?m' = ?H @ ?E @ ?s" by simp
  ultimately show ?thesis by blast
qed

text \<open>
  Receiving: the eight header bytes are read first, then \<^verbatim>\<open>message_size\<close> bytes into the reserved
  part of a fresh message.
\<close>

definition pr1_message_from_wire :: "byte list \<Rightarrow> pr1_message cres" where
  "pr1_message_from_wire bytes =
     bind_res (pr1_message_new_get_buffer_for_receive (take 8 bytes)) (\<lambda>(p, m).
     bind_res (sb_poke (pm_stream_buffer m) p (drop 8 bytes)) (\<lambda>sb.
       pr1_message_parse (m\<lparr> pm_stream_buffer := sb \<rparr>)))"

lemma new_get_buffer_for_receive_ok:
  assumes h: "length h = 8" and n: "header_message_size h = Inr n" and room: "unat n < 2 ^ 31 - 4096"
  shows "\<exists>m r s. pr1_message_new_get_buffer_for_receive h = Inr (8, m) \<and>
           pm_block m = h @ r @ s \<and> length r = unat n"
proof -
  obtain m0 where m0: "pr1_message_new = Inr m0" and h0: "pm_holds m0 []"
    using pr1_message_new_holds by blast
  let ?sb0 = "snd (stream_buffer_seek (pm_stream_buffer m0) 0)"
  have inv0: "stream_buffer_inv (pm_stream_buffer m0)"
    and size0: "unat (sb_buffer_size (pm_stream_buffer m0)) \<le> 4096"
    and cur0: "sb_current (pm_stream_buffer m0) = 8"
    using h0 pm_holds_current [OF h0] by (auto simp: pm_holds_def)
  have nz: "sb_buffer_size (pm_stream_buffer m0) \<noteq> 0"
    using inv0 cur0 by (auto simp: stream_buffer_inv_def)
  have invs: "stream_buffer_inv ?sb0" by (rule stream_buffer_seek_inv [OF inv0 nz])
  have ws: "sb_written ?sb0 = []"
    using nz by (simp add: stream_buffer_seek_def Let_def sb_written_def)
  have sizes: "sb_buffer_size ?sb0 = sb_buffer_size (pm_stream_buffer m0)"
    by (simp add: stream_buffer_seek_def Let_def)
  have "length h = unat (of_nat 8 :: u32)" using h by simp
  then obtain s1 where s1: "stream_buffer_write ?sb0 h (of_nat 8) = Inr s1"
    and inv1: "stream_buffer_inv s1" and w1: "sb_written s1 = h"
    and size1: "unat (sb_buffer_size s1) \<le> 4096 + 16"
    using stream_buffer_write_ok [OF invs, of h "of_nat 8"] sizes size0 ws by auto
  have cur1: "sb_current s1 = 8" using length_sb_written [OF inv1] w1 h by simp
  obtain s2 where s2: "stream_buffer_get_write_pointer s1 n = Inr (8, s2)"
    and inv2: "stream_buffer_inv s2" and cur2: "sb_current s2 = 8 + unat n"
    and t2: "take 8 (sb_buffer s2) = h"
    using stream_buffer_get_write_pointer_ok [OF inv1, of n] size1 room cur1 w1 by auto
  obtain r s where "sb_buffer s2 = take 8 (sb_buffer s2) @ r @ s" and "length r = unat n"
    using sb_split_reserved [OF inv2 cur2] by blast
  with t2 have "pm_block (m0\<lparr> pm_stream_buffer := s2 \<rparr>) = h @ r @ s" and "length r = unat n"
    by simp_all
  moreover have "pr1_message_new_get_buffer_for_receive h =
      Inr (8, m0\<lparr> pm_stream_buffer := s2 \<rparr>)"
    unfolding pr1_message_new_get_buffer_for_receive_def Let_def m0 bind_res_simps s1 n s2 by simp
  ultimately show ?thesis by blast
qed

lemma pr1_message_from_wire_ok:
  assumes ok: "list_all pr1_field_ok fs" and n: "length fs < 2 ^ 16"
    and len: "length (encode_fields fs) < 2 ^ 31 - 4096"
  shows "\<exists>m. pr1_message_from_wire (message_header_bytes (of_nat (length (encode_fields fs)))
             (of_nat (length fs)) q @ encode_fields fs) = Inr m \<and> pr1_message_fields m = Inr fs \<and>
             pm_finds m fs"
proof -
  let ?E = "encode_fields fs"
  let ?H = "message_header_bytes (of_nat (length ?E)) (of_nat (length fs)) q"
  have u: "unat (of_nat (length ?E) :: u32) = length ?E"
    using len by (intro unat_of_nat_u32) simp
  obtain m r s where m: "pr1_message_new_get_buffer_for_receive ?H = Inr (8, m)"
    and b: "pm_block m = ?H @ r @ s" and r: "length r = length ?E"
    using new_get_buffer_for_receive_ok [of ?H "of_nat (length ?E)"]
      message_header_reads(1) [of _ _ _ "[]"] len u by auto
  let ?sb = "(pm_stream_buffer m)\<lparr> sb_buffer := ?H @ ?E @ s \<rparr>"
  have poke: "sb_poke (pm_stream_buffer m) 8 ?E = Inr ?sb"
    using sb_poke_mid [OF b, of 8 0 ?E] r by simp
  have b': "pm_block (m\<lparr> pm_stream_buffer := ?sb \<rparr>) = ?H @ ?E @ s" by simp
  have "\<exists>m'. pr1_message_parse (m\<lparr> pm_stream_buffer := ?sb \<rparr>) = Inr m' \<and>
          pr1_message_fields m' = Inr fs \<and> pm_finds m' fs"
    using pr1_message_parse_find [OF b' ok n] len by fastforce
  then show ?thesis
    by (simp add: pr1_message_from_wire_def m poke)
qed


section \<open>Looking fields up in a parsed message\<close>

text \<open>
  After a message is parsed, \<^verbatim>\<open>pr1_message_field_find_by_id\<close> returns the first field with the
  requested id (a pointer at which exactly that field is read), and null when no field has it.
\<close>

theorem pr1_message_find_first:
  assumes "pm_block m = message_header_bytes (of_nat (length (encode_fields fs)))
             (of_nat (length fs)) q @ encode_fields fs @ s"
    and "list_all pr1_field_ok fs" and "length fs < 2 ^ 16"
    and "length (encode_fields fs) < 2 ^ 31"
  shows "\<exists>m'. pr1_message_parse m = Inr m' \<and>
     (case find (\<lambda>g. (ucast (fst g) :: u32) = fid) fs of
        None \<Rightarrow> pr1_message_field_find_by_id m' fid = Inr None
      | Some f \<Rightarrow> \<exists>p. pr1_message_field_find_by_id m' fid = Inr (Some p) \<and>
                    read_field (pm_block m') p = Inr f)"
  using pr1_message_parse_find [OF assms] by (auto simp: pm_finds_def)

text \<open>A parsed message with a command and a handle: the handle is found, a key is not.\<close>

abbreviation wire_example :: "pr1_field list" where
  "wire_example \<equiv> [(1, 3, u32_bytes 0x17), (2, 3, u32_bytes 5)]"

theorem pr1_message_find_first_witness:
  "\<exists>m. pm_block m = message_header_bytes (of_nat (length (encode_fields wire_example)))
             (of_nat (length wire_example)) 0 @ encode_fields wire_example @ [] \<and>
     (\<exists>m' p. pr1_message_parse m = Inr m' \<and>
        pr1_message_field_find_by_id m' 2 = Inr (Some p) \<and>
        read_field (pm_block m') p = Inr (2, 3, u32_bytes 5))"
proof -
  let ?b = "message_header_bytes (of_nat (length (encode_fields wire_example)))
             (of_nat (length wire_example)) 0 @ encode_fields wire_example @ []"
  let ?m = "\<lparr> pm_stream_buffer = \<lparr> sb_buffer = ?b, sb_current = 0, sb_buffer_size = 0 \<rparr>,
              pm_field_array = None, pm_field_count = 0 \<rparr>"
  have "pm_block ?m = ?b" by simp
  from pr1_message_find_first [OF this, of 2] show ?thesis
    by (intro exI [of _ ?m]) (simp add: numeral_2_eq_2 [symmetric])
qed


section \<open>Properties of the protocol messages\<close>

text \<open>
  C1: a message built with any sequence of \<^verbatim>\<open>pr1_message_add_field\<close> calls (valid ids and types, fewer
  than 2^16 fields, below 2^31 - 4096 bytes) is never a fault to build and serialise, its buffer has
  the announced size, and a receiver that reads the header, receives that many payload bytes and
  parses gets exactly the fields that were added, in order.
\<close>

theorem pr1_message_roundtrip:
  assumes "list_all pr1_field_ok fs" and "length fs < 2 ^ 16"
    and "length (encode_fields fs) < 2 ^ 31 - 4096"
  shows "\<exists>m bytes n m' r. bind_res pr1_message_new (\<lambda>m. pr1_message_add_fields m fs) = Inr m \<and>
           pr1_message_get_buffer m q = Inr (bytes, n, m') \<and> unat n = length bytes \<and>
           pr1_message_from_wire bytes = Inr r \<and> pr1_message_fields r = Inr fs"
proof -
  obtain m0 where m0: "pr1_message_new = Inr m0" and h0: "pm_holds m0 []"
    using pr1_message_new_holds by blast
  obtain m where m: "pr1_message_add_fields m0 fs = Inr m" and h: "pm_holds m fs"
    using pr1_message_add_fields_holds [OF h0] assms(3) by auto
  let ?bytes = "message_header_bytes (of_nat (length (encode_fields fs))) (of_nat (length fs)) q @
                encode_fields fs"
  let ?n = "of_nat (8 + length (encode_fields fs)) :: u32"
  obtain m' where g: "pr1_message_get_buffer m q = Inr (?bytes, ?n, m')"
    using pr1_message_get_buffer_holds [OF h assms(3), of q] by blast
  obtain r where r: "pr1_message_from_wire ?bytes = Inr r" "pr1_message_fields r = Inr fs"
    using pr1_message_from_wire_ok [OF assms, of q] by blast
  have n: "unat ?n = length ?bytes"
    using assms(3) by (subst unat_of_nat_u32) simp_all
  have b: "bind_res pr1_message_new (\<lambda>m. pr1_message_add_fields m fs) = Inr m"
    unfolding m0 bind_res_simps by (rule m)
  show ?thesis
    by (rule exI [of _ m], rule exI [of _ ?bytes], rule exI [of _ ?n], rule exI [of _ m'],
        rule exI [of _ r]) (intro conjI b g n r)
qed

theorem pr1_message_roundtrip_witness:
  "\<exists>m bytes n m' r. bind_res pr1_message_new (\<lambda>m. pr1_message_add_fields m wire_example) = Inr m \<and>
     pr1_message_get_buffer m 7 = Inr (bytes, n, m') \<and> unat n = length bytes \<and>
     pr1_message_from_wire bytes = Inr r \<and> pr1_message_fields r = Inr wire_example"
  by (rule pr1_message_roundtrip) simp_all

text \<open>
  \<^verbatim>\<open>field_count\<close> is 16 bits wide: a message with exactly 2^16 fields announces zero fields, and
  parsing it fails the final size assertion instead of returning the fields.
\<close>

theorem pr1_message_field_count_wraps:
  assumes "pm_holds m fs" and "length fs = 2 ^ 16"
    and "length (encode_fields fs) < 2 ^ 31 - 4096"
  shows "\<exists>bytes n m'. pr1_message_get_buffer m q = Inr (bytes, n, m') \<and>
           header_field_count (pm_block m') = Inr 0 \<and>
           pr1_message_parse m' = Inl AssertionFailed"
proof -
  let ?E = "encode_fields fs"
  let ?H = "message_header_bytes (of_nat (length ?E)) (of_nat (length fs)) q"
  obtain m' s where g: "pr1_message_get_buffer m q = Inr (?H @ ?E, of_nat (8 + length ?E), m')"
    and b: "pm_block m' = ?H @ ?E @ s"
    using pr1_message_get_buffer_holds [OF assms(1,3), of q] by blast
  have c: "of_nat (length fs) = (0 :: u16)" by (simp add: assms(2))
  have "fs \<noteq> []" using assms(2) by auto
  then have pos: "0 < length ?E"
    by (cases fs rule: list.exhaust, simp) (metis encode_fields_simps(2) length_append
        length_encode_field prod.exhaust add_gr_0 zero_less_numeral)
  have u: "unat (of_nat (length ?E) :: u32) = length ?E"
    using assms(3) by (intro unat_of_nat_u32) simp
  have "header_field_count (pm_block m') = Inr 0"
    by (simp add: b message_header_reads c)
  moreover have "pr1_message_parse m' = Inl AssertionFailed"
    using pos u by (auto simp: pr1_message_parse_def b message_header_reads c bind_res_Inl_iff
        guard_res_Inl_iff guard_res_Inr_iff)
  ultimately show ?thesis using g by blast
qed

theorem pr1_message_field_count_wraps_witness:
  "\<exists>m bytes n m'. pr1_message_get_buffer m 0 = Inr (bytes, n, m') \<and>
     header_field_count (pm_block m') = Inr 0 \<and> pr1_message_parse m' = Inl AssertionFailed"
proof -
  let ?fs = "replicate 65536 (3, 1, []) :: pr1_field list"
  have len: "length (encode_fields ?fs) = 65536 * 8"
    by (simp only: encode_fields_def length_concat map_map comp_def map_replicate
          length_encode_field sum_list_replicate) simp
  obtain m0 where "pr1_message_new = Inr m0" and h0: "pm_holds m0 []"
    using pr1_message_new_holds by blast
  then obtain m where "pm_holds m ?fs"
    using pr1_message_add_fields_holds [OF h0, of ?fs] len by auto
  moreover have "length (encode_fields ?fs) < 2 ^ 31 - 4096" by (simp only: len) simp
  ultimately show ?thesis
    using pr1_message_field_count_wraps [of m ?fs 0] by auto
qed

text \<open>
  A received header that announces between 2^31 - 2048 and 2^31 - 1 payload bytes makes the
  32-bit growth computation of the receive buffer wrap to a block smaller than the data already
  in it, and the copy of the old bytes writes outside the new block.
\<close>

theorem pr1_message_receive_size_overflow:
  assumes "2 ^ 31 - 2048 \<le> unat n" and "unat n < 2 ^ 31"
  shows "pr1_message_new_get_buffer_for_receive (message_header_bytes n c q) = Inl BufferOverrun"
proof -
  let ?h = "message_header_bytes n c q"
  let ?sb = "\<lparr> sb_buffer = ?h @ replicate 4088 0xFF, sb_current = 8,
              sb_buffer_size = (4096 :: u32) \<rparr>"
  have h: "length ?h = 8" by simp
  have inv: "stream_buffer_inv ?sb" by (simp add: stream_buffer_inv_def)
  have "stream_buffer_ensure_space_left ?sb n = Inl BufferOverrun"
    by (rule ensure_space_left_wraps [OF inv]) (use assms in simp_all)
  then have ptr: "stream_buffer_get_write_pointer ?sb n = Inl BufferOverrun"
    by (simp add: stream_buffer_get_write_pointer_def)
  obtain m0 where m0: "pr1_message_new = Inr m0"
    and sb0: "stream_buffer_write (snd (stream_buffer_seek (pm_stream_buffer m0) 0)) ?h 8 = Inr ?sb"
    by (simp add: pr1_message_new_def stream_buffer_get_write_pointer_def Let_def
        stream_buffer_ensure_space_left_def stream_buffer_new_def stream_buffer_space_used_def
        sb_poke_def mem_write_def mem_read_def stream_buffer_seek_def stream_buffer_write_def h)
  have "header_message_size ?h = Inr n"
    using message_header_reads(1) [of n c q "[]"] by simp
  then show ?thesis
    unfolding pr1_message_new_get_buffer_for_receive_def Let_def m0 bind_res_simps
    by (simp add: sb0 ptr)
qed

theorem pr1_message_receive_size_overflow_witness:
  "pr1_message_new_get_buffer_for_receive (message_header_bytes 0x7FFFFFFF 1 0) = Inl BufferOverrun"
  by (rule pr1_message_receive_size_overflow) simp_all

text \<open>
  \<^verbatim>\<open>pr1_message_field_get_string\<close> never writes outside the caller's buffer; it terminates the
  string with a zero byte only when the field is shorter than the buffer, and otherwise fills the
  buffer with the first bytes of the field and leaves it unterminated.
\<close>

theorem pr1_message_field_get_string_result:
  assumes "data_size_at b f = Inr n" and "mem_read b (f + 8) (unat n) = Inr d"
    and "length buf = unat bsize"
  shows "pr1_message_field_get_string b f buf bsize =
           Inr (if n < bsize then d @ [0] @ drop (unat n + 1) buf else take (unat bsize) d)"
proof (cases "n < bsize")
  case True
  then have lt: "unat n < unat bsize" by (simp add: word_less_nat_alt)
  have d: "length d = unat n" using assms(2) by (auto simp: mem_read_Inr_iff)
  have w1: "mem_write buf 0 d = Inr (d @ drop (unat n) buf)"
    using lt d assms(3) by (simp add: mem_write_def)
  have w2: "mem_write (d @ drop (unat n) buf) (unat n) [0] =
        Inr (d @ [0] @ drop (unat n + 1) buf)"
    using mem_write_mid [of d "unat n" 0 "[0]" "drop (unat n) buf" "[]"] lt d assms(3) by simp
  have "\<not> bsize < n" using True by simp
  with assms(1,2) True w1 w2 show ?thesis
    by (simp add: pr1_message_field_get_string_def Let_def)
next
  case False
  then have le: "unat bsize \<le> unat n" by (simp add: word_less_nat_alt)
  let ?c = "if bsize < n then bsize else n"
  have c: "unat ?c = unat bsize"
    using False le by (auto simp: word_less_nat_alt)
  have d: "d = take (unat n) (drop (f + 8) b)" "f + 8 + unat n \<le> length b"
    using assms(2) by (auto simp: mem_read_Inr_iff)
  have r: "mem_read b (f + 8) (unat ?c) = Inr (take (unat bsize) d)"
    using d le c by (simp add: mem_read_def min_def)
  have "length (take (unat bsize) d) = unat bsize" using d le by simp
  then have w: "mem_write buf 0 (take (unat bsize) d) = Inr (take (unat bsize) d)"
    using assms(3) by (simp add: mem_write_def)
  have "\<not> ?c < bsize" using c by (simp add: word_less_nat_alt)
  with assms(1) False r w show ?thesis
    by (simp add: pr1_message_field_get_string_def Let_def)
qed

theorem pr1_message_field_get_string_result_witness:
  "data_size_at (encode_field (9, 2, [65, 66, 67])) 0 = Inr 3 \<and>
   pr1_message_field_get_string (encode_field (9, 2, [65, 66, 67])) 0 [1, 1] 2 = Inr [65, 66]"
proof -
  have r: "data_size_at (encode_field (9, 2, [65, 66, 67])) 0 = Inr 3"
    using field_at_reads(3) [of "encode_field (9, 2, [65, 66, 67])" "[]" 9 2 "[65, 66, 67]" "[]" 0]
    by simp
  have d: "mem_read (encode_field (9, 2, [65, 66, 67])) (0 + 8) (unat (3 :: u32)) = Inr [65, 66, 67]"
    by (simp add: mem_read_def encode_field_def)
  have "pr1_message_field_get_string (encode_field (9, 2, [65, 66, 67])) 0 [1, 1] 2 = Inr [65, 66]"
    using pr1_message_field_get_string_result [OF r d, of "[1, 1]" 2] by simp
  with r show ?thesis by simp
qed

end
