(* ===== verification/Decimal.thy ===== *)
theory Decimal
  imports Prelude
begin

text \<open>
  Decimal texts as \<^verbatim>\<open>sprintf("%d")\<close> and \<^verbatim>\<open>std::to_string\<close> write them, and the fact that they
  read back as the number.
\<close>

text \<open>\<^verbatim>\<open>sprintf("%d")\<close>: a minus sign and decimal digits.\<close>

fun dec_nat :: "nat \<Rightarrow> byte list" where
  "dec_nat n = (if n < 10 then [of_nat (48 + n)] else dec_nat (n div 10) @ [of_nat (48 + n mod 10)])"

declare dec_nat.simps [simp del]

definition dec_int :: "int \<Rightarrow> byte list" where
  "dec_int i = (if i < 0 then 45 # dec_nat (nat (- i)) else dec_nat (nat i))"

lemma dec_nat_digits: "\<forall>c \<in> set (dec_nat n). c \<noteq> 0"
proof (induction n rule: dec_nat.induct)
  case (1 n)
  have "of_nat (48 + k) \<noteq> (0 :: byte)" if "k < 10" for k
  proof -
    have "unat (of_nat (48 + k) :: byte) = 48 + k"
      using that by (simp add: unat_of_nat take_bit_nat_eq_self del: of_nat_add)
    then show ?thesis by (metis add_is_0 unat_0 zero_neq_numeral)
  qed
  then show ?case
    using 1 by (subst dec_nat.simps) (auto simp del: of_nat_add)
qed

lemma dec_nat_length: "n < 10 ^ Suc k \<Longrightarrow> length (dec_nat n) \<le> Suc k"
proof (induction k arbitrary: n)
  case 0
  then show ?case by (subst dec_nat.simps) simp
next
  case (Suc k)
  then have "n div 10 < 10 ^ Suc k" by (simp add: less_mult_imp_div_less)
  then show ?case
    using Suc.IH [of "n div 10"] by (subst dec_nat.simps) simp
qed

text \<open>Reading a decimal numeral back, as the specification of the conversion.\<close>

definition read_dec_nat :: "byte list \<Rightarrow> nat" where
  "read_dec_nat bs = foldl (\<lambda>n c. 10 * n + (unat c - 48)) 0 bs"

fun read_dec :: "byte list \<Rightarrow> int" where
  "read_dec (c # bs) = (if c = 45 then - int (read_dec_nat bs) else int (read_dec_nat (c # bs)))"
| "read_dec [] = 0"

lemma unat_digit: "k < 10 \<Longrightarrow> unat (of_nat (48 + k) :: byte) = 48 + k"
  by (simp add: unat_of_nat take_bit_nat_eq_self del: of_nat_add)

lemma read_dec_nat_dec_nat: "read_dec_nat (dec_nat n) = n"
proof (induction n rule: dec_nat.induct)
  case (1 n)
  show ?case
  proof (cases "n < 10")
    case True
    then show ?thesis
      by (subst dec_nat.simps) (simp add: read_dec_nat_def unat_digit del: of_nat_add)
  next
    case False
    have "unat (of_nat (48 + n mod 10) :: byte) = 48 + n mod 10" by (rule unat_digit) simp
    then show ?thesis
      using 1 False
      by (subst dec_nat.simps) (simp add: read_dec_nat_def del: of_nat_add)
  qed
qed

lemma dec_nat_hd: "dec_nat n \<noteq> [] \<and> hd (dec_nat n) \<noteq> 45"
proof (induction n rule: dec_nat.induct)
  case (1 n)
  have "of_nat (48 + n) \<noteq> (45 :: byte)" if "n < 10"
  proof
    assume "of_nat (48 + n) = (45 :: byte)"
    then have "unat (of_nat (48 + n) :: byte) = unat (45 :: byte)" by (rule arg_cong)
    with unat_digit [OF that] show False by simp
  qed
  with 1 show ?case
    by (subst (1 2) dec_nat.simps) (auto simp: hd_append simp del: of_nat_add)
qed

lemma read_dec_dec_int: "read_dec (dec_int i) = i"
proof (cases "i < 0")
  case True
  then show ?thesis by (simp add: dec_int_def read_dec_nat_dec_nat)
next
  case False
  obtain c bs where c: "dec_nat (nat i) = c # bs" and "c \<noteq> 45"
    using dec_nat_hd [of "nat i"] by (cases "dec_nat (nat i)") auto
  then show ?thesis
    using False read_dec_nat_dec_nat [of "nat i"] by (simp add: dec_int_def)
qed

lemma dec_int_short: "\<bar>i\<bar> < 10 ^ 10 \<Longrightarrow> length (dec_int i) \<le> 11"
proof -
  assume "\<bar>i\<bar> < 10 ^ 10"
  then have "length (dec_nat (nat \<bar>i\<bar>)) \<le> Suc 9" by (intro dec_nat_length) simp
  then show ?thesis by (auto simp: dec_int_def abs_if split: if_splits)
qed

lemma dec_int_nonzero: "\<forall>c \<in> set (dec_int i). c \<noteq> 0"
  using dec_nat_digits by (auto simp: dec_int_def)

end
