(* ===== verification/ClientData.thy ===== *)
theory ClientData
  imports Pr1Message Decimal
begin

text \<open>
  The client's variant values (\<^verbatim>\<open>struct TIO_DATA\<close> of \<^verbatim>\<open>client/c/tioclient.h\<close> and the
  \<^verbatim>\<open>tiodata_*\<close> functions of \<^verbatim>\<open>client/c/tioclient.c\<close>) and their passage through protocol
  messages.  A string owns the heap block \<open>td_string\<close>; a pointer that may be null is an option.
  \<open>tiodata_inv\<close> is the ownership invariant every setter keeps: only a string value owns a block,
  and the block holds its bytes and the terminating zero.  The main result is that the key, value
  and metadata given to \<open>tio_generate_data_message\<close> come out of the received message.
\<close>

abbreviation (input) "TIO_DATA_TYPE_NONE \<equiv> (0x1 :: u32)"
abbreviation (input) "TIO_DATA_TYPE_STRING \<equiv> (0x2 :: u32)"
abbreviation (input) "TIO_DATA_TYPE_INT \<equiv> (0x3 :: u32)"
abbreviation (input) "TIO_DATA_TYPE_DOUBLE \<equiv> (0x4 :: u32)"

record tiodata =
  td_data_type :: u32
  td_int :: u32
  td_string :: "block option"
  td_string_size :: u32
  td_double :: u64

definition tiodata_init :: tiodata where
  "tiodata_init = \<lparr> td_data_type = TIO_DATA_TYPE_NONE, td_int = 0, td_string = None,
                    td_string_size = 0, td_double = 0 \<rparr>"

definition tiodata_get_type :: "tiodata \<Rightarrow> u32" where
  "tiodata_get_type d = td_data_type d"

definition tiodata_set_as_none :: "tiodata \<Rightarrow> tiodata" where
  "tiodata_set_as_none d =
     (let d = (if tiodata_get_type d = TIO_DATA_TYPE_STRING
               then d\<lparr> td_string := None, td_string_size := 0 \<rparr> else d)
      in d\<lparr> td_data_type := TIO_DATA_TYPE_NONE \<rparr>)"

definition tiodata_free :: "tiodata \<Rightarrow> tiodata" where
  "tiodata_free d = tiodata_set_as_none d"

text \<open>\<open>junk\<close> is what the fresh block happens to contain.\<close>

definition tiodata_string_get_buffer :: "byte \<Rightarrow> tiodata \<Rightarrow> u32 \<Rightarrow> block option \<times> tiodata" where
  "tiodata_string_get_buffer junk d min_size =
     (if td_data_type d = TIO_DATA_TYPE_STRING \<and> min_size \<le> td_string_size d
      then (td_string d, d)
      else
        let d = tiodata_set_as_none d;
            b = Some (replicate (unat (min_size + 1)) junk)
        in (b, d\<lparr> td_data_type := TIO_DATA_TYPE_STRING, td_string_size := min_size,
                  td_string := b \<rparr>))"

text \<open>The source block is given with its bytes, which are read before anything is freed.\<close>

definition tiodata_set_string_and_size :: "tiodata \<Rightarrow> block \<Rightarrow> u32 \<Rightarrow> tiodata cres" where
  "tiodata_set_string_and_size d buffer len =
     (let d = tiodata_set_as_none d;
          fresh = replicate (unat (len + 1)) 0xFF
      in bind_res (mem_read buffer 0 (unat len)) (\<lambda>src.
         bind_res (mem_write fresh 0 src) (\<lambda>b.
         bind_res (mem_write b (unat len) [0]) (\<lambda>b.
           Inr (d\<lparr> td_data_type := TIO_DATA_TYPE_STRING, td_string_size := len,
                   td_string := Some b \<rparr>)))))"

definition tiodata_set_int :: "tiodata \<Rightarrow> u32 \<Rightarrow> tiodata" where
  "tiodata_set_int d v =
     (tiodata_set_as_none d)\<lparr> td_data_type := TIO_DATA_TYPE_INT, td_int := v \<rparr>"

definition tiodata_set_double :: "tiodata \<Rightarrow> u64 \<Rightarrow> tiodata" where
  "tiodata_set_double d v =
     (tiodata_set_as_none d)\<lparr> td_data_type := TIO_DATA_TYPE_DOUBLE, td_double := v \<rparr>"

definition tiodata_copy :: "tiodata \<Rightarrow> tiodata \<Rightarrow> tiodata cres" where
  "tiodata_copy source destination =
     (let destination = tiodata_set_as_none destination in
      if td_data_type source = TIO_DATA_TYPE_NONE \<or> td_data_type source = TIO_DATA_TYPE_INT \<or>
         td_data_type source = TIO_DATA_TYPE_DOUBLE
      then Inr source
      else if td_data_type source = TIO_DATA_TYPE_STRING
      then (case td_string source of
              None \<Rightarrow> if td_string_size source = 0
                     then tiodata_set_string_and_size destination [] 0 else Inl NullDereference
            | Some b \<Rightarrow> tiodata_set_string_and_size destination b (td_string_size source))
      else Inr destination)"

text \<open>
  \<open>format_g\<close> is what \<^verbatim>\<open>sprintf("%g")\<close> writes for a double, \<open>buffer\<close> the uninitialised stack
  buffer of 64 bytes.
\<close>

definition tiodata_convert_to_string :: "(u64 \<Rightarrow> byte list) \<Rightarrow> block \<Rightarrow> tiodata \<Rightarrow> tiodata cres" where
  "tiodata_convert_to_string format_g buffer d =
     (if td_data_type d = TIO_DATA_TYPE_STRING then Inr d
      else
        bind_res
          (if td_data_type d = TIO_DATA_TYPE_NONE
           then mem_write buffer 0 [0x5B, 0x4E, 0x4F, 0x4E, 0x45, 0x5D, 0]
           else if td_data_type d = TIO_DATA_TYPE_INT
           then mem_write buffer 0 (dec_int (sint (td_int d)) @ [0])
           else if td_data_type d = TIO_DATA_TYPE_DOUBLE
           then mem_write buffer 0 (format_g (td_double d) @ [0])
           else Inr buffer) (\<lambda>buffer.
        bind_res (mem_write buffer 63 [0]) (\<lambda>buffer.
        bind_res (strlen32 buffer) (\<lambda>n.
          tiodata_set_string_and_size d buffer n))))"


section \<open>Values in messages\<close>

text \<open>
  The pointer argument may be null; then nothing is added.  An unknown type code adds an empty
  field of type \<^verbatim>\<open>MESSAGE_FIELD_TYPE_NONE\<close>.
\<close>

definition tio_data_add_to_pr1_message ::
    "pr1_message \<Rightarrow> u16 \<Rightarrow> tiodata option \<Rightarrow> pr1_message cres" where
  "tio_data_add_to_pr1_message m field_id tio_data =
     (case tio_data of
        None \<Rightarrow> Inr m
      | Some d \<Rightarrow>
          if td_data_type d = TIO_DATA_TYPE_STRING
          then (case td_string d of
                  None \<Rightarrow> if td_string_size d = 0
                         then pr1_message_add_field m field_id MESSAGE_FIELD_TYPE_STRING [] 0
                         else Inl NullDereference
                | Some b \<Rightarrow> pr1_message_add_field m field_id MESSAGE_FIELD_TYPE_STRING b
                             (td_string_size d))
          else if td_data_type d = TIO_DATA_TYPE_INT
          then pr1_message_add_field m field_id MESSAGE_FIELD_TYPE_INT (u32_bytes (td_int d)) 4
          else if td_data_type d = TIO_DATA_TYPE_DOUBLE
          then pr1_message_add_field m field_id MESSAGE_FIELD_TYPE_DOUBLE (u64_bytes (td_double d)) 8
          else pr1_message_add_field m field_id MESSAGE_FIELD_TYPE_NONE [] 0)"

definition pr1_message_field_to_tio_data ::
    "block \<Rightarrow> nat option \<Rightarrow> tiodata \<Rightarrow> tiodata cres" where
  "pr1_message_field_to_tio_data b field d =
     (let d = tiodata_set_as_none d in
      case field of
        None \<Rightarrow> Inr d
      | Some f \<Rightarrow>
          bind_res (data_type_at b f) (\<lambda>t.
            if t = MESSAGE_FIELD_TYPE_NONE then Inr d
            else if ucast t = TIO_DATA_TYPE_STRING
            then bind_res (data_size_at b f) (\<lambda>n.
                 bind_res (mem_read b (pr1_message_field_get_buffer f) (unat n)) (\<lambda>src.
                   tiodata_set_string_and_size d src n))
            else if ucast t = TIO_DATA_TYPE_INT
            then bind_res (pr1_message_field_get_int b f) (\<lambda>v. Inr (tiodata_set_int d v))
            else if ucast t = TIO_DATA_TYPE_DOUBLE
            then bind_res (pr1_message_field_get_double b f) (\<lambda>v. Inr (tiodata_set_double d v))
            else Inr d))"

definition pr1_message_field_get_as_tio_data ::
    "pr1_message \<Rightarrow> u32 \<Rightarrow> tiodata \<Rightarrow> tiodata cres" where
  "pr1_message_field_get_as_tio_data m field_id d =
     (let d = tiodata_set_as_none d in
      bind_res (pr1_message_field_find_by_id m field_id) (\<lambda>field.
        case field of
          None \<Rightarrow> Inr d
        | Some f \<Rightarrow> pr1_message_field_to_tio_data (pm_block m) (Some f) d))"

definition tio_generate_data_message ::
    "u32 \<Rightarrow> u32 \<Rightarrow> tiodata option \<Rightarrow> tiodata option \<Rightarrow> tiodata option \<Rightarrow> pr1_message cres" where
  "tio_generate_data_message command_id handle key v metadata =
     bind_res pr1_message_new (\<lambda>m.
     bind_res (pr1_message_add_field_int m MESSAGE_FIELD_ID_COMMAND command_id) (\<lambda>m.
     bind_res (pr1_message_add_field_int m MESSAGE_FIELD_ID_HANDLE handle) (\<lambda>m.
     bind_res (tio_data_add_to_pr1_message m MESSAGE_FIELD_ID_KEY key) (\<lambda>m.
     bind_res (tio_data_add_to_pr1_message m MESSAGE_FIELD_ID_VALUE v) (\<lambda>m.
       tio_data_add_to_pr1_message m MESSAGE_FIELD_ID_METADATA metadata)))))"


section \<open>Invariant and meaning of a value\<close>

definition tiodata_inv :: "tiodata \<Rightarrow> bool" where
  "tiodata_inv d \<longleftrightarrow>
     (if td_data_type d = TIO_DATA_TYPE_STRING
      then (case td_string d of
              None \<Rightarrow> False
            | Some b \<Rightarrow> length b = unat (td_string_size d) + 1 \<and> b ! unat (td_string_size d) = 0)
      else td_string d = None \<and> td_string_size d = 0 \<and>
           td_data_type d \<in> {TIO_DATA_TYPE_NONE, TIO_DATA_TYPE_INT, TIO_DATA_TYPE_DOUBLE})"

datatype tio_value = VNone | VString "byte list" | VInt u32 | VDouble u64

definition tiodata_value :: "tiodata \<Rightarrow> tio_value" where
  "tiodata_value d =
     (if td_data_type d = TIO_DATA_TYPE_STRING
      then (case td_string d of None \<Rightarrow> VString [] | Some b \<Rightarrow> VString (take (unat (td_string_size d)) b))
      else if td_data_type d = TIO_DATA_TYPE_INT then VInt (td_int d)
      else if td_data_type d = TIO_DATA_TYPE_DOUBLE then VDouble (td_double d)
      else VNone)"

lemma tiodata_init_inv [simp]: "tiodata_inv tiodata_init" "tiodata_value tiodata_init = VNone"
  by (simp_all add: tiodata_inv_def tiodata_init_def tiodata_value_def)

lemma tiodata_set_as_none_inv:
  "tiodata_inv d \<Longrightarrow> tiodata_inv (tiodata_set_as_none d)"
  by (auto simp: tiodata_inv_def tiodata_set_as_none_def tiodata_get_type_def Let_def)

lemma tiodata_set_as_none_value [simp]:
  "tiodata_value (tiodata_set_as_none d) = VNone"
  "td_data_type (tiodata_set_as_none d) = TIO_DATA_TYPE_NONE"
  by (simp_all add: tiodata_value_def tiodata_set_as_none_def Let_def)

lemma tiodata_set_as_none_owns:
  "tiodata_inv d \<Longrightarrow> td_string (tiodata_set_as_none d) = None \<and>
     td_string_size (tiodata_set_as_none d) = 0"
  by (auto simp: tiodata_inv_def tiodata_set_as_none_def tiodata_get_type_def Let_def)

lemma tiodata_set_int_ok:
  "tiodata_inv d \<Longrightarrow> tiodata_inv (tiodata_set_int d v) \<and> tiodata_value (tiodata_set_int d v) = VInt v"
  using tiodata_set_as_none_owns [of d]
  by (simp add: tiodata_set_int_def tiodata_inv_def [of "_\<lparr>td_data_type := _, td_int := _\<rparr>"]
      tiodata_value_def)

lemma tiodata_set_double_ok:
  "tiodata_inv d \<Longrightarrow> tiodata_inv (tiodata_set_double d v) \<and>
     tiodata_value (tiodata_set_double d v) = VDouble v"
  using tiodata_set_as_none_owns [of d]
  by (simp add: tiodata_set_double_def tiodata_inv_def [of "_\<lparr>td_data_type := _, td_double := _\<rparr>"]
      tiodata_value_def)

lemma tiodata_set_string_and_size_ok:
  assumes "unat len \<le> length buffer" and "unat len + 1 < 2 ^ 32"
  shows "\<exists>d'. tiodata_set_string_and_size d buffer len = Inr d' \<and> tiodata_inv d' \<and>
           tiodata_value d' = VString (take (unat len) buffer)"
proof -
  have n: "unat (len + 1) = unat len + 1"
    using assms(2) by (simp add: unat_word_ariths)
  let ?src = "take (unat len) buffer"
  have l: "length ?src = unat len" using assms(1) by simp
  have 1: "mem_read buffer 0 (unat len) = Inr ?src" using assms(1) by (simp add: mem_read_def)
  have 2: "mem_write (replicate (unat (len + 1)) 0xFF) 0 ?src = Inr (?src @ [0xFF])"
    using l n by (simp add: mem_write_def replicate_append_same [symmetric])
  have 3: "mem_write (?src @ [0xFF]) (unat len) [0] = Inr (?src @ [0])"
    using l by (simp add: mem_write_def)
  show ?thesis
    unfolding tiodata_set_string_and_size_def Let_def 1 2 3 bind_res_simps
    using l by (auto simp: tiodata_inv_def tiodata_value_def nth_append)
qed

lemma tiodata_inv_string:
  "tiodata_inv d \<Longrightarrow> td_data_type d = TIO_DATA_TYPE_STRING \<Longrightarrow>
   \<exists>b. td_string d = Some b \<and> length b = unat (td_string_size d) + 1"
  by (auto simp: tiodata_inv_def split: option.splits)

lemma tiodata_inv_cases:
  "tiodata_inv d \<Longrightarrow> td_data_type d \<noteq> TIO_DATA_TYPE_STRING \<Longrightarrow>
   td_data_type d = TIO_DATA_TYPE_NONE \<or> td_data_type d = TIO_DATA_TYPE_INT \<or>
   td_data_type d = TIO_DATA_TYPE_DOUBLE"
  by (auto simp: tiodata_inv_def)


section \<open>Copying and converting\<close>

text \<open>
  \<^verbatim>\<open>tiodata_copy\<close> never faults, leaves the destination well-formed with the value of the
  source, and a copied string has a block of its own size (the destination's old block is gone).
\<close>

theorem tiodata_copy_correct:
  assumes "tiodata_inv src" and "td_string_size src \<noteq> 0xFFFFFFFF"
  shows "\<exists>d. tiodata_copy src dst = Inr d \<and> tiodata_inv d \<and> tiodata_value d = tiodata_value src"
proof (cases "td_data_type src = TIO_DATA_TYPE_STRING")
  case True
  then obtain b where b: "td_string src = Some b" "length b = unat (td_string_size src) + 1"
    using tiodata_inv_string [OF assms(1)] by blast
  from u32_suc_less [OF assms(2)] show ?thesis
    using True b tiodata_set_string_and_size_ok [of "td_string_size src" b "tiodata_set_as_none dst"]
    by (auto simp: tiodata_copy_def Let_def tiodata_value_def)
next
  case False
  then show ?thesis
    using assms(1) tiodata_inv_cases [OF assms(1)] by (auto simp: tiodata_copy_def Let_def)
qed

text \<open>Writing a short terminated text into the 64-byte buffer and measuring it.\<close>

lemma short_text_in_buffer:
  assumes "length buffer = 64" and "length t < 63" and "\<forall>c \<in> set t. c \<noteq> (0 :: byte)"
  shows "\<exists>b. bind_res (mem_write buffer 0 (t @ [0])) (\<lambda>b. mem_write b 63 [0]) = Inr b \<and>
           strlen32 b = Inr (of_nat (length t)) \<and> length b = 64 \<and> take (length t) b = t"
proof -
  let ?r = "drop (Suc (length t)) buffer"
  let ?b = "t @ 0 # take (62 - length t) ?r @ [0]"
  have "mem_write buffer 0 (t @ [0]) = Inr (t @ 0 # ?r)"
    using assms by (simp add: mem_write_def)
  moreover have "mem_write (t @ 0 # ?r) 63 [0] = Inr ?b"
    using assms by (simp add: mem_write_def take_Cons' numeral_eq_Suc)
  moreover have "takeWhile (\<lambda>c. c \<noteq> 0) ?b = t"
    using assms(3) by (simp add: takeWhile_tail)
  then have "strlen32 ?b = Inr (of_nat (length t))"
    using assms(2) by (simp add: strlen32_def)
  ultimately show ?thesis using assms by (intro exI [of _ ?b]) simp
qed

text \<open>
  The 64-byte buffer of \<^verbatim>\<open>tiodata_convert_to_string\<close> is enough for every integer: converting a
  well-formed integer value never faults and gives a string that reads back as the signed
  32-bit number; a value without type becomes the text \<^verbatim>\<open>[NONE]\<close>.
\<close>

theorem tiodata_convert_to_string_correct:
  assumes "length buffer = 64"
    and "td_data_type d = TIO_DATA_TYPE_INT \<or> td_data_type d = TIO_DATA_TYPE_NONE"
  shows "\<exists>d' t. tiodata_convert_to_string format_g buffer d = Inr d' \<and> tiodata_inv d' \<and>
           tiodata_value d' = VString t \<and>
           (if td_data_type d = TIO_DATA_TYPE_INT then read_dec t = sint (td_int d)
            else t = [0x5B, 0x4E, 0x4F, 0x4E, 0x45, 0x5D])"
proof -
  let ?t = "if td_data_type d = TIO_DATA_TYPE_INT then dec_int (sint (td_int d))
            else [0x5B, 0x4E, 0x4F, 0x4E, 0x45, 0x5D]"
  have "\<bar>sint (td_int d)\<bar> < 10 ^ 10"
    using sint_ge [of "td_int d"] sint_lt [of "td_int d"] by simp
  then have "length ?t < 63" using dec_int_short by fastforce
  moreover have "\<forall>c \<in> set ?t. c \<noteq> 0" using dec_int_nonzero by auto
  ultimately obtain b where
    b: "bind_res (mem_write buffer 0 (?t @ [0])) (\<lambda>b. mem_write b 63 [0]) = Inr b"
    and n: "strlen32 b = Inr (of_nat (length ?t))" and l: "length b = 64"
    and t: "take (length ?t) b = ?t"
    using short_text_in_buffer [OF assms(1)] by blast
  have u: "unat (of_nat (length ?t) :: u32) = length ?t"
    using \<open>length ?t < 63\<close> by (intro unat_of_nat_u32) simp
  obtain d' where d': "tiodata_set_string_and_size d b (of_nat (length ?t)) = Inr d'"
    and i: "tiodata_inv d'" and v: "tiodata_value d' = VString ?t"
    using tiodata_set_string_and_size_ok [of "of_nat (length ?t)" b d] u l t \<open>length ?t < 63\<close>
    by auto
  have "tiodata_convert_to_string format_g buffer d = Inr d'"
    using assms(2) b n d' unfolding tiodata_convert_to_string_def
    by (auto simp: bind_res_Inr_iff)
  then show ?thesis
    using i v read_dec_dec_int by (intro exI [of _ d'] exI [of _ ?t]) auto
qed

theorem tiodata_convert_to_string_correct_witness:
  "\<exists>d' t. tiodata_convert_to_string (\<lambda>_. []) (replicate 64 7) (tiodata_set_int tiodata_init (- 5)) = Inr d' \<and>
     tiodata_value d' = VString t \<and> read_dec t = - 5"
  using tiodata_convert_to_string_correct [of "replicate 64 7" "tiodata_set_int tiodata_init (- 5)"
      "\<lambda>_. []"]
  by (auto simp: tiodata_set_int_def)

theorem tiodata_copy_correct_witness:
  "\<exists>s d. tiodata_set_string_and_size tiodata_init [104, 105] 2 = Inr s \<and>
     tiodata_copy s (tiodata_set_int tiodata_init 9) = Inr d \<and> tiodata_inv d \<and>
     tiodata_value d = VString [104, 105]"
proof -
  obtain s where s: "tiodata_set_string_and_size tiodata_init [104, 105] 2 = Inr s"
    and i: "tiodata_inv s" and v: "tiodata_value s = VString [104, 105]"
    using tiodata_set_string_and_size_ok [of 2 "[104, 105]" tiodata_init] by auto
  have "td_string_size s \<noteq> 0xFFFFFFFF"
    using s by (auto simp: tiodata_set_string_and_size_def Let_def bind_res_Inr_iff)
  from tiodata_copy_correct [OF i this] s v show ?thesis by auto
qed


section \<open>Round trip through a message\<close>

fun value_field :: "u16 \<Rightarrow> tio_value \<Rightarrow> pr1_field" where
  "value_field i VNone = (i, MESSAGE_FIELD_TYPE_NONE, [])"
| "value_field i (VString s) = (i, MESSAGE_FIELD_TYPE_STRING, s)"
| "value_field i (VInt v) = (i, MESSAGE_FIELD_TYPE_INT, u32_bytes v)"
| "value_field i (VDouble v) = (i, MESSAGE_FIELD_TYPE_DOUBLE, u64_bytes v)"

definition optional_field :: "u16 \<Rightarrow> tiodata option \<Rightarrow> pr1_field list" where
  "optional_field i x = (case x of None \<Rightarrow> [] | Some d \<Rightarrow> [value_field i (tiodata_value d)])"

definition optional_value :: "tiodata option \<Rightarrow> tio_value" where
  "optional_value x = (case x of None \<Rightarrow> VNone | Some d \<Rightarrow> tiodata_value d)"

lemma fst_value_field [simp]: "fst (value_field i v) = i"
  by (cases v) simp_all

lemma value_field_ok: "i \<noteq> 0 \<Longrightarrow> i \<le> MESSAGE_FIELD_ID_MAX_VALUE \<Longrightarrow> pr1_field_ok (value_field i v)"
  by (cases v) simp_all

lemma tio_data_add_to_pr1_message_fields:
  assumes "case x of None \<Rightarrow> True | Some d \<Rightarrow> tiodata_inv d"
  shows "tio_data_add_to_pr1_message m i x = pr1_message_add_fields m (optional_field i x)"
proof (cases x)
  case None
  then show ?thesis by (simp add: tio_data_add_to_pr1_message_def optional_field_def)
next
  case (Some d)
  with assms have inv: "tiodata_inv d" by simp
  have id: "bind_res r Inr = r" for r :: "c_fault + pr1_message" by (cases r) simp_all
  show ?thesis
  proof (cases "td_data_type d = TIO_DATA_TYPE_STRING")
    case True
    then obtain b where b: "td_string d = Some b" "length b = unat (td_string_size d) + 1"
      using tiodata_inv_string [OF inv] by blast
    then have "of_nat (length (take (unat (td_string_size d)) b)) = td_string_size d" by simp
    then show ?thesis
      using True Some b pr1_message_add_field_take [of "td_string_size d" b]
      by (simp add: tio_data_add_to_pr1_message_def optional_field_def tiodata_value_def id
          del: length_take)
  next
    case False
    then show ?thesis
      using Some tiodata_inv_cases [OF inv]
      by (auto simp: tio_data_add_to_pr1_message_def optional_field_def tiodata_value_def id)
  qed
qed

lemma pr1_message_add_fields_append:
  "pr1_message_add_fields m (fs @ gs) =
     bind_res (pr1_message_add_fields m fs) (\<lambda>m. pr1_message_add_fields m gs)"
  by (induction m fs rule: pr1_message_add_fields.induct) (simp_all add: bind_res_assoc)

lemma pr1_message_add_field_int_fields:
  "pr1_message_add_field_int m i v = pr1_message_add_fields m [value_field i (VInt v)]"
  by (cases "pr1_message_add_field m i 3 (u32_bytes v) 4")
    (simp_all add: pr1_message_add_field_int_def)

definition data_message_fields ::
    "u32 \<Rightarrow> u32 \<Rightarrow> tiodata option \<Rightarrow> tiodata option \<Rightarrow> tiodata option \<Rightarrow> pr1_field list" where
  "data_message_fields command_id handle key v metadata =
     [value_field MESSAGE_FIELD_ID_COMMAND (VInt command_id)] @
     [value_field MESSAGE_FIELD_ID_HANDLE (VInt handle)] @
     optional_field MESSAGE_FIELD_ID_KEY key @ optional_field MESSAGE_FIELD_ID_VALUE v @
     optional_field MESSAGE_FIELD_ID_METADATA metadata"

definition opt_inv :: "tiodata option \<Rightarrow> bool" where
  "opt_inv x \<longleftrightarrow> (case x of None \<Rightarrow> True | Some d \<Rightarrow> tiodata_inv d)"

lemma tio_generate_data_message_fields:
  assumes "opt_inv key" and "opt_inv v" and "opt_inv metadata"
  shows "tio_generate_data_message command_id handle key v metadata =
         bind_res pr1_message_new (\<lambda>m. pr1_message_add_fields m
           (data_message_fields command_id handle key v metadata))"
  using assms unfolding tio_generate_data_message_def data_message_fields_def opt_inv_def
    pr1_message_add_fields_append pr1_message_add_field_int_fields
  by (simp only: tio_data_add_to_pr1_message_fields bind_res_assoc)

lemma data_message_fields_ok:
  "list_all pr1_field_ok (data_message_fields c h k v md)"
  "length (data_message_fields c h k v md) < 2 ^ 16"
  by (auto simp: data_message_fields_def optional_field_def list_all_iff
      intro!: value_field_ok split: option.splits)

lemma pr1_message_field_to_tio_data_ok:
  assumes "read_field b p = Inr (value_field i v)" and "tiodata_inv d"
    and "length (snd (snd (value_field i v))) < 2 ^ 31"
  shows "\<exists>d'. pr1_message_field_to_tio_data b (Some p) d = Inr d' \<and> tiodata_inv d' \<and>
           tiodata_value d' = v"
proof -
  have none: "tiodata_inv (tiodata_set_as_none d)" by (rule tiodata_set_as_none_inv [OF assms(2)])
  obtain n where t: "data_type_at b p = Inr (fst (snd (value_field i v)))"
    and n: "data_size_at b p = Inr n"
    and r: "mem_read b (pr1_message_field_get_buffer p) (unat n) = Inr (snd (snd (value_field i v)))"
    using assms(1) by (cases "value_field i v") (auto simp: read_field_def bind_res_Inr_iff)
  have len: "unat n = length (snd (snd (value_field i v)))"
    using r by (auto simp: mem_read_Inr_iff)
  show ?thesis
  proof (cases v)
    case VNone
    then show ?thesis using t none by (simp add: pr1_message_field_to_tio_data_def)
  next
    case (VString s)
    then show ?thesis
      using t n r len assms(3) tiodata_set_string_and_size_ok [of n s "tiodata_set_as_none d"]
      by (auto simp: pr1_message_field_to_tio_data_def Let_def)
  next
    case (VInt w)
    then have "unat n = unat (4 :: u32)" using len by simp
    then have "n = 4" by (rule unsigned_word_eqI)
    then show ?thesis
      using VInt t n r tiodata_set_int_ok [OF none, of w]
      by (simp add: pr1_message_field_to_tio_data_def Let_def pr1_message_field_get_int_def
          pr1_message_field_get_buffer_def)
  next
    case (VDouble w)
    then have "unat n = unat (8 :: u32)" using len by simp
    then have "n = 8" by (rule unsigned_word_eqI)
    then show ?thesis
      using VDouble t n r tiodata_set_double_ok [OF none, of w]
      by (simp add: pr1_message_field_to_tio_data_def Let_def pr1_message_field_get_double_def
          pr1_message_field_get_buffer_def)
  qed
qed

lemma get_as_tio_value_ok:
  assumes finds: "pm_finds m fs" and d: "tiodata_inv d"
    and find: "find (\<lambda>g. (ucast (fst g) :: u32) = fid) fs = map_option (value_field i) x"
    and len: "length (encode_fields fs) < 2 ^ 31"
  shows "\<exists>d'. pr1_message_field_get_as_tio_data m fid d = Inr d' \<and> tiodata_inv d' \<and>
           tiodata_value d' = (case x of None \<Rightarrow> VNone | Some v \<Rightarrow> v)"
proof (cases x)
  case None
  then have "pr1_message_field_find_by_id m fid = Inr None"
    using finds find by (auto simp: pm_finds_def dest: spec [of _ fid])
  then show ?thesis
    using None tiodata_set_as_none_inv [OF d]
    by (simp add: pr1_message_field_get_as_tio_data_def)
next
  case (Some v)
  let ?f = "value_field i v"
  have f: "find (\<lambda>g. (ucast (fst g) :: u32) = fid) fs = Some ?f" using find Some by simp
  then obtain p where p: "pr1_message_field_find_by_id m fid = Inr (Some p)"
    and r: "read_field (pm_block m) p = Inr ?f"
    using finds by (auto simp: pm_finds_def dest!: spec [of _ fid])
  have "?f \<in> set fs" using f by (metis find_Some_iff nth_mem)
  then have "length (encode_field ?f) \<le> length (encode_fields fs)"
    unfolding encode_fields_def length_concat map_map
    by (intro member_le_sum_list) (auto simp: comp_def)
  moreover have "length (snd (snd ?f)) \<le> length (encode_field ?f)"
    by (cases ?f) (simp add: encode_field_def)
  ultimately have "length (snd (snd ?f)) < 2 ^ 31" using len by simp
  from pr1_message_field_to_tio_data_ok [OF r tiodata_set_as_none_inv [OF d] this]
  show ?thesis using Some p by (simp add: pr1_message_field_get_as_tio_data_def)
qed

lemma get_as_tio_data_ok:
  assumes "pm_finds m fs" and "tiodata_inv d"
    and "find (\<lambda>g. (ucast (fst g) :: u32) = fid) fs =
      (case x of None \<Rightarrow> None | Some y \<Rightarrow> Some (value_field i (tiodata_value y)))"
    and "length (encode_fields fs) < 2 ^ 31"
  shows "\<exists>d'. pr1_message_field_get_as_tio_data m fid d = Inr d' \<and> tiodata_inv d' \<and>
           tiodata_value d' = optional_value x"
  using get_as_tio_value_ok [OF assms(1,2), of fid i "map_option tiodata_value x"] assms(3,4)
  by (cases x) (simp_all add: optional_value_def)

text \<open>
  End to end, a data message (command, handle, and any of key, value and metadata) that the
  client generates and serialises is received and parsed without a fault, and reading a field
  back as \<^verbatim>\<open>TIO_DATA\<close> gives the value that was sent, or a value of type none when the caller
  passed a null pointer.
\<close>

theorem data_message_roundtrip:
  assumes "opt_inv key" and "opt_inv v" and "opt_inv metadata" and "tiodata_inv d"
    and "length (encode_fields (data_message_fields command_id handle key v metadata)) < 2 ^ 31 - 4096"
  shows "\<exists>m bytes n m' r dk dv dm. tio_generate_data_message command_id handle key v metadata = Inr m \<and>
     pr1_message_get_buffer m q = Inr (bytes, n, m') \<and> pr1_message_from_wire bytes = Inr r \<and>
     pr1_message_field_get_as_tio_data r (ucast MESSAGE_FIELD_ID_KEY) d = Inr dk \<and>
     tiodata_value dk = optional_value key \<and>
     pr1_message_field_get_as_tio_data r (ucast MESSAGE_FIELD_ID_VALUE) d = Inr dv \<and>
     tiodata_value dv = optional_value v \<and>
     pr1_message_field_get_as_tio_data r (ucast MESSAGE_FIELD_ID_METADATA) d = Inr dm \<and>
     tiodata_value dm = optional_value metadata"
proof -
  let ?fs = "data_message_fields command_id handle key v metadata"
  obtain m0 where m0: "pr1_message_new = Inr m0" and h0: "pm_holds m0 []"
    using pr1_message_new_holds by blast
  obtain m where m: "pr1_message_add_fields m0 ?fs = Inr m" and h: "pm_holds m ?fs"
    using pr1_message_add_fields_holds [OF h0] assms(5) by auto
  have g: "tio_generate_data_message command_id handle key v metadata = Inr m"
    unfolding tio_generate_data_message_fields [OF assms(1-3)] m0 bind_res_simps by (rule m)
  obtain m' where b: "pr1_message_get_buffer m q = Inr (message_header_bytes
      (of_nat (length (encode_fields ?fs))) (of_nat (length ?fs)) q @ encode_fields ?fs,
      of_nat (8 + length (encode_fields ?fs)), m')"
    using pr1_message_get_buffer_holds [OF h assms(5), of q] by blast
  obtain r where r: "pr1_message_from_wire (message_header_bytes
      (of_nat (length (encode_fields ?fs))) (of_nat (length ?fs)) q @ encode_fields ?fs) = Inr r"
    and f: "pm_finds r ?fs"
    using pr1_message_from_wire_ok [OF data_message_fields_ok assms(5), of q] by blast
  have len: "length (encode_fields ?fs) < 2 ^ 31" using assms(5) by simp
  note get = get_as_tio_data_ok [OF f assms(4) _ len]
  have "\<exists>d'. pr1_message_field_get_as_tio_data r (ucast MESSAGE_FIELD_ID_KEY) d = Inr d' \<and>
          tiodata_inv d' \<and> tiodata_value d' = optional_value key"
    by (rule get) (auto simp: data_message_fields_def optional_field_def split: option.splits)
  moreover have "\<exists>d'. pr1_message_field_get_as_tio_data r (ucast MESSAGE_FIELD_ID_VALUE) d = Inr d' \<and>
          tiodata_inv d' \<and> tiodata_value d' = optional_value v"
    by (rule get) (auto simp: data_message_fields_def optional_field_def split: option.splits)
  moreover have "\<exists>d'. pr1_message_field_get_as_tio_data r (ucast MESSAGE_FIELD_ID_METADATA) d = Inr d' \<and>
          tiodata_inv d' \<and> tiodata_value d' = optional_value metadata"
    by (rule get) (auto simp: data_message_fields_def optional_field_def split: option.splits)
  ultimately show ?thesis using g b r by blast
qed

theorem data_message_roundtrip_witness:
  "\<exists>m bytes n m' r dk dv dm.
     tio_generate_data_message 0x14 3 (Some (tiodata_set_int tiodata_init 7))
       (Some (tiodata_set_double tiodata_init 42)) None = Inr m \<and>
     pr1_message_get_buffer m 0 = Inr (bytes, n, m') \<and> pr1_message_from_wire bytes = Inr r \<and>
     pr1_message_field_get_as_tio_data r (ucast MESSAGE_FIELD_ID_KEY) tiodata_init = Inr dk \<and>
     tiodata_value dk = VInt 7 \<and>
     pr1_message_field_get_as_tio_data r (ucast MESSAGE_FIELD_ID_VALUE) tiodata_init = Inr dv \<and>
     tiodata_value dv = VDouble 42 \<and>
     pr1_message_field_get_as_tio_data r (ucast MESSAGE_FIELD_ID_METADATA) tiodata_init = Inr dm \<and>
     tiodata_value dm = VNone"
proof -
  let ?k = "tiodata_set_int tiodata_init 7" and ?v = "tiodata_set_double tiodata_init 42"
  have i: "opt_inv (Some ?k)" "opt_inv (Some ?v)" "opt_inv None"
    using tiodata_set_int_ok tiodata_set_double_ok by (simp_all add: opt_inv_def)
  have v: "optional_value (Some ?k) = VInt 7" "optional_value (Some ?v) = VDouble 42"
    "optional_value None = VNone"
    using tiodata_set_int_ok tiodata_set_double_ok by (simp_all add: optional_value_def)
  have "length (encode_fields (data_message_fields 0x14 3 (Some ?k) (Some ?v) None)) < 2 ^ 31 - 4096"
    using v by (simp add: data_message_fields_def optional_field_def optional_value_def)
  from data_message_roundtrip [OF i tiodata_init_inv(1) this, of 0] show ?thesis
    unfolding v by blast
qed


section \<open>Messages on the stream\<close>

definition wire :: "u16 \<Rightarrow> pr1_field list \<Rightarrow> byte list" where
  "wire q fs = message_header_bytes (of_nat (length (encode_fields fs))) (of_nat (length fs)) q @ encode_fields fs"

definition msg_ok :: "pr1_field list \<Rightarrow> bool" where
  "msg_ok fs \<longleftrightarrow> list_all pr1_field_ok fs \<and> length fs < 2 ^ 16 \<and> length (encode_fields fs) < 2 ^ 31 - 4096"

lemma new_message_fields:
  assumes "length (encode_fields fs) < 2 ^ 31 - 4096"
  shows "\<exists>m. bind_res pr1_message_new (\<lambda>m. pr1_message_add_fields m fs) = Inr m \<and> pm_holds m fs"
proof -
  obtain m where m: "pr1_message_new = Inr m" "pm_holds m []" using pr1_message_new_holds by blast
  show ?thesis
    unfolding m(1) bind_res_simps using pr1_message_add_fields_holds [of m "[]" fs] m(2) assms by simp
qed

end
