(* ===== verification/EventQueue.thy ===== *)
theory EventQueue
  imports Prelude
begin

text \<open>
  The queue of received events of a client connection (\<^verbatim>\<open>struct EVENT_INFO_NODE\<close>,
  \<^verbatim>\<open>events_list_push\<close>, \<^verbatim>\<open>event_list_is_empty\<close>, \<^verbatim>\<open>events_list_pop\<close> of
  \<^verbatim>\<open>client/c/tioclient.c\<close>): a circular singly linked list whose only handle is its last node.
  The nodes live in an explicit heap, so that following a null or freed pointer is a fault.
  The locale \<open>fifo\<close> states what the connection code relies on; the pointer structure is an
  interpretation of it.
\<close>


section \<open>The interface\<close>

text \<open>\<open>rep q ms\<close>: the queue \<open>q\<close> is well-formed and holds the messages \<open>ms\<close>, oldest first.\<close>

locale fifo =
  fixes push :: "'q \<Rightarrow> 'm \<Rightarrow> 'q cres"
    and pop :: "'q \<Rightarrow> ('m option \<times> 'q) cres"
    and rep :: "'q \<Rightarrow> 'm list \<Rightarrow> bool"
  assumes push_rep: "rep q ms \<Longrightarrow> \<exists>q'. push q m = Inr q' \<and> rep q' (ms @ [m])"
    and pop_empty: "rep q [] \<Longrightarrow> pop q = Inr (None, q)"
    and pop_rep: "rep q (m # ms) \<Longrightarrow> \<exists>q'. pop q = Inr (Some m, q') \<and> rep q' ms"
begin

text \<open>
  A schedule of queue operations (\<open>Some m\<close> receives \<open>m\<close>, \<open>None\<close> takes the next event) and its
  meaning on lists.
\<close>

fun run :: "'q \<Rightarrow> 'm option list \<Rightarrow> ('m option list \<times> 'q) cres" where
  "run q [] = Inr ([], q)"
| "run q (Some m # os) = bind_res (push q m) (\<lambda>q. run q os)"
| "run q (None # os) =
     bind_res (pop q) (\<lambda>(r, q). bind_res (run q os) (\<lambda>(rs, q). Inr (r # rs, q)))"

fun run_spec :: "'m list \<Rightarrow> 'm option list \<Rightarrow> 'm option list \<times> 'm list" where
  "run_spec ms [] = ([], ms)"
| "run_spec ms (Some m # os) = run_spec (ms @ [m]) os"
| "run_spec [] (None # os) = (let (rs, ms) = run_spec [] os in (None # rs, ms))"
| "run_spec (m # ms) (None # os) = (let (rs, ms) = run_spec ms os in (Some m # rs, ms))"

lemma run_refines:
  "rep q ms \<Longrightarrow> \<exists>q'. run q os = Inr (fst (run_spec ms os), q') \<and> rep q' (snd (run_spec ms os))"
proof (induction ms os arbitrary: q rule: run_spec.induct)
  case (2 ms m os)
  then show ?case using push_rep [OF 2(2), of m] by auto
next
  case (3 os)
  obtain q' where "run q os = Inr (fst (run_spec [] os), q')" "rep q' (snd (run_spec [] os))"
    using 3(1) [OF 3(2)] by blast
  then show ?case using pop_empty [OF 3(2)] by (simp add: case_prod_beta)
next
  case (4 m ms os)
  obtain q1 where q1: "pop q = Inr (Some m, q1)" "rep q1 ms" using pop_rep [OF 4(2)] by blast
  then show ?case using 4(1) [OF q1(2)] by (auto simp: case_prod_beta)
qed auto

text \<open>The drain loop of \<^verbatim>\<open>tio_disconnect\<close> and \<^verbatim>\<open>tio_dispatch_pending_events\<close>: pop up to \<open>n\<close>.\<close>

fun drain :: "nat \<Rightarrow> 'q \<Rightarrow> ('m list \<times> 'q) cres" where
  "drain 0 q = Inr ([], q)"
| "drain (Suc n) q =
     bind_res (pop q) (\<lambda>(r, q). case r of
        None \<Rightarrow> Inr ([], q)
      | Some m \<Rightarrow> bind_res (drain n q) (\<lambda>(ms, q). Inr (m # ms, q)))"

lemma drain_rep: "rep q ms \<Longrightarrow> \<exists>q'. drain n q = Inr (take n ms, q') \<and> rep q' (drop n ms)"
proof (induction n arbitrary: q ms)
  case (Suc n)
  show ?case
  proof (cases ms)
    case Nil
    then show ?thesis using Suc.prems pop_empty by auto
  next
    case (Cons m ms')
    then obtain q1 where q1: "pop q = Inr (Some m, q1)" "rep q1 ms'"
      using pop_rep Suc.prems by blast
    then show ?thesis using Suc.IH [OF q1(2)] Cons by auto
  qed
qed auto

end


section \<open>The linked list\<close>

type_synonym addr = nat

record 'm event_info_node =
  en_next :: addr
  en_message :: 'm

text \<open>
  The part of \<^verbatim>\<open>struct TIO_CONNECTION\<close> the queue uses, with the heap of its nodes.  \<open>el_fresh\<close>
  is the address the next \<^verbatim>\<open>malloc\<close> returns.
\<close>

record 'm event_list =
  el_heap :: "addr \<rightharpoonup> 'm event_info_node"
  el_fresh :: addr
  event_list_queue_end :: "addr option"
  pending_event_count :: u32

definition deref :: "('a \<rightharpoonup> 'b) \<Rightarrow> 'a option \<Rightarrow> 'b cres" where
  "deref h p = (case p of
      None \<Rightarrow> Inl NullDereference
    | Some a \<Rightarrow> (case h a of None \<Rightarrow> Inl DanglingPointer | Some n \<Rightarrow> Inr n))"

lemma deref_simps [simp]:
  "h a = Some n \<Longrightarrow> deref h (Some a) = Inr n"
  "deref h None = Inl NullDereference"
  by (simp_all add: deref_def)

definition events_list_push :: "('m, 'z) event_list_scheme \<Rightarrow> 'm \<Rightarrow> ('m, 'z) event_list_scheme cres" where
  "events_list_push c message =
     (let node = el_fresh c in
      bind_res
        (case event_list_queue_end c of
           None \<Rightarrow> Inr ((el_heap c)(node \<mapsto> \<lparr> en_next = node, en_message = message \<rparr>))
         | Some e \<Rightarrow>
             bind_res (deref (el_heap c) (Some e)) (\<lambda>last.
               Inr ((el_heap c)(node \<mapsto> \<lparr> en_next = en_next last, en_message = message \<rparr>,
                                e \<mapsto> last\<lparr> en_next := node \<rparr>))))
        (\<lambda>h. Inr (c\<lparr> el_heap := h, el_fresh := node + 1, event_list_queue_end := Some node,
                    pending_event_count := pending_event_count c + 1 \<rparr>)))"

definition event_list_is_empty :: "('m, 'z) event_list_scheme \<Rightarrow> bool" where
  "event_list_is_empty c \<longleftrightarrow> event_list_queue_end c = None"

definition events_list_pop ::
    "('m, 'z) event_list_scheme \<Rightarrow> ('m option \<times> ('m, 'z) event_list_scheme) cres" where
  "events_list_pop c =
     (if event_list_is_empty c then Inr (None, c)
      else
        bind_res (deref (el_heap c) (event_list_queue_end c)) (\<lambda>last.
        let e = the (event_list_queue_end c); first = en_next last in
        bind_res
          (if first = e then Inr (c\<lparr> event_list_queue_end := None \<rparr>)
           else bind_res (deref (el_heap c) (Some first)) (\<lambda>f.
             Inr (c\<lparr> el_heap := (el_heap c)(e \<mapsto> last\<lparr> en_next := en_next f \<rparr>) \<rparr>))) (\<lambda>c.
        bind_res (deref (el_heap c) (Some first)) (\<lambda>f.
          Inr (Some (en_message f),
               c\<lparr> el_heap := (el_heap c)(first := None),
                  pending_event_count := pending_event_count c - 1 \<rparr>)))))"


section \<open>The list represents a queue\<close>

text \<open>\<open>linked h as z\<close>: the nodes \<open>as\<close> point each to the next, the last one to \<open>z\<close>.\<close>

fun linked :: "(addr \<rightharpoonup> 'm event_info_node) \<Rightarrow> addr list \<Rightarrow> addr \<Rightarrow> bool" where
  "linked h [] z = True"
| "linked h (a # as) z =
     ((case h a of None \<Rightarrow> False
       | Some n \<Rightarrow> en_next n = (case as of [] \<Rightarrow> z | b # _ \<Rightarrow> b)) \<and> linked h as z)"

lemma linked_append_iff:
  "linked h (as @ bs) z \<longleftrightarrow>
     linked h as (case bs of [] \<Rightarrow> z | b # _ \<Rightarrow> b) \<and> linked h bs z"
proof (induction as)
  case (Cons a as)
  then show ?case by (cases as; cases bs) (auto split: option.splits)
qed simp

lemma linked_cong:
  "(\<And>a. a \<in> set as \<Longrightarrow> h a = h' a) \<Longrightarrow> linked h as z = linked h' as z"
  by (induction as) auto

definition event_list_rep :: "('m, 'z) event_list_scheme \<Rightarrow> 'm list \<Rightarrow> bool" where
  "event_list_rep c ms \<longleftrightarrow>
     (\<exists>as. distinct as \<and> set as = dom (el_heap c) \<and>
        linked (el_heap c) as (case as of [] \<Rightarrow> 0 | a # _ \<Rightarrow> a) \<and>
        ms = map (\<lambda>a. en_message (the (el_heap c a))) as \<and>
        event_list_queue_end c = (if as = [] then None else Some (last as)) \<and>
        (\<forall>a \<in> set as. a < el_fresh c) \<and>
        pending_event_count c = of_nat (length as))"

lemma event_list_repI:
  assumes "distinct as" and "set as = dom (el_heap c)"
    and "linked (el_heap c) as (case as of [] \<Rightarrow> 0 | a # _ \<Rightarrow> a)"
    and "map (\<lambda>a. en_message (the (el_heap c a))) as = ms"
    and "event_list_queue_end c = (if as = [] then None else Some (last as))"
    and "\<And>a. a \<in> set as \<Longrightarrow> a < el_fresh c"
    and "pending_event_count c = of_nat (length as)"
  shows "event_list_rep c ms"
  using assms unfolding event_list_rep_def by blast

definition event_list_new :: "'m event_list" where
  "event_list_new = \<lparr> el_heap = Map.empty, el_fresh = 0, event_list_queue_end = None,
                      pending_event_count = 0 \<rparr>"

lemma event_list_new_rep [simp]: "event_list_rep event_list_new []"
  by (auto simp: event_list_rep_def event_list_new_def intro!: exI [of _ "[]"])

lemma event_list_rep_empty_iff: "event_list_rep c ms \<Longrightarrow> event_list_is_empty c \<longleftrightarrow> ms = []"
  by (auto simp: event_list_rep_def event_list_is_empty_def)

lemma events_list_push_rep:
  assumes "event_list_rep c ms"
  shows "\<exists>c'. events_list_push c m = Inr c' \<and> event_list_rep c' (ms @ [m])"
proof -
  obtain as where d: "distinct as" and s: "set as = dom (el_heap c)"
    and l: "linked (el_heap c) as (case as of [] \<Rightarrow> 0 | a # _ \<Rightarrow> a)"
    and ms: "ms = map (\<lambda>a. en_message (the (el_heap c a))) as"
    and e: "event_list_queue_end c = (if as = [] then None else Some (last as))"
    and f: "\<forall>a \<in> set as. a < el_fresh c" and cnt: "pending_event_count c = of_nat (length as)"
    using assms unfolding event_list_rep_def by blast
  let ?n = "el_fresh c"
  have new: "?n \<notin> set as" using f by auto
  show ?thesis
  proof (cases as rule: rev_cases)
    case Nil
    then show ?thesis
      using s ms e cnt
      by (auto simp: events_list_push_def Let_def event_list_rep_def intro!: exI [of _ "[?n]"])
  next
    case (snoc bs z)
    obtain nz where nz: "el_heap c z = Some nz" using s snoc by auto
    let ?h = "(el_heap c)(?n \<mapsto> \<lparr> en_next = en_next nz, en_message = m \<rparr>, z \<mapsto> nz\<lparr> en_next := ?n \<rparr>)"
    let ?c = "c\<lparr> el_heap := ?h, el_fresh := ?n + 1, event_list_queue_end := Some ?n,
                pending_event_count := pending_event_count c + 1 \<rparr>"
    have p: "events_list_push c m = Inr ?c"
      using e snoc nz by (simp add: events_list_push_def Let_def)
    let ?hd = "hd as"
    have "(case as of [] \<Rightarrow> 0 | a # _ \<Rightarrow> a) = ?hd" unfolding snoc by (cases bs) simp_all
    then have "linked (el_heap c) (bs @ [z]) ?hd" using l snoc by simp
    then have lb: "linked (el_heap c) bs z" and nxt: "en_next nz = ?hd"
      using nz by (simp_all add: linked_append_iff)
    have zn: "z \<noteq> ?n" "z \<notin> set bs" "?n \<notin> set bs" using new d snoc by auto
    have "linked ?h bs z = linked (el_heap c) bs z" by (rule linked_cong) (use zn in auto)
    then have "linked ?h (bs @ [z, ?n]) ?hd"
      using lb zn nxt by (simp add: linked_append_iff)
    then have lk: "linked ?h (as @ [?n]) (case as @ [?n] of [] \<Rightarrow> 0 | a # _ \<Rightarrow> a)"
      using snoc by (cases bs) simp_all
    have mm: "map (\<lambda>a. en_message (the (?h a))) (as @ [?n]) = ms @ [m]"
      using zn new nz snoc unfolding ms by auto
    have "event_list_rep ?c (ms @ [m])"
    proof (rule event_list_repI [of "as @ [?n]"])
      show "distinct (as @ [?n])" using d new by simp
      show "set (as @ [?n]) = dom (el_heap ?c)" using s nz by auto
      show "linked (el_heap ?c) (as @ [?n]) (case as @ [?n] of [] \<Rightarrow> 0 | a # _ \<Rightarrow> a)"
        using lk by simp
      show "map (\<lambda>a. en_message (the (el_heap ?c a))) (as @ [?n]) = ms @ [m]" using mm by simp
      show "a < el_fresh ?c" if "a \<in> set (as @ [?n])" for a using that f by (auto intro: less_SucI)
    qed (simp_all add: cnt)
    with p show ?thesis by blast
  qed
qed

lemma events_list_pop_empty: "event_list_rep c [] \<Longrightarrow> events_list_pop c = Inr (None, c)"
  by (simp add: events_list_pop_def event_list_rep_empty_iff)

lemma events_list_pop_rep:
  assumes "event_list_rep c (m # ms)"
  shows "\<exists>c'. events_list_pop c = Inr (Some m, c') \<and> event_list_rep c' ms"
proof -
  obtain as where d: "distinct as" and s: "set as = dom (el_heap c)"
    and l: "linked (el_heap c) as (case as of [] \<Rightarrow> 0 | a # _ \<Rightarrow> a)"
    and ms: "m # ms = map (\<lambda>a. en_message (the (el_heap c a))) as"
    and e: "event_list_queue_end c = (if as = [] then None else Some (last as))"
    and f: "\<forall>a \<in> set as. a < el_fresh c" and cnt: "pending_event_count c = of_nat (length as)"
    using assms unfolding event_list_rep_def by (elim exE conjE) (rule that)
  obtain a bs where as: "as = a # bs" using ms by (cases as) auto
  obtain na where na: "el_heap c a = Some na" using s as by auto
  obtain nz where nz: "el_heap c (last as) = Some nz"
  proof -
    have "last as \<in> set as" using as by simp
    then show ?thesis using s that by auto
  qed
  have m: "m = en_message na" using ms as na by simp
  show ?thesis
  proof (cases bs rule: rev_cases)
    case Nil
    let ?c = "c\<lparr> event_list_queue_end := None, el_heap := (el_heap c)(a := None),
                 pending_event_count := pending_event_count c - 1 \<rparr>"
    have "events_list_pop c = Inr (Some m, ?c)"
      using e as Nil na l m
      by (simp add: events_list_pop_def event_list_is_empty_def Let_def)
    moreover have "event_list_rep ?c ms"
      using ms as Nil s cnt by (auto simp: event_list_rep_def intro!: exI [of _ "[]"])
    ultimately show ?thesis by blast
  next
    case (snoc cs z)
    let ?h = "(el_heap c)(z \<mapsto> nz\<lparr> en_next := en_next na \<rparr>, a := None)"
    let ?c = "c\<lparr> el_heap := ?h, pending_event_count := pending_event_count c - 1 \<rparr>"
    have z: "last as = z" "z \<noteq> a" using as snoc d by auto
    have nxt: "en_next nz = a" "en_next na = hd bs"
      using l as snoc nz na z by (cases cs; auto simp: linked_append_iff)+
    have p: "events_list_pop c = Inr (Some m, ?c)"
      using e as z nz na nxt m
      by (simp add: events_list_pop_def event_list_is_empty_def Let_def)
    have lc: "linked (el_heap c) cs z"
      using l as snoc by (auto simp: linked_append_iff)
    have "linked ?h cs z = linked (el_heap c) cs z"
      by (rule linked_cong) (use d as snoc in auto)
    then have "linked ?h (cs @ [z]) (hd bs)"
      using lc nxt z by (simp add: linked_append_iff)
    moreover have "(case bs of [] \<Rightarrow> 0 | a # _ \<Rightarrow> a) = hd bs" unfolding snoc by (cases cs) simp_all
    ultimately have lk: "linked ?h bs (case bs of [] \<Rightarrow> 0 | a # _ \<Rightarrow> a)"
      using snoc by simp
    have "map (\<lambda>a. en_message (the (?h a))) bs = ms"
      using ms as snoc d nz z by auto
    then have mm: "map (\<lambda>a. en_message (the (el_heap ?c a))) bs = ms" by simp
    have "event_list_rep ?c ms"
    proof (rule event_list_repI [OF _ _ _ mm])
      show "distinct bs" using d as by simp
      show "set bs = dom (el_heap ?c)" using s as snoc d by auto
      show "linked (el_heap ?c) bs (case bs of [] \<Rightarrow> 0 | a # _ \<Rightarrow> a)" using lk by simp
      show "event_list_queue_end ?c = (if bs = [] then None else Some (last bs))"
        using e as snoc by simp
      show "a < el_fresh ?c" if "a \<in> set bs" for a using that f as by simp
      show "pending_event_count ?c = of_nat (length bs)" using cnt as by simp
    qed
    with p show ?thesis by blast
  qed
qed

interpretation el: fifo events_list_push events_list_pop event_list_rep
  by unfold_locales (fact events_list_push_rep events_list_pop_empty events_list_pop_rep)+


section \<open>Properties\<close>

text \<open>The operations of a schedule, on a queue and on a list, as definitions of the model.\<close>

fun events_list_run ::
    "('m, 'z) event_list_scheme \<Rightarrow> 'm option list \<Rightarrow> ('m option list \<times> ('m, 'z) event_list_scheme) cres"
where
  "events_list_run c [] = Inr ([], c)"
| "events_list_run c (Some m # os) = bind_res (events_list_push c m) (\<lambda>c. events_list_run c os)"
| "events_list_run c (None # os) =
     bind_res (events_list_pop c) (\<lambda>(r, c).
     bind_res (events_list_run c os) (\<lambda>(rs, c). Inr (r # rs, c)))"

lemma events_list_run_eq: "events_list_run c os = el.run c os"
  by (induction c os rule: events_list_run.induct) auto

lemma run_spec_pushes: "el.run_spec ms (map Some xs @ os) = el.run_spec (ms @ xs) os"
  by (induction xs arbitrary: ms) auto

lemma run_spec_pops:
  "el.run_spec ms (replicate n None) =
     (map Some (take n ms) @ replicate (n - length ms) None, drop n ms)"
proof (induction n arbitrary: ms)
  case (Suc n)
  then show ?case by (cases ms) auto
qed simp

text \<open>
  The event queue is first in, first out with no fault and no leak: after any events \<open>xs\<close> are
  received, \<open>n\<close> pops return them in order of arrival (and null once none is left), the pending
  count is the number of events left, and no freed node stays reachable.
\<close>

theorem events_list_fifo:
  "\<exists>c. events_list_run event_list_new (map Some xs @ replicate n None) =
         Inr (map Some (take n xs) @ replicate (n - length xs) None, c) \<and>
       event_list_rep c (drop n xs) \<and> pending_event_count c = of_nat (length xs - n) \<and>
       card (dom (el_heap c)) = length xs - n"
proof -
  let ?os = "map Some xs @ replicate n None"
  obtain c where c: "el.run event_list_new ?os =
      Inr (map Some (take n xs) @ replicate (n - length xs) None, c)" and r: "event_list_rep c (drop n xs)"
    using el.run_refines [OF event_list_new_rep, of ?os] by (auto simp: run_spec_pushes run_spec_pops)
  from r obtain as where "distinct as" "set as = dom (el_heap c)"
    and len: "drop n xs = map (\<lambda>a. en_message (the (el_heap c a))) as"
    and cnt: "pending_event_count c = of_nat (length as)"
    unfolding event_list_rep_def by (elim exE conjE) (rule that)
  then have "card (dom (el_heap c)) = length as" by (metis distinct_card)
  moreover have "length as = length xs - n" using arg_cong [OF len, of length] by simp
  ultimately show ?thesis using c r cnt by (auto simp: events_list_run_eq)
qed

text \<open>
  C24: for an arbitrary interleaving of receptions and pops, starting from any well-formed queue,
  the pointer implementation returns exactly what a list queue returns.
\<close>

theorem events_list_refines_list:
  assumes "event_list_rep c ms"
  shows "\<exists>c'. events_list_run c os = Inr (fst (el.run_spec ms os), c') \<and>
              event_list_rep c' (snd (el.run_spec ms os))"
  unfolding events_list_run_eq by (rule el.run_refines [OF assms])

theorem events_list_refines_list_witness:
  "\<exists>c'. events_list_run event_list_new [Some (1 :: nat), None, None, Some 2, Some 3, None] =
     Inr ([Some 1, None, Some 2], c') \<and> event_list_rep c' [3]"
  using events_list_refines_list [OF event_list_new_rep,
      of "[Some (1 :: nat), None, None, Some 2, Some 3, None]"]
  by simp

end
