(* ===== verification/ClientSocket.thy ===== *)
theory ClientSocket
  imports Pr1Message
begin

text \<open>
  The client's socket layer (\<^verbatim>\<open>socket_send\<close>, \<^verbatim>\<open>socket_receive\<close>, \<^verbatim>\<open>pr1_message_send\<close>,
  \<^verbatim>\<open>pr1_message_receive\<close> of \<^verbatim>\<open>client/c/tioclient.c\<close>).  The operating system is a script: one
  entry per turn of the receive loop with the seconds since the call started, what \<^verbatim>\<open>select\<close>
  returns and how many bytes are there for \<^verbatim>\<open>recv\<close> (none: the connection is closed or broken).
  A call that outlives its script is still blocked, which is the result \<open>None\<close>.  The results hold
  for every script, so for every fragmentation of the stream.
\<close>

abbreviation (input) "TIO_SUCCESS \<equiv> (0 :: int)"

definition TIO_FAILED :: "int \<Rightarrow> bool" where
  "TIO_FAILED x \<longleftrightarrow> x < 0"

record net_step =
  ns_elapsed :: int
  ns_select :: int
  ns_available :: nat

record net =
  nt_script :: "net_step list"
  nt_stream :: "byte list"
  nt_sent :: "byte list"


section \<open>Sending\<close>

text \<open>\<open>sent\<close> is what \<^verbatim>\<open>send\<close> returns: the number of bytes the system took, or a failure.\<close>

definition socket_send :: "net \<Rightarrow> byte list \<Rightarrow> u32 \<Rightarrow> int \<Rightarrow> int \<times> net" where
  "socket_send net buffer len sent =
     (if sent \<le> 0 then (TIO_ERROR_NETWORK, net)
      else (sent, net\<lparr> nt_sent := nt_sent net @ take (min (nat sent) (unat len)) buffer \<rparr>))"

definition pr1_message_send :: "net \<Rightarrow> pr1_message \<Rightarrow> u16 \<Rightarrow> int \<Rightarrow> (int \<times> net) cres" where
  "pr1_message_send net m debug_seq_num sent =
     bind_res (pr1_message_get_buffer m debug_seq_num) (\<lambda>(buffer, n, m).
       Inr (socket_send net buffer n sent))"


section \<open>Receiving\<close>

text \<open>
  The loop of \<^verbatim>\<open>socket_receive\<close>: \<open>received\<close> of \<open>len\<close> bytes are at offset \<open>p\<close> of the block \<open>b\<close>.
  \<^verbatim>\<open>time_left\<close> is computed in unsigned arithmetic and read as an \<^verbatim>\<open>int\<close>.
\<close>

fun socket_receive_loop ::
    "u32 option \<Rightarrow> int \<Rightarrow> int \<Rightarrow> block \<Rightarrow> nat \<Rightarrow> net_step list \<Rightarrow> byte list \<Rightarrow>
     (int \<times> block \<times> net_step list \<times> byte list) option cres" where
  "socket_receive_loop timeout len received b p [] stream =
     (if received < len then Inr None else Inr (Some (received, b, [], stream)))"
| "socket_receive_loop timeout len received b p (s # script) stream =
     (if received < len then
        bind_res
          (case timeout of
             None \<Rightarrow> Inr None
           | Some t \<Rightarrow>
               if sint (t - word_of_int (ns_elapsed s)) < 0 then Inr (Some TIO_ERROR_TIMEOUT)
               else if ns_select s = - 1 then Inr (Some TIO_ERROR_NETWORK)
               else if ns_select s = 0 then Inr (Some TIO_ERROR_TIMEOUT)
               else bind_res (guard_res (ns_select s = 1) AssertionFailed) (\<lambda>_. Inr None))
          (\<lambda>early. case early of
             Some e \<Rightarrow> Inr (Some (e, b, script, stream))
           | None \<Rightarrow>
               let n = min (ns_available s) (nat (len - received)); bs = take n stream in
               if bs = [] then Inr (Some (TIO_ERROR_NETWORK, b, script, stream))
               else bind_res (mem_write b (p + nat received) bs) (\<lambda>b.
                 socket_receive_loop timeout len (received + int (length bs)) b p script
                   (drop n stream)))
      else Inr (Some (received, b, s # script, stream)))"

definition socket_receive ::
    "net \<Rightarrow> block \<Rightarrow> nat \<Rightarrow> int \<Rightarrow> u32 option \<Rightarrow> (int \<times> block \<times> net) option cres" where
  "socket_receive net b p len timeout_in_seconds =
     bind_res (socket_receive_loop timeout_in_seconds len 0 b p (nt_script net) (nt_stream net))
       (\<lambda>r. Inr (case r of
          None \<Rightarrow> None
        | Some (ret, b, script, stream) \<Rightarrow>
            Some (ret, b, net\<lparr> nt_script := script, nt_stream := stream \<rparr>)))"

text \<open>
  The received message is null (\<open>None\<close>) on every failure.  The comparison
  \<^verbatim>\<open>(unsigned)result < message_size\<close> is unsigned; \<^verbatim>\<open>len\<close> is \<^verbatim>\<open>message_size\<close> read as an \<^verbatim>\<open>int\<close>.
\<close>

definition pr1_message_receive ::
    "net \<Rightarrow> u32 option \<Rightarrow> u32 option \<Rightarrow> (int \<times> pr1_message option \<times> net) option cres" where
  "pr1_message_receive net header_timeout payload_timeout =
     bind_res (socket_receive net (replicate sizeof_PR1_MESSAGE_HEADER 0) 0 8 header_timeout) (\<lambda>r.
     case r of
       None \<Rightarrow> Inr None
     | Some (result, header, net) \<Rightarrow>
         if TIO_FAILED result then Inr (Some (result, None, net))
         else if result < 8 then Inr (Some (TIO_ERROR_NETWORK, None, net))
         else
           bind_res (pr1_message_new_get_buffer_for_receive header) (\<lambda>(p, m).
           bind_res (header_message_size header) (\<lambda>message_size.
           bind_res (socket_receive net (pm_block m) p (sint message_size) payload_timeout) (\<lambda>r.
           case r of
             None \<Rightarrow> Inr None
           | Some (result, b, net) \<Rightarrow>
               if (word_of_int result :: u32) < message_size
               then Inr (Some (TIO_ERROR_NETWORK, None, net))
               else if TIO_FAILED result then Inr (Some (result, None, net))
               else
                 bind_res (guard_res (word_of_int result = message_size) AssertionFailed) (\<lambda>_.
                 bind_res (pr1_message_parse
                     (m\<lparr> pm_stream_buffer := (pm_stream_buffer m)\<lparr> sb_buffer := b \<rparr> \<rparr>)) (\<lambda>m.
                   Inr (Some (result, Some m, net))))))))"


section \<open>What the loop returns\<close>

text \<open>
  A call ends with all the bytes it was asked for, taken from the front of the stream and copied
  to the block, or with a network error or a timeout; a shorter reception is never reported.
\<close>

lemma socket_receive_loop_result:
  assumes "socket_receive_loop timeout len received b p script stream =
             Inr (Some (r, b', script', stream'))"
    and "0 \<le> received" and "received \<le> len"
  shows "r = TIO_ERROR_NETWORK \<or> r = TIO_ERROR_TIMEOUT \<or>
         (r = len \<and> (\<exists>data. stream = data @ stream' \<and> int (length data) = len - received \<and>
            (data = [] \<and> b' = b \<or> mem_write b (p + nat received) data = Inr b')))"
  using assms
proof (induction script arbitrary: received b stream)
  case Nil
  then show ?case by (auto split: if_splits)
next
  case (Cons s script)
  show ?case
  proof (cases "received < len")
    case False
    then show ?thesis using Cons.prems by auto
  next
    case True
    let ?n = "min (ns_available s) (nat (len - received))"
    let ?bs = "take ?n stream"
    let ?rcv = "received + int (length ?bs)"
    consider (err) "r = TIO_ERROR_NETWORK \<or> r = TIO_ERROR_TIMEOUT"
      | (go) b1 where "mem_write b (p + nat received) ?bs = Inr b1"
          "socket_receive_loop timeout len ?rcv b1 p script (drop ?n stream) =
             Inr (Some (r, b', script', stream'))"
      using Cons.prems(1) True
      by (auto simp: bind_res_Inr_iff Let_def split: option.splits if_splits)
    then show ?thesis
    proof cases
      case err
      then show ?thesis by blast
    next
      case go
      have le: "?rcv \<le> len" "0 \<le> ?rcv" using True Cons.prems(2) by auto
      have pos: "p + nat ?rcv = p + nat received + length ?bs"
        using Cons.prems(2) by (simp add: nat_add_distrib)
      from Cons.IH [OF go(2) le(2,1)] consider "r = TIO_ERROR_NETWORK \<or> r = TIO_ERROR_TIMEOUT"
        | (all) data where "r = len" "drop ?n stream = data @ stream'"
            "int (length data) = len - ?rcv"
            "data = [] \<and> b' = b1 \<or> mem_write b1 (p + nat ?rcv) data = Inr b'"
        by blast
      then show ?thesis
      proof cases
        case all
        have "mem_write b (p + nat received) (?bs @ data) = Inr b'"
          using all(4) go(1) mem_write_append [OF go(1)] unfolding pos by auto
        moreover have "stream = (?bs @ data) @ stream'"
          using all(2) by (metis append.assoc append_take_drop_id)
        moreover have "int (length (?bs @ data)) = len - received" using all(3) by simp
        ultimately show ?thesis using all(1) by blast
      qed blast
    qed
  qed
qed

text \<open>A turn of the loop that delivers something before the timeout.\<close>

definition step_delivers :: "u32 option \<Rightarrow> net_step \<Rightarrow> bool" where
  "step_delivers timeout s \<longleftrightarrow> 0 < ns_available s \<and>
     (case timeout of None \<Rightarrow> True
      | Some t \<Rightarrow> 0 \<le> sint (t - word_of_int (ns_elapsed s)) \<and> ns_select s = 1)"

lemma socket_receive_loop_delivers:
  assumes "list_all (step_delivers timeout) script" and "nat (len - received) \<le> length script"
    and "nat (len - received) \<le> length stream" and "p + nat len \<le> length b"
    and "0 \<le> received" and "received \<le> len"
  shows "\<exists>b' k. socket_receive_loop timeout len received b p script stream =
           Inr (Some (len, b', drop k script, drop (nat (len - received)) stream)) \<and>
           mem_write b (p + nat received) (take (nat (len - received)) stream) = Inr b' \<and>
           k \<le> nat (len - received)"
  using assms
proof (induction script arbitrary: received b stream)
  case Nil
  then show ?case by (simp add: mem_write_def)
next
  case (Cons s script)
  show ?case
  proof (cases "received < len")
    case False
    then show ?thesis using Cons.prems by (auto simp: mem_write_def intro!: exI [of _ 0])
  next
    case True
    let ?w = "nat (len - received)"
    let ?n = "min (ns_available s) ?w"
    let ?bs = "take ?n stream"
    let ?rcv = "received + int (length ?bs)"
    have av: "0 < ns_available s" using Cons.prems(1) by (simp add: step_delivers_def)
    have lb: "length ?bs = ?n" using Cons.prems(3) by simp
    have n0: "0 < ?n" using av True by simp
    have bs: "?bs \<noteq> []" using lb n0 by auto
    have w': "nat (len - ?rcv) = ?w - ?n" unfolding lb using True by linarith
    have "p + nat received + length ?bs \<le> length b"
      unfolding lb using Cons.prems(4,5) True by linarith
    then obtain b1 where b1: "mem_write b (p + nat received) ?bs = Inr b1"
      by (simp add: mem_write_def)
    have "\<exists>b' k. socket_receive_loop timeout len ?rcv b1 p script (drop ?n stream) =
           Inr (Some (len, b', drop k script, drop (nat (len - ?rcv)) (drop ?n stream))) \<and>
           mem_write b1 (p + nat ?rcv) (take (nat (len - ?rcv)) (drop ?n stream)) = Inr b' \<and>
           k \<le> nat (len - ?rcv)"
    proof (rule Cons.IH)
      show "p + nat len \<le> length b1" using Cons.prems(4) mem_write_length [OF b1] by simp
      show "list_all (step_delivers timeout) script" using Cons.prems(1) by simp
      show "nat (len - ?rcv) \<le> length script" unfolding w' using Cons.prems(2) n0 by (simp only: list.size)
      show "nat (len - ?rcv) \<le> length (drop ?n stream)" unfolding w' using Cons.prems(3) by simp
      show "?rcv \<le> len" unfolding lb using True by linarith
      show "0 \<le> ?rcv" using Cons.prems(5) by simp
    qed
    then obtain b' k where loop: "socket_receive_loop timeout len ?rcv b1 p script (drop ?n stream) =
           Inr (Some (len, b', drop k script, drop (?w - ?n) (drop ?n stream)))"
      and w2: "mem_write b1 (p + nat ?rcv) (take (?w - ?n) (drop ?n stream)) = Inr b'"
      and k: "k \<le> ?w - ?n"
      unfolding w' by blast
    have pos: "p + nat ?rcv = p + nat received + length ?bs"
      using Cons.prems(5) by (simp add: nat_add_distrib)
    have tk: "?bs @ take (?w - ?n) (drop ?n stream) = take ?w stream"
      by (metis take_add le_add_diff_inverse min.cobounded2)
    have dr: "drop (?w - ?n) (drop ?n stream) = drop ?w stream" by simp
    have "mem_write b (p + nat received) (take ?w stream) = Inr b'"
      using mem_write_append [OF b1 w2 [unfolded pos]] unfolding tk .
    moreover have "socket_receive_loop timeout len received b p (s # script) stream =
        Inr (Some (len, b', drop (Suc k) (s # script), drop ?w stream))"
      using Cons.prems(1) True bs b1 loop unfolding dr
      by (auto simp: Let_def step_delivers_def split: option.splits)
    ultimately show ?thesis using k n0 by (intro exI [of _ b'] exI [of _ "Suc k"]) auto
  qed
qed

lemma socket_receive_delivers:
  assumes "list_all (step_delivers timeout) (nt_script net)" and "nat len \<le> length (nt_script net)"
    and "nt_stream net = data @ rest" and "int (length data) = len" and "p + nat len \<le> length b"
  shows "\<exists>b' k. socket_receive net b p len timeout =
           Inr (Some (len, b', net\<lparr> nt_script := drop k (nt_script net), nt_stream := rest \<rparr>)) \<and>
           mem_write b p data = Inr b' \<and> k \<le> length data"
proof -
  have n: "nat (len - 0) = length data" using assms(4) by auto
  from socket_receive_loop_delivers [OF assms(1), of len 0 "nt_stream net" p b]
  obtain b' k where "socket_receive_loop timeout len 0 b p (nt_script net) (nt_stream net) =
        Inr (Some (len, b', drop k (nt_script net), rest))"
    and "mem_write b p data = Inr b'" and "k \<le> length data"
    using assms(2-5) unfolding n by auto
  then show ?thesis by (auto simp: socket_receive_def)
qed

text \<open>
  A receiver whose every \<^verbatim>\<open>recv\<close> delivers something in time gets the message at the front of the
  stream, and uses at most one entry of the script per byte.
\<close>

lemma pr1_message_receive_delivers:
  assumes "list_all pr1_field_ok fs" and "length fs < 2 ^ 16"
    and "length (encode_fields fs) < 2 ^ 31 - 4096"
    and "nt_stream net = message_header_bytes (of_nat (length (encode_fields fs)))
           (of_nat (length fs)) q @ encode_fields fs @ rest"
    and "list_all (\<lambda>s. step_delivers ht s \<and> step_delivers pt s) (nt_script net)"
    and "8 + length (encode_fields fs) \<le> length (nt_script net)"
  shows "\<exists>m k. pr1_message_receive net ht pt =
           Inr (Some (int (length (encode_fields fs)), Some m,
             net\<lparr> nt_script := drop k (nt_script net), nt_stream := rest \<rparr>)) \<and>
           pr1_message_fields m = Inr fs \<and> pm_finds m fs \<and> k \<le> 8 + length (encode_fields fs)"
proof -
  let ?E = "encode_fields fs"
  let ?n = "of_nat (length ?E) :: u32"
  let ?H = "message_header_bytes ?n (of_nat (length fs)) q"
  have u: "unat ?n = length ?E" using assms(3) by (intro unat_of_nat_u32) simp
  have hd: "list_all (step_delivers ht) (nt_script net)"
    "list_all (step_delivers pt) (nt_script net)"
    using assms(5) by (auto simp: list_all_iff)
  obtain b1 k where r1: "socket_receive net (replicate 8 0) 0 8 ht =
        Inr (Some (8, b1, net\<lparr> nt_script := drop k (nt_script net), nt_stream := ?E @ rest \<rparr>))"
    and w1: "mem_write (replicate 8 0) 0 ?H = Inr b1" and k: "k \<le> 8"
    using socket_receive_delivers [OF hd(1), of 8 ?H "?E @ rest" 0 "replicate 8 0"] assms(4,6) by auto
  have b1: "b1 = ?H" using w1 by (simp add: mem_write_def)
  let ?net1 = "net\<lparr> nt_script := drop k (nt_script net), nt_stream := ?E @ rest \<rparr>"
  obtain m where m: "pr1_message_from_wire (?H @ ?E) = Inr m"
    and fs: "pr1_message_fields m = Inr fs" "pm_finds m fs"
    using pr1_message_from_wire_ok [OF assms(1-3), of q] by blast
  obtain p m0 b2 where g: "pr1_message_new_get_buffer_for_receive ?H = Inr (p, m0)"
    and w2: "mem_write (pm_block m0) p ?E = Inr b2"
    and parse: "pr1_message_parse
      (m0\<lparr> pm_stream_buffer := (pm_stream_buffer m0)\<lparr> sb_buffer := b2 \<rparr> \<rparr>) = Inr m"
    using m by (auto simp: pr1_message_from_wire_def bind_res_Inr_iff sb_poke_def)
  have "list_all (step_delivers pt) (nt_script ?net1)"
    using hd(2) by (auto simp: list_all_iff dest: in_set_dropD)
  moreover have "p + length ?E \<le> length (pm_block m0)"
    using w2 by (auto simp: mem_write_def split: if_splits)
  moreover have "nat (int (length ?E)) \<le> length (nt_script ?net1)" using assms(6) k by simp
  ultimately obtain b3 k' where r2: "socket_receive ?net1 (pm_block m0) p (int (length ?E)) pt =
      Inr (Some (int (length ?E), b3, ?net1\<lparr> nt_script := drop k' (nt_script ?net1), nt_stream := rest \<rparr>))"
    and "mem_write (pm_block m0) p ?E = Inr b3" and k': "k' \<le> length ?E"
    using socket_receive_delivers [of pt ?net1 "int (length ?E)" ?E rest p "pm_block m0"] by auto
  then have b3: "b3 = b2" using w2 by simp
  have si: "sint ?n = int (length ?E)"
    using sint_u32_small [of ?n] u assms(3) by simp
  have hs: "header_message_size ?H = Inr ?n" using message_header_reads(1) [of _ _ _ "[]"] by simp
  have "pr1_message_receive net ht pt = Inr (Some (int (length ?E), Some m,
      ?net1\<lparr> nt_script := drop k' (nt_script ?net1), nt_stream := rest \<rparr>))"
    unfolding pr1_message_receive_def r1 b1
    by (simp add: TIO_FAILED_def g hs si r2 b3 parse)
  then show ?thesis using fs k k' by (intro exI [of _ m] exI [of _ "k' + k"]) simp
qed


section \<open>Properties\<close>

text \<open>
  \<^verbatim>\<open>socket_receive\<close> never reports a partial reception, with or without a timeout: when it
  returns (and nothing faults), the result is a network error, a timeout, or exactly \<open>len\<close>, and
  then the first \<open>len\<close> bytes of the stream were consumed and copied to the buffer.
\<close>

theorem socket_receive_all_or_error:
  assumes "socket_receive net b p len timeout = Inr (Some (r, b', net'))" and "0 \<le> len"
  shows "r = TIO_ERROR_NETWORK \<or> r = TIO_ERROR_TIMEOUT \<or>
         (r = len \<and> (\<exists>data. nt_stream net = data @ nt_stream net' \<and> int (length data) = len \<and>
            (data = [] \<and> b' = b \<or> mem_write b p data = Inr b')))"
proof -
  obtain script' stream' where
    l: "socket_receive_loop timeout len 0 b p (nt_script net) (nt_stream net) =
          Inr (Some (r, b', script', stream'))" and "nt_stream net' = stream'"
    using assms(1) by (auto simp: socket_receive_def bind_res_Inr_iff split: option.splits)
  with socket_receive_loop_result [OF l] assms(2) show ?thesis by simp
qed

theorem socket_receive_all_or_error_witness:
  "\<exists>r b' net'. socket_receive \<lparr> nt_script = [\<lparr> ns_elapsed = 0, ns_select = 1, ns_available = 1 \<rparr>,
       \<lparr> ns_elapsed = 2, ns_select = 0, ns_available = 0 \<rparr>], nt_stream = [7, 8], nt_sent = [] \<rparr>
       [0, 0] 0 2 (Some 5) = Inr (Some (r, b', net')) \<and>
     (r = - 2 \<or> r = - 6 \<or> (r = 2 \<and> (\<exists>data. [7, 8] = data @ nt_stream net' \<and>
        int (length data) = 2 \<and> (data = [] \<and> b' = [0, 0] \<or> mem_write [0, 0] 0 data = Inr b'))))"
proof -
  let ?net = "\<lparr> nt_script = [\<lparr> ns_elapsed = 0, ns_select = 1, ns_available = 1 \<rparr>,
       \<lparr> ns_elapsed = 2, ns_select = 0, ns_available = 0 \<rparr>], nt_stream = [7, 8], nt_sent = [] \<rparr>"
  have "socket_receive ?net [0, 0] 0 2 (Some 5) =
      Inr (Some (- 6, [7, 0], ?net\<lparr> nt_script := [], nt_stream := [8] \<rparr>))"
    by (simp add: socket_receive_def mem_write_def)
  from socket_receive_all_or_error [OF this] this show ?thesis by auto
qed

text \<open>
  A timeout of \<open>2 ^ 31\<close> seconds or more is read as a negative time left, so a call that has to
  receive anything gives up at once with a timeout, even when the data is there.
\<close>

theorem socket_receive_huge_timeout:
  assumes "2 ^ 31 \<le> unat t" and "0 < len" and "nt_script net = s # script" and "ns_elapsed s = 0"
  shows "\<exists>net'. socket_receive net b p len (Some t) = Inr (Some (TIO_ERROR_TIMEOUT, b, net'))"
proof -
  have "sint t < 0"
    by (rule sint_u32_big [OF assms(1)])
  then show ?thesis using assms(2-4) by (simp add: socket_receive_def)
qed



theorem socket_receive_huge_timeout_witness:
  "\<exists>net'. socket_receive \<lparr> nt_script = [\<lparr> ns_elapsed = 0, ns_select = 1, ns_available = 2 \<rparr>],
       nt_stream = [7, 8], nt_sent = [] \<rparr> [0, 0] 0 2 (Some 0x80000000) =
     Inr (Some (- 6, [0, 0], net'))"
  by (rule socket_receive_huge_timeout
      [where s = "\<lparr> ns_elapsed = 0, ns_select = 1, ns_available = 2 \<rparr>" and script = "[]"]) simp_all


end
