(* ===== verification/ClientConnection.thy ===== *)
theory ClientConnection
  imports ClientSocket ClientData EventQueue
begin

text \<open>
  The state of a client connection and its receiving side (\<^verbatim>\<open>struct TIO_CONNECTION\<close>,
  \<^verbatim>\<open>struct TIO_CONTAINER\<close>, \<^verbatim>\<open>pr1_message_receive_from_any_cluster\<close>, \<^verbatim>\<open>register_container\<close>,
  \<^verbatim>\<open>on_event_receive\<close>, \<^verbatim>\<open>on_group_new_container\<close>, \<^verbatim>\<open>tio_dispatch_pending_events\<close>,
  \<^verbatim>\<open>tio_receive_next_pending_event\<close>, \<^verbatim>\<open>tio_receive_until_not_event\<close> of \<^verbatim>\<open>client/c/tioclient.c\<close>).
  The connection is one to a server that is not part of a cluster: \<^verbatim>\<open>clusters_container\<close> and
  \<^verbatim>\<open>slaves_container\<close> are null and there are no \<^verbatim>\<open>clusters_connections\<close>.  \<^verbatim>\<open>last_error\<close> and
  \<^verbatim>\<open>thread_id\<close> are only written, never read, and left out.
  Containers live in a heap, the table \<^verbatim>\<open>containers\<close> holds pointers to them.  Callbacks are
  functions of the application: a callback is an identifier, and every call of one is recorded with
  its arguments in \<open>cn_calls\<close>; the callbacks do not call back into the library.  An operation
  that is still blocked on the network when the script ends has the result \<open>Inr None\<close>.
\<close>


type_synonym callback = nat
type_synonym cookie = nat

record tio_container =
  tc_handle :: u32
  tc_event_callback :: "callback option"
  tc_wait_and_pop_next_callback :: "callback option"
  tc_subscription_cookie :: cookie
  tc_group_name :: "byte list option"
  tc_name :: "byte list"
  tc_wait_and_pop_next_cookie :: cookie

record callback_call =
  cc_callback :: callback
  cc_container :: addr
  cc_cookie :: cookie
  cc_code :: u32
  cc_group_name :: "byte list option"
  cc_container_name :: "byte list"
  cc_key :: tiodata
  cc_value :: tiodata
  cc_metadata :: tiodata

text \<open>
  \<open>cn_containers\<close> is the table of \<^verbatim>\<open>containers_buffer_size\<close> pointers, \<open>cn_send_results\<close> what the
  following calls of \<^verbatim>\<open>send\<close> return.  The buffer of the last error is a global of the library.
\<close>

record tio_connection = "pr1_message event_list" +
  cn_net :: net
  cn_send_results :: "int list"
  max_pending_event_count :: u32
  total_messages_received :: u32
  cn_containers_heap :: "addr \<rightharpoonup> tio_container"
  cn_containers_fresh :: addr
  cn_containers :: "addr option list"
  open_containers_count :: u32
  group_event_callback :: "callback option"
  group_event_cookie :: cookie
  wait_for_answer :: bool
  g_last_error_description :: block
  cn_calls :: "callback_call list"

text \<open>The connection as \<^verbatim>\<open>tio_connect\<close> fills it in after the protocol negotiation.\<close>

definition tio_connection_new :: "net \<Rightarrow> int list \<Rightarrow> block \<Rightarrow> tio_connection" where
  "tio_connection_new net sends err =
     \<lparr> el_heap = Map.empty, el_fresh = 0, event_list_queue_end = None, pending_event_count = 0,
       cn_net = net, cn_send_results = sends, max_pending_event_count = 0,
       total_messages_received = 0, cn_containers_heap = Map.empty, cn_containers_fresh = 0,
       cn_containers = replicate 64 None, open_containers_count = 0,
       group_event_callback = None, group_event_cookie = 0, wait_for_answer = True,
       g_last_error_description = err, cn_calls = [] \<rparr>"

definition bind_io ::
    "('a \<times> 's) option cres \<Rightarrow> ('a \<Rightarrow> 's \<Rightarrow> 'b option cres) \<Rightarrow> 'b option cres" where
  "bind_io m f = bind_res m (\<lambda>r. case r of None \<Rightarrow> Inr None | Some (x, s) \<Rightarrow> f x s)"

definition ret_io :: "'a \<Rightarrow> 's \<Rightarrow> ('a \<times> 's) option cres" where
  "ret_io x s = Inr (Some (x, s))"

lemma bind_io_simps [simp]:
  "bind_io (Inl e) f = Inl e"
  "bind_io (Inr None) f = Inr None"
  "bind_io (Inr (Some (x, s))) f = f x s"
  "bind_io (ret_io x s) f = f x s"
  by (simp_all add: bind_io_def ret_io_def)

lemma bind_io_Some_iff:
  "bind_io m f = Inr (Some r) \<longleftrightarrow> (\<exists>x s. m = Inr (Some (x, s)) \<and> f x s = Inr (Some r))"
  by (auto simp: bind_io_def bind_res_Inr_iff split: option.splits)

lemma bind_io_cong [fundef_cong]:
  "m = m' \<Longrightarrow> (\<And>x s. m' = Inr (Some (x, s)) \<Longrightarrow> f x s = f' x s) \<Longrightarrow> bind_io m f = bind_io m' f'"
  by (auto simp: bind_io_def intro!: bind_res_cong split: option.splits)

declare bind_res_cong [fundef_cong]


section \<open>Strings and error texts\<close>

text \<open>The bytes of a C string, up to the terminating zero.\<close>

definition c_str :: "byte list \<Rightarrow> byte list" where
  "c_str s = takeWhile (\<lambda>c. c \<noteq> 0) s"

definition c_bytes :: "string \<Rightarrow> byte list" where
  "c_bytes s = map of_char s"

definition pr1_set_last_error_description :: "byte list \<Rightarrow> tio_connection \<Rightarrow> tio_connection" where
  "pr1_set_last_error_description description c =
     c\<lparr> g_last_error_description := take 254 (c_str description @ replicate 255 0) @ [0] \<rparr>"

definition pr1_message_get_error_code :: "pr1_message \<Rightarrow> tio_connection \<Rightarrow> (int \<times> tio_connection) cres" where
  "pr1_message_get_error_code msg c =
     bind_res (pr1_message_field_find_by_id msg (ucast MESSAGE_FIELD_ID_ERROR_CODE)) (\<lambda>error_code.
     case error_code of
       None \<Rightarrow> Inr (TIO_SUCCESS, c)
     | Some e \<Rightarrow>
         bind_res (pr1_message_field_find_by_id msg (ucast MESSAGE_FIELD_ID_ERROR_DESC)) (\<lambda>error_description.
         bind_res (case error_description of
                     Some p \<Rightarrow> pr1_message_field_get_string (pm_block msg) p (g_last_error_description c) 255
                   | None \<Rightarrow> mem_write (g_last_error_description c) 0 [0]) (\<lambda>g.
         bind_res (pr1_message_field_get_int (pm_block msg) e) (\<lambda>code.
           Inr (sint code, c\<lparr> g_last_error_description := g \<rparr>)))))"


section \<open>Receiving one message\<close>

text \<open>One entry of the script is the call of \<^verbatim>\<open>select\<close>; the connection's socket is the only one.\<close>

definition pr1_message_receive_from_any_cluster ::
    "u32 option \<Rightarrow> u32 option \<Rightarrow> tio_connection \<Rightarrow> ((int \<times> pr1_message option) \<times> tio_connection) option cres" where
  "pr1_message_receive_from_any_cluster header_timeout payload_timeout c =
     (case nt_script (cn_net c) of
        [] \<Rightarrow> Inr None
      | s # script \<Rightarrow>
          let c = c\<lparr> cn_net := (cn_net c)\<lparr> nt_script := script \<rparr> \<rparr> in
          if ns_select s = - 1
          then ret_io (TIO_ERROR_NETWORK, None) (pr1_set_last_error_description (c_bytes
            ''Error reading data from clusters. Server is down or there is a network problem.'') c)
          else if ns_select s = 0 then ret_io (TIO_ERROR_TIMEOUT, None) c
          else bind_res (pr1_message_receive (cn_net c) header_timeout payload_timeout) (\<lambda>r.
            case r of
              None \<Rightarrow> Inr None
            | Some (result, m, net) \<Rightarrow> ret_io (result, m) (c\<lparr> cn_net := net \<rparr>)))"

definition pr1_message_send_and_delete ::
    "pr1_message \<Rightarrow> u16 \<Rightarrow> tio_connection \<Rightarrow> (int \<times> tio_connection) option cres" where
  "pr1_message_send_and_delete m debug_seq_num c =
     (case cn_send_results c of
        [] \<Rightarrow> Inr None
      | sent # sends \<Rightarrow>
          bind_res (pr1_message_send (cn_net c) m debug_seq_num sent) (\<lambda>(result, net).
            ret_io result (c\<lparr> cn_net := net, cn_send_results := sends \<rparr>)))"

definition check_not_on_network_batch :: "tio_connection \<Rightarrow> unit cres" where
  "check_not_on_network_batch c = guard_res (wait_for_answer c) AssertionFailed"


section \<open>The table of containers\<close>

text \<open>Indexing \<^verbatim>\<open>connection->containers\<close>: outside the table is a fault.\<close>

definition containers_at :: "tio_connection \<Rightarrow> u32 \<Rightarrow> addr option cres" where
  "containers_at c handle =
     (if 0 \<le> sint handle \<and> nat (sint handle) < length (cn_containers c)
      then Inr (cn_containers c ! nat (sint handle)) else Inl BufferOverrun)"

definition containers_put :: "tio_connection \<Rightarrow> u32 \<Rightarrow> addr option \<Rightarrow> tio_connection cres" where
  "containers_put c handle p =
     (if 0 \<le> sint handle \<and> nat (sint handle) < length (cn_containers c)
      then Inr (c\<lparr> cn_containers := (cn_containers c)[nat (sint handle) := p] \<rparr>) else Inl BufferOverrun)"

text \<open>
  Growing the table to \<^verbatim>\<open>handle * 2\<close> entries, in 32-bit arithmetic; a product that is less than the
  old size makes the size of the \<^verbatim>\<open>memset\<close> that clears the new entries negative.
\<close>

definition grow_containers :: "tio_connection \<Rightarrow> u32 \<Rightarrow> tio_connection cres" where
  "grow_containers c handle =
     (if int (length (cn_containers c)) \<le> sint handle
      then let n = sint (handle * 2) in
           if n < int (length (cn_containers c)) then Inl BufferOverrun
           else Inr (c\<lparr> cn_containers := cn_containers c @
                          replicate (nat n - length (cn_containers c)) None \<rparr>)
      else Inr c)"

definition register_container ::
    "pr1_message \<Rightarrow> byte list \<Rightarrow> byte list option \<Rightarrow> tio_connection \<Rightarrow>
     ((int \<times> addr option) \<times> tio_connection) cres" where
  "register_container message name group_name c =
     bind_res (pr1_message_field_find_by_id message (ucast MESSAGE_FIELD_ID_HANDLE)) (\<lambda>handle_field.
     case handle_field of
       None \<Rightarrow> Inr ((TIO_ERROR_MISSING_PARAMETER, None), c)
     | Some p \<Rightarrow>
         bind_res (pr1_message_field_get_int (pm_block message) p) (\<lambda>handle.
         bind_res (strlen32 name) (\<lambda>_.
         bind_res (case group_name of None \<Rightarrow> Inr 0 | Some g \<Rightarrow> strlen32 g) (\<lambda>_.
         let a = cn_containers_fresh c;
             new_container =
               \<lparr> tc_handle = handle, tc_event_callback = None, tc_wait_and_pop_next_callback = None,
                 tc_subscription_cookie = 0, tc_group_name = map_option c_str group_name,
                 tc_name = c_str name, tc_wait_and_pop_next_cookie = 0 \<rparr>;
             c = c\<lparr> cn_containers_heap := (cn_containers_heap c)(a \<mapsto> new_container),
                    cn_containers_fresh := a + 1 \<rparr>
         in bind_res (grow_containers c handle) (\<lambda>c.
            bind_res (containers_put (c\<lparr> open_containers_count := open_containers_count c + 1 \<rparr>)
                        handle (Some a)) (\<lambda>c.
              Inr ((TIO_SUCCESS, Some a), c)))))))"

definition on_group_new_container :: "pr1_message \<Rightarrow> tio_connection \<Rightarrow> (int \<times> tio_connection) cres" where
  "on_group_new_container message c =
     bind_res (pr1_message_field_find_by_id message (ucast MESSAGE_FIELD_ID_CONTAINER_NAME)) (\<lambda>name_field.
     bind_res (pr1_message_field_find_by_id message (ucast MESSAGE_FIELD_ID_GROUP_NAME)) (\<lambda>group_name_field.
     case (name_field, group_name_field) of
       (Some n, Some g) \<Rightarrow>
         bind_res (pr1_message_field_get_string_malloc (pm_block message) n) (\<lambda>container_name.
         bind_res (pr1_message_field_get_string_malloc (pm_block message) g) (\<lambda>group_name.
         bind_res (register_container message container_name (Some group_name) c) (\<lambda>((ret, _), c).
           Inr (ret, c))))
     | _ \<Rightarrow> Inr (TIO_ERROR_MISSING_PARAMETER, c)))"


section \<open>Dispatching events\<close>

text \<open>\<^verbatim>\<open>field && field->data_type == TIO_DATA_TYPE_INT\<close>.\<close>

definition is_int_field :: "pr1_message \<Rightarrow> nat option \<Rightarrow> bool cres" where
  "is_int_field m field =
     (case field of
        None \<Rightarrow> Inr False
      | Some p \<Rightarrow> bind_res (data_type_at (pm_block m) p) (\<lambda>t. Inr (ucast t = TIO_DATA_TYPE_INT)))"

definition event_field :: "pr1_message \<Rightarrow> u16 \<Rightarrow> tiodata \<Rightarrow> tiodata cres" where
  "event_field m field_id d =
     bind_res (pr1_message_field_find_by_id m (ucast field_id)) (\<lambda>field.
       pr1_message_field_to_tio_data (pm_block m) field d)"

text \<open>
  The body of the loop of \<^verbatim>\<open>tio_dispatch_pending_events\<close> for one event: the container is looked up by
  the handle of the event, and the callback is the one of the pending \<^verbatim>\<open>wait_and_pop_next\<close>, of the
  subscription, or of the group the container belongs to.
\<close>

definition dispatch_event ::
    "pr1_message \<Rightarrow> tiodata \<times> tiodata \<times> tiodata \<Rightarrow> tio_connection \<Rightarrow>
     ((tiodata \<times> tiodata \<times> tiodata) \<times> tio_connection) cres" where
  "dispatch_event m = (\<lambda>(key, v, metadata) c.
     bind_res (pr1_message_field_find_by_id m (ucast MESSAGE_FIELD_ID_HANDLE)) (\<lambda>handle_field.
     bind_res (pr1_message_field_find_by_id m (ucast MESSAGE_FIELD_ID_EVENT_CODE)) (\<lambda>event_code_field.
     bind_res (is_int_field m handle_field) (\<lambda>h.
     bind_res (if h then is_int_field m event_code_field else Inr False) (\<lambda>ok.
     if \<not> ok then Inr ((key, v, metadata), c)
     else
       bind_res (pr1_message_field_get_int (pm_block m) (the handle_field)) (\<lambda>handle.
       bind_res (pr1_message_field_get_int (pm_block m) (the event_code_field)) (\<lambda>event_code.
       bind_res (event_field m MESSAGE_FIELD_ID_KEY key) (\<lambda>key.
       bind_res (event_field m MESSAGE_FIELD_ID_VALUE v) (\<lambda>v.
       bind_res (event_field m MESSAGE_FIELD_ID_METADATA metadata) (\<lambda>metadata.
       bind_res (containers_at c handle) (\<lambda>p.
       bind_res (deref (cn_containers_heap c) p) (\<lambda>container.
       let (event_callback, ck) =
             (if event_code = TIO_COMMAND_WAIT_AND_POP_NEXT
              then (tc_wait_and_pop_next_callback container, tc_wait_and_pop_next_cookie container)
              else if tc_group_name container = None
              then (tc_event_callback container, tc_subscription_cookie container)
              else (group_event_callback c, group_event_cookie c))
       in Inr ((key, v, metadata),
            case event_callback of
              None \<Rightarrow> c
            | Some f \<Rightarrow> c\<lparr> cn_calls := cn_calls c @
                [\<lparr> cc_callback = f, cc_container = the p, cc_cookie = ck, cc_code = event_code,
                   cc_group_name = tc_group_name container, cc_container_name = tc_name container,
                   cc_key = key, cc_value = v, cc_metadata = metadata \<rparr>] \<rparr>)))))))))))))"

function dispatch_events ::
    "u32 \<Rightarrow> u32 \<Rightarrow> tiodata \<times> tiodata \<times> tiodata \<Rightarrow> tio_connection \<Rightarrow> (u32 \<times> tio_connection) cres" where
  "dispatch_events a max_events d c =
     (if a < max_events then
        bind_res (events_list_pop c) (\<lambda>(event_message, c).
        case event_message of
          None \<Rightarrow> Inr (a, c)
        | Some m \<Rightarrow> bind_res (dispatch_event m d c) (\<lambda>(d, c). dispatch_events (a + 1) max_events d c))
      else Inr (a, c))"
  by pat_completeness auto
termination
proof (relation "measure (\<lambda>(a, max_events, d, c). unat max_events - unat a)", goal_cases)
  case 1
  then show ?case by simp
next
  case (2 a max_events)
  then have "unat a < unat max_events" by (simp add: word_less_nat_alt)
  moreover have "unat (a + 1) = unat a + 1"
    using calculation unat_u32_less [of max_events] by (simp add: unat_word_ariths)
  ultimately show ?case by simp
qed

declare dispatch_events.simps [simp del]

definition tio_dispatch_pending_events :: "u32 \<Rightarrow> tio_connection \<Rightarrow> (u32 \<times> tio_connection) cres" where
  "tio_dispatch_pending_events max_events c =
     dispatch_events 0 max_events (tiodata_init, tiodata_init, tiodata_init) c"

definition on_event_receive :: "pr1_message \<Rightarrow> tio_connection \<Rightarrow> tio_connection cres" where
  "on_event_receive event_message c =
     bind_res (events_list_push c event_message) (\<lambda>c.
     if sint (max_pending_event_count c) \<le> sint (pending_event_count c)
     then bind_res (tio_dispatch_pending_events 0xFFFFFFFF c) (\<lambda>(_, c). Inr c)
     else Inr c)"


section \<open>Results that keep a property\<close>

text \<open>\<open>res_all P m\<close>: if \<open>m\<close> ends with a value, the value satisfies \<open>P\<close>.\<close>

definition res_all :: "('a \<Rightarrow> bool) \<Rightarrow> 'e + 'a \<Rightarrow> bool" where
  "res_all P m \<longleftrightarrow> (\<forall>x. m = Inr x \<longrightarrow> P x)"

lemma res_all_simps [simp]: "res_all P (Inl e)" "res_all P (Inr x) \<longleftrightarrow> P x"
  by (simp_all add: res_all_def)

lemma res_allD: "res_all P m \<Longrightarrow> m = Inr x \<Longrightarrow> P x"
  by (simp add: res_all_def)

lemma res_all_bind: "res_all Q m \<Longrightarrow> (\<And>x. Q x \<Longrightarrow> res_all P (f x)) \<Longrightarrow> res_all P (bind_res m f)"
  by (auto simp: res_all_def bind_res_Inr_iff)

lemma res_all_bindI: "(\<And>x. res_all P (f x)) \<Longrightarrow> res_all P (bind_res m f)"
  by (auto simp: res_all_def bind_res_Inr_iff)


section \<open>What the handlers leave alone\<close>

text \<open>
  Pushing and popping an event changes the queue only; handling a message changes neither the
  network nor the mode of the connection.
\<close>

lemma events_list_push_frame:
  "events_list_push c m = Inr c' \<Longrightarrow>
   \<exists>h f e n. c' = c\<lparr> el_heap := h, el_fresh := f, event_list_queue_end := e, pending_event_count := n \<rparr>"
  by (auto simp: events_list_push_def Let_def bind_res_Inr_iff split: option.splits)

lemma events_list_pop_frame:
  "events_list_pop c = Inr (r, c') \<Longrightarrow>
   \<exists>h e n. c' = c\<lparr> el_heap := h, event_list_queue_end := e, pending_event_count := n \<rparr>"
  by (auto simp: events_list_pop_def Let_def bind_res_Inr_iff split: if_splits; metis event_list.surjective event_list.update_convs)

definition same_io :: "tio_connection \<Rightarrow> tio_connection \<Rightarrow> bool" where
  "same_io c c' \<longleftrightarrow> cn_net c' = cn_net c \<and> cn_send_results c' = cn_send_results c \<and>
     wait_for_answer c' = wait_for_answer c \<and> max_pending_event_count c' = max_pending_event_count c"

lemma same_io_refl [simp]: "same_io c c"
  by (simp add: same_io_def)

lemma same_io_trans: "same_io c c' \<Longrightarrow> same_io c' c'' \<Longrightarrow> same_io c c''"
  by (simp add: same_io_def)

lemma events_list_same_io:
  "events_list_push c m = Inr c' \<Longrightarrow> same_io c c'"
  "events_list_pop c = Inr (r, c') \<Longrightarrow> same_io c c'"
  by (auto simp: same_io_def dest!: events_list_push_frame events_list_pop_frame)

lemma dispatch_event_same_io: "res_all (\<lambda>r. same_io c (snd r)) (dispatch_event m d c)"
  unfolding dispatch_event_def
  by (cases d) (auto simp: Let_def same_io_def intro!: res_all_bindI split: option.split)

lemma dispatch_events_same_io: "res_all (\<lambda>r. same_io c (snd r)) (dispatch_events a n d c)"
proof (induction a n d c rule: dispatch_events.induct)
  case (1 a n d c)
  have rec: "res_all (\<lambda>r. same_io c (snd r)) (dispatch_events (a + 1) n d2 c2)"
    if "a < n" "events_list_pop c = Inr (Some m, c1)" "dispatch_event m d c1 = Inr (d2, c2)" for m c1 d2 c2
  proof -
    have "same_io c c2"
      using events_list_same_io(2) [OF that(2)] res_allD [OF dispatch_event_same_io that(3)]
      by (auto intro: same_io_trans)
    moreover obtain k v w where "d2 = (k, v, w)" by (cases d2)
    then have "res_all (\<lambda>r. same_io c2 (snd r)) (dispatch_events (a + 1) n d2 c2)"
      using "1.IH" [OF that(1,2) refl refl] that(3) by simp
    ultimately show ?thesis by (auto simp: res_all_def intro: same_io_trans)
  qed
  show ?case
    by (subst dispatch_events.simps)
      (auto simp: bind_res_def res_all_def [of _ "bind_res _ _"] split: sum.split option.split
        dest: events_list_same_io(2) rec)
qed

lemma on_event_receive_same_io: "on_event_receive m c = Inr c' \<Longrightarrow> same_io c c'"
  by (auto simp: on_event_receive_def tio_dispatch_pending_events_def bind_res_Inr_iff
      split: if_splits dest!: res_allD [OF dispatch_events_same_io] events_list_same_io
      intro: same_io_trans)

lemma grow_containers_same_io: "res_all (same_io c) (grow_containers c h)"
  by (auto simp: grow_containers_def Let_def same_io_def)

lemma containers_put_same_io: "res_all (same_io c) (containers_put c h p)"
  by (auto simp: containers_put_def same_io_def)

lemma register_container_same_io: "res_all (\<lambda>r. same_io c (snd r)) (register_container m n g c)"
  unfolding register_container_def Let_def
  by (auto intro!: res_all_bindI res_all_bind [OF grow_containers_same_io]
      res_all_bind [OF containers_put_same_io] simp: same_io_def split: option.split)

lemma on_group_new_container_same_io: "res_all (\<lambda>r. same_io c (snd r)) (on_group_new_container m c)"
  unfolding on_group_new_container_def
  by (auto intro!: res_all_bindI res_all_bind [OF register_container_same_io] split: option.split)

lemma pr1_message_get_error_code_same_io: "pr1_message_get_error_code m c = Inr (r, c') \<Longrightarrow> same_io c c'"
  by (auto simp: pr1_message_get_error_code_def bind_res_Inr_iff same_io_def split: option.splits)


section \<open>The script gets shorter\<close>

lemma socket_receive_loop_script:
  "socket_receive_loop t len n b p script stream = Inr (Some (r, b', script', stream')) \<Longrightarrow>
   length script' \<le> length script"
proof (induction script arbitrary: n b stream)
  case (Cons s script)
  let ?n = "min (ns_available s) (nat (len - n))"
  from Cons.prems consider "script' = script \<or> script' = s # script"
    | b1 where "socket_receive_loop t len (n + int (length (take ?n stream))) b1 p script (drop ?n stream) =
        Inr (Some (r, b', script', stream'))"
    by (auto simp: bind_res_Inr_iff Let_def split: if_splits option.splits)
  then show ?case
  proof cases
    case (2 b1)
    then show ?thesis using Cons.IH by fastforce
  qed auto
qed (auto split: if_splits)

lemma socket_receive_script:
  "res_all (\<lambda>x. \<forall>r b' net'. x = Some (r, b', net') \<longrightarrow> length (nt_script net') \<le> length (nt_script net))
     (socket_receive net b p len t)"
  by (auto simp: res_all_def socket_receive_def bind_res_Inr_iff dest!: socket_receive_loop_script
      split: option.splits)

lemma pr1_message_receive_script:
  "res_all (\<lambda>x. \<forall>r m net'. x = Some (r, m, net') \<longrightarrow> length (nt_script net') \<le> length (nt_script net))
     (pr1_message_receive net ht pt)"
  unfolding pr1_message_receive_def
proof (rule res_all_bind [OF socket_receive_script], goal_cases)
  case (1 x)
  then show ?case
    by (auto intro!: res_all_bind [OF socket_receive_script]
        res_all_bindI [where m = "pr1_message_new_get_buffer_for_receive _"]
        res_all_bindI [where m = "header_message_size _"] res_all_bindI [where m = "guard_res _ _"]
        res_all_bindI [where m = "pr1_message_parse _"] split: option.split intro: order_trans)
qed

abbreviation turns :: "tio_connection \<Rightarrow> nat" where
  "turns c \<equiv> length (nt_script (cn_net c))"

lemma receive_any_turns:
  "pr1_message_receive_from_any_cluster ht pt c = Inr (Some (r, c')) \<Longrightarrow> turns c' < turns c"
  by (auto simp: pr1_message_receive_from_any_cluster_def ret_io_def Let_def bind_res_Inr_iff
      pr1_set_last_error_description_def less_Suc_eq_le
      split: list.splits if_splits option.splits dest!: res_allD [OF pr1_message_receive_script])


section \<open>Receiving until something is to be returned\<close>

text \<open>
  The bodies of the two receiving functions share the count and the lookup of the command.
\<close>

definition received_command :: "pr1_message \<Rightarrow> tio_connection \<Rightarrow> (u32 option \<times> tio_connection) cres" where
  "received_command received_message c =
     (let c = c\<lparr> total_messages_received := total_messages_received c + 1 \<rparr> in
      bind_res (pr1_message_field_find_by_id received_message (ucast MESSAGE_FIELD_ID_COMMAND)) (\<lambda>command_field.
      case command_field of
        None \<Rightarrow> Inr (None, c)
      | Some p \<Rightarrow> bind_res (pr1_message_field_get_int (pm_block received_message) p) (\<lambda>command.
          Inr (Some command, c))))"

lemma received_command_same_io: "res_all (\<lambda>r. same_io c (snd r)) (received_command m c)"
  unfolding received_command_def Let_def
  by (auto intro!: res_all_bindI simp: same_io_def split: option.split)

text \<open>The number of events dispatched is at most one per message; an empty message is not counted.\<close>

definition tio_receive_next_pending_event :: "u32 option \<Rightarrow> tio_connection \<Rightarrow> (int \<times> tio_connection) option cres" where
  "tio_receive_next_pending_event timeout_in_seconds c =
     bind_res (check_not_on_network_batch c) (\<lambda>_.
     bind_io (pr1_message_receive_from_any_cluster timeout_in_seconds timeout_in_seconds c)
       (\<lambda>(result, received_message) c.
     if TIO_FAILED result then ret_io result c
     else if result = 0
     then bind_res (guard_res (timeout_in_seconds \<noteq> None) AssertionFailed) (\<lambda>_. ret_io 0 c)
     else case received_message of
       None \<Rightarrow> Inl NullDereference
     | Some m \<Rightarrow>
         bind_res (received_command m c) (\<lambda>(command, c).
         if command = None then ret_io TIO_ERROR_PROTOCOL c
         else if command = Some TIO_COMMAND_NEW_GROUP_CONTAINER
         then bind_res (on_group_new_container m c) (\<lambda>(_, c). ret_io 0 c)
         else if command \<noteq> Some TIO_COMMAND_EVENT then ret_io TIO_ERROR_PROTOCOL c
         else bind_res (on_event_receive m c) (\<lambda>c. ret_io 1 c))))"

function receive_until_not_event ::
    "tio_connection \<Rightarrow> ((int \<times> pr1_message option) \<times> tio_connection) option cres" where
  "receive_until_not_event c =
     bind_io (pr1_message_receive_from_any_cluster None None c) (\<lambda>r c. case r of (result, received_message) \<Rightarrow>
     if TIO_FAILED result then ret_io (result, None) c
     else case received_message of
       None \<Rightarrow> Inl NullDereference
     | Some m \<Rightarrow>
         bind_res (received_command m c) (\<lambda>(command, c).
         if command = None
         then ret_io (TIO_ERROR_PROTOCOL, None) (pr1_set_last_error_description
                (c_bytes ''Missing field MESSAGE_FIELD_ID_COMMAND on the received packet'') c)
         else if command = Some TIO_COMMAND_EVENT
         then bind_res (on_event_receive m c) (\<lambda>c. receive_until_not_event c)
         else if command = Some TIO_COMMAND_NEW_GROUP_CONTAINER
         then bind_res (on_group_new_container m c) (\<lambda>(_, c). receive_until_not_event c)
         else ret_io (result, Some m) c))"
  by pat_completeness auto
termination
  by (relation "measure turns")
    (auto simp: same_io_def dest!: receive_any_turns on_event_receive_same_io
      res_allD [OF received_command_same_io] res_allD [OF on_group_new_container_same_io])

declare receive_until_not_event.simps [simp del]

definition tio_receive_until_not_event ::
    "tio_connection \<Rightarrow> ((int \<times> pr1_message option) \<times> tio_connection) option cres" where
  "tio_receive_until_not_event c =
     bind_res (check_not_on_network_batch c) (\<lambda>_. receive_until_not_event c)"

text \<open>\<open>io_all P m\<close>: if \<open>m\<close> returns, its result and state satisfy \<open>P\<close>.\<close>

definition io_all :: "('a \<Rightarrow> 's \<Rightarrow> bool) \<Rightarrow> ('a \<times> 's) option cres \<Rightarrow> bool" where
  "io_all P m \<longleftrightarrow> (\<forall>x s. m = Inr (Some (x, s)) \<longrightarrow> P x s)"

lemma io_all_simps [simp]:
  "io_all P (Inl e)" "io_all P (Inr None)" "io_all P (Inr (Some (x, s))) \<longleftrightarrow> P x s"
  "io_all P (ret_io x s) \<longleftrightarrow> P x s"
  by (auto simp: io_all_def ret_io_def)

lemma io_allD: "io_all P m \<Longrightarrow> m = Inr (Some (x, s)) \<Longrightarrow> P x s"
  by (simp add: io_all_def)

lemma io_all_bind_io: "io_all Q m \<Longrightarrow> (\<And>x s. Q x s \<Longrightarrow> io_all P (f x s)) \<Longrightarrow> io_all P (bind_io m f)"
  by (auto simp: io_all_def bind_io_Some_iff)

lemma io_all_bind_res: "res_all Q m \<Longrightarrow> (\<And>x. Q x \<Longrightarrow> io_all P (f x)) \<Longrightarrow> io_all P (bind_res m f)"
  by (auto simp: io_all_def res_all_def bind_res_Inr_iff)

lemma io_all_mono: "io_all Q m \<Longrightarrow> (\<And>x s. Q x s \<Longrightarrow> P x s) \<Longrightarrow> io_all P m"
  by (simp add: io_all_def)

text \<open>Progress of the receiving functions: a turn of the script is used, the mode stays.\<close>

definition progress :: "tio_connection \<Rightarrow> tio_connection \<Rightarrow> bool" where
  "progress c c' \<longleftrightarrow> turns c' < turns c \<and> wait_for_answer c' = wait_for_answer c"

lemma progress_same_io: "progress c c1 \<Longrightarrow> same_io c1 c2 \<Longrightarrow> progress c c2"
  by (simp add: progress_def same_io_def)

lemma progress_trans: "progress c c1 \<Longrightarrow> progress c1 c2 \<Longrightarrow> progress c c2"
  by (simp add: progress_def)

lemma receive_any_progress: "io_all (\<lambda>_. progress c) (pr1_message_receive_from_any_cluster ht pt c)"
proof -
  have "wait_for_answer c' = wait_for_answer c"
    if "pr1_message_receive_from_any_cluster ht pt c = Inr (Some (r, c'))" for r c'
    using that by (auto simp: pr1_message_receive_from_any_cluster_def ret_io_def Let_def bind_res_Inr_iff
      pr1_set_last_error_description_def split: list.splits if_splits option.splits)
  then show ?thesis using receive_any_turns by (auto simp: io_all_def progress_def)
qed

lemma receive_until_progress: "io_all (\<lambda>_. progress c) (receive_until_not_event c)"
proof (induction c rule: receive_until_not_event.induct)
  case (1 c)
  have "progress c c'" if r: "receive_until_not_event c = Inr (Some (x, c'))" for x c'
  proof -
    obtain result m c1 where a: "pr1_message_receive_from_any_cluster None None c = Inr (Some ((result, m), c1))"
      using r by (subst (asm) receive_until_not_event.simps) (auto simp: bind_io_Some_iff)
    have p1: "progress c c1" using io_allD [OF receive_any_progress a] .
    consider "c' = c1"
      | y cmd c2 where "m = Some y" "received_command y c1 = Inr (cmd, c2)"
          "cn_net c' = cn_net c2 \<and> wait_for_answer c' = wait_for_answer c2"
      | y c2 c3 where "\<not> TIO_FAILED result" "m = Some y" "received_command y c1 = Inr (Some 2, c2)"
          "on_event_receive y c2 = Inr c3" "receive_until_not_event c3 = Inr (Some (x, c'))"
      | y c2 u c3 where "\<not> TIO_FAILED result" "m = Some y" "received_command y c1 = Inr (Some 4, c2)"
          "on_group_new_container y c2 = Inr (u, c3)" "receive_until_not_event c3 = Inr (Some (x, c'))"
      using r a by (subst (asm) receive_until_not_event.simps)
        (auto simp: bind_res_Inr_iff ret_io_def pr1_set_last_error_description_def
          split: if_splits option.splits)
    then show ?thesis
    proof cases
      case 1
      then show ?thesis using p1 by simp
    next
      case (2 y cmd c2)
      then show ?thesis
        using progress_same_io [OF p1] res_allD [OF received_command_same_io 2(2)]
        by (simp add: progress_def)
    next
      case (3 y c2 c3)
      have "progress c c3"
        using progress_same_io [OF p1] res_allD [OF received_command_same_io 3(3)]
          on_event_receive_same_io [OF 3(4)] by (auto intro: progress_same_io)
      moreover have "io_all (\<lambda>_. progress c3) (receive_until_not_event c3)" using 1(1) [OF a refl] 3(1-4) by auto
      ultimately show ?thesis using 3(5) by (blast dest: io_allD intro: progress_trans)
    next
      case (4 y c2 u c3)
      have "progress c c3"
        using progress_same_io [OF p1] res_allD [OF received_command_same_io 4(3)]
          res_allD [OF on_group_new_container_same_io 4(4)] by (auto intro: progress_same_io)
      moreover have "io_all (\<lambda>_. progress c3) (receive_until_not_event c3)" using 1(2) [OF a refl] 4(1-4) by auto
      ultimately show ?thesis using 4(5) by (blast dest: io_allD intro: progress_trans)
    qed
  qed
  then show ?case by (simp add: io_all_def)
qed

lemma receive_progress: "io_all (\<lambda>_. progress c) (tio_receive_until_not_event c)"
  unfolding tio_receive_until_not_event_def
  by (rule io_all_bind_res [where Q = "\<lambda>_. True"]) (simp_all add: res_all_def receive_until_progress)

end
