(* ===== verification/ClientRequests.thy ===== *)
theory ClientRequests
  imports ClientConnection
begin

text \<open>
  The requests of the client library (\<^verbatim>\<open>tio_create\<close>, \<^verbatim>\<open>tio_open\<close>, \<^verbatim>\<open>tio_close\<close>, \<^verbatim>\<open>tio_ping\<close>, the
  \<^verbatim>\<open>tio_container_*\<close> and \<^verbatim>\<open>tio_group_*\<close> functions, the network batch and \<^verbatim>\<open>tio_disconnect\<close> of
  \<^verbatim>\<open>client/c/tioclient.c\<close>) on the connection of \<open>ClientConnection\<close>.  A container argument is a
  pointer into the heap of containers; a pointer argument that may be null is an option.
\<close>


section \<open>Sending a command and waiting for the answer\<close>

definition tio_container_send_command ::
    "addr option \<Rightarrow> u32 \<Rightarrow> tiodata option \<Rightarrow> tiodata option \<Rightarrow> tiodata option \<Rightarrow> tio_connection \<Rightarrow>
     (int \<times> tio_connection) option cres" where
  "tio_container_send_command container command_id key v metadata c =
     bind_res (deref (cn_containers_heap c) container) (\<lambda>ct.
     bind_res (tio_generate_data_message command_id (tc_handle ct) key v metadata) (\<lambda>m.
       pr1_message_send_and_delete m 0 c))"

definition tio_container_send_command_and_get_response ::
    "addr option \<Rightarrow> u32 \<Rightarrow> tiodata option \<Rightarrow> tiodata option \<Rightarrow> tiodata option \<Rightarrow> tio_connection \<Rightarrow>
     ((int \<times> pr1_message option) \<times> tio_connection) option cres" where
  "tio_container_send_command_and_get_response container command_id key v metadata c =
     bind_io (tio_container_send_command container command_id key v metadata c) (\<lambda>result c.
       if TIO_FAILED result then ret_io (result, None) c else tio_receive_until_not_event c)"

text \<open>The error code of a response that is present.\<close>

definition response_error_code ::
    "pr1_message option \<Rightarrow> tio_connection \<Rightarrow> (int \<times> tio_connection) cres" where
  "response_error_code response c =
     (case response of None \<Rightarrow> Inl NullDereference | Some m \<Rightarrow> pr1_message_get_error_code m c)"

text \<open>An output pointer that is not null receives the field of the response.\<close>

definition output_field :: "pr1_message option \<Rightarrow> u16 \<Rightarrow> tiodata option \<Rightarrow> tiodata option cres" where
  "output_field response field_id d =
     (case d of
        None \<Rightarrow> Inr None
      | Some d \<Rightarrow> (case response of
            None \<Rightarrow> Inl NullDereference
          | Some m \<Rightarrow> bind_res (pr1_message_field_get_as_tio_data m (ucast field_id) d) (\<lambda>d. Inr (Some d))))"

definition tio_container_send_command_and_get_data_response ::
    "addr option \<Rightarrow> u32 \<Rightarrow> tiodata option \<Rightarrow> tiodata option \<Rightarrow> tiodata option \<Rightarrow> tiodata option \<Rightarrow>
     tio_connection \<Rightarrow> ((int \<times> tiodata option \<times> tiodata option \<times> tiodata option) \<times> tio_connection) option cres" where
  "tio_container_send_command_and_get_data_response container command_id input_key key v metadata c =
     (let key = map_option tiodata_set_as_none key; v = map_option tiodata_set_as_none v;
          metadata = map_option tiodata_set_as_none metadata
      in bind_io (tio_container_send_command container command_id input_key None None c) (\<lambda>result c.
         if TIO_FAILED result then ret_io (result, key, v, metadata) c
         else bind_io (tio_receive_until_not_event c) (\<lambda>(result, response) c.
         if TIO_FAILED result then ret_io (result, key, v, metadata) c
         else bind_res (response_error_code response c) (\<lambda>(result, c).
         if TIO_FAILED result then ret_io (result, key, v, metadata) c
         else bind_res (output_field response MESSAGE_FIELD_ID_KEY key) (\<lambda>key.
              bind_res (output_field response MESSAGE_FIELD_ID_VALUE v) (\<lambda>v.
              bind_res (output_field response MESSAGE_FIELD_ID_METADATA metadata) (\<lambda>metadata.
                ret_io (result, key, v, metadata) c)))))))"


section \<open>Receiving a raw message\<close>

text \<open>
  \<^verbatim>\<open>tio_receive_message\<close> copies the fields it knows, in the order of the message; the outputs keep their
  old values where the message has no such field.  The message is counted even when none was received.
\<close>

fun copy_fields ::
    "block \<Rightarrow> nat list \<Rightarrow> u32 \<times> tiodata \<times> tiodata \<times> tiodata \<Rightarrow> (u32 \<times> tiodata \<times> tiodata \<times> tiodata) cres" where
  "copy_fields b [] out = Inr out"
| "copy_fields b (f # fs) (command_id, key, v, metadata) =
     bind_res (field_id_at b f) (\<lambda>i.
     bind_res
       (if i = MESSAGE_FIELD_ID_COMMAND
        then bind_res (pr1_message_field_get_int b f) (\<lambda>x. Inr (x, key, v, metadata))
        else if i = MESSAGE_FIELD_ID_KEY
        then bind_res (pr1_message_field_to_tio_data b (Some f) key) (\<lambda>x. Inr (command_id, x, v, metadata))
        else if i = MESSAGE_FIELD_ID_VALUE
        then bind_res (pr1_message_field_to_tio_data b (Some f) v) (\<lambda>x. Inr (command_id, key, x, metadata))
        else if i = MESSAGE_FIELD_ID_METADATA
        then bind_res (pr1_message_field_to_tio_data b (Some f) metadata) (\<lambda>x. Inr (command_id, key, v, x))
        else Inr (command_id, key, v, metadata)) (\<lambda>out. copy_fields b fs out))"

definition tio_receive_message ::
    "u32 \<times> tiodata \<times> tiodata \<times> tiodata \<Rightarrow> tio_connection \<Rightarrow>
     ((int \<times> u32 \<times> tiodata \<times> tiodata \<times> tiodata) \<times> tio_connection) option cres" where
  "tio_receive_message out c =
     bind_res (check_not_on_network_batch c) (\<lambda>_.
     bind_io (pr1_message_receive_from_any_cluster None None c) (\<lambda>(result, received) c.
     let c = c\<lparr> total_messages_received := total_messages_received c + 1 \<rparr> in
     if TIO_FAILED result then ret_io (result, out) c
     else case received of
       None \<Rightarrow> Inl NullDereference
     | Some m \<Rightarrow>
         (case pm_field_array m of
            None \<Rightarrow> if pm_field_count m = 0 then ret_io (result, out) c else Inl NullDereference
          | Some fs \<Rightarrow>
              if length fs < unat (pm_field_count m) then Inl BufferOverrun
              else bind_res (copy_fields (pm_block m) (take (unat (pm_field_count m)) fs) out) (\<lambda>out.
                ret_io (result, out) c))))"


section \<open>Creating, opening and closing containers\<close>

definition tio_generate_create_or_open_msg :: "u32 \<Rightarrow> byte list \<Rightarrow> byte list option \<Rightarrow> pr1_message cres" where
  "tio_generate_create_or_open_msg command_id name type =
     bind_res pr1_message_new (\<lambda>m.
     bind_res (pr1_message_add_field_int m MESSAGE_FIELD_ID_COMMAND command_id) (\<lambda>m.
     bind_res (pr1_message_add_field_string m MESSAGE_FIELD_ID_NAME name) (\<lambda>m.
     case type of None \<Rightarrow> Inr m | Some t \<Rightarrow> pr1_message_add_field_string m MESSAGE_FIELD_ID_TYPE t)))"

text \<open>The answer is awaited even when the request could not be sent.\<close>

definition tio_create_or_open ::
    "u32 \<Rightarrow> byte list \<Rightarrow> byte list option \<Rightarrow> tio_connection \<Rightarrow>
     ((int \<times> addr option) \<times> tio_connection) option cres" where
  "tio_create_or_open command_id name type c =
     bind_res (tio_generate_create_or_open_msg command_id name type) (\<lambda>m.
     bind_io (pr1_message_send_and_delete m 0 c) (\<lambda>_ c.
     bind_io (tio_receive_until_not_event c) (\<lambda>(result, response) c.
     if TIO_FAILED result then ret_io (result, None) c
     else bind_res (response_error_code response c) (\<lambda>(result, c).
     if TIO_FAILED result then ret_io (result, None) c
     else bind_res (register_container (the response) name None c) (\<lambda>(r, c). ret_io r c)))))"

definition tio_create ::
    "byte list \<Rightarrow> byte list option \<Rightarrow> tio_connection \<Rightarrow> ((int \<times> addr option) \<times> tio_connection) option cres" where
  "tio_create name type c = tio_create_or_open TIO_COMMAND_CREATE name type c"

definition tio_open ::
    "byte list \<Rightarrow> byte list option \<Rightarrow> tio_connection \<Rightarrow> ((int \<times> addr option) \<times> tio_connection) option cres" where
  "tio_open name type c = tio_create_or_open TIO_COMMAND_OPEN name type c"

text \<open>
  The container is freed on every path; its entry of the table is cleared only when the server
  confirmed.
\<close>

definition free_container :: "addr \<Rightarrow> tio_connection \<Rightarrow> tio_connection" where
  "free_container a c = c\<lparr> cn_containers_heap := (cn_containers_heap c)(a := None) \<rparr>"

definition tio_close :: "addr option \<Rightarrow> tio_connection \<Rightarrow> (int \<times> tio_connection) option cres" where
  "tio_close container c =
     (case container of
        None \<Rightarrow> ret_io TIO_SUCCESS c
      | Some a \<Rightarrow>
          bind_res (deref (cn_containers_heap c) (Some a)) (\<lambda>ct.
          bind_res pr1_message_new (\<lambda>request.
          bind_res (pr1_message_add_field_int request MESSAGE_FIELD_ID_COMMAND TIO_COMMAND_CLOSE) (\<lambda>request.
          bind_res (pr1_message_add_field_int request MESSAGE_FIELD_ID_HANDLE (tc_handle ct)) (\<lambda>request.
          bind_io (pr1_message_send_and_delete request 0 c) (\<lambda>result c.
          if TIO_FAILED result then ret_io result (free_container a c)
          else bind_io (tio_receive_until_not_event c) (\<lambda>(result, response) c.
          if TIO_FAILED result then ret_io result (free_container a c)
          else bind_res (response_error_code response c) (\<lambda>(result, c).
          if TIO_FAILED result then ret_io result (free_container a c)
          else bind_res (containers_put c (tc_handle ct) None) (\<lambda>c.
            ret_io result (free_container a c))))))))))"


section \<open>Ping\<close>

definition tio_ping :: "byte list \<Rightarrow> tio_connection \<Rightarrow> (int \<times> tio_connection) option cres" where
  "tio_ping payload c =
     bind_res (strlen32 payload) (\<lambda>payload_len.
     bind_res pr1_message_new (\<lambda>m.
     bind_res (pr1_message_add_field_int m MESSAGE_FIELD_ID_COMMAND TIO_COMMAND_PING) (\<lambda>m.
     bind_res (pr1_message_add_field_string m MESSAGE_FIELD_ID_VALUE payload) (\<lambda>m.
     bind_io (pr1_message_send_and_delete m 0 c) (\<lambda>_ c.
     bind_io (tio_receive_until_not_event c) (\<lambda>(result, response) c.
     if TIO_FAILED result then ret_io result c
     else case response of
       None \<Rightarrow> Inl NullDereference
     | Some r \<Rightarrow>
         bind_res (pr1_message_field_find_by_id r (ucast MESSAGE_FIELD_ID_VALUE)) (\<lambda>value_field.
         case value_field of
           None \<Rightarrow> ret_io TIO_ERROR_PROTOCOL c
         | Some f \<Rightarrow>
             bind_res (data_size_at (pm_block r) f) (\<lambda>n.
             if payload_len \<noteq> n then ret_io TIO_ERROR_PROTOCOL c
             else bind_res (mem_read (pm_block r) (pr1_message_field_get_buffer f) (unat payload_len)) (\<lambda>bs.
               if bs \<noteq> take (unat payload_len) payload then ret_io TIO_ERROR_PROTOCOL c
               else ret_io result c)))))))))"


section \<open>Commands on a container\<close>

definition tio_container_input_command ::
    "addr option \<Rightarrow> u32 \<Rightarrow> tiodata option \<Rightarrow> tiodata option \<Rightarrow> tiodata option \<Rightarrow> tio_connection \<Rightarrow>
     (int \<times> tio_connection) option cres" where
  "tio_container_input_command container command_id key v metadata c =
     bind_res (deref (cn_containers_heap c) container) (\<lambda>_.
     if wait_for_answer c
     then bind_io (tio_container_send_command_and_get_response container command_id key v metadata c)
            (\<lambda>(result, response) c.
          if TIO_FAILED result then ret_io result c
          else bind_res (response_error_code response c) (\<lambda>(result, c).
            if TIO_FAILED result then ret_io result c else ret_io TIO_SUCCESS c))
     else bind_io (tio_container_send_command container command_id key v metadata c) (\<lambda>result c.
          if TIO_FAILED result then ret_io result c
          else ret_io result (c\<lparr> pending_event_count := pending_event_count c + 1 \<rparr>)))"

definition tio_container_propset ::
    "addr option \<Rightarrow> tiodata option \<Rightarrow> tiodata option \<Rightarrow> tio_connection \<Rightarrow>
     (int \<times> tio_connection) option cres" where
  "tio_container_propset container key v c =
     tio_container_input_command container TIO_COMMAND_PROPSET key v None c"

definition tio_container_push_back ::
    "addr option \<Rightarrow> tiodata option \<Rightarrow> tiodata option \<Rightarrow> tiodata option \<Rightarrow> tio_connection \<Rightarrow>
     (int \<times> tio_connection) option cres" where
  "tio_container_push_back container key v metadata c =
     tio_container_input_command container TIO_COMMAND_PUSH_BACK key v metadata c"

definition tio_container_push_front ::
    "addr option \<Rightarrow> tiodata option \<Rightarrow> tiodata option \<Rightarrow> tiodata option \<Rightarrow> tio_connection \<Rightarrow>
     (int \<times> tio_connection) option cres" where
  "tio_container_push_front container key v metadata c =
     tio_container_input_command container TIO_COMMAND_PUSH_FRONT key v metadata c"

definition tio_container_set ::
    "addr option \<Rightarrow> tiodata option \<Rightarrow> tiodata option \<Rightarrow> tiodata option \<Rightarrow> tio_connection \<Rightarrow>
     (int \<times> tio_connection) option cres" where
  "tio_container_set container key v metadata c =
     tio_container_input_command container TIO_COMMAND_SET key v metadata c"

definition tio_container_insert ::
    "addr option \<Rightarrow> tiodata option \<Rightarrow> tiodata option \<Rightarrow> tiodata option \<Rightarrow> tio_connection \<Rightarrow>
     (int \<times> tio_connection) option cres" where
  "tio_container_insert container key v metadata c =
     tio_container_input_command container TIO_COMMAND_INSERT key v metadata c"

definition tio_container_clear ::
    "addr option \<Rightarrow> tio_connection \<Rightarrow>
     (int \<times> tio_connection) option cres" where
  "tio_container_clear container c =
     tio_container_input_command container TIO_COMMAND_CLEAR None None None c"

definition tio_container_delete ::
    "addr option \<Rightarrow> tiodata option \<Rightarrow> tio_connection \<Rightarrow>
     (int \<times> tio_connection) option cres" where
  "tio_container_delete container key c =
     tio_container_input_command container TIO_COMMAND_DELETE key None None c"

definition tio_container_pop_back ::
    "addr option \<Rightarrow> tiodata option \<Rightarrow> tiodata option \<Rightarrow> tiodata option \<Rightarrow> tio_connection \<Rightarrow>
     ((int \<times> tiodata option \<times> tiodata option \<times> tiodata option) \<times> tio_connection) option cres" where
  "tio_container_pop_back container key v metadata c =
     tio_container_send_command_and_get_data_response container TIO_COMMAND_POP_BACK None key v metadata c"

definition tio_container_pop_front ::
    "addr option \<Rightarrow> tiodata option \<Rightarrow> tiodata option \<Rightarrow> tiodata option \<Rightarrow> tio_connection \<Rightarrow>
     ((int \<times> tiodata option \<times> tiodata option \<times> tiodata option) \<times> tio_connection) option cres" where
  "tio_container_pop_front container key v metadata c =
     tio_container_send_command_and_get_data_response container TIO_COMMAND_POP_FRONT None key v metadata c"

definition tio_container_get ::
    "addr option \<Rightarrow> tiodata option \<Rightarrow> tiodata option \<Rightarrow> tiodata option \<Rightarrow> tiodata option \<Rightarrow> tio_connection \<Rightarrow>
     ((int \<times> tiodata option \<times> tiodata option \<times> tiodata option) \<times> tio_connection) option cres" where
  "tio_container_get container search_key key v metadata c =
     tio_container_send_command_and_get_data_response container TIO_COMMAND_GET search_key key v metadata c"

definition tio_container_propget ::
    "addr option \<Rightarrow> tiodata option \<Rightarrow> tiodata option \<Rightarrow> tio_connection \<Rightarrow>
     ((int \<times> tiodata option \<times> tiodata option \<times> tiodata option) \<times> tio_connection) option cres" where
  "tio_container_propget container search_key v c =
     tio_container_send_command_and_get_data_response container TIO_COMMAND_PROPGET search_key None v None c"

definition tio_container_get_count :: "addr option \<Rightarrow> tio_connection \<Rightarrow> ((int \<times> u32 option) \<times> tio_connection) option cres" where
  "tio_container_get_count container c =
     bind_io (tio_container_send_command_and_get_data_response container TIO_COMMAND_COUNT None
                None (Some tiodata_init) None c) (\<lambda>(result, _, count_value, _) c.
     if TIO_FAILED result then ret_io (result, None) c
     else bind_res (guard_res (td_data_type (the count_value) = TIO_DATA_TYPE_INT) AssertionFailed) (\<lambda>_.
       ret_io (TIO_SUCCESS, Some (td_int (the count_value))) c))"


section \<open>Queries\<close>

text \<open>
  The loop over the items of a query; every turn uses up a part of the script, so it ends.  An item
  without a key ends the query.
\<close>

lemma tio_receive_until_turns: "tio_receive_until_not_event c = Inr (Some (r, c')) \<Longrightarrow> turns c' < turns c"
  by (drule io_allD [OF receive_progress]) (simp add: progress_def)

function query_items ::
    "addr \<Rightarrow> callback \<Rightarrow> cookie \<Rightarrow> u32 \<Rightarrow> tiodata \<times> tiodata \<times> tiodata \<Rightarrow> tio_connection \<Rightarrow>
     (int \<times> tio_connection) option cres" where
  "query_items container query_callback ck query_id d c =
     bind_io (tio_receive_until_not_event c) (\<lambda>r c. case r of (result, query_item) \<Rightarrow>
     if TIO_FAILED result then ret_io result c
     else case query_item of
       None \<Rightarrow> Inl NullDereference
     | Some m \<Rightarrow>
         bind_res (pr1_message_field_find_by_id m (ucast MESSAGE_FIELD_ID_COMMAND)) (\<lambda>command_field.
         bind_res (is_int_field m command_field) (\<lambda>ok.
         bind_res (if ok then pr1_message_field_get_int (pm_block m) (the command_field) else Inr 0) (\<lambda>command.
         if \<not> ok \<or> command \<noteq> TIO_COMMAND_QUERY_ITEM then ret_io TIO_ERROR_PROTOCOL c
         else case d of (key, v, metadata) \<Rightarrow>
           bind_res (pr1_message_field_get_as_tio_data m (ucast MESSAGE_FIELD_ID_KEY) (tiodata_set_as_none key)) (\<lambda>key.
           bind_res (pr1_message_field_get_as_tio_data m (ucast MESSAGE_FIELD_ID_VALUE) (tiodata_set_as_none v)) (\<lambda>v.
           bind_res (pr1_message_field_get_as_tio_data m (ucast MESSAGE_FIELD_ID_METADATA) (tiodata_set_as_none metadata)) (\<lambda>metadata.
           if td_data_type key = TIO_DATA_TYPE_NONE then ret_io result c
           else bind_res (deref (cn_containers_heap c) (Some container)) (\<lambda>ct.
             query_items container query_callback ck query_id (key, v, metadata)
               (c\<lparr> cn_calls := cn_calls c @
                  [\<lparr> cc_callback = query_callback, cc_container = container, cc_cookie = ck,
                     cc_code = query_id, cc_group_name = None, cc_container_name = tc_name ct,
                     cc_key = key, cc_value = v, cc_metadata = metadata \<rparr>] \<rparr>)))))))))"
  by pat_completeness auto
termination
  by (relation "measure (\<lambda>(_, _, _, _, _, c). turns c)") (auto dest: tio_receive_until_turns)

declare query_items.simps [simp del]

text \<open>
  \<open>junk\<close> is the uninitialised \<^verbatim>\<open>key\<close>, \<^verbatim>\<open>value\<close> and \<^verbatim>\<open>metadata\<close> on the stack.  On the error paths
  before they are initialised the clean-up frees their strings, which is a fault when one of them
  happens to have the type code of a string.
\<close>

definition free_junk :: "tiodata \<times> tiodata \<times> tiodata \<Rightarrow> unit cres" where
  "free_junk = (\<lambda>(key, v, metadata). guard_res (td_data_type key \<noteq> TIO_DATA_TYPE_STRING \<and>
     td_data_type v \<noteq> TIO_DATA_TYPE_STRING \<and> td_data_type metadata \<noteq> TIO_DATA_TYPE_STRING) DanglingPointer)"

definition tio_container_query ::
    "tiodata \<times> tiodata \<times> tiodata \<Rightarrow> addr \<Rightarrow> u32 \<Rightarrow> u32 \<Rightarrow> byte list option \<Rightarrow> callback \<Rightarrow> cookie \<Rightarrow>
     tio_connection \<Rightarrow> (int \<times> tio_connection) option cres" where
  "tio_container_query junk container start stop regex query_callback ck c =
     bind_res pr1_message_new (\<lambda>m.
     bind_res (pr1_message_add_field_int m MESSAGE_FIELD_ID_COMMAND TIO_COMMAND_QUERY) (\<lambda>m.
     bind_res (deref (cn_containers_heap c) (Some container)) (\<lambda>ct.
     bind_res (pr1_message_add_field_int m MESSAGE_FIELD_ID_HANDLE (tc_handle ct)) (\<lambda>m.
     bind_res (pr1_message_add_field_int m MESSAGE_FIELD_ID_START_RECORD start) (\<lambda>m.
     bind_res (pr1_message_add_field_int m MESSAGE_FIELD_ID_END stop) (\<lambda>m.
     bind_res (case regex of None \<Rightarrow> Inr m
               | Some r \<Rightarrow> pr1_message_add_field_string m MESSAGE_FIELD_ID_QUERY_EXPRESSION r) (\<lambda>m.
     bind_io (pr1_message_send_and_delete m 0 c) (\<lambda>result c.
     if TIO_FAILED result then bind_res (free_junk junk) (\<lambda>_. ret_io result c)
     else bind_io (tio_receive_until_not_event c) (\<lambda>(result, response) c.
     if TIO_FAILED result then bind_res (free_junk junk) (\<lambda>_. ret_io result c)
     else case response of
       None \<Rightarrow> Inl NullDereference
     | Some r \<Rightarrow>
         bind_res (pr1_message_field_find_by_id r (ucast MESSAGE_FIELD_ID_QUERY_ID)) (\<lambda>query_id_field.
         bind_res (is_int_field r query_id_field) (\<lambda>ok.
         if \<not> ok then bind_res (free_junk junk) (\<lambda>_. ret_io TIO_ERROR_PROTOCOL c)
         else bind_res (pr1_message_field_get_int (pm_block r) (the query_id_field)) (\<lambda>query_id.
           query_items container query_callback ck query_id
             (tiodata_init, tiodata_init, tiodata_init) c))))))))))))"


section \<open>Subscriptions and groups\<close>

definition update_container :: "addr \<Rightarrow> (tio_container \<Rightarrow> tio_container) \<Rightarrow> tio_connection \<Rightarrow> tio_connection cres" where
  "update_container a f c =
     bind_res (deref (cn_containers_heap c) (Some a)) (\<lambda>ct.
       Inr (c\<lparr> cn_containers_heap := (cn_containers_heap c)(a \<mapsto> f ct) \<rparr>))"

definition tio_container_subscribe ::
    "addr \<Rightarrow> tiodata option \<Rightarrow> callback option \<Rightarrow> cookie \<Rightarrow> tio_connection \<Rightarrow> (int \<times> tio_connection) option cres" where
  "tio_container_subscribe container start event_callback ck c =
     bind_io (tio_container_input_command (Some container) TIO_COMMAND_SUBSCRIBE start None None c) (\<lambda>result c.
     if TIO_FAILED result then ret_io result c
     else bind_res (update_container container
            (\<lambda>ct. ct\<lparr> tc_event_callback := event_callback, tc_subscription_cookie := ck \<rparr>) c) (\<lambda>c.
       ret_io TIO_SUCCESS c))"

definition tio_container_wait_and_pop_next ::
    "addr \<Rightarrow> callback option \<Rightarrow> cookie \<Rightarrow> tio_connection \<Rightarrow> (int \<times> tio_connection) option cres" where
  "tio_container_wait_and_pop_next container event_callback ck c =
     bind_res (update_container container (\<lambda>ct. ct\<lparr> tc_wait_and_pop_next_callback := event_callback,
                 tc_wait_and_pop_next_cookie := ck \<rparr>) c) (\<lambda>c.
     bind_io (tio_container_input_command (Some container) TIO_COMMAND_WAIT_AND_POP_NEXT None None None c) (\<lambda>result c.
     if TIO_FAILED result then ret_io result c else ret_io TIO_SUCCESS c))"

definition tio_container_unsubscribe :: "addr \<Rightarrow> tio_connection \<Rightarrow> (int \<times> tio_connection) option cres" where
  "tio_container_unsubscribe container c =
     bind_res (update_container container
       (\<lambda>ct. ct\<lparr> tc_event_callback := None, tc_subscription_cookie := 0 \<rparr>) c) (\<lambda>c.
     bind_io (tio_container_input_command (Some container) TIO_COMMAND_UNSUBSCRIBE None None None c) (\<lambda>result c.
     if TIO_FAILED result then ret_io result c else ret_io TIO_SUCCESS c))"

text \<open>Sending a request of the connection and reading the error code of its answer.\<close>

definition send_and_get_error_code :: "pr1_message \<Rightarrow> tio_connection \<Rightarrow> (int \<times> tio_connection) option cres" where
  "send_and_get_error_code request c =
     bind_io (pr1_message_send_and_delete request 0 c) (\<lambda>result c.
     if TIO_FAILED result then ret_io result c
     else bind_io (tio_receive_until_not_event c) (\<lambda>(result, response) c.
     if TIO_FAILED result then ret_io result c
     else bind_res (response_error_code response c) (\<lambda>(result, c).
     if TIO_FAILED result then ret_io result c else ret_io TIO_SUCCESS c)))"

definition tio_group_add :: "byte list \<Rightarrow> byte list \<Rightarrow> tio_connection \<Rightarrow> (int \<times> tio_connection) option cres" where
  "tio_group_add group_name container_name c =
     bind_res pr1_message_new (\<lambda>m.
     bind_res (pr1_message_add_field_int m MESSAGE_FIELD_ID_COMMAND TIO_COMMAND_GROUP_ADD) (\<lambda>m.
     bind_res (pr1_message_add_field_string m MESSAGE_FIELD_ID_GROUP_NAME group_name) (\<lambda>m.
     bind_res (pr1_message_add_field_string m MESSAGE_FIELD_ID_CONTAINER_NAME container_name) (\<lambda>m.
       send_and_get_error_code m c))))"

definition tio_group_set_subscription_callback ::
    "callback option \<Rightarrow> cookie \<Rightarrow> tio_connection \<Rightarrow> int \<times> tio_connection" where
  "tio_group_set_subscription_callback cb ck c =
     (0, c\<lparr> group_event_callback := cb, group_event_cookie := ck \<rparr>)"

definition tio_group_subscribe ::
    "byte list \<Rightarrow> byte list option \<Rightarrow> tio_connection \<Rightarrow> (int \<times> tio_connection) option cres" where
  "tio_group_subscribe group_name start c =
     bind_res pr1_message_new (\<lambda>m.
     bind_res (pr1_message_add_field_int m MESSAGE_FIELD_ID_COMMAND TIO_COMMAND_GROUP_SUBSCRIBE) (\<lambda>m.
     bind_res (pr1_message_add_field_string m MESSAGE_FIELD_ID_GROUP_NAME group_name) (\<lambda>m.
     bind_res (case start of None \<Rightarrow> Inr m
               | Some s \<Rightarrow> pr1_message_add_field_string m MESSAGE_FIELD_ID_START_RECORD s) (\<lambda>m.
       send_and_get_error_code m c))))"


section \<open>The network batch\<close>

definition tio_begin_network_batch :: "tio_connection \<Rightarrow> tio_connection cres" where
  "tio_begin_network_batch c =
     bind_res (guard_res (pending_event_count c = 0) AssertionFailed) (\<lambda>_.
     bind_res (guard_res (wait_for_answer c) AssertionFailed) (\<lambda>_.
       Inr (c\<lparr> wait_for_answer := False \<rparr>)))"

text \<open>
  The bound of the loop is the field \<^verbatim>\<open>pending_event_count\<close> itself, which the reception of an event
  in the loop changes too.
\<close>

function finish_batch :: "u32 \<Rightarrow> tio_connection \<Rightarrow> (unit \<times> tio_connection) option cres" where
  "finish_batch a c =
     (if sint a < sint (pending_event_count c)
      then bind_io (tio_receive_until_not_event c) (\<lambda>_ c. finish_batch (a + 1) c)
      else ret_io () c)"
  by pat_completeness auto
termination
  by (relation "measure (\<lambda>(_, c). turns c)") (auto dest: tio_receive_until_turns)

declare finish_batch.simps [simp del]

definition tio_finish_network_batch :: "tio_connection \<Rightarrow> (unit \<times> tio_connection) option cres" where
  "tio_finish_network_batch c =
     bind_res (guard_res (\<not> wait_for_answer c) AssertionFailed) (\<lambda>_.
     bind_io (finish_batch 0 (c\<lparr> wait_for_answer := True \<rparr>)) (\<lambda>_ c.
       ret_io () (c\<lparr> pending_event_count := 0 \<rparr>)))"


section \<open>Disconnecting\<close>

text \<open>
  All pending events are popped and every container of the table is freed; freeing one twice is a
  fault.  The number of events is below the next address, so \<open>el_fresh\<close> turns are enough.
\<close>

fun pop_all_events :: "nat \<Rightarrow> tio_connection \<Rightarrow> tio_connection cres" where
  "pop_all_events 0 c = Inl StillRunning"
| "pop_all_events (Suc n) c =
     bind_res (events_list_pop c) (\<lambda>(pending_event, c).
       if pending_event = None then Inr c else pop_all_events n c)"

fun free_containers :: "addr option list \<Rightarrow> (addr \<rightharpoonup> tio_container) \<Rightarrow> (addr \<rightharpoonup> tio_container) cres" where
  "free_containers [] h = Inr h"
| "free_containers (None # ps) h = free_containers ps h"
| "free_containers (Some a # ps) h =
     bind_res (deref h (Some a)) (\<lambda>_. free_containers ps (h(a := None)))"

text \<open>The heaps that are left when the connection itself is freed.\<close>

definition tio_disconnect ::
    "tio_connection \<Rightarrow> ((addr \<rightharpoonup> pr1_message event_info_node) \<times> (addr \<rightharpoonup> tio_container)) cres" where
  "tio_disconnect c =
     bind_res (pop_all_events (Suc (el_fresh c)) c) (\<lambda>c.
     bind_res (free_containers (rev (cn_containers c)) (cn_containers_heap c)) (\<lambda>h.
       Inr (el_heap c, h)))"


section \<open>Connecting\<close>

text \<open>
  The results of the system calls are arguments: \<open>sockfd\<close> of \<^verbatim>\<open>socket\<close>, \<open>resolved\<close> whether
  \<^verbatim>\<open>getaddrinfo\<close> found an address, \<open>connected\<close> of \<^verbatim>\<open>connect\<close>; \<open>path\<close> is the uninitialised buffer of 256
  bytes for the name of a local socket.  The result has the connection and the container of the
  clusters, which is null when the server has no such container; the socket is closed on failure.
\<close>

definition local_endpoint :: "block \<Rightarrow> byte list \<Rightarrow> u16 \<Rightarrow> block cres" where
  "local_endpoint path host port =
     bind_res (mem_write path 0 (c_str host @ [0])) (\<lambda>path.
       mem_write path (length (c_str host)) (dec_int (sint port) @ [0]))"

definition tio_connect ::
    "int \<Rightarrow> bool \<Rightarrow> int \<Rightarrow> block \<Rightarrow> block \<Rightarrow> byte list \<Rightarrow> u16 \<Rightarrow> net \<Rightarrow> int list \<Rightarrow>
     (int \<times> (tio_connection \<times> addr option) option) option cres" where
  "tio_connect sockfd resolved connected path err host port net sends =
     (let isUnixSocket = (take 1 (c_str host) = c_bytes ''/'') in
      if sockfd < 0 then Inr (Some (TIO_ERROR_NETWORK, None))
      else bind_res (if isUnixSocket then local_endpoint path host port else Inr path) (\<lambda>_.
      if \<not> isUnixSocket \<and> \<not> resolved then Inr (Some (TIO_ERROR_NETWORK, None))
      else if connected < 0 then Inr (Some (TIO_ERROR_NETWORK, None))
      else case sends of
        [] \<Rightarrow> Inr None
      | sent # sends \<Rightarrow>
          (let (result, net) = socket_send net (c_bytes ''protocol binary'' @ [13, 10]) 17 sent in
           if TIO_FAILED result then Inr (Some (TIO_ERROR_NETWORK, None))
           else bind_res (socket_receive net (replicate 12 0) 0 12 None) (\<lambda>r.
           case r of
             None \<Rightarrow> Inr None
           | Some (result, buffer, net) \<Rightarrow>
               if TIO_FAILED result then Inr (Some (TIO_ERROR_NETWORK, None))
               else if buffer \<noteq> c_bytes ''going binary'' then Inr (Some (TIO_ERROR_PROTOCOL, None))
               else bind_io (tio_open (c_bytes ''__meta__/clusters'') (Some (c_bytes ''volatile_map''))
                              (tio_connection_new net sends err)) (\<lambda>(_, clusters_container) c.
                 Inr (Some (TIO_SUCCESS, Some (c, clusters_container))))))))"

end
