(* ===== verification/ClientDelivery.thy ===== *)
theory ClientDelivery
  imports ClientRequests
begin

text \<open>
  What an application sees of a connection: requests are answered and events are delivered.  The
  server's side of the conversation is a list of messages on the stream, in any fragmentation;
  \<open>ready\<close> describes a connection in between two requests.
\<close>

section \<open>The network delivers\<close>

text \<open>The turns of the script that the reception of a message may need: \<^verbatim>\<open>select\<close> and one per byte.\<close>

definition cost :: "pr1_field list \<Rightarrow> nat" where
  "cost fs = 9 + length (encode_fields fs)"

definition good_step :: "net_step \<Rightarrow> bool" where
  "good_step s \<longleftrightarrow> 0 < ns_available s \<and> ns_select s = 1"

text \<open>
  \<open>ready n stream c\<close>: no event is pending, events are dispatched as they arrive, the bytes to come
  are \<open>stream\<close> and the network delivers for at least \<open>n\<close> turns.
\<close>

definition ready :: "nat \<Rightarrow> byte list \<Rightarrow> tio_connection \<Rightarrow> bool" where
  "ready n stream c \<longleftrightarrow> event_list_rep c [] \<and> max_pending_event_count c = 0 \<and> wait_for_answer c \<and>
     list_all good_step (nt_script (cn_net c)) \<and> n \<le> turns c \<and> nt_stream (cn_net c) = stream"

text \<open>\<open>same_app c c'\<close>: the containers, the table and the callbacks are the same.\<close>

definition same_app :: "tio_connection \<Rightarrow> tio_connection \<Rightarrow> bool" where
  "same_app c c' \<longleftrightarrow> cn_containers_heap c' = cn_containers_heap c \<and> cn_containers c' = cn_containers c \<and>
     cn_containers_fresh c' = cn_containers_fresh c \<and> group_event_callback c' = group_event_callback c \<and>
     group_event_cookie c' = group_event_cookie c \<and> g_last_error_description c' = g_last_error_description c"

text \<open>\<open>silent c c'\<close>: nothing was sent.\<close>

definition silent :: "tio_connection \<Rightarrow> tio_connection \<Rightarrow> bool" where
  "silent c c' \<longleftrightarrow> nt_sent (cn_net c') = nt_sent (cn_net c) \<and> cn_send_results c' = cn_send_results c"

lemma silent_refl [simp]: "silent c c"
  by (simp add: silent_def)

lemma silent_trans: "silent c c' \<Longrightarrow> silent c' c'' \<Longrightarrow> silent c c''"
  by (simp add: silent_def)

lemma silent_same_io: "same_io c c' \<Longrightarrow> silent c c'"
  by (simp add: silent_def same_io_def)

lemma same_app_refl [simp]: "same_app c c"
  by (simp add: same_app_def)

lemma same_app_trans: "same_app c c' \<Longrightarrow> same_app c' c'' \<Longrightarrow> same_app c c''"
  by (simp add: same_app_def)

lemma event_list_rep_net [simp]:
  "event_list_rep (c\<lparr> cn_net := n \<rparr>) ms = event_list_rep c ms"
  "event_list_rep (c\<lparr> total_messages_received := k \<rparr>) ms = event_list_rep c ms"
  "event_list_rep (c\<lparr> cn_calls := x \<rparr>) ms = event_list_rep c ms"
  by (simp_all add: event_list_rep_def)

lemma receive_any_delivers:
  assumes "ready n (wire q fs @ rest) c" and "msg_ok fs" and "cost fs \<le> n"
  shows "\<exists>m net'. pr1_message_receive_from_any_cluster None None c =
           Inr (Some ((int (length (encode_fields fs)), Some m), c\<lparr> cn_net := net' \<rparr>)) \<and>
           pm_finds m fs \<and> ready (n - cost fs) rest (c\<lparr> cn_net := net' \<rparr>) \<and> nt_sent net' = nt_sent (cn_net c)"
proof -
  obtain s script where s: "nt_script (cn_net c) = s # script"
    using assms by (cases "nt_script (cn_net c)") (auto simp: ready_def cost_def)
  let ?net = "(cn_net c)\<lparr> nt_script := script \<rparr>"
  have len: "8 + length (encode_fields fs) \<le> length (nt_script ?net)" using assms s by (simp add: ready_def cost_def)
  have del: "list_all (\<lambda>s. step_delivers None s \<and> step_delivers None s) (nt_script ?net)"
    using assms(1) s by (auto simp: ready_def good_step_def step_delivers_def list_all_iff)
  have str: "nt_stream ?net = message_header_bytes (of_nat (length (encode_fields fs)))
           (of_nat (length fs)) q @ encode_fields fs @ rest"
    using assms(1) by (simp add: ready_def wire_def)
  have ok: "list_all pr1_field_ok fs" "length fs < 2 ^ 16" "length (encode_fields fs) < 2 ^ 31 - 4096"
    using assms(2) by (simp_all add: msg_ok_def)
  obtain m k where m: "pr1_message_receive ?net None None = Inr (Some (int (length (encode_fields fs)), Some m,
        ?net\<lparr> nt_script := drop k (nt_script ?net), nt_stream := rest \<rparr>))"
      "pm_finds m fs" "k \<le> 8 + length (encode_fields fs)"
    using pr1_message_receive_delivers [OF ok str del len] by blast
  let ?net' = "?net\<lparr> nt_script := drop k script, nt_stream := rest \<rparr>"
  have "ns_select s = 1" using assms(1) s by (simp add: ready_def good_step_def)
  then have "pr1_message_receive_from_any_cluster None None c =
      Inr (Some ((int (length (encode_fields fs)), Some m), c\<lparr> cn_net := ?net' \<rparr>))"
    using s m(1) by (simp add: pr1_message_receive_from_any_cluster_def ret_io_def)
  moreover have "ready (n - cost fs) rest (c\<lparr> cn_net := ?net' \<rparr>)"
    using assms(1) s m(3) by (auto simp: ready_def cost_def list_all_iff dest: in_set_dropD)
  ultimately show ?thesis using m(2) by (intro exI [of _ m] exI [of _ ?net']) simp
qed


section \<open>Reading fields of a received message\<close>

lemma find_int_field:
  assumes "pm_finds m fs" and "find (\<lambda>g. (ucast (fst g) :: u32) = fid) fs = Some (value_field i (VInt v))"
  shows "\<exists>p. pr1_message_field_find_by_id m fid = Inr (Some p) \<and> pr1_message_field_get_int (pm_block m) p = Inr v \<and>
           is_int_field m (Some p) = Inr True"
proof -
  obtain p where p: "pr1_message_field_find_by_id m fid = Inr (Some p)"
    "read_field (pm_block m) p = Inr (value_field i (VInt v))"
    using assms by (auto simp: pm_finds_def dest!: spec [of _ fid])
  then obtain n where t: "data_type_at (pm_block m) p = Inr MESSAGE_FIELD_TYPE_INT"
    and n: "data_size_at (pm_block m) p = Inr n"
    and r: "mem_read (pm_block m) (p + 8) (unat n) = Inr (u32_bytes v)"
    by (auto simp: read_field_def bind_res_Inr_iff pr1_message_field_get_buffer_def)
  have "unat n = unat (4 :: u32)" using r by (auto simp: mem_read_Inr_iff dest: arg_cong [of _ _ length])
  then have "n = 4" by (rule unsigned_word_eqI)
  then show ?thesis using p(1) t n r by (simp add: is_int_field_def pr1_message_field_get_int_def)
qed

lemma find_no_field:
  "pm_finds m fs \<Longrightarrow> find (\<lambda>g. (ucast (fst g) :: u32) = fid) fs = None \<Longrightarrow>
   pr1_message_field_find_by_id m fid = Inr None"
  by (auto simp: pm_finds_def dest: spec [of _ fid])

lemma received_command_ok:
  assumes "pm_finds m fs" and "find (\<lambda>g. (ucast (fst g) :: u32) = 1) fs = Some (value_field i (VInt cmd))"
  shows "received_command m c = Inr (Some cmd, c\<lparr> total_messages_received := total_messages_received c + 1 \<rparr>)"
  using find_int_field [OF assms] by (auto simp: received_command_def)


section \<open>Events\<close>

text \<open>An event as the server sends it, and its fields.\<close>

record server_event =
  se_seq :: u16
  se_handle :: u32
  se_code :: u32
  se_key :: "tio_value option"
  se_value :: "tio_value option"
  se_metadata :: "tio_value option"

definition opt_field :: "u16 \<Rightarrow> tio_value option \<Rightarrow> pr1_field list" where
  "opt_field i x = (case x of None \<Rightarrow> [] | Some v \<Rightarrow> [value_field i v])"

definition opt_val :: "tio_value option \<Rightarrow> tio_value" where
  "opt_val x = (case x of None \<Rightarrow> VNone | Some v \<Rightarrow> v)"

definition event_fields :: "server_event \<Rightarrow> pr1_field list" where
  "event_fields ev =
     [value_field MESSAGE_FIELD_ID_COMMAND (VInt TIO_COMMAND_EVENT),
      value_field MESSAGE_FIELD_ID_HANDLE (VInt (se_handle ev)),
      value_field MESSAGE_FIELD_ID_EVENT_CODE (VInt (se_code ev))] @
     opt_field MESSAGE_FIELD_ID_KEY (se_key ev) @ opt_field MESSAGE_FIELD_ID_VALUE (se_value ev) @
     opt_field MESSAGE_FIELD_ID_METADATA (se_metadata ev)"

text \<open>The open container of a handle, and the calls that an event is to cause.\<close>

definition open_handle :: "tio_connection \<Rightarrow> u32 \<Rightarrow> (addr \<times> tio_container) option" where
  "open_handle c h =
     (case containers_at c h of
        Inr (Some a) \<Rightarrow> map_option (Pair a) (cn_containers_heap c a)
      | _ \<Rightarrow> None)"

definition event_calls ::
    "tio_connection \<Rightarrow> server_event \<Rightarrow>
     (callback \<times> addr \<times> cookie \<times> u32 \<times> byte list option \<times> byte list \<times> tio_value \<times> tio_value \<times> tio_value) list" where
  "event_calls c ev =
     (case open_handle c (se_handle ev) of
        None \<Rightarrow> []
      | Some (a, ct) \<Rightarrow>
          let (f, ck) = (if se_code ev = TIO_COMMAND_WAIT_AND_POP_NEXT
                         then (tc_wait_and_pop_next_callback ct, tc_wait_and_pop_next_cookie ct)
                         else if tc_group_name ct = None then (tc_event_callback ct, tc_subscription_cookie ct)
                         else (group_event_callback c, group_event_cookie c))
          in case f of
               None \<Rightarrow> []
             | Some f \<Rightarrow> [(f, a, ck, se_code ev, tc_group_name ct, tc_name ct,
                           opt_val (se_key ev), opt_val (se_value ev), opt_val (se_metadata ev))])"

definition call_view ::
    "callback_call \<Rightarrow>
     callback \<times> addr \<times> cookie \<times> u32 \<times> byte list option \<times> byte list \<times> tio_value \<times> tio_value \<times> tio_value" where
  "call_view cc =
     (cc_callback cc, cc_container cc, cc_cookie cc, cc_code cc, cc_group_name cc, cc_container_name cc,
      tiodata_value (cc_key cc), tiodata_value (cc_value cc), tiodata_value (cc_metadata cc))"

lemma find_opt_field [simp]:
  "find P (opt_field i x @ fs) =
     (case x of None \<Rightarrow> find P fs | Some v \<Rightarrow> if P (value_field i v) then Some (value_field i v) else find P fs)"
  "find P (opt_field i x) = (case x of Some v \<Rightarrow> if P (value_field i v) then Some (value_field i v) else None | None \<Rightarrow> None)"
  by (auto simp: opt_field_def split: option.split)

lemma event_fields_find:
  "find (\<lambda>g. (ucast (fst g) :: u32) = 1) (event_fields ev) = Some (value_field 1 (VInt 2))"
  "find (\<lambda>g. (ucast (fst g) :: u32) = 2) (event_fields ev) = Some (value_field 2 (VInt (se_handle ev)))"
  "find (\<lambda>g. (ucast (fst g) :: u32) = 0xA) (event_fields ev) = Some (value_field 0xA (VInt (se_code ev)))"
  "find (\<lambda>g. (ucast (fst g) :: u32) = 3) (event_fields ev) = map_option (value_field 3) (se_key ev)"
  "find (\<lambda>g. (ucast (fst g) :: u32) = 4) (event_fields ev) = map_option (value_field 4) (se_value ev)"
  "find (\<lambda>g. (ucast (fst g) :: u32) = 5) (event_fields ev) = map_option (value_field 5) (se_metadata ev)"
  by (simp_all add: event_fields_def split: option.split)

lemma set_as_none_twice: "tiodata_set_as_none (tiodata_set_as_none d) = tiodata_set_as_none d"
  by (simp add: tiodata_set_as_none_def tiodata_get_type_def Let_def)

lemma event_field_eq: "event_field m i d = pr1_message_field_get_as_tio_data m (ucast i) d"
  unfolding event_field_def pr1_message_field_get_as_tio_data_def Let_def
  by (rule arg_cong [where f = "bind_res _"])
    (auto simp: pr1_message_field_to_tio_data_def set_as_none_twice Let_def fun_eq_iff split: option.split)

lemma event_field_ok:
  assumes "pm_finds m fs" and "msg_ok fs" and "tiodata_inv d"
    and "find (\<lambda>g. (ucast (fst g) :: u32) = ucast i) fs = map_option (value_field i) x"
  shows "\<exists>d'. event_field m i d = Inr d' \<and> tiodata_inv d' \<and> tiodata_value d' = opt_val x"
  using get_as_tio_value_ok [OF assms(1,3,4)] assms(2) by (simp add: event_field_eq msg_ok_def opt_val_def)

definition inv3 :: "tiodata \<times> tiodata \<times> tiodata \<Rightarrow> bool" where
  "inv3 = (\<lambda>(k, v, w). tiodata_inv k \<and> tiodata_inv v \<and> tiodata_inv w)"

lemma dispatch_event_ok:
  assumes fs: "pm_finds m (event_fields ev)" "msg_ok (event_fields ev)"
    and op: "open_handle c (se_handle ev) = Some (a, ct)" and d: "inv3 d"
  shows "\<exists>d' cs. dispatch_event m d c = Inr (d', c\<lparr> cn_calls := cn_calls c @ cs \<rparr>) \<and>
           map call_view cs = event_calls c ev \<and> inv3 d'"
proof -
  obtain key v w where kvw: "d = (key, v, w)" "tiodata_inv key" "tiodata_inv v" "tiodata_inv w"
    using d by (cases d) (auto simp: inv3_def)
  obtain h where h: "pr1_message_field_find_by_id m 2 = Inr (Some h)"
    "pr1_message_field_get_int (pm_block m) h = Inr (se_handle ev)" "is_int_field m (Some h) = Inr True"
    using find_int_field [OF fs(1) event_fields_find(2)] by auto
  obtain e where e: "pr1_message_field_find_by_id m 0xA = Inr (Some e)"
    "pr1_message_field_get_int (pm_block m) e = Inr (se_code ev)" "is_int_field m (Some e) = Inr True"
    using find_int_field [OF fs(1) event_fields_find(3)] by auto
  obtain k' where k': "event_field m 3 key = Inr k'" "tiodata_inv k'" "tiodata_value k' = opt_val (se_key ev)"
    using event_field_ok [OF fs kvw(2), of 3 "se_key ev"] event_fields_find(4) [of ev] by auto
  obtain v' where v': "event_field m 4 v = Inr v'" "tiodata_inv v'" "tiodata_value v' = opt_val (se_value ev)"
    using event_field_ok [OF fs kvw(3), of 4 "se_value ev"] event_fields_find(5) [of ev] by auto
  obtain w' where w': "event_field m 5 w = Inr w'" "tiodata_inv w'" "tiodata_value w' = opt_val (se_metadata ev)"
    using event_field_ok [OF fs kvw(4), of 5 "se_metadata ev"] event_fields_find(6) [of ev] by auto
  have at: "containers_at c (se_handle ev) = Inr (Some a)" "cn_containers_heap c a = Some ct"
    using op by (auto simp: open_handle_def split: sum.splits option.splits)
  show ?thesis
    unfolding dispatch_event_def kvw(1) event_calls_def op
    using h e k' v' w' at
    by (auto simp: Let_def call_view_def inv3_def split: option.split)
qed

lemma event_list_same_app:
  "events_list_push c m = Inr c' \<Longrightarrow> same_app c c' \<and> cn_calls c' = cn_calls c"
  "events_list_pop c = Inr (r, c') \<Longrightarrow> same_app c c' \<and> cn_calls c' = cn_calls c"
  by (auto simp: same_app_def dest!: events_list_push_frame events_list_pop_frame)

lemma same_app_open: "same_app c c' \<Longrightarrow> open_handle c' h = open_handle c h"
  by (auto simp: same_app_def open_handle_def containers_at_def split: option.split)

lemma same_app_calls: "same_app c c' \<Longrightarrow> event_calls c' = event_calls c"
proof
  show "event_calls c' ev = event_calls c ev" if "same_app c c'" for ev
    using that same_app_open [of c c' "se_handle ev"]
    by (auto simp: event_calls_def same_app_def Let_def split: option.split)
qed

lemma inv3_init [simp]: "inv3 (tiodata_init, tiodata_init, tiodata_init)"
  by (simp add: inv3_def)

text \<open>An event that arrives while none is pending is handed to its callback at once.\<close>

lemma on_event_receive_ok:
  assumes "pm_finds m (event_fields ev)" and "msg_ok (event_fields ev)"
    and "open_handle c (se_handle ev) = Some (a, ct)" and "event_list_rep c []" and "max_pending_event_count c = 0"
  shows "\<exists>c' cs. on_event_receive m c = Inr c' \<and> same_app c c' \<and> same_io c c' \<and> event_list_rep c' [] \<and>
           cn_calls c' = cn_calls c @ cs \<and> map call_view cs = event_calls c ev"
proof -
  obtain c1 where c1: "events_list_push c m = Inr c1" "event_list_rep c1 [m]"
    using events_list_push_rep [OF assms(4), of m] by auto
  note f1 = event_list_same_app(1) [OF c1(1)] events_list_same_io(1) [OF c1(1)]
  obtain c2 where c2: "events_list_pop c1 = Inr (Some m, c2)" "event_list_rep c2 []"
    using events_list_pop_rep [OF c1(2)] by auto
  note f2 = event_list_same_app(2) [OF c2(1)] events_list_same_io(2) [OF c2(1)]
  have app: "same_app c c2" using f1 f2 by (blast intro: same_app_trans)
  obtain d cs where d: "dispatch_event m (tiodata_init, tiodata_init, tiodata_init) c2 =
      Inr (d, c2\<lparr> cn_calls := cn_calls c2 @ cs \<rparr>)" "map call_view cs = event_calls c2 ev"
    using dispatch_event_ok [OF assms(1,2), of c2 a ct, OF _ inv3_init] assms(3) same_app_open [OF app] by auto
  let ?c = "c2\<lparr> cn_calls := cn_calls c2 @ cs \<rparr>"
  have "events_list_pop ?c = Inr (None, ?c)" by (rule events_list_pop_empty) (simp add: c2(2))
  then have "dispatch_events 0 0xFFFFFFFF (tiodata_init, tiodata_init, tiodata_init) c1 = Inr (1, ?c)"
    by (subst dispatch_events.simps, simp add: c2 d, subst dispatch_events.simps) simp
  moreover have "pending_event_count c1 = 1" "max_pending_event_count c1 = 0"
    using c1(2) f1 assms(5) by (auto simp: event_list_rep_def same_io_def)
  ultimately have "on_event_receive m c = Inr ?c"
    by (simp add: on_event_receive_def c1(1) tio_dispatch_pending_events_def)
  moreover have "same_io c ?c" using f1(2) f2(2) by (simp add: same_io_def)
  moreover have "same_app c ?c" using app by (simp add: same_app_def)
  ultimately show ?thesis
    using f1 f2 d(2) same_app_calls [OF app] c2(2) by (intro exI [of _ ?c] exI [of _ cs]) simp
qed

text \<open>
  \<open>heard\<close>: what the events \<open>evs\<close> that arrived while a request waited have done to the connection.
\<close>

definition heard :: "server_event list \<Rightarrow> tio_connection \<Rightarrow> tio_connection \<Rightarrow> bool" where
  "heard evs c c' \<longleftrightarrow> same_app c c' \<and>
     (\<exists>cs. cn_calls c' = cn_calls c @ cs \<and> map call_view cs = concat (map (event_calls c) evs))"

definition event_ok :: "tio_connection \<Rightarrow> server_event \<Rightarrow> bool" where
  "event_ok c ev \<longleftrightarrow> msg_ok (event_fields ev) \<and> open_handle c (se_handle ev) \<noteq> None"

definition event_wire :: "server_event \<Rightarrow> byte list" where
  "event_wire ev = wire (se_seq ev) (event_fields ev)"

definition event_cost :: "server_event \<Rightarrow> nat" where
  "event_cost ev = cost (event_fields ev)"

lemma ready_total [simp]: "ready n s (c\<lparr> total_messages_received := k \<rparr>) = ready n s c"
  by (simp add: ready_def)

lemma ready_io: "ready n s c \<Longrightarrow> same_io c c' \<Longrightarrow> event_list_rep c' [] \<Longrightarrow> ready n s c'"
  by (simp add: ready_def same_io_def)

lemma receive_one_event:
  assumes "ready n (event_wire ev @ rest) c" and "event_ok c ev" and "event_cost ev \<le> n"
  shows "\<exists>c'. receive_until_not_event c = receive_until_not_event c' \<and> ready (n - event_cost ev) rest c' \<and>
           heard [ev] c c' \<and> silent c c'"
proof -
  obtain a ct where op: "open_handle c (se_handle ev) = Some (a, ct)" and ok: "msg_ok (event_fields ev)"
    using assms(2) by (auto simp: event_ok_def)
  obtain m net' where m: "pr1_message_receive_from_any_cluster None None c =
        Inr (Some ((int (length (encode_fields (event_fields ev))), Some m), c\<lparr> cn_net := net' \<rparr>))"
      "pm_finds m (event_fields ev)" "ready (n - event_cost ev) rest (c\<lparr> cn_net := net' \<rparr>)"
      "nt_sent net' = nt_sent (cn_net c)"
    using receive_any_delivers [OF assms(1) [unfolded event_wire_def] ok] assms(3)
    unfolding event_cost_def by blast
  let ?c = "c\<lparr> cn_net := net', total_messages_received := total_messages_received c + 1 \<rparr>"
  have app: "same_app c ?c" by (simp add: same_app_def)
  have rdy: "ready (n - event_cost ev) rest ?c" using m(3) by (simp add: ready_def)
  obtain c' cs where c': "on_event_receive m ?c = Inr c'" "same_app ?c c'" "same_io ?c c'" "event_list_rep c' []"
    "cn_calls c' = cn_calls ?c @ cs" "map call_view cs = event_calls ?c ev"
    using on_event_receive_ok [OF m(2) ok, of ?c a ct] same_app_open [OF app] op rdy
    by (auto simp: ready_def)
  have "receive_until_not_event c = receive_until_not_event c'"
    by (subst receive_until_not_event.simps)
      (use m(1) received_command_ok [OF m(2) event_fields_find(1)] c'(1) in \<open>simp add: TIO_FAILED_def\<close>)
  moreover have "heard [ev] c c'"
    using same_app_trans [OF app c'(2)] c'(5,6) same_app_calls [OF app] by (auto simp: heard_def)
  moreover have "silent c c'" using silent_same_io [OF c'(3)] m(4) by (simp add: silent_def)
  ultimately show ?thesis using ready_io [OF rdy c'(3,4)] by blast
qed

lemma heard_Cons: "heard [ev] c c1 \<Longrightarrow> heard evs c1 c2 \<Longrightarrow> heard (ev # evs) c c2"
  using same_app_calls [of c c1] by (auto simp: heard_def intro: same_app_trans)

lemma event_ok_same_app: "same_app c c' \<Longrightarrow> event_ok c' = event_ok c"
  by (simp add: event_ok_def same_app_open fun_eq_iff)

lemma receive_events:
  assumes "ready n (concat (map event_wire evs) @ rest) c" and "list_all (event_ok c) evs"
    and "sum_list (map event_cost evs) \<le> n"
  shows "\<exists>c'. receive_until_not_event c = receive_until_not_event c' \<and>
           ready (n - sum_list (map event_cost evs)) rest c' \<and> heard evs c c' \<and> silent c c'"
  using assms
proof (induction evs arbitrary: n c)
  case Nil
  then show ?case by (auto simp: heard_def)
next
  case (Cons ev evs)
  obtain c1 where c1: "receive_until_not_event c = receive_until_not_event c1"
    "ready (n - event_cost ev) (concat (map event_wire evs) @ rest) c1" "heard [ev] c c1" "silent c c1"
    using receive_one_event [of n ev "concat (map event_wire evs) @ rest" c] Cons.prems by auto
  have "list_all (event_ok c1) evs" using Cons.prems(2) c1(3) event_ok_same_app by (auto simp: heard_def)
  moreover have "sum_list (map event_cost evs) \<le> n - event_cost ev" using Cons.prems(3) by simp
  ultimately obtain c2 where "receive_until_not_event c1 = receive_until_not_event c2"
    "ready (n - event_cost ev - sum_list (map event_cost evs)) rest c2" "heard evs c1 c2" "silent c1 c2"
    using Cons.IH [OF c1(2)] by auto
  then show ?case using c1 heard_Cons silent_trans by (auto simp: diff_diff_eq)
qed

text \<open>A message that is neither an event nor the announcement of a group container ends the wait.\<close>

definition answer_fields :: "u32 \<Rightarrow> pr1_field list \<Rightarrow> bool" where
  "answer_fields cmd fs \<longleftrightarrow> msg_ok fs \<and> cmd \<noteq> TIO_COMMAND_EVENT \<and> cmd \<noteq> TIO_COMMAND_NEW_GROUP_CONTAINER \<and>
     find (\<lambda>g. (ucast (fst g) :: u32) = 1) fs = Some (value_field 1 (VInt cmd))"

lemma receive_answer:
  assumes "ready n (concat (map event_wire evs) @ wire q fs @ rest) c" and "list_all (event_ok c) evs"
    and "sum_list (map event_cost evs) + cost fs \<le> n" and "answer_fields cmd fs"
  shows "\<exists>m c'. tio_receive_until_not_event c = Inr (Some ((int (length (encode_fields fs)), Some m), c')) \<and>
           pm_finds m fs \<and> ready (n - (sum_list (map event_cost evs) + cost fs)) rest c' \<and> heard evs c c' \<and> silent c c'"
proof -
  let ?n = "n - sum_list (map event_cost evs)"
  obtain c1 where c1: "receive_until_not_event c = receive_until_not_event c1"
    "ready ?n (wire q fs @ rest) c1" "heard evs c c1" "silent c c1"
    using receive_events [OF assms(1,2)] assms(3) by auto
  have "msg_ok fs" "cost fs \<le> ?n" using assms(3,4) by (auto simp: answer_fields_def)
  from receive_any_delivers [OF c1(2) this] obtain m net' where
    m: "pr1_message_receive_from_any_cluster None None c1 =
          Inr (Some ((int (length (encode_fields fs)), Some m), c1\<lparr> cn_net := net' \<rparr>))"
      "pm_finds m fs" "ready (?n - cost fs) rest (c1\<lparr> cn_net := net' \<rparr>)"
      "nt_sent net' = nt_sent (cn_net c1)" by blast
  let ?c = "c1\<lparr> cn_net := net', total_messages_received := total_messages_received c1 + 1 \<rparr>"
  have "receive_until_not_event c1 = Inr (Some ((int (length (encode_fields fs)), Some m), ?c))"
    by (subst receive_until_not_event.simps)
      (use m(1) received_command_ok [OF m(2)] assms(4) in \<open>auto simp: answer_fields_def ret_io_def TIO_FAILED_def\<close>)
  moreover have "wait_for_answer c" using assms(1) by (simp add: ready_def)
  ultimately have "tio_receive_until_not_event c = Inr (Some ((int (length (encode_fields fs)), Some m), ?c))"
    by (simp add: tio_receive_until_not_event_def check_not_on_network_batch_def c1(1))
  moreover have "heard evs c ?c" using c1(3) by (simp add: heard_def same_app_def)
  moreover have "ready (n - (sum_list (map event_cost evs) + cost fs)) rest ?c"
    using m(3) by (simp add: ready_def)
  moreover have "silent c ?c" using c1(4) m(4) by (simp add: silent_def)
  ultimately show ?thesis using m(2) by blast
qed


section \<open>Requests\<close>

text \<open>The connection after \<^verbatim>\<open>send\<close> took the first \<open>sent\<close> bytes of a message.\<close>

definition after_send :: "int \<Rightarrow> int list \<Rightarrow> pr1_field list \<Rightarrow> tio_connection \<Rightarrow> tio_connection" where
  "after_send sent sends fs c =
     c\<lparr> cn_net := (cn_net c)\<lparr> nt_sent := nt_sent (cn_net c) @ take (nat sent) (wire 0 fs) \<rparr>, cn_send_results := sends \<rparr>"

lemma after_send_simps [simp]:
  "same_app c (after_send sent sends fs c)"
  "ready n s (after_send sent sends fs c) = ready n s c"
  "event_ok (after_send sent sends fs c) = event_ok c"
  "cn_calls (after_send sent sends fs c) = cn_calls c"
  "nt_sent (cn_net (after_send sent sends fs c)) = nt_sent (cn_net c) @ take (nat sent) (wire 0 fs)"
  "cn_send_results (after_send sent sends fs c) = sends"
proof -
  show app: "same_app c (after_send sent sends fs c)" by (simp add: same_app_def after_send_def)
  show "event_ok (after_send sent sends fs c) = event_ok c" by (rule event_ok_same_app [OF app])
qed (simp_all add: after_send_def ready_def event_list_rep_def)

lemma heard_after_send: "heard evs (after_send sent sends fs c) c' \<longleftrightarrow> heard evs c c'"
  using same_app_calls [OF after_send_simps(1)]
  by (auto simp: heard_def same_app_def after_send_def)

lemma send_ok:
  assumes "pm_holds m fs" and "length (encode_fields fs) < 2 ^ 31 - 4096"
    and "cn_send_results c = sent # sends" and "0 < sent"
  shows "pr1_message_send_and_delete m 0 c = Inr (Some (sent, after_send sent sends fs c))"
proof -
  obtain m' where b: "pr1_message_get_buffer m 0 = Inr (wire 0 fs, of_nat (8 + length (encode_fields fs)), m')"
    using pr1_message_get_buffer_holds [OF assms(1,2), of 0] by (auto simp: wire_def)
  have "unat (of_nat (8 + length (encode_fields fs)) :: u32) = length (wire 0 fs)"
    using assms(2) by (subst unat_of_nat_u32) (simp_all add: wire_def)
  moreover have "take (min k (length xs)) xs = take k xs" for k and xs :: "byte list"
    by (simp add: min_def)
  ultimately show ?thesis
    using assms(3,4) b
    by (simp add: pr1_message_send_and_delete_def pr1_message_send_def socket_send_def ret_io_def after_send_def)
qed

lemma send_command_ok:
  assumes "cn_containers_heap c a = Some ct" and "opt_inv key" and "opt_inv v" and "opt_inv metadata"
    and "length (encode_fields (data_message_fields cmd (tc_handle ct) key v metadata)) < 2 ^ 31 - 4096"
    and "cn_send_results c = sent # sends" and "0 < sent"
  shows "tio_container_send_command (Some a) cmd key v metadata c =
     Inr (Some (sent, after_send sent sends (data_message_fields cmd (tc_handle ct) key v metadata) c))"
proof -
  let ?fs = "data_message_fields cmd (tc_handle ct) key v metadata"
  obtain m where "tio_generate_data_message cmd (tc_handle ct) key v metadata = Inr m" "pm_holds m ?fs"
    using new_message_fields [OF assms(5)] by (auto simp: tio_generate_data_message_fields [OF assms(2-4)])
  then show ?thesis using assms(1) send_ok [OF _ assms(5-7)] by (simp add: tio_container_send_command_def)
qed

text \<open>The answer to a request for data.\<close>

definition data_answer :: "tio_value option \<Rightarrow> tio_value option \<Rightarrow> tio_value option \<Rightarrow> pr1_field list" where
  "data_answer k v w = value_field MESSAGE_FIELD_ID_COMMAND (VInt 1) #
     opt_field MESSAGE_FIELD_ID_KEY k @ opt_field MESSAGE_FIELD_ID_VALUE v @ opt_field MESSAGE_FIELD_ID_METADATA w"

lemma data_answer_find:
  "find (\<lambda>g. (ucast (fst g) :: u32) = 1) (data_answer k v w) = Some (value_field 1 (VInt 1))"
  "find (\<lambda>g. (ucast (fst g) :: u32) = 3) (data_answer k v w) = map_option (value_field 3) k"
  "find (\<lambda>g. (ucast (fst g) :: u32) = 4) (data_answer k v w) = map_option (value_field 4) v"
  "find (\<lambda>g. (ucast (fst g) :: u32) = 5) (data_answer k v w) = map_option (value_field 5) w"
  "find (\<lambda>g. (ucast (fst g) :: u32) = 8) (data_answer k v w) = None"
  by (simp_all add: data_answer_def split: option.split)

lemma output_field_ok:
  assumes "pm_finds m fs" and "msg_ok fs" and "tiodata_inv d"
    and "find (\<lambda>g. (ucast (fst g) :: u32) = ucast i) fs = map_option (value_field i) x"
  shows "\<exists>d'. output_field (Some m) i (Some d) = Inr (Some d') \<and> tiodata_value d' = opt_val x"
  using event_field_ok [OF assms] by (auto simp: output_field_def event_field_eq)

lemma data_response_ok:
  assumes rdy: "ready n (concat (map event_wire evs) @ wire q (data_answer k v w) @ rest) c"
    and evs: "list_all (event_ok c) evs" and n: "sum_list (map event_cost evs) + cost (data_answer k v w) \<le> n"
    and ans: "msg_ok (data_answer k v w)"
    and a: "cn_containers_heap c a = Some ct" and key: "opt_inv search"
    and req: "length (encode_fields (data_message_fields cmd (tc_handle ct) search None None)) < 2 ^ 31 - 4096"
    and snd: "cn_send_results c = sent # sends" "0 < sent"
    and d: "tiodata_inv dk" "tiodata_inv dv" "tiodata_inv dw"
  shows "\<exists>k' v' w' c'. tio_container_send_command_and_get_data_response (Some a) cmd search (Some dk) (Some dv) (Some dw) c =
           Inr (Some ((0, Some k', Some v', Some w'), c')) \<and>
           tiodata_value k' = opt_val k \<and> tiodata_value v' = opt_val v \<and> tiodata_value w' = opt_val w \<and>
           nt_sent (cn_net c') = nt_sent (cn_net c) @ take (nat sent) (wire 0 (data_message_fields cmd (tc_handle ct) search None None)) \<and>
           heard evs c c' \<and> ready (n - (sum_list (map event_cost evs) + cost (data_answer k v w))) rest c'"
proof -
  let ?A = "data_answer k v w" and ?R = "data_message_fields cmd (tc_handle ct) search None None"
  let ?c = "after_send sent sends ?R c"
  have send: "tio_container_send_command (Some a) cmd search None None c = Inr (Some (sent, ?c))"
    by (rule send_command_ok [OF a key _ _ req snd]) (simp_all add: opt_inv_def)
  have "answer_fields 1 ?A" using ans data_answer_find(1) by (simp add: answer_fields_def)
  from receive_answer [of n evs q ?A rest ?c 1, OF _ _ n this] obtain m c' where
    m: "tio_receive_until_not_event ?c = Inr (Some ((int (length (encode_fields ?A)), Some m), c'))"
      "pm_finds m ?A" "ready (n - (sum_list (map event_cost evs) + cost ?A)) rest c'" "heard evs ?c c'" "silent ?c c'"
    using rdy evs by auto
  have code: "response_error_code (Some m) c' = Inr (0, c')"
    using find_no_field [OF m(2) data_answer_find(5)]
    by (simp add: response_error_code_def pr1_message_get_error_code_def)
  obtain k' v' w' where out: "output_field (Some m) 3 (Some (tiodata_set_as_none dk)) = Inr (Some k')"
      "output_field (Some m) 4 (Some (tiodata_set_as_none dv)) = Inr (Some v')"
      "output_field (Some m) 5 (Some (tiodata_set_as_none dw)) = Inr (Some w')"
    and vals: "tiodata_value k' = opt_val k" "tiodata_value v' = opt_val v" "tiodata_value w' = opt_val w"
    using output_field_ok [OF m(2) ans tiodata_set_as_none_inv [OF d(1)], of 3 k]
      output_field_ok [OF m(2) ans tiodata_set_as_none_inv [OF d(2)], of 4 v]
      output_field_ok [OF m(2) ans tiodata_set_as_none_inv [OF d(3)], of 5 w] data_answer_find(2-4) [of k v w]
    by auto
  have "tio_container_send_command_and_get_data_response (Some a) cmd search (Some dk) (Some dv) (Some dw) c =
      Inr (Some ((0, Some k', Some v', Some w'), c'))"
    using snd(2) m(1) code out
    by (simp add: tio_container_send_command_and_get_data_response_def send TIO_FAILED_def Let_def ret_io_def)
  moreover have "nt_sent (cn_net c') = nt_sent (cn_net c) @ take (nat sent) (wire 0 ?R)"
    using m(5) by (simp add: silent_def)
  ultimately show ?thesis using vals m(3,4) heard_after_send by blast
qed

end
