(* ===== verification/ClientProperties.thy ===== *)
theory ClientProperties
  imports ClientDelivery
begin

text \<open>
  Properties of the client library as an application uses it: requests and queries are answered
  and events delivered whatever arrives in between, errors of the server reach the caller, the
  table of containers stays consistent, disconnecting frees everything; and where handles that the
  library does not check, or a failed \<^verbatim>\<open>tio_close\<close>, lead to a fault.
\<close>

section \<open>The table of containers\<close>

definition containers_inv :: "tio_connection \<Rightarrow> bool" where
  "containers_inv c \<longleftrightarrow>
     (\<forall>i a. i < length (cn_containers c) \<longrightarrow> cn_containers c ! i = Some a \<longrightarrow>
        (\<exists>ct. cn_containers_heap c a = Some ct \<and> tc_handle ct = of_nat i)) \<and>
     (\<forall>a. cn_containers_heap c a \<noteq> None \<longrightarrow> a < cn_containers_fresh c) \<and>
     0 < length (cn_containers c) \<and> length (cn_containers c) < 2 ^ 31"

lemma containers_inv_new: "containers_inv (tio_connection_new net sends err)"
  by (simp add: containers_inv_def tio_connection_new_def)

lemma in_table:
  assumes "length (cn_containers c) < 2 ^ 31"
  shows "0 \<le> sint (h :: u32) \<and> nat (sint h) < length (cn_containers c) \<longleftrightarrow> unat h < length (cn_containers c)"
    and "unat h < length (cn_containers c) \<Longrightarrow> nat (sint h) = unat h"
  using assms sint_u32_small [of h] sint_u32_big [of h] by (cases "unat h < 2 ^ 31"; simp)+

lemma containers_at_eq:
  assumes "length (cn_containers c) < 2 ^ 31"
  shows "containers_at c h =
    (if unat h < length (cn_containers c) then Inr (cn_containers c ! unat h) else Inl BufferOverrun)"
  using in_table [OF assms] by (simp add: containers_at_def)

lemma containers_put_eq:
  assumes "length (cn_containers c) < 2 ^ 31"
  shows "containers_put c h p =
    (if unat h < length (cn_containers c) then Inr (c\<lparr> cn_containers := (cn_containers c)[unat h := p] \<rparr>)
     else Inl BufferOverrun)"
  using in_table [OF assms] by (simp add: containers_put_def)

lemma grow_containers_ok:
  assumes "unat h < 2 ^ 30" and "0 < length (cn_containers c)" and "length (cn_containers c) < 2 ^ 31"
  shows "\<exists>k. grow_containers c h = Inr (c\<lparr> cn_containers := cn_containers c @ replicate k None \<rparr>) \<and>
           unat h < length (cn_containers c) + k \<and> length (cn_containers c) + k < 2 ^ 31"
proof -
  define n where "n = unat h"
  have n: "n < 2 ^ 30" using assms(1) by (simp add: n_def)
  have s1: "sint h = int n" using n sint_u32_small [of h] by (simp add: n_def)
  have "unat (h * 2) = n * 2" using n by (simp add: unat_word_ariths n_def)
  then have s2: "sint (h * 2) = int (n * 2)" using n sint_u32_small [of "h * 2"] by simp
  show ?thesis
  proof (cases "length (cn_containers c) \<le> n")
    case True
    let ?k = "n * 2 - length (cn_containers c)"
    have "grow_containers c h = Inr (c\<lparr> cn_containers := cn_containers c @ replicate ?k None \<rparr>)"
      using True unfolding grow_containers_def Let_def s1 s2 by (auto simp: nat_mult_distrib)
    moreover have "0 < n" using True assms(2) by linarith
    ultimately show ?thesis using True n by (intro exI [of _ ?k]) (simp add: n_def)
  next
    case False
    then have "grow_containers c h = Inr c" by (simp add: grow_containers_def s1)
    then show ?thesis using False assms(3) by (intro exI [of _ 0]) (simp add: n_def)
  qed
qed

text \<open>A fresh container put into the (possibly longer) table.\<close>

definition put_container :: "nat \<Rightarrow> u32 \<Rightarrow> tio_container \<Rightarrow> tio_connection \<Rightarrow> tio_connection" where
  "put_container k h ct c =
     c\<lparr> cn_containers_heap := (cn_containers_heap c)(cn_containers_fresh c \<mapsto> ct),
        cn_containers_fresh := cn_containers_fresh c + 1,
        cn_containers := (cn_containers c @ replicate k None)[unat h := Some (cn_containers_fresh c)],
        open_containers_count := open_containers_count c + 1 \<rparr>"

lemma put_container_inv:
  assumes "containers_inv c" and "tc_handle ct = h" and "unat h < length (cn_containers c) + k"
    and "length (cn_containers c) + k < 2 ^ 31"
  shows "containers_inv (put_container k h ct c)"
  unfolding containers_inv_def
proof (intro conjI allI impI, goal_cases)
  case (1 i b)
  show ?case
  proof (cases "i = unat h")
    case True
    then show ?thesis using 1 assms(2) by (simp add: put_container_def)
  next
    case False
    then have "i < length (cn_containers c)" "cn_containers c ! i = Some b"
      using 1 by (auto simp: put_container_def nth_append split: if_splits)
    then show ?thesis using assms(1) by (force simp: containers_inv_def put_container_def)
  qed
next
  case (2 b)
  then show ?case
    using assms(1) by (auto simp: containers_inv_def put_container_def less_Suc_eq split: if_splits)
qed (use assms in \<open>simp_all add: put_container_def containers_inv_def\<close>)

lemma put_container_open:
  assumes "containers_inv c" and "unat h < length (cn_containers c) + k" and "length (cn_containers c) + k < 2 ^ 31"
  shows "open_handle (put_container k h ct c) h' =
    (if h' = h then Some (cn_containers_fresh c, ct) else open_handle c h')"
proof (cases "h' = h")
  case True
  then show ?thesis using assms(2,3) by (simp add: open_handle_def containers_at_eq put_container_def)
next
  case False
  then have ne: "unat h' \<noteq> unat h" by (metis word_unat_eq_iff)
  have len: "length (cn_containers c) < 2 ^ 31" using assms(1) by (simp add: containers_inv_def)
  have "cn_containers c ! unat h' \<noteq> Some (cn_containers_fresh c)" if "unat h' < length (cn_containers c)"
    using that assms(1) by (force simp: containers_inv_def)
  then show ?thesis
    using ne False assms(3) len
    by (auto simp: open_handle_def containers_at_eq put_container_def nth_append split: option.split)
qed

lemma register_container_unfold:
  assumes "pm_finds m fs" and "find (\<lambda>g. (ucast (fst g) :: u32) = 2) fs = Some (value_field 2 (VInt h))"
    and "length (c_str name) < 2 ^ 32 - 1" and "case g of None \<Rightarrow> True | Some s \<Rightarrow> length (c_str s) < 2 ^ 32 - 1"
  shows "\<exists>ct. tc_handle ct = h \<and> tc_name ct = c_str name \<and> tc_group_name ct = map_option c_str g \<and>
    register_container m name g c =
      bind_res (grow_containers (c\<lparr> cn_containers_heap := (cn_containers_heap c)(cn_containers_fresh c \<mapsto> ct),
        cn_containers_fresh := cn_containers_fresh c + 1 \<rparr>) h) (\<lambda>c1. bind_res (containers_put
         (c1\<lparr> open_containers_count := open_containers_count c1 + 1 \<rparr>) h (Some (cn_containers_fresh c)))
           (\<lambda>c1. Inr ((0, Some (cn_containers_fresh c)), c1)))"
proof -
  obtain p where p: "pr1_message_field_find_by_id m 2 = Inr (Some p)"
    "pr1_message_field_get_int (pm_block m) p = Inr h"
    using find_int_field [OF assms(1,2)] by auto
  have l1: "\<exists>k. strlen32 name = Inr k" using assms(3) by (auto simp: strlen32_def c_str_def)
  have l2: "\<exists>k. (case g of None \<Rightarrow> Inr 0 | Some s \<Rightarrow> strlen32 s) = Inr k"
    using assms(4) by (auto simp: strlen32_def c_str_def split: option.splits)
  show ?thesis
    using p l1 l2
    by (intro exI [of _ "\<lparr> tc_handle = h, tc_event_callback = None, tc_wait_and_pop_next_callback = None,
        tc_subscription_cookie = 0, tc_group_name = map_option c_str g, tc_name = c_str name,
        tc_wait_and_pop_next_cookie = 0 \<rparr>"]) (auto simp: register_container_def Let_def)
qed

lemma grow_containers_bad:
  assumes "2 ^ 30 \<le> unat h" and "length (cn_containers c) \<le> 2 ^ 30"
  shows "bind_res (grow_containers c h) (\<lambda>c. bind_res (containers_put (f c) h p) g) = Inl BufferOverrun"
proof (cases "unat h < 2 ^ 31")
  case True
  have s1: "sint h = int (unat h)" using True by (rule sint_u32_small)
  have "unat (h * 2) = unat h * 2" using True by (simp add: unat_word_ariths)
  then have "sint (h * 2) < 0" using assms(1) sint_u32_big [of "h * 2"] by simp
  moreover have "length (cn_containers c) \<le> unat h" using assms by simp
  ultimately show ?thesis unfolding grow_containers_def s1 Let_def of_nat_le_iff by simp
next
  case False
  then have "sint h < 0" using sint_u32_big [of h] by simp
  then show ?thesis by (simp add: grow_containers_def containers_put_def)
qed

text \<open>
  C30: a container that the server opens under a handle below \<open>2 ^ 30\<close> is registered: the table grows
  when it must, the entry of the handle points to the new container with the given name and group,
  the entries of all other handles are as before, and every entry of the table still points to a
  live container that knows its own handle.  A handle that is negative, or from \<open>2 ^ 30\<close> on and behind
  the table, makes the library write outside the table.
\<close>

theorem register_container_correct:
  assumes "containers_inv c" and "pm_finds m fs"
    and "find (\<lambda>g. (ucast (fst g) :: u32) = 2) fs = Some (value_field 2 (VInt h))"
    and "length (c_str name) < 2 ^ 32 - 1" and "case g of None \<Rightarrow> True | Some s \<Rightarrow> length (c_str s) < 2 ^ 32 - 1"
  shows "(unat h < 2 ^ 30 \<longrightarrow>
            (\<exists>a ct c'. register_container m name g c = Inr ((0, Some a), c') \<and> containers_inv c' \<and>
               open_handle c' h = Some (a, ct) \<and> tc_handle ct = h \<and> tc_name ct = c_str name \<and>
               tc_group_name ct = map_option c_str g \<and> (\<forall>h'. h' \<noteq> h \<longrightarrow> open_handle c' h' = open_handle c h'))) \<and>
         (2 ^ 30 \<le> unat h \<and> length (cn_containers c) \<le> 2 ^ 30 \<longrightarrow>
            register_container m name g c = Inl BufferOverrun)"
proof (intro conjI impI)
  obtain ct where ct: "tc_handle ct = h" "tc_name ct = c_str name" "tc_group_name ct = map_option c_str g"
    and reg: "register_container m name g c =
      bind_res (grow_containers (c\<lparr> cn_containers_heap := (cn_containers_heap c)(cn_containers_fresh c \<mapsto> ct),
        cn_containers_fresh := cn_containers_fresh c + 1 \<rparr>) h) (\<lambda>c1. bind_res (containers_put
         (c1\<lparr> open_containers_count := open_containers_count c1 + 1 \<rparr>) h (Some (cn_containers_fresh c)))
           (\<lambda>c1. Inr ((0, Some (cn_containers_fresh c)), c1)))" (is "_ = bind_res (grow_containers ?c1 h) _")
    using register_container_unfold [OF assms(2-5)] by blast
  have inv: "0 < length (cn_containers ?c1)" "length (cn_containers ?c1) < 2 ^ 31"
    using assms(1) by (simp_all add: containers_inv_def)
  show "\<exists>a ct c'. register_container m name g c = Inr ((0, Some a), c') \<and> containers_inv c' \<and>
     open_handle c' h = Some (a, ct) \<and> tc_handle ct = h \<and> tc_name ct = c_str name \<and>
     tc_group_name ct = map_option c_str g \<and> (\<forall>h'. h' \<noteq> h \<longrightarrow> open_handle c' h' = open_handle c h')"
    if small: "unat h < 2 ^ 30"
  proof -
    obtain k where k: "grow_containers ?c1 h = Inr (?c1\<lparr> cn_containers := cn_containers c @ replicate k None \<rparr>)"
      "unat h < length (cn_containers c) + k" "length (cn_containers c) + k < 2 ^ 31"
      using grow_containers_ok [OF small inv] by auto
    have "register_container m name g c = Inr ((0, Some (cn_containers_fresh c)), put_container k h ct c)"
      using k by (simp add: reg containers_put_eq put_container_def)
    then show ?thesis
      using put_container_inv [OF assms(1) ct(1) k(2,3)] put_container_open [OF assms(1) k(2,3)] ct
      by (intro exI [of _ "cn_containers_fresh c"] exI [of _ ct] exI [of _ "put_container k h ct c"]) simp
  qed
  show "register_container m name g c = Inl BufferOverrun"
    if "2 ^ 30 \<le> unat h \<and> length (cn_containers c) \<le> 2 ^ 30"
    unfolding reg by (rule grow_containers_bad) (use that in simp_all)
qed


section \<open>Errors of the server\<close>

definition error_answer :: "u32 \<Rightarrow> byte list \<Rightarrow> pr1_field list" where
  "error_answer e desc =
     [value_field MESSAGE_FIELD_ID_COMMAND (VInt 1), value_field MESSAGE_FIELD_ID_ERROR_CODE (VInt e),
      value_field MESSAGE_FIELD_ID_ERROR_DESC (VString desc)]"

lemma error_answer_find:
  "find (\<lambda>g. (ucast (fst g) :: u32) = 1) (error_answer e desc) = Some (value_field 1 (VInt 1))"
  "find (\<lambda>g. (ucast (fst g) :: u32) = 8) (error_answer e desc) = Some (value_field 8 (VInt e))"
  "find (\<lambda>g. (ucast (fst g) :: u32) = 9) (error_answer e desc) = Some (value_field 9 (VString desc))"
  by (simp_all add: error_answer_def)

lemma get_string_255:
  assumes "read_field b p = Inr (value_field i (VString desc))" and "length buffer = 255"
  shows "\<exists>g. pr1_message_field_get_string b p buffer 255 = Inr g \<and> length g = 255 \<and>
           (length desc < 255 \<longrightarrow> take (length desc + 1) g = desc @ [0])"
proof -
  obtain n where n: "data_size_at b p = Inr n" and r: "mem_read b (p + 8) (unat n) = Inr desc"
    using assms(1) by (auto simp: read_field_def bind_res_Inr_iff pr1_message_field_get_buffer_def)
  have len: "unat n = length desc" and in_b: "p + 8 + unat n \<le> length b"
    and d: "desc = take (unat n) (drop (p + 8) b)" using r by (auto simp: mem_read_Inr_iff)
  show ?thesis
  proof (cases "255 < n")
    case True
    then have big: "255 < unat n" by (simp add: word_less_nat_alt)
    then show ?thesis
      using True n in_b assms(2) len
      by (simp add: pr1_message_field_get_string_def Let_def mem_read_def mem_write_def)
  next
    case False
    then have le: "unat n \<le> 255" by (simp add: word_less_nat_alt)
    have w: "mem_write buffer 0 desc = Inr (desc @ drop (length desc) buffer)"
      using assms(2) le len by (simp add: mem_write_def)
    show ?thesis
    proof (cases "n < 255")
      case True
      then have "unat n < 255" by (simp add: word_less_nat_alt)
      then show ?thesis
        using True False n r w assms(2) len
        by (simp add: pr1_message_field_get_string_def Let_def mem_write_def)
    next
      case ge: False
      then have "unat n = 255" using le by (simp add: word_less_nat_alt)
      then show ?thesis
        using ge False n r w assms(2) len by (simp add: pr1_message_field_get_string_def Let_def)
    qed
  qed
qed

lemma error_code_ok:
  assumes "pm_finds m (error_answer e desc)" and "length (g_last_error_description c) = 255"
  shows "\<exists>g. response_error_code (Some m) c = Inr (sint e, c\<lparr> g_last_error_description := g \<rparr>) \<and> length g = 255 \<and>
           (length desc < 255 \<longrightarrow> take (length desc + 1) g = desc @ [0])"
proof -
  obtain p where p: "pr1_message_field_find_by_id m 8 = Inr (Some p)" "pr1_message_field_get_int (pm_block m) p = Inr e"
    using find_int_field [OF assms(1) error_answer_find(2)] by auto
  obtain r where r: "pr1_message_field_find_by_id m 9 = Inr (Some r)"
    "read_field (pm_block m) r = Inr (value_field 9 (VString desc))"
    using assms(1) error_answer_find(3) [of e desc] by (auto simp: pm_finds_def dest!: spec [of _ 9])
  show ?thesis
    using p r(1) get_string_255 [OF r(2) assms(2)]
    by (auto simp: response_error_code_def pr1_message_get_error_code_def)
qed



section \<open>Requests for data\<close>



section \<open>Events for handles that are not open\<close>

lemma dispatch_event_at:
  assumes "pm_finds m (event_fields ev)" and "msg_ok (event_fields ev)" and "inv3 d"
    and "bind_res (containers_at c (se_handle ev)) (deref (cn_containers_heap c)) = Inl e"
  shows "dispatch_event m d c = Inl e"
proof -
  obtain key v w where kvw: "d = (key, v, w)" "tiodata_inv key" "tiodata_inv v" "tiodata_inv w"
    using assms(3) by (cases d) (auto simp: inv3_def)
  obtain h where h: "pr1_message_field_find_by_id m 2 = Inr (Some h)"
    "pr1_message_field_get_int (pm_block m) h = Inr (se_handle ev)" "is_int_field m (Some h) = Inr True"
    using find_int_field [OF assms(1) event_fields_find(2)] by auto
  obtain x where x: "pr1_message_field_find_by_id m 0xA = Inr (Some x)"
    "pr1_message_field_get_int (pm_block m) x = Inr (se_code ev)" "is_int_field m (Some x) = Inr True"
    using find_int_field [OF assms(1) event_fields_find(3)] by auto
  have f: "\<exists>k'. event_field m 3 key = Inr k'" "\<exists>v'. event_field m 4 v = Inr v'" "\<exists>w'. event_field m 5 w = Inr w'"
    using event_field_ok [OF assms(1,2) kvw(2), of 3 "se_key ev"] event_field_ok [OF assms(1,2) kvw(3), of 4 "se_value ev"]
      event_field_ok [OF assms(1,2) kvw(4), of 5 "se_metadata ev"] event_fields_find(4-6) [of ev] by auto
  show ?thesis
    unfolding dispatch_event_def kvw(1)
    using h x f assms(4) by (cases "containers_at c (se_handle ev)") auto
qed

lemma on_event_receive_at:
  assumes "pm_finds m (event_fields ev)" and "msg_ok (event_fields ev)"
    and "event_list_rep c []" and "max_pending_event_count c = 0"
    and "bind_res (containers_at c (se_handle ev)) (deref (cn_containers_heap c)) = Inl e"
  shows "on_event_receive m c = Inl e"
proof -
  obtain c1 where c1: "events_list_push c m = Inr c1" "event_list_rep c1 [m]"
    using events_list_push_rep [OF assms(3), of m] by auto
  note f1 = event_list_same_app(1) [OF c1(1)] events_list_same_io(1) [OF c1(1)]
  obtain c2 where c2: "events_list_pop c1 = Inr (Some m, c2)"
    using events_list_pop_rep [OF c1(2)] by auto
  note f2 = event_list_same_app(2) [OF c2(1)]
  have "dispatch_event m (tiodata_init, tiodata_init, tiodata_init) c2 = Inl e"
    by (rule dispatch_event_at [OF assms(1,2) inv3_init])
      (use assms(5) f1 f2 in \<open>auto simp: same_app_def containers_at_def split: if_splits\<close>)
  then have "dispatch_events 0 0xFFFFFFFF (tiodata_init, tiodata_init, tiodata_init) c1 = Inl e"
    by (subst dispatch_events.simps) (simp add: c2)
  moreover have "pending_event_count c1 = 1" "max_pending_event_count c1 = 0"
    using c1(2) f1 assms(4) by (auto simp: event_list_rep_def same_io_def)
  ultimately show ?thesis by (simp add: on_event_receive_def c1(1) tio_dispatch_pending_events_def)
qed

text \<open>
  The library trusts the handle of an event.  An event whose handle has no open container is not
  ignored: the null entry of the table is dereferenced, and a handle outside the table reads outside
  it; both while the application waits for the answer of an unrelated request.
\<close>

theorem event_for_unknown_handle_faults:
  assumes "ready n (event_wire ev @ rest) c" and "event_cost ev \<le> n" and "msg_ok (event_fields ev)"
    and "containers_inv c"
  shows "(unat (se_handle ev) < length (cn_containers c) \<and> cn_containers c ! unat (se_handle ev) = None \<longrightarrow>
            tio_receive_until_not_event c = Inl NullDereference) \<and>
         (length (cn_containers c) \<le> unat (se_handle ev) \<longrightarrow> tio_receive_until_not_event c = Inl BufferOverrun)"
proof -
  obtain m net' where m: "pr1_message_receive_from_any_cluster None None c =
        Inr (Some ((int (length (encode_fields (event_fields ev))), Some m), c\<lparr> cn_net := net' \<rparr>))"
      "pm_finds m (event_fields ev)" "ready (n - event_cost ev) rest (c\<lparr> cn_net := net' \<rparr>)"
    using receive_any_delivers [OF assms(1) [unfolded event_wire_def] assms(3)] assms(2)
    unfolding event_cost_def by blast
  let ?c = "c\<lparr> cn_net := net', total_messages_received := total_messages_received c + 1 \<rparr>"
  have len: "length (cn_containers ?c) < 2 ^ 31" using assms(4) by (simp add: containers_inv_def)
  have fault: "tio_receive_until_not_event c = Inl e"
    if "bind_res (containers_at ?c (se_handle ev)) (deref (cn_containers_heap ?c)) = Inl e" for e
  proof -
    have "on_event_receive m ?c = Inl e"
      by (rule on_event_receive_at [OF m(2) assms(3) _ _ that]) (use m(3) in \<open>simp_all add: ready_def\<close>)
    then have "receive_until_not_event c = Inl e"
      by (subst receive_until_not_event.simps)
        (use m(1) received_command_ok [OF m(2) event_fields_find(1)] in \<open>simp add: TIO_FAILED_def\<close>)
    then show ?thesis
      using assms(1) by (simp add: tio_receive_until_not_event_def check_not_on_network_batch_def ready_def)
  qed
  show ?thesis
    using fault [of NullDereference] fault [of BufferOverrun] by (auto simp: containers_at_eq [OF len])
qed


section \<open>Closing and disconnecting\<close>

lemma free_containers_dangling:
  "Some a \<in> set ps \<Longrightarrow> h a = None \<Longrightarrow> free_containers ps h = Inl DanglingPointer"
proof (induction ps arbitrary: h)
  case (Cons p ps)
  show ?case
  proof (cases p)
    case None
    then show ?thesis using Cons by simp
  next
    case (Some b)
    then show ?thesis using Cons by (cases "h b") (auto simp: deref_def)
  qed
qed simp

lemma free_containers_ok:
  "\<forall>a. Some a \<in> set ps \<longrightarrow> h a \<noteq> None \<Longrightarrow> distinct (filter (\<lambda>p. p \<noteq> None) ps) \<Longrightarrow>
   free_containers ps h = Inr (\<lambda>a. if Some a \<in> set ps then None else h a)"
proof (induction ps arbitrary: h)
  case (Cons p ps)
  show ?case
  proof (cases p)
    case None
    then show ?thesis using Cons by simp
  next
    case (Some b)
    obtain n where n: "h b = Some n" using Cons.prems(1) Some by auto
    have "free_containers ps (h(b := None)) = Inr (\<lambda>a. if Some a \<in> set ps then None else (h(b := None)) a)"
      by (rule Cons.IH) (use Cons.prems Some in auto)
    then show ?thesis using Some n by (auto simp: fun_eq_iff)
  qed
qed simp

lemma pop_all_events_ok:
  "event_list_rep c ms \<Longrightarrow> length ms < n \<Longrightarrow>
   \<exists>c'. pop_all_events n c = Inr c' \<and> event_list_rep c' [] \<and> same_app c c'"
proof (induction n arbitrary: c ms)
  case (Suc n)
  show ?case
  proof (cases ms)
    case Nil
    then show ?thesis using Suc.prems events_list_pop_empty [of c] by auto
  next
    case (Cons m ms')
    obtain c1 where c1: "events_list_pop c = Inr (Some m, c1)" "event_list_rep c1 ms'"
      using events_list_pop_rep [of c m ms'] Suc.prems(1) Cons by auto
    moreover obtain c2 where "pop_all_events n c1 = Inr c2" "event_list_rep c2 []" "same_app c1 c2"
      using Suc.IH [OF c1(2)] Suc.prems(2) Cons by auto
    moreover have "same_app c c1" using event_list_same_app(2) [OF c1(1)] by simp
    ultimately show ?thesis by (auto intro: same_app_trans)
  qed
qed simp

lemma event_list_rep_length: "event_list_rep c ms \<Longrightarrow> length ms \<le> el_fresh c"
proof -
  assume "event_list_rep c ms"
  then obtain as where as: "distinct as" "\<forall>a \<in> set as. a < el_fresh c" "length ms = length as"
    unfolding event_list_rep_def by (elim exE conjE) (rule that, simp_all)
  have "set as \<subseteq> {..<el_fresh c}" using as(2) by auto
  then have "card (set as) \<le> el_fresh c" using card_mono [of "{..<el_fresh c}" "set as"] by simp
  then show ?thesis using as(1,3) by (simp add: distinct_card)
qed

lemma event_list_rep_empty_heap: "event_list_rep c [] \<Longrightarrow> el_heap c = Map.empty"
  by (auto simp: event_list_rep_def)

lemma distinct_filter_Some:
  "(\<And>i j a. i < j \<Longrightarrow> j < length xs \<Longrightarrow> xs ! i = Some a \<Longrightarrow> xs ! j \<noteq> Some a) \<Longrightarrow>
   distinct (filter (\<lambda>p. p \<noteq> None) xs)"
proof (induction xs)
  case (Cons x xs)
  have "distinct (filter (\<lambda>p. p \<noteq> None) xs)"
  proof (rule Cons.IH)
    show "xs ! j \<noteq> Some a" if "i < j" "j < length xs" "xs ! i = Some a" for i j a
      using Cons.prems [of "Suc i" "Suc j" a] that by simp
  qed
  moreover have "Some a \<notin> set xs" if "x = Some a" for a
    using Cons.prems [of 0 _ a] that by (fastforce simp: in_set_conv_nth)
  ultimately show ?case by auto
qed simp

lemma containers_distinct:
  assumes "containers_inv c"
  shows "distinct (filter (\<lambda>p. p \<noteq> None) (cn_containers c))"
proof (rule distinct_filter_Some)
  fix i j a assume ij: "i < j" "j < length (cn_containers c)" "cn_containers c ! i = Some a"
  show "cn_containers c ! j \<noteq> Some a"
  proof
    assume "cn_containers c ! j = Some a"
    moreover have "i < length (cn_containers c)" using ij by simp
    ultimately obtain x y where "cn_containers_heap c a = Some x" "tc_handle x = of_nat i"
        "cn_containers_heap c a = Some y" "tc_handle y = of_nat j"
      using assms ij unfolding containers_inv_def by blast
    then have "of_nat i = (of_nat j :: u32)" by simp
    then have "unat (of_nat i :: u32) = unat (of_nat j :: u32)" by simp
    moreover have "j < 2 ^ 31" using assms ij(2) unfolding containers_inv_def by linarith
    ultimately show False using ij(1) unat_of_nat_u32 [of i] unat_of_nat_u32 [of j] by simp
  qed
qed


text \<open>
  A close that the server refuses leaves a dangling pointer.  \<^verbatim>\<open>tio_close\<close> returns the error of the
  server but frees the container and keeps its entry in the table: the next event for the handle
  reads the freed container, and \<^verbatim>\<open>tio_disconnect\<close> frees it a second time.
\<close>

theorem refused_close_leaves_dangling:
  assumes "ready n (wire q (error_answer e desc) @ rest) c" and "cost (error_answer e desc) \<le> n"
    and "msg_ok (error_answer e desc)" and "sint e < 0" and "length (g_last_error_description c) = 255"
    and "containers_inv c" and "open_handle c h = Some (a, ct)"
    and "cn_send_results c = sent # sends" and "0 < sent"
  shows "\<exists>c'. tio_close (Some a) c = Inr (Some (sint e, c')) \<and>
           (\<forall>m ev. pm_finds m (event_fields ev) \<and> msg_ok (event_fields ev) \<and> se_handle ev = h \<longrightarrow>
              on_event_receive m c' = Inl DanglingPointer) \<and>
           tio_disconnect c' = Inl DanglingPointer"
proof -
  let ?A = "error_answer e desc"
  let ?R = "[value_field 1 (VInt TIO_COMMAND_CLOSE), value_field 2 (VInt (tc_handle ct))]"
  have len: "length (cn_containers c) < 2 ^ 31" using assms(6) by (simp add: containers_inv_def)
  have at: "containers_at c h = Inr (Some a)" "cn_containers_heap c a = Some ct"
    using assms(7) by (auto simp: open_handle_def split: sum.splits option.splits)
  obtain m0 where m0: "pr1_message_new = Inr m0" using pr1_message_new_holds by blast
  have "length (encode_fields ?R) < 2 ^ 31 - 4096" by simp
  then obtain m1 m2 where req: "pr1_message_add_field_int m0 1 TIO_COMMAND_CLOSE = Inr m1"
      "pr1_message_add_field_int m1 2 (tc_handle ct) = Inr m2" "pm_holds m2 ?R"
    using new_message_fields [of ?R] unfolding m0 bind_res_simps
    by (auto simp: pr1_message_add_field_int_def bind_res_Inr_iff)
  let ?c = "after_send sent sends ?R c"
  have send: "pr1_message_send_and_delete m2 0 c = Inr (Some (sent, ?c))"
    by (rule send_ok [OF req(3) _ assms(8,9)]) simp
  have "answer_fields 1 ?A" using assms(3) error_answer_find(1) by (simp add: answer_fields_def)
  from receive_answer [of n "[]" q ?A rest ?c 1, OF _ _ _ this] obtain m c1 where
    m: "tio_receive_until_not_event ?c = Inr (Some ((int (length (encode_fields ?A)), Some m), c1))"
      "pm_finds m ?A" "ready (n - cost ?A) rest c1" "heard [] ?c c1"
    using assms(1,2) by auto
  have app: "same_app c c1" using m(4) unfolding heard_after_send by (simp add: heard_def)
  then have "length (g_last_error_description c1) = 255" using assms(5) by (simp add: same_app_def)
  from error_code_ok [OF m(2) this] obtain g where
    g: "response_error_code (Some m) c1 = Inr (sint e, c1\<lparr> g_last_error_description := g \<rparr>)" by blast
  let ?c' = "free_container a (c1\<lparr> g_last_error_description := g \<rparr>)"
  have close: "tio_close (Some a) c = Inr (Some (sint e, ?c'))"
    unfolding tio_close_def m0 option.case bind_res_simps
    using req send m(1) g assms(4,9) at(2) by (simp add: TIO_FAILED_def ret_io_def)
  have tab: "cn_containers ?c' = cn_containers c" "cn_containers_heap ?c' a = None"
    using app by (simp_all add: free_container_def same_app_def)
  have rep: "event_list_rep ?c' []" "max_pending_event_count ?c' = 0"
    using m(3) by (simp_all add: ready_def free_container_def event_list_rep_def)
  have "on_event_receive m' ?c' = Inl DanglingPointer"
    if "pm_finds m' (event_fields ev)" "msg_ok (event_fields ev)" "se_handle ev = h" for m' ev
    by (rule on_event_receive_at [OF that(1,2) rep]) (use at(1) tab that(3) in \<open>simp add: containers_at_def deref_def split: if_splits\<close>)
  moreover have "Some a \<in> set (cn_containers c)"
    using at(1) unfolding containers_at_eq [OF len] by (auto split: if_splits) (metis nth_mem)
  then have "free_containers (rev (cn_containers c)) (cn_containers_heap ?c') = Inl DanglingPointer"
    using tab(2) by (intro free_containers_dangling) auto
  then have "tio_disconnect ?c' = Inl DanglingPointer"
    using pop_all_events_ok [OF rep(1), of "Suc (el_fresh ?c')"] tab(1) by (auto simp: tio_disconnect_def same_app_def)
  ultimately show ?thesis using close by blast
qed


section \<open>Queries\<close>

text \<open>
  An item of a query with the events that arrive before it; an item without a key ends the query.
\<close>

type_synonym query_step = "server_event list \<times> u16 \<times> tio_value \<times> tio_value option \<times> tio_value option"

definition item_fields :: "tio_value option \<Rightarrow> tio_value option \<Rightarrow> tio_value option \<Rightarrow> pr1_field list" where
  "item_fields k v w = value_field MESSAGE_FIELD_ID_COMMAND (VInt TIO_COMMAND_QUERY_ITEM) #
     opt_field MESSAGE_FIELD_ID_KEY k @ opt_field MESSAGE_FIELD_ID_VALUE v @ opt_field MESSAGE_FIELD_ID_METADATA w"

fun step_wire :: "query_step \<Rightarrow> byte list" where
  "step_wire (evs, q, k, v, w) = concat (map event_wire evs) @ wire q (item_fields (Some k) v w)"

fun step_cost :: "query_step \<Rightarrow> nat" where
  "step_cost (evs, q, k, v, w) = sum_list (map event_cost evs) + cost (item_fields (Some k) v w)"

fun step_ok :: "tio_connection \<Rightarrow> query_step \<Rightarrow> bool" where
  "step_ok c (evs, q, k, v, w) \<longleftrightarrow> list_all (event_ok c) evs \<and> msg_ok (item_fields (Some k) v w) \<and> k \<noteq> VNone"

fun step_calls ::
    "callback \<Rightarrow> cookie \<Rightarrow> u32 \<Rightarrow> addr \<Rightarrow> byte list \<Rightarrow> tio_connection \<Rightarrow> query_step \<Rightarrow>
     (callback \<times> addr \<times> cookie \<times> u32 \<times> byte list option \<times> byte list \<times> tio_value \<times> tio_value \<times> tio_value) list" where
  "step_calls cb ck qid a name c (evs, q, k, v, w) =
     concat (map (event_calls c) evs) @ [(cb, a, ck, qid, None, name, k, opt_val v, opt_val w)]"

lemma same_app_steps:
  assumes "same_app c c'"
  shows "step_ok c' = step_ok c" and "step_calls cb ck qid a name c' = step_calls cb ck qid a name c"
proof -
  show "step_ok c' = step_ok c"
  proof
    show "step_ok c' st = step_ok c st" for st by (cases st) (simp add: event_ok_same_app [OF assms])
  qed
  show "step_calls cb ck qid a name c' = step_calls cb ck qid a name c"
  proof
    show "step_calls cb ck qid a name c' st = step_calls cb ck qid a name c st" for st
      by (cases st) (simp add: same_app_calls [OF assms])
  qed
qed

lemma item_fields_find:
  "find (\<lambda>g. (ucast (fst g) :: u32) = 1) (item_fields k v w) = Some (value_field 1 (VInt 3))"
  "find (\<lambda>g. (ucast (fst g) :: u32) = 3) (item_fields k v w) = map_option (value_field 3) k"
  "find (\<lambda>g. (ucast (fst g) :: u32) = 4) (item_fields k v w) = map_option (value_field 4) v"
  "find (\<lambda>g. (ucast (fst g) :: u32) = 5) (item_fields k v w) = map_option (value_field 5) w"
  by (simp_all add: item_fields_def split: option.split)

lemma value_none_type: "tiodata_inv d \<Longrightarrow> tiodata_value d = VNone \<longleftrightarrow> td_data_type d = TIO_DATA_TYPE_NONE"
  by (auto simp: tiodata_inv_def tiodata_value_def split: option.splits)

text \<open>One turn of the loop: the item is read, and either ends the query or is handed to the callback.\<close>

lemma query_items_turn:
  assumes rdy: "ready n (concat (map event_wire evs) @ wire q (item_fields k v w) @ rest) c"
    and ok: "list_all (event_ok c) evs" "msg_ok (item_fields k v w)"
    and n: "sum_list (map event_cost evs) + cost (item_fields k v w) \<le> n"
    and a: "cn_containers_heap c a = Some ct" and d: "inv3 d"
  shows "\<exists>r d' c1. 0 \<le> r \<and> inv3 d' \<and> ready (n - (sum_list (map event_cost evs) + cost (item_fields k v w))) rest c1 \<and>
     heard evs c c1 \<and> (case d' of (key, value, metadata) \<Rightarrow>
       tiodata_value key = opt_val k \<and> tiodata_value value = opt_val v \<and> tiodata_value metadata = opt_val w \<and>
       query_items a cb ck qid d c =
         (if opt_val k = VNone then ret_io r c1
          else query_items a cb ck qid d' (c1\<lparr> cn_calls := cn_calls c1 @
             [\<lparr> cc_callback = cb, cc_container = a, cc_cookie = ck, cc_code = qid, cc_group_name = None,
                cc_container_name = tc_name ct, cc_key = key, cc_value = value, cc_metadata = metadata \<rparr>] \<rparr>)))"
proof -
  let ?I = "item_fields k v w"
  have "answer_fields 3 ?I" using ok(2) item_fields_find(1) by (simp add: answer_fields_def)
  from receive_answer [OF rdy ok(1) n this] obtain m c1 where
    m: "tio_receive_until_not_event c = Inr (Some ((int (length (encode_fields ?I)), Some m), c1))"
      "pm_finds m ?I" "ready (n - (sum_list (map event_cost evs) + cost ?I)) rest c1" "heard evs c c1" by blast
  obtain p where p: "pr1_message_field_find_by_id m 1 = Inr (Some p)"
      "pr1_message_field_get_int (pm_block m) p = Inr 3" "is_int_field m (Some p) = Inr True"
    using find_int_field [OF m(2) item_fields_find(1)] by auto
  obtain d1 d2 d3 where d3: "d = (d1, d2, d3)" "tiodata_inv d1" "tiodata_inv d2" "tiodata_inv d3"
    using d by (cases d) (auto simp: inv3_def)
  have len: "length (encode_fields ?I) < 2 ^ 31" using ok(2) by (simp add: msg_ok_def)
  note get = get_as_tio_value_ok [OF m(2) tiodata_set_as_none_inv _ len, folded opt_val_def]
  obtain k' v' w' where f: "pr1_message_field_get_as_tio_data m 3 (tiodata_set_as_none d1) = Inr k'"
      "pr1_message_field_get_as_tio_data m 4 (tiodata_set_as_none d2) = Inr v'"
      "pr1_message_field_get_as_tio_data m 5 (tiodata_set_as_none d3) = Inr w'"
    and i: "tiodata_inv k'" "tiodata_inv v'" "tiodata_inv w'"
    and vals: "tiodata_value k' = opt_val k" "tiodata_value v' = opt_val v" "tiodata_value w' = opt_val w"
    using get [OF d3(2) item_fields_find(2)] get [OF d3(3) item_fields_find(3)] get [OF d3(4) item_fields_find(4)] by blast
  have a1: "cn_containers_heap c1 a = Some ct" using m(4) a by (simp add: heard_def same_app_def)
  have none: "td_data_type k' = TIO_DATA_TYPE_NONE \<longleftrightarrow> opt_val k = VNone" using value_none_type [OF i(1)] vals(1) by simp
  have turn: "query_items a cb ck qid d c =
      (if opt_val k = VNone then ret_io (int (length (encode_fields ?I))) c1
       else query_items a cb ck qid (k', v', w') (c1\<lparr> cn_calls := cn_calls c1 @
             [\<lparr> cc_callback = cb, cc_container = a, cc_cookie = ck, cc_code = qid, cc_group_name = None,
                cc_container_name = tc_name ct, cc_key = k', cc_value = v', cc_metadata = w' \<rparr>] \<rparr>))"
    by (subst query_items.simps) (simp add: m(1) p f d3(1) a1 none TIO_FAILED_def)
  show ?thesis
    by (rule exI [of _ "int (length (encode_fields ?I))"], rule exI [of _ "(k', v', w')"], rule exI [of _ c1])
      (use turn m(3,4) i vals in \<open>simp add: inv3_def\<close>)
qed

lemma query_items_ok:
  assumes "ready n (concat (map step_wire steps) @ concat (map event_wire evs) @ wire q (item_fields None None None) @ rest) c"
    and "list_all (step_ok c) steps" and "list_all (event_ok c) evs"
    and "sum_list (map step_cost steps) + sum_list (map event_cost evs) + cost (item_fields None None None) \<le> n"
    and "cn_containers_heap c a = Some ct" and "inv3 d"
  shows "\<exists>r c'. query_items a cb ck qid d c = Inr (Some (r, c')) \<and> 0 \<le> r \<and> nt_stream (cn_net c') = rest \<and>
     (\<exists>cs. cn_calls c' = cn_calls c @ cs \<and>
        map call_view cs = concat (map (step_calls cb ck qid a (tc_name ct) c) steps) @ concat (map (event_calls c) evs))"
  using assms
proof (induction steps arbitrary: n c d)
  case Nil
  have "msg_ok (item_fields None None None)" by (simp add: msg_ok_def item_fields_def opt_field_def)
  from query_items_turn [of n evs q None None None rest c a ct d cb ck qid, OF _ Nil.prems(3) this _ Nil.prems(5,6)]
  obtain r d' c1 where t: "0 \<le> r" "ready (n - (sum_list (map event_cost evs) + cost (item_fields None None None))) rest c1"
    "heard evs c c1" "query_items a cb ck qid d c = ret_io r c1"
    using Nil.prems(1,4) by (auto simp: opt_val_def)
  then show ?case
    by (intro exI [of _ r] exI [of _ c1]) (auto simp: ret_io_def heard_def ready_def)
next
  case (Cons st steps)
  obtain es qi k v w where st: "st = (es, qi, k, v, w)" by (cases st)
  let ?I = "item_fields (Some k) v w"
  let ?rest = "concat (map step_wire steps) @ concat (map event_wire evs) @ wire q (item_fields None None None) @ rest"
  have ok: "list_all (event_ok c) es" "msg_ok ?I" "k \<noteq> VNone" using Cons.prems(2) st by auto
  obtain r key val md c1 where t: "ready (n - (sum_list (map event_cost es) + cost ?I)) ?rest c1"
    "heard es c c1" "inv3 (key, val, md)"
    "tiodata_value key = k" "tiodata_value val = opt_val v" "tiodata_value md = opt_val w"
    "query_items a cb ck qid d c = query_items a cb ck qid (key, val, md) (c1\<lparr> cn_calls := cn_calls c1 @
             [\<lparr> cc_callback = cb, cc_container = a, cc_cookie = ck, cc_code = qid, cc_group_name = None,
                cc_container_name = tc_name ct, cc_key = key, cc_value = val, cc_metadata = md \<rparr>] \<rparr>)"
    using query_items_turn [of n es qi "Some k" v w ?rest c a ct d cb ck qid, OF _ ok(1,2) _ Cons.prems(5,6)]
      Cons.prems(1,4) ok(3) st by (auto simp: opt_val_def split: prod.splits)
  let ?x = "\<lparr> cc_callback = cb, cc_container = a, cc_cookie = ck, cc_code = qid, cc_group_name = None,
                cc_container_name = tc_name ct, cc_key = key, cc_value = val, cc_metadata = md \<rparr>"
  let ?c = "c1\<lparr> cn_calls := cn_calls c1 @ [?x] \<rparr>"
  have app: "same_app c ?c" using t(2) by (simp add: heard_def same_app_def)
  have steps: "step_ok ?c = step_ok c" "step_calls cb ck qid a (tc_name ct) ?c = step_calls cb ck qid a (tc_name ct) c"
    using same_app_steps [OF app] by simp_all
  have "ready (n - (sum_list (map event_cost es) + cost ?I)) ?rest ?c" using t(1) by (simp add: ready_def)
  moreover have "cn_containers_heap ?c a = Some ct" using app Cons.prems(5) by (simp add: same_app_def)
  moreover have "sum_list (map step_cost steps) + sum_list (map event_cost evs) + cost (item_fields None None None)
      \<le> n - (sum_list (map event_cost es) + cost ?I)" using Cons.prems(4) st by simp
  ultimately obtain r c' cs where IH: "query_items a cb ck qid (key, val, md) ?c = Inr (Some (r, c'))" "0 \<le> r"
      "nt_stream (cn_net c') = rest" "cn_calls c' = cn_calls ?c @ cs"
      "map call_view cs = concat (map (step_calls cb ck qid a (tc_name ct) c) steps) @ concat (map (event_calls c) evs)"
    using Cons.IH [of "n - (sum_list (map event_cost es) + cost ?I)" ?c "(key, val, md)"] Cons.prems(2,3) st t(3)
      steps event_ok_same_app [OF app] same_app_calls [OF app] by auto
  obtain cs1 where cs1: "cn_calls c1 = cn_calls c @ cs1" "map call_view cs1 = concat (map (event_calls c) es)"
    using t(2) by (auto simp: heard_def)
  have "map call_view (cs1 @ ?x # cs) =
      concat (map (step_calls cb ck qid a (tc_name ct) c) (st # steps)) @ concat (map (event_calls c) evs)"
    using cs1(2) IH(5) t(4-6) st by (simp add: call_view_def)
  then show ?case
    using IH t(7) cs1(1) by (intro exI [of _ r] exI [of _ c']) (auto intro!: exI [of _ "cs1 @ ?x # cs"])
qed

text \<open>The request of a query and its first answer.\<close>

definition query_request :: "u32 \<Rightarrow> u32 \<Rightarrow> u32 \<Rightarrow> pr1_field list" where
  "query_request h start stop =
     [value_field MESSAGE_FIELD_ID_COMMAND (VInt TIO_COMMAND_QUERY), value_field MESSAGE_FIELD_ID_HANDLE (VInt h),
      value_field MESSAGE_FIELD_ID_START_RECORD (VInt start), value_field MESSAGE_FIELD_ID_END (VInt stop)]"

definition query_answer :: "u32 \<Rightarrow> pr1_field list" where
  "query_answer qid = [value_field MESSAGE_FIELD_ID_COMMAND (VInt 1), value_field MESSAGE_FIELD_ID_QUERY_ID (VInt qid)]"

lemma query_answer_ok: "answer_fields 1 (query_answer qid)"
  "find (\<lambda>g. (ucast (fst g) :: u32) = 0xD) (query_answer qid) = Some (value_field 0xD (VInt qid))"
  by (simp_all add: answer_fields_def query_answer_def msg_ok_def)

lemma query_request_built:
  "\<exists>m0 m1 m2 m3 m4. pr1_message_new = Inr m0 \<and> pr1_message_add_field_int m0 1 TIO_COMMAND_QUERY = Inr m1 \<and>
     pr1_message_add_field_int m1 2 h = Inr m2 \<and> pr1_message_add_field_int m2 0xB start = Inr m3 \<and>
     pr1_message_add_field_int m3 0xC stop = Inr m4 \<and> pm_holds m4 (query_request h start stop)"
proof -
  obtain m0 where m0: "pr1_message_new = Inr m0" using pr1_message_new_holds by blast
  have "length (encode_fields (query_request h start stop)) < 2 ^ 31 - 4096" by (simp add: query_request_def)
  from new_message_fields [OF this] show ?thesis
    unfolding m0 bind_res_simps
    by (auto simp: query_request_def pr1_message_add_field_int_def bind_res_Inr_iff)
qed

text \<open>
  C23: a query delivers every item.  \<^verbatim>\<open>tio_container_query\<close> sends the handle and the range, and however
  the stream is fragmented and whatever events arrive between the items, it calls the query callback
  once for every item, in order and with its key, value and metadata, interleaved in order of arrival
  with the callbacks of the events; it ends at the first item without a key, with no error, and leaves
  the rest of the stream alone.
\<close>

theorem query_delivers_all_items:
  assumes "ready n (wire q0 (query_answer qid) @ concat (map step_wire steps) @ concat (map event_wire evs) @
             wire q (item_fields None None None) @ rest) c"
    and "list_all (step_ok c) steps" and "list_all (event_ok c) evs"
    and "cost (query_answer qid) + sum_list (map step_cost steps) + sum_list (map event_cost evs) +
           cost (item_fields None None None) \<le> n"
    and "cn_containers_heap c a = Some ct" and "cn_send_results c = sent # sends" and "0 < sent"
  shows "\<exists>r c'. tio_container_query junk a start stop None cb ck c = Inr (Some (r, c')) \<and> 0 \<le> r \<and>
     nt_stream (cn_net c') = rest \<and>
     (\<exists>cs. cn_calls c' = cn_calls c @ cs \<and>
        map call_view cs = concat (map (step_calls cb ck qid a (tc_name ct) c) steps) @ concat (map (event_calls c) evs))"
proof -
  let ?rest = "concat (map step_wire steps) @ concat (map event_wire evs) @ wire q (item_fields None None None) @ rest"
  let ?R = "query_request (tc_handle ct) start stop"
  let ?c = "after_send sent sends ?R c"
  obtain m0 m1 m2 m3 m4 where m0: "pr1_message_new = Inr m0"
    and req: "pr1_message_add_field_int m0 1 TIO_COMMAND_QUERY = Inr m1" "pr1_message_add_field_int m1 2 (tc_handle ct) = Inr m2"
      "pr1_message_add_field_int m2 0xB start = Inr m3" "pr1_message_add_field_int m3 0xC stop = Inr m4" "pm_holds m4 ?R"
    using query_request_built by blast
  have send: "pr1_message_send_and_delete m4 0 c = Inr (Some (sent, ?c))"
    by (rule send_ok [OF req(5) _ assms(6,7)]) (simp add: query_request_def)
  from receive_answer [of n "[]" q0 "query_answer qid" ?rest ?c 1, OF _ _ _ query_answer_ok(1)] obtain m c1 where
    m: "tio_receive_until_not_event ?c = Inr (Some ((int (length (encode_fields (query_answer qid))), Some m), c1))"
      "pm_finds m (query_answer qid)" "ready (n - cost (query_answer qid)) ?rest c1" "heard [] ?c c1"
    using assms(1,4) by auto
  obtain p where p: "pr1_message_field_find_by_id m 0xD = Inr (Some p)"
      "pr1_message_field_get_int (pm_block m) p = Inr qid" "is_int_field m (Some p) = Inr True"
    using find_int_field [OF m(2) query_answer_ok(2)] by auto
  have app: "same_app c c1" and calls: "cn_calls c1 = cn_calls c"
    using m(4) unfolding heard_after_send by (simp_all add: heard_def)
  have "tio_container_query junk a start stop None cb ck c =
      query_items a cb ck qid (tiodata_init, tiodata_init, tiodata_init) c1"
    unfolding tio_container_query_def m0 bind_res_simps
    using req send m(1) p assms(5,7) by (simp add: TIO_FAILED_def)
  moreover have "cn_containers_heap c1 a = Some ct" using app assms(5) by (simp add: same_app_def)
  ultimately show ?thesis
    using query_items_ok [OF m(3), of a ct "(tiodata_init, tiodata_init, tiodata_init)" cb ck qid] assms(2-4) calls
      same_app_steps [OF app] event_ok_same_app [OF app] same_app_calls [OF app] by auto
qed


section \<open>Connecting\<close>

text \<open>
  A local socket name of 256 bytes or more does not fit the buffer of \<^verbatim>\<open>tio_connect\<close>, which copies it
  with \<^verbatim>\<open>strcpy\<close>.
\<close>

lemma connect_local_name_overflows:
  assumes "0 \<le> sockfd" and "take 1 (c_str host) = c_bytes ''/''" and "length path = 256" and "256 \<le> length (c_str host)"
  shows "tio_connect sockfd resolved connected path err host port net sends = Inl BufferOverrun"
  using assms by (simp add: tio_connect_def local_endpoint_def mem_write_def)

text \<open>
  A server that closes the connection, or answers the negotiation with anything else than
  \<^verbatim>\<open>going binary\<close>, gives no connection.
\<close>

lemma connect_needs_the_negotiation:
  assumes "tio_connect sockfd resolved connected path err host port net sends = Inr (Some (result, Some r))"
  shows "result = TIO_SUCCESS \<and> take 12 (nt_stream net) = c_bytes ''going binary''"
proof -
  obtain sent ss where s: "sends = sent # ss"
    using assms by (auto simp: tio_connect_def Let_def bind_res_Inr_iff split: if_splits list.splits)
  have pos: "0 < sent"
    using assms s by (auto simp: tio_connect_def Let_def bind_res_Inr_iff socket_send_def TIO_FAILED_def split: if_splits)
  let ?net = "snd (socket_send net (c_bytes ''protocol binary'' @ [13, 10]) 17 sent)"
  obtain x where x: "socket_receive ?net (replicate 12 0) 0 12 None = Inr (Some x)"
    using assms s pos
    by (cases "socket_receive ?net (replicate 12 0) 0 12 None")
      (auto simp: tio_connect_def Let_def bind_res_Inr_iff socket_send_def TIO_FAILED_def split: if_splits option.splits)
  obtain k b net' where kb: "x = (k, b, net')" by (cases x)
  have rcv: "socket_receive ?net (replicate 12 0) 0 12 None = Inr (Some (k, c_bytes ''going binary'', net'))"
    and k: "\<not> TIO_FAILED k" and res: "result = TIO_SUCCESS"
    using assms s pos x kb
    by (auto simp: tio_connect_def Let_def bind_res_Inr_iff bind_io_Some_iff socket_send_def TIO_FAILED_def split: if_splits)
  obtain script' stream' where loop: "socket_receive_loop None 12 0 (replicate 12 0) 0 (nt_script ?net) (nt_stream ?net) =
      Inr (Some (k, c_bytes ''going binary'', script', stream'))"
    using rcv by (auto simp: socket_receive_def bind_res_Inr_iff split: option.splits)
  from socket_receive_loop_result [OF loop] k obtain bs where
    bs: "nt_stream ?net = bs @ stream'" "length bs = 12" "mem_write (replicate 12 0) 0 bs = Inr (c_bytes ''going binary'')"
    by (auto simp: TIO_FAILED_def)
  have "nt_stream ?net = nt_stream net" using pos by (simp add: socket_send_def)
  then have "nt_stream net = bs @ stream'" using bs(1) by simp
  then have "take 12 (nt_stream net) = bs" using bs(2) by (simp only: take_append) simp
  then show ?thesis using bs(2,3) res by (simp add: mem_write_def)
qed


section \<open>A connection with one container\<close>

text \<open>
  For the witnesses: container \<^verbatim>\<open>a\<close> is open under handle 3 and subscribed with callback 7; the network
  delivers one byte at a time.
\<close>

definition demo_container :: tio_container where
  "demo_container = \<lparr> tc_handle = 3, tc_event_callback = Some 7, tc_wait_and_pop_next_callback = None,
     tc_subscription_cookie = 70, tc_group_name = None, tc_name = [97], tc_wait_and_pop_next_cookie = 0 \<rparr>"

definition demo_connection :: "byte list \<Rightarrow> tio_connection" where
  "demo_connection stream =
     (tio_connection_new \<lparr> nt_script = replicate 300 \<lparr> ns_elapsed = 0, ns_select = 1, ns_available = 1 \<rparr>,
        nt_stream = stream, nt_sent = [] \<rparr> [1000] (replicate 255 0))
     \<lparr> cn_containers_heap := [0 \<mapsto> demo_container], cn_containers_fresh := 1,
       cn_containers := (replicate 64 None)[3 := Some 0] \<rparr>"

definition demo_event :: server_event where
  "demo_event = \<lparr> se_seq = 5, se_handle = 3, se_code = 0x17, se_key = None, se_value = Some (VInt 5), se_metadata = None \<rparr>"

lemma demo_ready: "n \<le> 300 \<Longrightarrow> ready n stream (demo_connection stream)"
  by (auto simp: ready_def demo_connection_def tio_connection_new_def good_step_def list_all_iff
      event_list_rep_def intro!: exI [of _ "[]"])

lemma demo_fields [simp]:
  "cn_containers_heap (demo_connection s) 0 = Some demo_container" "cn_send_results (demo_connection s) = [1000]"
  "cn_calls (demo_connection s) = []" "nt_sent (cn_net (demo_connection s)) = []"
  "g_last_error_description (demo_connection s) = replicate 255 0" "tc_handle demo_container = 3"
  "tc_name demo_container = [97]" "length (cn_containers (demo_connection s)) = 64"
  by (simp_all add: demo_connection_def demo_container_def tio_connection_new_def)

lemma demo_inv: "containers_inv (demo_connection s)"
  by (auto simp: containers_inv_def demo_connection_def tio_connection_new_def demo_container_def nth_list_update
      split: if_splits)

lemma demo_open: "open_handle (demo_connection s) 3 = Some (0, demo_container)"
  using demo_inv [of s] by (simp add: open_handle_def containers_at_eq) (simp add: demo_connection_def)

lemma demo_event_ok: "event_ok (demo_connection s) demo_event"
  by (simp add: event_ok_def demo_event_def demo_open msg_ok_def event_fields_def opt_field_def)

lemma demo_event_calls:
  "event_calls (demo_connection s) demo_event = [(7, 0, 70, 0x17, None, [97], VNone, VInt 5, VNone)]"
  by (simp add: event_calls_def demo_event_def demo_open demo_container_def opt_val_def)

lemma demo_event_cost: "event_cost demo_event = 57"
  by (simp add: event_cost_def cost_def event_fields_def demo_event_def opt_field_def)

lemma some_message: "msg_ok fs \<Longrightarrow> \<exists>m. pm_finds m fs"
  using pr1_message_from_wire_ok [of fs 0] by (auto simp: msg_ok_def)



theorem event_for_unknown_handle_faults_witness:
  "tio_receive_until_not_event (demo_connection (event_wire (demo_event\<lparr> se_handle := 4 \<rparr>) @ [])) = Inl NullDereference \<and>
   tio_receive_until_not_event (demo_connection (event_wire (demo_event\<lparr> se_handle := 64 \<rparr>) @ [])) = Inl BufferOverrun"
proof -
  have ok: "msg_ok (event_fields (demo_event\<lparr> se_handle := h \<rparr>))" "event_cost (demo_event\<lparr> se_handle := h \<rparr>) \<le> 300" for h
    by (simp_all add: msg_ok_def event_cost_def cost_def event_fields_def demo_event_def opt_field_def)
  have null: "cn_containers (demo_connection s) ! 4 = None" for s
    by (simp add: demo_connection_def)
  note t = event_for_unknown_handle_faults [OF demo_ready [of 300] ok(2) ok(1) demo_inv]
  show ?thesis using t [of 4 "[]"] t [of 64 "[]"] null by (simp add: demo_event_def)
qed

theorem register_container_correct_witness:
  "\<exists>m a ct c'. pm_finds m [value_field 1 (VInt 1), value_field 2 (VInt 64)] \<and>
     register_container m [98, 0] None (demo_connection []) = Inr ((0, Some a), c') \<and> containers_inv c' \<and>
     open_handle c' 64 = Some (a, ct) \<and> tc_name ct = [98] \<and> open_handle c' 3 = Some (0, demo_container)"
proof -
  let ?fs = "[value_field 1 (VInt 1), value_field 2 (VInt 64)]"
  obtain m where m: "pm_finds m ?fs" using some_message [of ?fs] by (auto simp: msg_ok_def)
  have "find (\<lambda>g. (ucast (fst g) :: u32) = 2) ?fs = Some (value_field 2 (VInt 64))" by simp
  from register_container_correct [OF demo_inv m this, of "[98, 0]" None] show ?thesis
    using m demo_open by (fastforce simp: c_str_def)
qed


theorem refused_close_leaves_dangling_witness:
  "\<exists>c'. tio_close (Some 0) (demo_connection (wire 0 (error_answer (- 5) [110, 111]) @ [])) = Inr (Some (- 5, c')) \<and>
     tio_disconnect c' = Inl DanglingPointer"
proof -
  let ?A = "error_answer (- 5) [110, 111]"
  have ans: "msg_ok ?A" "cost ?A \<le> 300" by (simp_all add: msg_ok_def cost_def error_answer_def)
  have e: "sint (- 5 :: u32) = - 5" by code_simp
  have "ready 300 (wire 0 ?A @ []) (demo_connection (wire 0 ?A @ []))" by (rule demo_ready) simp
  from refused_close_leaves_dangling [OF this ans(2,1) _ _ demo_inv demo_open demo_fields(2)]
  show ?thesis by (auto simp: e)
qed

theorem query_delivers_all_items_witness:
  "\<exists>r c'. tio_container_query (tiodata_init, tiodata_init, tiodata_init) 0 0 10 None 8 80
       (demo_connection (wire 0 (query_answer 1) @ concat (map step_wire [([demo_event], 0, VInt 0, Some (VInt 6), None)]) @
          concat (map event_wire []) @ wire 0 (item_fields None None None) @ [])) = Inr (Some (r, c')) \<and>
     map call_view (cn_calls c') = [(7, 0, 70, 0x17, None, [97], VNone, VInt 5, VNone),
       (8, 0, 80, 1, None, [97], VInt 0, VInt 6, VNone)]"
proof -
  let ?st = "([demo_event], 0, VInt 0, Some (VInt 6), None) :: query_step"
  let ?s = "wire 0 (query_answer 1) @ concat (map step_wire [?st]) @ concat (map event_wire []) @
     wire 0 (item_fields None None None) @ []"
  have "list_all (step_ok (demo_connection ?s)) [?st]"
    using demo_event_ok by (simp add: msg_ok_def item_fields_def opt_field_def)
  moreover have "cost (query_answer 1) + sum_list (map step_cost [?st]) + sum_list (map event_cost []) +
     cost (item_fields None None None) \<le> 300"
    by (simp add: demo_event_cost cost_def query_answer_def item_fields_def opt_field_def)
  ultimately show ?thesis
    using query_delivers_all_items [where junk = "(tiodata_init, tiodata_init, tiodata_init)" and start = 0 and
        stop = 10 and cb = 8 and ck = 80, OF demo_ready [of 300], of 0 1 "[?st]" "[]" 0 "[]", OF _ _ _ _ demo_fields(1,2)]
      demo_event_calls by (auto simp: opt_val_def)
qed

end
