(* ===== verification/TioData.thy ===== *)
theory TioData
  imports Decimal
begin

text \<open>
  The server's variant values and the index arithmetic shared by its containers
  (\<^verbatim>\<open>server/tio/Container.h\<close>): \<^verbatim>\<open>class TioData\<close> with its serialisation, \<^verbatim>\<open>NormalizeIndex\<close> and the
  query limits, \<^verbatim>\<open>VectorResultSet\<close> and \<^verbatim>\<open>ContainerRecord\<close>.  A \<^verbatim>\<open>TioData\<close> is a datatype with the
  values of the tagged union; an exception is an \<open>Inl\<close>, undefined behaviour that the code can run
  into is an error of its own.
\<close>

datatype cpp_error =
    invalid_argument string
  | runtime_error string
  | out_of_range
  | length_error
  | bad_lexical_cast
  | undefined_behaviour string
  | self_deadlock
  | assertion_failed

type_synonym 'a cpp = "cpp_error + 'a"

datatype tio_data = TNone | TInt u32 | TDouble u64 | TString "byte list"

datatype tio_type = NoneT | IntT | DoubleT | StringT | InvalidT

fun type_code :: "tio_type \<Rightarrow> u32" where
  "type_code NoneT = 0"
| "type_code IntT = 1"
| "type_code DoubleT = 2"
| "type_code StringT = 3"
| "type_code InvalidT = 4"

fun GetDataType :: "tio_data \<Rightarrow> tio_type" where
  "GetDataType TNone = NoneT"
| "GetDataType (TInt i) = IntT"
| "GetDataType (TDouble d) = DoubleT"
| "GetDataType (TString s) = StringT"

definition Empty :: "tio_data \<Rightarrow> bool" where
  "Empty d \<longleftrightarrow> GetDataType d = NoneT"

text \<open>
  Every setter replaces the value.  The setters free what the object held; a string is copied with a zero after it that is not part
  of the value.
\<close>

definition Free :: "tio_data \<Rightarrow> tio_data" where
  "Free d = TNone"

definition SetInt :: "tio_data \<Rightarrow> u32 \<Rightarrow> tio_data" where
  "SetInt d v = TInt v"

definition SetDouble :: "tio_data \<Rightarrow> u64 \<Rightarrow> tio_data" where
  "SetDouble d v = TDouble v"

definition SetRaw :: "tio_data \<Rightarrow> block \<Rightarrow> nat \<Rightarrow> tio_data cpp" where
  "SetRaw d v n =
     (if length v < n then Inl (undefined_behaviour ''read past the source'')
      else Inr (TString (take n v)))"

definition CheckDataType :: "tio_data \<Rightarrow> tio_type \<Rightarrow> unit cpp" where
  "CheckDataType d t = guard_res (GetDataType d = t) (runtime_error ''wrong data type'')"

definition AsInt :: "tio_data \<Rightarrow> int cpp" where
  "AsInt d = bind_res (CheckDataType d IntT) (\<lambda>_. case d of TInt i \<Rightarrow> Inr (sint i) | _ \<Rightarrow> Inr 0)"

text \<open>A \<^verbatim>\<open>const char*\<close> handed to a \<^verbatim>\<open>std::string\<close> ends at its first zero byte.\<close>

definition c_str :: "byte list \<Rightarrow> byte list" where
  "c_str s = takeWhile (\<lambda>c. c \<noteq> 0) s"

definition AsSz :: "tio_data \<Rightarrow> byte list cpp" where
  "AsSz d = bind_res (CheckDataType d StringT)
     (\<lambda>_. case d of TString s \<Rightarrow> Inr (c_str s) | _ \<Rightarrow> Inr [])"

definition SetSz :: "tio_data \<Rightarrow> byte list \<Rightarrow> tio_data cpp" where
  "SetSz d v = SetRaw d v (length (c_str v))"

fun GetDataTypeAsString :: "tio_data \<Rightarrow> string" where
  "GetDataTypeAsString (TInt i) = ''int''"
| "GetDataTypeAsString (TDouble d) = ''double''"
| "GetDataTypeAsString (TString s) = ''string''"
| "GetDataTypeAsString TNone = ''INTERNAL_ERROR''"

definition AsDouble :: "tio_data \<Rightarrow> u64 cpp" where
  "AsDouble d = bind_res (CheckDataType d DoubleT) (\<lambda>_. case d of TDouble x \<Rightarrow> Inr x | _ \<Rightarrow> Inr 0)"

text \<open>\<open>format_f\<close> is what \<^verbatim>\<open>std::to_string(double)\<close> gives.\<close>

fun AsString :: "(u64 \<Rightarrow> byte list) \<Rightarrow> tio_data \<Rightarrow> byte list" where
  "AsString format_f (TInt i) = dec_int (sint i)"
| "AsString format_f (TDouble d) = format_f d"
| "AsString format_f (TString s) = c_str s"
| "AsString format_f TNone = []"

fun AsRaw :: "tio_data \<Rightarrow> byte list cpp" where
  "AsRaw (TInt i) = Inr (u32_bytes i)"
| "AsRaw (TDouble d) = Inr (u64_bytes d)"
| "AsRaw (TString s) = Inr s"
| "AsRaw TNone = Inl (runtime_error ''wrong data type'')"

fun GetSize :: "tio_data \<Rightarrow> nat cpp" where
  "GetSize (TInt i) = Inr 4"
| "GetSize (TDouble d) = Inr 8"
| "GetSize (TString s) = Inr (length s)"
| "GetSize TNone = Inl (runtime_error ''wrong data type'')"

text \<open>
  \<^verbatim>\<open>CopyFrom\<close> frees the destination before it looks at the source, so the two objects are
  addresses in a store.
\<close>

definition CopyFrom :: "(nat \<Rightarrow> tio_data) \<Rightarrow> nat \<Rightarrow> nat \<Rightarrow> (nat \<Rightarrow> tio_data)" where
  "CopyFrom store this data =
     (let store = store(this := TNone) in
      if GetDataType (store data) = NoneT then store else store(this := store data))"

definition tio_data_eq :: "tio_data \<Rightarrow> tio_data \<Rightarrow> bool cpp" where
  "tio_data_eq a b =
     (if GetDataType a = NoneT then Inr (GetDataType b = NoneT)
      else if GetDataType b = NoneT then Inr False
      else if GetDataType a \<noteq> GetDataType b then Inr False
      else
        bind_res (GetSize a) (\<lambda>m.
        bind_res (GetSize b) (\<lambda>n.
          if m \<noteq> n then Inr False
          else bind_res (AsRaw a) (\<lambda>x. bind_res (AsRaw b) (\<lambda>y. Inr (x = y))))))"


section \<open>Serialisation\<close>

abbreviation (input) "SERIALIZE_HEADER_SIZE \<equiv> (8 :: nat)"

definition GetSerializedSize :: "tio_data \<Rightarrow> nat cpp" where
  "GetSerializedSize d = bind_res (GetSize d) (\<lambda>n. Inr (n + SERIALIZE_HEADER_SIZE))"

text \<open>\<open>buffer\<close> has \<^verbatim>\<open>bufferSize\<close> bytes; the result is the written size and the buffer.\<close>

definition Serialize :: "tio_data \<Rightarrow> block \<Rightarrow> (nat \<times> block) cpp" where
  "Serialize d buffer =
     bind_res (GetSerializedSize d) (\<lambda>needSize.
     bind_res (guard_res (needSize \<le> length buffer) (invalid_argument ''buffer too small'')) (\<lambda>_.
     bind_res (GetSize d) (\<lambda>rawSize.
     bind_res (AsRaw d) (\<lambda>raw.
       Inr (needSize, u32_bytes (type_code (GetDataType d)) @ u32_bytes (of_nat rawSize) @ raw @
                      drop (SERIALIZE_HEADER_SIZE + rawSize) buffer)))))"

text \<open>
  The new value of the object is returned next to the result: when the size fits but the type is
  wrong, the exception leaves the object empty.  The header is read before any check of the
  buffer's size.
\<close>

definition Deserialize :: "tio_data \<Rightarrow> block \<Rightarrow> nat cpp \<times> tio_data" where
  "Deserialize this buffer =
     (if buffer = [] then (Inr 0, TNone)
      else if length buffer < SERIALIZE_HEADER_SIZE
      then (Inl (undefined_behaviour ''header read past the buffer''), this)
      else
        let ty = bytes_u32 (take 4 buffer); n = unat (bytes_u32 (take 4 (drop 4 buffer))) in
        if length buffer < n + SERIALIZE_HEADER_SIZE
        then (Inl (invalid_argument ''incomplete buffer''), this)
        else if ty = type_code StringT
        then (Inr (n + SERIALIZE_HEADER_SIZE), TString (take n (drop 8 buffer)))
        else if ty = type_code IntT
        then (if n \<noteq> 4 then (Inl (invalid_argument ''invalid data size to int data type''), TNone)
              else (Inr (n + SERIALIZE_HEADER_SIZE), TInt (bytes_u32 (take 4 (drop 8 buffer)))))
        else if ty = type_code DoubleT
        then (if n \<noteq> 8 then (Inl (invalid_argument ''invalid data size to double data type''), TNone)
              else (Inr (n + SERIALIZE_HEADER_SIZE), TDouble (bytes_u64 (take 8 (drop 8 buffer)))))
        else (Inl (invalid_argument ''invalid data type''), TNone))"


section \<open>Indexes\<close>

text \<open>C++ \<^verbatim>\<open>int\<close> arithmetic, wrapped to 32 bits where it can leave the range.\<close>

definition wrap32 :: "int \<Rightarrow> int" where
  "wrap32 i = sint (word_of_int i :: u32)"

definition abs32 :: "int \<Rightarrow> int" where
  "abs32 i = wrap32 \<bar>i\<bar>"

definition NormalizeIndex :: "int \<Rightarrow> int \<Rightarrow> bool \<Rightarrow> nat cpp" where
  "NormalizeIndex index n checkBounds =
     (if index = 0 then Inr 0
      else
        bind_res
          (if index < 0
           then
             let index = abs32 index in
             if checkBounds \<and> n < index then Inl (invalid_argument ''out of bounds'')
             else let index = wrap32 (n - index) in Inr (if index < 0 then 0 else index)
           else if checkBounds \<and> n \<le> index then Inl (invalid_argument ''out of bounds'')
           else Inr index) (\<lambda>index.
        bind_res (guard_res (0 \<le> index) assertion_failed) (\<lambda>_. Inr (nat index))))"

definition NormalizeForQueries :: "int \<Rightarrow> int \<Rightarrow> int cpp" where
  "NormalizeForQueries index n =
     (if n = 0 \<or> (index < 0 \<and> n < abs32 index) then Inr 0
      else if n \<le> index then Inr n
      else bind_res (NormalizeIndex index n True) (\<lambda>i. Inr (int i)))"

definition NormalizeQueryLimits :: "int \<Rightarrow> int \<Rightarrow> int \<Rightarrow> (int \<times> int) cpp" where
  "NormalizeQueryLimits start en containerSize =
     bind_res (NormalizeForQueries start containerSize) (\<lambda>start.
     bind_res (if en = 0 then Inr containerSize else NormalizeForQueries en containerSize) (\<lambda>en.
       Inr (if en < start then en else start, en)))"


section \<open>Result sets\<close>

type_synonym tio_record = "tio_data \<times> tio_data \<times> tio_data"

record result_set =
  rs_items :: "tio_record list"
  rs_source :: tio_data
  rs_current :: nat

definition VectorResultSet :: "tio_record list \<Rightarrow> tio_data \<Rightarrow> result_set" where
  "VectorResultSet items source = \<lparr> rs_items = items, rs_source = source, rs_current = 0 \<rparr>"

definition rs_GetRecord :: "result_set \<Rightarrow> tio_record option" where
  "rs_GetRecord r = (if rs_current r = length (rs_items r) then None
                     else Some (rs_items r ! rs_current r))"

definition rs_MoveNext :: "result_set \<Rightarrow> bool \<times> result_set" where
  "rs_MoveNext r =
     (if rs_current r = length (rs_items r) then (False, r)
      else let r = r\<lparr> rs_current := rs_current r + 1 \<rparr> in
           (rs_current r \<noteq> length (rs_items r), r))"

definition rs_MovePrevious :: "result_set \<Rightarrow> bool \<times> result_set" where
  "rs_MovePrevious r =
     (if rs_current r = 0 then (False, r) else (True, r\<lparr> rs_current := rs_current r - 1 \<rparr>))"

definition rs_AtBegin :: "result_set \<Rightarrow> bool" where
  "rs_AtBegin r \<longleftrightarrow> rs_current r = 0"

definition rs_AtEnd :: "result_set \<Rightarrow> bool" where
  "rs_AtEnd r \<longleftrightarrow> rs_current r = length (rs_items r)"

definition rs_RecordCount :: "result_set \<Rightarrow> nat" where
  "rs_RecordCount r = length (rs_items r)"


section \<open>Container records\<close>

text \<open>\<^verbatim>\<open>boost::algorithm::split\<close> on one separator: there is always at least one part.\<close>

fun split_on :: "byte \<Rightarrow> byte list \<Rightarrow> byte list list" where
  "split_on sep [] = [[]]"
| "split_on sep (c # cs) =
     (if c = sep then [] # split_on sep cs
      else case split_on sep cs of p # ps \<Rightarrow> (c # p) # ps | [] \<Rightarrow> [[c]])"

abbreviation (input) "record_separator \<equiv> (0x5E :: byte)"

record container_record =
  cr_fields :: "byte list list"
  cr_field_names :: "byte list \<rightharpoonup> nat"

fun set_field_names :: "nat \<Rightarrow> byte list list \<Rightarrow> (byte list \<rightharpoonup> nat) \<Rightarrow> (byte list \<rightharpoonup> nat)" where
  "set_field_names a [] m = m"
| "set_field_names a (x # names) m = set_field_names (Suc a) names (m(x \<mapsto> a))"

definition SetSchema :: "container_record \<Rightarrow> byte list \<Rightarrow> container_record" where
  "SetSchema r schema =
     r\<lparr> cr_field_names := set_field_names 0 (split_on record_separator schema) (cr_field_names r) \<rparr>"

definition SetRecord :: "container_record \<Rightarrow> byte list \<Rightarrow> container_record" where
  "SetRecord r rec = r\<lparr> cr_fields := split_on record_separator rec \<rparr>"

definition GetFieldCount :: "container_record \<Rightarrow> nat" where
  "GetFieldCount r = length (cr_fields r)"

definition GetFieldAt :: "container_record \<Rightarrow> nat \<Rightarrow> byte list" where
  "GetFieldAt r index = (if length (cr_fields r) < index + 1 then [] else cr_fields r ! index)"

definition GetFieldNamed :: "container_record \<Rightarrow> byte list \<Rightarrow> byte list" where
  "GetFieldNamed r fieldName =
     (case cr_field_names r fieldName of None \<Rightarrow> [] | Some index \<Rightarrow> GetFieldAt r index)"


section \<open>Values\<close>

lemma u32_bytes_inj [simp]: "u32_bytes a = u32_bytes b \<longleftrightarrow> a = b"
  by (metis bytes_u32_u32_bytes)

lemma u64_bytes_inj [simp]: "u64_bytes a = u64_bytes b \<longleftrightarrow> a = b"
  by (metis bytes_u64_u64_bytes)

lemma word_bytes_nonempty [simp]: "u32_bytes a \<noteq> []" "u64_bytes b \<noteq> []"
  by (metis length_word_bytes(2) list.size(3) zero_neq_numeral,
      metis length_word_bytes(3) list.size(3) zero_neq_numeral)

text \<open>
  \<^verbatim>\<open>TioData::operator==\<close>, which compares type, size and raw bytes, is equality of the values
  (bit equality on doubles) and never throws.
\<close>

theorem tio_data_eq_correct: "tio_data_eq a b = Inr (a = b)"
  by (cases a; cases b) (auto simp: tio_data_eq_def)

text \<open>
  Copying between two different objects makes them equal, whatever the destination held; copying an object
  onto itself destroys its value, because the destination is freed first.
\<close>

theorem CopyFrom_correct:
  "CopyFrom store this data this = (if this = data then TNone else store data)"
  by (cases "store data") (simp_all add: CopyFrom_def Let_def)

text \<open>
  Serialising a value and deserialising the bytes gives the value back and consumes exactly
  the bytes written, for every value but the null one, which cannot be serialised.
\<close>

theorem serialize_roundtrip:
  assumes "GetSerializedSize d = Inr n" and "n < 2 ^ 32" and "n \<le> length buffer"
  shows "\<exists>b. Serialize d buffer = Inr (n, b) \<and> length b = length buffer \<and>
             Deserialize this b = (Inr n, d)"
  using assms
  by (cases d) (auto simp: Serialize_def GetSerializedSize_def Deserialize_def Let_def unat_of_nat_u32)

theorem serialize_roundtrip_witness:
  "\<exists>b. Serialize (TString [104, 105]) (replicate 16 0) = Inr (10, b) \<and>
       Deserialize TNone b = (Inr 10, TString [104, 105])"
  using serialize_roundtrip [of "TString [104, 105]" 10 "replicate 16 0" TNone]
  by (auto simp: GetSerializedSize_def)


section \<open>Index arithmetic\<close>

lemma wrap32_id: "- (2 ^ 31) \<le> i \<Longrightarrow> i < 2 ^ 31 \<Longrightarrow> wrap32 i = i"
  by (simp add: wrap32_def sint_sbintrunc' signed_take_bit_int_eq_self)

lemma wrap32_range: "- (2 ^ 31) \<le> wrap32 i \<and> wrap32 i < 2 ^ 31"
  unfolding wrap32_def using sint_ge [of "word_of_int i :: u32"] sint_lt [of "word_of_int i :: u32"]
  by simp

lemma abs32_id: "- (2 ^ 31) < i \<Longrightarrow> i < 2 ^ 31 \<Longrightarrow> abs32 i = \<bar>i\<bar>"
  unfolding abs32_def by (rule wrap32_id) auto

lemma NormalizeIndex_eq:
  assumes "0 \<le> n" and "n < 2 ^ 31" and "- (2 ^ 31) < i" and "i < 2 ^ 31"
  shows "NormalizeIndex i n True =
           (if i = 0 then Inr 0
            else if - n \<le> i \<and> i < n then Inr (nat (if i < 0 then n + i else i))
            else Inl (invalid_argument ''out of bounds''))"
proof (cases "i < 0")
  case True
  have a: "abs32 i = - i" using abs32_id [OF assms(3,4)] True by simp
  have "wrap32 (n + i) = n + i" by (rule wrap32_id) (use assms True in auto)
  with a True show ?thesis by (auto simp: NormalizeIndex_def Let_def)
next
  case False
  then show ?thesis using assms by (auto simp: NormalizeIndex_def Let_def)
qed

text \<open>
  \<^verbatim>\<open>NormalizeIndex\<close> with bounds checking implements python-like indexes: a non-zero index is
  accepted exactly when it is between \<open>-size\<close> and \<open>size - 1\<close>, negative ones count from the end;
  index zero is accepted even for an empty container.
\<close>

theorem NormalizeIndex_checked:
  assumes "0 \<le> n" and "n < 2 ^ 31" and "- (2 ^ 31) < i" and "i < 2 ^ 31"
  shows "NormalizeIndex i n True =
           (if i = 0 then Inr 0
            else if - n \<le> i \<and> i < n then Inr (nat (if i < 0 then n + i else i))
            else Inl (invalid_argument ''out of bounds''))"
  by (rule NormalizeIndex_eq [OF assms])

theorem NormalizeIndex_checked_witness:
  "NormalizeIndex (- 1) 3 True = Inr 2 \<and> NormalizeIndex 3 3 True = Inl (invalid_argument ''out of bounds'')"
  using NormalizeIndex_checked [of 3 "- 1"] NormalizeIndex_checked [of 3 3] by simp

lemma NormalizeIndex_min:
  assumes "0 \<le> n" and "n < 2 ^ 31"
  shows "NormalizeIndex (- (2 ^ 31)) n True = Inr 0"
proof -
  have "abs32 (- (2 ^ 31)) = - (2 ^ 31)" by (simp add: abs32_def wrap32_def int_word_sint)
  moreover have "wrap32 (n + 2 ^ 31) = n - 2 ^ 31"
    using assms unfolding wrap32_def int_word_sint by simp
  ultimately show ?thesis using assms by (simp add: NormalizeIndex_def Let_def)
qed

lemma NormalizeForQueries_total:
  assumes "0 \<le> n" and "n < 2 ^ 31" and "- (2 ^ 31) \<le> i" and "i < 2 ^ 31"
  shows "\<exists>k. NormalizeForQueries i n = Inr k \<and> 0 \<le> k \<and> k \<le> n"
proof (cases "i = - (2 ^ 31)")
  case True
  then show ?thesis
    using NormalizeIndex_min [OF assms(1,2)] assms(1) by (simp add: NormalizeForQueries_def)
next
  case False
  then have "- (2 ^ 31) < i" using assms(3) by simp
  from NormalizeIndex_eq [OF assms(1,2) this assms(4)] abs32_id [OF this assms(4)] assms
  show ?thesis by (auto simp: NormalizeForQueries_def)
qed

lemma NormalizeIndex_less:
  assumes "NormalizeIndex i n True = Inr k" and "0 \<le> n" and "n < 2 ^ 31"
    and "- (2 ^ 31) \<le> i" and "i < 2 ^ 31"
  shows "int k < n \<or> k = 0"
proof (cases "i = - (2 ^ 31)")
  case True
  then show ?thesis using assms NormalizeIndex_min by simp
next
  case False
  then have "- (2 ^ 31) < i" using assms(4) by simp
  with NormalizeIndex_eq [OF assms(2,3) this assms(5)] assms(1) show ?thesis
    by (auto split: if_splits)
qed

lemma AsInt_range: "AsInt d = Inr i \<Longrightarrow> - (2 ^ 31) \<le> i \<and> i < 2 ^ 31"
  using sint_ge [where ?'a = 32] sint_lt [where ?'a = 32]
  by (cases d) (auto simp: AsInt_def CheckDataType_def)

lemma AsInt_TInt [simp]: "AsInt (TInt w) = Inr (sint w)"
  by (simp add: AsInt_def CheckDataType_def)

lemma sint_of_nat_u32: "n < 2 ^ 31 \<Longrightarrow> sint (of_nat n :: u32) = int n"
  by (subst sint_u32_small) (simp_all add: unat_of_nat_u32)

lemma wrap32_nat: "n < 2 ^ 31 \<Longrightarrow> wrap32 (int n) = int n"
  by (rule wrap32_id) simp_all

lemma NormalizeQueryLimits_total:
  assumes "0 \<le> n" and "n < 2 ^ 31" and "- (2 ^ 31) \<le> s" and "s < 2 ^ 31"
    and "- (2 ^ 31) \<le> e" and "e < 2 ^ 31"
  shows "\<exists>s' e'. NormalizeQueryLimits s e n = Inr (s', e') \<and> 0 \<le> s' \<and> s' \<le> e' \<and> e' \<le> n"
proof -
  obtain a where a: "NormalizeForQueries s n = Inr a" "0 \<le> a" "a \<le> n"
    using NormalizeForQueries_total [OF assms(1-4)] by blast
  obtain b where b: "NormalizeForQueries e n = Inr b" "0 \<le> b" "b \<le> n"
    using NormalizeForQueries_total [OF assms(1,2,5,6)] by blast
  show ?thesis using a b assms(1) by (simp add: NormalizeQueryLimits_def)
qed

text \<open>
  Whatever limits a client sends (any two 32-bit integers), \<^verbatim>\<open>NormalizeQueryLimits\<close> never
  throws and gives a range inside the container: \<open>0 \<le> start \<le> end \<le> size\<close>.
\<close>

theorem NormalizeQueryLimits_bounds:
  assumes "0 \<le> n" and "n < 2 ^ 31" and "- (2 ^ 31) \<le> s" and "s < 2 ^ 31"
    and "- (2 ^ 31) \<le> e" and "e < 2 ^ 31"
  shows "\<exists>s' e'. NormalizeQueryLimits s e n = Inr (s', e') \<and> 0 \<le> s' \<and> s' \<le> e' \<and> e' \<le> n"
  by (rule NormalizeQueryLimits_total [OF assms])

theorem NormalizeQueryLimits_bounds_witness:
  "\<exists>s' e'. NormalizeQueryLimits (- 5) (- 2147483648) 3 = Inr (s', e') \<and> 0 \<le> s' \<and> s' \<le> e' \<and> e' \<le> 3"
  by (rule NormalizeQueryLimits_bounds) simp_all


section \<open>Result sets and records\<close>

text \<open>The way the sessions read a result set: take the current record, move on while possible.\<close>

fun rs_read_all :: "nat \<Rightarrow> result_set \<Rightarrow> tio_record list" where
  "rs_read_all 0 r = []"
| "rs_read_all (Suc fuel) r =
     (case rs_GetRecord r of
        None \<Rightarrow> []
      | Some x \<Rightarrow> (let (more, r') = rs_MoveNext r in x # (if more then rs_read_all fuel r' else [])))"

lemma rs_read_all_from:
  assumes "rs_current r \<le> length (rs_items r)" and "length (rs_items r) - rs_current r < fuel"
  shows "rs_read_all fuel r = drop (rs_current r) (rs_items r)"
  using assms
proof (induction fuel arbitrary: r)
  case (Suc fuel)
  show ?case
  proof (cases "rs_current r = length (rs_items r)")
    case True
    then show ?thesis by (simp add: rs_GetRecord_def)
  next
    case False
    then have lt: "rs_current r < length (rs_items r)" using Suc.prems by simp
    let ?r = "r\<lparr> rs_current := Suc (rs_current r) \<rparr>"
    have "rs_read_all fuel ?r = drop (Suc (rs_current r)) (rs_items r)"
      using Suc.IH [of ?r] Suc.prems lt by simp
    then show ?thesis
      using lt by (auto simp: rs_GetRecord_def rs_MoveNext_def Let_def Cons_nth_drop_Suc [symmetric])
  qed
qed simp

text \<open>
  Reading a result set from its start with \<^verbatim>\<open>GetRecord\<close> and \<^verbatim>\<open>MoveNext\<close> ends and gives every
  record once, in order (one more turn than there are records is enough).
\<close>

theorem result_set_enumerates:
  "rs_read_all (Suc (rs_RecordCount (VectorResultSet items source))) (VectorResultSet items source)
   = items"
  by (subst rs_read_all_from) (simp_all add: VectorResultSet_def rs_RecordCount_def)

fun join_on :: "byte \<Rightarrow> byte list list \<Rightarrow> byte list" where
  "join_on sep [] = []"
| "join_on sep [p] = p"
| "join_on sep (p # ps) = p @ sep # join_on sep ps"

lemma split_on_no_sep: "sep \<notin> set p \<Longrightarrow> split_on sep p = [p]"
  by (induction p) auto

lemma split_on_append: "sep \<notin> set p \<Longrightarrow> split_on sep (p @ sep # cs) = p # split_on sep cs"
  by (induction p) auto

lemma split_on_join_on:
  "ps \<noteq> [] \<Longrightarrow> \<forall>p \<in> set ps. sep \<notin> set p \<Longrightarrow> split_on sep (join_on sep ps) = ps"
  by (induction sep ps rule: join_on.induct) (auto simp: split_on_no_sep split_on_append)

lemma set_field_names_notin: "x \<notin> set names \<Longrightarrow> set_field_names a names m x = m x"
  by (induction names arbitrary: a m) auto

lemma set_field_names_nth:
  "distinct names \<Longrightarrow> i < length names \<Longrightarrow> set_field_names a names m (names ! i) = Some (a + i)"
proof (induction names arbitrary: a m i)
  case (Cons x names)
  then show ?case by (cases i) (auto simp: set_field_names_notin)
qed simp

text \<open>
  With a schema of distinct names, the field of a record is found under the name at its
  position, for records and schemas written with the separator \<^verbatim>\<open>^\<close>.
\<close>

theorem record_field_by_name:
  assumes "distinct names" and "names \<noteq> []" and "\<forall>p \<in> set names. record_separator \<notin> set p"
    and "values \<noteq> []" and "\<forall>p \<in> set values. record_separator \<notin> set p"
    and "i < length names"
  shows "GetFieldNamed (SetRecord (SetSchema r (join_on record_separator names))
           (join_on record_separator values)) (names ! i) =
         (if i < length values then values ! i else [])"
  using assms split_on_join_on [OF assms(2,3)] split_on_join_on [OF assms(4,5)]
  by (simp add: GetFieldNamed_def SetRecord_def SetSchema_def GetFieldAt_def set_field_names_nth
      not_less)

theorem record_field_by_name_witness:
  "GetFieldNamed (SetRecord (SetSchema \<lparr> cr_fields = [], cr_field_names = Map.empty \<rparr>
      (join_on record_separator [[97], [98]])) (join_on record_separator [[1], [2, 3]])) [98] = [2, 3]"
  using record_field_by_name [of "[[97], [98]]" "[[1], [2, 3]]" 1
      "\<lparr> cr_fields = [], cr_field_names = Map.empty \<rparr>"] by simp

end
