(* ===== verification/Storage.thy ===== *)
theory Storage
  imports TioData
begin

text \<open>
  What the storages of \<^verbatim>\<open>server/tio\<close> share (\<^verbatim>\<open>ITioStorage\<close> and the event codes of
  \<^verbatim>\<open>Container.h\<close>): the state of a storage, its events, the modifying operations, and the contract
  a subscriber relies on.  The sink of a storage is a flag and the list of the events it received.
  The locale \<open>replicated\<close> is the contract: each successful operation publishes one event, and
  replaying that event on a copy of the contents gives the new contents.  From it follows that
  a subscriber with a snapshot stays equal to the container, whatever operations run.
\<close>

datatype event_code =
    EVENT_CODE_SET | EVENT_CODE_INSERT | EVENT_CODE_DELETE | EVENT_CODE_CLEAR
  | EVENT_CODE_PUSH_BACK | EVENT_CODE_PUSH_FRONT | EVENT_CODE_SNAPSHOT_END

fun event_code_value :: "event_code \<Rightarrow> u32" where
  "event_code_value EVENT_CODE_SET = 0x14"
| "event_code_value EVENT_CODE_INSERT = 0x15"
| "event_code_value EVENT_CODE_DELETE = 0x16"
| "event_code_value EVENT_CODE_CLEAR = 0x1B"
| "event_code_value EVENT_CODE_PUSH_BACK = 0x17"
| "event_code_value EVENT_CODE_PUSH_FRONT = 0x18"
| "event_code_value EVENT_CODE_SNAPSHOT_END = 0x23"

record tio_event =
  ev_code :: event_code
  ev_key :: tio_data
  ev_value :: tio_data
  ev_metadata :: tio_data

text \<open>\<^verbatim>\<open>struct ValueAndMetadata\<close>.\<close>

type_synonym value_and_metadata = "tio_data \<times> tio_data"

record 'd storage =
  st_data :: 'd
  st_name :: string
  st_type :: string
  st_rev_num :: u64
  st_sink :: bool
  st_events :: "tio_event list"

definition storage_new :: "'d \<Rightarrow> string \<Rightarrow> string \<Rightarrow> 'd storage" where
  "storage_new d n t = \<lparr> st_data = d, st_name = n, st_type = t, st_rev_num = 0, st_sink = False,
                        st_events = [] \<rparr>"

definition UpdateRevNumAndPublish ::
    "event_code \<Rightarrow> tio_data \<Rightarrow> tio_data \<Rightarrow> tio_data \<Rightarrow> 'd storage \<Rightarrow> 'd storage" where
  "UpdateRevNumAndPublish c k v m s =
     (let s = s\<lparr> st_rev_num := st_rev_num s + 1 \<rparr> in
      if \<not> st_sink s then s
      else s\<lparr> st_events := st_events s @
                [\<lparr> ev_code = c, ev_key = k, ev_value = v, ev_metadata = m \<rparr>] \<rparr>)"

definition SetSubscriber :: "'d storage \<Rightarrow> 'd storage" where
  "SetSubscriber s = s\<lparr> st_sink := True \<rparr>"

definition RemoveSubscriber :: "'d storage \<Rightarrow> 'd storage" where
  "RemoveSubscriber s = s\<lparr> st_sink := False \<rparr>"

text \<open>
  The operations of \<^verbatim>\<open>ITioStorage\<close> that change a storage.  The output parameters of the pops may
  be null pointers; otherwise they point to the caller's current values.
\<close>

datatype storage_op =
    OpPushBack tio_data tio_data tio_data
  | OpPushFront tio_data tio_data tio_data
  | OpPopBack "tio_data option" "tio_data option" "tio_data option"
  | OpPopFront "tio_data option" "tio_data option" "tio_data option"
  | OpSet tio_data tio_data tio_data
  | OpInsert tio_data tio_data tio_data
  | OpDelete tio_data tio_data tio_data
  | OpClear

text \<open>How a subscriber that keeps its own copy replays an event.\<close>

definition event_op :: "tio_event \<Rightarrow> storage_op option" where
  "event_op e =
     (case ev_code e of
        EVENT_CODE_SET \<Rightarrow> Some (OpSet (ev_key e) (ev_value e) (ev_metadata e))
      | EVENT_CODE_INSERT \<Rightarrow> Some (OpInsert (ev_key e) (ev_value e) (ev_metadata e))
      | EVENT_CODE_DELETE \<Rightarrow> Some (OpDelete (ev_key e) (ev_value e) (ev_metadata e))
      | EVENT_CODE_CLEAR \<Rightarrow> Some OpClear
      | EVENT_CODE_PUSH_BACK \<Rightarrow> Some (OpPushBack (ev_key e) (ev_value e) (ev_metadata e))
      | EVENT_CODE_PUSH_FRONT \<Rightarrow> Some (OpPushFront (ev_key e) (ev_value e) (ev_metadata e))
      | EVENT_CODE_SNAPSHOT_END \<Rightarrow> None)"

text \<open>A server runs operation after operation; one that throws is answered with an error.\<close>

fun run_ops :: "(storage_op \<Rightarrow> 's \<Rightarrow> 's cpp) \<Rightarrow> storage_op list \<Rightarrow> 's \<Rightarrow> 's" where
  "run_ops exec [] s = s"
| "run_ops exec (op # ops) s = run_ops exec ops (case exec op s of Inl _ \<Rightarrow> s | Inr s' \<Rightarrow> s')"

fun replay_events :: "(storage_op \<Rightarrow> 's \<Rightarrow> 's cpp) \<Rightarrow> tio_event list \<Rightarrow> 's \<Rightarrow> 's cpp" where
  "replay_events exec [] s = Inr s"
| "replay_events exec (e # es) s =
     (case event_op e of
        None \<Rightarrow> replay_events exec es s
      | Some op \<Rightarrow> bind_res (exec op s) (\<lambda>s. replay_events exec es s))"

lemma replay_events_append:
  "replay_events exec (es @ fs) s = bind_res (replay_events exec es s) (replay_events exec fs)"
proof (induction es arbitrary: s)
  case (Cons e es)
  then have "replay_events exec (es @ fs) =
      (\<lambda>s. bind_res (replay_events exec es s) (replay_events exec fs))" by (rule ext)
  then show ?case by (simp add: bind_res_assoc split: option.splits)
qed simp

lemma event_op_simps [simp]:
  "event_op \<lparr> ev_code = EVENT_CODE_SET, ev_key = k, ev_value = v, ev_metadata = m \<rparr> = Some (OpSet k v m)"
  "event_op \<lparr> ev_code = EVENT_CODE_INSERT, ev_key = k, ev_value = v, ev_metadata = m \<rparr> = Some (OpInsert k v m)"
  "event_op \<lparr> ev_code = EVENT_CODE_DELETE, ev_key = k, ev_value = v, ev_metadata = m \<rparr> = Some (OpDelete k v m)"
  "event_op \<lparr> ev_code = EVENT_CODE_CLEAR, ev_key = k, ev_value = v, ev_metadata = m \<rparr> = Some OpClear"
  "event_op \<lparr> ev_code = EVENT_CODE_PUSH_BACK, ev_key = k, ev_value = v, ev_metadata = m \<rparr> = Some (OpPushBack k v m)"
  "event_op \<lparr> ev_code = EVENT_CODE_PUSH_FRONT, ev_key = k, ev_value = v, ev_metadata = m \<rparr> = Some (OpPushFront k v m)"
  by (simp_all add: event_op_def)

lemma UpdateRevNumAndPublish_simps [simp]:
  "st_data (UpdateRevNumAndPublish c k v m s) = st_data s"
  "st_rev_num (UpdateRevNumAndPublish c k v m s) = st_rev_num s + 1"
  "st_sink (UpdateRevNumAndPublish c k v m s) = st_sink s"
  "st_type (UpdateRevNumAndPublish c k v m s) = st_type s"
  "st_name (UpdateRevNumAndPublish c k v m s) = st_name s"
  "st_events (UpdateRevNumAndPublish c k v m s) = st_events s @
     (if st_sink s then [\<lparr> ev_code = c, ev_key = k, ev_value = v, ev_metadata = m \<rparr>] else [])"
  by (simp_all add: UpdateRevNumAndPublish_def Let_def)


section \<open>The contract of a replicated storage\<close>

locale replicated =
  fixes exec :: "storage_op \<Rightarrow> 'd storage \<Rightarrow> 'd storage cpp"
    and inv :: "'d \<Rightarrow> bool"
    and count :: "'d \<Rightarrow> nat"
  assumes exec_inv: "inv (st_data s) \<Longrightarrow> exec op s = Inr s' \<Longrightarrow> inv (st_data s')"
    and exec_count: "exec op s = Inr s' \<Longrightarrow> count (st_data s') \<le> Suc (count (st_data s))"
    and exec_rev: "exec op s = Inr s' \<Longrightarrow> st_rev_num s' = st_rev_num s + 1 \<and> st_sink s' = st_sink s"
    and exec_unsubscribed: "exec op s = Inr s' \<Longrightarrow> \<not> st_sink s \<Longrightarrow> st_events s' = st_events s"
    and exec_replay: "inv (st_data s) \<Longrightarrow> count (st_data s) < 2 ^ 31 - 1 \<Longrightarrow>
      exec op s = Inr s' \<Longrightarrow> st_sink s \<Longrightarrow>
      \<exists>e. st_events s' = st_events s @ [e] \<and>
        (\<forall>r. st_data r = st_data s \<longrightarrow>
           (\<exists>r'. replay_events exec [e] r = Inr r' \<and> st_data r' = st_data s'))"
begin

lemma run_ops_inv: "inv (st_data s) \<Longrightarrow> inv (st_data (run_ops exec ops s))"
  by (induction ops arbitrary: s) (auto intro: exec_inv split: sum.splits)

text \<open>The revision counts the successful operations.\<close>

lemma run_ops_rev:
  "st_rev_num (run_ops exec ops s) - st_rev_num s \<in> of_nat ` {0..length ops}"
proof (induction ops arbitrary: s)
  case (Cons op ops)
  show ?case
  proof (cases "exec op s")
    case (Inl e)
    then show ?thesis using Cons.IH [of s] by auto
  next
    case (Inr s')
    obtain k where k: "k \<le> length ops" "st_rev_num (run_ops exec ops s') - st_rev_num s' = of_nat k"
      using Cons.IH [of s'] by auto
    moreover have "st_rev_num s' = st_rev_num s + 1" using exec_rev [OF Inr] by simp
    ultimately have "st_rev_num (run_ops exec (op # ops) s) - st_rev_num s = of_nat (Suc k)"
      using Inr by (simp add: algebra_simps)
    then show ?thesis using k(1) by (intro image_eqI [where x = "Suc k"]) auto
  qed
qed auto

lemma snapshot_plus_events:
  assumes "inv (st_data s)" and "count (st_data s) + length ops < 2 ^ 31 - 1" and "st_sink s"
    and "st_data r = st_data s"
  shows "\<exists>es r'. st_events (run_ops exec ops s) = st_events s @ es \<and>
           replay_events exec es r = Inr r' \<and> st_data r' = st_data (run_ops exec ops s)"
  using assms
proof (induction ops arbitrary: s r)
  case Nil
  then show ?case by (auto intro!: exI [of _ "[]"])
next
  case (Cons op ops)
  show ?case
  proof (cases "exec op s")
    case (Inl e)
    then show ?thesis using Cons.IH [of s r] Cons.prems by auto
  next
    case (Inr s')
    have "count (st_data s) < 2 ^ 31 - 1" using Cons.prems(2) by simp
    from exec_replay [OF Cons.prems(1) this Inr Cons.prems(3)] Cons.prems(4)
    obtain e r1 where e: "st_events s' = st_events s @ [e]"
      and r1: "replay_events exec [e] r = Inr r1" "st_data r1 = st_data s'" by blast
    have c: "count (st_data s') + length ops < 2 ^ 31 - 1"
      using exec_count [OF Inr] Cons.prems(2) by simp
    have "st_sink s'" using exec_rev [OF Inr] Cons.prems(3) by simp
    from Cons.IH [OF exec_inv [OF Cons.prems(1) Inr] c this r1(2)]
    obtain es r' where "st_events (run_ops exec ops s') = st_events s' @ es"
      "replay_events exec es r1 = Inr r'" "st_data r' = st_data (run_ops exec ops s')" by blast
    moreover have "replay_events exec ([e] @ es) r = replay_events exec es r1"
      unfolding replay_events_append r1(1) by simp
    ultimately show ?thesis
      using Inr e by (intro exI [of _ "e # es"] exI [of _ r']) simp
  qed
qed

end

end
