(* ===== verification/ListStorage.thy ===== *)
theory ListStorage
  imports Storage
begin

text \<open>
  \<^verbatim>\<open>class ListStorage\<close> of \<^verbatim>\<open>server/tio/ListStorage.h\<close>, the storage of \<^verbatim>\<open>volatile_list\<close> containers:
  a \<^verbatim>\<open>std::list\<close> of values with metadata.  An iterator is its position in the list, the end
  iterator the length; using the end iterator is undefined behaviour.  The recursive mutex of the
  class makes each operation one step.
\<close>

type_synonym list_storage = "value_and_metadata list storage"

definition ls_CheckValue :: "tio_data \<Rightarrow> unit cpp" where
  "ls_CheckValue v = guard_res (\<not> Empty v) (invalid_argument ''value??'')"

definition ls_GetRecordCount :: "list_storage \<Rightarrow> nat" where
  "ls_GetRecordCount s = length (st_data s)"

text \<open>Walking an iterator one step at a time, forwards and backwards.\<close>

fun iter_forward :: "nat \<Rightarrow> nat \<Rightarrow> nat" where
  "iter_forward 0 i = i"
| "iter_forward (Suc x) i = iter_forward x (i + 1)"

fun iter_backward :: "nat \<Rightarrow> nat \<Rightarrow> nat" where
  "iter_backward 0 i = i"
| "iter_backward (Suc x) i = iter_backward x (i - 1)"

text \<open>The iterator and \<^verbatim>\<open>*realIndex\<close>.\<close>

definition ls_GetOffset :: "value_and_metadata list \<Rightarrow> tio_data \<Rightarrow> (nat \<times> nat) cpp" where
  "ls_GetOffset d key =
     bind_res (AsInt key) (\<lambda>k.
     bind_res (NormalizeIndex k (wrap32 (int (length d))) True) (\<lambda>index.
       Inr (if d = [] then length d
            else if int index \<le> wrap32 (int (length d div 2)) then iter_forward index 0
            else iter_backward (length d - index) (length d), index)))"

definition ls_deref :: "value_and_metadata list \<Rightarrow> nat \<Rightarrow> value_and_metadata cpp" where
  "ls_deref d i = (if i < length d then Inr (d ! i)
                   else Inl (undefined_behaviour ''end iterator dereferenced''))"

definition ls_PushBack :: "tio_data \<Rightarrow> tio_data \<Rightarrow> tio_data \<Rightarrow> list_storage \<Rightarrow> list_storage cpp" where
  "ls_PushBack key v m s =
     bind_res (ls_CheckValue v) (\<lambda>_.
       let s = s\<lparr> st_data := st_data s @ [(v, m)] \<rparr>;
           publishKey = TInt (of_nat (length (st_data s) - 1))
       in Inr (UpdateRevNumAndPublish EVENT_CODE_PUSH_BACK publishKey v m s))"

definition ls_PushFront :: "tio_data \<Rightarrow> tio_data \<Rightarrow> tio_data \<Rightarrow> list_storage \<Rightarrow> list_storage cpp" where
  "ls_PushFront key v m s =
     bind_res (ls_CheckValue v) (\<lambda>_.
       Inr (UpdateRevNumAndPublish EVENT_CODE_PUSH_FRONT (TInt 0) v m
              (s\<lparr> st_data := (v, m) # st_data s \<rparr>)))"

text \<open>
  The published value and metadata are the caller's variables before they are assigned.  The
  result is the three output parameters and the storage.
\<close>

definition ls_PopBack ::
    "tio_data option \<Rightarrow> tio_data option \<Rightarrow> tio_data option \<Rightarrow> list_storage \<Rightarrow>
     ((tio_data option \<times> tio_data option \<times> tio_data option) \<times> list_storage) cpp" where
  "ls_PopBack key v m s =
     bind_res (guard_res (st_data s \<noteq> []) (invalid_argument ''empty'')) (\<lambda>_.
       let data = last (st_data s);
           s = s\<lparr> st_data := butlast (st_data s) \<rparr>;
           index = TInt (of_nat (length (st_data s)));
           s = UpdateRevNumAndPublish EVENT_CODE_DELETE index
                 (case v of Some x \<Rightarrow> x | None \<Rightarrow> TNone) (case m of Some x \<Rightarrow> x | None \<Rightarrow> TNone) s
       in Inr ((map_option (\<lambda>_. index) key, map_option (\<lambda>_. fst data) v,
                map_option (\<lambda>_. snd data) m), s))"

definition ls_PopFront ::
    "tio_data option \<Rightarrow> tio_data option \<Rightarrow> tio_data option \<Rightarrow> list_storage \<Rightarrow>
     ((tio_data option \<times> tio_data option \<times> tio_data option) \<times> list_storage) cpp" where
  "ls_PopFront key v m s =
     bind_res (guard_res (st_data s \<noteq> []) (invalid_argument ''empty'')) (\<lambda>_.
       let data = hd (st_data s);
           s = s\<lparr> st_data := tl (st_data s) \<rparr>;
           index = TInt 0;
           s = UpdateRevNumAndPublish EVENT_CODE_DELETE index
                 (case v of Some x \<Rightarrow> x | None \<Rightarrow> TNone) (case m of Some x \<Rightarrow> x | None \<Rightarrow> TNone) s
       in Inr ((map_option (\<lambda>_. index) key, map_option (\<lambda>_. fst data) v,
                map_option (\<lambda>_. snd data) m), s))"

definition ls_Set :: "tio_data \<Rightarrow> tio_data \<Rightarrow> tio_data \<Rightarrow> list_storage \<Rightarrow> list_storage cpp" where
  "ls_Set key v m s =
     bind_res (ls_GetOffset (st_data s) key) (\<lambda>(i, _).
     bind_res (ls_deref (st_data s) i) (\<lambda>old.
       let s = UpdateRevNumAndPublish EVENT_CODE_SET key v m s;
           new = (if \<not> Empty v then v else fst old, if \<not> Empty m then m else snd old)
       in Inr (s\<lparr> st_data := (st_data s)[i := new] \<rparr>)))"

text \<open>\<^verbatim>\<open>size_t index\<close> is the signed key: a negative one is neither zero nor the size.\<close>

definition ls_Insert :: "tio_data \<Rightarrow> tio_data \<Rightarrow> tio_data \<Rightarrow> list_storage \<Rightarrow> list_storage cpp" where
  "ls_Insert key v m s =
     bind_res (AsInt key) (\<lambda>index.
     bind_res
       (if index = 0 then Inr ((v, m) # st_data s)
        else if index = int (length (st_data s)) then Inr (st_data s @ [(v, m)])
        else bind_res (ls_GetOffset (st_data s) key) (\<lambda>(i, _).
               Inr (take i (st_data s) @ (v, m) # drop i (st_data s)))) (\<lambda>d.
       Inr (UpdateRevNumAndPublish EVENT_CODE_INSERT key v m (s\<lparr> st_data := d \<rparr>))))"

definition ls_Delete :: "tio_data \<Rightarrow> tio_data \<Rightarrow> tio_data \<Rightarrow> list_storage \<Rightarrow> list_storage cpp" where
  "ls_Delete key v m s =
     bind_res (ls_GetOffset (st_data s) key) (\<lambda>(i, realIndex).
     bind_res (guard_res (i \<noteq> length (st_data s)) (runtime_error ''invalid index'')) (\<lambda>_.
       let realKey = TInt (of_nat realIndex);
           s = s\<lparr> st_data := take i (st_data s) @ drop (Suc i) (st_data s) \<rparr>
       in Inr (UpdateRevNumAndPublish EVENT_CODE_DELETE realKey v m s)))"

definition ls_Clear :: "list_storage \<Rightarrow> list_storage" where
  "ls_Clear s = UpdateRevNumAndPublish EVENT_CODE_CLEAR TNone TNone TNone (s\<lparr> st_data := [] \<rparr>)"

text \<open>The copy loop of \<^verbatim>\<open>Query\<close>: from one iterator to another, with the running key.\<close>

function ls_collect ::
    "value_and_metadata list \<Rightarrow> int \<Rightarrow> nat \<Rightarrow> nat \<Rightarrow> tio_record list cpp" where
  "ls_collect d key b e =
     (if b = e then Inr []
      else if length d \<le> b then Inl (undefined_behaviour ''end iterator dereferenced'')
      else bind_res (ls_deref d b) (\<lambda>(v, m).
           bind_res (ls_collect d (key + 1) (Suc b) e) (\<lambda>rest.
             Inr ((TInt (word_of_int key), v, m) # rest))))"
  by pat_completeness auto

termination by (relation "measure (\<lambda>(d, key, b, e). length d - b)") auto

declare ls_collect.simps [simp del]

definition ls_query_iterator :: "value_and_metadata list \<Rightarrow> int \<Rightarrow> nat cpp" where
  "ls_query_iterator d offset =
     (if offset = 0 then Inr 0
      else if offset = wrap32 (int (length d)) then Inr (length d)
      else bind_res (ls_GetOffset d (TInt (word_of_int offset))) (\<lambda>(i, _). Inr i))"

definition ls_Query :: "int \<Rightarrow> int \<Rightarrow> tio_data \<Rightarrow> list_storage \<Rightarrow> result_set cpp" where
  "ls_Query startOffset endOffset query s =
     bind_res (guard_res (GetDataType query = NoneT)
       (runtime_error ''query type not supported by this container'')) (\<lambda>_.
     let d = st_data s in
     bind_res
       (if d = [] then Inr (length d, length d, 0)
        else
          bind_res (NormalizeQueryLimits startOffset endOffset (wrap32 (int (length d)))) (\<lambda>(st, en).
          bind_res (ls_query_iterator d st) (\<lambda>b.
          bind_res (ls_query_iterator d en) (\<lambda>e. Inr (b, e, st))))) (\<lambda>(b, e, key).
     bind_res (ls_collect d key b e) (\<lambda>items. Inr (VectorResultSet items TNone))))"

definition ls_GetRecord :: "tio_data \<Rightarrow> list_storage \<Rightarrow> tio_record cpp" where
  "ls_GetRecord searchKey s =
     bind_res (ls_GetOffset (st_data s) searchKey) (\<lambda>(i, realIndex).
     bind_res (ls_deref (st_data s) i) (\<lambda>(v, m). Inr (TInt (of_nat realIndex), v, m)))"

text \<open>The virtual dispatch of the modifying operations.\<close>

fun ls_exec :: "storage_op \<Rightarrow> list_storage \<Rightarrow> list_storage cpp" where
  "ls_exec (OpPushBack k v m) s = ls_PushBack k v m s"
| "ls_exec (OpPushFront k v m) s = ls_PushFront k v m s"
| "ls_exec (OpPopBack k v m) s = bind_res (ls_PopBack k v m s) (\<lambda>(_, s). Inr s)"
| "ls_exec (OpPopFront k v m) s = bind_res (ls_PopFront k v m s) (\<lambda>(_, s). Inr s)"
| "ls_exec (OpSet k v m) s = ls_Set k v m s"
| "ls_exec (OpInsert k v m) s = ls_Insert k v m s"
| "ls_exec (OpDelete k v m) s = ls_Delete k v m s"
| "ls_exec OpClear s = Inr (ls_Clear s)"


section \<open>Iterators\<close>

lemma iter_forward_eq [simp]: "iter_forward x i = i + x"
  by (induction x arbitrary: i) auto

lemma iter_backward_eq [simp]: "iter_backward x i = i - x"
  by (induction x arbitrary: i) auto

lemma ls_GetOffset_eq:
  assumes "length d < 2 ^ 31"
  shows "ls_GetOffset d key =
     bind_res (AsInt key) (\<lambda>k. bind_res (NormalizeIndex k (int (length d)) True) (\<lambda>i. Inr (i, i)))"
proof (cases "AsInt key")
  case (Inr k)
  show ?thesis
  proof (cases "NormalizeIndex k (int (length d)) True")
    case (Inr i)
    from NormalizeIndex_less [OF Inr] assms AsInt_range [OF \<open>AsInt key = Inr k\<close>]
    have "i < length d \<or> i = 0" by simp
    then show ?thesis
      using Inr \<open>AsInt key = Inr k\<close> wrap32_nat [OF assms] wrap32_nat [of "length d div 2"] assms
      by (auto simp: ls_GetOffset_def)
  qed (use \<open>AsInt key = Inr k\<close> wrap32_nat [OF assms] in \<open>simp add: ls_GetOffset_def\<close>)
qed (simp add: ls_GetOffset_def)

lemma ls_GetOffset_less:
  assumes "length d < 2 ^ 31" and "ls_GetOffset d key = Inr (i, r)"
  shows "r = i \<and> (i < length d \<or> d = [] \<and> i = 0)"
proof -
  obtain k where k: "AsInt key = Inr k" and n: "NormalizeIndex k (int (length d)) True = Inr i"
    and "r = i"
    using assms(2) unfolding ls_GetOffset_eq [OF assms(1)] by (auto simp: bind_res_Inr_iff)
  with NormalizeIndex_less [OF n] AsInt_range [OF k] assms(1) show ?thesis by auto
qed

lemma ls_GetOffset_nat:
  assumes "i < length d" and "length d < 2 ^ 31"
  shows "ls_GetOffset d (TInt (of_nat i)) = Inr (i, i)"
proof -
  have "sint (of_nat i :: u32) = int i" using assms by (intro sint_of_nat_u32) simp
  moreover have "NormalizeIndex (int i) (int (length d)) True = Inr i"
    using assms NormalizeIndex_eq [of "int (length d)" "int i"] by auto
  ultimately show ?thesis by (simp add: ls_GetOffset_eq [OF assms(2)])
qed


section \<open>A list storage is replicated\<close>

lemmas ls_op_defs = ls_PushBack_def ls_PushFront_def ls_PopBack_def ls_PopFront_def ls_Set_def
  ls_Insert_def ls_Delete_def ls_Clear_def ls_CheckValue_def Let_def

lemma ls_exec_rev:
  "ls_exec op s = Inr s' \<Longrightarrow> st_rev_num s' = st_rev_num s + 1 \<and> st_sink s' = st_sink s"
  by (cases op) (auto simp: ls_op_defs bind_res_Inr_iff)

lemma ls_exec_unsubscribed:
  "ls_exec op s = Inr s' \<Longrightarrow> \<not> st_sink s \<Longrightarrow> st_events s' = st_events s"
  by (cases op) (auto simp: ls_op_defs bind_res_Inr_iff)

lemma ls_exec_count:
  "ls_exec op s = Inr s' \<Longrightarrow> length (st_data s') \<le> Suc (length (st_data s))"
proof (cases op)
  case (OpInsert k v m)
  assume "ls_exec op s = Inr s'"
  then obtain i d where "st_data s' = d"
    and d: "(if i = 0 then Inr ((v, m) # st_data s)
        else if i = int (length (st_data s)) then Inr (st_data s @ [(v, m)])
        else bind_res (ls_GetOffset (st_data s) k) (\<lambda>(i, _).
               Inr (take i (st_data s) @ (v, m) # drop i (st_data s)))) = Inr d"
    unfolding OpInsert ls_exec.simps ls_Insert_def bind_res_Inr_iff by auto
  moreover from d have "length d = Suc (length (st_data s))"
    by (cases "i = 0"; cases "i = int (length (st_data s))"; cases "ls_GetOffset (st_data s) k") auto
  ultimately show ?thesis by simp
qed (auto simp: ls_op_defs bind_res_Inr_iff)

text \<open>Deleting at a valid position on a copy of the contents.\<close>

lemma ls_replay_delete:
  assumes "i < length (st_data r)" and "length (st_data r) < 2 ^ 31"
  shows "\<exists>r'. replay_events ls_exec
           [\<lparr> ev_code = EVENT_CODE_DELETE, ev_key = TInt (of_nat i), ev_value = v, ev_metadata = m \<rparr>] r
           = Inr r' \<and> st_data r' = take i (st_data r) @ drop (Suc i) (st_data r)"
  using assms by (simp add: ls_Delete_def ls_GetOffset_nat Let_def)

lemma ls_exec_replay:
  assumes len: "length (st_data s) < 2 ^ 31 - 1" and ex: "ls_exec op s = Inr s'" and sink: "st_sink s"
  shows "\<exists>e. st_events s' = st_events s @ [e] \<and>
        (\<forall>r. st_data r = st_data s \<longrightarrow>
           (\<exists>r'. replay_events ls_exec [e] r = Inr r' \<and> st_data r' = st_data s'))"
proof (cases op)
  case (OpPopBack k v m)
  then have ne: "st_data s \<noteq> []" and s': "st_data s' = butlast (st_data s)"
    and ev: "\<exists>a b. st_events s' = st_events s @ [\<lparr> ev_code = EVENT_CODE_DELETE,
      ev_key = TInt (of_nat (length (st_data s) - 1)), ev_value = a, ev_metadata = b \<rparr>]"
    using ex sink by (auto simp: ls_PopBack_def Let_def bind_res_Inr_iff guard_res_Inr_iff)
  then obtain a b where "st_events s' = st_events s @ [\<lparr> ev_code = EVENT_CODE_DELETE,
      ev_key = TInt (of_nat (length (st_data s) - 1)), ev_value = a, ev_metadata = b \<rparr>]" by blast
  moreover have "butlast (st_data s) = take (length (st_data s) - 1) (st_data s) @
      drop (Suc (length (st_data s) - 1)) (st_data s)"
    using ne by (simp add: butlast_conv_take)
  ultimately show ?thesis
    using ls_replay_delete [of "length (st_data s) - 1" _ a b] ne len s'
    by (metis diff_less length_greater_0_conv less_numeral_extra(1) less_diff_conv add_lessD1)
next
  case (OpPopFront k v m)
  then have ne: "st_data s \<noteq> []" and s': "st_data s' = tl (st_data s)"
    and ev: "\<exists>a b. st_events s' = st_events s @ [\<lparr> ev_code = EVENT_CODE_DELETE,
      ev_key = TInt (of_nat 0), ev_value = a, ev_metadata = b \<rparr>]"
    using ex sink by (auto simp: ls_PopFront_def Let_def bind_res_Inr_iff guard_res_Inr_iff)
  then obtain a b where "st_events s' = st_events s @ [\<lparr> ev_code = EVENT_CODE_DELETE,
      ev_key = TInt (of_nat 0), ev_value = a, ev_metadata = b \<rparr>]" by blast
  moreover have "tl (st_data s) = take 0 (st_data s) @ drop (Suc 0) (st_data s)"
    using ne by (simp add: drop_Suc)
  ultimately show ?thesis
    using ls_replay_delete [of 0 _ a b] ne len s'
    by (metis length_greater_0_conv less_diff_conv add_lessD1)
next
  case (OpDelete k v m)
  obtain i j where off: "ls_GetOffset (st_data s) k = Inr (i, j)" and ne: "i \<noteq> length (st_data s)"
    and s': "st_data s' = take i (st_data s) @ drop (Suc i) (st_data s)"
    and ev: "st_events s' = st_events s @ [\<lparr> ev_code = EVENT_CODE_DELETE,
      ev_key = TInt (of_nat j), ev_value = v, ev_metadata = m \<rparr>]"
    using ex sink OpDelete
    by (auto simp: ls_Delete_def Let_def bind_res_Inr_iff guard_res_Inr_iff)
  have l: "length (st_data s) < 2 ^ 31" using len by simp
  have "j = i" "i < length (st_data s)" using ls_GetOffset_less [OF l off] ne by auto
  then show ?thesis using ls_replay_delete [of i _ v m] l ev s' by metis
next
  case (OpSet k v m)
  then show ?thesis
    using ex sink by (force simp: ls_Set_def Let_def bind_res_Inr_iff)
next
  case (OpInsert k v m)
  then obtain i where i: "AsInt k = Inr i" using ex by (auto simp: ls_Insert_def bind_res_Inr_iff)
  show ?thesis
    using ex sink OpInsert i by (force simp: ls_Insert_def bind_res_Inr_iff)
qed (use ex sink in \<open>auto simp: ls_PushBack_def ls_PushFront_def ls_Clear_def ls_CheckValue_def
       Let_def bind_res_Inr_iff\<close>)

interpretation ls: replicated ls_exec "\<lambda>_. True" length
proof (unfold_locales, goal_cases)
  case 1 show ?case by (rule TrueI)
next
  case 2 then show ?case by (rule ls_exec_count)
next
  case 3 then show ?case by (rule ls_exec_rev)
next
  case 4 then show ?case by (rule ls_exec_unsubscribed)
next
  case 5 then show ?case by (intro ls_exec_replay)
qed


section \<open>Properties\<close>



text \<open>
  The iterator walk of \<^verbatim>\<open>GetOffset\<close>, from the nearer end, always ends at the normalised index
  (the end iterator only in an empty list), so \<^verbatim>\<open>GetRecord\<close> returns the record a python list would
  give for the same index, or an exception when the index is out of bounds.
\<close>

theorem list_GetRecord_correct:
  assumes "length (st_data s) < 2 ^ 31" and "sint w \<noteq> 0" and "sint w \<noteq> - (2 ^ 31)"
  shows "ls_GetRecord (TInt w) s =
    (let n = int (length (st_data s)); k = nat (if sint w < 0 then n + sint w else sint w) in
     if - n \<le> sint w \<and> sint w < n
     then Inr (TInt (of_nat k), st_data s ! k)
     else Inl (invalid_argument ''out of bounds''))"
proof -
  have r: "- (2 ^ 31) < sint w" "sint w < 2 ^ 31"
    using sint_ge [of w] sint_lt [of w] assms(3) by simp_all
  note eq = NormalizeIndex_eq [OF _ _ r, of "int (length (st_data s))"]
  show ?thesis
  proof (cases "- int (length (st_data s)) \<le> sint w \<and> sint w < int (length (st_data s))")
    case True
    let ?k = "nat (if sint w < 0 then int (length (st_data s)) + sint w else sint w)"
    have "?k < length (st_data s)" using True assms(2) by auto
    then show ?thesis
      using True assms eq
      by (auto simp: ls_GetRecord_def ls_GetOffset_eq [OF assms(1)] ls_deref_def Let_def
          split: prod.splits)
  next
    case False
    then show ?thesis
      using assms eq by (auto simp: ls_GetRecord_def ls_GetOffset_eq [OF assms(1)] Let_def)
  qed
qed

theorem list_GetRecord_correct_witness:
  "ls_GetRecord (TInt (- 1)) (storage_new [(TInt 7, TNone), (TInt 8, TNone)] ''l'' ''volatile_list'') =
     Inr (TInt 1, TInt 8, TNone)"
proof -
  have "sint (- 1 :: u32) = - 1" by simp
  then show ?thesis
    using list_GetRecord_correct [of "storage_new [(TInt 7, TNone), (TInt 8, TNone)] ''l'' ''volatile_list''" "- 1"]
    by (simp add: storage_new_def)
qed

text \<open>
  Index zero passes the bounds check of an empty list, and \<^verbatim>\<open>GetRecord\<close> and \<^verbatim>\<open>Set\<close> then use the
  end iterator; only \<^verbatim>\<open>Delete\<close> tests for it and throws.
\<close>

theorem list_empty_index_zero:
  assumes "st_data s = []"
  shows "ls_GetRecord (TInt 0) s = Inl (undefined_behaviour ''end iterator dereferenced'') \<and>
         ls_Set (TInt 0) v m s = Inl (undefined_behaviour ''end iterator dereferenced'') \<and>
         ls_Delete (TInt 0) v m s = Inl (runtime_error ''invalid index'')"
  using assms
  by (simp add: ls_GetRecord_def ls_Set_def ls_Delete_def ls_GetOffset_def NormalizeIndex_def ls_deref_def)

theorem list_empty_index_zero_witness:
  "ls_Set (TInt 0) (TInt 1) TNone (storage_new [] ''l'' ''volatile_list'') =
     Inl (undefined_behaviour ''end iterator dereferenced'')"
  using list_empty_index_zero [of "storage_new [] ''l'' ''volatile_list''" "TInt 1" TNone]
  by (simp add: storage_new_def)

lemma ls_collect_range:
  assumes "b \<le> e" and "e \<le> length d" and "key = int b" and "e < 2 ^ 31"
  shows "ls_collect d key b e = Inr (map (\<lambda>i. (TInt (of_nat i), d ! i)) [b..<e])"
  using assms
proof (induction "e - b" arbitrary: b key)
  case 0
  then show ?case by (simp add: ls_collect.simps)
next
  case (Suc n)
  then have lt: "b < e" "b < length d" by auto
  have "ls_collect d (key + 1) (Suc b) e = Inr (map (\<lambda>i. (TInt (of_nat i), d ! i)) [Suc b..<e])"
    by (rule Suc.hyps(1)) (use Suc lt in auto)
  then show ?case
    using lt Suc.prems(3)
    by (subst ls_collect.simps)
      (auto simp: ls_deref_def upt_conv_Cons [of b e] simp del: upt.simps split: prod.splits)
qed

lemma ls_query_iterator_nat:
  assumes "0 \<le> o'" and "o' \<le> int (length d)" and "length d < 2 ^ 31"
  shows "ls_query_iterator d o' = Inr (nat o')"
proof (cases "o' = 0 \<or> o' = int (length d)")
  case True
  then show ?thesis using wrap32_nat [OF assms(3)] by (auto simp: ls_query_iterator_def)
next
  case False
  then have "nat o' < length d" using assms by auto
  from ls_GetOffset_nat [OF this assms(3)] show ?thesis
    using False assms wrap32_nat [OF assms(3)] by (simp add: ls_query_iterator_def)
qed

text \<open>
  A query of a list container never fails for a null query text: it gives exactly the records
  at the positions from the normalised start to the normalised end, each with its index as key.
\<close>

theorem list_Query_correct:
  assumes "length (st_data s) < 2 ^ 31" and "- (2 ^ 31) \<le> a" and "a < 2 ^ 31"
    and "- (2 ^ 31) \<le> b" and "b < 2 ^ 31"
  shows "\<exists>i j r. NormalizeQueryLimits a b (int (length (st_data s))) = Inr (i, j) \<and>
           ls_Query a b TNone s = Inr r \<and>
           rs_items r = map (\<lambda>k. (TInt (of_nat k), st_data s ! k)) [nat i..<nat j]"
proof -
  let ?n = "int (length (st_data s))"
  obtain i j where lim: "NormalizeQueryLimits a b ?n = Inr (i, j)" and "0 \<le> i" "i \<le> j" "j \<le> ?n"
    using NormalizeQueryLimits_total [OF _ _ assms(2-5), of ?n] assms(1) by auto
  then have c: "ls_collect (st_data s) i (nat i) (nat j) =
      Inr (map (\<lambda>k. (TInt (of_nat k), st_data s ! k)) [nat i..<nat j])"
    using assms(1) by (intro ls_collect_range) auto
  show ?thesis
  proof (cases "st_data s = []")
    case True
    then have "nat i = 0" "nat j = 0" using \<open>0 \<le> i\<close> \<open>i \<le> j\<close> \<open>j \<le> ?n\<close> by auto
    moreover have "ls_Query a b TNone s = Inr (VectorResultSet [] TNone)"
      using True by (simp add: ls_Query_def ls_collect.simps)
    ultimately show ?thesis using lim by (auto simp: VectorResultSet_def)
  next
    case False
    have "ls_Query a b TNone s =
        Inr (VectorResultSet (map (\<lambda>k. (TInt (of_nat k), st_data s ! k)) [nat i..<nat j]) TNone)"
      using False lim c \<open>0 \<le> i\<close> \<open>i \<le> j\<close> \<open>j \<le> ?n\<close> wrap32_nat [OF assms(1)] assms(1)
      by (simp add: ls_Query_def Let_def ls_query_iterator_nat)
    then show ?thesis using lim by (auto simp: VectorResultSet_def)
  qed
qed

theorem list_Query_correct_witness:
  "\<exists>i j r. NormalizeQueryLimits (- 2) 0 3 = Inr (i, j) \<and>
     ls_Query (- 2) 0 TNone (storage_new [(TInt 7, TNone), (TInt 8, TNone), (TInt 9, TNone)] ''l'' ''volatile_list'') = Inr r \<and>
     rs_items r = map (\<lambda>k. (TInt (of_nat k), [(TInt 7, TNone), (TInt 8, TNone), (TInt 9, TNone)] ! k)) [nat i..<nat j]"
  using list_Query_correct [of "storage_new [(TInt 7, TNone), (TInt 8, TNone), (TInt 9, TNone)] ''l'' ''volatile_list''" "- 2" 0]
  by (simp add: storage_new_def)

end
