(* ===== verification/VectorStorage.thy ===== *)
theory VectorStorage
  imports Storage
begin

text \<open>
  \<^verbatim>\<open>class VectorStorage\<close> of \<^verbatim>\<open>server/tio/VectorStorage.h\<close>, the storage of \<^verbatim>\<open>volatile_vector\<close>
  containers.  Its mutex is a plain \<^verbatim>\<open>std::mutex\<close>, which the thread that holds it cannot lock
  again, so the mutex is part of the state and a second lock is the result \<open>self_deadlock\<close>.
\<close>

record vector_storage = "value_and_metadata list storage" +
  vs_locked :: bool

definition VectorStorage_new :: "string \<Rightarrow> string \<Rightarrow> vector_storage" where
  "VectorStorage_new n t =
     \<lparr> st_data = [], st_name = n, st_type = t, st_rev_num = 0, st_sink = False, st_events = [],
       vs_locked = False \<rparr>"

definition vs_lock :: "vector_storage \<Rightarrow> vector_storage cpp" where
  "vs_lock s = (if vs_locked s then Inl self_deadlock else Inr (s\<lparr> vs_locked := True \<rparr>))"

definition vs_unlock :: "vector_storage \<Rightarrow> vector_storage" where
  "vs_unlock s = s\<lparr> vs_locked := False \<rparr>"

text \<open>A \<^verbatim>\<open>lock_guard\<close> block: the mutex is released at its end and when it throws.\<close>

definition vs_guarded :: "(vector_storage \<Rightarrow> ('a \<times> vector_storage) cpp) \<Rightarrow> vector_storage \<Rightarrow>
    ('a \<times> vector_storage) cpp" where
  "vs_guarded body s =
     bind_res (vs_lock s) (\<lambda>s. bind_res (body s) (\<lambda>(x, s). Inr (x, vs_unlock s)))"

definition vs_Publish ::
    "event_code \<Rightarrow> tio_data \<Rightarrow> tio_data \<Rightarrow> tio_data \<Rightarrow> vector_storage \<Rightarrow> vector_storage cpp" where
  "vs_Publish c k v m s =
     bind_res (vs_guarded (\<lambda>s. Inr (st_sink s, s)) s) (\<lambda>(sink, s).
       Inr (if \<not> sink then s
            else s\<lparr> st_events := st_events s @
                      [\<lparr> ev_code = c, ev_key = k, ev_value = v, ev_metadata = m \<rparr>] \<rparr>))"

definition vs_GetRecordNumber :: "vector_storage \<Rightarrow> tio_data \<Rightarrow> nat cpp" where
  "vs_GetRecordNumber s key =
     bind_res (AsInt key) (\<lambda>index.
       if index < 0
       then if wrap32 (int (length (st_data s))) < wrap32 (- index)
            then Inl (invalid_argument ''invalid subscript'')
            else Inr (nat (int (length (st_data s)) + index))
       else Inr (nat index))"

text \<open>\<^verbatim>\<open>data_.at\<close> throws outside the vector.\<close>

definition vs_GetInternalRecord :: "vector_storage \<Rightarrow> tio_data \<Rightarrow> value_and_metadata cpp" where
  "vs_GetInternalRecord s key =
     bind_res (vs_GetRecordNumber s key) (\<lambda>i.
       if i < length (st_data s) then Inr (st_data s ! i) else Inl out_of_range)"

definition vs_CheckValue :: "tio_data \<Rightarrow> unit cpp" where
  "vs_CheckValue v = guard_res (\<not> Empty v) (invalid_argument ''value??'')"

definition vs_GetRecordCount :: "vector_storage \<Rightarrow> (nat \<times> vector_storage) cpp" where
  "vs_GetRecordCount s = vs_guarded (\<lambda>s. Inr (length (st_data s), s)) s"

definition vs_GetRevNum :: "vector_storage \<Rightarrow> (u64 \<times> vector_storage) cpp" where
  "vs_GetRevNum s = vs_guarded (\<lambda>s. Inr (st_rev_num s, s)) s"

definition vs_GetRecord :: "tio_data \<Rightarrow> vector_storage \<Rightarrow> (tio_record \<times> vector_storage) cpp" where
  "vs_GetRecord searchKey s =
     vs_guarded (\<lambda>s. bind_res (vs_GetInternalRecord s searchKey) (\<lambda>(v, m). Inr ((searchKey, v, m), s))) s"

definition vs_PushBack :: "tio_data \<Rightarrow> tio_data \<Rightarrow> tio_data \<Rightarrow> vector_storage \<Rightarrow> vector_storage cpp" where
  "vs_PushBack key v m s =
     bind_res (vs_CheckValue v) (\<lambda>_.
     bind_res (vs_guarded (\<lambda>s. Inr ((), s\<lparr> st_data := st_data s @ [(v, m)] \<rparr>)) s) (\<lambda>(_, s).
       vs_Publish EVENT_CODE_INSERT (TInt (of_nat (length (st_data s) - 1))) v m s))"

definition vs_PushFront :: "tio_data \<Rightarrow> tio_data \<Rightarrow> tio_data \<Rightarrow> vector_storage \<Rightarrow> vector_storage cpp" where
  "vs_PushFront key v m s =
     bind_res (vs_CheckValue v) (\<lambda>_.
     bind_res (vs_guarded (\<lambda>s. Inr ((), s\<lparr> st_data := (v, m) # st_data s \<rparr>)) s) (\<lambda>(_, s).
       vs_Publish EVENT_CODE_INSERT (TInt 0) v m s))"

text \<open>\<^verbatim>\<open>_Pop\<close>: assign the outputs, then erase the position.\<close>

definition vs_Pop ::
    "nat \<Rightarrow> tio_data option \<Rightarrow> tio_data option \<Rightarrow> vector_storage \<Rightarrow>
     ((tio_data option \<times> tio_data option) \<times> vector_storage) cpp" where
  "vs_Pop i v m s =
     (let data = st_data s ! i in
      Inr ((map_option (\<lambda>_. fst data) v, map_option (\<lambda>_. snd data) m),
           s\<lparr> st_data := take i (st_data s) @ drop (Suc i) (st_data s) \<rparr>))"

definition or_null :: "tio_data option \<Rightarrow> tio_data" where
  "or_null x = (case x of Some d \<Rightarrow> d | None \<Rightarrow> TNone)"

definition vs_PopBack ::
    "tio_data option \<Rightarrow> tio_data option \<Rightarrow> tio_data option \<Rightarrow> vector_storage \<Rightarrow>
     ((tio_data option \<times> tio_data option \<times> tio_data option) \<times> vector_storage) cpp" where
  "vs_PopBack key v m s =
     bind_res (guard_res (st_data s \<noteq> []) (invalid_argument ''empty'')) (\<lambda>_.
     let key = map_option (\<lambda>_. TInt (of_nat (length (st_data s) - 1))) key in
     bind_res (vs_guarded (\<lambda>s. vs_Pop (length (st_data s) - 1) v m s) s) (\<lambda>((v, m), s).
     bind_res (vs_Publish EVENT_CODE_DELETE (or_null key) (or_null v) (or_null m) s) (\<lambda>s.
       Inr ((key, v, m), s))))"

definition vs_PopFront ::
    "tio_data option \<Rightarrow> tio_data option \<Rightarrow> tio_data option \<Rightarrow> vector_storage \<Rightarrow>
     ((tio_data option \<times> tio_data option \<times> tio_data option) \<times> vector_storage) cpp" where
  "vs_PopFront key v m s =
     bind_res (guard_res (st_data s \<noteq> []) (invalid_argument ''empty'')) (\<lambda>_.
     bind_res (vs_guarded (\<lambda>s. vs_Pop 0 v m s) s) (\<lambda>((v, m), s).
     bind_res (vs_Publish EVENT_CODE_DELETE (TInt 0) (or_null v) (or_null m) s) (\<lambda>s.
       Inr ((key, v, m), s))))"

definition vs_Set :: "tio_data \<Rightarrow> tio_data \<Rightarrow> tio_data \<Rightarrow> vector_storage \<Rightarrow> vector_storage cpp" where
  "vs_Set key v m s =
     bind_res (vs_CheckValue v) (\<lambda>_.
     bind_res (vs_guarded (\<lambda>s.
         bind_res (vs_GetRecordNumber s key) (\<lambda>i.
         bind_res (guard_res (i < length (st_data s)) out_of_range) (\<lambda>_.
           Inr ((), s\<lparr> st_data := (st_data s)[i := (v, m)] \<rparr>)))) s) (\<lambda>(_, s).
       vs_Publish EVENT_CODE_SET key v m s))"

definition vs_Insert :: "tio_data \<Rightarrow> tio_data \<Rightarrow> tio_data \<Rightarrow> vector_storage \<Rightarrow> vector_storage cpp" where
  "vs_Insert key v m s =
     bind_res (vs_CheckValue v) (\<lambda>_.
     bind_res (vs_guarded (\<lambda>s.
         bind_res (vs_GetRecordNumber s key) (\<lambda>i.
         bind_res (vs_GetRecord key s) (\<lambda>(_, s).
           Inr ((), s\<lparr> st_data := take i (st_data s) @ (v, m) # drop i (st_data s) \<rparr>)))) s) (\<lambda>(_, s).
       vs_Publish EVENT_CODE_INSERT key v m s))"

definition vs_Delete :: "tio_data \<Rightarrow> tio_data \<Rightarrow> tio_data \<Rightarrow> vector_storage \<Rightarrow> vector_storage cpp" where
  "vs_Delete key v m s =
     bind_res (vs_GetRecordNumber s key) (\<lambda>i.
     bind_res (vs_guarded (\<lambda>s.
         bind_res (vs_GetRecord key s) (\<lambda>(_, s).
           Inr ((), s\<lparr> st_data := take i (st_data s) @ drop (Suc i) (st_data s) \<rparr>))) s) (\<lambda>(_, s).
       vs_Publish EVENT_CODE_DELETE key v m s))"

definition vs_Clear :: "vector_storage \<Rightarrow> vector_storage cpp" where
  "vs_Clear s =
     bind_res (vs_guarded (\<lambda>s. Inr ((), s\<lparr> st_data := [] \<rparr>)) s) (\<lambda>(_, s).
       vs_Publish EVENT_CODE_CLEAR TNone TNone TNone s)"

text \<open>
  The loop copies \<^verbatim>\<open>data_[key]\<close> until \<open>key\<close> reaches the end offset; it is over when \<open>n\<close> steps
  separate them, and an access outside the vector is undefined.
\<close>

fun vs_collect :: "value_and_metadata list \<Rightarrow> int \<Rightarrow> nat \<Rightarrow> tio_record list cpp" where
  "vs_collect d key 0 = Inr []"
| "vs_collect d key (Suc n) =
     (if key < 0 \<or> int (length d) \<le> key then Inl (undefined_behaviour ''vector subscript'')
      else bind_res (vs_collect d (key + 1) n) (\<lambda>rest.
             Inr ((TInt (word_of_int key), d ! nat key) # rest)))"

definition vs_Query :: "int \<Rightarrow> int \<Rightarrow> tio_data \<Rightarrow> vector_storage \<Rightarrow> (result_set \<times> vector_storage) cpp" where
  "vs_Query startOffset endOffset query s =
     bind_res (guard_res (GetDataType query = NoneT)
       (runtime_error ''query type not supported by this container'')) (\<lambda>_.
     vs_guarded (\<lambda>s.
       bind_res (vs_GetRecordCount s) (\<lambda>(n, s).
       bind_res
         (if n = 0 then Inr ((0, endOffset), s)
          else bind_res (vs_GetRecordCount s) (\<lambda>(n, s).
               bind_res (NormalizeQueryLimits startOffset endOffset (wrap32 (int n))) (\<lambda>l. Inr (l, s))))
         (\<lambda>((st, en), s).
            bind_res (if en < st then Inl length_error
                      else vs_collect (st_data s) st (nat (en - st))) (\<lambda>items.
              Inr (VectorResultSet items TNone, s))))) s)"

definition vs_SetSubscriber :: "vector_storage \<Rightarrow> vector_storage cpp" where
  "vs_SetSubscriber s = bind_res (vs_guarded (\<lambda>s. Inr ((), s\<lparr> st_sink := True \<rparr>)) s) (\<lambda>(_, s). Inr s)"

definition vs_RemoveSubscriber :: "vector_storage \<Rightarrow> vector_storage cpp" where
  "vs_RemoveSubscriber s = bind_res (vs_guarded (\<lambda>s. Inr ((), s\<lparr> st_sink := False \<rparr>)) s) (\<lambda>(_, s). Inr s)"

fun vs_exec :: "storage_op \<Rightarrow> vector_storage \<Rightarrow> vector_storage cpp" where
  "vs_exec (OpPushBack k v m) s = vs_PushBack k v m s"
| "vs_exec (OpPushFront k v m) s = vs_PushFront k v m s"
| "vs_exec (OpPopBack k v m) s = bind_res (vs_PopBack k v m s) (\<lambda>(_, s). Inr s)"
| "vs_exec (OpPopFront k v m) s = bind_res (vs_PopFront k v m s) (\<lambda>(_, s). Inr s)"
| "vs_exec (OpSet k v m) s = vs_Set k v m s"
| "vs_exec (OpInsert k v m) s = vs_Insert k v m s"
| "vs_exec (OpDelete k v m) s = vs_Delete k v m s"
| "vs_exec OpClear s = vs_Clear s"


section \<open>Locking\<close>

lemma vs_guarded_free [simp]:
  "\<not> vs_locked s \<Longrightarrow> vs_guarded body s =
     bind_res (body (s\<lparr> vs_locked := True \<rparr>)) (\<lambda>(x, s). Inr (x, vs_unlock s))"
  by (simp add: vs_guarded_def vs_lock_def)

lemma vs_guarded_held [simp]: "vs_locked s \<Longrightarrow> vs_guarded body s = Inl self_deadlock"
  by (simp add: vs_guarded_def vs_lock_def)

lemmas vs_op_defs = vs_PushBack_def vs_PushFront_def vs_PopBack_def vs_PopFront_def vs_Set_def
  vs_Insert_def vs_Delete_def vs_Clear_def vs_Publish_def vs_Pop_def vs_unlock_def
  vs_CheckValue_def vs_GetRecord_def

text \<open>
  On a free vector storage, \<^verbatim>\<open>Insert\<close> and \<^verbatim>\<open>Delete\<close> with an accepted integer key and every
  \<^verbatim>\<open>Query\<close> lock the non-recursive mutex twice in the same thread and never return.
\<close>

theorem vector_self_deadlock:
  assumes "\<not> vs_locked s" and "vs_GetRecordNumber s key = Inr i" and "\<not> Empty v"
  shows "vs_Insert key v m s = Inl self_deadlock \<and> vs_Delete key w m s = Inl self_deadlock \<and>
         vs_Query a b TNone s = Inl self_deadlock"
proof -
  have "st_data (s\<lparr> vs_locked := True \<rparr>) = st_data s" by simp
  then have "vs_GetRecordNumber (s\<lparr> vs_locked := True \<rparr>) key = Inr i"
    using assms(2) by (simp only: vs_GetRecordNumber_def)
  then show ?thesis
    using assms by (simp add: vs_Insert_def vs_Delete_def vs_Query_def vs_CheckValue_def
        vs_GetRecord_def vs_GetRecordCount_def)
qed

theorem vector_self_deadlock_witness:
  "vs_Insert (TInt 0) (TInt 1) TNone (VectorStorage_new ''v'' ''volatile_vector'') = Inl self_deadlock \<and>
   vs_Delete (TInt 0) TNone TNone (VectorStorage_new ''v'' ''volatile_vector'') = Inl self_deadlock \<and>
   vs_Query 0 0 TNone (VectorStorage_new ''v'' ''volatile_vector'') = Inl self_deadlock"
  using vector_self_deadlock [of "VectorStorage_new ''v'' ''volatile_vector''" "TInt 0" 0 "TInt 1" TNone TNone 0 0]
  by (simp add: VectorStorage_new_def vs_GetRecordNumber_def Empty_def)

text \<open>
  The other modifying operations leave the mutex free and act as on a list: pushes add at
  their end, pops remove and return the end element, \<^verbatim>\<open>Clear\<close> empties the vector; the revision number
  is never advanced.
\<close>

theorem vector_push_pop:
  assumes "\<not> vs_locked s" and "\<not> Empty v"
  shows "\<exists>s1 s2. vs_PushBack k v m s = Inr s1 \<and> st_data s1 = st_data s @ [(v, m)] \<and>
           vs_PopBack key (Some w) (Some x) s1 =
             Inr ((map_option (\<lambda>_. TInt (of_nat (length (st_data s)))) key, Some v, Some m), s2) \<and>
           st_data s2 = st_data s \<and> \<not> vs_locked s2 \<and> st_rev_num s2 = st_rev_num s"
  using assms by (auto simp: vs_op_defs Let_def guard_res_def nth_append)

theorem vector_push_pop_witness:
  "\<exists>s1 s2. vs_PushBack TNone (TInt 4) TNone (VectorStorage_new ''v'' ''volatile_vector'') = Inr s1 \<and>
     vs_PopBack None (Some TNone) (Some TNone) s1 = Inr ((None, Some (TInt 4), Some TNone), s2) \<and>
     st_data s2 = []"
  using vector_push_pop [of "VectorStorage_new ''v'' ''volatile_vector''" "TInt 4" TNone TNone None TNone TNone]
  by (auto simp: VectorStorage_new_def Empty_def)

end
