(* ===== verification/StdMap.thy ===== *)
theory StdMap
  imports Prelude
begin

text \<open>
  \<^verbatim>\<open>std::map\<close> as the server uses it: an association list sorted by its keys.  The locale
  \<open>ordered_map\<close> states the laws the containers rely on (a lookup after an update, iteration in key
  order); the sorted list is its interpretation.
\<close>

fun sm_find :: "'k \<Rightarrow> ('k \<times> 'v) list \<Rightarrow> 'v option" where
  "sm_find k [] = None"
| "sm_find k ((a, x) # m) = (if a = k then Some x else sm_find k m)"

fun sm_set :: "'k :: linorder \<Rightarrow> 'v \<Rightarrow> ('k \<times> 'v) list \<Rightarrow> ('k \<times> 'v) list" where
  "sm_set k v [] = [(k, v)]"
| "sm_set k v ((a, x) # m) =
     (if k < a then (k, v) # (a, x) # m
      else if k = a then (a, v) # m
      else (a, x) # sm_set k v m)"

fun sm_erase :: "'k \<Rightarrow> ('k \<times> 'v) list \<Rightarrow> ('k \<times> 'v) list" where
  "sm_erase k [] = []"
| "sm_erase k ((a, x) # m) = (if a = k then m else (a, x) # sm_erase k m)"

definition sm_inv :: "('k :: linorder \<times> 'v) list \<Rightarrow> bool" where
  "sm_inv m \<longleftrightarrow> sorted_wrt (<) (map fst m)"


section \<open>The laws of an ordered map\<close>

locale ordered_map =
  fixes empty :: 'm
    and find :: "'k :: linorder \<Rightarrow> 'm \<Rightarrow> 'v option"
    and set_at :: "'k \<Rightarrow> 'v \<Rightarrow> 'm \<Rightarrow> 'm"
    and erase :: "'k \<Rightarrow> 'm \<Rightarrow> 'm"
    and items :: "'m \<Rightarrow> ('k \<times> 'v) list"
    and inv :: "'m \<Rightarrow> bool"
  assumes empty_inv: "inv empty" and empty_items: "items empty = []"
    and set_inv: "inv m \<Longrightarrow> inv (set_at k v m)"
    and erase_inv: "inv m \<Longrightarrow> inv (erase k m)"
    and find_set: "inv m \<Longrightarrow> find k' (set_at k v m) = (if k' = k then Some v else find k' m)"
    and find_erase: "inv m \<Longrightarrow> find k' (erase k m) = (if k' = k then None else find k' m)"
    and find_items: "inv m \<Longrightarrow> find k m = Some v \<longleftrightarrow> (k, v) \<in> set (items m)"
    and items_sorted: "inv m \<Longrightarrow> sorted_wrt (<) (map fst (items m))"
begin

lemma find_empty: "find k empty = None"
  using find_items [OF empty_inv, of k] by (cases "find k empty") (auto simp: empty_items)

lemma items_distinct: "inv m \<Longrightarrow> distinct (map fst (items m))"
  using items_sorted strict_sorted_iff by blast

text \<open>Two maps with the same lookups have the same items: the order is determined.\<close>

lemma items_eqI:
  assumes "inv m" and "inv m'" and "\<And>k. find k m = find k m'"
  shows "items m = items m'"
proof (rule map_sorted_distinct_set_unique [where f = fst])
  have "set (items m) = set (items m')"
  proof (intro set_eqI iffI)
    fix p assume "p \<in> set (items m)"
    then show "p \<in> set (items m')"
      using find_items [OF assms(1), of "fst p" "snd p"] find_items [OF assms(2), of "fst p" "snd p"]
        assms(3) [of "fst p"] by simp
  next
    fix p assume "p \<in> set (items m')"
    then show "p \<in> set (items m)"
      using find_items [OF assms(1), of "fst p" "snd p"] find_items [OF assms(2), of "fst p" "snd p"]
        assms(3) [of "fst p"] by simp
  qed
  then show "set (items m) = set (items m')" .
  show "inj_on fst (set (items m) \<union> set (items m'))"
    using items_distinct [OF assms(1)] \<open>set (items m) = set (items m')\<close>
    by (simp add: distinct_map)
  show "sorted (map fst (items m))" "distinct (map fst (items m))"
    using items_sorted [OF assms(1)] strict_sorted_iff by blast+
  show "sorted (map fst (items m'))" "distinct (map fst (items m'))"
    using items_sorted [OF assms(2)] strict_sorted_iff by blast+
qed

text \<open>Assigning an existing key twice, and erasing a key just added, leave no trace.\<close>

lemma set_set_items: "inv m \<Longrightarrow> items (set_at k v (set_at k w m)) = items (set_at k v m)"
  by (rule items_eqI) (auto simp: set_inv find_set)

lemma erase_set_items: "inv m \<Longrightarrow> find k m = None \<Longrightarrow> items (erase k (set_at k v m)) = items m"
  by (rule items_eqI) (auto simp: set_inv erase_inv find_set find_erase)

end


section \<open>The sorted list implements them\<close>

lemma sm_find_set: "sm_inv m \<Longrightarrow> sm_find k' (sm_set k v m) = (if k' = k then Some v else sm_find k' m)"
  by (induction k v m rule: sm_set.induct) (auto simp: sm_inv_def)

lemma set_fst_sm_set: "fst ` set (sm_set k v m) = insert k (fst ` set m)"
  by (induction k v m rule: sm_set.induct) auto

lemma sm_set_inv: "sm_inv m \<Longrightarrow> sm_inv (sm_set k v m)"
proof (induction k v m rule: sm_set.induct)
  case (2 k v a x m)
  then show ?case using set_fst_sm_set [of k v m] by (auto simp: sm_inv_def)
qed (simp add: sm_inv_def)

lemma sm_find_None: "k \<notin> fst ` set m \<Longrightarrow> sm_find k m = None"
  by (induction k m rule: sm_find.induct) auto

lemma set_sm_erase: "set (sm_erase k m) \<subseteq> set m"
  by (induction k m rule: sm_erase.induct) auto

lemma sm_erase_inv: "sm_inv m \<Longrightarrow> sm_inv (sm_erase k m)"
proof (induction k m rule: sm_erase.induct)
  case (2 k a x m)
  then show ?case using set_sm_erase [of k m] by (auto simp: sm_inv_def)
qed (simp add: sm_inv_def)

lemma sm_find_erase:
  "sm_inv m \<Longrightarrow> sm_find k' (sm_erase k m) = (if k' = k then None else sm_find k' m)"
proof (induction k m rule: sm_erase.induct)
  case (2 k a x m)
  then have "sm_find a m = None" by (auto simp: sm_inv_def intro!: sm_find_None)
  with 2 show ?case by (auto simp: sm_inv_def)
qed simp

lemma sm_find_items: "sm_inv m \<Longrightarrow> sm_find k m = Some v \<longleftrightarrow> (k, v) \<in> set m"
  by (induction k m rule: sm_find.induct) (force simp: sm_inv_def)+

interpretation sm: ordered_map "[]" sm_find sm_set sm_erase "\<lambda>m. m" sm_inv
proof (unfold_locales, goal_cases)
  case 1 show ?case by (simp add: sm_inv_def)
next
  case 2 show ?case by simp
next
  case 3 then show ?case by (rule sm_set_inv)
next
  case 4 then show ?case by (rule sm_erase_inv)
next
  case 5 then show ?case by (rule sm_find_set)
next
  case 6 then show ?case by (rule sm_find_erase)
next
  case 7 then show ?case by (rule sm_find_items)
next
  case 8 then show ?case by (simp add: sm_inv_def)
qed

lemma sm_set_nonempty [simp]: "sm_set k v m \<noteq> []"
  by (cases "(k, v, m)" rule: sm_set.cases) auto

end
