(* ===== verification/MapStorage.thy ===== *)
theory MapStorage
  imports Storage StdMap
begin

text \<open>
  \<^verbatim>\<open>class MapStorage\<close> of \<^verbatim>\<open>server/tio/MapStorage.h\<close>, the storage of \<^verbatim>\<open>volatile_map\<close> containers: a
  \<^verbatim>\<open>std::map\<close> from strings (ordered bytewise) to values with metadata.  Keys are read as
  zero-terminated strings.  A numeric key is a position in key order.
\<close>

type_synonym data_map = "(byte list \<times> value_and_metadata) list"

type_synonym map_storage = "data_map storage"

text \<open>\<^verbatim>\<open>*i\<close> after advancing from the first element; the end iterator is undefined behaviour.\<close>

definition ms_at :: "data_map \<Rightarrow> nat \<Rightarrow> (byte list \<times> value_and_metadata) cpp" where
  "ms_at d i = (if i < length d then Inr (d ! i)
                else Inl (undefined_behaviour ''end iterator dereferenced''))"

definition ms_GetInternalRecord :: "data_map \<Rightarrow> tio_data \<Rightarrow> (byte list \<times> value_and_metadata) cpp" where
  "ms_GetInternalRecord d key =
     (if GetDataType key = IntT
      then bind_res (AsInt key) (\<lambda>k.
           bind_res (NormalizeIndex k (wrap32 (int (length d))) True) (\<lambda>offset. ms_at d offset))
      else bind_res (AsSz key) (\<lambda>k.
             case sm_find k d of
               None \<Rightarrow> Inl (invalid_argument ''key not found'')
             | Some x \<Rightarrow> Inr (k, x)))"

definition ms_GetRecordCount :: "map_storage \<Rightarrow> nat" where
  "ms_GetRecordCount s = length (st_data s)"

text \<open>The property map of a map container: only \<^verbatim>\<open>__keys__\<close>, the keys joined by CR LF.\<close>

definition ms_keys_text :: "data_map \<Rightarrow> byte list" where
  "ms_keys_text d = concat (map (\<lambda>(k, _). k @ [0x0D, 0x0A]) d)"

definition ms_PropertyGet :: "string \<Rightarrow> map_storage \<Rightarrow> byte list cpp" where
  "ms_PropertyGet key s =
     bind_res (guard_res (key = ''__keys__'') (invalid_argument ''key not found'')) (\<lambda>_.
       if st_data s = [] then Inr []
       else let str = ms_keys_text (st_data s) in Inr (take (length str - 2) str))"

definition ms_PropertySet :: "string \<Rightarrow> string \<Rightarrow> map_storage \<Rightarrow> map_storage cpp" where
  "ms_PropertySet key v s = Inl (runtime_error ''can't change special property'')"

definition ms_unsupported :: "string \<Rightarrow> map_storage cpp" where
  "ms_unsupported op = Inl (invalid_argument (''\"'' @ op @ ''\" not supported by this container''))"

definition ms_Set :: "tio_data \<Rightarrow> tio_data \<Rightarrow> tio_data \<Rightarrow> map_storage \<Rightarrow> map_storage cpp" where
  "ms_Set key v m s =
     bind_res (guard_res (\<not> Empty key) (invalid_argument ''invalid key'')) (\<lambda>_.
     bind_res (AsSz key) (\<lambda>k.
       Inr (UpdateRevNumAndPublish EVENT_CODE_SET key v m
              (s\<lparr> st_data := sm_set k (v, m) (st_data s) \<rparr>))))"

definition ms_Insert :: "tio_data \<Rightarrow> tio_data \<Rightarrow> tio_data \<Rightarrow> map_storage \<Rightarrow> map_storage cpp" where
  "ms_Insert key v m s =
     bind_res (guard_res (\<not> Empty key) (invalid_argument ''invalid key'')) (\<lambda>_.
     bind_res (AsSz key) (\<lambda>k.
     bind_res (guard_res (sm_find k (st_data s) = None) (invalid_argument ''already exits'')) (\<lambda>_.
       Inr (UpdateRevNumAndPublish EVENT_CODE_SET key v m
              (s\<lparr> st_data := sm_set k (v, m) (st_data s) \<rparr>)))))"

definition ms_Delete :: "tio_data \<Rightarrow> tio_data \<Rightarrow> tio_data \<Rightarrow> map_storage \<Rightarrow> map_storage cpp" where
  "ms_Delete key v m s =
     bind_res (guard_res (\<not> Empty key) (invalid_argument ''invalid key'')) (\<lambda>_.
     bind_res (AsSz key) (\<lambda>k.
     bind_res (guard_res (sm_find k (st_data s) \<noteq> None) (invalid_argument ''key not found'')) (\<lambda>_.
       Inr (UpdateRevNumAndPublish EVENT_CODE_DELETE key v m
              (s\<lparr> st_data := sm_erase k (st_data s) \<rparr>)))))"

definition ms_Clear :: "map_storage \<Rightarrow> map_storage" where
  "ms_Clear s = UpdateRevNumAndPublish EVENT_CODE_CLEAR TNone TNone TNone (s\<lparr> st_data := [] \<rparr>)"

text \<open>
  The copied items from position \<open>b\<close> to \<open>e\<close>.  The limits are only normalised when one of them is
  not zero.
\<close>

definition ms_Query :: "int \<Rightarrow> int \<Rightarrow> tio_data \<Rightarrow> map_storage \<Rightarrow> result_set cpp" where
  "ms_Query startOffset endOffset query s =
     bind_res (guard_res (GetDataType query = NoneT)
       (runtime_error ''this container supports only querystr=null'')) (\<lambda>_.
     let d = st_data s; n = wrap32 (int (length d)) in
     bind_res
       (if startOffset = 0 \<and> endOffset = 0 then Inr (0, length d)
        else if endOffset = 0
        then bind_res (NormalizeForQueries startOffset n) (\<lambda>st. Inr (nat st, length d))
        else bind_res (NormalizeQueryLimits startOffset endOffset n) (\<lambda>(st, en). Inr (nat st, nat en)))
       (\<lambda>(b, e).
          Inr (VectorResultSet (map (\<lambda>(k, v, m). (TString k, v, m)) (take (e - b) (drop b d))) TNone)))"

definition ms_GetRecord :: "tio_data \<Rightarrow> map_storage \<Rightarrow> tio_record cpp" where
  "ms_GetRecord searchKey s =
     bind_res (ms_GetInternalRecord (st_data s) searchKey) (\<lambda>(k, v, m). Inr (TString k, v, m))"

fun ms_exec :: "storage_op \<Rightarrow> map_storage \<Rightarrow> map_storage cpp" where
  "ms_exec (OpPushBack k v m) s = ms_unsupported ''push_back''"
| "ms_exec (OpPushFront k v m) s = ms_unsupported ''push_front''"
| "ms_exec (OpPopBack k v m) s = ms_unsupported ''pop_back''"
| "ms_exec (OpPopFront k v m) s = ms_unsupported ''pop_front''"
| "ms_exec (OpSet k v m) s = ms_Set k v m s"
| "ms_exec (OpInsert k v m) s = ms_Insert k v m s"
| "ms_exec (OpDelete k v m) s = ms_Delete k v m s"
| "ms_exec OpClear s = Inr (ms_Clear s)"


section \<open>A map storage is replicated\<close>

lemmas ms_op_defs = ms_Set_def ms_Insert_def ms_Delete_def ms_Clear_def ms_unsupported_def

lemma length_sm_set: "length (sm_set k v m) \<le> Suc (length m)"
  by (induction k v m rule: sm_set.induct) auto

lemma length_sm_erase: "length (sm_erase k m) \<le> length m"
  by (induction k m rule: sm_erase.induct) auto

interpretation ms: replicated ms_exec sm_inv length
proof (unfold_locales, goal_cases)
  case (1 s op s')
  then show ?case
    by (cases op) (auto simp: ms_op_defs bind_res_Inr_iff sm.empty_inv intro: sm.set_inv sm.erase_inv)
next
  case (2 op s s')
  then show ?case
    by (cases op) (auto simp: ms_op_defs bind_res_Inr_iff length_sm_set length_sm_erase
        intro: le_SucI)
next
  case (3 op s s')
  then show ?case by (cases op) (auto simp: ms_op_defs bind_res_Inr_iff)
next
  case (4 op s s')
  then show ?case by (cases op) (auto simp: ms_op_defs bind_res_Inr_iff)
next
  case (5 s op s')
  then show ?case
    by (cases op) (auto simp: ms_op_defs bind_res_Inr_iff guard_res_Inr_iff)
qed


section \<open>Properties\<close>

text \<open>
  A subscriber of a map container that starts from a copy of the contents and replays the
  published events in order always has the container's contents.
\<close>

theorem map_subscriber_stays_equal:
  assumes "sm_inv (st_data s)" and "st_sink s" and "length (st_data s) + length ops < 2 ^ 31 - 1"
    and "st_data r = st_data s"
  shows "\<exists>es r'. st_events (run_ops ms_exec ops s) = st_events s @ es \<and>
           replay_events ms_exec es r = Inr r' \<and> st_data r' = st_data (run_ops ms_exec ops s) \<and>
           sm_inv (st_data r')"
  using ms.snapshot_plus_events [OF assms(1,3,2,4)] ms.run_ops_inv [OF assms(1), of ops] by metis

theorem map_subscriber_stays_equal_witness:
  "\<exists>es r'. st_events (run_ops ms_exec [OpInsert (TString [98]) (TInt 5) TNone,
        OpSet (TString [97]) (TInt 6) TNone, OpInsert (TString [98]) (TInt 7) TNone]
        (SetSubscriber (storage_new [] ''m'' ''volatile_map''))) = es \<and>
     replay_events ms_exec es (storage_new [] ''copy'' ''volatile_map'') = Inr r' \<and>
     map fst (st_data r') = [[97], [98]]"
  using map_subscriber_stays_equal [of "SetSubscriber (storage_new [] ''m'' ''volatile_map'')"
      "[OpInsert (TString [98]) (TInt 5) TNone, OpSet (TString [97]) (TInt 6) TNone,
        OpInsert (TString [98]) (TInt 7) TNone]" "storage_new [] ''copy'' ''volatile_map''"]
  by (simp add: SetSubscriber_def storage_new_def ms_op_defs Empty_def AsSz_def CheckDataType_def
      c_str_def sm_inv_def)

text \<open>
  What a client reads after a write: \<^verbatim>\<open>Set\<close> makes its key readable with the new value and
  metadata and changes no other key, \<^verbatim>\<open>Delete\<close> makes its key unreadable and changes no other key,
  and \<^verbatim>\<open>Insert\<close> succeeds exactly when the key is new and then acts as \<^verbatim>\<open>Set\<close>.
\<close>

theorem map_read_after_write:
  assumes "sm_inv (st_data s)"
  shows "(\<forall>s'. ms_Set (TString k) v m s = Inr s' \<longrightarrow>
           ms_GetRecord (TString k') s' =
             (if c_str k' = c_str k then Inr (TString (c_str k), v, m) else ms_GetRecord (TString k') s)) \<and>
         (\<forall>s'. ms_Delete (TString k) v m s = Inr s' \<longrightarrow>
           ms_GetRecord (TString k') s' =
             (if c_str k' = c_str k then Inl (invalid_argument ''key not found'')
              else ms_GetRecord (TString k') s)) \<and>
         ms_Insert (TString k) v m s =
           (if sm_find (c_str k) (st_data s) = None then ms_Set (TString k) v m s
            else Inl (invalid_argument ''already exits''))"
  using assms
  by (auto simp: ms_op_defs ms_GetRecord_def ms_GetInternalRecord_def AsSz_def CheckDataType_def
      Empty_def bind_res_Inr_iff sm.find_set sm.find_erase)

theorem map_read_after_write_witness:
  "(\<exists>s'. ms_Set (TString [97]) (TInt 1) TNone (storage_new [] ''m'' ''volatile_map'') = Inr s' \<and>
     ms_GetRecord (TString [97]) s' = Inr (TString [97], TInt 1, TNone))"
proof -
  let ?s = "storage_new [] ''m'' ''volatile_map'' :: map_storage"
  have i: "sm_inv (st_data ?s)" by (simp add: storage_new_def sm_inv_def)
  obtain s' where s': "ms_Set (TString [97]) (TInt 1) TNone ?s = Inr s'"
    by (simp add: ms_Set_def Empty_def AsSz_def CheckDataType_def)
  with map_read_after_write [OF i, of "[97]" "TInt 1" TNone "[97]"] show ?thesis
    by (simp add: c_str_def)
qed

text \<open>
  A full query of a map container lists every record exactly once, in strictly increasing key
  order, and a record is listed exactly when its key can be read.
\<close>

theorem map_Query_all:
  assumes "sm_inv (st_data s)"
  shows "\<exists>r. ms_Query 0 0 TNone s = Inr r \<and>
           rs_items r = map (\<lambda>(k, v, m). (TString k, v, m)) (st_data s) \<and>
           sorted_wrt (<) (map fst (st_data s)) \<and>
           (\<forall>k v m. c_str k = k \<longrightarrow> ((TString k, v, m) \<in> set (rs_items r) \<longleftrightarrow>
              ms_GetRecord (TString k) s = Inr (TString k, v, m)))"
proof -
  have "(k, v, m) \<in> set (st_data s) \<longleftrightarrow> ms_GetRecord (TString k) s = Inr (TString k, v, m)"
    if "c_str k = k" for k v m
    using that sm.find_items [OF assms, of k "(v, m)"]
    by (auto simp: ms_GetRecord_def ms_GetInternalRecord_def AsSz_def CheckDataType_def
        bind_res_Inr_iff split: option.splits)
  then show ?thesis
    using sm.items_sorted [OF assms]
    by (auto simp: ms_Query_def VectorResultSet_def Let_def image_iff intro!: bexI [of _ "(_, _, _)"])
qed

theorem map_Query_all_witness:
  "\<exists>r. ms_Query 0 0 TNone (storage_new [([97], TInt 1, TNone), ([98], TInt 2, TNone)] ''m'' ''volatile_map'') = Inr r \<and>
     rs_items r = [(TString [97], TInt 1, TNone), (TString [98], TInt 2, TNone)]"
  using map_Query_all [of "storage_new [([97], TInt 1, TNone), ([98], TInt 2, TNone)] ''m'' ''volatile_map''"]
  by (auto simp: storage_new_def sm_inv_def)

text \<open>
  Reading a map container by position, with positions below its size, is the same enumeration: position
  \<open>i\<close> gives the \<open>i\<close>-th record in key order.
\<close>

theorem map_GetRecord_by_position:
  assumes "i < length (st_data s)" and "length (st_data s) < 2 ^ 31"
  shows "ms_GetRecord (TInt (of_nat i)) s =
           (case st_data s ! i of (k, v, m) \<Rightarrow> Inr (TString k, v, m))"
proof -
  have "sint (of_nat i :: u32) = int i" using assms by (intro sint_of_nat_u32) simp
  moreover have "NormalizeIndex (int i) (int (length (st_data s))) True = Inr i"
    using assms NormalizeIndex_eq [of "int (length (st_data s))" "int i"] by auto
  ultimately show ?thesis
    using assms wrap32_nat [OF assms(2)]
    by (simp add: ms_GetRecord_def ms_GetInternalRecord_def ms_at_def split: prod.splits)
qed

theorem map_GetRecord_by_position_witness:
  "ms_GetRecord (TInt (of_nat 1)) (storage_new [([97], TInt 1, TNone), ([98], TInt 2, TNone)] ''m'' ''volatile_map'') =
     Inr (TString [98], TInt 2, TNone)"
  using map_GetRecord_by_position [of 1 "storage_new [([97], TInt 1, TNone), ([98], TInt 2, TNone)] ''m'' ''volatile_map''"]
  by (simp add: storage_new_def)

end
