(* ===== verification/MemoryStorage.thy ===== *)
theory MemoryStorage
  imports ListStorage VectorStorage MapStorage
begin

text \<open>
  \<^verbatim>\<open>server/tio/MemoryStorage.h\<close>: the property maps of containers and \<^verbatim>\<open>MemoryStorageManager\<close>, which
  creates, opens and deletes the in-memory storages.  Storages are shared objects: they live in a
  heap and the manager's map holds their addresses, so that two openings give the same storage.
  A run of the manager is a path of the step relation \<open>mgr_step\<close>; its invariant is proved by rule
  induction.
\<close>

datatype any_storage = SList list_storage | SMap map_storage | SVector vector_storage

fun any_sink :: "any_storage \<Rightarrow> bool" where
  "any_sink (SList s) = st_sink s"
| "any_sink (SMap s) = st_sink s"
| "any_sink (SVector s) = st_sink s"

fun any_type :: "any_storage \<Rightarrow> string" where
  "any_type (SList s) = st_type s"
| "any_type (SMap s) = st_type s"
| "any_type (SVector s) = st_type s"

fun any_name :: "any_storage \<Rightarrow> string" where
  "any_name (SList s) = st_name s"
| "any_name (SMap s) = st_name s"
| "any_name (SVector s) = st_name s"

text \<open>\<^verbatim>\<open>SetSubscriber(sink)\<close> on any storage; an empty sink unsubscribes.\<close>

fun any_SetSubscriber :: "bool \<Rightarrow> any_storage \<Rightarrow> any_storage" where
  "any_SetSubscriber b (SList s) = SList (s\<lparr> st_sink := b \<rparr>)"
| "any_SetSubscriber b (SMap s) = SMap (s\<lparr> st_sink := b \<rparr>)"
| "any_SetSubscriber b (SVector s) = SVector (s\<lparr> st_sink := b \<rparr>)"

lemma any_SetSubscriber_simps [simp]:
  "any_sink (any_SetSubscriber b s) = b" "any_type (any_SetSubscriber b s) = any_type s"
  "any_name (any_SetSubscriber b s) = any_name s"
  by (cases s; simp)+


section \<open>Property maps\<close>

record property_map =
  pm_special :: bool
  pm_data :: "(string \<times> byte list) list"

definition is_special_key :: "string \<Rightarrow> bool" where
  "is_special_key key \<longleftrightarrow> 2 < length key \<and> key ! 0 = CHR ''_'' \<and> key ! 1 = CHR ''_''"

text \<open>The special properties are those of the map storage the property map belongs to.\<close>

definition PropertyMap_Get :: "property_map \<Rightarrow> any_storage \<Rightarrow> string \<Rightarrow> byte list cpp" where
  "PropertyMap_Get p s key =
     (if pm_special p \<and> is_special_key key
      then (case s of SMap m \<Rightarrow> ms_PropertyGet key m
            | _ \<Rightarrow> Inl (undefined_behaviour ''no special property map''))
      else case sm_find key (pm_data p) of
             None \<Rightarrow> Inl (invalid_argument ''key not found'')
           | Some v \<Rightarrow> Inr v)"

definition PropertyMap_Set :: "property_map \<Rightarrow> string \<Rightarrow> byte list \<Rightarrow> property_map" where
  "PropertyMap_Set p key v = p\<lparr> pm_data := sm_set key v (pm_data p) \<rparr>"


section \<open>The storage manager\<close>

definition CreateVectorStorage :: "string \<Rightarrow> string \<Rightarrow> any_storage \<times> property_map" where
  "CreateVectorStorage n t = (SVector (VectorStorage_new n t), \<lparr> pm_special = False, pm_data = [] \<rparr>)"

definition CreateMapStorage :: "string \<Rightarrow> string \<Rightarrow> any_storage \<times> property_map" where
  "CreateMapStorage n t = (SMap (storage_new [] n t), \<lparr> pm_special = True, pm_data = [] \<rparr>)"

definition CreateListStorage :: "string \<Rightarrow> string \<Rightarrow> any_storage \<times> property_map" where
  "CreateListStorage n t = (SList (storage_new [] n t), \<lparr> pm_special = False, pm_data = [] \<rparr>)"

definition supportedTypes :: "string \<Rightarrow> (string \<Rightarrow> string \<Rightarrow> any_storage \<times> property_map) option" where
  "supportedTypes t =
     (if t = ''volatile_vector'' then Some CreateVectorStorage
      else if t = ''volatile_map'' then Some CreateMapStorage
      else if t = ''volatile_list'' then Some CreateListStorage
      else None)"

record storage_info =
  si_name :: string
  si_type :: string
  si_storage :: nat

record storage_manager =
  mg_containers :: "(string \<times> storage_info) list"
  mg_heap :: "nat \<rightharpoonup> any_storage \<times> property_map"
  mg_fresh :: nat
  mg_sink :: bool

definition MemoryStorageManager_new :: storage_manager where
  "MemoryStorageManager_new = \<lparr> mg_containers = [], mg_heap = Map.empty, mg_fresh = 0, mg_sink = False \<rparr>"

definition GenerateName :: "string \<Rightarrow> string \<Rightarrow> string" where
  "GenerateName t n = t @ ''/'' @ n"

text \<open>The static counter is never advanced, so every nameless container has this name.\<close>

definition GenerateNamelessName :: string where
  "GenerateNamelessName = ''__nameless'' @ ''0'' @ ''__''"

definition mg_Exists :: "storage_manager \<Rightarrow> string \<Rightarrow> string \<Rightarrow> bool" where
  "mg_Exists g t n \<longleftrightarrow> sm_find (GenerateName t n) (mg_containers g) \<noteq> None"

definition heap_subscribe :: "bool \<Rightarrow> nat \<Rightarrow> (nat \<rightharpoonup> any_storage \<times> property_map) \<Rightarrow>
    (nat \<rightharpoonup> any_storage \<times> property_map)" where
  "heap_subscribe b a h = (case h a of None \<Rightarrow> h | Some (s, p) \<Rightarrow> h(a \<mapsto> (any_SetSubscriber b s, p)))"

definition mg_SetSubscriber :: "storage_manager \<Rightarrow> storage_manager" where
  "mg_SetSubscriber g =
     g\<lparr> mg_sink := True,
        mg_heap := fold (\<lambda>(_, i). heap_subscribe True (si_storage i)) (mg_containers g) (mg_heap g) \<rparr>"

definition mg_RemoveSubscriber :: "storage_manager \<Rightarrow> storage_manager" where
  "mg_RemoveSubscriber g =
     g\<lparr> mg_sink := False,
        mg_heap := fold (\<lambda>(_, i). heap_subscribe False (si_storage i)) (mg_containers g) (mg_heap g) \<rparr>"

definition mg_DeleteStorage :: "string \<Rightarrow> string \<Rightarrow> storage_manager \<Rightarrow> storage_manager cpp" where
  "mg_DeleteStorage t n g =
     (if sm_find (GenerateName t n) (mg_containers g) = None
      then Inl (invalid_argument ''no such data container'')
      else Inr (g\<lparr> mg_containers := sm_erase (GenerateName t n) (mg_containers g) \<rparr>))"

text \<open>The address of the created or already existing storage.\<close>

definition mg_CreateStorage :: "string \<Rightarrow> string \<Rightarrow> storage_manager \<Rightarrow> (nat \<times> storage_manager) cpp" where
  "mg_CreateStorage t n g =
     (case supportedTypes t of
        None \<Rightarrow> Inl (invalid_argument ''storage type not supported'')
      | Some create \<Rightarrow>
          let actualName = (if n = [] then GenerateNamelessName else n);
              full = GenerateName t actualName
          in case sm_find full (mg_containers g) of
               None \<Rightarrow>
                 let a = mg_fresh g;
                     g = g\<lparr> mg_heap := (mg_heap g)(a \<mapsto> create actualName t), mg_fresh := a + 1,
                            mg_containers := sm_set full \<lparr> si_name = n, si_type = t, si_storage = a \<rparr>
                                               (mg_containers g) \<rparr>
                 in Inr (a, g\<lparr> mg_heap := heap_subscribe (mg_sink g) a (mg_heap g) \<rparr>)
             | Some info \<Rightarrow>
                 Inr (si_storage info,
                      g\<lparr> mg_heap := heap_subscribe (mg_sink g) (si_storage info) (mg_heap g) \<rparr>))"

definition mg_OpenStorage :: "string \<Rightarrow> string \<Rightarrow> storage_manager \<Rightarrow> (nat \<times> storage_manager) cpp" where
  "mg_OpenStorage t n g =
     (if supportedTypes t = None then Inl (invalid_argument ''storage type not supported'')
      else case sm_find (t @ ''/'' @ n) (mg_containers g) of
             None \<Rightarrow> Inl (invalid_argument ''no such data storage'')
           | Some info \<Rightarrow>
               Inr (si_storage info,
                    g\<lparr> mg_heap := heap_subscribe (mg_sink g) (si_storage info) (mg_heap g) \<rparr>))"

definition mg_GetStorageList :: "storage_manager \<Rightarrow> storage_info list" where
  "mg_GetStorageList g = map snd (mg_containers g)"


section \<open>Containers\<close>

text \<open>
  \<^verbatim>\<open>class Container\<close> forwards every operation to its storage and its properties to its property
  map.
\<close>

fun any_exec :: "storage_op \<Rightarrow> any_storage \<Rightarrow> any_storage cpp" where
  "any_exec op (SList s) = bind_res (ls_exec op s) (\<lambda>s. Inr (SList s))"
| "any_exec op (SMap s) = bind_res (ms_exec op s) (\<lambda>s. Inr (SMap s))"
| "any_exec op (SVector s) = bind_res (vs_exec op s) (\<lambda>s. Inr (SVector s))"

fun any_free :: "any_storage \<Rightarrow> bool" where
  "any_free (SVector s) \<longleftrightarrow> \<not> vs_locked s"
| "any_free s \<longleftrightarrow> True"

definition container_exec :: "storage_op \<Rightarrow> nat \<Rightarrow> storage_manager \<Rightarrow> storage_manager cpp" where
  "container_exec op a g =
     (case mg_heap g a of
        None \<Rightarrow> Inl (undefined_behaviour ''no such object'')
      | Some (s, p) \<Rightarrow>
          bind_res (any_exec op s) (\<lambda>s. Inr (g\<lparr> mg_heap := (mg_heap g)(a \<mapsto> (s, p)) \<rparr>)))"

definition container_SetProperty :: "string \<Rightarrow> byte list \<Rightarrow> nat \<Rightarrow> storage_manager \<Rightarrow> storage_manager cpp" where
  "container_SetProperty key v a g =
     (case mg_heap g a of
        None \<Rightarrow> Inl (undefined_behaviour ''no such object'')
      | Some (s, p) \<Rightarrow> Inr (g\<lparr> mg_heap := (mg_heap g)(a \<mapsto> (s, PropertyMap_Set p key v)) \<rparr>))"

definition container_GetProperty :: "string \<Rightarrow> nat \<Rightarrow> storage_manager \<Rightarrow> byte list cpp" where
  "container_GetProperty key a g =
     (case mg_heap g a of
        None \<Rightarrow> Inl (undefined_behaviour ''no such object'')
      | Some (s, p) \<Rightarrow> PropertyMap_Get p s key)"


section \<open>Runs of the manager\<close>

inductive mgr_step :: "storage_manager \<Rightarrow> storage_manager \<Rightarrow> bool" where
  create: "mg_CreateStorage t n g = Inr (a, g') \<Longrightarrow> mgr_step g g'"
| opened: "mg_OpenStorage t n g = Inr (a, g') \<Longrightarrow> mgr_step g g'"
| deleted: "mg_DeleteStorage t n g = Inr g' \<Longrightarrow> mgr_step g g'"
| subscribed: "mgr_step g (mg_SetSubscriber g)"
| unsubscribed: "mgr_step g (mg_RemoveSubscriber g)"
| modified: "container_exec op a g = Inr g' \<Longrightarrow> mgr_step g g'"
| property: "container_SetProperty k v a g = Inr g' \<Longrightarrow> mgr_step g g'"

inductive_cases mgr_stepE: "mgr_step g g'"

text \<open>
  The invariant of the manager: its map is sorted, each entry points to a storage of its type, is
  filed under the type and the name of that storage, which is subscribed exactly when the manager has a sink, no two entries
  share a storage, and the mutexes of the vectors are free between operations.
\<close>

definition entry_ok :: "storage_manager \<Rightarrow> string \<times> storage_info \<Rightarrow> bool" where
  "entry_ok g e \<longleftrightarrow>
     (\<exists>s p. mg_heap g (si_storage (snd e)) = Some (s, p) \<and> any_sink s = mg_sink g \<and> any_free s \<and>
        any_type s = si_type (snd e) \<and> supportedTypes (si_type (snd e)) \<noteq> None \<and>
        fst e = GenerateName (any_type s) (any_name s))"

definition mg_inv :: "storage_manager \<Rightarrow> bool" where
  "mg_inv g \<longleftrightarrow> sm_inv (mg_containers g) \<and> (\<forall>e \<in> set (mg_containers g). entry_ok g e) \<and>
     inj_on (\<lambda>e. si_storage (snd e)) (set (mg_containers g)) \<and> (\<forall>a \<in> dom (mg_heap g). a < mg_fresh g)"

lemma mg_inv_new: "mg_inv MemoryStorageManager_new"
  by (simp add: mg_inv_def MemoryStorageManager_new_def sm.empty_inv)

lemma any_exec_keeps:
  assumes "any_exec op s = Inr s'" and "any_free s"
  shows "any_sink s' = any_sink s \<and> any_type s' = any_type s \<and> any_name s' = any_name s \<and> any_free s'"
proof (cases s)
  case (SList x)
  then obtain y where y: "ls_exec op x = Inr y" "s' = SList y" using assms by (auto simp: bind_res_Inr_iff)
  moreover have "st_type y = st_type x \<and> st_name y = st_name x"
    using y(1) by (cases op) (auto simp: ls_op_defs bind_res_Inr_iff)
  ultimately show ?thesis using ls.exec_rev [OF y(1)] SList by simp
next
  case (SMap x)
  then obtain y where y: "ms_exec op x = Inr y" "s' = SMap y" using assms by (auto simp: bind_res_Inr_iff)
  moreover have "st_type y = st_type x \<and> st_name y = st_name x"
    using y(1) by (cases op) (auto simp: ms_op_defs bind_res_Inr_iff)
  ultimately show ?thesis using ms.exec_rev [OF y(1)] SMap by simp
next
  case (SVector x)
  then have free: "\<not> vs_locked x" using assms(2) by simp
  obtain y where y: "vs_exec op x = Inr y" "s' = SVector y" using SVector assms by (auto simp: bind_res_Inr_iff)
  have "st_sink y = st_sink x \<and> st_type y = st_type x \<and> st_name y = st_name x \<and> \<not> vs_locked y"
    using y(1) free by (cases op) (auto simp: vs_op_defs bind_res_Inr_iff Let_def split: if_splits)
  then show ?thesis using y SVector by simp
qed

lemma heap_subscribe_at:
  "heap_subscribe b a h x = (if x = a then map_option (\<lambda>(s, p). (any_SetSubscriber b s, p)) (h a) else h x)"
  by (auto simp: heap_subscribe_def split: option.splits)

lemma fold_heap_subscribe:
  "fold (\<lambda>(_, i). heap_subscribe b (si_storage i)) cs h a =
     (if a \<in> (\<lambda>e. si_storage (snd e)) ` set cs
      then map_option (\<lambda>(s, p). (any_SetSubscriber b s, p)) (h a) else h a)"
proof (induction cs arbitrary: h)
  case (Cons c cs)
  have idem: "any_SetSubscriber b (any_SetSubscriber b s) = any_SetSubscriber b s" for s
    by (cases s) simp_all
  have step: "fold (\<lambda>(_, i). heap_subscribe b (si_storage i)) (c # cs) h a =
      fold (\<lambda>(_, i). heap_subscribe b (si_storage i)) cs (heap_subscribe b (si_storage (snd c)) h) a"
    by (simp add: case_prod_beta)
  show ?case
    unfolding step Cons.IH by (cases "h a") (auto simp: heap_subscribe_at idem)
qed simp

lemma any_free_SetSubscriber [simp]: "any_free (any_SetSubscriber b s) = any_free s"
  by (cases s) simp_all

text \<open>Changes of the heap that keep every entry's storage in place keep the invariant.\<close>

lemma mg_inv_heap:
  assumes "mg_inv g" and "mg_containers g' = mg_containers g" and "mg_fresh g' = mg_fresh g"
    and "dom (mg_heap g') = dom (mg_heap g)"
    and "\<And>e s p. e \<in> set (mg_containers g) \<Longrightarrow> mg_heap g (si_storage (snd e)) = Some (s, p) \<Longrightarrow> any_free s \<Longrightarrow>
      any_sink s = mg_sink g \<Longrightarrow>
      \<exists>s' p'. mg_heap g' (si_storage (snd e)) = Some (s', p') \<and> any_sink s' = mg_sink g' \<and>
        any_free s' \<and> any_type s' = any_type s \<and> any_name s' = any_name s"
  shows "mg_inv g'"
proof -
  have "entry_ok g' e" if e: "e \<in> set (mg_containers g)" for e
  proof -
    obtain s p where "mg_heap g (si_storage (snd e)) = Some (s, p)" "any_sink s = mg_sink g"
      "any_free s" "any_type s = si_type (snd e)" "supportedTypes (si_type (snd e)) \<noteq> None"
      "fst e = GenerateName (any_type s) (any_name s)"
      using assms(1) e unfolding mg_inv_def entry_ok_def by metis
    with assms(5) [OF e] show ?thesis unfolding entry_ok_def by metis
  qed
  then show ?thesis using assms(1-4) by (simp add: mg_inv_def)
qed

lemma mg_inv_subscribe:
  assumes "mg_inv g"
  shows "mg_inv (g\<lparr> mg_heap := heap_subscribe (mg_sink g) a (mg_heap g) \<rparr>)"
  by (rule mg_inv_heap [OF assms]) (auto simp: heap_subscribe_at dom_def split: if_splits)

lemma mg_inv_SetSubscriber: "mg_inv g \<Longrightarrow> mg_inv (mg_SetSubscriber g)"
  by (rule mg_inv_heap) (auto simp: mg_SetSubscriber_def fold_heap_subscribe dom_def split: if_splits)

lemma mg_inv_RemoveSubscriber: "mg_inv g \<Longrightarrow> mg_inv (mg_RemoveSubscriber g)"
  by (rule mg_inv_heap) (auto simp: mg_RemoveSubscriber_def fold_heap_subscribe dom_def split: if_splits)

lemma mg_inv_replace:
  assumes "mg_inv g" and "mg_heap g a = Some (s, p)"
    and "any_free s \<Longrightarrow> any_sink s' = any_sink s \<and> any_type s' = any_type s \<and> any_name s' = any_name s \<and>
      any_free s'"
  shows "mg_inv (g\<lparr> mg_heap := (mg_heap g)(a \<mapsto> (s', p')) \<rparr>)"
proof (rule mg_inv_heap [OF assms(1)])
  show "dom (mg_heap (g\<lparr> mg_heap := (mg_heap g)(a \<mapsto> (s', p')) \<rparr>)) = dom (mg_heap g)"
    using assms(2) by auto
qed (use assms(2,3) in auto)

lemma mg_inv_exec: "mg_inv g \<Longrightarrow> container_exec op a g = Inr g' \<Longrightarrow> mg_inv g'"
  by (auto simp: container_exec_def bind_res_Inr_iff split: option.splits
      intro!: mg_inv_replace any_exec_keeps)

lemma mg_inv_property: "mg_inv g \<Longrightarrow> container_SetProperty k v a g = Inr g' \<Longrightarrow> mg_inv g'"
  by (auto simp: container_SetProperty_def intro: mg_inv_replace split: option.splits)

lemma entry_ok_containers [simp]: "entry_ok (g\<lparr> mg_containers := c \<rparr>) e = entry_ok g e"
  by (simp add: entry_ok_def)

lemma mg_inv_Delete: "mg_inv g \<Longrightarrow> mg_DeleteStorage t n g = Inr g' \<Longrightarrow> mg_inv g'"
  using set_sm_erase [of "GenerateName t n" "mg_containers g"]
  by (auto simp: mg_inv_def mg_DeleteStorage_def intro: sm.erase_inv inj_on_subset split: if_splits)

lemma create_ok:
  assumes "supportedTypes t = Some create"
  shows "any_sink (fst (create n t)) = False \<and> any_free (fst (create n t)) \<and> any_type (fst (create n t)) = t \<and>
    any_name (fst (create n t)) = n"
  using assms
  by (auto simp: supportedTypes_def CreateVectorStorage_def CreateMapStorage_def CreateListStorage_def
      VectorStorage_new_def storage_new_def split: if_splits)

text \<open>Filing a fresh storage under a new name keeps the invariant.\<close>

lemma mg_inv_new_entry:
  assumes inv: "mg_inv g" and find: "sm_find full (mg_containers g) = None"
    and full: "full = GenerateName t m" and t: "supportedTypes t = Some create"
  shows "mg_inv (g\<lparr> mg_heap := (mg_heap g)(mg_fresh g \<mapsto> (any_SetSubscriber (mg_sink g) (fst (create m t)), q)),
            mg_fresh := mg_fresh g + 1,
            mg_containers := sm_set full \<lparr> si_name = n, si_type = t, si_storage = mg_fresh g \<rparr>
              (mg_containers g) \<rparr>)" (is "mg_inv ?g")
proof -
  let ?i = "\<lparr> si_name = n, si_type = t, si_storage = mg_fresh g \<rparr>"
  have sm: "sm_inv (mg_containers g)" using inv by (simp add: mg_inv_def)
  have old: "si_storage (snd e) \<noteq> mg_fresh g" if "e \<in> set (mg_containers g)" for e
    using inv that by (fastforce simp: mg_inv_def entry_ok_def)
  have members: "e = (full, ?i) \<or> e \<in> set (mg_containers g)"
    if "e \<in> set (sm_set full ?i (mg_containers g))" for e
  proof -
    have "sm_find (fst e) (sm_set full ?i (mg_containers g)) = Some (snd e)"
      using sm.find_items [OF sm.set_inv [OF sm]] that by simp
    then show ?thesis
      using sm.find_items [OF sm, of "fst e" "snd e"]
      by (cases e) (auto simp: sm.find_set [OF sm] split: if_splits)
  qed
  have ok: "entry_ok ?g e" if e: "e \<in> set (sm_set full ?i (mg_containers g))" for e
    using members [OF e]
  proof
    assume "e = (full, ?i)"
    then show ?thesis using create_ok [OF t, of m] full t by (auto simp: entry_ok_def)
  next
    assume e: "e \<in> set (mg_containers g)"
    then have "entry_ok g e" using inv by (simp add: mg_inv_def)
    then show ?thesis using old [OF e] by (simp add: entry_ok_def)
  qed
  have "inj_on (\<lambda>e. si_storage (snd e)) (insert (full, ?i) (set (mg_containers g)))"
    using inv old by (fastforce simp: mg_inv_def inj_on_insert)
  then have "inj_on (\<lambda>e. si_storage (snd e)) (set (sm_set full ?i (mg_containers g)))"
    by (rule inj_on_subset) (use members in auto)
  then show ?thesis
    using inv ok sm.set_inv [OF sm] by (auto simp: mg_inv_def less_Suc_eq)
qed

lemma mg_inv_Create: "mg_inv g \<Longrightarrow> mg_CreateStorage t n g = Inr (a, g') \<Longrightarrow> mg_inv g'"
proof -
  assume inv: "mg_inv g" and cr: "mg_CreateStorage t n g = Inr (a, g')"
  define m where "m = (if n = [] then GenerateNamelessName else n)"
  obtain create where t: "supportedTypes t = Some create"
    using cr by (auto simp: mg_CreateStorage_def split: option.splits)
  show ?thesis
  proof (cases "sm_find (GenerateName t m) (mg_containers g)")
    case None
    obtain s q where s: "create m t = (s, q)" by (cases "create m t")
    have "heap_subscribe (mg_sink g) (mg_fresh g) ((mg_heap g)(mg_fresh g \<mapsto> create m t)) =
        (mg_heap g)(mg_fresh g \<mapsto> (any_SetSubscriber (mg_sink g) s, q))"
      by (simp add: heap_subscribe_def s)
    then have "g' = g\<lparr> mg_heap := (mg_heap g)(mg_fresh g \<mapsto> (any_SetSubscriber (mg_sink g) (fst (create m t)), q)),
            mg_fresh := mg_fresh g + 1,
            mg_containers := sm_set (GenerateName t m) \<lparr> si_name = n, si_type = t, si_storage = mg_fresh g \<rparr>
              (mg_containers g) \<rparr>"
      using cr t None s unfolding mg_CreateStorage_def Let_def m_def [symmetric] by auto
    then show ?thesis using mg_inv_new_entry [OF inv None refl t, where q = q and n = n] by (simp only:)
  next
    case (Some info)
    then show ?thesis
      using cr t mg_inv_subscribe [OF inv] unfolding mg_CreateStorage_def Let_def m_def [symmetric]
      by auto
  qed
qed

lemma mg_inv_Open: "mg_inv g \<Longrightarrow> mg_OpenStorage t n g = Inr (a, g') \<Longrightarrow> mg_inv g'"
  by (auto simp: mg_OpenStorage_def intro: mg_inv_subscribe split: if_splits option.splits)

lemma mgr_step_inv: "mgr_step g g' \<Longrightarrow> mg_inv g \<Longrightarrow> mg_inv g'"
  by (induction rule: mgr_step.induct)
    (erule (1) mg_inv_Create mg_inv_Open mg_inv_Delete mg_inv_exec mg_inv_property |
     erule mg_inv_SetSubscriber mg_inv_RemoveSubscriber)+


section \<open>Properties\<close>

text \<open>
  C25: in every state the storage manager can reach from its start, by any sequence of creating,
  opening, deleting, subscribing, unsubscribing, modifying and setting properties, every
  registered container points to a live storage of its declared type which is subscribed exactly
  when the manager has a sink and is filed under its type and name, and no two registered
  containers share a storage.
\<close>

theorem manager_invariant:
  assumes "mgr_step\<^sup>*\<^sup>* MemoryStorageManager_new g"
  shows "sm_inv (mg_containers g) \<and>
         (\<forall>(full, i) \<in> set (mg_containers g). \<exists>s p. mg_heap g (si_storage i) = Some (s, p) \<and>
            any_type s = si_type i \<and> full = GenerateName (si_type i) (any_name s) \<and>
            any_sink s = mg_sink g \<and> any_free s) \<and>
         inj_on (\<lambda>e. si_storage (snd e)) (set (mg_containers g))"
proof -
  have "mg_inv g"
    using assms by (induction rule: rtranclp_induct) (auto intro: mg_inv_new mgr_step_inv)
  then show ?thesis by (fastforce simp: mg_inv_def entry_ok_def)
qed

theorem manager_invariant_witness:
  "\<exists>a g. mg_CreateStorage ''volatile_map'' ''m'' (mg_SetSubscriber MemoryStorageManager_new) = Inr (a, g) \<and>
     (\<forall>(full, i) \<in> set (mg_containers g). \<exists>s p. mg_heap g (si_storage i) = Some (s, p) \<and>
        any_type s = si_type i \<and> full = GenerateName (si_type i) (any_name s) \<and>
        any_sink s = mg_sink g \<and> any_free s)"
proof -
  let ?g = "mg_SetSubscriber MemoryStorageManager_new"
  obtain a g where c: "mg_CreateStorage ''volatile_map'' ''m'' ?g = Inr (a, g)"
    by (simp add: mg_CreateStorage_def supportedTypes_def mg_SetSubscriber_def
        MemoryStorageManager_new_def Let_def)
  then have "mgr_step\<^sup>*\<^sup>* MemoryStorageManager_new g"
    by (meson converse_rtranclp_into_rtranclp mgr_step.create mgr_step.subscribed rtranclp.rtrancl_refl)
  from manager_invariant [OF this] c show ?thesis by blast
qed

text \<open>
  Creating a container and then opening it by type and name gives the same storage; creating
  it again gives that storage too and keeps its contents and properties; after deleting it,
  opening fails.
\<close>

theorem manager_create_open_delete:
  assumes "mg_inv g" and "n \<noteq> []" and "mg_CreateStorage t n g = Inr (a, g1)"
  shows "mg_Exists g1 t n \<and>
         (\<exists>g2. mg_OpenStorage t n g1 = Inr (a, g2)) \<and>
         (\<exists>g3. mg_CreateStorage t n g1 = Inr (a, g3) \<and> mg_heap g3 = mg_heap g1) \<and>
         (\<exists>g4. mg_DeleteStorage t n g1 = Inr g4 \<and> \<not> mg_Exists g4 t n \<and>
               mg_OpenStorage t n g4 = Inl (invalid_argument ''no such data storage''))"
proof -
  have inv1: "mg_inv g1" by (rule mg_inv_Create [OF assms(1,3)])
  have sm: "sm_inv (mg_containers g)" "sm_inv (mg_containers g1)"
    using assms(1) inv1 by (simp_all add: mg_inv_def)
  obtain create where t: "supportedTypes t = Some create"
    using assms(3) by (auto simp: mg_CreateStorage_def split: option.splits)
  have "\<exists>i. sm_find (GenerateName t n) (mg_containers g1) = Some i \<and> si_storage i = a"
    using assms(2,3) t
    by (auto simp: mg_CreateStorage_def Let_def sm.find_set [OF sm(1)] split: option.splits)
  then obtain i where i: "sm_find (GenerateName t n) (mg_containers g1) = Some i" "si_storage i = a"
    by blast
  have "(GenerateName t n, i) \<in> set (mg_containers g1)" using i sm.find_items [OF sm(2)] by simp
  then obtain s p where s: "mg_heap g1 a = Some (s, p)" "any_sink s = mg_sink g1"
    using inv1 i(2) by (fastforce simp: mg_inv_def entry_ok_def)
  have same: "any_SetSubscriber (any_sink s) s = s" by (cases s) simp_all
  have keep: "heap_subscribe (mg_sink g1) a (mg_heap g1) = mg_heap g1"
    using s same by (auto simp: heap_subscribe_def fun_upd_idem)
  show ?thesis
    using assms(2) t i keep sm.find_erase [OF sm(2), of "GenerateName t n" "GenerateName t n"]
    by (auto simp: mg_Exists_def mg_OpenStorage_def mg_CreateStorage_def mg_DeleteStorage_def
        GenerateName_def Let_def)
qed

theorem manager_create_open_delete_witness:
  "\<exists>a g1. mg_CreateStorage ''volatile_list'' ''l'' MemoryStorageManager_new = Inr (a, g1) \<and>
     mg_Exists g1 ''volatile_list'' ''l'' \<and> (\<exists>g2. mg_OpenStorage ''volatile_list'' ''l'' g1 = Inr (a, g2))"
proof -
  obtain a g1 where "mg_CreateStorage ''volatile_list'' ''l'' MemoryStorageManager_new = Inr (a, g1)"
    by (simp add: mg_CreateStorage_def supportedTypes_def MemoryStorageManager_new_def Let_def)
  with manager_create_open_delete [OF mg_inv_new _ this] show ?thesis by blast
qed

text \<open>
  The counter of nameless containers is never advanced: two requests for a new nameless
  container of the same type give the same storage.
\<close>

theorem nameless_containers_shared:
  assumes "mg_inv g" and "mg_CreateStorage t [] g = Inr (a, g1)"
  shows "\<exists>g2. mg_CreateStorage t [] g1 = Inr (a, g2)"
proof -
  have sm: "sm_inv (mg_containers g)" using assms(1) by (simp add: mg_inv_def)
  obtain create where t: "supportedTypes t = Some create"
    using assms(2) by (auto simp: mg_CreateStorage_def split: option.splits)
  have "\<exists>i. sm_find (GenerateName t GenerateNamelessName) (mg_containers g1) = Some i \<and> si_storage i = a"
    using assms(2) t
    by (auto simp: mg_CreateStorage_def Let_def sm.find_set [OF sm] split: option.splits)
  then show ?thesis using t by (auto simp: mg_CreateStorage_def Let_def)
qed

theorem nameless_containers_shared_witness:
  "\<exists>a g1 g2. mg_CreateStorage ''volatile_list'' [] MemoryStorageManager_new = Inr (a, g1) \<and>
     mg_CreateStorage ''volatile_list'' [] g1 = Inr (a, g2)"
proof -
  obtain a g1 where "mg_CreateStorage ''volatile_list'' [] MemoryStorageManager_new = Inr (a, g1)"
    by (simp add: mg_CreateStorage_def supportedTypes_def MemoryStorageManager_new_def Let_def)
  with nameless_containers_shared [OF mg_inv_new this] show ?thesis by blast
qed

text \<open>
  A property that is set is read back with its value and other properties keep theirs, as long
  as the name is not one of the special ones of a map container, which cannot be shadowed.
\<close>

theorem property_read_after_set:
  assumes "sm_inv (pm_data p)"
  shows "PropertyMap_Get (PropertyMap_Set p k v) s k' =
           (if pm_special p \<and> is_special_key k' then PropertyMap_Get p s k'
            else if k' = k then Inr v else PropertyMap_Get p s k')"
  using assms by (simp add: PropertyMap_Get_def PropertyMap_Set_def sm.find_set)

theorem property_read_after_set_witness:
  "PropertyMap_Get (PropertyMap_Set \<lparr> pm_special = True, pm_data = [] \<rparr> ''schema'' [97])
     (SMap (storage_new [] ''m'' ''volatile_map'')) ''schema'' = Inr [97]"
  using property_read_after_set [of "\<lparr> pm_special = True, pm_data = [] \<rparr>" "''schema''" "[97]"
      "SMap (storage_new [] ''m'' ''volatile_map'')" "''schema''"]
  by (simp add: sm_inv_def is_special_key_def)

end
