(* ===== verification/ContainerManager.thy ===== *)
theory ContainerManager
  imports MemoryStorage
begin

text \<open>
  \<^verbatim>\<open>server/tio/ContainerManager.cpp\<close> and \<^verbatim>\<open>ContainerManager.h\<close>: the manager the protocol handlers of
  the server call.  It finds the storage manager of a type, resolves aliases of types, hands out
  one container object per open name, and keeps the containers \<^verbatim>\<open>__meta__/containers\<close> and
  \<^verbatim>\<open>__meta__/available_types\<close>.  The storage managers are the memory managers of
  \<open>MemoryStorage\<close>, shared objects named by their addresses.  A container object lives while
  somebody holds a \<^verbatim>\<open>shared_ptr\<close> to it; \<open>cm_objects\<close> holds the live objects and \<open>Release\<close> is the end
  of the last outside pointer, which is what makes a \<^verbatim>\<open>weak_ptr\<close> of \<^verbatim>\<open>openContainers_\<close> expire.  The
  mutex of the manager is recursive, so locking it again in a nested call has no effect.
\<close>


section \<open>Reading through a container\<close>

fun any_GetRecord :: "tio_data \<Rightarrow> any_storage \<Rightarrow> (tio_record \<times> any_storage) cpp" where
  "any_GetRecord key (SList s) = bind_res (ls_GetRecord key s) (\<lambda>r. Inr (r, SList s))"
| "any_GetRecord key (SMap s) = bind_res (ms_GetRecord key s) (\<lambda>r. Inr (r, SMap s))"
| "any_GetRecord key (SVector s) = bind_res (vs_GetRecord key s) (\<lambda>(r, s). Inr (r, SVector s))"

definition container_GetRecord :: "tio_data \<Rightarrow> nat \<Rightarrow> storage_manager \<Rightarrow> (tio_record \<times> storage_manager) cpp" where
  "container_GetRecord key a g =
     (case mg_heap g a of
        None \<Rightarrow> Inl (undefined_behaviour ''no such object'')
      | Some (s, p) \<Rightarrow>
          bind_res (any_GetRecord key s) (\<lambda>(r, s). Inr (r, g\<lparr> mg_heap := (mg_heap g)(a \<mapsto> (s, p)) \<rparr>)))"


section \<open>Computations that keep their state when they throw\<close>

definition cm_bind :: "'a cpp \<times> 's \<Rightarrow> ('a \<Rightarrow> 's \<Rightarrow> 'b cpp \<times> 's) \<Rightarrow> 'b cpp \<times> 's" where
  "cm_bind r f = (case r of (Inl e, s) \<Rightarrow> (Inl e, s) | (Inr x, s) \<Rightarrow> f x s)"

text \<open>A call that changes nothing when it throws.\<close>

definition attempt :: "('s \<Rightarrow> ('a \<times> 's) cpp) \<Rightarrow> 's \<Rightarrow> 'a cpp \<times> 's" where
  "attempt f s = (case f s of Inl e \<Rightarrow> (Inl e, s) | Inr (x, s') \<Rightarrow> (Inr x, s'))"

lemma cm_bind_simps [simp]:
  "cm_bind (Inl e, s) f = (Inl e, s)" "cm_bind (Inr x, s) f = f x s"
  by (simp_all add: cm_bind_def)


section \<open>The state\<close>

record container_object =
  co_manager :: nat
  co_storage :: nat

record container_manager =
  cm_managerByType :: "(string \<times> nat) list"
  cm_aliases :: "(string \<times> string) list"
  cm_sink :: bool
  cm_openContainers :: "(string \<times> nat) list"
  cm_meta_containers :: "nat option"
  cm_meta_availableTypes :: "nat option"
  cm_managers :: "nat \<Rightarrow> storage_manager"
  cm_objects :: "nat \<rightharpoonup> container_object"
  cm_fresh :: nat

definition ContainerManager_new :: container_manager where
  "ContainerManager_new =
     \<lparr> cm_managerByType = [], cm_aliases = [], cm_sink = False, cm_openContainers = [],
       cm_meta_containers = None, cm_meta_availableTypes = None,
       cm_managers = (\<lambda>_. MemoryStorageManager_new), cm_objects = Map.empty, cm_fresh = 0 \<rparr>"

datatype operation_type = op_create | op_open

definition str :: "string \<Rightarrow> tio_data" where
  "str s = TString (map of_char s)"

text \<open>A member function of the container object at an address.\<close>

definition object_call ::
    "(nat \<Rightarrow> storage_manager \<Rightarrow> ('a \<times> storage_manager) cpp) \<Rightarrow> nat \<Rightarrow> container_manager \<Rightarrow>
     ('a \<times> container_manager) cpp" where
  "object_call f ob cm =
     (case cm_objects cm ob of
        None \<Rightarrow> Inl (undefined_behaviour ''expired container'')
      | Some c \<Rightarrow>
          bind_res (f (co_storage c) (cm_managers cm (co_manager c))) (\<lambda>(x, g).
            Inr (x, cm\<lparr> cm_managers := (cm_managers cm)(co_manager c := g) \<rparr>)))"

definition object_exec :: "storage_op \<Rightarrow> nat \<Rightarrow> container_manager \<Rightarrow> (unit \<times> container_manager) cpp" where
  "object_exec op = object_call (\<lambda>a g. bind_res (container_exec op a g) (\<lambda>g. Inr ((), g)))"

definition object_SetProperty :: "string \<Rightarrow> byte list \<Rightarrow> nat \<Rightarrow> container_manager \<Rightarrow> (unit \<times> container_manager) cpp" where
  "object_SetProperty k v = object_call (\<lambda>a g. bind_res (container_SetProperty k v a g) (\<lambda>g. Inr ((), g)))"

definition object_GetRecord :: "tio_data \<Rightarrow> nat \<Rightarrow> container_manager \<Rightarrow> (tio_record \<times> container_manager) cpp" where
  "object_GetRecord key = object_call (container_GetRecord key)"

text \<open>A member function called through a \<^verbatim>\<open>shared_ptr\<close> that may be null.\<close>

definition deref_shared :: "nat option \<Rightarrow> nat cpp" where
  "deref_shared p = (case p of None \<Rightarrow> Inl (undefined_behaviour ''null pointer'') | Some ob \<Rightarrow> Inr ob)"


section \<open>The operations\<close>

definition ResolveAlias :: "string \<Rightarrow> container_manager \<Rightarrow> string" where
  "ResolveAlias t cm =
     (if t = [] then t
      else case sm_find t (cm_aliases cm) of Some u \<Rightarrow> u | None \<Rightarrow> t)"

definition GetStorageManagerByType :: "string \<Rightarrow> container_manager \<Rightarrow> nat cpp" where
  "GetStorageManagerByType t cm =
     (let t = ResolveAlias t cm in
      case sm_find t (cm_managerByType cm) of
        None \<Rightarrow> Inl (invalid_argument (''invalid type: '' @ t))
      | Some m \<Rightarrow> Inr m)"

text \<open>A call of the storage manager at an address.\<close>

definition manager_call ::
    "nat \<Rightarrow> (storage_manager \<Rightarrow> ('a \<times> storage_manager) cpp) \<Rightarrow> container_manager \<Rightarrow>
     ('a \<times> container_manager) cpp" where
  "manager_call m f cm =
     bind_res (f (cm_managers cm m)) (\<lambda>(x, g). Inr (x, cm\<lparr> cm_managers := (cm_managers cm)(m := g) \<rparr>))"

text \<open>The object an entry of \<^verbatim>\<open>openContainers_\<close> still leads to.\<close>

definition open_object :: "string \<Rightarrow> container_manager \<Rightarrow> nat option" where
  "open_object n cm =
     (case sm_find n (cm_openContainers cm) of
        None \<Rightarrow> None
      | Some ob \<Rightarrow> if cm_objects cm ob = None then None else Some ob)"

text \<open>\<^verbatim>\<open>new Container(storage, propertyMap)\<close> and its entry in \<^verbatim>\<open>openContainers_\<close>.\<close>

definition new_container :: "string \<Rightarrow> nat \<Rightarrow> nat \<Rightarrow> container_manager \<Rightarrow> nat cpp \<times> container_manager" where
  "new_container n m a cm =
     (let ob = cm_fresh cm in
      (Inr ob, cm\<lparr> cm_objects := (cm_objects cm)(ob \<mapsto> \<lparr> co_manager = m, co_storage = a \<rparr>),
                  cm_fresh := ob + 1,
                  cm_openContainers := sm_set n ob (cm_openContainers cm) \<rparr>))"

text \<open>\<^verbatim>\<open>if(meta_containers_) meta_containers_->Set(name, type)\<close>.\<close>

definition set_meta :: "string \<Rightarrow> string \<Rightarrow> container_manager \<Rightarrow> unit cpp \<times> container_manager" where
  "set_meta n t cm =
     (case cm_meta_containers cm of
        None \<Rightarrow> (Inr (), cm)
      | Some meta \<Rightarrow> attempt (object_exec (OpSet (str n) (str t) TNone) meta) cm)"

text \<open>The type of an open request without a type is looked up in the meta container.\<close>

definition lookup_type :: "string \<Rightarrow> string \<Rightarrow> container_manager \<Rightarrow> string cpp \<times> container_manager" where
  "lookup_type t n cm =
     (if t \<noteq> [] then (Inr t, cm)
      else
        cm_bind (deref_shared (cm_meta_containers cm), cm) (\<lambda>meta cm.
        cm_bind (attempt (object_GetRecord (str n) meta) cm) (\<lambda>(_, v, _) cm.
        cm_bind (AsSz v, cm) (\<lambda>sz cm.
          (Inr (map (\<lambda>b. char_of (unat b)) sz), cm)))))"

definition CreateOrOpen :: "string \<Rightarrow> operation_type \<Rightarrow> string \<Rightarrow> container_manager \<Rightarrow>
    nat cpp \<times> container_manager" where
  "CreateOrOpen t op n cm =
     (let t = ResolveAlias t cm in
      case open_object n cm of
        Some ob \<Rightarrow> (Inr ob, cm)
      | None \<Rightarrow>
          (case op of
             op_create \<Rightarrow>
               cm_bind (GetStorageManagerByType t cm, cm) (\<lambda>m cm.
               cm_bind (attempt (manager_call m (mg_CreateStorage t n)) cm) (\<lambda>a cm.
               cm_bind (set_meta n t cm) (\<lambda>_ cm.
                 new_container n m a cm)))
           | op_open \<Rightarrow>
               cm_bind (lookup_type t n cm) (\<lambda>t cm.
               cm_bind (GetStorageManagerByType t cm, cm) (\<lambda>m cm.
               cm_bind (attempt (manager_call m (mg_OpenStorage t n)) cm) (\<lambda>a cm.
                 new_container n m a cm)))))"

definition CreateContainer :: "string \<Rightarrow> string \<Rightarrow> container_manager \<Rightarrow> nat cpp \<times> container_manager" where
  "CreateContainer t n = CreateOrOpen t op_create n"

definition OpenContainer :: "string \<Rightarrow> string \<Rightarrow> container_manager \<Rightarrow> nat cpp \<times> container_manager" where
  "OpenContainer t n = CreateOrOpen t op_open n"

text \<open>The storage is gone when the meta container turns out not to list the name.\<close>

definition DeleteContainer :: "string \<Rightarrow> string \<Rightarrow> container_manager \<Rightarrow> unit cpp \<times> container_manager" where
  "DeleteContainer t n cm =
     (let t = ResolveAlias t cm in
      cm_bind (GetStorageManagerByType t cm, cm) (\<lambda>m cm.
      cm_bind (attempt (manager_call m (\<lambda>g. bind_res (mg_DeleteStorage t n g) (\<lambda>g. Inr ((), g)))) cm) (\<lambda>_ cm.
      cm_bind (deref_shared (cm_meta_containers cm), cm) (\<lambda>meta cm.
        attempt (object_exec (OpDelete (str n) TNone TNone) meta) cm))))"

definition AddAlias :: "string \<Rightarrow> string \<Rightarrow> container_manager \<Rightarrow> container_manager" where
  "AddAlias a t cm = cm\<lparr> cm_aliases := sm_set a t (cm_aliases cm) \<rparr>"

text \<open>The type is resolved to find the manager, but passed on as it is.\<close>

definition cm_Exists :: "string \<Rightarrow> string \<Rightarrow> container_manager \<Rightarrow> bool cpp" where
  "cm_Exists t n cm =
     bind_res (GetStorageManagerByType t cm) (\<lambda>m. Inr (mg_Exists (cm_managers cm m) t n))"

text \<open>\<^verbatim>\<open>manager->SetSubscriber(sink)\<close>, for a sink that may be empty.\<close>

definition subscribe_manager :: "bool \<Rightarrow> nat \<Rightarrow> container_manager \<Rightarrow> container_manager" where
  "subscribe_manager b m cm =
     (let g = cm_managers cm m in
      cm\<lparr> cm_managers := (cm_managers cm)(m := if b then mg_SetSubscriber g else mg_RemoveSubscriber g) \<rparr>)"

definition cm_SetSubscriber :: "container_manager \<Rightarrow> container_manager" where
  "cm_SetSubscriber cm =
     fold (\<lambda>(_, m). subscribe_manager True m) (cm_managerByType cm) (cm\<lparr> cm_sink := True \<rparr>)"

definition cm_RemoveSubscriber :: "container_manager \<Rightarrow> container_manager" where
  "cm_RemoveSubscriber cm =
     fold (\<lambda>(_, m). subscribe_manager False m) (cm_managerByType cm) (cm\<lparr> cm_sink := False \<rparr>)"

definition push_type :: "string \<Rightarrow> container_manager \<Rightarrow> unit cpp \<times> container_manager" where
  "push_type t cm =
     cm_bind (deref_shared (cm_meta_availableTypes cm), cm) (\<lambda>meta cm.
       attempt (object_exec (OpPushBack TNone (str t) TNone) meta) cm)"

definition register_types :: "nat \<Rightarrow> nat \<Rightarrow> nat \<Rightarrow> container_manager \<Rightarrow> container_manager" where
  "register_types vector_m list_m map_m cm =
     (let cm = subscribe_manager (cm_sink cm) vector_m cm;
          cm = subscribe_manager (cm_sink cm) list_m cm;
          cm = subscribe_manager (cm_sink cm) map_m cm;
          cm = cm\<lparr> cm_managerByType := sm_set ''volatile_vector'' vector_m (cm_managerByType cm) \<rparr>;
          cm = cm\<lparr> cm_managerByType := sm_set ''volatile_list'' list_m (cm_managerByType cm) \<rparr>
      in cm\<lparr> cm_managerByType := sm_set ''volatile_map'' map_m (cm_managerByType cm) \<rparr>)"

definition create_meta :: "container_manager \<Rightarrow> unit cpp \<times> container_manager" where
  "create_meta cm =
     cm_bind (CreateContainer ''volatile_map'' ''__meta__/containers'' cm) (\<lambda>ob cm.
     let cm = cm\<lparr> cm_meta_containers := Some ob \<rparr> in
     cm_bind (CreateContainer ''volatile_vector'' ''__meta__/available_types'' cm) (\<lambda>ob cm.
     let cm = cm\<lparr> cm_meta_availableTypes := Some ob \<rparr> in
     cm_bind (CreateContainer ''volatile_map'' ''__meta__/containers'' cm) (\<lambda>ob cm.
       (Inr (), cm\<lparr> cm_meta_containers := Some ob \<rparr>))))"

definition RegisterFundamentalStorageManagers ::
    "nat \<Rightarrow> nat \<Rightarrow> nat \<Rightarrow> container_manager \<Rightarrow> unit cpp \<times> container_manager" where
  "RegisterFundamentalStorageManagers vector_m list_m map_m cm =
     cm_bind (create_meta (register_types vector_m list_m map_m cm)) (\<lambda>_ cm.
     cm_bind (push_type ''volatile_vector'' cm) (\<lambda>_ cm.
     cm_bind (push_type ''volatile_list'' cm) (\<lambda>_ cm.
       push_type ''volatile_map'' cm)))"

fun list_storages :: "storage_info list \<Rightarrow> container_manager \<Rightarrow> unit cpp \<times> container_manager" where
  "list_storages [] cm = (Inr (), cm)"
| "list_storages (si # rest) cm =
     cm_bind (deref_shared (cm_meta_containers cm), cm) (\<lambda>meta cm.
     cm_bind (attempt (object_exec (OpSet (str (si_name si)) (str (si_type si)) TNone) meta) cm) (\<lambda>_ cm.
       list_storages rest cm))"

definition RegisterStorageManager :: "string \<Rightarrow> nat \<Rightarrow> container_manager \<Rightarrow> unit cpp \<times> container_manager" where
  "RegisterStorageManager t m cm =
     (let cm = subscribe_manager (cm_sink cm) m cm;
          cm = cm\<lparr> cm_managerByType := sm_set t m (cm_managerByType cm) \<rparr>
      in
      cm_bind (push_type t cm) (\<lambda>_ cm.
        list_storages (mg_GetStorageList (cm_managers cm m)) cm))"

text \<open>The last outside pointer to a container object ends; the meta containers are held by the manager.\<close>

definition Release :: "nat \<Rightarrow> container_manager \<Rightarrow> container_manager" where
  "Release ob cm =
     (if cm_meta_containers cm = Some ob \<or> cm_meta_availableTypes cm = Some ob then cm
      else cm\<lparr> cm_objects := (cm_objects cm)(ob := None) \<rparr>)"

text \<open>\<^verbatim>\<open>SetupContainerManager\<close> of \<^verbatim>\<open>tio.cpp\<close>: one memory manager for the three types, then the aliases.\<close>

definition LoadStorageTypes :: "container_manager \<Rightarrow> unit cpp \<times> container_manager" where
  "LoadStorageTypes = RegisterFundamentalStorageManagers 0 0 0"

definition SetupContainerManager :: "(string \<times> string) list \<Rightarrow> unit cpp \<times> container_manager" where
  "SetupContainerManager aliases =
     cm_bind (LoadStorageTypes ContainerManager_new) (\<lambda>_ cm.
       (Inr (), fold (\<lambda>(a, t). AddAlias a t) aliases cm))"


text \<open>The bytes of a string read back as the string.\<close>

lemma char_of_of_char_byte [simp]: "char_of (unat (of_char c :: byte)) = c"
proof -
  have "(of_char c :: byte) = word_of_nat (of_char c)" by (rule of_nat_of_char [symmetric])
  then have "unat (of_char c :: byte) = of_char c" by (simp add: unat_of_nat take_bit_eq_mod)
  then show ?thesis by simp
qed


section \<open>Storages stay in place\<close>

fun any_kind :: "any_storage \<Rightarrow> string" where
  "any_kind (SList s) = ''volatile_list''"
| "any_kind (SMap s) = ''volatile_map''"
| "any_kind (SVector s) = ''volatile_vector''"

text \<open>Every storage, deleted ones that are still held included, is of its declared type and unlocked.\<close>

definition mg_ok :: "storage_manager \<Rightarrow> bool" where
  "mg_ok g \<longleftrightarrow> mg_inv g \<and>
     (\<forall>a s p. mg_heap g a = Some (s, p) \<longrightarrow> any_type s = any_kind s \<and> any_free s)"

definition heap_ext :: "storage_manager \<Rightarrow> storage_manager \<Rightarrow> bool" where
  "heap_ext g g' \<longleftrightarrow>
     (\<forall>a s p. mg_heap g a = Some (s, p) \<longrightarrow>
        (\<exists>s' p'. mg_heap g' a = Some (s', p') \<and> any_name s' = any_name s \<and> any_type s' = any_type s))"

lemma heap_ext_refl [simp]: "heap_ext g g"
  by (simp add: heap_ext_def)

lemma heap_ext_trans: "heap_ext g g' \<Longrightarrow> heap_ext g' g'' \<Longrightarrow> heap_ext g g''"
  unfolding heap_ext_def by metis

lemma heap_extD:
  assumes "heap_ext g g'" and "mg_heap g a = Some (s, p)"
  obtains s' p' where "mg_heap g' a = Some (s', p')" "any_name s' = any_name s" "any_type s' = any_type s"
  using assms unfolding heap_ext_def by metis

lemma any_kind_SetSubscriber [simp]: "any_kind (any_SetSubscriber b s) = any_kind s"
  by (cases s) simp_all

lemma any_kind_exec: "any_exec op s = Inr s' \<Longrightarrow> any_kind s' = any_kind s"
  by (cases s) (auto simp: bind_res_Inr_iff)

text \<open>An update of the heap that keeps name, type, kind and lock of each storage.\<close>

lemma heap_update_ok:
  assumes ok: "mg_ok g" and inv: "mg_inv g'"
    and upd: "\<And>a. mg_heap g' a = map_option (\<lambda>(s, p). (f a s, q a p)) (mg_heap g a)"
    and f: "\<And>a s p. mg_heap g a = Some (s, p) \<Longrightarrow> any_free s \<Longrightarrow> any_name (f a s) = any_name s \<and>
      any_type (f a s) = any_type s \<and> any_kind (f a s) = any_kind s \<and> any_free (f a s)"
  shows "mg_ok g' \<and> heap_ext g g'"
proof
  have heap: "any_type s = any_kind s \<and> any_free s" if "mg_heap g a = Some (s, p)" for a s p
    using ok that unfolding mg_ok_def by blast
  show "mg_ok g'" using inv f heap by (fastforce simp: mg_ok_def upd)
  show "heap_ext g g'" using f heap by (fastforce simp: heap_ext_def upd)
qed

lemma subscribe_ok:
  assumes "mg_ok g" and "mg_inv g'"
    and "\<And>x. mg_heap g' x = (if x \<in> A then map_option (\<lambda>(s, p). (any_SetSubscriber b s, p)) (mg_heap g x)
                               else mg_heap g x)"
  shows "mg_ok g' \<and> heap_ext g g'"
  by (rule heap_update_ok [OF assms(1,2), where f = "\<lambda>x s. if x \<in> A then any_SetSubscriber b s else s" and q = "\<lambda>_ p. p"])
    (auto simp: assms(3) option.map_ident split_def)

lemma create_kind:
  "supportedTypes t = Some create \<Longrightarrow> any_kind (fst (create n t)) = t"
  by (auto simp: supportedTypes_def CreateVectorStorage_def CreateMapStorage_def CreateListStorage_def
      split: if_splits)

lemma create_step_ok:
  assumes ok: "mg_ok g" and cr: "mg_CreateStorage t n g = Inr (a, g')"
  shows "mg_ok g' \<and> heap_ext g g'"
proof -
  have inv: "mg_inv g" and inv': "mg_inv g'"
    using ok mg_inv_Create [OF _ cr] by (simp_all add: mg_ok_def)
  define m where "m = (if n = [] then GenerateNamelessName else n)"
  obtain create where t: "supportedTypes t = Some create"
    using cr by (auto simp: mg_CreateStorage_def split: option.splits)
  show ?thesis
  proof (cases "sm_find (GenerateName t m) (mg_containers g)")
    case None
    have fresh: "mg_heap g (mg_fresh g) = None" using inv by (auto simp: mg_inv_def)
    obtain s q where s: "create m t = (s, q)" by (cases "create m t")
    have h: "mg_heap g' = (mg_heap g)(mg_fresh g \<mapsto> (any_SetSubscriber (mg_sink g) s, q))"
      using cr t None s unfolding mg_CreateStorage_def Let_def m_def [symmetric]
      by (auto simp: heap_subscribe_def)
    have "any_kind s = t \<and> any_type s = t \<and> any_free s"
      using create_ok [OF t, of m] create_kind [OF t, of m] s by simp
    then show ?thesis using ok inv' fresh by (auto simp: mg_ok_def heap_ext_def h)
  next
    case (Some info)
    then have "mg_heap g' = heap_subscribe (mg_sink g) (si_storage info) (mg_heap g)"
      using cr t unfolding mg_CreateStorage_def Let_def m_def [symmetric] by auto
    then show ?thesis
      by (intro subscribe_ok [OF ok inv', where A = "{si_storage info}" and b = "mg_sink g"])
        (simp add: heap_subscribe_at)
  qed
qed

lemma mgr_step_ok: "mgr_step g g' \<Longrightarrow> mg_ok g \<Longrightarrow> mg_ok g' \<and> heap_ext g g'"
proof (induction rule: mgr_step.induct)
  case (create t n g a g')
  then show ?case using create_step_ok by blast
next
  case step: (opened t n g a g')
  have "mg_inv g'" using step mg_inv_Open by (auto simp: mg_ok_def)
  moreover have "mg_heap g' = heap_subscribe (mg_sink g) a (mg_heap g)"
    using step(1) by (auto simp: mg_OpenStorage_def split: if_splits option.splits)
  ultimately show ?case
    using step(2) by (intro subscribe_ok [where A = "{a}" and b = "mg_sink g"]) (simp_all add: heap_subscribe_at)
next
  case step: (deleted t n g g')
  have "mg_inv g'" using step mg_inv_Delete by (auto simp: mg_ok_def)
  moreover have h: "mg_heap g' = mg_heap g"
    using step(1) by (auto simp: mg_DeleteStorage_def split: if_splits)
  ultimately show ?case using step(2) unfolding mg_ok_def heap_ext_def h by blast
next
  case (subscribed g)
  then show ?case
    by (intro subscribe_ok [where A = "(\<lambda>e. si_storage (snd e)) ` set (mg_containers g)" and b = True])
      (auto simp: mg_SetSubscriber_def fold_heap_subscribe mg_ok_def mg_inv_SetSubscriber [unfolded mg_SetSubscriber_def])
next
  case (unsubscribed g)
  then show ?case
    by (intro subscribe_ok [where A = "(\<lambda>e. si_storage (snd e)) ` set (mg_containers g)" and b = False])
      (auto simp: mg_RemoveSubscriber_def fold_heap_subscribe mg_ok_def mg_inv_RemoveSubscriber [unfolded mg_RemoveSubscriber_def])
next
  case step: (modified op a g g')
  have inv: "mg_inv g'" using step mg_inv_exec by (auto simp: mg_ok_def)
  obtain s p s' where s: "mg_heap g a = Some (s, p)" "any_exec op s = Inr s'"
    and g': "g' = g\<lparr> mg_heap := (mg_heap g)(a \<mapsto> (s', p)) \<rparr>"
    using step(1) by (auto simp: container_exec_def bind_res_Inr_iff split: option.splits)
  show ?case
    by (rule heap_update_ok [OF step(2) inv, where f = "\<lambda>x y. if x = a then s' else y" and q = "\<lambda>_ p. p"])
      (use s g' any_exec_keeps [OF s(2)] any_kind_exec [OF s(2)] in \<open>auto simp: option.map_ident split_def\<close>)
next
  case step: (property k v a g g')
  have inv: "mg_inv g'" using step mg_inv_property by (auto simp: mg_ok_def)
  obtain s p where s: "mg_heap g a = Some (s, p)"
    and g': "g' = g\<lparr> mg_heap := (mg_heap g)(a \<mapsto> (s, PropertyMap_Set p k v)) \<rparr>"
    using step(1) by (auto simp: container_SetProperty_def split: option.splits)
  show ?case
    by (rule heap_update_ok [OF step(2) inv, where f = "\<lambda>_ s. s" and
          q = "\<lambda>x p. if x = a then PropertyMap_Set p k v else p"])
      (use s g' in \<open>auto simp: option.map_ident split_def\<close>)
qed


text \<open>What creating and opening return: a storage of the type with the asked name.\<close>

definition named :: "string \<Rightarrow> any_storage \<Rightarrow> bool" where
  "named n s \<longleftrightarrow> any_name s = n \<or> n = [] \<and> any_name s = GenerateNamelessName"

lemma GenerateName_inject:
  assumes "supportedTypes t \<noteq> None" and "supportedTypes u \<noteq> None" and "GenerateName t n = GenerateName u m"
  shows "t = u \<and> n = m"
  using assms by (auto simp: supportedTypes_def GenerateName_def split: if_splits)

lemma entry_storage:
  assumes inv: "mg_inv g" and t: "supportedTypes t \<noteq> None"
    and find: "sm_find (GenerateName t n) (mg_containers g) = Some i"
  obtains s p where "mg_heap g (si_storage i) = Some (s, p)" "any_name s = n" "any_type s = t"
proof -
  have "(GenerateName t n, i) \<in> set (mg_containers g)"
    using find inv sm.find_items [of "mg_containers g" "GenerateName t n" i] by (simp add: mg_inv_def)
  then have "entry_ok g (GenerateName t n, i)" using inv by (simp add: mg_inv_def)
  then obtain s p where s: "mg_heap g (si_storage i) = Some (s, p)" "any_type s = si_type i"
    "supportedTypes (si_type i) \<noteq> None" "GenerateName t n = GenerateName (any_type s) (any_name s)"
    unfolding entry_ok_def by auto
  then show ?thesis using that GenerateName_inject [OF t, of "any_type s" n "any_name s"] by simp
qed

lemma create_returns:
  assumes inv: "mg_inv g" and cr: "mg_CreateStorage t n g = Inr (a, g')"
  obtains s p i where "mg_heap g' a = Some (s, p)" "named n s" "any_type s = t" "supportedTypes t \<noteq> None"
    "sm_find (GenerateName t (if n = [] then GenerateNamelessName else n)) (mg_containers g') = Some i"
    "si_storage i = a"
proof -
  define m where "m = (if n = [] then GenerateNamelessName else n)"
  have sm: "sm_inv (mg_containers g)" using inv by (simp add: mg_inv_def)
  obtain create where t: "supportedTypes t = Some create"
    using cr by (auto simp: mg_CreateStorage_def split: option.splits)
  have "\<exists>i. sm_find (GenerateName t m) (mg_containers g') = Some i \<and> si_storage i = a"
    using cr t unfolding mg_CreateStorage_def Let_def m_def [symmetric]
    by (auto simp: sm.find_set [OF sm] split: option.splits)
  then obtain i where i: "sm_find (GenerateName t m) (mg_containers g') = Some i" "si_storage i = a" by blast
  show ?thesis
    by (rule entry_storage [OF mg_inv_Create [OF inv cr] _ i(1)])
      (use t i that in \<open>auto simp: m_def named_def split: if_splits\<close>)
qed

lemma open_returns:
  assumes inv: "mg_inv g" and op: "mg_OpenStorage t n g = Inr (a, g')"
  obtains s p where "mg_heap g' a = Some (s, p)" "named n s" "any_type s = t"
proof -
  obtain i where i: "sm_find (GenerateName t n) (mg_containers g) = Some i" "a = si_storage i"
    and t: "supportedTypes t \<noteq> None" and h: "mg_heap g' = heap_subscribe (mg_sink g) a (mg_heap g)"
    using op by (auto simp: mg_OpenStorage_def GenerateName_def split: if_splits option.splits)
  show ?thesis
    by (rule entry_storage [OF inv t i(1)]) (use that i h in \<open>auto simp: heap_subscribe_at named_def\<close>)
qed

lemma GetRecord_unchanged:
  assumes "mg_ok g" and "container_GetRecord key a g = Inr (r, g')"
  shows "g' = g"
proof -
  obtain s p s' where s: "mg_heap g a = Some (s, p)" "any_GetRecord key s = Inr (r, s')"
    and g': "g' = g\<lparr> mg_heap := (mg_heap g)(a \<mapsto> (s', p)) \<rparr>"
    using assms(2) by (auto simp: container_GetRecord_def bind_res_Inr_iff split: option.splits)
  have "any_free s" using assms(1) s(1) unfolding mg_ok_def by blast
  then have "s' = s"
    using s(2) by (cases s) (auto simp: bind_res_Inr_iff vs_GetRecord_def vs_guarded_def vs_lock_def vs_unlock_def)
  then show ?thesis using s(1) g' by (simp add: fun_upd_idem)
qed


section \<open>The invariant\<close>

definition object_ok :: "container_manager \<Rightarrow> nat \<Rightarrow> container_object \<Rightarrow> bool" where
  "object_ok cm ob c \<longleftrightarrow> ob < cm_fresh cm \<and>
     (\<exists>n s p. sm_find n (cm_openContainers cm) = Some ob \<and>
        mg_heap (cm_managers cm (co_manager c)) (co_storage c) = Some (s, p) \<and> named n s)"

definition meta_ok :: "container_manager \<Rightarrow> string \<Rightarrow> nat option \<Rightarrow> bool" where
  "meta_ok cm t p \<longleftrightarrow>
     (\<forall>ob. p = Some ob \<longrightarrow> (\<exists>c s q. cm_objects cm ob = Some c \<and>
        mg_heap (cm_managers cm (co_manager c)) (co_storage c) = Some (s, q) \<and> any_type s = t))"

definition cm_inv :: "container_manager \<Rightarrow> bool" where
  "cm_inv cm \<longleftrightarrow>
     (\<forall>m. mg_ok (cm_managers cm m)) \<and> sm_inv (cm_openContainers cm) \<and>
     (\<forall>ob c. cm_objects cm ob = Some c \<longrightarrow> object_ok cm ob c) \<and>
     meta_ok cm ''volatile_map'' (cm_meta_containers cm) \<and>
     meta_ok cm ''volatile_vector'' (cm_meta_availableTypes cm)"

lemma cm_invD:
  assumes "cm_inv cm"
  shows "mg_ok (cm_managers cm m)" and "sm_inv (cm_openContainers cm)"
    and "cm_objects cm ob = Some c \<Longrightarrow> object_ok cm ob c"
  using assms by (simp_all add: cm_inv_def)

lemma cm_inv_new: "cm_inv ContainerManager_new"
  using mg_inv_new
  by (simp add: cm_inv_def ContainerManager_new_def mg_ok_def meta_ok_def sm_inv_def MemoryStorageManager_new_def)

text \<open>A step of one storage manager keeps the invariant of the container manager.\<close>

lemma object_ok_ext:
  assumes "object_ok cm ob c" and "\<And>m. heap_ext (cm_managers cm m) (cm_managers cm' m)"
    and "cm_fresh cm' = cm_fresh cm" and "cm_openContainers cm' = cm_openContainers cm"
  shows "object_ok cm' ob c"
proof -
  obtain n s p where s: "sm_find n (cm_openContainers cm) = Some ob" "ob < cm_fresh cm" "named n s"
    "mg_heap (cm_managers cm (co_manager c)) (co_storage c) = Some (s, p)"
    using assms(1) unfolding object_ok_def by blast
  then obtain s' p' where "mg_heap (cm_managers cm' (co_manager c)) (co_storage c) = Some (s', p')"
    "any_name s' = any_name s" by (elim heap_extD [OF assms(2)])
  then show ?thesis unfolding object_ok_def assms(3,4) using s by (auto simp: named_def)
qed

lemma meta_ok_ext:
  assumes "meta_ok cm t p" and "\<And>m. heap_ext (cm_managers cm m) (cm_managers cm' m)"
    and "cm_objects cm' = cm_objects cm"
  shows "meta_ok cm' t p"
  unfolding meta_ok_def assms(3)
proof (intro allI impI)
  fix ob assume "p = Some ob"
  then obtain c s q where s: "cm_objects cm ob = Some c" "any_type s = t"
    "mg_heap (cm_managers cm (co_manager c)) (co_storage c) = Some (s, q)"
    using assms(1) unfolding meta_ok_def by blast
  then show "\<exists>c s q. cm_objects cm ob = Some c \<and>
      mg_heap (cm_managers cm' (co_manager c)) (co_storage c) = Some (s, q) \<and> any_type s = t"
    by (metis assms(2) heap_extD)
qed

lemma cm_inv_step:
  assumes inv: "cm_inv cm" and step: "mgr_step (cm_managers cm m) g"
  shows "cm_inv (cm\<lparr> cm_managers := (cm_managers cm)(m := g) \<rparr>)" (is "cm_inv ?cm")
proof -
  have g: "mg_ok g" "heap_ext (cm_managers cm m) g"
    using mgr_step_ok [OF step cm_invD(1) [OF inv]] by simp_all
  then have ext: "heap_ext (cm_managers cm k) (cm_managers ?cm k)" for k by simp
  show ?thesis
    using inv g(1) object_ok_ext [of cm _ _ ?cm, OF _ ext] meta_ok_ext [of cm _ _ ?cm, OF _ ext]
    by (simp add: cm_inv_def)
qed


text \<open>The calls that only reach into the storage managers.\<close>

definition cm_ext :: "container_manager \<Rightarrow> container_manager \<Rightarrow> bool" where
  "cm_ext cm cm' \<longleftrightarrow> (\<forall>m. heap_ext (cm_managers cm m) (cm_managers cm' m)) \<and>
     (\<exists>ms. cm' = cm\<lparr> cm_managers := ms \<rparr>)"

lemma cm_ext_refl [simp]: "cm_ext cm cm"
  by (auto simp: cm_ext_def intro: exI [of _ "cm_managers cm"])

lemma cm_ext_trans: "cm_ext cm cm' \<Longrightarrow> cm_ext cm' cm'' \<Longrightarrow> cm_ext cm cm''"
  by (auto simp: cm_ext_def intro: heap_ext_trans)

lemma cm_ext_fields:
  assumes "cm_ext cm cm'"
  shows "cm_objects cm' = cm_objects cm" "cm_fresh cm' = cm_fresh cm"
    "cm_openContainers cm' = cm_openContainers cm" "cm_meta_containers cm' = cm_meta_containers cm"
    "cm_meta_availableTypes cm' = cm_meta_availableTypes cm" "cm_aliases cm' = cm_aliases cm"
    "cm_managerByType cm' = cm_managerByType cm" "open_object n cm' = open_object n cm"
    "ResolveAlias t cm' = ResolveAlias t cm" "GetStorageManagerByType t cm' = GetStorageManagerByType t cm"
  using assms
  by (auto simp: cm_ext_def open_object_def ResolveAlias_def GetStorageManagerByType_def split: option.splits)

lemma cm_step_ext:
  assumes "cm_inv cm" and "mgr_step (cm_managers cm m) g" and "cm' = cm\<lparr> cm_managers := (cm_managers cm)(m := g) \<rparr>"
  shows "cm_inv cm' \<and> cm_ext cm cm'"
  using cm_inv_step [OF assms(1,2)] mgr_step_ok [OF assms(2) cm_invD(1) [OF assms(1)]] assms(3)
  by (auto simp: cm_ext_def)

lemma manager_call_ext:
  assumes "cm_inv cm" and "attempt (manager_call m f) cm = (r, cm')"
    and "\<And>x g. f (cm_managers cm m) = Inr (x, g) \<Longrightarrow> mgr_step (cm_managers cm m) g"
  shows "cm_inv cm' \<and> cm_ext cm cm' \<and>
     (\<forall>x. r = Inr x \<longrightarrow> f (cm_managers cm m) = Inr (x, cm_managers cm' m))"
proof (cases "f (cm_managers cm m)")
  case (Inl e)
  then show ?thesis using assms(1,2) by (auto simp: attempt_def manager_call_def)
next
  case (Inr y)
  obtain x g where y: "y = (x, g)" by (cases y)
  then have "cm' = cm\<lparr> cm_managers := (cm_managers cm)(m := g) \<rparr> \<and> r = Inr x"
    using assms(2) Inr by (auto simp: attempt_def manager_call_def)
  then show ?thesis using cm_step_ext [OF assms(1) assms(3)] Inr y by auto
qed

lemma object_call_cases:
  assumes "attempt (object_call f ob) cm = (r, cm')"
  obtains e where "r = Inl e" "cm' = cm"
  | c x g where "cm_objects cm ob = Some c" "f (co_storage c) (cm_managers cm (co_manager c)) = Inr (x, g)"
      "r = Inr x" "cm' = cm\<lparr> cm_managers := (cm_managers cm)(co_manager c := g) \<rparr>"
proof (cases "cm_objects cm ob")
  case None
  then show ?thesis using assms that(1) by (auto simp: attempt_def object_call_def)
next
  case (Some c)
  show ?thesis
  proof (cases "f (co_storage c) (cm_managers cm (co_manager c))")
    case (Inl e)
    then show ?thesis using assms Some that(1) by (auto simp: attempt_def object_call_def)
  next
    case (Inr y)
    then show ?thesis
      using assms Some that(2) [OF Some, of "fst y" "snd y"]
      by (cases y) (simp add: attempt_def object_call_def)
  qed
qed

lemma object_exec_ext:
  assumes inv: "cm_inv cm" and "attempt (object_exec op ob) cm = (r, cm')"
  shows "cm_inv cm' \<and> cm_ext cm cm'"
  using assms(2) unfolding object_exec_def
proof (cases rule: object_call_cases)
  case (2 c x g)
  then have "container_exec op (co_storage c) (cm_managers cm (co_manager c)) = Inr g"
    by (simp add: bind_res_Inr_iff)
  then show ?thesis using cm_step_ext [OF inv mgr_step.modified] 2(4) by blast
qed (simp add: inv)

lemma object_GetRecord_unchanged:
  assumes inv: "cm_inv cm" and "attempt (object_GetRecord key ob) cm = (r, cm')"
  shows "cm' = cm"
  using assms(2) unfolding object_GetRecord_def
proof (cases rule: object_call_cases)
  case (2 c x g)
  then show ?thesis using GetRecord_unchanged [OF cm_invD(1) [OF inv] 2(2)] by simp
qed

lemma cm_bind_cases:
  assumes "cm_bind r f = (x, s')"
  obtains e s where "r = (Inl e, s)" "x = Inl e" "s' = s" | y s where "r = (Inr y, s)" "f y s = (x, s')"
  using assms by (auto simp: cm_bind_def split: prod.splits sum.splits)

text \<open>A new object for a name that is not open.\<close>

lemma new_container_ok:
  assumes inv: "cm_inv cm" and closed: "open_object n cm = None"
    and s: "mg_heap (cm_managers cm m) a = Some (s, p)" "named n s"
    and new: "new_container n m a cm = (r, cm')"
  shows "cm_inv cm' \<and> (\<exists>ob. r = Inr ob \<and> open_object n cm' = Some ob \<and>
           cm_objects cm' ob = Some \<lparr> co_manager = m, co_storage = a \<rparr>)"
proof
  have sm: "sm_inv (cm_openContainers cm)" by (rule cm_invD [OF inv])
  have cm': "cm' = cm\<lparr> cm_objects := (cm_objects cm)(cm_fresh cm \<mapsto> \<lparr> co_manager = m, co_storage = a \<rparr>),
      cm_fresh := cm_fresh cm + 1, cm_openContainers := sm_set n (cm_fresh cm) (cm_openContainers cm) \<rparr>"
    and r: "r = Inr (cm_fresh cm)"
    using new by (auto simp: new_container_def Let_def)
  have old: "object_ok cm' ob c" if ob: "cm_objects cm ob = Some c" for ob c
  proof -
    have "object_ok cm ob c" by (rule cm_invD(3) [OF inv ob])
    moreover have "k \<noteq> n" if "sm_find k (cm_openContainers cm) = Some ob" for k
      using closed that ob by (auto simp: open_object_def split: if_splits)
    ultimately show ?thesis unfolding object_ok_def cm'
      by (auto simp: sm.find_set [OF sm] less_Suc_eq)
  qed
  have fresh: "cm_objects cm ob \<noteq> None \<Longrightarrow> ob \<noteq> cm_fresh cm" for ob
    using cm_invD(3) [OF inv] by (fastforce simp: object_ok_def)
  have "object_ok cm' (cm_fresh cm) \<lparr> co_manager = m, co_storage = a \<rparr>"
    unfolding object_ok_def cm' using s by (auto simp: sm.find_set [OF sm])
  moreover have "meta_ok cm' t q" if "meta_ok cm t q" for t q
    using that fresh unfolding meta_ok_def cm' by fastforce
  ultimately show "cm_inv cm'"
    using inv old sm.set_inv [OF sm] unfolding cm_inv_def by (simp add: cm')
  show "\<exists>ob. r = Inr ob \<and> open_object n cm' = Some ob \<and>
      cm_objects cm' ob = Some \<lparr> co_manager = m, co_storage = a \<rparr>"
    by (simp add: r cm' open_object_def sm.find_set [OF sm])
qed


lemma set_meta_ext:
  assumes inv: "cm_inv cm" and "set_meta n t cm = (r, cm')"
  shows "cm_inv cm' \<and> cm_ext cm cm'"
proof (cases "cm_meta_containers cm")
  case (Some ob)
  then show ?thesis using object_exec_ext [OF inv, of _ ob r cm'] assms(2) by (simp add: set_meta_def)
qed (use assms in \<open>simp add: set_meta_def\<close>)

lemma lookup_type_unchanged:
  assumes inv: "cm_inv cm" and "lookup_type t n cm = (r, cm')"
  shows "cm' = cm"
proof (cases "cm_meta_containers cm")
  case None
  then show ?thesis using assms(2) by (auto simp: lookup_type_def deref_shared_def split: if_splits)
next
  case (Some ob)
  obtain x cm1 where x: "attempt (object_GetRecord (str n) ob) cm = (x, cm1)" by fastforce
  moreover have "cm1 = cm" by (rule object_GetRecord_unchanged [OF inv x])
  ultimately show ?thesis using assms(2) Some
    by (auto simp: lookup_type_def deref_shared_def cm_bind_def split: if_splits sum.splits)
qed

text \<open>The two ways a request for a name that is not open ends.\<close>

lemma create_new:
  assumes inv: "cm_inv cm" and closed: "open_object n cm = None"
    and call: "CreateOrOpen t op_create n cm = (r, cm')"
  obtains e where "r = Inl e" "cm_inv cm'" "cm_ext cm cm'"
  | m a cm1 cm2 where "GetStorageManagerByType (ResolveAlias t cm) cm = Inr m" "cm_inv cm1" "cm_ext cm cm1"
      "mg_CreateStorage (ResolveAlias t cm) n (cm_managers cm m) = Inr (a, cm_managers cm1 m)"
      "set_meta n (ResolveAlias t cm) cm1 = (Inr (), cm2)" "cm_inv cm2" "cm_ext cm1 cm2"
      "new_container n m a cm2 = (r, cm')"
proof -
  define u where "u = ResolveAlias t cm"
  have run: "cm_bind (GetStorageManagerByType u cm, cm) (\<lambda>m cm.
      cm_bind (attempt (manager_call m (mg_CreateStorage u n)) cm) (\<lambda>a cm.
      cm_bind (set_meta n u cm) (\<lambda>_ cm. new_container n m a cm))) = (r, cm')"
    using call closed by (simp add: CreateOrOpen_def Let_def u_def)
  show ?thesis
  proof (cases "GetStorageManagerByType u cm")
    case (Inl e)
    then show ?thesis using run inv that(1) [of e] by simp
  next
    case (Inr m)
    obtain x cm1 where x: "attempt (manager_call m (mg_CreateStorage u n)) cm = (x, cm1)" by fastforce
    have 1: "cm_inv cm1" "cm_ext cm cm1"
      "\<And>a. x = Inr a \<Longrightarrow> mg_CreateStorage u n (cm_managers cm m) = Inr (a, cm_managers cm1 m)"
      using manager_call_ext [OF inv x] mgr_step.create by auto
    obtain y cm2 where y: "set_meta n u cm1 = (y, cm2)" by fastforce
    have 2: "cm_inv cm2" "cm_ext cm1 cm2" using set_meta_ext [OF 1(1) y] by auto
    show ?thesis
      by (cases x; cases y)
        (use run Inr x y 1 2 that cm_ext_trans [OF 1(2) 2(2)] in \<open>auto simp: u_def\<close>)
  qed
qed

lemma open_new:
  assumes inv: "cm_inv cm" and closed: "open_object n cm = None"
    and call: "CreateOrOpen t op_open n cm = (r, cm')"
  obtains e where "r = Inl e" "cm_inv cm'" "cm_ext cm cm'"
  | u m a cm1 where "lookup_type (ResolveAlias t cm) n cm = (Inr u, cm)" "cm_inv cm1" "cm_ext cm cm1"
      "GetStorageManagerByType u cm = Inr m"
      "mg_OpenStorage u n (cm_managers cm m) = Inr (a, cm_managers cm1 m)"
      "new_container n m a cm1 = (r, cm')"
proof -
  have run: "cm_bind (lookup_type (ResolveAlias t cm) n cm) (\<lambda>u cm.
      cm_bind (GetStorageManagerByType u cm, cm) (\<lambda>m cm.
      cm_bind (attempt (manager_call m (mg_OpenStorage u n)) cm) (\<lambda>a cm. new_container n m a cm))) = (r, cm')"
    using call closed by (simp add: CreateOrOpen_def Let_def)
  obtain z cm0 where z: "lookup_type (ResolveAlias t cm) n cm = (z, cm0)" by fastforce
  have cm0: "cm0 = cm" by (rule lookup_type_unchanged [OF inv z])
  show ?thesis
  proof (cases z)
    case (Inl e)
    then show ?thesis using run inv z cm0 that(1) [of e] by simp
  next
    case u: (Inr u)
    show ?thesis
    proof (cases "GetStorageManagerByType u cm")
      case (Inl e)
      then show ?thesis using run inv z u cm0 that(1) [of e] by simp
    next
      case (Inr m)
      obtain x cm1 where x: "attempt (manager_call m (mg_OpenStorage u n)) cm = (x, cm1)" by fastforce
      have 1: "cm_inv cm1" "cm_ext cm cm1"
        "\<And>a. x = Inr a \<Longrightarrow> mg_OpenStorage u n (cm_managers cm m) = Inr (a, cm_managers cm1 m)"
        using manager_call_ext [OF inv x] mgr_step.opened by auto
      show ?thesis
        by (cases x) (use run Inr z u cm0 x 1 that in auto)
    qed
  qed
qed

lemma CreateOrOpen_cases:
  assumes inv: "cm_inv cm" and call: "CreateOrOpen t op n cm = (r, cm')"
  obtains (reused) ob where "open_object n cm = Some ob" "r = Inr ob" "cm' = cm"
  | (failed) e where "open_object n cm = None" "r = Inl e" "cm_inv cm'" "cm_ext cm cm'"
  | (made) m a cm2 s p where "open_object n cm = None" "cm_inv cm2" "cm_ext cm cm2"
      "mg_heap (cm_managers cm2 m) a = Some (s, p)" "named n s" "new_container n m a cm2 = (r, cm')"
      "op = op_create \<Longrightarrow> any_type s = ResolveAlias t cm"
proof (cases "open_object n cm")
  case (Some ob)
  then have "r = Inr ob" "cm' = cm" using call by (simp_all add: CreateOrOpen_def Let_def)
  then show ?thesis by (rule reused [OF Some])
next
  case closed: None
  show ?thesis
  proof (cases op)
    case op_create
    then have c: "CreateOrOpen t op_create n cm = (r, cm')" using call by simp
    show ?thesis
    proof (cases rule: create_new [OF inv closed c, case_names failed1 made1])
      case (made1 m a cm1 cm2)
      obtain s p where s: "mg_heap (cm_managers cm1 m) a = Some (s, p)" "named n s" "any_type s = ResolveAlias t cm"
        using create_returns [OF _ made1(4)] cm_invD(1) [OF inv] by (metis mg_ok_def)
      obtain s' p' where s': "mg_heap (cm_managers cm2 m) a = Some (s', p')" "any_name s' = any_name s"
        "any_type s' = any_type s"
        using made1(7) heap_extD [OF _ s(1)] unfolding cm_ext_def by metis
      show ?thesis
        by (rule made [OF closed made1(6) cm_ext_trans [OF made1(3,7)] s'(1) _ made1(8)])
          (use s s' in \<open>auto simp: named_def\<close>)
    next
      case (failed1 e)
      then show ?thesis by (rule failed [OF closed])
    qed
  next
    case op_open
    then have c: "CreateOrOpen t op_open n cm = (r, cm')" using call by simp
    show ?thesis
    proof (cases rule: open_new [OF inv closed c, case_names failed1 made1])
      case (made1 u m a cm1)
      obtain s p where s: "mg_heap (cm_managers cm1 m) a = Some (s, p)" "named n s"
        using open_returns [OF _ made1(5)] cm_invD(1) [OF inv] by (metis mg_ok_def)
      show ?thesis by (rule made [OF closed made1(2,3) s made1(6)]) (use op_open in simp)
    next
      case (failed1 e)
      then show ?thesis by (rule failed [OF closed])
    qed
  qed
qed

lemma CreateOrOpen_ok:
  assumes inv: "cm_inv cm" and call: "CreateOrOpen t op n cm = (r, cm')"
  shows "cm_inv cm' \<and> (\<forall>ob. r = Inr ob \<longrightarrow> open_object n cm' = Some ob)"
  using inv call
proof (cases rule: CreateOrOpen_cases)
  case (made m a cm2 s p)
  have "open_object n cm2 = None" using made(1) cm_ext_fields(8) [OF made(3)] by simp
  from new_container_ok [OF made(2) this made(4,5,6)] show ?thesis by auto
qed (use inv in auto)

lemma CreateOrOpen_fields:
  assumes inv: "cm_inv cm" and call: "CreateOrOpen t op n cm = (r, cm')"
  shows "cm_meta_containers cm' = cm_meta_containers cm \<and>
    cm_meta_availableTypes cm' = cm_meta_availableTypes cm \<and> cm_aliases cm' = cm_aliases cm \<and>
    cm_managerByType cm' = cm_managerByType cm"
  using inv call
proof (cases rule: CreateOrOpen_cases)
  case (failed e)
  show ?thesis using cm_ext_fields(4-7) [OF failed(4)] by simp
next
  case (made m a cm2 s p)
  have "cm_meta_containers cm' = cm_meta_containers cm2 \<and>
      cm_meta_availableTypes cm' = cm_meta_availableTypes cm2 \<and> cm_aliases cm' = cm_aliases cm2 \<and>
      cm_managerByType cm' = cm_managerByType cm2"
    using made(6) by (auto simp: new_container_def Let_def)
  then show ?thesis using cm_ext_fields(4-7) [OF made(3)] by simp
qed simp

text \<open>What is open stays open.\<close>

lemma CreateOrOpen_keeps:
  assumes inv: "cm_inv cm" and call: "CreateOrOpen t op n cm = (r, cm')" and k: "open_object k cm = Some ob"
  shows "open_object k cm' = Some ob \<and> cm_objects cm' ob = cm_objects cm ob"
  using inv call
proof (cases rule: CreateOrOpen_cases)
  case (failed e)
  show ?thesis using k cm_ext_fields(1,8) [OF failed(4)] by simp
next
  case (made m a cm2 s p)
  have "k \<noteq> n" using k made(1) by auto
  moreover have ob: "sm_find k (cm_openContainers cm) = Some ob" "cm_objects cm ob \<noteq> None"
    using k by (auto simp: open_object_def split: option.splits if_splits)
  moreover have "ob \<noteq> cm_fresh cm" using cm_invD(3) [OF inv] ob(2) by (fastforce simp: object_ok_def)
  moreover have "cm_openContainers cm' = sm_set n (cm_fresh cm) (cm_openContainers cm)"
    "cm_objects cm' = (cm_objects cm)(cm_fresh cm \<mapsto> \<lparr> co_manager = m, co_storage = a \<rparr>)"
    using made(6) cm_ext_fields(1-3) [OF made(3)] by (auto simp: new_container_def Let_def)
  ultimately show ?thesis using sm.find_set [OF cm_invD(2) [OF inv]] by (simp add: open_object_def)
qed (use k in simp)

end
