(* ===== verification/ContainerProperties.thy ===== *)
theory ContainerProperties
  imports ContainerManager
begin

text \<open>
  What the container manager promises to the protocol handlers.  Every operation keeps the
  invariant \<open>cm_inv\<close>; a run of the server is a path of \<open>cm_step\<close>, and the invariant is carried along it
  by rule induction.  Then: a created container is found again by its name alone, and what
  happens to the requests that meet a container which is still open.
\<close>


section \<open>Every operation keeps the invariant\<close>

text \<open>One step of the server on the container manager.\<close>

inductive cm_step :: "container_manager \<Rightarrow> container_manager \<Rightarrow> bool" where
  created: "CreateContainer t n cm = (r, cm') \<Longrightarrow> cm_step cm cm'"
| reopened: "OpenContainer t n cm = (r, cm') \<Longrightarrow> cm_step cm cm'"
| removed: "DeleteContainer t n cm = (r, cm') \<Longrightarrow> cm_step cm cm'"
| aliased: "cm_step cm (AddAlias a t cm)"
| listened: "cm_step cm (cm_SetSubscriber cm)"
| unlistened: "cm_step cm (cm_RemoveSubscriber cm)"
| registered: "RegisterStorageManager t m cm = (r, cm') \<Longrightarrow> cm_step cm cm'"
| executed: "attempt (object_exec op ob) cm = (r, cm') \<Longrightarrow> cm_step cm cm'"
| property_set: "attempt (object_SetProperty k v ob) cm = (r, cm') \<Longrightarrow> cm_step cm cm'"
| released: "cm_step cm (Release ob cm)"

inductive_cases cm_stepE: "cm_step cm cm'"

text \<open>The manager after its setup: the invariant, and the meta containers are there.\<close>

definition cm_ready :: "container_manager \<Rightarrow> bool" where
  "cm_ready cm \<longleftrightarrow> cm_inv cm \<and> cm_meta_containers cm \<noteq> None \<and> cm_meta_availableTypes cm \<noteq> None"

lemma ready_ext: "cm_ready cm \<Longrightarrow> cm_inv cm' \<and> cm_ext cm cm' \<Longrightarrow> cm_ready cm'"
  using cm_ext_fields(4,5) unfolding cm_ready_def by metis

lemma ready_inv: "cm_ready cm \<Longrightarrow> cm_inv cm"
  by (simp add: cm_ready_def)

lemma cm_inv_fields:
  "cm_inv (cm\<lparr> cm_managerByType := x \<rparr>) = cm_inv cm" "cm_inv (cm\<lparr> cm_sink := b \<rparr>) = cm_inv cm"
  "cm_inv (cm\<lparr> cm_aliases := y \<rparr>) = cm_inv cm"
  by (simp_all add: cm_inv_def object_ok_def meta_ok_def)

lemma object_SetProperty_ext:
  assumes inv: "cm_inv cm" and "attempt (object_SetProperty k v ob) cm = (r, cm')"
  shows "cm_inv cm' \<and> cm_ext cm cm'"
  using assms(2) unfolding object_SetProperty_def
proof (cases rule: object_call_cases)
  case (2 c x g)
  then have "container_SetProperty k v (co_storage c) (cm_managers cm (co_manager c)) = Inr g"
    by (simp add: bind_res_Inr_iff)
  then show ?thesis using cm_step_ext [OF inv mgr_step.property] 2(4) by blast
qed (simp add: inv)

lemma subscribe_manager_ext:
  assumes "cm_inv cm"
  shows "cm_inv (subscribe_manager b m cm) \<and> cm_ext cm (subscribe_manager b m cm)"
  using cm_step_ext [OF assms mgr_step.subscribed, of _ m] cm_step_ext [OF assms mgr_step.unsubscribed, of _ m]
  by (cases b) (simp_all add: subscribe_manager_def Let_def)

lemma fold_subscribe_ext:
  "cm_inv cm \<Longrightarrow> cm_inv (fold (\<lambda>(_, m). subscribe_manager b m) ms cm) \<and>
     cm_ext cm (fold (\<lambda>(_, m). subscribe_manager b m) ms cm)"
proof (induction ms arbitrary: cm)
  case (Cons e ms)
  then show ?case
    using subscribe_manager_ext [OF Cons.prems, of b "snd e"] cm_ext_trans
    by (cases e) fastforce
qed simp

lemma push_type_ext:
  assumes "cm_inv cm" and "push_type t cm = (r, cm')"
  shows "cm_inv cm' \<and> cm_ext cm cm'"
  using assms object_exec_ext [OF assms(1)] by (auto simp: push_type_def deref_shared_def split: option.splits)

lemma list_storages_ext:
  "cm_inv cm \<Longrightarrow> list_storages sis cm = (r, cm') \<Longrightarrow> cm_inv cm' \<and> cm_ext cm cm'"
proof (induction sis arbitrary: cm)
  case (Cons si sis)
  show ?case
  proof (cases "cm_meta_containers cm")
    case None
    then show ?thesis using Cons.prems by (auto simp: deref_shared_def)
  next
    case (Some ob)
    obtain x cm1 where x: "attempt (object_exec (OpSet (str (si_name si)) (str (si_type si)) TNone) ob) cm = (x, cm1)"
      by fastforce
    have 1: "cm_inv cm1" "cm_ext cm cm1" using object_exec_ext [OF Cons.prems(1) x] by simp_all
    show ?thesis
    proof (cases x)
      case (Inl e)
      then show ?thesis using Cons.prems(2) Some x 1 by (auto simp: deref_shared_def)
    next
      case (Inr u)
      then have "list_storages sis cm1 = (r, cm')" using Cons.prems(2) Some x by (simp add: deref_shared_def)
      then show ?thesis using Cons.IH [OF 1(1)] cm_ext_trans [OF 1(2)] by blast
    qed
  qed
qed simp

lemma DeleteContainer_ext:
  assumes inv: "cm_inv cm" and call: "DeleteContainer t n cm = (r, cm')"
  shows "cm_inv cm' \<and> cm_ext cm cm'"
proof -
  define u where "u = ResolveAlias t cm"
  define del where "del = (\<lambda>g. bind_res (mg_DeleteStorage u n g) (\<lambda>g. Inr ((), g)))"
  show ?thesis
  proof (cases "GetStorageManagerByType u cm")
    case (Inl e)
    then show ?thesis using call inv by (auto simp: DeleteContainer_def Let_def u_def)
  next
    case (Inr m)
    obtain x cm1 where x: "attempt (manager_call m del) cm = (x, cm1)" by fastforce
    have 1: "cm_inv cm1" "cm_ext cm cm1"
      using manager_call_ext [OF inv x] mgr_step.deleted by (auto simp: del_def bind_res_Inr_iff)
    have "cm_bind (x, cm1) (\<lambda>_ cm. cm_bind (deref_shared (cm_meta_containers cm), cm) (\<lambda>meta cm.
        attempt (object_exec (OpDelete (str n) TNone TNone) meta) cm)) = (r, cm')"
      using call Inr x by (simp add: DeleteContainer_def Let_def u_def [symmetric] del_def)
    then have "cm_inv cm' \<and> cm_ext cm1 cm'"
      using 1(1) object_exec_ext [OF 1(1)]
      by (cases x) (auto simp: deref_shared_def split: option.splits)
    then show ?thesis using cm_ext_trans [OF 1(2)] by blast
  qed
qed

lemma cm_inv_Release:
  assumes "cm_inv cm"
  shows "cm_inv (Release ob cm)"
  using assms by (auto simp: Release_def cm_inv_def object_ok_def meta_ok_def)

lemma register_ready:
  assumes "RegisterStorageManager t m cm = (r, cm')" and ready: "cm_ready cm"
  shows "cm_ready cm'"
proof -
  define cm0 where "cm0 = (subscribe_manager (cm_sink cm) m cm)\<lparr> cm_managerByType :=
      sm_set t m (cm_managerByType (subscribe_manager (cm_sink cm) m cm)) \<rparr>"
  have "cm_ready (subscribe_manager (cm_sink cm) m cm)"
    by (rule ready_ext [OF ready subscribe_manager_ext [OF ready_inv [OF ready]]])
  then have 0: "cm_ready cm0" by (simp add: cm_ready_def cm0_def cm_inv_fields)
  obtain x cm1 where x: "push_type t cm0 = (x, cm1)" by fastforce
  have 1: "cm_ready cm1" by (rule ready_ext [OF 0 push_type_ext [OF ready_inv [OF 0] x]])
  have "cm_bind (x, cm1) (\<lambda>_ cm. list_storages (mg_GetStorageList (cm_managers cm m)) cm) = (r, cm')"
    using assms(1) x by (simp add: RegisterStorageManager_def Let_def cm0_def)
  then show ?thesis
    using 1 ready_ext [OF 1 list_storages_ext [OF ready_inv [OF 1]]] by (cases x) simp_all
qed

lemma cm_step_ready: "cm_step cm cm' \<Longrightarrow> cm_ready cm \<Longrightarrow> cm_ready cm'"
proof (induction rule: cm_step.induct)
  case (created t n cm r cm')
  then show ?case
    using CreateOrOpen_ok CreateOrOpen_fields unfolding cm_ready_def CreateContainer_def by metis
next
  case (reopened t n cm r cm')
  then show ?case
    using CreateOrOpen_ok CreateOrOpen_fields unfolding cm_ready_def OpenContainer_def by metis
next
  case (removed t n cm r cm')
  then show ?case by (metis ready_ext ready_inv DeleteContainer_ext)
next
  case (aliased cm a t)
  then show ?case by (simp add: cm_ready_def AddAlias_def cm_inv_fields)
next
  case (listened cm)
  then show ?case
    using fold_subscribe_ext [of "cm\<lparr> cm_sink := True \<rparr>" True "cm_managerByType cm"]
      cm_ext_fields(4,5) [of "cm\<lparr> cm_sink := True \<rparr>"]
    by (simp add: cm_ready_def cm_SetSubscriber_def cm_inv_fields)
next
  case (unlistened cm)
  then show ?case
    using fold_subscribe_ext [of "cm\<lparr> cm_sink := False \<rparr>" False "cm_managerByType cm"]
      cm_ext_fields(4,5) [of "cm\<lparr> cm_sink := False \<rparr>"]
    by (simp add: cm_ready_def cm_RemoveSubscriber_def cm_inv_fields)
next
  case (registered t m cm r cm')
  then show ?case by (rule register_ready)
next
  case (executed op ob cm r cm')
  then show ?case by (metis ready_ext ready_inv object_exec_ext)
next
  case (property_set k v ob cm r cm')
  then show ?case by (metis ready_ext ready_inv object_SetProperty_ext)
next
  case (released cm ob)
  then show ?case using cm_inv_Release [of cm ob] by (auto simp: cm_ready_def Release_def)
qed


section \<open>The setup\<close>

lemma created_type:
  assumes inv: "cm_inv cm" and closed: "open_object n cm = None"
    and call: "CreateContainer t n cm = (Inr ob, cm')"
  shows "meta_ok cm' (ResolveAlias t cm) (Some ob)"
proof -
  have "CreateOrOpen t op_create n cm = (Inr ob, cm')" using call by (simp add: CreateContainer_def)
  from inv this show ?thesis
  proof (cases rule: CreateOrOpen_cases)
    case (made m a cm2 s p)
    then show ?thesis by (auto simp: meta_ok_def new_container_def Let_def)
  qed (use closed in simp_all)
qed

lemma cm_inv_set_meta:
  "cm_inv cm \<Longrightarrow> meta_ok cm ''volatile_map'' (Some ob) \<Longrightarrow> cm_inv (cm\<lparr> cm_meta_containers := Some ob \<rparr>)"
  "cm_inv cm \<Longrightarrow> meta_ok cm ''volatile_vector'' (Some ob) \<Longrightarrow> cm_inv (cm\<lparr> cm_meta_availableTypes := Some ob \<rparr>)"
  by (simp_all add: cm_inv_def object_ok_def meta_ok_def)

definition start_manager :: container_manager where
  "start_manager = register_types 0 0 0 ContainerManager_new"

lemma start_ok: "cm_inv start_manager" "ResolveAlias t start_manager = t"
proof -
  show "cm_inv start_manager"
    using subscribe_manager_ext cm_inv_new by (simp add: start_manager_def register_types_def Let_def cm_inv_fields)
  show "ResolveAlias t start_manager = t"
    by (simp add: start_manager_def register_types_def Let_def ResolveAlias_def subscribe_manager_def ContainerManager_new_def)
qed

text \<open>The steps of the setup, evaluated.\<close>

definition meta_1 :: container_manager where
  "meta_1 = (let (_, cm) = CreateContainer ''volatile_map'' ''__meta__/containers'' start_manager in
  cm\<lparr> cm_meta_containers := Some 0 \<rparr>)"

definition meta_2 :: container_manager where
  "meta_2 = (let (_, cm) = CreateContainer ''volatile_vector'' ''__meta__/available_types'' meta_1 in
  cm\<lparr> cm_meta_availableTypes := Some 1 \<rparr>)"

lemma setup_results:
  "fst (CreateContainer ''volatile_map'' ''__meta__/containers'' start_manager) = Inr 0"
  "open_object ''__meta__/containers'' start_manager = None"
  "fst (CreateContainer ''volatile_vector'' ''__meta__/available_types'' meta_1) = Inr 1"
  "open_object ''__meta__/available_types'' meta_1 = None"
  "open_object ''__meta__/containers'' meta_2 = Some 0"
  "ResolveAlias ''volatile_vector'' meta_1 = ''volatile_vector''"
  "cm_meta_containers meta_2 = Some 0" "cm_meta_availableTypes meta_2 = Some 1"
  by code_simp+

lemma meta_1_ok: "cm_inv meta_1"
proof -
  obtain cm where cm: "CreateContainer ''volatile_map'' ''__meta__/containers'' start_manager = (Inr 0, cm)"
    using setup_results(1) by (metis prod.collapse)
  have "cm_inv cm" using CreateOrOpen_ok [OF start_ok(1)] cm unfolding CreateContainer_def by blast
  moreover have "meta_ok cm ''volatile_map'' (Some 0)"
    using created_type [OF start_ok(1) setup_results(2) cm] start_ok(2) by simp
  ultimately show ?thesis using cm_inv_set_meta(1) cm by (simp add: meta_1_def)
qed

lemma meta_2_ok: "cm_inv meta_2"
proof -
  obtain cm where cm: "CreateContainer ''volatile_vector'' ''__meta__/available_types'' meta_1 = (Inr 1, cm)"
    using setup_results(3) by (metis prod.collapse)
  have "cm_inv cm" using CreateOrOpen_ok [OF meta_1_ok] cm unfolding CreateContainer_def by blast
  moreover have "meta_ok cm ''volatile_vector'' (Some 1)"
    using created_type [OF meta_1_ok setup_results(4) cm] setup_results(6) by simp
  ultimately show ?thesis using cm_inv_set_meta(2) cm by (simp add: meta_2_def)
qed

text \<open>The second creation of \<^verbatim>\<open>__meta__/containers\<close> finds the object that is still held.\<close>

lemma create_meta_result: "create_meta start_manager = (Inr (), meta_2)"
proof -
  obtain cm1 where 1: "CreateContainer ''volatile_map'' ''__meta__/containers'' start_manager = (Inr 0, cm1)"
    using setup_results(1) by (metis prod.collapse)
  then have m1: "cm1\<lparr> cm_meta_containers := Some 0 \<rparr> = meta_1" by (simp add: meta_1_def)
  obtain cm2 where 2: "CreateContainer ''volatile_vector'' ''__meta__/available_types'' meta_1 = (Inr 1, cm2)"
    using setup_results(3) by (metis prod.collapse)
  then have m2: "cm2\<lparr> cm_meta_availableTypes := Some 1 \<rparr> = meta_2" by (simp add: meta_2_def)
  have 3: "CreateContainer ''volatile_map'' ''__meta__/containers'' meta_2 = (Inr 0, meta_2)"
    using setup_results(5) by (simp add: CreateContainer_def CreateOrOpen_def Let_def)
  have "meta_2\<lparr> cm_meta_containers := Some 0 \<rparr> = meta_2" using setup_results(7) by simp
  then show ?thesis unfolding create_meta_def 1 cm_bind_simps Let_def m1 2 m2 3 by simp
qed

lemma setup_succeeds: "fst (LoadStorageTypes ContainerManager_new) = Inr ()"
  by code_simp


lemma push_type_ready: "cm_ready cm \<Longrightarrow> push_type t cm = (r, cm') \<Longrightarrow> cm_ready cm'"
  using ready_ext [OF _ push_type_ext] ready_inv by blast

lemma AddAlias_ready: "cm_ready cm \<Longrightarrow> cm_ready (fold (\<lambda>(a, t). AddAlias a t) as cm)"
  by (induction as arbitrary: cm) (auto simp: cm_ready_def AddAlias_def cm_inv_fields)

lemma setup_ready:
  "fst (SetupContainerManager as) = Inr () \<and> cm_ready (snd (SetupContainerManager as))"
proof -
  obtain cm where cm: "LoadStorageTypes ContainerManager_new = (Inr (), cm)"
    using setup_succeeds by (metis prod.collapse)
  then have "cm_bind (push_type ''volatile_vector'' meta_2) (\<lambda>_ cm.
      cm_bind (push_type ''volatile_list'' cm) (\<lambda>_ cm. push_type ''volatile_map'' cm)) = (Inr (), cm)"
    by (simp add: LoadStorageTypes_def RegisterFundamentalStorageManagers_def create_meta_result
        start_manager_def [symmetric])
  moreover have "cm_ready meta_2" using meta_2_ok setup_results(7,8) by (simp add: cm_ready_def)
  ultimately have "cm_ready cm" by (elim cm_bind_cases) (simp_all, metis push_type_ready)
  then show ?thesis using cm by (simp add: SetupContainerManager_def AddAlias_ready)
qed

lemma reachable_ready:
  assumes "cm_step\<^sup>*\<^sup>* (snd (SetupContainerManager as)) cm"
  shows "cm_ready cm"
  using assms by (induction rule: rtranclp_induct) (auto intro: cm_step_ready simp: setup_ready)


text \<open>The storages behind the meta containers are a map and a vector.\<close>

lemma meta_storage:
  assumes inv: "cm_inv cm" and "meta_ok cm t (Some ob)"
  obtains c s p where "cm_objects cm ob = Some c"
    "mg_heap (cm_managers cm (co_manager c)) (co_storage c) = Some (s, p)" "any_kind s = t" "any_free s"
proof -
  obtain c s p where s: "cm_objects cm ob = Some c" "any_type s = t"
    "mg_heap (cm_managers cm (co_manager c)) (co_storage c) = Some (s, p)"
    using assms(2) unfolding meta_ok_def by blast
  then show ?thesis using that cm_invD(1) [OF inv, of "co_manager c"] unfolding mg_ok_def by metis
qed

lemma any_kind_iff:
  "any_kind s = ''volatile_map'' \<longleftrightarrow> (\<exists>m. s = SMap m)" "any_kind s = ''volatile_vector'' \<longleftrightarrow> (\<exists>v. s = SVector v)"
  by (cases s; simp)+

lemma meta_storages:
  assumes inv: "cm_inv cm"
  shows "cm_meta_containers cm = Some ob \<Longrightarrow> \<exists>c m p. cm_objects cm ob = Some c \<and>
      mg_heap (cm_managers cm (co_manager c)) (co_storage c) = Some (SMap m, p)"
    and "cm_meta_availableTypes cm = Some ob' \<Longrightarrow> \<exists>c v p. cm_objects cm ob' = Some c \<and>
      mg_heap (cm_managers cm (co_manager c)) (co_storage c) = Some (SVector v, p)"
proof -
  assume "cm_meta_containers cm = Some ob"
  then have "meta_ok cm ''volatile_map'' (Some ob)" using inv by (simp add: cm_inv_def)
  from meta_storage [OF inv this] show "\<exists>c m p. cm_objects cm ob = Some c \<and>
      mg_heap (cm_managers cm (co_manager c)) (co_storage c) = Some (SMap m, p)"
    unfolding any_kind_iff by metis
next
  assume "cm_meta_availableTypes cm = Some ob'"
  then have "meta_ok cm ''volatile_vector'' (Some ob')" using inv by (simp add: cm_inv_def)
  from meta_storage [OF inv this] show "\<exists>c v p. cm_objects cm ob' = Some c \<and>
      mg_heap (cm_managers cm (co_manager c)) (co_storage c) = Some (SVector v, p)"
    unfolding any_kind_iff by metis
qed


section \<open>Properties\<close>

text \<open>
  C26: in every state the container manager can reach, each live container object is the one its name
  leads to and has a live storage of that name; two live objects never share a storage, unless
  one of them was asked for without a name; and the two meta containers are alive.
\<close>

theorem container_manager_invariant:
  assumes "cm_step\<^sup>*\<^sup>* (snd (SetupContainerManager as)) cm"
  shows "(\<forall>ob c. cm_objects cm ob = Some c \<longrightarrow>
            (\<exists>n s p. open_object n cm = Some ob \<and> named n s \<and>
               mg_heap (cm_managers cm (co_manager c)) (co_storage c) = Some (s, p))) \<and>
         (\<forall>o1 o2 c. cm_objects cm o1 = Some c \<and> cm_objects cm o2 = Some c \<longrightarrow>
            o1 = o2 \<or> open_object [] cm \<in> {Some o1, Some o2}) \<and>
         (\<exists>o1 c1 s1 p1 o2 c2 s2 p2.
            cm_meta_containers cm = Some o1 \<and> cm_objects cm o1 = Some c1 \<and>
            mg_heap (cm_managers cm (co_manager c1)) (co_storage c1) = Some (SMap s1, p1) \<and>
            cm_meta_availableTypes cm = Some o2 \<and> cm_objects cm o2 = Some c2 \<and>
            mg_heap (cm_managers cm (co_manager c2)) (co_storage c2) = Some (SVector s2, p2))"
proof (intro conjI allI impI)
  have ready: "cm_ready cm" by (rule reachable_ready [OF assms])
  have inv: "cm_inv cm" by (rule ready_inv [OF ready])
  have named: "\<exists>n s p. open_object n cm = Some ob \<and> named n s \<and>
      mg_heap (cm_managers cm (co_manager c)) (co_storage c) = Some (s, p)"
    if ob: "cm_objects cm ob = Some c" for ob c
  proof -
    obtain n s p where "sm_find n (cm_openContainers cm) = Some ob" "named n s"
      "mg_heap (cm_managers cm (co_manager c)) (co_storage c) = Some (s, p)"
      using cm_invD(3) [OF inv ob] unfolding object_ok_def by blast
    then show ?thesis using ob by (intro exI [of _ n] exI [of _ s] exI [of _ p]) (simp add: open_object_def)
  qed
  then show "\<exists>n s p. open_object n cm = Some ob \<and> named n s \<and>
      mg_heap (cm_managers cm (co_manager c)) (co_storage c) = Some (s, p)"
    if "cm_objects cm ob = Some c" for ob c using that .
  show "o1 = o2 \<or> open_object [] cm \<in> {Some o1, Some o2}"
    if "cm_objects cm o1 = Some c \<and> cm_objects cm o2 = Some c" for o1 o2 c
    using named [of o1 c] named [of o2 c] that by (auto simp: named_def)
  show "\<exists>o1 c1 s1 p1 o2 c2 s2 p2.
            cm_meta_containers cm = Some o1 \<and> cm_objects cm o1 = Some c1 \<and>
            mg_heap (cm_managers cm (co_manager c1)) (co_storage c1) = Some (SMap s1, p1) \<and>
            cm_meta_availableTypes cm = Some o2 \<and> cm_objects cm o2 = Some c2 \<and>
            mg_heap (cm_managers cm (co_manager c2)) (co_storage c2) = Some (SVector s2, p2)"
    using ready meta_storages [OF inv] unfolding cm_ready_def by blast
qed


theorem container_manager_invariant_witness:
  "\<exists>cm c n s p. CreateContainer ''volatile_list'' ''l'' (snd (SetupContainerManager [])) = (Inr 2, cm) \<and>
     cm_objects cm 2 = Some c \<and> open_object n cm = Some 2 \<and> named n s \<and>
     mg_heap (cm_managers cm (co_manager c)) (co_storage c) = Some (s, p)"
proof -
  let ?start = "snd (SetupContainerManager [])"
  have "fst (CreateContainer ''volatile_list'' ''l'' ?start) = Inr 2" by code_simp
  then obtain cm where cm: "CreateContainer ''volatile_list'' ''l'' ?start = (Inr 2, cm)"
    by (metis prod.collapse)
  moreover have "open_object ''l'' cm = Some 2"
    using CreateOrOpen_ok [OF ready_inv [OF conjunct2 [OF setup_ready]]] cm unfolding CreateContainer_def by blast
  then obtain c where "cm_objects cm 2 = Some c" by (auto simp: open_object_def split: option.splits if_splits)
  moreover have "cm_step\<^sup>*\<^sup>* ?start cm" using cm_step.created [OF cm] by blast
  ultimately show ?thesis using container_manager_invariant [of "[]" cm] by blast
qed


section \<open>Opening by name\<close>

lemma sm_find_set_same: "sm_find k (sm_set k v d) = Some v"
  by (induction k v d rule: sm_set.induct) auto

lemma c_str_type:
  assumes "supportedTypes t \<noteq> None"
  shows "c_str (map of_char t) = map of_char t"
  using assms by (auto simp: supportedTypes_def c_str_def split: if_splits)

text \<open>What an entry of the meta container leads to.\<close>

lemma lookup_type_found:
  assumes inv: "cm_inv cm" and "cm_meta_containers cm = Some mo" and "cm_objects cm mo = Some c"
    and "mg_heap (cm_managers cm (co_manager c)) (co_storage c) = Some (SMap s, p)"
    and "sm_find (c_str (map of_char n)) (st_data s) = Some (str u, md)" and u: "supportedTypes u \<noteq> None"
  shows "lookup_type [] n cm = (Inr u, cm)"
proof -
  obtain r cm' where r: "lookup_type [] n cm = (r, cm')" by fastforce
  have "r = Inr u"
    using r assms(2-5) c_str_type [OF u]
    by (auto simp: lookup_type_def deref_shared_def attempt_def object_GetRecord_def object_call_def
        container_GetRecord_def ms_GetRecord_def ms_GetInternalRecord_def str_def AsSz_def
        CheckDataType_def guard_res_def comp_def)
  then show ?thesis using lookup_type_unchanged [OF inv r] r by simp
qed

text \<open>Recording a container in the meta container.\<close>

lemma set_meta_effect:
  assumes inv: "cm_inv cm" and meta: "cm_meta_containers cm = Some mo" and call: "set_meta n u cm = (r, cm')"
  obtains c s s' p where "cm_objects cm mo = Some c"
    "mg_heap (cm_managers cm (co_manager c)) (co_storage c) = Some (SMap s, p)"
    "ms_Set (str n) (str u) TNone s = Inr s'" "r = Inr ()"
    "cm' = cm\<lparr> cm_managers := (cm_managers cm)(co_manager c := (cm_managers cm (co_manager c))\<lparr> mg_heap :=
       (mg_heap (cm_managers cm (co_manager c)))(co_storage c \<mapsto> (SMap s', p)) \<rparr>) \<rparr>"
proof -
  obtain c s p where s: "cm_objects cm mo = Some c"
    "mg_heap (cm_managers cm (co_manager c)) (co_storage c) = Some (SMap s, p)"
    using meta_storages(1) [OF inv meta] by blast
  obtain s' where s': "ms_Set (str n) (str u) TNone s = Inr s'"
    by (simp add: ms_Set_def str_def Empty_def AsSz_def CheckDataType_def guard_res_def)
  show ?thesis
    by (rule that [OF s s'])
      (use call meta s s' in \<open>auto simp: set_meta_def attempt_def object_exec_def object_call_def container_exec_def\<close>)
qed


text \<open>A closed name whose type is known is opened on the registered storage.\<close>

lemma open_registered:
  assumes closed: "open_object n cm = None" and look: "lookup_type (ResolveAlias t cm) n cm = (Inr u, cm)"
    and m: "GetStorageManagerByType u cm = Inr m" and u: "supportedTypes u \<noteq> None"
    and i: "sm_find (GenerateName u n) (mg_containers (cm_managers cm m)) = Some i"
  shows "\<exists>ob cm'. OpenContainer t n cm = (Inr ob, cm') \<and>
           cm_objects cm' ob = Some \<lparr> co_manager = m, co_storage = si_storage i \<rparr>"
proof -
  have "\<exists>g. mg_OpenStorage u n (cm_managers cm m) = Inr (si_storage i, g)"
    using u i by (simp add: mg_OpenStorage_def GenerateName_def)
  then show ?thesis
    using closed look m
    by (auto simp: OpenContainer_def CreateOrOpen_def Let_def attempt_def manager_call_def new_container_def)
qed

lemma GetStorageManagerByType_cong:
  "cm_aliases cm' = cm_aliases cm \<Longrightarrow> cm_managerByType cm' = cm_managerByType cm \<Longrightarrow>
   GetStorageManagerByType t cm' = GetStorageManagerByType t cm"
  by (simp add: GetStorageManagerByType_def ResolveAlias_def)

text \<open>Where the container of a successful creation is registered and listed.\<close>

definition listed :: "string \<Rightarrow> string \<Rightarrow> container_manager \<Rightarrow> bool" where
  "listed n u cm \<longleftrightarrow> (\<exists>mo c s p md. cm_meta_containers cm = Some mo \<and> cm_objects cm mo = Some c \<and>
     mg_heap (cm_managers cm (co_manager c)) (co_storage c) = Some (SMap s, p) \<and>
     sm_find (c_str (map of_char n)) (st_data s) = Some (str u, md))"

lemma set_meta_lists:
  assumes "cm_inv cm" and "cm_meta_containers cm = Some mo" and "set_meta n u cm = (r, cm')"
  shows "listed n u cm' \<and> (\<forall>m. mg_containers (cm_managers cm' m) = mg_containers (cm_managers cm m))"
proof -
  obtain c s s' p where c: "cm_objects cm mo = Some c"
    and "mg_heap (cm_managers cm (co_manager c)) (co_storage c) = Some (SMap s, p)"
    and set: "ms_Set (str n) (str u) TNone s = Inr s'" and "r = Inr ()"
    and cm': "cm' = cm\<lparr> cm_managers := (cm_managers cm)(co_manager c := (cm_managers cm (co_manager c))\<lparr> mg_heap :=
       (mg_heap (cm_managers cm (co_manager c)))(co_storage c \<mapsto> (SMap s', p)) \<rparr>) \<rparr>"
    by (rule set_meta_effect [OF assms])
  have "sm_find (c_str (map of_char n)) (st_data s') = Some (str u, TNone)"
    using set by (auto simp: ms_Set_def str_def bind_res_Inr_iff guard_res_def AsSz_def CheckDataType_def sm_find_set_same)
  then show ?thesis using assms(2) c by (auto simp: listed_def cm')
qed

lemma create_effect:
  assumes ready: "cm_ready cm" and n: "n \<noteq> []" and closed: "open_object n cm = None"
    and call: "CreateContainer t n cm = (Inr ob, cm')"
  obtains m i where "supportedTypes (ResolveAlias t cm) \<noteq> None"
    "GetStorageManagerByType (ResolveAlias t cm) cm' = Inr m" "listed n (ResolveAlias t cm) cm'"
    "sm_find (GenerateName (ResolveAlias t cm) n) (mg_containers (cm_managers cm' m)) = Some i"
    "cm_objects cm' ob = Some \<lparr> co_manager = m, co_storage = si_storage i \<rparr>"
    "cm_meta_containers cm' \<noteq> Some ob" "cm_meta_availableTypes cm' \<noteq> Some ob"
proof -
  have inv: "cm_inv cm" by (rule ready_inv [OF ready])
  have call': "CreateOrOpen t op_create n cm = (Inr ob, cm')" using call by (simp add: CreateContainer_def)
  define u where "u = ResolveAlias t cm"
  obtain m a cm1 cm2 where m: "GetStorageManagerByType u cm = Inr m" and 1: "cm_inv cm1" "cm_ext cm cm1"
    and cr: "mg_CreateStorage u n (cm_managers cm m) = Inr (a, cm_managers cm1 m)"
    and sm: "set_meta n u cm1 = (Inr (), cm2)" and 2: "cm_inv cm2" "cm_ext cm1 cm2"
    and new: "new_container n m a cm2 = (Inr ob, cm')"
    using create_new [OF inv closed call'] unfolding u_def by (metis sum.distinct(1))
  have cm': "cm' = cm2\<lparr> cm_objects := (cm_objects cm2)(ob \<mapsto> \<lparr> co_manager = m, co_storage = a \<rparr>),
      cm_fresh := ob + 1, cm_openContainers := sm_set n ob (cm_openContainers cm2) \<rparr>" and ob: "ob = cm_fresh cm2"
    using new by (auto simp: new_container_def Let_def)
  have fresh: "cm_objects cm2 x \<noteq> None \<Longrightarrow> x \<noteq> ob" for x
    using cm_invD(3) [OF 2(1)] ob by (fastforce simp: object_ok_def)
  obtain mo where meta: "cm_meta_containers cm1 = Some mo"
    using ready cm_ext_fields(4) [OF 1(2)] by (auto simp: cm_ready_def)
  note lists = set_meta_lists [OF 1(1) meta sm]
  obtain i where i: "supportedTypes u \<noteq> None" "si_storage i = a"
    "sm_find (GenerateName u n) (mg_containers (cm_managers cm1 m)) = Some i"
    using create_returns [OF _ cr] cm_invD(1) [OF inv] n by (metis mg_ok_def)
  have "listed n u cm'" using lists fresh unfolding listed_def cm' by fastforce
  moreover have "GetStorageManagerByType u cm' = Inr m"
    using m GetStorageManagerByType_cong [of cm' cm2] cm_ext_fields(10) [OF 1(2)] cm_ext_fields(10) [OF 2(2)]
    by (simp add: cm')
  moreover have "cm_meta_containers cm' \<noteq> Some ob" "cm_meta_availableTypes cm' \<noteq> Some ob"
    using fresh 2(1) unfolding cm_inv_def meta_ok_def cm' by fastforce+
  moreover have "sm_find (GenerateName u n) (mg_containers (cm_managers cm' m)) = Some i"
    using i(3) lists by (simp add: cm')
  moreover have "cm_objects cm' ob = Some \<lparr> co_manager = m, co_storage = si_storage i \<rparr>"
    using i(2) by (simp add: cm')
  ultimately show ?thesis using that [of m i] i(1) unfolding u_def by blast
qed

text \<open>
  C33: a created container is found again by its name alone: while somebody holds it, every request
  gives the same object; after it was released, opening the name without a type gives a new
  object on the same storage.
\<close>

theorem create_then_open_by_name:
  assumes reach: "cm_step\<^sup>*\<^sup>* (snd (SetupContainerManager as)) cm" and n: "n \<noteq> []"
    and closed: "open_object n cm = None" and call: "CreateContainer t n cm = (Inr ob, cm')"
  shows "(\<forall>u. OpenContainer u n cm' = (Inr ob, cm')) \<and>
         (\<exists>ob2 cm2. OpenContainer [] n (Release ob cm') = (Inr ob2, cm2) \<and>
            cm_objects cm2 ob2 = cm_objects cm' ob \<and> cm_objects cm' ob \<noteq> None)"
proof
  have ready: "cm_ready cm" by (rule reachable_ready [OF reach])
  have inv': "cm_inv cm'" "open_object n cm' = Some ob"
    using CreateOrOpen_ok [OF ready_inv [OF ready]] call unfolding CreateContainer_def by blast+
  then show "\<forall>u. OpenContainer u n cm' = (Inr ob, cm')"
    by (simp add: OpenContainer_def CreateOrOpen_def Let_def)
  let ?u = "ResolveAlias t cm" and ?r = "Release ob cm'"
  obtain m i where u: "supportedTypes ?u \<noteq> None" and m: "GetStorageManagerByType ?u cm' = Inr m"
    and l: "listed n ?u cm'" and i: "sm_find (GenerateName ?u n) (mg_containers (cm_managers cm' m)) = Some i"
    and ob: "cm_objects cm' ob = Some \<lparr> co_manager = m, co_storage = si_storage i \<rparr>"
    and meta: "cm_meta_containers cm' \<noteq> Some ob" "cm_meta_availableTypes cm' \<noteq> Some ob"
    by (rule create_effect [OF ready n closed call])
  have rel: "?r = cm'\<lparr> cm_objects := (cm_objects cm')(ob := None) \<rparr>" using meta by (simp add: Release_def)
  have "open_object n ?r = None" using inv'(2) by (auto simp: open_object_def rel split: option.splits if_splits)
  moreover have "lookup_type (ResolveAlias [] ?r) n ?r = (Inr ?u, ?r)"
  proof -
    obtain mo c s p md where "cm_meta_containers cm' = Some mo" "cm_objects cm' mo = Some c"
      "mg_heap (cm_managers cm' (co_manager c)) (co_storage c) = Some (SMap s, p)"
      "sm_find (c_str (map of_char n)) (st_data s) = Some (str ?u, md)"
      using l unfolding listed_def by blast
    then show ?thesis
      using meta lookup_type_found [OF cm_inv_Release [OF inv'(1)] _ _ _ _ u, of ob mo c s p n md]
      by (simp add: rel ResolveAlias_def [of "[]"])
  qed
  moreover have "GetStorageManagerByType ?u ?r = Inr m"
    using m GetStorageManagerByType_cong [of ?r cm' ?u] by (simp add: rel)
  moreover have "sm_find (GenerateName ?u n) (mg_containers (cm_managers ?r m)) = Some i" using i by (simp add: rel)
  ultimately show "\<exists>ob2 cm2. OpenContainer [] n ?r = (Inr ob2, cm2) \<and>
      cm_objects cm2 ob2 = cm_objects cm' ob \<and> cm_objects cm' ob \<noteq> None"
    using open_registered [of n ?r "[]" ?u m i] u ob by auto
qed


theorem create_then_open_by_name_witness:
  "\<exists>cm ob2 cm2. CreateContainer ''volatile_list'' ''l'' (snd (SetupContainerManager [])) = (Inr 2, cm) \<and>
     OpenContainer ''volatile_map'' ''l'' cm = (Inr 2, cm) \<and>
     OpenContainer [] ''l'' (Release 2 cm) = (Inr ob2, cm2) \<and> cm_objects cm2 ob2 = cm_objects cm 2"
proof -
  let ?start = "snd (SetupContainerManager [])"
  have "fst (CreateContainer ''volatile_list'' ''l'' ?start) = Inr 2" "open_object ''l'' ?start = None"
    by code_simp+
  then obtain cm where cm: "CreateContainer ''volatile_list'' ''l'' ?start = (Inr 2, cm)"
    by (metis prod.collapse)
  from create_then_open_by_name [OF rtranclp.rtrancl_refl _ \<open>open_object ''l'' ?start = None\<close> cm] cm
  show ?thesis by blast
qed


section \<open>Requests that meet an open container\<close>

text \<open>Deleting takes the entry of the storage manager away, and nothing else of it.\<close>

lemma delete_effect:
  assumes inv: "cm_inv cm" and call: "DeleteContainer t n cm = (Inr (), cm')"
  obtains m where "GetStorageManagerByType (ResolveAlias t cm) cm = Inr m"
    "mg_containers (cm_managers cm' m) = sm_erase (GenerateName (ResolveAlias t cm) n) (mg_containers (cm_managers cm m))"
proof -
  define u where "u = ResolveAlias t cm"
  obtain m where m: "GetStorageManagerByType u cm = Inr m"
    using call by (auto simp: DeleteContainer_def Let_def u_def [symmetric] elim!: cm_bind_cases)
  define cm1 where "cm1 = cm\<lparr> cm_managers := (cm_managers cm)(m := (cm_managers cm m)\<lparr> mg_containers :=
      sm_erase (GenerateName u n) (mg_containers (cm_managers cm m)) \<rparr>) \<rparr>"
  obtain mo where del: "attempt (object_exec (OpDelete (str n) TNone TNone) mo) cm1 = (Inr (), cm')"
    using call m
    by (auto simp: DeleteContainer_def Let_def u_def [symmetric] cm1_def deref_shared_def attempt_def [of "manager_call m f" for f]
        manager_call_def mg_DeleteStorage_def split: option.splits if_splits)
  have "mg_containers (cm_managers cm' k) = mg_containers (cm_managers cm1 k)" for k
    using del unfolding object_exec_def
    by (cases rule: object_call_cases) (auto simp: bind_res_Inr_iff container_exec_def split: option.splits)
  then show ?thesis using that [of m] m by (simp add: u_def cm1_def)
qed

text \<open>
  Deleting a container that is still held leaves its entry among the open containers: while it is
  held, creating a container of that name, of any type, hands out the deleted one and creates
  nothing, although the manager says that no such container exists.
\<close>

theorem deleted_container_reused:
  assumes reach: "cm_step\<^sup>*\<^sup>* (snd (SetupContainerManager as)) cm"
    and "open_object n cm = Some ob" and call: "DeleteContainer t n cm = (Inr (), cm')"
  shows "(\<forall>u. CreateContainer u n cm' = (Inr ob, cm')) \<and> cm_objects cm' ob = cm_objects cm ob \<and>
         (\<exists>m. GetStorageManagerByType (ResolveAlias t cm) cm' = Inr m \<and>
              \<not> mg_Exists (cm_managers cm' m) (ResolveAlias t cm) n)"
proof -
  have inv: "cm_inv cm" by (rule ready_inv [OF reachable_ready [OF reach]])
  note ext = cm_ext_fields [OF conjunct2 [OF DeleteContainer_ext [OF inv call]]]
  obtain m where m: "GetStorageManagerByType (ResolveAlias t cm) cm = Inr m" and e: "mg_containers (cm_managers cm' m) =
      sm_erase (GenerateName (ResolveAlias t cm) n) (mg_containers (cm_managers cm m))"
    by (rule delete_effect [OF inv call])
  have sm: "sm_inv (mg_containers (cm_managers cm m))"
    using cm_invD(1) [OF inv, of m] by (simp add: mg_ok_def mg_inv_def)
  have "\<not> mg_Exists (cm_managers cm' m) (ResolveAlias t cm) n"
    by (simp add: mg_Exists_def e sm.find_erase [OF sm])
  moreover have "open_object n cm' = Some ob" using ext(8) assms(2) by simp
  ultimately show ?thesis
    using ext(1,10) m by (simp add: CreateContainer_def CreateOrOpen_def Let_def)
qed

theorem deleted_container_reused_witness:
  "\<exists>cm cm'. CreateContainer ''volatile_list'' ''l'' (snd (SetupContainerManager [])) = (Inr 2, cm) \<and>
     DeleteContainer ''volatile_list'' ''l'' cm = (Inr (), cm') \<and>
     CreateContainer ''volatile_map'' ''l'' cm' = (Inr 2, cm')"
proof -
  let ?start = "snd (SetupContainerManager [])"
  let ?cm = "snd (CreateContainer ''volatile_list'' ''l'' ?start)"
  have "fst (CreateContainer ''volatile_list'' ''l'' ?start) = Inr 2" "open_object ''l'' ?cm = Some 2"
    "fst (DeleteContainer ''volatile_list'' ''l'' ?cm) = Inr ()" by code_simp+
  then obtain cm cm' where cm: "CreateContainer ''volatile_list'' ''l'' ?start = (Inr 2, cm)"
    "open_object ''l'' cm = Some 2" "DeleteContainer ''volatile_list'' ''l'' cm = (Inr (), cm')"
    by (metis prod.collapse)
  have "cm_step\<^sup>*\<^sup>* ?start cm" using cm_step.created [OF cm(1)] by blast
  from deleted_container_reused [OF this cm(2,3)] cm(1,3) show ?thesis by blast
qed

text \<open>
  Two smaller observations on the start of the server.  The container \<^verbatim>\<open>__meta__/containers\<close> is not
  listed in itself, so deleting it removes its storage from the manager and reports an error; and \<open>Exists\<close> does not
  find a container under an alias of its type.
\<close>

theorem meta_containers_not_listed:
  "(let cm = snd (SetupContainerManager []) in
     (case object_GetRecord (str ''__meta__/containers'') 0 cm of
        Inl e \<Rightarrow> e = invalid_argument ''key not found'' | Inr _ \<Rightarrow> False) \<and>
     (case DeleteContainer ''volatile_map'' ''__meta__/containers'' cm of
        (r, cm') \<Rightarrow> r = Inl (invalid_argument ''key not found'') \<and>
          cm_Exists ''volatile_map'' ''__meta__/containers'' cm = Inr True \<and>
          cm_Exists ''volatile_map'' ''__meta__/containers'' cm' = Inr False))"
  by code_simp

theorem exists_ignores_alias:
  "(let cm = snd (CreateContainer ''users'' ''u'' (snd (SetupContainerManager [(''users'', ''volatile_map'')]))) in
     cm_Exists ''volatile_map'' ''u'' cm = Inr True \<and> cm_Exists ''users'' ''u'' cm = Inr False)"
  by code_simp

end
