(* ===== verification/PagedFile.thy ===== *)
theory PagedFile
  imports Prelude
begin

text \<open>
  \<^verbatim>\<open>class PagedFile\<close> of \<^verbatim>\<open>server/tio/logdb.h\<close>: a file read and written through a cache of whole
  pages with first-in first-out eviction and write-through.  The file of the operating system is
  its list of bytes.  The locale \<open>flat_file\<close> is what the database above relies on: inside the
  file, a read returns the bytes last written, and a write changes exactly its range.  The cached
  file is its interpretation under \<open>pf_inv\<close>, which says that the cache is coherent.
\<close>

section \<open>The file of the operating system\<close>

definition file_read :: "byte list \<Rightarrow> nat \<Rightarrow> nat \<Rightarrow> byte list" where
  "file_read disk off n = take n (drop off disk)"

text \<open>Writing past the end fills the gap with zeros.\<close>

definition file_write :: "byte list \<Rightarrow> nat \<Rightarrow> byte list \<Rightarrow> byte list" where
  "file_write disk off bs =
     take off disk @ replicate (off - length disk) 0 @ bs @ drop (off + length bs) disk"

lemma file_write_inside:
  "off + length bs \<le> length disk \<Longrightarrow> mem_write disk off bs = Inr (file_write disk off bs)"
  by (simp add: file_write_def mem_write_def)

lemma length_file_write [simp]:
  "off + length bs \<le> length disk \<Longrightarrow> length (file_write disk off bs) = length disk"
  by (simp add: file_write_def)

lemma file_read_write_same:
  "off + length bs \<le> length disk \<Longrightarrow> file_read (file_write disk off bs) off (length bs) = bs"
  by (simp add: file_read_def file_write_def)

lemma file_read_write_other:
  assumes "off + length bs \<le> length disk" and "o' + n \<le> off \<or> off + length bs \<le> o'"
  shows "file_read (file_write disk off bs) o' n = file_read disk o' n"
proof -
  have "mem_read (file_write disk off bs) o' n = mem_read disk o' n"
    by (rule mem_read_mem_write_disjoint [OF file_write_inside [OF assms(1)] assms(2)])
  moreover have "length (file_write disk off bs) = length disk" using assms(1) by simp
  ultimately show ?thesis
  proof (cases "o' + n \<le> length disk")
    case True
    then show ?thesis
      using \<open>mem_read (file_write disk off bs) o' n = mem_read disk o' n\<close> assms(1)
      by (simp add: mem_read_def file_read_def)
  next
    case False
    then have "off + length bs \<le> o'" using assms by auto
    then show ?thesis using assms(1) by (simp add: file_read_def file_write_def)
  qed
qed


section \<open>The interface\<close>

locale flat_file =
  fixes rd :: "nat \<Rightarrow> nat \<Rightarrow> 'f \<Rightarrow> byte list \<times> 'f"
    and wr :: "nat \<Rightarrow> byte list \<Rightarrow> 'f \<Rightarrow> 'f"
    and bytes :: "'f \<Rightarrow> byte list"
    and inv :: "'f \<Rightarrow> bool"
  assumes rd_bytes: "inv f \<Longrightarrow> off + n \<le> length (bytes f) \<Longrightarrow> fst (rd off n f) = file_read (bytes f) off n"
    and rd_keeps: "inv f \<Longrightarrow> off + n \<le> length (bytes f) \<Longrightarrow>
      inv (snd (rd off n f)) \<and> bytes (snd (rd off n f)) = bytes f"
    and wr_bytes: "inv f \<Longrightarrow> off + length bs \<le> length (bytes f) \<Longrightarrow>
      bytes (wr off bs f) = file_write (bytes f) off bs"
    and wr_keeps: "inv f \<Longrightarrow> off + length bs \<le> length (bytes f) \<Longrightarrow> inv (wr off bs f)"
begin

lemma read_after_write:
  assumes "inv f" and "off + length bs \<le> length (bytes f)"
  shows "fst (rd off (length bs) (wr off bs f)) = bs"
  using assms rd_bytes [OF wr_keeps] by (simp add: wr_bytes file_read_write_same)

lemma read_elsewhere:
  assumes "inv f" and "off + length bs \<le> length (bytes f)" and "o' + n \<le> length (bytes f)"
    and "o' + n \<le> off \<or> off + length bs \<le> o'"
  shows "fst (rd o' n (wr off bs f)) = fst (rd o' n f)"
  using assms rd_bytes [OF wr_keeps [OF assms(1,2)], of o' n] rd_bytes [OF assms(1,3)]
  by (simp add: wr_bytes file_read_write_other)

text \<open>Any sequence of writes inside the file is the same sequence on the bytes.\<close>

lemma writes_bytes:
  assumes "inv f" and "\<forall>(off, bs) \<in> set ws. off + length bs \<le> length (bytes f)"
  shows "inv (fold (\<lambda>(off, bs). wr off bs) ws f) \<and>
         bytes (fold (\<lambda>(off, bs). wr off bs) ws f) =
         fold (\<lambda>(off, bs) d. file_write d off bs) ws (bytes f)"
  using assms
proof (induction ws arbitrary: f)
  case (Cons w ws)
  obtain off bs where w: "w = (off, bs)" by (cases w)
  have "off + length bs \<le> length (bytes f)" using Cons.prems(2) w by simp
  with Cons.IH [of "wr off bs f"] Cons.prems w show ?case
    by (simp add: wr_bytes wr_keeps)
qed simp

end


section \<open>The page cache\<close>

text \<open>
  \<open>pf_junk\<close> is the byte that fresh memory happens to hold.  \<^verbatim>\<open>DWORD\<close> offsets are 32 bits wide.
\<close>

record paged_file =
  pf_page_size :: nat
  pf_disk :: "byte list"
  pf_cache :: "nat \<rightharpoonup> block"
  pf_pages :: "nat list"
  pf_max_pages :: nat
  pf_junk :: byte

definition page_offset :: "paged_file \<Rightarrow> nat \<Rightarrow> nat" where
  "page_offset f page = (page * pf_page_size f) mod 2 ^ 32"

text \<open>A short read leaves the end of the buffer as it was.\<close>

definition pf_fill :: "paged_file \<Rightarrow> nat \<Rightarrow> block \<Rightarrow> block" where
  "pf_fill f page buffer =
     (let data = file_read (pf_disk f) (page_offset f page) (pf_page_size f)
      in data @ drop (length data) buffer)"

definition pf_GetPage :: "nat \<Rightarrow> paged_file \<Rightarrow> block \<times> paged_file" where
  "pf_GetPage page f =
     (case pf_cache f page of
        Some b \<Rightarrow> (b, f)
      | None \<Rightarrow>
          let (buffer, f) =
            (if pf_max_pages f \<le> length (pf_pages f)
             then case pf_pages f of
                    [] \<Rightarrow> (replicate (pf_page_size f) (pf_junk f), f)
                  | p # ps \<Rightarrow>
                      (case pf_cache f p of None \<Rightarrow> [] | Some b \<Rightarrow> b,
                       f\<lparr> pf_pages := ps, pf_cache := (pf_cache f)(p := None) \<rparr>)
             else (replicate (pf_page_size f) (pf_junk f), f));
            b = pf_fill f page buffer
          in (b, f\<lparr> pf_cache := (pf_cache f)(page \<mapsto> b), pf_pages := pf_pages f @ [page] \<rparr>))"

definition pf_FlushPage :: "nat \<Rightarrow> paged_file \<Rightarrow> paged_file" where
  "pf_FlushPage page f =
     (case pf_cache f page of
        None \<Rightarrow> f
      | Some b \<Rightarrow> f\<lparr> pf_disk := file_write (pf_disk f) (page_offset f page) b \<rparr>)"

definition pf_PageByOffset :: "paged_file \<Rightarrow> nat \<Rightarrow> nat" where
  "pf_PageByOffset f off = off div pf_page_size f"

definition pf_FreeCache :: "paged_file \<Rightarrow> paged_file" where
  "pf_FreeCache f = f\<lparr> pf_cache := Map.empty, pf_pages := [] \<rparr>"

definition pf_SetPageSize :: "nat \<Rightarrow> paged_file \<Rightarrow> paged_file" where
  "pf_SetPageSize n f =
     (pf_FreeCache f)\<lparr> pf_page_size := n, pf_max_pages := (4 * 1024 * 1024) div n \<rparr>"

definition PagedFile_new :: "byte \<Rightarrow> byte list \<Rightarrow> paged_file" where
  "PagedFile_new junk disk =
     pf_SetPageSize 4096 \<lparr> pf_page_size = 0, pf_disk = disk, pf_cache = Map.empty, pf_pages = [],
       pf_max_pages = 0, pf_junk = junk \<rparr>"

text \<open>
  The loops advance by at least one byte per turn as long as the page offset is inside a page,
  which the entry points ensure.
\<close>

function pf_read_loop :: "nat \<Rightarrow> nat \<Rightarrow> nat \<Rightarrow> paged_file \<Rightarrow> byte list \<times> paged_file" where
  "pf_read_loop page off remaining f =
     (if remaining = 0 \<or> pf_page_size f \<le> off then ([], f)
      else
        let (b, f') = pf_GetPage page f; n = min remaining (pf_page_size f - off) in
        let (rest, f'') =
          (if remaining - n = 0 then ([], f') else pf_read_loop (page + 1) 0 (remaining - n) f')
        in (take n (drop off b) @ rest, f''))"
  by pat_completeness auto

termination
  by (relation "measure (\<lambda>(page, off, remaining, f). remaining)") auto

function pf_write_loop :: "nat \<Rightarrow> nat \<Rightarrow> byte list \<Rightarrow> paged_file \<Rightarrow> paged_file" where
  "pf_write_loop page off bs f =
     (if bs = [] \<or> pf_page_size f \<le> off then f
      else
        let (b, f1) = pf_GetPage page f; n = min (length bs) (pf_page_size f - off);
            b' = take off b @ take n bs @ drop (off + n) b;
            f2 = pf_FlushPage page (f1\<lparr> pf_cache := (pf_cache f1)(page \<mapsto> b') \<rparr>)
        in if length bs - n = 0 then f2 else pf_write_loop (page + 1) 0 (drop n bs) f2)"
  by pat_completeness auto

termination
  by (relation "measure (\<lambda>(page, off, bs, f). length bs)") auto

declare pf_read_loop.simps [simp del] pf_write_loop.simps [simp del]

definition pf_Read :: "nat \<Rightarrow> nat \<Rightarrow> paged_file \<Rightarrow> byte list \<times> paged_file" where
  "pf_Read offset n f =
     pf_read_loop (pf_PageByOffset f offset) (offset mod pf_page_size f) n f"

definition pf_Write :: "nat \<Rightarrow> byte list \<Rightarrow> paged_file \<Rightarrow> paged_file" where
  "pf_Write offset bs f =
     pf_write_loop (pf_PageByOffset f offset) (offset mod pf_page_size f) bs f"

definition pf_GetFileSize :: "paged_file \<Rightarrow> nat" where
  "pf_GetFileSize f = length (pf_disk f)"

definition pf_GrowFile :: "nat \<Rightarrow> paged_file \<Rightarrow> paged_file" where
  "pf_GrowFile pages f =
     f\<lparr> pf_disk := file_write (pf_disk f) (pf_GetFileSize f)
                     (replicate (pages * pf_page_size f mod 2 ^ 32) 0xEE) \<rparr>"


section \<open>Coherence\<close>

definition page_bytes :: "paged_file \<Rightarrow> nat \<Rightarrow> byte list" where
  "page_bytes f page = file_read (pf_disk f) (page * pf_page_size f) (pf_page_size f)"

text \<open>
  \<open>pf_coherent\<close>: a cached page starts inside the file and agrees with it as far as the file goes.
  \<open>pf_inv\<close> asks in addition that the file is a whole number of pages, which writing relies on.
\<close>

definition pf_coherent :: "paged_file \<Rightarrow> bool" where
  "pf_coherent f \<longleftrightarrow> 0 < pf_page_size f \<and> 0 < pf_max_pages f \<and> length (pf_disk f) \<le> 2 ^ 32 \<and>
     distinct (pf_pages f) \<and> set (pf_pages f) = dom (pf_cache f) \<and>
     (\<forall>p b. pf_cache f p = Some b \<longrightarrow> p * pf_page_size f < length (pf_disk f) \<and>
        length b = pf_page_size f \<and>
        take (length (pf_disk f) - p * pf_page_size f) b = page_bytes f p)"

definition pf_inv :: "paged_file \<Rightarrow> bool" where
  "pf_inv f \<longleftrightarrow> pf_coherent f \<and> pf_page_size f dvd length (pf_disk f)"

lemma length_page_bytes:
  "length (page_bytes f p) = min (pf_page_size f) (length (pf_disk f) - p * pf_page_size f)"
  by (simp add: page_bytes_def file_read_def min.commute)

lemma pf_fill_page:
  assumes "p * pf_page_size f < length (pf_disk f)" and "length (pf_disk f) \<le> 2 ^ 32"
    and "length buffer = pf_page_size f"
  shows "length (pf_fill f p buffer) = pf_page_size f \<and>
         take (length (pf_disk f) - p * pf_page_size f) (pf_fill f p buffer) = page_bytes f p"
proof -
  have "page_offset f p = p * pf_page_size f" using assms(1,2) by (simp add: page_offset_def)
  then have fill: "pf_fill f p buffer = page_bytes f p @ drop (length (page_bytes f p)) buffer"
    by (simp add: pf_fill_def page_bytes_def Let_def)
  show ?thesis
    unfolding fill using assms(3) length_page_bytes [of f p] by (auto simp: min_def)
qed

text \<open>The state of a miss before the page is filled: a free buffer, the cache still coherent.\<close>

lemma pf_coherent_evict:
  assumes "pf_coherent f" and "pf_pages f = p # ps"
  shows "pf_coherent (f\<lparr> pf_pages := ps, pf_cache := (pf_cache f)(p := None) \<rparr>)"
  using assms by (auto simp: pf_coherent_def page_bytes_def)

lemma pf_coherent_add:
  assumes "pf_coherent f" and "pf_cache f p = None" and "p * pf_page_size f < length (pf_disk f)"
    and "length b = pf_page_size f"
    and "take (length (pf_disk f) - p * pf_page_size f) b = page_bytes f p"
  shows "pf_coherent (f\<lparr> pf_cache := (pf_cache f)(p \<mapsto> b), pf_pages := pf_pages f @ [p] \<rparr>)"
  using assms by (auto simp: pf_coherent_def page_bytes_def)

definition same_file :: "paged_file \<Rightarrow> paged_file \<Rightarrow> bool" where
  "same_file f g \<longleftrightarrow> pf_disk g = pf_disk f \<and> pf_page_size g = pf_page_size f"

lemma pf_GetPage_ok:
  assumes coh: "pf_coherent f" and inside: "p * pf_page_size f < length (pf_disk f)"
  shows "\<exists>b g. pf_GetPage p f = (b, g) \<and> pf_coherent g \<and> same_file f g \<and> pf_cache g p = Some b \<and>
           length b = pf_page_size f \<and>
           take (length (pf_disk f) - p * pf_page_size f) b = page_bytes f p"
proof (cases "pf_cache f p")
  case (Some b)
  then show ?thesis using coh by (auto simp: pf_GetPage_def same_file_def pf_coherent_def)
next
  case None
  obtain buffer g where g: "pf_coherent g" "same_file f g" "pf_cache g p = None"
      "length buffer = pf_page_size f"
    and get: "pf_GetPage p f = (let b = pf_fill g p buffer in
        (b, g\<lparr> pf_cache := (pf_cache g)(p \<mapsto> b), pf_pages := pf_pages g @ [p] \<rparr>))"
  proof (cases "pf_max_pages f \<le> length (pf_pages f)")
    case True
    then obtain q qs where q: "pf_pages f = q # qs"
      using coh by (cases "pf_pages f") (auto simp: pf_coherent_def)
    then have "q \<in> dom (pf_cache f)" using coh by (auto simp: pf_coherent_def)
    then obtain b where b: "pf_cache f q = Some b" "length b = pf_page_size f"
      using coh by (auto simp: pf_coherent_def)
    show ?thesis
      by (rule that [OF pf_coherent_evict [OF coh q], of b])
        (use True None q b in \<open>auto simp: pf_GetPage_def same_file_def Let_def\<close>)
  next
    case False
    show ?thesis
      by (rule that [OF coh, of "replicate (pf_page_size f) (pf_junk f)"])
        (use False None in \<open>auto simp: pf_GetPage_def same_file_def Let_def\<close>)
  qed
  have same: "pf_disk g = pf_disk f" "pf_page_size g = pf_page_size f"
    using g(2) by (simp_all add: same_file_def)
  have fill: "length (pf_fill g p buffer) = pf_page_size g"
      "take (length (pf_disk g) - p * pf_page_size g) (pf_fill g p buffer) = page_bytes g p"
    using pf_fill_page [of p g buffer] inside g(1,4) same by (simp_all add: pf_coherent_def)
  have "pf_coherent (g\<lparr> pf_cache := (pf_cache g)(p \<mapsto> pf_fill g p buffer), pf_pages := pf_pages g @ [p] \<rparr>)"
    by (rule pf_coherent_add [OF g(1,3)]) (use inside same fill in simp_all)
  with get fill same show ?thesis by (simp add: Let_def same_file_def page_bytes_def)
qed

text \<open>Bytes of a coherent page are bytes of the file.\<close>

lemma page_slice:
  assumes "take (length (pf_disk f) - p * pf_page_size f) b = page_bytes f p"
    and "length b = pf_page_size f" and "off + n \<le> pf_page_size f"
    and "p * pf_page_size f + off + n \<le> length (pf_disk f)"
  shows "take n (drop off b) = take n (drop (p * pf_page_size f + off) (pf_disk f))"
proof -
  have "take n (drop off b) = take n (drop off (take (length (pf_disk f) - p * pf_page_size f) b))"
    using assms(4) by (simp add: drop_take min_def)
  also have "\<dots> = take n (drop off (take (pf_page_size f) (drop (p * pf_page_size f) (pf_disk f))))"
    unfolding assms(1) by (simp add: page_bytes_def file_read_def)
  also have "\<dots> = take n (drop (p * pf_page_size f + off) (pf_disk f))"
    using assms(3) by (simp add: drop_take min_def add.commute)
  finally show ?thesis .
qed

lemma pf_read_loop_ok:
  assumes "pf_coherent f" and "off < pf_page_size f"
    and "page * pf_page_size f + off + n \<le> length (pf_disk f)"
  shows "\<exists>g. pf_read_loop page off n f =
           (take n (drop (page * pf_page_size f + off) (pf_disk f)), g) \<and>
           pf_coherent g \<and> same_file f g"
  using assms
proof (induction n arbitrary: page off f rule: less_induct)
  case (less n)
  show ?case
  proof (cases "n = 0")
    case True
    then show ?thesis
      using less.prems by (simp add: pf_read_loop.simps [of page off 0 f] same_file_def)
  next
    case False
    let ?ps = "pf_page_size f" and ?d = "pf_disk f"
    let ?k = "min n (?ps - off)"
    have k: "0 < ?k" "?k \<le> n" "off + ?k \<le> ?ps" using False less.prems(2) by auto
    obtain b g where get: "pf_GetPage page f = (b, g)" and coh: "pf_coherent g" and same: "same_file f g"
      and lb: "length b = ?ps" and tb: "take (length ?d - page * ?ps) b = page_bytes f page"
      using pf_GetPage_ok [OF less.prems(1), of page] less.prems(3) False by auto
    have first: "take ?k (drop off b) = take ?k (drop (page * ?ps + off) ?d)"
      by (rule page_slice [OF tb lb k(3)]) (use less.prems(3) k in simp)
    have loop: "pf_read_loop page off n f =
        (let (rest, h) = (if n - ?k = 0 then ([], g) else pf_read_loop (page + 1) 0 (n - ?k) g)
         in (take ?k (drop off b) @ rest, h))"
      using False less.prems(2) by (simp add: pf_read_loop.simps [of page off n f] get)
    show ?thesis
    proof (cases "n - ?k = 0")
      case True
      then have "?k = n" using k by simp
      then show ?thesis using loop first coh same by (simp add: True)
    next
      case more: False
      then have ke: "?k = ?ps - off" by auto
      have "\<exists>h. pf_read_loop (page + 1) 0 (n - ?k) g =
           (take (n - ?k) (drop ((page + 1) * pf_page_size g + 0) (pf_disk g)), h) \<and>
           pf_coherent h \<and> same_file g h"
      proof (rule less.IH [OF _ coh])
        show "n - ?k < n" using k by simp
        show "0 < pf_page_size g" using coh by (simp add: pf_coherent_def)
        show "(page + 1) * pf_page_size g + 0 + (n - ?k) \<le> length (pf_disk g)"
          using less.prems ke same by (simp add: same_file_def)
      qed
      moreover have "(page + 1) * pf_page_size g + 0 = page * ?ps + off + ?k"
        using ke same less.prems(2) by (simp add: same_file_def)
      moreover have "pf_disk g = ?d" "\<And>h. same_file g h = same_file f h"
        using same by (simp_all add: same_file_def)
      ultimately obtain h where h: "pf_read_loop (page + 1) 0 (n - ?k) g =
           (take (n - ?k) (drop (page * ?ps + off + ?k) ?d), h)" "pf_coherent h" "same_file f h"
        by metis
      have "take ?k (drop (page * ?ps + off) ?d) @ take (n - ?k) (drop (page * ?ps + off + ?k) ?d) =
          take n (drop (page * ?ps + off) ?d)"
        using k(2) by (metis drop_drop le_add_diff_inverse take_add add.commute)
      then show ?thesis using loop more h first by (simp add: Let_def)
    qed
  qed
qed

lemma file_write_append:
  assumes "off + length xs + length ys \<le> length d"
  shows "file_write (file_write d off xs) (off + length xs) ys = file_write d off (xs @ ys)"
proof -
  have 1: "mem_write d off xs = Inr (file_write d off xs)"
    using assms by (intro file_write_inside) simp
  have 2: "mem_write (file_write d off xs) (off + length xs) ys =
      Inr (file_write (file_write d off xs) (off + length xs) ys)"
    using assms by (intro file_write_inside) simp
  have "mem_write d off (xs @ ys) = Inr (file_write d off (xs @ ys))"
    using assms by (intro file_write_inside) simp
  with mem_write_append [OF 1 2] show ?thesis by simp
qed

text \<open>Rewriting a page with some bytes replaced is writing those bytes.\<close>

lemma file_write_page:
  assumes "b = take ps (drop o' d)" and "o' + ps \<le> length d" and "off + length xs \<le> ps"
  shows "file_write d o' (take off b @ xs @ drop (off + length xs) b) = file_write d (o' + off) xs"
proof -
  have "take o' d @ take off b = take (o' + off) d"
    using assms by (simp add: take_add min_def)
  moreover have "drop (off + length xs) b @ drop (o' + ps) d = drop (o' + off + length xs) d"
  proof -
    have "length b = ps" using assms(1,2) by simp
    have "drop (off + length xs) (drop o' d) = drop (off + length xs) (b @ drop ps (drop o' d))"
      unfolding assms(1) append_take_drop_id ..
    also have "\<dots> = drop (off + length xs) b @ drop (o' + ps) d"
      using assms(3) \<open>length b = ps\<close> by (simp add: add.commute)
    finally show ?thesis by (simp add: add.assoc add.commute add.left_commute)
  qed
  ultimately show ?thesis
    using assms by (simp add: file_write_def)
qed

lemma page_fits:
  assumes "ps dvd n" and "p * ps < (n :: nat)"
  shows "p * ps + ps \<le> n"
proof -
  obtain k where k: "n = ps * k" using assms(1) by (rule dvdE)
  then have "p < k" using assms(2) by (simp add: mult.commute)
  then have "(p + 1) * ps \<le> k * ps" by (intro mult_le_mono1) simp
  then show ?thesis using k by (simp add: mult.commute)
qed

text \<open>One turn of the write loop.\<close>

lemma pf_write_page:
  assumes inv: "pf_inv f" and fits: "off + length xs \<le> pf_page_size f"
    and inside: "page * pf_page_size f < length (pf_disk f)"
    and get: "pf_GetPage page f = (b, f1)"
    and f2: "f2 = pf_FlushPage page
      (f1\<lparr> pf_cache := (pf_cache f1)(page \<mapsto> take off b @ xs @ drop (off + length xs) b) \<rparr>)"
  shows "pf_inv f2 \<and> pf_page_size f2 = pf_page_size f \<and>
         pf_disk f2 = file_write (pf_disk f) (page * pf_page_size f + off) xs"
proof -
  let ?ps = "pf_page_size f" and ?d = "pf_disk f"
  let ?b = "take off b @ xs @ drop (off + length xs) b"
  have coh: "pf_coherent f" and dvd: "?ps dvd length ?d" using inv by (simp_all add: pf_inv_def)
  obtain coh1: "pf_coherent f1" and same: "pf_disk f1 = ?d" "pf_page_size f1 = ?ps"
    and c1: "pf_cache f1 page = Some b" and lb: "length b = ?ps"
    and tb: "take (length ?d - page * ?ps) b = page_bytes f page"
    using pf_GetPage_ok [OF coh inside] get by (auto simp: same_file_def)
  have le: "page * ?ps + ?ps \<le> length ?d" by (rule page_fits [OF dvd inside])
  have b: "b = take ?ps (drop (page * ?ps) ?d)"
    using tb lb le by (simp add: page_bytes_def file_read_def)
  have len: "length ?b = ?ps" using lb fits by simp
  have po: "page_offset f1 page = page * ?ps"
    using inside coh by (simp add: page_offset_def same pf_coherent_def)
  have d2: "pf_disk f2 = file_write ?d (page * ?ps) ?b"
    by (simp add: f2 pf_FlushPage_def same po page_offset_def cong: option.case_cong)
      (use po same in \<open>simp add: page_offset_def\<close>)
  then have d2': "pf_disk f2 = file_write ?d (page * ?ps + off) xs"
    using file_write_page [OF b le fits] by simp
  have rest: "pf_page_size f2 = ?ps" "pf_max_pages f2 = pf_max_pages f1" "pf_pages f2 = pf_pages f1"
    "pf_cache f2 = (pf_cache f1)(page \<mapsto> ?b)"
    by (simp_all add: f2 pf_FlushPage_def same)
  have l2: "length (pf_disk f2) = length ?d" using d2 le len by simp
  have "page_bytes f2 page = ?b"
    using d2 le len file_read_write_same [of "page * ?ps" ?b ?d] by (simp add: page_bytes_def rest)
  moreover have "page_bytes f2 q = page_bytes f1 q" if "q \<noteq> page" for q
  proof -
    have "q * ?ps + ?ps \<le> page * ?ps \<or> page * ?ps + length ?b \<le> q * ?ps"
      using that len mult_le_mono1 [of "q + 1" page ?ps] mult_le_mono1 [of "page + 1" q ?ps]
      by (cases "q < page") auto
    then show ?thesis
      using d2 le len file_read_write_other [of "page * ?ps" ?b ?d "q * ?ps" ?ps]
      by (simp add: page_bytes_def rest same)
  qed
  moreover have "set (pf_pages f1) = dom (pf_cache f1)" using coh1 by (simp add: pf_coherent_def)
  ultimately have "pf_coherent f2"
    using coh1 inside len lb le c1 unfolding pf_coherent_def l2 rest same
    by (auto split: if_splits)
  then show ?thesis using dvd l2 rest d2' by (simp add: pf_inv_def)
qed

lemma pf_write_loop_ok:
  assumes "pf_inv f" and "off < pf_page_size f"
    and "page * pf_page_size f + off + length bs \<le> length (pf_disk f)"
  shows "pf_inv (pf_write_loop page off bs f) \<and>
         pf_page_size (pf_write_loop page off bs f) = pf_page_size f \<and>
         pf_disk (pf_write_loop page off bs f) =
           file_write (pf_disk f) (page * pf_page_size f + off) bs"
  using assms
proof (induction "length bs" arbitrary: page off bs f rule: less_induct)
  case less
  show ?case
  proof (cases "bs = []")
    case True
    then show ?thesis
      using less.prems by (simp add: pf_write_loop.simps [of page off "[]" f] file_write_def)
  next
    case False
    let ?ps = "pf_page_size f" and ?k = "min (length bs) (pf_page_size f - off)"
    let ?xs = "take ?k bs"
    have k: "0 < ?k" "length ?xs = ?k" "off + length ?xs \<le> ?ps" using False less.prems(2) by auto
    have inside: "page * ?ps < length (pf_disk f)" using less.prems(3) False
      by (metis add_lessD1 le_eq_less_or_eq length_greater_0_conv less_add_same_cancel1 order_less_le_trans)
    obtain b f1 where get: "pf_GetPage page f = (b, f1)" by (cases "pf_GetPage page f")
    define f2 where "f2 = pf_FlushPage page
      (f1\<lparr> pf_cache := (pf_cache f1)(page \<mapsto> take off b @ ?xs @ drop (off + length ?xs) b) \<rparr>)"
    have f2: "pf_inv f2" "pf_page_size f2 = ?ps"
      "pf_disk f2 = file_write (pf_disk f) (page * ?ps + off) ?xs"
      using pf_write_page [OF less.prems(1) k(3) inside get f2_def] by simp_all
    have loop: "pf_write_loop page off bs f =
        (if length bs - ?k = 0 then f2 else pf_write_loop (page + 1) 0 (drop ?k bs) f2)"
      using False less.prems(2)
      by (simp add: pf_write_loop.simps [of page off bs f] get f2_def Let_def k(2) min.commute)
    show ?thesis
    proof (cases "length bs - ?k = 0")
      case True
      then have "?xs = bs" by simp
      then show ?thesis using loop True f2 by simp
    next
      case more: False
      then have ke: "?k = ?ps - off" by auto
      have at: "(page + 1) * ?ps + 0 = page * ?ps + off + length ?xs"
        using k(2) ke less.prems(2) by simp
      have l2: "length (pf_disk f2) = length (pf_disk f)"
        unfolding f2(3) by (rule length_file_write) (use less.prems(3) k(2) in simp)
      have room: "page * ?ps + off + length ?xs + length (drop ?k bs) \<le> length (pf_disk f)"
        using less.prems(3) k(2) by simp
      have "pf_inv (pf_write_loop (page + 1) 0 (drop ?k bs) f2) \<and>
         pf_page_size (pf_write_loop (page + 1) 0 (drop ?k bs) f2) = pf_page_size f2 \<and>
         pf_disk (pf_write_loop (page + 1) 0 (drop ?k bs) f2) =
           file_write (pf_disk f2) ((page + 1) * pf_page_size f2 + 0) (drop ?k bs)"
      proof (rule less.hyps [OF _ f2(1)])
        show "length (drop ?k bs) < length bs" using k(1) False by simp
        show "0 < pf_page_size f2" using f2(2) less.prems(2) by simp
        show "(page + 1) * pf_page_size f2 + 0 + length (drop ?k bs) \<le> length (pf_disk f2)"
          unfolding f2(2) at l2 by (rule room)
      qed
      moreover have "file_write (pf_disk f2) (page * ?ps + off + length ?xs) (drop ?k bs) =
          file_write (pf_disk f) (page * ?ps + off) bs"
        unfolding f2(3) file_write_append [OF room] by simp
      ultimately show ?thesis unfolding loop f2(2) at using more by simp
    qed
  qed
qed

lemma page_of_offset:
  "0 < pf_page_size f \<Longrightarrow> pf_PageByOffset f off * pf_page_size f + off mod pf_page_size f = off"
  by (simp add: pf_PageByOffset_def)

lemma pf_Read_coherent:
  assumes "pf_coherent f" and "off + n \<le> length (pf_disk f)"
  shows "fst (pf_Read off n f) = file_read (pf_disk f) off n \<and> pf_coherent (snd (pf_Read off n f)) \<and>
         same_file f (snd (pf_Read off n f))"
proof -
  have ps: "0 < pf_page_size f" using assms(1) by (simp add: pf_coherent_def)
  then have "off mod pf_page_size f < pf_page_size f" by simp
  from pf_read_loop_ok [OF assms(1) this, of "pf_PageByOffset f off" n] page_of_offset [OF ps, of off]
  show ?thesis using assms(2) by (auto simp: pf_Read_def file_read_def)
qed

lemma pf_Write_inv:
  assumes "pf_inv f" and "off + length bs \<le> length (pf_disk f)"
  shows "pf_inv (pf_Write off bs f) \<and> pf_disk (pf_Write off bs f) = file_write (pf_disk f) off bs \<and>
         pf_page_size (pf_Write off bs f) = pf_page_size f"
proof -
  have ps: "0 < pf_page_size f" using assms(1) by (simp add: pf_inv_def pf_coherent_def)
  then have "off mod pf_page_size f < pf_page_size f" by simp
  from pf_write_loop_ok [OF assms(1) this, of "pf_PageByOffset f off" bs] page_of_offset [OF ps, of off]
  show ?thesis using assms(2) by (simp add: pf_Write_def)
qed

interpretation pf: flat_file pf_Read pf_Write pf_disk pf_inv
proof (unfold_locales, goal_cases)
  case 1
  then show ?case using pf_Read_coherent by (simp add: pf_inv_def)
next
  case (2 f off n)
  then show ?case using pf_Read_coherent [of f off n] by (simp add: pf_inv_def same_file_def)
next
  case 3
  then show ?case using pf_Write_inv by simp
next
  case 4
  then show ?case using pf_Write_inv by simp
qed

lemma pf_inv_new:
  assumes "4096 dvd length disk" and "length disk \<le> 2 ^ 32"
  shows "pf_inv (PagedFile_new junk disk)"
  using assms by (simp add: pf_inv_def pf_coherent_def PagedFile_new_def pf_SetPageSize_def pf_FreeCache_def)

lemma pf_GrowFile_inv:
  assumes "pf_inv f" and "length (pf_disk f) + pages * pf_page_size f < 2 ^ 32"
  shows "pf_inv (pf_GrowFile pages f) \<and>
         pf_disk (pf_GrowFile pages f) = pf_disk f @ replicate (pages * pf_page_size f) 0xEE"
proof -
  let ?g = "pf_GrowFile pages f"
  have d: "pf_disk ?g = pf_disk f @ replicate (pages * pf_page_size f) 0xEE"
    using assms(2) by (simp add: pf_GrowFile_def pf_GetFileSize_def file_write_def)
  have rest: "pf_page_size ?g = pf_page_size f" "pf_cache ?g = pf_cache f" "pf_pages ?g = pf_pages f"
    "pf_max_pages ?g = pf_max_pages f"
    by (simp_all add: pf_GrowFile_def)
  have coh: "pf_coherent f" and dvd: "pf_page_size f dvd length (pf_disk f)"
    using assms(1) by (simp_all add: pf_inv_def)
  have page: "b = page_bytes f p \<and> page_bytes ?g p = page_bytes f p \<and> p * pf_page_size f < length (pf_disk f)"
    if c: "pf_cache f p = Some b" for p b
  proof -
    have p: "p * pf_page_size f < length (pf_disk f)" "length b = pf_page_size f"
      "take (length (pf_disk f) - p * pf_page_size f) b = page_bytes f p"
      using coh c by (simp_all add: pf_coherent_def)
    have "p * pf_page_size f + pf_page_size f \<le> length (pf_disk f)" by (rule page_fits [OF dvd p(1)])
    then show ?thesis using p by (simp add: page_bytes_def file_read_def d rest)
  qed
  have "pf_coherent ?g"
    unfolding pf_coherent_def rest
  proof (intro conjI allI impI)
    fix p b assume c: "pf_cache f p = Some b"
    show "p * pf_page_size f < length (pf_disk ?g)" using page [OF c] by (simp add: d)
    show "length b = pf_page_size f" using coh c by (simp add: pf_coherent_def)
    then show "take (length (pf_disk ?g) - p * pf_page_size f) b = page_bytes ?g p"
      using page [OF c] length_page_bytes [of ?g p] by (simp add: rest)
  qed (use coh assms(2) in \<open>simp_all add: pf_coherent_def d\<close>)
  then show ?thesis using dvd d rest by (simp add: pf_inv_def)
qed

text \<open>
  C28: the paged file with its cache behaves as the plain file: starting from any file of whole
  pages, after any sequence of writes inside it (whatever pages are cached or evicted on the way)
  a read returns the bytes of the plain file after the same writes, and the cache stays coherent.
\<close>

theorem paged_file_refines_flat_file:
  assumes "4096 dvd length disk" and "length disk \<le> 2 ^ 32"
    and "\<forall>(off, bs) \<in> set ws. off + length bs \<le> length disk" and "o' + n \<le> length disk"
  shows "fst (pf_Read o' n (fold (\<lambda>(off, bs). pf_Write off bs) ws (PagedFile_new junk disk))) =
           file_read (fold (\<lambda>(off, bs) d. file_write d off bs) ws disk) o' n"
proof -
  let ?f = "PagedFile_new junk disk"
  let ?g = "fold (\<lambda>(off, bs). pf_Write off bs) ws ?f"
  have d: "pf_disk ?f = disk" by (simp add: PagedFile_new_def pf_SetPageSize_def pf_FreeCache_def)
  have g: "pf_inv ?g" "pf_disk ?g = fold (\<lambda>(off, bs) d. file_write d off bs) ws disk"
    using pf.writes_bytes [OF pf_inv_new [OF assms(1,2), of junk], of ws] assms(3) d by simp_all
  have "length (fold (\<lambda>(off, bs) d. file_write d off bs) ws disk) = length disk"
    using assms(3) by (induction ws arbitrary: disk rule: rev_induct) auto
  with g pf.rd_bytes [OF g(1), of o' n] assms(4) show ?thesis by simp
qed

theorem paged_file_refines_flat_file_witness:
  "fst (pf_Read 4094 4 (fold (\<lambda>(off, bs). pf_Write off bs) [(4095, [1, 2]), (4095, [7])]
      (PagedFile_new 0 (replicate 8192 0)))) =
     file_read (fold (\<lambda>(off, bs) d. file_write d off bs) [(4095, [1, 2]), (4095, [7])] (replicate 8192 0)) 4094 4"
  by (rule paged_file_refines_flat_file) simp_all

end
