(* ===== verification/LogDb.thy ===== *)
theory LogDb
  imports PagedFile StdMap
begin

text \<open>
  \<^verbatim>\<open>class Ldb\<close> of \<^verbatim>\<open>server/tio/logdb.h\<close>, the log-structured table store under the persistent
  containers.  A table is a chain of blocks of log records in the file; the records in memory are
  what replaying the log gives.  The state holds the paged file; a table is passed and returned
  by value, as the code passes a pointer to it.  \<^verbatim>\<open>DWORD\<close>s are 32-bit words.  An \<^verbatim>\<open>ASSERT\<close> that
  fails is a fault; the walk along a chain of blocks takes a bound on the number of blocks.
\<close>

unbundle bit_operations_syntax

abbreviation (input) "LDB_MAGIC \<equiv> (0x00BABACA :: u32)"
abbreviation (input) "LDB_INVALID_RECNO \<equiv> (0xFFFFFFFF :: u32)"
abbreviation (input) "OPERATION_APPEND \<equiv> (1 :: u32)"
abbreviation (input) "OPERATION_INSERT \<equiv> (2 :: u32)"
abbreviation (input) "OPERATION_SET \<equiv> (3 :: u32)"
abbreviation (input) "OPERATION_DELETE \<equiv> (4 :: u32)"
abbreviation (input) "OPERATION_CLEAR \<equiv> (5 :: u32)"

abbreviation (input) "sizeof_LDB_FILE_HEADER \<equiv> (16 :: u32)"
abbreviation (input) "sizeof_LDB_BLOCK_HEADER \<equiv> (12 :: u32)"
abbreviation (input) "sizeof_LDB_LOG_RECORD \<equiv> (48 :: u32)"

record ldb_file_header =
  fh_magic :: u32
  fh_version :: u32
  fh_flags :: u32
  fh_table_block_offset :: u32

record ldb_block_header =
  bh_size :: u32
  bh_used_count :: u32
  bh_next_block_offset :: u32

record ldb_block_header_info =
  bi_block_header :: ldb_block_header
  bi_offset :: u32

record ldb_log_record_field =
  lf_data_offset :: u32
  lf_data_size :: u32
  lf_hash :: u32

record ldb_log_record =
  lr_operation :: u32
  lr_record_index :: u32
  lr_record_id :: u32
  lr_key :: ldb_log_record_field
  lr_value :: ldb_log_record_field
  lr_metadata :: ldb_log_record_field

record table_info =
  ti_name :: "byte list"
  ti_last_block :: ldb_block_header_info
  ti_records :: "ldb_log_record list"

record ldb =
  ldb_file :: paged_file
  ldb_header :: ldb_file_header
  ldb_next_data_offset :: u32
  ldb_grow_pages_step :: u32
  ldb_default_block_size :: u32
  ldb_total_record_count :: u32
  ldb_total_log_record_count :: u32
  ldb_last_record_id :: u32
  ldb_metatable :: table_info
  ldb_tables :: "(byte list \<times> table_info) list"

definition zero_field :: ldb_log_record_field where
  "zero_field = \<lparr> lf_data_offset = 0, lf_data_size = 0, lf_hash = 0 \<rparr>"


section \<open>Structs in the file\<close>

definition field_bytes :: "ldb_log_record_field \<Rightarrow> byte list" where
  "field_bytes f = u32_bytes (lf_data_offset f) @ u32_bytes (lf_data_size f) @ u32_bytes (lf_hash f)"

definition log_record_bytes :: "ldb_log_record \<Rightarrow> byte list" where
  "log_record_bytes r =
     u32_bytes (lr_operation r) @ u32_bytes (lr_record_index r) @ u32_bytes (lr_record_id r) @
     field_bytes (lr_key r) @ field_bytes (lr_value r) @ field_bytes (lr_metadata r)"

definition block_header_bytes :: "ldb_block_header \<Rightarrow> byte list" where
  "block_header_bytes h =
     u32_bytes (bh_size h) @ u32_bytes (bh_used_count h) @ u32_bytes (bh_next_block_offset h)"

definition file_header_bytes :: "ldb_file_header \<Rightarrow> byte list" where
  "file_header_bytes h =
     u32_bytes (fh_magic h) @ u32_bytes (fh_version h) @ u32_bytes (fh_flags h) @
     u32_bytes (fh_table_block_offset h)"

definition u32_at :: "byte list \<Rightarrow> nat \<Rightarrow> u32" where
  "u32_at bs i = bytes_u32 (take 4 (drop (4 * i) bs))"

definition bytes_field :: "byte list \<Rightarrow> ldb_log_record_field" where
  "bytes_field bs = \<lparr> lf_data_offset = u32_at bs 0, lf_data_size = u32_at bs 1, lf_hash = u32_at bs 2 \<rparr>"

definition bytes_log_record :: "byte list \<Rightarrow> ldb_log_record" where
  "bytes_log_record bs =
     \<lparr> lr_operation = u32_at bs 0, lr_record_index = u32_at bs 1, lr_record_id = u32_at bs 2,
       lr_key = bytes_field (drop 12 bs), lr_value = bytes_field (drop 24 bs),
       lr_metadata = bytes_field (drop 36 bs) \<rparr>"

definition bytes_block_header :: "byte list \<Rightarrow> ldb_block_header" where
  "bytes_block_header bs =
     \<lparr> bh_size = u32_at bs 0, bh_used_count = u32_at bs 1, bh_next_block_offset = u32_at bs 2 \<rparr>"

definition bytes_file_header :: "byte list \<Rightarrow> ldb_file_header" where
  "bytes_file_header bs =
     \<lparr> fh_magic = u32_at bs 0, fh_version = u32_at bs 1, fh_flags = u32_at bs 2,
       fh_table_block_offset = u32_at bs 3 \<rparr>"

fun bytes_log_records :: "nat \<Rightarrow> byte list \<Rightarrow> ldb_log_record list" where
  "bytes_log_records 0 bs = []"
| "bytes_log_records (Suc n) bs = bytes_log_record (take 48 bs) # bytes_log_records n (drop 48 bs)"

text \<open>Access to the file of the database, at word offsets.\<close>

definition ldb_read :: "u32 \<Rightarrow> u32 \<Rightarrow> ldb \<Rightarrow> byte list \<times> ldb" where
  "ldb_read off n d = (let (bs, f) = pf_Read (unat off) (unat n) (ldb_file d) in (bs, d\<lparr> ldb_file := f \<rparr>))"

definition ldb_write :: "u32 \<Rightarrow> byte list \<Rightarrow> ldb \<Rightarrow> ldb" where
  "ldb_write off bs d = d\<lparr> ldb_file := pf_Write (unat off) bs (ldb_file d) \<rparr>"

definition ldb_file_size :: "ldb \<Rightarrow> u32" where
  "ldb_file_size d = of_nat (pf_GetFileSize (ldb_file d))"


section \<open>Writing data and log records\<close>

definition DoHash :: "byte list \<Rightarrow> u32" where
  "DoHash buf = foldl (\<lambda>h b. h XOR ucast b) 2 buf"

definition LeaveRoom :: "u32 \<Rightarrow> ldb \<Rightarrow> ldb" where
  "LeaveRoom n d =
     (let pages = n div of_nat (pf_page_size (ldb_file d)) + 1;
          pages = (if pages < ldb_grow_pages_step d then ldb_grow_pages_step d else pages)
      in d\<lparr> ldb_file := pf_GrowFile (unat pages) (ldb_file d) \<rparr>)"

definition EnsureSpace :: "u32 \<Rightarrow> ldb \<Rightarrow> ldb" where
  "EnsureSpace n d =
     (let space = ldb_file_size d - ldb_next_data_offset d
      in if space < n then LeaveRoom (n - space) d else d)"

definition WriteLdbData :: "byte list \<Rightarrow> ldb \<Rightarrow> (ldb_log_record_field \<times> ldb) cres" where
  "WriteLdbData data d =
     (let n = of_nat (length data);
          field = \<lparr> lf_data_offset = ldb_next_data_offset d, lf_data_size = n, lf_hash = DoHash data \<rparr>;
          d = EnsureSpace n d
      in bind_res (guard_res (ldb_next_data_offset d \<noteq> 0 \<and> ldb_next_data_offset d < ldb_file_size d)
                     AssertionFailed) (\<lambda>_.
         let d = ldb_write (ldb_next_data_offset d) data d in
         Inr (field, d\<lparr> ldb_next_data_offset := ldb_next_data_offset d + n \<rparr>)))"

definition WriteOptional :: "byte list option \<Rightarrow> ldb \<Rightarrow> (ldb_log_record_field \<times> ldb) cres" where
  "WriteOptional x d = (case x of None \<Rightarrow> Inr (zero_field, d) | Some data \<Rightarrow> WriteLdbData data d)"

definition CheckNeedForNewBlock :: "ldb_block_header \<Rightarrow> bool" where
  "CheckNeedForNewBlock b =
     (let nextRecordOffset = sizeof_LDB_FILE_HEADER + bh_used_count b * sizeof_LDB_LOG_RECORD;
          spaceLeftInThisBlock = bh_size b - nextRecordOffset
      in spaceLeftInThisBlock < sizeof_LDB_LOG_RECORD)"

text \<open>The updated current block, and the new block when there is one.\<close>

definition CreateNewBlockIfNeeded ::
    "ldb_block_header_info \<Rightarrow> ldb \<Rightarrow>
     (ldb_block_header_info \<times> ldb_block_header_info option \<times> ldb) cres" where
  "CreateNewBlockIfNeeded cur d =
     (if \<not> CheckNeedForNewBlock (bi_block_header cur) then Inr (cur, None, d)
      else
        let size = bh_size (bi_block_header cur);
            d = EnsureSpace size d;
            newBlock = \<lparr> bh_size = size, bh_used_count = 0, bh_next_block_offset = 0 \<rparr>
        in bind_res (guard_res (ldb_next_data_offset d \<noteq> 0 \<and> ldb_next_data_offset d < ldb_file_size d)
                       AssertionFailed) (\<lambda>_.
           let d = ldb_write (ldb_next_data_offset d) (block_header_bytes newBlock) d;
               offset = ldb_next_data_offset d
           in Inr (cur\<lparr> bi_block_header := (bi_block_header cur)\<lparr> bh_next_block_offset := offset \<rparr> \<rparr>,
                   Some \<lparr> bi_block_header = newBlock, bi_offset = offset \<rparr>,
                   d\<lparr> ldb_next_data_offset := offset + size \<rparr>)))"

definition CheckIndex :: "table_info \<Rightarrow> u32 \<Rightarrow> bool" where
  "CheckIndex t index \<longleftrightarrow> unat index < length (ti_records t)"

text \<open>
  The change of the records in memory, and of their total, at the end of \<^verbatim>\<open>AppendLogRecord\<close>.
\<close>

definition live_records :: "ldb_log_record \<Rightarrow> ldb_log_record list \<Rightarrow> ldb_log_record list" where
  "live_records r records =
     (let i = unat (lr_record_index r) in
      if lr_operation r = OPERATION_APPEND then records @ [r]
      else if lr_operation r = OPERATION_SET then records[i := r]
      else if lr_operation r = OPERATION_INSERT
      then (if i = length records then records @ [r] else take i records @ r # drop i records)
      else if lr_operation r = OPERATION_DELETE then take i records @ drop (Suc i) records
      else if lr_operation r = OPERATION_CLEAR then []
      else records)"

definition live_total :: "u32 \<Rightarrow> ldb_log_record list \<Rightarrow> u32 \<Rightarrow> u32" where
  "live_total operation records tot =
     (if operation = OPERATION_APPEND \<or> operation = OPERATION_INSERT then tot + 1
      else if operation = OPERATION_DELETE then tot - 1
      else if operation = OPERATION_CLEAR then tot - of_nat (length records)
      else tot)"

text \<open>
  The log record of an operation: a \<^verbatim>\<open>NULL\<close> argument of a set keeps the field of the record it
  replaces.
\<close>

definition make_log_record ::
    "table_info \<Rightarrow> u32 \<Rightarrow> u32 \<Rightarrow> u32 \<Rightarrow> byte list option \<Rightarrow> byte list option \<Rightarrow> byte list option \<Rightarrow>
     ldb_log_record_field \<Rightarrow> ldb_log_record_field \<Rightarrow> ldb_log_record_field \<Rightarrow> ldb_log_record" where
  "make_log_record t operation recordIndex recordID key v metadata fk fv fm =
     (let setRecord = ti_records t ! unat recordIndex;
          keep = (\<lambda>x f g. if operation = OPERATION_SET \<and> x = None then f setRecord else g)
      in \<lparr> lr_operation = operation, lr_record_index = recordIndex, lr_record_id = recordID,
           lr_key = keep key lr_key fk, lr_value = keep v lr_value fv,
           lr_metadata = keep metadata lr_metadata fm \<rparr>)"

text \<open>
  The record goes into the current block (the new one when there is one), then the header of the
  block, then the header of the old block with its link.  The result is the last block.
\<close>

definition PutLogRecord ::
    "ldb_block_header_info \<Rightarrow> ldb_block_header_info option \<Rightarrow> ldb_log_record \<Rightarrow> ldb \<Rightarrow>
     (ldb_block_header_info \<times> ldb) cres" where
  "PutLogRecord old new logRecord d =
     (let cur = (case new of None \<Rightarrow> old | Some b \<Rightarrow> b);
          logRecordOffset = bi_offset cur + sizeof_LDB_BLOCK_HEADER +
            sizeof_LDB_LOG_RECORD * bh_used_count (bi_block_header cur);
          cur = cur\<lparr> bi_block_header := (bi_block_header cur)
                        \<lparr> bh_used_count := bh_used_count (bi_block_header cur) + 1 \<rparr> \<rparr>
      in bind_res (guard_res (logRecordOffset \<noteq> 0 \<and> bi_offset cur \<noteq> 0 \<and>
           logRecordOffset < ldb_file_size d \<and> bi_offset cur < ldb_file_size d) AssertionFailed) (\<lambda>_.
         let d = ldb_write logRecordOffset (log_record_bytes logRecord) d;
             d = ldb_write (bi_offset cur) (block_header_bytes (bi_block_header cur)) d
         in if new = None then Inr (cur, d)
            else bind_res (guard_res (bi_offset old \<noteq> 0 \<and> bi_offset old < ldb_file_size d)
                             AssertionFailed) (\<lambda>_.
                   Inr (cur, ldb_write (bi_offset old) (block_header_bytes (bi_block_header old)) d))))"

definition AppendLogRecord ::
    "table_info \<Rightarrow> u32 \<Rightarrow> u32 \<Rightarrow> byte list option \<Rightarrow> byte list option \<Rightarrow> byte list option \<Rightarrow> ldb \<Rightarrow>
     (table_info \<times> ldb) cres" where
  "AppendLogRecord t operation recordIndex key v metadata d =
     bind_res (guard_res (operation = OPERATION_CLEAR \<or> (operation = OPERATION_INSERT \<and> recordIndex = 0) \<or>
        operation = OPERATION_APPEND \<or> CheckIndex t recordIndex) AssertionFailed) (\<lambda>_.
     let d = d\<lparr> ldb_last_record_id := ldb_last_record_id d + 1 \<rparr> in
     bind_res (CreateNewBlockIfNeeded (ti_last_block t) d) (\<lambda>(old, new, d).
     bind_res (WriteOptional key d) (\<lambda>(fk, d).
     bind_res (WriteOptional v d) (\<lambda>(fv, d).
     bind_res (WriteOptional metadata d) (\<lambda>(fm, d).
     let logRecord = make_log_record t operation recordIndex (ldb_last_record_id d) key v metadata fk fv fm
     in bind_res (PutLogRecord old new logRecord d) (\<lambda>(lastBlock, d).
        Inr (t\<lparr> ti_last_block := lastBlock, ti_records := live_records logRecord (ti_records t) \<rparr>,
             d\<lparr> ldb_total_record_count := live_total operation (ti_records t) (ldb_total_record_count d),
                ldb_total_log_record_count := ldb_total_log_record_count d + 1 \<rparr>)))))))"

text \<open>
  The two helpers below are defined in the class and called by nothing.
\<close>

definition CalculateAddedFieldPos ::
    "byte list option \<Rightarrow> ldb \<Rightarrow> u32 \<times> ldb_log_record_field \<times> ldb" where
  "CalculateAddedFieldPos data d =
     (case data of
        None \<Rightarrow> (0, zero_field, d)
      | Some bs \<Rightarrow>
          if bs = [] then (0, zero_field, d)
          else let n = of_nat (length bs) in
            (n, \<lparr> lf_data_offset = ldb_next_data_offset d, lf_data_size = n, lf_hash = DoHash bs \<rparr>,
             d\<lparr> ldb_next_data_offset := ldb_next_data_offset d + n \<rparr>))"

definition WriteLogRecordFieldData :: "ldb_log_record_field \<Rightarrow> byte list option \<Rightarrow> ldb \<Rightarrow> ldb cres" where
  "WriteLogRecordFieldData field buffer d =
     (case buffer of
        None \<Rightarrow> Inr d
      | Some bs \<Rightarrow>
          if lf_data_size field = 0 then Inr d
          else bind_res (guard_res (lf_data_offset field \<noteq> 0 \<and> lf_data_offset field < ldb_file_size d)
                 AssertionFailed) (\<lambda>_.
               let d = ldb_write (lf_data_offset field) (take (unat (lf_data_size field)) bs) d in
               Inr (d\<lparr> ldb_next_data_offset := ldb_next_data_offset d + lf_data_size field \<rparr>)))"


section \<open>Reading records\<close>

definition ReadField :: "ldb_log_record_field \<Rightarrow> ldb \<Rightarrow> byte list \<times> ldb" where
  "ReadField f d = ldb_read (lf_data_offset f) (lf_data_size f) d"

text \<open>
  An output argument is \<open>None\<close> for a null pointer and otherwise the contents of the caller's
  buffer, which stay as they are when the stored field is empty.
\<close>

definition ReadInto :: "ldb_log_record_field \<Rightarrow> byte list option \<Rightarrow> ldb \<Rightarrow> byte list option \<times> ldb" where
  "ReadInto f out d =
     (if out \<noteq> None \<and> lf_data_size f \<noteq> 0
      then let (bs, d) = ReadField f d in (Some bs, d)
      else (out, d))"

definition GetRecordCount :: "table_info \<Rightarrow> u32" where
  "GetRecordCount t = of_nat (length (ti_records t))"

definition GetByIndex ::
    "table_info \<Rightarrow> u32 \<Rightarrow> byte list option \<Rightarrow> byte list option \<Rightarrow> byte list option \<Rightarrow> ldb \<Rightarrow>
     (u32 \<times> byte list option \<times> byte list option \<times> byte list option \<times> ldb) cres" where
  "GetByIndex t index key v metadata d =
     (if length (ti_records t) < unat (index + 1) then Inr (LDB_INVALID_RECNO, key, v, metadata, d)
      else if length (ti_records t) \<le> unat index then Inl BufferOverrun
      else
        let logRecord = ti_records t ! unat index;
            (key, d) = ReadInto (lr_key logRecord) key d;
            (v, d) = ReadInto (lr_value logRecord) v d;
            (metadata, d) = ReadInto (lr_metadata logRecord) metadata d
        in Inr (index, key, v, metadata, d))"

text \<open>The caller's variables stay as they are on the early return.\<close>

definition GetRecordSizes :: "table_info \<Rightarrow> u32 \<Rightarrow> (u32 \<times> u32 \<times> u32) option cres" where
  "GetRecordSizes t index =
     (if unat (index + 1) < length (ti_records t) then Inr None
      else if length (ti_records t) \<le> unat index then Inl BufferOverrun
      else let r = ti_records t ! unat index
           in Inr (Some (lf_data_size (lr_key r), lf_data_size (lr_value r), lf_data_size (lr_metadata r))))"

function find_key_loop :: "table_info \<Rightarrow> nat \<Rightarrow> byte list \<Rightarrow> ldb \<Rightarrow> (u32 \<times> ldb) cres" where
  "find_key_loop t a key d =
     (if length (ti_records t) \<le> a then Inr (LDB_INVALID_RECNO, d)
      else
        let logRecord = ti_records t ! a in
        if lf_data_size (lr_key logRecord) \<noteq> of_nat (length key) \<or> lf_hash (lr_key logRecord) \<noteq> DoHash key
        then find_key_loop t (a + 1) key d
        else
          (case GetByIndex t (of_nat a) (Some []) None None d of
             Inl e \<Rightarrow> Inl e
           | Inr (index, keyFromDb, _, _, d') \<Rightarrow>
               (case keyFromDb of
                  None \<Rightarrow> Inl NullDereference
                | Some k \<Rightarrow>
                    if \<not> (index = of_nat a \<and> length k = length key) then Inl AssertionFailed
                    else if k = key then Inr (of_nat a, d')
                    else find_key_loop t (a + 1) key d')))"
  by pat_completeness auto

termination
  by (relation "measure (\<lambda>(t, a, key, d). length (ti_records t) - a)") auto

declare find_key_loop.simps [simp del]

definition FindKey :: "table_info \<Rightarrow> u32 \<Rightarrow> byte list \<Rightarrow> ldb \<Rightarrow> (u32 \<times> ldb) cres" where
  "FindKey t startIndex key d =
     (if \<not> CheckIndex t startIndex then Inr (LDB_INVALID_RECNO, d)
      else find_key_loop t (unat startIndex) key d)"

definition LdbGet ::
    "table_info \<Rightarrow> u32 \<Rightarrow> byte list \<Rightarrow> byte list option \<Rightarrow> byte list option \<Rightarrow> ldb \<Rightarrow>
     (u32 \<times> byte list option \<times> byte list option \<times> ldb) cres" where
  "LdbGet t startIndex key v metadata d =
     bind_res (FindKey t startIndex key d) (\<lambda>(index, d).
     if index = LDB_INVALID_RECNO then Inr (index, v, metadata, d)
     else bind_res (GetByIndex t index None v metadata d) (\<lambda>(index, _, v, metadata, d).
          if index = LDB_INVALID_RECNO then Inl AssertionFailed else Inr (index, v, metadata, d)))"


section \<open>The operations on a table\<close>

type_synonym table_result = "(u32 \<times> table_info \<times> ldb) cres"

definition LdbAppend ::
    "table_info \<Rightarrow> byte list option \<Rightarrow> byte list option \<Rightarrow> byte list option \<Rightarrow> ldb \<Rightarrow> table_result" where
  "LdbAppend t key v metadata d =
     (let index = of_nat (length (ti_records t)) in
      bind_res (AppendLogRecord t OPERATION_APPEND index key v metadata d) (\<lambda>(t, d). Inr (index, t, d)))"

definition ClearAllRecords :: "table_info \<Rightarrow> ldb \<Rightarrow> (table_info \<times> ldb) cres" where
  "ClearAllRecords t d = AppendLogRecord t OPERATION_CLEAR 0 None None None d"

definition SetByIndex ::
    "table_info \<Rightarrow> u32 \<Rightarrow> byte list option \<Rightarrow> byte list option \<Rightarrow> byte list option \<Rightarrow> ldb \<Rightarrow> table_result" where
  "SetByIndex t index key v metadata d =
     (if \<not> CheckIndex t index then Inr (LDB_INVALID_RECNO, t, d)
      else bind_res (AppendLogRecord t OPERATION_SET index key v metadata d) (\<lambda>(t, d). Inr (index, t, d)))"

definition LdbSet ::
    "table_info \<Rightarrow> u32 \<Rightarrow> byte list \<Rightarrow> byte list option \<Rightarrow> byte list option \<Rightarrow> ldb \<Rightarrow> table_result" where
  "LdbSet t startIndex key v metadata d =
     bind_res (FindKey t startIndex key d) (\<lambda>(index, d).
     if index = LDB_INVALID_RECNO then LdbAppend t (Some key) v metadata d
     else SetByIndex t index (Some key) v metadata d)"

definition DeleteByIndex :: "table_info \<Rightarrow> u32 \<Rightarrow> ldb \<Rightarrow> table_result" where
  "DeleteByIndex t index d =
     (if \<not> CheckIndex t index then Inr (LDB_INVALID_RECNO, t, d)
      else bind_res (AppendLogRecord t OPERATION_DELETE index None None None d)
             (\<lambda>(t, d). Inr (index, t, d)))"

definition LdbDelete :: "table_info \<Rightarrow> u32 \<Rightarrow> byte list \<Rightarrow> ldb \<Rightarrow> table_result" where
  "LdbDelete t startIndex key d =
     bind_res (FindKey t startIndex key d) (\<lambda>(index, d).
     if index = LDB_INVALID_RECNO then Inr (index, t, d) else DeleteByIndex t index d)"

definition InsertByIndex ::
    "table_info \<Rightarrow> u32 \<Rightarrow> byte list option \<Rightarrow> byte list option \<Rightarrow> byte list option \<Rightarrow> ldb \<Rightarrow> table_result" where
  "InsertByIndex t index key v metadata d =
     (if index \<noteq> 0 \<and> \<not> CheckIndex t index then Inr (LDB_INVALID_RECNO, t, d)
      else bind_res (AppendLogRecord t OPERATION_INSERT index key v metadata d)
             (\<lambda>(t, d). Inr (index, t, d)))"


section \<open>Loading a table\<close>

definition LoadLogRecords :: "ldb_block_header_info \<Rightarrow> ldb \<Rightarrow> ldb_log_record list \<times> ldb" where
  "LoadLogRecords b d =
     (let used = bh_used_count (bi_block_header b) in
      if used = 0 then ([], d)
      else let (bs, d) = ldb_read (bi_offset b + sizeof_LDB_BLOCK_HEADER) (used * sizeof_LDB_LOG_RECORD) d
           in (bytes_log_records (unat used) bs, d))"

text \<open>What a log record does to the records and to their total when it is replayed.\<close>

definition replay_record ::
    "ldb_log_record \<Rightarrow> ldb_log_record list \<times> u32 \<Rightarrow> ldb_log_record list \<times> u32" where
  "replay_record r = (\<lambda>(records, tot).
     let i = unat (lr_record_index r) in
     if lr_operation r = OPERATION_APPEND then (records @ [r], tot + 1)
     else if lr_operation r = OPERATION_SET
     then (if i < length records then records[i := r] else records, tot)
     else if lr_operation r = OPERATION_CLEAR then ([], tot - of_nat (length records))
     else if lr_operation r = OPERATION_INSERT
     then let (records, tot) = (if i = length records then (records @ [r], tot + 1) else (records, tot))
          in if i < length records then (take i records @ r # drop i records, tot + 1) else (records, tot)
     else if lr_operation r = OPERATION_DELETE
     then if i < length records then (take i records @ drop (Suc i) records, tot - 1) else (records, tot)
     else (records, tot))"

text \<open>The end of the field written last, as \<^verbatim>\<open>LoadBlock\<close> finds it.\<close>

definition field_end :: "ldb_log_record_field \<Rightarrow> u32" where
  "field_end f = lf_data_offset f + lf_data_size f"

definition last_field_end :: "ldb_log_record \<Rightarrow> u32" where
  "last_field_end r =
     (if lf_data_offset (lr_value r) < lf_data_offset (lr_key r)
      then (if lf_data_offset (lr_metadata r) < lf_data_offset (lr_key r)
            then field_end (lr_key r) else field_end (lr_metadata r))
      else (if lf_data_offset (lr_metadata r) < lf_data_offset (lr_value r)
            then field_end (lr_value r) else field_end (lr_metadata r)))"

definition load_record :: "ldb_log_record \<Rightarrow> table_info \<times> ldb \<Rightarrow> (table_info \<times> ldb) cres" where
  "load_record r = (\<lambda>(t, d).
     let d = d\<lparr> ldb_total_log_record_count := ldb_total_log_record_count d + 1 \<rparr>;
         (records, tot) = replay_record r (ti_records t, ldb_total_record_count d);
         t = t\<lparr> ti_records := records \<rparr>;
         d = d\<lparr> ldb_total_record_count := tot,
                ldb_last_record_id := (if ldb_last_record_id d < lr_record_id r then lr_record_id r
                                       else ldb_last_record_id d) \<rparr>;
         nxt = last_field_end r
     in bind_res (guard_res (lr_operation r = OPERATION_DELETE \<or> lr_operation r = OPERATION_CLEAR \<or> nxt \<noteq> 0)
          AssertionFailed) (\<lambda>_.
        Inr (t, if ldb_next_data_offset d < nxt then d\<lparr> ldb_next_data_offset := nxt \<rparr> else d)))"

fun load_records :: "ldb_log_record list \<Rightarrow> table_info \<times> ldb \<Rightarrow> (table_info \<times> ldb) cres" where
  "load_records [] s = Inr s"
| "load_records (r # rs) s = bind_res (load_record r s) (load_records rs)"

definition LoadBlock :: "table_info \<Rightarrow> ldb \<Rightarrow> (table_info \<times> ldb) cres" where
  "LoadBlock t d =
     (let off = bi_offset (ti_last_block t);
          (bs, d) = ldb_read off sizeof_LDB_BLOCK_HEADER d;
          h = bytes_block_header bs;
          t = t\<lparr> ti_last_block := \<lparr> bi_block_header = h, bi_offset = off \<rparr> \<rparr>;
          after = off + bh_size h;
          d = (if ldb_next_data_offset d < after then d\<lparr> ldb_next_data_offset := after \<rparr> else d)
      in if bh_used_count h = 0 then Inr (t, d)
         else let (rs, d) = LoadLogRecords (ti_last_block t) d in load_records rs (t, d))"

text \<open>The walk over the chain: \<open>fuel\<close> bounds the number of blocks, \<open>a\<close> counts them.\<close>

fun load_all_blocks :: "nat \<Rightarrow> u32 \<Rightarrow> u32 \<Rightarrow> table_info \<Rightarrow> ldb \<Rightarrow> (u32 \<times> table_info \<times> ldb) cres" where
  "load_all_blocks 0 a off t d = (if off = 0 then Inr (a, t, d) else Inl StillRunning)"
| "load_all_blocks (Suc n) a off t d =
     (if off = 0 then Inr (a, t, d)
      else bind_res (LoadBlock (t\<lparr> ti_last_block := (ti_last_block t)\<lparr> bi_offset := off \<rparr> \<rparr>) d) (\<lambda>(t, d).
        let h = bi_block_header (ti_last_block t) in
        bind_res (guard_res (bh_next_block_offset h = 0 \<or> off + bh_size h < bh_next_block_offset h)
          AssertionFailed) (\<lambda>_. load_all_blocks n (a + 1) (bh_next_block_offset h) t d)))"

definition LoadAllBlocks :: "nat \<Rightarrow> table_info \<Rightarrow> ldb \<Rightarrow> (u32 \<times> table_info \<times> ldb) cres" where
  "LoadAllBlocks fuel t d =
     (let off = bi_offset (ti_last_block t) in
      bind_res (guard_res (off \<noteq> 0) AssertionFailed) (\<lambda>_. load_all_blocks fuel 0 off t d))"


section \<open>The database\<close>

definition empty_block_info :: "ldb_block_header_info" where
  "empty_block_info =
     \<lparr> bi_block_header = \<lparr> bh_size = 0, bh_used_count = 0, bh_next_block_offset = 0 \<rparr>, bi_offset = 0 \<rparr>"

definition LdbClear :: "ldb \<Rightarrow> ldb" where
  "LdbClear d = d\<lparr>
     ldb_header := \<lparr> fh_magic = 0, fh_version = 0, fh_flags = 0, fh_table_block_offset = 0 \<rparr>,
     ldb_metatable := (ldb_metatable d)\<lparr> ti_last_block := empty_block_info, ti_records := [] \<rparr>,
     ldb_tables := [], ldb_next_data_offset := 0, ldb_total_record_count := 0,
     ldb_total_log_record_count := 0, ldb_last_record_id := 0 \<rparr>"

fun load_tables :: "nat \<Rightarrow> ldb_log_record list \<Rightarrow> ldb \<Rightarrow> ldb cres" where
  "load_tables fuel [] d = Inr d"
| "load_tables fuel (record # rs) d =
     bind_res (guard_res (lf_data_offset (lr_key record) \<noteq> 0 \<and> lf_data_size (lr_value record) \<noteq> 0)
       AssertionFailed) (\<lambda>_.
     let (key, d) = ReadField (lr_key record) d in
     bind_res (guard_res (key \<noteq> [] \<and> sizeof_LDB_BLOCK_HEADER < lf_data_size (lr_value record))
       AssertionFailed) (\<lambda>_.
     bind_res (LoadAllBlocks fuel
         \<lparr> ti_name = key,
           ti_last_block = empty_block_info\<lparr> bi_offset := lf_data_offset (lr_value record) \<rparr>,
           ti_records = [] \<rparr> d)
       (\<lambda>(_, t, d). load_tables fuel rs (d\<lparr> ldb_tables := sm_set key t (ldb_tables d) \<rparr>))))"

definition LoadTables :: "nat \<Rightarrow> ldb \<Rightarrow> ldb cres" where
  "LoadTables fuel d =
     (let d = d\<lparr> ldb_next_data_offset := 0, ldb_total_record_count := 0, ldb_total_log_record_count := 0 \<rparr>
      in bind_res (LoadAllBlocks fuel (ldb_metatable d) d) (\<lambda>(_, m, d).
         load_tables fuel (ti_records m) (d\<lparr> ldb_metatable := m \<rparr>)))"

definition LoadFile :: "nat \<Rightarrow> ldb \<Rightarrow> ldb cres" where
  "LoadFile fuel d =
     (let d = LdbClear d;
          (bs, d) = ldb_read 0 sizeof_LDB_FILE_HEADER d;
          h = bytes_file_header bs;
          d = d\<lparr> ldb_header := h \<rparr>
      in bind_res (guard_res (fh_magic h = LDB_MAGIC) AssertionFailed) (\<lambda>_.
         let d = d\<lparr> ldb_metatable := (ldb_metatable d)
                     \<lparr> ti_last_block := empty_block_info\<lparr> bi_offset := fh_table_block_offset h \<rparr> \<rparr> \<rparr>;
             currentPageSize = pf_page_size (ldb_file d)
         in bind_res (LoadTables fuel (d\<lparr> ldb_file := pf_SetPageSize (1024 * 1024 * 4) (ldb_file d) \<rparr>)) (\<lambda>d.
            Inr (d\<lparr> ldb_file := pf_SetPageSize currentPageSize (ldb_file d) \<rparr>))))"

definition WriteBlockToFile :: "ldb_block_header_info \<Rightarrow> ldb \<Rightarrow> ldb cres" where
  "WriteBlockToFile b d =
     bind_res (guard_res (bi_offset b \<noteq> 0 \<and> bh_size (bi_block_header b) \<noteq> 0 \<and>
       bi_offset b < ldb_file_size d) AssertionFailed) (\<lambda>_.
     Inr (ldb_write (bi_offset b) (block_header_bytes (bi_block_header b)) d))"

definition InitializeFile :: "ldb \<Rightarrow> ldb cres" where
  "InitializeFile d =
     (let h = \<lparr> fh_magic = LDB_MAGIC, fh_version = 1, fh_flags = 0,
                fh_table_block_offset = sizeof_LDB_FILE_HEADER \<rparr>;
          b = \<lparr> bi_block_header = \<lparr> bh_size = ldb_default_block_size d, bh_used_count = 0,
                                   bh_next_block_offset = 0 \<rparr>,
                bi_offset = sizeof_LDB_FILE_HEADER \<rparr>;
          d = d\<lparr> ldb_header := h, ldb_metatable := (ldb_metatable d)\<lparr> ti_last_block := b \<rparr>,
                 ldb_next_data_offset := bi_offset b + bh_size (bi_block_header b) \<rparr>;
          d = LeaveRoom (ldb_next_data_offset d + of_nat (pf_page_size (ldb_file d))) d
      in bind_res (WriteBlockToFile b d) (\<lambda>d. Inr (ldb_write 0 (file_header_bytes h) d)))"

definition Ldb_new :: "byte \<Rightarrow> ldb" where
  "Ldb_new junk =
     \<lparr> ldb_file = PagedFile_new junk [],
       ldb_header = \<lparr> fh_magic = 0, fh_version = 0, fh_flags = 0, fh_table_block_offset = 0 \<rparr>,
       ldb_next_data_offset = 0, ldb_grow_pages_step = (4 * 1024 * 1024) div 4096,
       ldb_default_block_size = 4096, ldb_total_record_count = 0, ldb_total_log_record_count = 0,
       ldb_last_record_id = 0,
       ldb_metatable = \<lparr> ti_name = [], ti_last_block = empty_block_info, ti_records = [] \<rparr>,
       ldb_tables = [] \<rparr>"

text \<open>
  The file named by the caller is its bytes, or \<open>None\<close> when the operating system cannot open it.
\<close>

definition open_disk :: "byte list \<Rightarrow> ldb \<Rightarrow> ldb" where
  "open_disk disk d = d\<lparr> ldb_file := (ldb_file d)\<lparr> pf_disk := disk \<rparr> \<rparr>"

definition LdbCreate :: "nat \<Rightarrow> byte list option \<Rightarrow> ldb \<Rightarrow> (bool \<times> ldb) cres" where
  "LdbCreate fuel disk d =
     (case disk of
        None \<Rightarrow> Inr (False, d)
      | Some bs \<Rightarrow>
          let d = open_disk bs d in
          bind_res (if ldb_file_size d < sizeof_LDB_FILE_HEADER then InitializeFile d else LoadFile fuel d)
            (\<lambda>d. Inr (True, d)))"

definition LdbOpen :: "nat \<Rightarrow> byte list option \<Rightarrow> ldb \<Rightarrow> (bool \<times> ldb) cres" where
  "LdbOpen fuel disk d =
     (case disk of
        None \<Rightarrow> Inr (False, d)
      | Some bs \<Rightarrow> bind_res (LoadFile fuel (open_disk bs d)) (\<lambda>d. Inr (True, d)))"

definition LdbClose :: "ldb \<Rightarrow> ldb" where
  "LdbClose d = LdbClear (d\<lparr> ldb_file := pf_FreeCache (ldb_file d) \<rparr>)"

definition GetTableList :: "ldb \<Rightarrow> byte list list" where
  "GetTableList d = map fst (ldb_tables d)"

definition OpenTable :: "byte list \<Rightarrow> ldb \<Rightarrow> table_info option" where
  "OpenTable name d = sm_find name (ldb_tables d)"

definition DeleteTable :: "byte list \<Rightarrow> ldb \<Rightarrow> (bool \<times> ldb) cres" where
  "DeleteTable name d =
     bind_res (FindKey (ldb_metatable d) 0 name d) (\<lambda>(index, d).
     if index = LDB_INVALID_RECNO then Inr (False, d)
     else bind_res (DeleteByIndex (ldb_metatable d) index d) (\<lambda>(_, m, d).
          Inr (True, d\<lparr> ldb_metatable := m, ldb_tables := sm_erase name (ldb_tables d) \<rparr>)))"

definition CreateTable :: "byte list \<Rightarrow> ldb \<Rightarrow> (table_info \<times> ldb) cres" where
  "CreateTable name d =
     bind_res (FindKey (ldb_metatable d) 0 name d) (\<lambda>(found, d).
     case sm_find name (ldb_tables d) of
       Some t \<Rightarrow> bind_res (guard_res (found \<noteq> LDB_INVALID_RECNO) AssertionFailed) (\<lambda>_. Inr (t, d))
     | None \<Rightarrow>
         bind_res (guard_res (found = LDB_INVALID_RECNO) AssertionFailed) (\<lambda>_.
         let h = \<lparr> bh_size = ldb_default_block_size d, bh_used_count = 0, bh_next_block_offset = 0 \<rparr>;
             buffer = block_header_bytes h @ replicate (unat (ldb_default_block_size d) - 12) 0xEE
         in bind_res (LdbAppend (ldb_metatable d) (Some name) (Some buffer) None d) (\<lambda>(index, m, d).
            bind_res (guard_res (unat index < length (ti_records m)) AssertionFailed) (\<lambda>_.
            let off = lf_data_offset (lr_value (ti_records m ! unat index));
                t = \<lparr> ti_name = name, ti_last_block = \<lparr> bi_block_header = h, bi_offset = off \<rparr>,
                      ti_records = [] \<rparr>
            in bind_res (guard_res (0 < off \<and> off < ldb_file_size d) AssertionFailed) (\<lambda>_.
               Inr (t, d\<lparr> ldb_metatable := m, ldb_tables := sm_set name t (ldb_tables d) \<rparr>))))))"

definition GetGrowStep :: "ldb \<Rightarrow> u32" where
  "GetGrowStep d = ldb_grow_pages_step d * of_nat (pf_page_size (ldb_file d))"

definition SetGrowStep :: "u32 \<Rightarrow> ldb \<Rightarrow> ldb" where
  "SetGrowStep bytes d =
     d\<lparr> ldb_grow_pages_step := bytes div of_nat (pf_page_size (ldb_file d)) + 1 \<rparr>"

end
