(* ===== verification/LogDisk.thy ===== *)
theory LogDisk
  imports LogDb
begin

text \<open>
  What the file of the log database holds, and that loading it gives back what was in memory.
  \<open>block_at\<close> says that a block with given log records is in the file, \<open>chain\<close> that the blocks of a
  table are linked and in ascending order, \<open>table_ok\<close> that the records of a table in memory are
  the replay of its chain.  \<^verbatim>\<open>AppendLogRecord\<close> keeps \<open>table_ok\<close>, and \<^verbatim>\<open>LoadAllBlocks\<close> computes the
  replay.
\<close>

section \<open>Words and structs\<close>

lemma unat_add_u32: "unat (a :: u32) + unat b < 2 ^ 32 \<Longrightarrow> unat (a + b) = unat a + unat b"
  by (simp add: unat_word_ariths)

lemma unat_mult_u32: "unat (a :: u32) * unat b < 2 ^ 32 \<Longrightarrow> unat (a * b) = unat a * unat b"
  by (simp add: unat_word_ariths)

lemma unat_sub_u32: "unat (b :: u32) \<le> unat a \<Longrightarrow> unat (a - b) = unat a - unat b"
  by (simp add: unat_sub word_le_nat_alt)

lemma length_struct_bytes [simp]:
  "length (field_bytes f) = 12" "length (log_record_bytes r) = 48"
  "length (block_header_bytes h) = 12" "length (file_header_bytes g) = 16"
  by (simp_all add: field_bytes_def log_record_bytes_def block_header_bytes_def file_header_bytes_def)

lemma bytes_field_bytes [simp]: "bytes_field (field_bytes f @ bs) = f"
  by (simp add: bytes_field_def field_bytes_def u32_at_def)

lemma bytes_block_header_bytes [simp]: "bytes_block_header (block_header_bytes h) = h"
  by (simp add: bytes_block_header_def block_header_bytes_def u32_at_def)

lemma bytes_file_header_bytes [simp]: "bytes_file_header (file_header_bytes h) = h"
  by (simp add: bytes_file_header_def file_header_bytes_def u32_at_def)

lemma bytes_log_record_bytes [simp]: "bytes_log_record (log_record_bytes r) = r"
proof -
  have f: "bytes_field (drop 12 (log_record_bytes r)) = lr_key r"
    "bytes_field (drop 24 (log_record_bytes r)) = lr_value r"
    "bytes_field (drop 36 (log_record_bytes r)) = lr_metadata r"
    using bytes_field_bytes [of "lr_metadata r" "[]"] by (simp_all add: log_record_bytes_def)
  have u: "u32_at (log_record_bytes r) 0 = lr_operation r"
    "u32_at (log_record_bytes r) 1 = lr_record_index r"
    "u32_at (log_record_bytes r) 2 = lr_record_id r"
    by (simp_all add: log_record_bytes_def u32_at_def)
  show ?thesis by (simp only: bytes_log_record_def f u) simp
qed

abbreviation logs_bytes :: "ldb_log_record list \<Rightarrow> byte list" where
  "logs_bytes rs \<equiv> concat (map log_record_bytes rs)"

lemma length_logs_bytes [simp]: "length (logs_bytes rs) = 48 * length rs"
  by (induction rs) simp_all

lemma bytes_log_records_bytes: "bytes_log_records (length rs) (logs_bytes rs) = rs"
  by (induction rs) simp_all


section \<open>Reading and writing inside the file\<close>

abbreviation disk :: "ldb \<Rightarrow> byte list" where
  "disk d \<equiv> pf_disk (ldb_file d)"

lemma ldb_read_ok:
  assumes "pf_coherent (ldb_file d)" and "unat off + unat n \<le> length (disk d)"
  obtains g where "ldb_read off n d = (file_read (disk d) (unat off) (unat n), d\<lparr> ldb_file := g \<rparr>)"
    and "pf_coherent g" and "pf_disk g = disk d" and "pf_page_size g = pf_page_size (ldb_file d)"
proof (rule that [of "snd (pf_Read (unat off) (unat n) (ldb_file d))"])
  note r = pf_Read_coherent [OF assms]
  then show "ldb_read off n d = (file_read (disk d) (unat off) (unat n),
      d\<lparr> ldb_file := snd (pf_Read (unat off) (unat n) (ldb_file d)) \<rparr>)"
    by (simp add: ldb_read_def case_prod_unfold Let_def)
  show "pf_coherent (snd (pf_Read (unat off) (unat n) (ldb_file d)))"
    "pf_disk (snd (pf_Read (unat off) (unat n) (ldb_file d))) = disk d"
    "pf_page_size (snd (pf_Read (unat off) (unat n) (ldb_file d))) = pf_page_size (ldb_file d)"
    using r by (simp_all add: same_file_def)
qed

text \<open>
  \<open>ldb_ok\<close>: the file is coherent and below 4 GB and the next free byte is in it or at its end.
  \<open>grow_slack\<close> is more than the file grows beyond what was asked for.
\<close>

definition ldb_ok :: "ldb \<Rightarrow> bool" where
  "ldb_ok d \<longleftrightarrow> pf_inv (ldb_file d) \<and> length (disk d) < 2 ^ 32 \<and> pf_page_size (ldb_file d) < 2 ^ 32 \<and>
     0 < unat (ldb_next_data_offset d) \<and> unat (ldb_next_data_offset d) \<le> length (disk d)"

definition grow_slack :: "ldb \<Rightarrow> nat" where
  "grow_slack d = (unat (ldb_grow_pages_step d) + 1) * pf_page_size (ldb_file d)"

lemma unat_file_size: "length (disk d) < 2 ^ 32 \<Longrightarrow> unat (ldb_file_size d) = length (disk d)"
  by (simp add: ldb_file_size_def pf_GetFileSize_def unat_of_nat_u32)

lemma pf_page_size_GrowFile [simp]: "pf_page_size (pf_GrowFile n f) = pf_page_size f"
  by (simp add: pf_GrowFile_def)

lemma LeaveRoom_ok:
  assumes inv: "pf_inv (ldb_file d)" and ps: "pf_page_size (ldb_file d) < 2 ^ 32"
    and room: "length (disk d) + unat n + grow_slack d < 2 ^ 32"
  obtains f k where "LeaveRoom n d = d\<lparr> ldb_file := f \<rparr>" and "pf_inv f"
    and "pf_disk f = disk d @ replicate k 0xEE" and "unat n < k" and "k \<le> unat n + grow_slack d"
    and "pf_page_size f = pf_page_size (ldb_file d)"
proof -
  let ?ps = "pf_page_size (ldb_file d)"
  define q where "q = n div of_nat ?ps + 1"
  define pages where "pages = (if q < ldb_grow_pages_step d then ldb_grow_pages_step d else q)"
  have ps0: "0 < ?ps" using inv by (simp add: pf_inv_def pf_coherent_def)
  have "unat (n div of_nat ?ps) = unat n div ?ps"
    using ps by (simp add: unat_div unat_of_nat_u32)
  moreover have lt: "unat n div ?ps + 1 < 2 ^ 32"
  proof -
    have "unat n div ?ps \<le> unat n" by simp
    moreover have "0 < grow_slack d" using ps0 by (simp add: grow_slack_def)
    ultimately show ?thesis using room by linarith
  qed
  ultimately have q: "unat q = unat n div ?ps + 1"
    unfolding q_def by (subst unat_add_u32) simp_all
  have split: "unat n = (unat n div ?ps) * ?ps + unat n mod ?ps" "unat n mod ?ps < ?ps"
    using ps0 by simp_all
  have "unat q \<le> unat pages" "unat pages \<le> unat q + unat (ldb_grow_pages_step d)"
    by (auto simp: pages_def word_less_nat_alt)
  then have "unat q * ?ps \<le> unat pages * ?ps" 
    "unat pages * ?ps \<le> (unat q + unat (ldb_grow_pages_step d)) * ?ps"
    by (simp_all only: mult_le_mono1)
  moreover have "unat q * ?ps = (unat n div ?ps) * ?ps + ?ps"
    "(unat q + unat (ldb_grow_pages_step d)) * ?ps = (unat n div ?ps) * ?ps + grow_slack d"
    by (simp_all add: q grow_slack_def algebra_simps)
  ultimately have k: "unat n < unat pages * ?ps" "unat pages * ?ps \<le> unat n + grow_slack d"
    using split by linarith+
  have g: "length (disk d) + unat pages * ?ps < 2 ^ 32" using k(2) room by linarith
  show ?thesis
  proof (rule that [of "pf_GrowFile (unat pages) (ldb_file d)" "unat pages * ?ps"])
    show "LeaveRoom n d = d\<lparr> ldb_file := pf_GrowFile (unat pages) (ldb_file d) \<rparr>"
      by (simp add: LeaveRoom_def Let_def pages_def q_def)
  qed (use pf_GrowFile_inv [OF inv g] k in simp_all)
qed

text \<open>A file grows and changes only at or after \<open>N\<close>.\<close>

definition extends :: "nat \<Rightarrow> byte list \<Rightarrow> byte list \<Rightarrow> bool" where
  "extends N F G \<longleftrightarrow> length F \<le> length G \<and> N \<le> length F \<and>
     (\<forall>off n. off + n \<le> N \<longrightarrow> file_read G off n = file_read F off n)"

lemma extends_refl: "N \<le> length F \<Longrightarrow> extends N F F"
  by (simp add: extends_def)

lemma extends_trans: "extends N F G \<Longrightarrow> extends M G H \<Longrightarrow> N \<le> M \<Longrightarrow> extends N F H"
  by (auto simp: extends_def)

lemma extends_append: "N \<le> length F \<Longrightarrow> extends N F (F @ xs)"
  by (simp add: extends_def file_read_def)

lemma extends_write:
  "N \<le> off \<Longrightarrow> off + length bs \<le> length F \<Longrightarrow> extends N F (file_write F off bs)"
  by (simp add: extends_def file_read_write_other)

lemma extends_read:
  "extends N F G \<Longrightarrow> off + n \<le> N \<Longrightarrow> file_read G off n = file_read F off n"
  by (simp add: extends_def)

lemma extends_length: "extends N F G \<Longrightarrow> length F \<le> length G"
  by (simp add: extends_def)

lemma EnsureSpace_ok:
  assumes ok: "ldb_ok d" and room: "length (disk d) + unat n + grow_slack d < 2 ^ 32"
  obtains f where "EnsureSpace n d = d\<lparr> ldb_file := f \<rparr>" and "ldb_ok (d\<lparr> ldb_file := f \<rparr>)"
    and "extends (unat (ldb_next_data_offset d)) (disk d) (pf_disk f)"
    and "unat (ldb_next_data_offset d) + unat n \<le> length (pf_disk f)"
    and "length (pf_disk f) \<le> length (disk d) + unat n + grow_slack d"
    and "pf_page_size f = pf_page_size (ldb_file d)"
proof -
  let ?N = "unat (ldb_next_data_offset d)" and ?L = "length (disk d)"
  define space where "space = ldb_file_size d - ldb_next_data_offset d"
  have k: "pf_inv (ldb_file d)" "?L < 2 ^ 32" "pf_page_size (ldb_file d) < 2 ^ 32" "0 < ?N" "?N \<le> ?L"
    using ok by (simp_all add: ldb_ok_def)
  have sp: "unat space = ?L - ?N"
    unfolding space_def using k by (simp add: unat_sub_u32 unat_file_size)
  show ?thesis
  proof (cases "space < n")
    case False
    then have "unat n \<le> ?L - ?N" by (simp add: sp word_less_nat_alt)
    then have "?N + unat n \<le> ?L" using k(5) by linarith
    with False show ?thesis
      by (intro that [of "ldb_file d"])
        (use ok k in \<open>simp_all add: EnsureSpace_def Let_def space_def extends_refl\<close>)
  next
    case True
    then have less: "unat space < unat n" by (simp add: word_less_nat_alt)
    then have m: "unat (n - space) = unat n - (?L - ?N)" by (simp add: unat_sub_u32 sp)
    have room': "?L + unat (n - space) + grow_slack d < 2 ^ 32" using room m by linarith
    obtain f j where f: "LeaveRoom (n - space) d = d\<lparr> ldb_file := f \<rparr>" "pf_inv f"
      "pf_disk f = disk d @ replicate j 0xEE" "unat (n - space) < j"
      "j \<le> unat (n - space) + grow_slack d" "pf_page_size f = pf_page_size (ldb_file d)"
      by (rule LeaveRoom_ok [OF k(1,3) room'])
    show ?thesis
    proof (rule that [of f])
      show "EnsureSpace n d = d\<lparr> ldb_file := f \<rparr>"
        using True f(1) by (simp add: EnsureSpace_def Let_def space_def)
      show "ldb_ok (d\<lparr> ldb_file := f \<rparr>)"
        using f k room' by (simp add: ldb_ok_def)
      show "extends ?N (disk d) (pf_disk f)" using f(3) k(5) by (simp add: extends_append)
      show "?N + unat n \<le> length (pf_disk f)" using f(3,4) m less sp k(5) by simp
      show "length (pf_disk f) \<le> ?L + unat n + grow_slack d" using f(3,5) m by simp
    qed (rule f(6))
  qed
qed

definition field_of :: "u32 \<Rightarrow> byte list \<Rightarrow> ldb_log_record_field" where
  "field_of off data = \<lparr> lf_data_offset = off, lf_data_size = of_nat (length data), lf_hash = DoHash data \<rparr>"

lemma ldb_write_ok:
  assumes "ldb_ok d" and "unat off + length bs \<le> length (disk d)"
  obtains f where "ldb_write off bs d = d\<lparr> ldb_file := f \<rparr>" and "ldb_ok (d\<lparr> ldb_file := f \<rparr>)"
    and "pf_disk f = file_write (disk d) (unat off) bs" and "pf_page_size f = pf_page_size (ldb_file d)"
proof (rule that [of "pf_Write (unat off) bs (ldb_file d)"])
  have inv: "pf_inv (ldb_file d)" using assms(1) by (simp add: ldb_ok_def)
  have w: "pf_inv (pf_Write (unat off) bs (ldb_file d))"
    "pf_disk (pf_Write (unat off) bs (ldb_file d)) = file_write (disk d) (unat off) bs"
    "pf_page_size (pf_Write (unat off) bs (ldb_file d)) = pf_page_size (ldb_file d)"
    using pf_Write_inv [OF inv assms(2)] by simp_all
  show "ldb_write off bs d = d\<lparr> ldb_file := pf_Write (unat off) bs (ldb_file d) \<rparr>"
    by (simp add: ldb_write_def)
  show "ldb_ok (d\<lparr> ldb_file := pf_Write (unat off) bs (ldb_file d) \<rparr>)"
    using assms w by (simp add: ldb_ok_def)
  show "pf_disk (pf_Write (unat off) bs (ldb_file d)) = file_write (disk d) (unat off) bs"
    "pf_page_size (pf_Write (unat off) bs (ldb_file d)) = pf_page_size (ldb_file d)"
    by (rule w)+
qed

lemma WriteLdbData_ok:
  assumes ok: "ldb_ok d" and room: "length (disk d) + length data + grow_slack d < 2 ^ 32"
    and data: "data \<noteq> []"
  obtains f where "WriteLdbData data d = Inr (field_of (ldb_next_data_offset d) data,
      d\<lparr> ldb_file := f, ldb_next_data_offset := ldb_next_data_offset d + of_nat (length data) \<rparr>)"
    and "ldb_ok (d\<lparr> ldb_file := f, ldb_next_data_offset := ldb_next_data_offset d + of_nat (length data) \<rparr>)"
    and "unat (ldb_next_data_offset d + of_nat (length data)) = unat (ldb_next_data_offset d) + length data"
    and "extends (unat (ldb_next_data_offset d)) (disk d) (pf_disk f)"
    and "file_read (pf_disk f) (unat (ldb_next_data_offset d)) (length data) = data"
    and "length (pf_disk f) \<le> length (disk d) + length data + grow_slack d"
    and "pf_page_size f = pf_page_size (ldb_file d)"
proof -
  let ?N = "unat (ldb_next_data_offset d)" and ?n = "of_nat (length data) :: u32"
  have n: "unat ?n = length data" using room by (intro unat_of_nat_u32) linarith
  obtain e where e: "EnsureSpace ?n d = d\<lparr> ldb_file := e \<rparr>" "ldb_ok (d\<lparr> ldb_file := e \<rparr>)"
    "extends ?N (disk d) (pf_disk e)" "?N + unat ?n \<le> length (pf_disk e)"
    "length (pf_disk e) \<le> length (disk d) + unat ?n + grow_slack d" "pf_page_size e = pf_page_size (ldb_file d)"
    by (rule EnsureSpace_ok [OF ok, of ?n]) (use room n in simp)
  let ?d = "d\<lparr> ldb_file := e \<rparr>"
  have N: "0 < ?N" "length (pf_disk e) < 2 ^ 32" using e(2) by (simp_all add: ldb_ok_def)
  obtain f where f: "ldb_write (ldb_next_data_offset ?d) data ?d = ?d\<lparr> ldb_file := f \<rparr>"
    "ldb_ok (?d\<lparr> ldb_file := f \<rparr>)" "pf_disk f = file_write (disk ?d) ?N data"
    "pf_page_size f = pf_page_size (ldb_file ?d)"
    using ldb_write_ok [OF e(2), of "ldb_next_data_offset ?d" data] e(4) n by auto
  have "0 < length data" using data by simp
  then have in_file: "?N < length (pf_disk e)" using e(4) n by linarith
  have guard: "ldb_next_data_offset ?d \<noteq> 0 \<and> ldb_next_data_offset ?d < ldb_file_size ?d"
    using N in_file unat_file_size [of ?d] by (auto simp: word_less_nat_alt)
  have sum: "unat (ldb_next_data_offset d + ?n) = ?N + length data"
    using e(4) n N by (subst unat_add_u32) simp_all
  show ?thesis
  proof (rule that [of f])
    show "WriteLdbData data d = Inr (field_of (ldb_next_data_offset d) data,
      d\<lparr> ldb_file := f, ldb_next_data_offset := ldb_next_data_offset d + ?n \<rparr>)"
      using e(1) guard f(1) by (simp add: WriteLdbData_def Let_def field_of_def)
    show "ldb_ok (d\<lparr> ldb_file := f, ldb_next_data_offset := ldb_next_data_offset d + ?n \<rparr>)"
      using f(2,3) sum e(4) n by (simp add: ldb_ok_def)
    have "extends ?N (pf_disk e) (pf_disk f)"
      using f(3) e(4) n by (simp add: extends_write)
    then show "extends ?N (disk d) (pf_disk f)" by (rule extends_trans [OF e(3)]) simp
    show "file_read (pf_disk f) ?N (length data) = data"
      using f(3) e(4) n by (simp add: file_read_write_same)
    show "length (pf_disk f) \<le> length (disk d) + length data + grow_slack d"
      using f(3) e(4,5) n by simp
  qed (use sum f(4) e(6) in simp_all)
qed

text \<open>The fields of a log record: an argument that is stored between \<open>lo\<close> and \<open>N\<close>, or no argument.\<close>

definition stored :: "nat \<Rightarrow> nat \<Rightarrow> byte list \<Rightarrow> ldb_log_record_field \<Rightarrow> byte list option \<Rightarrow> bool" where
  "stored lo N F fld x \<longleftrightarrow>
     (case x of
        None \<Rightarrow> fld = zero_field
      | Some data \<Rightarrow>
          fld = field_of (lf_data_offset fld) data \<and> lo \<le> unat (lf_data_offset fld) \<and>
          unat (lf_data_offset fld) + length data \<le> N \<and>
          file_read F (unat (lf_data_offset fld)) (length data) = data)"

lemma stored_extends:
  "stored lo N F fld x \<Longrightarrow> extends N F G \<Longrightarrow> N \<le> M \<Longrightarrow> lo' \<le> lo \<Longrightarrow> stored lo' M G fld x"
  by (auto simp: stored_def extends_read split: option.splits)

definition opt_size :: "byte list option \<Rightarrow> nat" where
  "opt_size x = (case x of None \<Rightarrow> 0 | Some data \<Rightarrow> length data)"

abbreviation moved :: "ldb \<Rightarrow> paged_file \<Rightarrow> u32 \<Rightarrow> ldb" where
  "moved d f m \<equiv> d\<lparr> ldb_file := f, ldb_next_data_offset := m \<rparr>"

lemma grow_slack_moved [simp]:
  "pf_page_size f = pf_page_size (ldb_file d) \<Longrightarrow> grow_slack (moved d f m) = grow_slack d"
  "pf_page_size f = pf_page_size (ldb_file d) \<Longrightarrow> grow_slack (d\<lparr> ldb_file := f \<rparr>) = grow_slack d"
  by (simp_all add: grow_slack_def)

lemma WriteOptional_ok:
  assumes ok: "ldb_ok d" and room: "length (disk d) + opt_size x + grow_slack d < 2 ^ 32"
    and x: "x \<noteq> Some []"
  obtains fld f m where "WriteOptional x d = Inr (fld, moved d f m)" and "ldb_ok (moved d f m)"
    and "unat m = unat (ldb_next_data_offset d) + opt_size x"
    and "extends (unat (ldb_next_data_offset d)) (disk d) (pf_disk f)"
    and "stored (unat (ldb_next_data_offset d)) (unat m) (pf_disk f) fld x"
    and "length (pf_disk f) \<le> length (disk d) + opt_size x + grow_slack d"
    and "pf_page_size f = pf_page_size (ldb_file d)"
proof (cases x)
  case None
  show ?thesis
    by (rule that [of zero_field "ldb_next_data_offset d" "ldb_file d"])
      (use None ok in \<open>simp_all add: WriteOptional_def opt_size_def stored_def extends_refl ldb_ok_def\<close>)
next
  case (Some data)
  let ?N = "ldb_next_data_offset d" and ?m = "ldb_next_data_offset d + of_nat (length data)"
  have len: "opt_size x = length data" and ne: "data \<noteq> []" using Some x by (simp_all add: opt_size_def)
  obtain f where f: "WriteLdbData data d = Inr (field_of ?N data, moved d f ?m)"
    "ldb_ok (moved d f ?m)" "unat ?m = unat ?N + length data"
    "extends (unat ?N) (disk d) (pf_disk f)" "file_read (pf_disk f) (unat ?N) (length data) = data"
    "length (pf_disk f) \<le> length (disk d) + length data + grow_slack d"
    "pf_page_size f = pf_page_size (ldb_file d)"
    by (rule WriteLdbData_ok [OF ok _ ne]) (use room len in simp_all)
  show ?thesis
    by (rule that [of "field_of ?N data" ?m f])
      (use f Some len in \<open>simp_all add: WriteOptional_def stored_def field_of_def\<close>)
qed

lemma write_fields_ok:
  fixes K :: "ldb_log_record_field \<Rightarrow> ldb_log_record_field \<Rightarrow> ldb_log_record_field \<Rightarrow> ldb \<Rightarrow> 'a cres"
  assumes ok: "ldb_ok d"
    and room: "length (disk d) + opt_size k + opt_size v + opt_size w + 3 * grow_slack d < 2 ^ 32"
    and ne: "k \<noteq> Some []" "v \<noteq> Some []" "w \<noteq> Some []"
  obtains fk fv fw f m where
    "bind_res (WriteOptional k d) (\<lambda>(fk, d). bind_res (WriteOptional v d) (\<lambda>(fv, d).
       bind_res (WriteOptional w d) (\<lambda>(fw, d). K fk fv fw d))) = K fk fv fw (moved d f m)"
    and "ldb_ok (moved d f m)"
    and "unat m = unat (ldb_next_data_offset d) + opt_size k + opt_size v + opt_size w"
    and "extends (unat (ldb_next_data_offset d)) (disk d) (pf_disk f)"
    and "stored (unat (ldb_next_data_offset d)) (unat m) (pf_disk f) fk k" and "stored (unat (ldb_next_data_offset d)) (unat m) (pf_disk f) fv v"
    and "stored (unat (ldb_next_data_offset d)) (unat m) (pf_disk f) fw w"
    and "length (pf_disk f) \<le> length (disk d) + opt_size k + opt_size v + opt_size w + 3 * grow_slack d"
    and "pf_page_size f = pf_page_size (ldb_file d)"
proof -
  obtain f1 g1 m1 where 1: "WriteOptional k d = Inr (f1, moved d g1 m1)" "ldb_ok (moved d g1 m1)"
    "unat m1 = unat (ldb_next_data_offset d) + opt_size k"
    "extends (unat (ldb_next_data_offset d)) (disk d) (pf_disk g1)" "stored (unat (ldb_next_data_offset d)) (unat m1) (pf_disk g1) f1 k"
    "length (pf_disk g1) \<le> length (disk d) + opt_size k + grow_slack d"
    "pf_page_size g1 = pf_page_size (ldb_file d)"
    by (rule WriteOptional_ok [OF ok _ ne(1)]) (use room in simp)
  obtain f2 g2 m2 where 2: "WriteOptional v (moved d g1 m1) = Inr (f2, moved d g2 m2)"
    "ldb_ok (moved d g2 m2)" "unat m2 = unat m1 + opt_size v"
    "extends (unat m1) (pf_disk g1) (pf_disk g2)" "stored (unat m1) (unat m2) (pf_disk g2) f2 v"
    "length (pf_disk g2) \<le> length (pf_disk g1) + opt_size v + grow_slack d"
    "pf_page_size g2 = pf_page_size (ldb_file d)"
    by (rule WriteOptional_ok [OF 1(2) _ ne(2)]) (use room 1(6,7) in simp_all)
  obtain f3 g3 m3 where 3: "WriteOptional w (moved d g2 m2) = Inr (f3, moved d g3 m3)"
    "ldb_ok (moved d g3 m3)" "unat m3 = unat m2 + opt_size w"
    "extends (unat m2) (pf_disk g2) (pf_disk g3)" "stored (unat m2) (unat m3) (pf_disk g3) f3 w"
    "length (pf_disk g3) \<le> length (pf_disk g2) + opt_size w + grow_slack d"
    "pf_page_size g3 = pf_page_size (ldb_file d)"
    by (rule WriteOptional_ok [OF 2(2) _ ne(3)]) (use room 1(6) 2(6,7) in simp_all)
  have len: "length (pf_disk g3) \<le> length (disk d) + opt_size k + opt_size v + opt_size w + 3 * grow_slack d"
    using 1(6) 2(6) 3(6) by linarith
  have e13: "extends (unat m1) (pf_disk g1) (pf_disk g3)"
    by (rule extends_trans [OF 2(4) 3(4)]) (simp add: 2(3))
  show ?thesis
  proof (rule that [of f1 f2 f3 m3 g3])
    show "extends (unat (ldb_next_data_offset d)) (disk d) (pf_disk g3)"
      by (rule extends_trans [OF 1(4) e13]) (simp add: 1(3))
    show "stored (unat (ldb_next_data_offset d)) (unat m3) (pf_disk g3) f1 k"
      by (rule stored_extends [OF 1(5) e13]) (simp_all add: 2(3) 3(3))
    show "stored (unat (ldb_next_data_offset d)) (unat m3) (pf_disk g3) f2 v"
      by (rule stored_extends [OF 2(5) 3(4)]) (simp_all add: 1(3) 3(3))
    show "stored (unat (ldb_next_data_offset d)) (unat m3) (pf_disk g3) f3 w"
      by (rule stored_extends [OF 3(5) extends_refl]) (use 1(3) 2(3) 3(2) in \<open>simp_all add: ldb_ok_def\<close>)
  qed (use 1 2 3 len in simp_all)
qed


section \<open>Blocks in the file\<close>

definition boff :: "ldb_block_header_info \<Rightarrow> nat" where
  "boff b = unat (bi_offset b)"

definition bsize :: "ldb_block_header_info \<Rightarrow> nat" where
  "bsize b = unat (bh_size (bi_block_header b))"

definition bend :: "ldb_block_header_info \<Rightarrow> nat" where
  "bend b = boff b + bsize b"

definition block_at :: "byte list \<Rightarrow> ldb_block_header_info \<Rightarrow> ldb_log_record list \<Rightarrow> bool" where
  "block_at F b rs \<longleftrightarrow> 0 < boff b \<and> bend b \<le> length F \<and> 64 \<le> bsize b \<and>
     16 + 48 * length rs \<le> bsize b \<and>
     unat (bh_used_count (bi_block_header b)) = length rs \<and>
     file_read F (boff b) 12 = block_header_bytes (bi_block_header b) \<and>
     file_read F (boff b + 12) (48 * length rs) = logs_bytes rs"

text \<open>Only bytes of \<open>[lo, hi)\<close> differ.\<close>

definition changed_in :: "nat \<Rightarrow> nat \<Rightarrow> byte list \<Rightarrow> byte list \<Rightarrow> bool" where
  "changed_in lo hi F G \<longleftrightarrow> length G = length F \<and>
     (\<forall>off n. off + n \<le> lo \<or> hi \<le> off \<longrightarrow> file_read G off n = file_read F off n)"

lemma changed_in_write:
  "lo \<le> off \<Longrightarrow> off + length bs \<le> hi \<Longrightarrow> hi \<le> length F \<Longrightarrow> changed_in lo hi F (file_write F off bs)"
  by (auto simp: changed_in_def file_read_write_other)

lemma changed_in_trans: "changed_in lo hi F G \<Longrightarrow> changed_in lo hi G H \<Longrightarrow> changed_in lo hi F H"
  by (simp add: changed_in_def)

lemma changed_in_read:
  "changed_in lo hi F G \<Longrightarrow> off + n \<le> lo \<or> hi \<le> off \<Longrightarrow> file_read G off n = file_read F off n"
  by (auto simp: changed_in_def)

lemma block_at_frame:
  assumes "block_at F b rs" and "length F \<le> length G"
    and "\<And>off n. boff b \<le> off \<Longrightarrow> off + n \<le> bend b \<Longrightarrow> file_read G off n = file_read F off n"
  shows "block_at G b rs"
  using assms by (auto simp: block_at_def bend_def)

lemma block_at_extends: "block_at F b rs \<Longrightarrow> extends N F G \<Longrightarrow> bend b \<le> N \<Longrightarrow> block_at G b rs"
  by (rule block_at_frame) (auto simp: extends_length extends_read)

lemma block_at_changed:
  assumes "block_at F b rs" and "changed_in lo hi F G" and "bend b \<le> lo \<or> hi \<le> boff b"
  shows "block_at G b rs"
  by (rule block_at_frame [OF assms(1)]) (use assms(2,3) in \<open>auto simp: changed_in_def\<close>)

lemma file_read_add: "file_read F off (a + b) = file_read F off a @ file_read F (off + a) b"
  by (simp add: file_read_def take_add add.commute)

lemma bsize_less: "bsize b < 2 ^ 32"
  using unat_u32_less [of "bh_size (bi_block_header b)"] by (simp add: bsize_def)

lemma used_words:
  assumes "unat (bh_used_count h) = n" and "16 + 48 * n \<le> unat (bh_size h)"
  shows "unat (bh_used_count h * 48) = 48 * n" and "unat (16 + bh_used_count h * 48) = 16 + 48 * n"
proof -
  have b: "16 + 48 * n < 2 ^ 32" using assms(2) unat_u32_less [of "bh_size h"] by simp
  then show m: "unat (bh_used_count h * 48) = 48 * n"
    using assms(1) by (subst unat_mult_u32) simp_all
  show "unat (16 + bh_used_count h * 48) = 16 + 48 * n"
    using b m by (subst unat_add_u32) simp_all
qed

text \<open>The test for a full block is exact: a block is full when no record fits after \<open>16\<close> bytes.\<close>

lemma CheckNeedForNewBlock_iff:
  assumes "block_at F b rs"
  shows "CheckNeedForNewBlock (bi_block_header b) \<longleftrightarrow> bsize b < 16 + 48 * (length rs + 1)"
proof -
  let ?h = "bi_block_header b"
  have u: "unat (bh_used_count ?h) = length rs" "16 + 48 * length rs \<le> unat (bh_size ?h)"
    using assms by (simp_all add: block_at_def bsize_def)
  have "unat (bh_size ?h - (16 + bh_used_count ?h * 48)) = bsize b - (16 + 48 * length rs)"
    using used_words(2) [OF u] u(2) by (subst unat_sub_u32) (simp_all add: bsize_def)
  then show ?thesis
    using u(2) by (auto simp: CheckNeedForNewBlock_def Let_def word_less_nat_alt bsize_def)
qed

definition with_record :: "ldb_block_header_info \<Rightarrow> ldb_block_header_info" where
  "with_record b = b\<lparr> bi_block_header := (bi_block_header b)
     \<lparr> bh_used_count := bh_used_count (bi_block_header b) + 1 \<rparr> \<rparr>"

definition with_next :: "u32 \<Rightarrow> ldb_block_header_info \<Rightarrow> ldb_block_header_info" where
  "with_next off b = b\<lparr> bi_block_header := (bi_block_header b)\<lparr> bh_next_block_offset := off \<rparr> \<rparr>"

lemma with_simps [simp]:
  "boff (with_record b) = boff b" "bsize (with_record b) = bsize b" "bend (with_record b) = bend b"
  "boff (with_next off b) = boff b" "bsize (with_next off b) = bsize b" "bend (with_next off b) = bend b"
  "bi_offset (with_record b) = bi_offset b" "bi_offset (with_next off b) = bi_offset b"
  "bh_next_block_offset (bi_block_header (with_record b)) = bh_next_block_offset (bi_block_header b)"
  "bh_next_block_offset (bi_block_header (with_next off b)) = off"
  "bh_size (bi_block_header (with_next off b)) = bh_size (bi_block_header b)"
  by (simp_all add: with_record_def with_next_def boff_def bsize_def bend_def)

lemma block_append:
  assumes b: "block_at F b rs" and fits: "16 + 48 * (length rs + 1) \<le> bsize b"
    and G: "G = file_write (file_write F (boff b + 12 + 48 * length rs) (log_record_bytes r))
                  (boff b) (block_header_bytes (bi_block_header (with_record b)))"
  shows "block_at G (with_record b) (rs @ [r])" and "changed_in (boff b) (bend b) F G"
proof -
  let ?s = "boff b + 12 + 48 * length rs"
  let ?G1 = "file_write F ?s (log_record_bytes r)"
  let ?hb = "block_header_bytes (bi_block_header (with_record b))"
  have k: "0 < boff b" "bend b \<le> length F" "64 \<le> bsize b"
    "unat (bh_used_count (bi_block_header b)) = length rs"
    "file_read F (boff b + 12) (48 * length rs) = logs_bytes rs"
    using b by (simp_all add: block_at_def)
  have e: "?s + 48 \<le> bend b" "boff b + 12 \<le> bend b" using fits by (simp_all add: bend_def)
  have c1: "changed_in (boff b) (bend b) F ?G1"
    by (rule changed_in_write) (use e k in simp_all)
  have l1: "length ?G1 = length F" using c1 by (simp add: changed_in_def)
  have c2: "changed_in (boff b) (bend b) ?G1 G"
    unfolding G by (rule changed_in_write) (use e k l1 in simp_all)
  show "changed_in (boff b) (bend b) F G" by (rule changed_in_trans [OF c1 c2])
  have used: "unat (bh_used_count (bi_block_header (with_record b))) = length rs + 1"
  proof -
    have "length rs + 1 < 2 ^ 32" using fits bsize_less [of b] by simp
    then show ?thesis using k(4) unfolding with_record_def by (simp add: unat_add_u32)
  qed
  have hdr: "file_read G (boff b) 12 = ?hb"
    using file_read_write_same [of "boff b" ?hb ?G1] e k(2) l1 by (simp add: G)
  have "file_read G (boff b + 12) (48 * length rs + 48) =
      file_read G (boff b + 12) (48 * length rs) @ file_read G ?s 48"
    by (rule file_read_add)
  also have "file_read G ?s 48 = file_read ?G1 ?s 48"
    unfolding G by (rule file_read_write_other) (use e k(2) l1 in simp_all)
  also have "\<dots> = log_record_bytes r"
    using file_read_write_same [of ?s "log_record_bytes r" F] e k(2) by simp
  also have "file_read G (boff b + 12) (48 * length rs) = file_read ?G1 (boff b + 12) (48 * length rs)"
    unfolding G by (rule file_read_write_other) (use e k(2) l1 in simp_all)
  also have "\<dots> = file_read F (boff b + 12) (48 * length rs)"
    by (rule file_read_write_other) (use e k(2) in simp_all)
  finally have recs: "file_read G (boff b + 12) (48 * length (rs @ [r])) = logs_bytes (rs @ [r])"
    using k(5) by (simp add: add.commute)
  have "length G = length F" using c1 c2 by (simp add: changed_in_def)
  then show "block_at G (with_record b) (rs @ [r])"
    using k fits used hdr recs by (simp add: block_at_def)
qed

lemma block_relink:
  assumes b: "block_at F b rs"
    and G: "G = file_write F (boff b) (block_header_bytes (bi_block_header (with_next off b)))"
  shows "block_at G (with_next off b) rs" and "changed_in (boff b) (bend b) F G"
proof -
  let ?hb = "block_header_bytes (bi_block_header (with_next off b))"
  have k: "bend b \<le> length F" "64 \<le> bsize b" "bend b = boff b + bsize b"
    using b by (simp_all add: block_at_def bend_def)
  show c: "changed_in (boff b) (bend b) F G"
    unfolding G by (rule changed_in_write) (use k in simp_all)
  have "file_read G (boff b) 12 = ?hb"
    using file_read_write_same [of "boff b" ?hb F] k by (simp add: G)
  moreover have "file_read G (boff b + 12) (48 * length rs) = file_read F (boff b + 12) (48 * length rs)"
    unfolding G by (rule file_read_write_other) (use k in simp_all)
  moreover have "bh_used_count (bi_block_header (with_next off b)) = bh_used_count (bi_block_header b)"
    by (simp add: with_next_def)
  ultimately show "block_at G (with_next off b) rs"
    using b c by (simp add: block_at_def changed_in_def)
qed

lemma slot_word:
  assumes "block_at F b rs" and "16 + 48 * (length rs + 1) \<le> bsize b" and "length F < 2 ^ 32"
  shows "unat (bi_offset b + 12 + 48 * bh_used_count (bi_block_header b)) = boff b + 12 + 48 * length rs"
proof -
  have k: "unat (bh_used_count (bi_block_header b)) = length rs" "bend b \<le> length F"
    "bend b = boff b + bsize b"
    using assms(1) by (simp_all add: block_at_def bend_def)
  have lt: "boff b + 12 + 48 * length rs < 2 ^ 32" using k assms(2,3) by simp
  have m: "unat (48 * bh_used_count (bi_block_header b)) = 48 * length rs"
    using k(1) lt by (subst unat_mult_u32) simp_all
  have a: "unat (bi_offset b + 12) = boff b + 12"
    using lt by (subst unat_add_u32) (simp_all add: boff_def)
  show ?thesis using lt m a by (subst unat_add_u32) simp_all
qed

text \<open>The record and the header of its block are written.\<close>

lemma append_record_writes:
  assumes ok: "ldb_ok d" and b: "block_at (disk d) b rs"
    and fits: "16 + 48 * (length rs + 1) \<le> bsize b"
    and slot: "slot = bi_offset b + 12 + 48 * bh_used_count (bi_block_header b)"
  obtains f where
    "ldb_write (bi_offset b) (block_header_bytes (bi_block_header (with_record b)))
       (ldb_write slot (log_record_bytes r) d) = d\<lparr> ldb_file := f \<rparr>"
    and "ldb_ok (d\<lparr> ldb_file := f \<rparr>)" and "block_at (pf_disk f) (with_record b) (rs @ [r])"
    and "changed_in (boff b) (bend b) (disk d) (pf_disk f)"
    and "pf_page_size f = pf_page_size (ldb_file d)"
    and "slot \<noteq> 0 \<and> bi_offset b \<noteq> 0 \<and> slot < ldb_file_size d \<and> bi_offset b < ldb_file_size d"
proof -
  have L: "length (disk d) < 2 ^ 32" using ok by (simp add: ldb_ok_def)
  have s: "unat slot = boff b + 12 + 48 * length rs" unfolding slot by (rule slot_word [OF b fits L])
  have k: "0 < boff b" "bend b \<le> length (disk d)" "bend b = boff b + bsize b"
    using b by (simp_all add: block_at_def bend_def)
  have e: "unat slot + length (log_record_bytes r) \<le> length (disk d)" using s k fits by simp
  obtain f1 where f1: "ldb_write slot (log_record_bytes r) d = d\<lparr> ldb_file := f1 \<rparr>"
    "ldb_ok (d\<lparr> ldb_file := f1 \<rparr>)" "pf_disk f1 = file_write (disk d) (unat slot) (log_record_bytes r)"
    "pf_page_size f1 = pf_page_size (ldb_file d)"
    by (rule ldb_write_ok [OF ok e])
  have "length (pf_disk f1) = length (disk d)" unfolding f1(3) using e by simp
  then have e2: "unat (bi_offset b) + length (block_header_bytes (bi_block_header (with_record b)))
      \<le> length (disk (d\<lparr> ldb_file := f1 \<rparr>))"
    using k fits by (simp add: boff_def)
  obtain f2 where f2: "ldb_write (bi_offset b) (block_header_bytes (bi_block_header (with_record b)))
      (d\<lparr> ldb_file := f1 \<rparr>) = (d\<lparr> ldb_file := f1 \<rparr>)\<lparr> ldb_file := f2 \<rparr>"
    "ldb_ok ((d\<lparr> ldb_file := f1 \<rparr>)\<lparr> ldb_file := f2 \<rparr>)"
    "pf_disk f2 = file_write (pf_disk f1) (unat (bi_offset b))
      (block_header_bytes (bi_block_header (with_record b)))"
    "pf_page_size f2 = pf_page_size f1"
    using ldb_write_ok [OF f1(2) e2] by auto
  note ba = block_append [OF b fits, of "pf_disk f2" r]
  show ?thesis
  proof (rule that [of f2])
    have "pf_disk f2 = file_write (file_write (disk d) (boff b + 12 + 48 * length rs) (log_record_bytes r))
       (boff b) (block_header_bytes (bi_block_header (with_record b)))"
      by (simp add: f2(3) f1(3) s boff_def)
    from ba [OF this] show "block_at (pf_disk f2) (with_record b) (rs @ [r])"
      "changed_in (boff b) (bend b) (disk d) (pf_disk f2)" by simp_all
    have "0 < unat slot" "unat slot < length (disk d)" "unat (bi_offset b) < length (disk d)"
      "0 < unat (bi_offset b)" using s e e2 k f1(3) by (simp_all add: boff_def)
    then show "slot \<noteq> 0 \<and> bi_offset b \<noteq> 0 \<and> slot < ldb_file_size d \<and> bi_offset b < ldb_file_size d"
      using unat_file_size [OF L] by (auto simp: word_less_nat_alt)
  qed (use f1 f2 in simp_all)
qed

lemma CreateNewBlockIfNeeded_new:
  assumes ok: "ldb_ok d" and b: "block_at (disk d) b rs" and full: "CheckNeedForNewBlock (bi_block_header b)"
    and room: "length (disk d) + bsize b + grow_slack d < 2 ^ 32"
  obtains f m nb where
    "CreateNewBlockIfNeeded b d = Inr (with_next (ldb_next_data_offset d) b, Some nb, moved d f m)"
    and "ldb_ok (moved d f m)" and "unat m = unat (ldb_next_data_offset d) + bsize b"
    and "extends (unat (ldb_next_data_offset d)) (disk d) (pf_disk f)"
    and "block_at (pf_disk f) nb []" and "bi_offset nb = ldb_next_data_offset d" and "bsize nb = bsize b"
    and "bh_next_block_offset (bi_block_header nb) = 0"
    and "length (pf_disk f) \<le> length (disk d) + bsize b + grow_slack d"
    and "pf_page_size f = pf_page_size (ldb_file d)"
proof -
  let ?N = "ldb_next_data_offset d" and ?n = "bh_size (bi_block_header b)"
  let ?h = "\<lparr> bh_size = ?n, bh_used_count = 0, bh_next_block_offset = 0 \<rparr>"
  let ?nb = "\<lparr> bi_block_header = ?h, bi_offset = ?N \<rparr>"
  have n: "unat ?n = bsize b" and big: "64 \<le> bsize b" using b by (simp_all add: bsize_def block_at_def)
  obtain e where e: "EnsureSpace ?n d = d\<lparr> ldb_file := e \<rparr>" "ldb_ok (d\<lparr> ldb_file := e \<rparr>)"
    "extends (unat ?N) (disk d) (pf_disk e)" "unat ?N + unat ?n \<le> length (pf_disk e)"
    "length (pf_disk e) \<le> length (disk d) + unat ?n + grow_slack d" "pf_page_size e = pf_page_size (ldb_file d)"
    by (rule EnsureSpace_ok [OF ok, of ?n]) (use room n in simp)
  let ?d = "d\<lparr> ldb_file := e \<rparr>"
  have N: "0 < unat ?N" "length (pf_disk e) < 2 ^ 32" using e(2) by (simp_all add: ldb_ok_def)
  have guard: "?N \<noteq> 0 \<and> ?N < ldb_file_size ?d"
    using N e(4) n big unat_file_size [of ?d] by (auto simp: word_less_nat_alt)
  obtain f where f: "ldb_write ?N (block_header_bytes ?h) ?d = ?d\<lparr> ldb_file := f \<rparr>"
    "ldb_ok (?d\<lparr> ldb_file := f \<rparr>)" "pf_disk f = file_write (pf_disk e) (unat ?N) (block_header_bytes ?h)"
    "pf_page_size f = pf_page_size e"
    using ldb_write_ok [OF e(2), of ?N "block_header_bytes ?h"] e(4) n big by auto
  have l: "length (pf_disk f) = length (pf_disk e)" using f(3) e(4) n big by simp
  have sum: "unat (?N + ?n) = unat ?N + bsize b" using e(4) n N by (subst unat_add_u32) simp_all
  have ext: "extends (unat ?N) (pf_disk e) (pf_disk f)"
    unfolding f(3) by (rule extends_write) (use e(4) n big in simp_all)
  have nb: "block_at (pf_disk f) ?nb []"
    using file_read_write_same [of "unat ?N" "block_header_bytes ?h" "pf_disk e"] N n e(4) big l
    by (simp add: block_at_def boff_def bsize_def bend_def f(3) file_read_def)
  show ?thesis
  proof (rule that [of ?nb "?N + ?n" f])
    show "CreateNewBlockIfNeeded b d = Inr (with_next ?N b, Some ?nb, moved d f (?N + ?n))"
      using full e(1) guard f(1) by (simp add: CreateNewBlockIfNeeded_def Let_def with_next_def)
    show "ldb_ok (moved d f (?N + ?n))"
      using f(2) sum e(4) l n by (simp add: ldb_ok_def)
    show "extends (unat ?N) (disk d) (pf_disk f)" by (rule extends_trans [OF e(3) ext]) simp
    show "length (pf_disk f) \<le> length (disk d) + bsize b + grow_slack d" using l e(5) n by simp
    show "pf_page_size f = pf_page_size (ldb_file d)" using f(4) e(6) by simp
    show "bsize ?nb = bsize b" by (simp add: bsize_def)
    show "unat (?N + ?n) = unat ?N + bsize b" by (rule sum)
    show "block_at (pf_disk f) ?nb []" by (rule nb)
  qed simp_all
qed


section \<open>The chain of a table\<close>

type_synonym chain = "(ldb_block_header_info \<times> ldb_log_record list) list"

definition linked :: "ldb_block_header_info list \<Rightarrow> bool" where
  "linked bs \<longleftrightarrow> bs \<noteq> [] \<and>
     successively (\<lambda>b c. bh_next_block_offset (bi_block_header b) = bi_offset c) bs \<and>
     sorted_wrt (\<lambda>b c. bend b \<le> boff c) bs \<and>
     bh_next_block_offset (bi_block_header (last bs)) = 0"

definition chain_at :: "byte list \<Rightarrow> chain \<Rightarrow> bool" where
  "chain_at F c \<longleftrightarrow> linked (map fst c) \<and> (\<forall>(b, rs) \<in> set c. block_at F b rs)"

definition log_of :: "chain \<Rightarrow> ldb_log_record list" where
  "log_of c = concat (map snd c)"

lemma linked_snoc_record: "linked (bs @ [with_record b]) \<longleftrightarrow> linked (bs @ [b])"
  by (auto simp: linked_def successively_append_iff sorted_wrt_append)

lemma linked_snoc_block:
  assumes "linked (bs @ [b])" and "bend b \<le> boff nb" and "0 < bsize b"
    and "bh_next_block_offset (bi_block_header nb) = 0"
  shows "linked (bs @ [with_next (bi_offset nb) b, nb])"
proof -
  have "\<forall>x \<in> set bs. bend x \<le> boff b" using assms(1) by (simp add: linked_def sorted_wrt_append)
  moreover have "boff b \<le> boff nb" using assms(2) by (simp add: bend_def)
  ultimately have "\<forall>x \<in> set bs. bend x \<le> boff nb" by (meson order_trans)
  then show ?thesis
    using assms by (auto simp: linked_def successively_append_iff sorted_wrt_append)
qed


section \<open>Appending to the log\<close>

lemma PutLogRecord_same:
  assumes ok: "ldb_ok d" and b: "block_at (disk d) b rs"
    and fits: "16 + 48 * (length rs + 1) \<le> bsize b"
  obtains f where "PutLogRecord b None r d = Inr (with_record b, d\<lparr> ldb_file := f \<rparr>)"
    and "ldb_ok (d\<lparr> ldb_file := f \<rparr>)" and "block_at (pf_disk f) (with_record b) (rs @ [r])"
    and "changed_in (boff b) (bend b) (disk d) (pf_disk f)"
    and "pf_page_size f = pf_page_size (ldb_file d)"
proof -
  obtain f where f: "ldb_write (bi_offset b) (block_header_bytes (bi_block_header (with_record b)))
       (ldb_write (bi_offset b + 12 + 48 * bh_used_count (bi_block_header b)) (log_record_bytes r) d) =
       d\<lparr> ldb_file := f \<rparr>"
    "ldb_ok (d\<lparr> ldb_file := f \<rparr>)" "block_at (pf_disk f) (with_record b) (rs @ [r])"
    "changed_in (boff b) (bend b) (disk d) (pf_disk f)" "pf_page_size f = pf_page_size (ldb_file d)"
    "bi_offset b + 12 + 48 * bh_used_count (bi_block_header b) \<noteq> 0 \<and> bi_offset b \<noteq> 0 \<and>
     bi_offset b + 12 + 48 * bh_used_count (bi_block_header b) < ldb_file_size d \<and>
     bi_offset b < ldb_file_size d"
    by (rule append_record_writes [OF ok b fits refl])
  have "PutLogRecord b None r d = Inr (with_record b, d\<lparr> ldb_file := f \<rparr>)"
    using f(1,6) by (simp add: PutLogRecord_def Let_def with_record_def)
  then show ?thesis using f(2-5) that by blast
qed

lemma PutLogRecord_new:
  assumes ok: "ldb_ok d" and b: "block_at (disk d) b rs" and nb: "block_at (disk d) nb []"
    and below: "bend b \<le> boff nb"
  obtains f where "PutLogRecord (with_next off b) (Some nb) r d = Inr (with_record nb, d\<lparr> ldb_file := f \<rparr>)"
    and "ldb_ok (d\<lparr> ldb_file := f \<rparr>)" and "block_at (pf_disk f) (with_record nb) [r]"
    and "block_at (pf_disk f) (with_next off b) rs"
    and "\<forall>o' n. o' + n \<le> boff b \<or> bend b \<le> o' \<longrightarrow> o' + n \<le> boff nb \<or> bend nb \<le> o' \<longrightarrow>
           file_read (pf_disk f) o' n = file_read (disk d) o' n"
    and "length (pf_disk f) = length (disk d)" and "pf_page_size f = pf_page_size (ldb_file d)"
proof -
  have fits: "16 + 48 * (length [] + 1) \<le> bsize nb" using nb by (simp add: block_at_def)
  obtain f where f: "ldb_write (bi_offset nb) (block_header_bytes (bi_block_header (with_record nb)))
       (ldb_write (bi_offset nb + 12 + 48 * bh_used_count (bi_block_header nb)) (log_record_bytes r) d) =
       d\<lparr> ldb_file := f \<rparr>"
    "ldb_ok (d\<lparr> ldb_file := f \<rparr>)" "block_at (pf_disk f) (with_record nb) ([] @ [r])"
    "changed_in (boff nb) (bend nb) (disk d) (pf_disk f)" "pf_page_size f = pf_page_size (ldb_file d)"
    "bi_offset nb + 12 + 48 * bh_used_count (bi_block_header nb) \<noteq> 0 \<and> bi_offset nb \<noteq> 0 \<and>
     bi_offset nb + 12 + 48 * bh_used_count (bi_block_header nb) < ldb_file_size d \<and>
     bi_offset nb < ldb_file_size d"
    by (rule append_record_writes [OF ok nb fits refl])
  have b1: "block_at (pf_disk f) b rs" by (rule block_at_changed [OF b f(4)]) (use below in simp)
  have k: "0 < boff b" "boff b + 12 \<le> length (pf_disk f)" "length (pf_disk f) < 2 ^ 32"
    using b1 f(2) by (simp_all add: block_at_def bend_def ldb_ok_def)
  let ?d = "d\<lparr> ldb_file := f \<rparr>" and ?hb = "block_header_bytes (bi_block_header (with_next off b))"
  obtain g where g: "ldb_write (bi_offset b) ?hb ?d = ?d\<lparr> ldb_file := g \<rparr>" "ldb_ok (?d\<lparr> ldb_file := g \<rparr>)"
    "pf_disk g = file_write (disk ?d) (unat (bi_offset b)) ?hb" "pf_page_size g = pf_page_size (ldb_file ?d)"
    by (rule ldb_write_ok [OF f(2), of "bi_offset b" ?hb]) (use k in \<open>simp_all add: boff_def\<close>)
  have rel: "block_at (pf_disk g) (with_next off b) rs" "changed_in (boff b) (bend b) (pf_disk f) (pf_disk g)"
    using block_relink [OF b1, of "pf_disk g" off] g(3) by (simp_all add: boff_def)
  have guard: "bi_offset b \<noteq> 0 \<and> bi_offset b < ldb_file_size ?d"
    using k unat_file_size [of ?d] by (auto simp: word_less_nat_alt boff_def)
  show ?thesis
  proof (rule that [of g])
    show "PutLogRecord (with_next off b) (Some nb) r d = Inr (with_record nb, d\<lparr> ldb_file := g \<rparr>)"
      using f(1,6) g(1) guard by (simp add: PutLogRecord_def Let_def with_record_def)
    show "block_at (pf_disk g) (with_record nb) [r]"
      using block_at_changed [OF f(3) rel(2)] below by simp
    show "block_at (pf_disk g) (with_next off b) rs" by (rule rel(1))
    show "ldb_ok (d\<lparr> ldb_file := g \<rparr>)" "pf_page_size g = pf_page_size (ldb_file d)"
      "length (pf_disk g) = length (disk d)"
      using g(2,4) f(4,5) rel(2) by (simp_all add: changed_in_def)
    show "\<forall>o' n. o' + n \<le> boff b \<or> bend b \<le> o' \<longrightarrow> o' + n \<le> boff nb \<or> bend nb \<le> o' \<longrightarrow>
        file_read (pf_disk g) o' n = file_read (disk d) o' n"
      using changed_in_read [OF rel(2)] changed_in_read [OF f(4)] by simp
  qed
qed

text \<open>
  \<open>on_disk d t c\<close>: the chain \<open>c\<close> of table \<open>t\<close> is in the file, below the next free byte.
  \<open>spaced\<close>: no block of the chain starts where the one before it ends.
\<close>

definition on_disk :: "ldb \<Rightarrow> table_info \<Rightarrow> chain \<Rightarrow> bool" where
  "on_disk d t c \<longleftrightarrow> chain_at (disk d) c \<and> fst (last c) = ti_last_block t \<and>
     bend (ti_last_block t) \<le> unat (ldb_next_data_offset d)"

definition spaced :: "chain \<Rightarrow> bool" where
  "spaced c \<longleftrightarrow> sorted_wrt (\<lambda>b b'. bend b < boff b') (map fst c)"

text \<open>
  The effect of logging the record \<open>r\<close> with \<open>n\<close> bytes of data: everything below the next free
  byte and outside the last block keeps its contents.
\<close>

definition logged ::
    "ldb \<Rightarrow> table_info \<Rightarrow> chain \<Rightarrow> ldb_log_record \<Rightarrow> nat \<Rightarrow> ldb \<Rightarrow> table_info \<Rightarrow> chain \<Rightarrow> bool" where
  "logged d t c r n d' t' c' \<longleftrightarrow>
     on_disk d' t' c' \<and> ldb_ok d' \<and> log_of c' = log_of c @ [r] \<and>
     ti_records t' = live_records r (ti_records t) \<and> bi_offset (fst (hd c')) = bi_offset (fst (hd c)) \<and>
     (\<forall>off k. (off + k \<le> boff (ti_last_block t) \<or> bend (ti_last_block t) \<le> off) \<longrightarrow>
        off + k \<le> unat (ldb_next_data_offset d) \<longrightarrow> file_read (disk d') off k = file_read (disk d) off k) \<and>
     unat (ldb_next_data_offset d) + n \<le> unat (ldb_next_data_offset d') \<and>
     (spaced c \<and> (bend (ti_last_block t) < unat (ldb_next_data_offset d) \<or>
        \<not> CheckNeedForNewBlock (bi_block_header (ti_last_block t))) \<longrightarrow> spaced c') \<and>
     (0 < n \<longrightarrow> bend (ti_last_block t') < unat (ldb_next_data_offset d')) \<and>
     (\<not> CheckNeedForNewBlock (bi_block_header (ti_last_block t)) \<longrightarrow>
        bend (ti_last_block t') = bend (ti_last_block t)) \<and>
     (CheckNeedForNewBlock (bi_block_header (ti_last_block t)) \<longrightarrow>
        bend (ti_last_block t) = unat (ldb_next_data_offset d) \<longrightarrow> \<not> spaced c') \<and>
     (\<forall>b' \<in> fst ` set c'. unat (ldb_next_data_offset d) \<le> boff b' \<or>
        (\<exists>b \<in> fst ` set c. boff b' = boff b \<and> bend b' = bend b)) \<and>
     bsize (ti_last_block t') = bsize (ti_last_block t) \<and> grow_slack d' = grow_slack d \<and>
     length (disk d) \<le> length (disk d') \<and>
     length (disk d') \<le> length (disk d) + n + bsize (ti_last_block t) + 4 * grow_slack d"

lemma chain_pre_frame:
  assumes "chain_at F (pre @ [(b, rs)])" and "length F \<le> length G"
    and "\<And>off n. off + n \<le> boff b \<Longrightarrow> file_read G off n = file_read F off n"
  shows "\<forall>(x, xs) \<in> set pre. block_at G x xs"
proof (clarify)
  fix x xs assume x: "(x, xs) \<in> set pre"
  then have "block_at F x xs" using assms(1) by (auto simp: chain_at_def)
  moreover have "bend x \<le> boff b"
    using x assms(1) by (force simp: chain_at_def linked_def sorted_wrt_append)
  ultimately show "block_at G x xs"
    by (rule_tac block_at_frame [of F]) (use assms(2,3) in auto)
qed

lemma on_disk_obtain:
  assumes "on_disk d t c"
  obtains pre rs where "c = pre @ [(ti_last_block t, rs)]" and "block_at (disk d) (ti_last_block t) rs"
proof -
  have c: "chain_at (disk d) c" "fst (last c) = ti_last_block t" using assms by (simp_all add: on_disk_def)
  then have ne: "c \<noteq> []" by (auto simp: chain_at_def linked_def)
  then have "c = butlast c @ [(ti_last_block t, snd (last c))]"
    using c(2) by (metis append_butlast_last_id prod.collapse)
  moreover have "block_at (disk d) (ti_last_block t) (snd (last c))"
    using c last_in_set [OF ne] by (auto simp: chain_at_def)
  ultimately show ?thesis by (rule that)
qed

lemma logged_same:
  assumes c: "chain_at (disk d) (pre @ [(b, rs)])" and b: "b = ti_last_block t"
    and notfull: "\<not> CheckNeedForNewBlock (bi_block_header b)"
    and ok: "ldb_ok d'" and g: "grow_slack d' = grow_slack d"
    and len: "length (disk d) \<le> length (disk d')" "length (disk d') \<le> length (disk d) + n + 3 * grow_slack d"
    and nx: "bend b \<le> unat (ldb_next_data_offset d)"
      "unat (ldb_next_data_offset d') = unat (ldb_next_data_offset d) + n"
    and fr: "\<And>off k. off + k \<le> boff b \<or> bend b \<le> off \<Longrightarrow> off + k \<le> unat (ldb_next_data_offset d) \<Longrightarrow>
      file_read (disk d') off k = file_read (disk d) off k"
    and nb: "block_at (disk d') (with_record b) (rs @ [r])"
    and t': "ti_last_block t' = with_record b" "ti_records t' = live_records r (ti_records t)"
  shows "logged d t (pre @ [(b, rs)]) r n d' t' (pre @ [(with_record b, rs @ [r])])"
proof -
  have bb: "boff b \<le> bend b" by (simp add: bend_def)
  have "\<forall>(x, xs) \<in> set pre. block_at (disk d') x xs"
    by (rule chain_pre_frame [OF c len(1)]) (use fr nx bb in auto)
  moreover have "linked (map fst (pre @ [(with_record b, rs @ [r])]))"
    using c by (simp add: chain_at_def linked_snoc_record)
  ultimately have "chain_at (disk d') (pre @ [(with_record b, rs @ [r])])"
    using nb by (simp add: chain_at_def)
  moreover have "spaced (pre @ [(with_record b, rs @ [r])]) \<longleftrightarrow> spaced (pre @ [(b, rs)])"
    by (simp add: spaced_def sorted_wrt_append)
  moreover have "bi_offset (fst (hd (pre @ [(with_record b, rs @ [r])]))) =
      bi_offset (fst (hd (pre @ [(b, rs)])))"
    by (cases pre) simp_all
  moreover have "length (disk d') \<le> length (disk d) + n + bsize b + 4 * grow_slack d"
    using len(2) by linarith
  moreover have "log_of (pre @ [(with_record b, rs @ [r])]) = log_of (pre @ [(b, rs)]) @ [r]"
    by (simp add: log_of_def)
  moreover have "\<forall>b' \<in> fst ` set (pre @ [(with_record b, rs @ [r])]). unat (ldb_next_data_offset d) \<le> boff b' \<or>
      (\<exists>b'' \<in> fst ` set (pre @ [(b, rs)]). boff b' = boff b'' \<and> bend b' = bend b'')"
    by auto
  ultimately show ?thesis
    using ok g nx fr t' b notfull len(1) by (simp add: logged_def on_disk_def)
qed

lemma logged_new:
  assumes c: "chain_at (disk d) (pre @ [(b, rs)])" and b: "b = ti_last_block t"
    and full: "CheckNeedForNewBlock (bi_block_header b)"
    and ok: "ldb_ok d'" and g: "grow_slack d' = grow_slack d"
    and len: "length (disk d) \<le> length (disk d')"
      "length (disk d') \<le> length (disk d) + n + bsize b + 4 * grow_slack d"
    and nx: "bend b \<le> unat (ldb_next_data_offset d)" "bi_offset nb = ldb_next_data_offset d"
      "unat (ldb_next_data_offset d') = unat (ldb_next_data_offset d) + bsize nb + n"
    and nb: "bsize nb = bsize b" "bh_next_block_offset (bi_block_header nb) = 0"
    and fr: "\<And>off k. off + k \<le> boff b \<or> bend b \<le> off \<Longrightarrow> off + k \<le> unat (ldb_next_data_offset d) \<Longrightarrow>
      file_read (disk d') off k = file_read (disk d) off k"
    and at: "block_at (disk d') (with_record nb) [r]"
      "block_at (disk d') (with_next (bi_offset nb) b) rs"
    and t': "ti_last_block t' = with_record nb" "ti_records t' = live_records r (ti_records t)"
  shows "logged d t (pre @ [(b, rs)]) r n d' t'
           (pre @ [(with_next (bi_offset nb) b, rs), (with_record nb, [r])])"
proof -
  let ?c' = "pre @ [(with_next (bi_offset nb) b, rs), (with_record nb, [r])]"
  have bb: "boff b \<le> bend b" "boff nb = unat (ldb_next_data_offset d)" "bend nb = boff nb + bsize nb"
    using nx(2) by (simp_all add: bend_def boff_def)
  have "\<forall>(x, xs) \<in> set pre. block_at (disk d') x xs"
    by (rule chain_pre_frame [OF c len(1)]) (use fr nx bb in auto)
  moreover have "linked (map fst pre @ [with_next (bi_offset nb) b, nb])"
    by (rule linked_snoc_block) (use c nx nb at bb in \<open>auto simp: chain_at_def block_at_def\<close>)
  then have "linked (map fst ?c')"
    using linked_snoc_record [of "map fst pre @ [with_next (bi_offset nb) b]" nb] by simp
  ultimately have "chain_at (disk d') ?c'" using at by (simp add: chain_at_def)
  moreover have "spaced ?c'" if "spaced (pre @ [(b, rs)])" "bend b < unat (ldb_next_data_offset d)"
    using that bb by (fastforce simp: spaced_def sorted_wrt_append)
  moreover have "\<not> spaced ?c'" if "bend b = unat (ldb_next_data_offset d)"
    using that bb by (simp add: spaced_def sorted_wrt_append)
  moreover have "bi_offset (fst (hd ?c')) = bi_offset (fst (hd (pre @ [(b, rs)])))"
    by (cases pre) simp_all
  moreover have "log_of ?c' = log_of (pre @ [(b, rs)]) @ [r]" by (simp add: log_of_def)
  moreover have "bend nb \<le> unat (ldb_next_data_offset d')" "0 < n \<Longrightarrow> bend nb < unat (ldb_next_data_offset d')"
    using nx(3) bb by simp_all
  moreover have "\<forall>b' \<in> fst ` set ?c'. unat (ldb_next_data_offset d) \<le> boff b' \<or>
      (\<exists>b'' \<in> fst ` set (pre @ [(b, rs)]). boff b' = boff b'' \<and> bend b' = bend b'')"
    using bb(2) by auto
  ultimately show ?thesis
    using ok g nx(3) fr t' b nb(1) len full by (simp add: logged_def on_disk_def)
qed

text \<open>The rest of \<^verbatim>\<open>AppendLogRecord\<close> after its assertion.\<close>

definition valid_op :: "table_info \<Rightarrow> u32 \<Rightarrow> u32 \<Rightarrow> bool" where
  "valid_op t operation index \<longleftrightarrow>
     operation = OPERATION_CLEAR \<or> (operation = OPERATION_INSERT \<and> index = 0) \<or>
     operation = OPERATION_APPEND \<or> CheckIndex t index"

definition store_record ::
    "table_info \<Rightarrow> u32 \<Rightarrow> u32 \<Rightarrow> byte list option \<Rightarrow> byte list option \<Rightarrow> byte list option \<Rightarrow>
     ldb_block_header_info \<Rightarrow> ldb_block_header_info option \<Rightarrow>
     ldb_log_record_field \<Rightarrow> ldb_log_record_field \<Rightarrow> ldb_log_record_field \<Rightarrow> ldb \<Rightarrow>
     (table_info \<times> ldb) cres" where
  "store_record t operation index k v w old new fk fv fw d =
     (let r = make_log_record t operation index (ldb_last_record_id d) k v w fk fv fw
      in bind_res (PutLogRecord old new r d) (\<lambda>(lastBlock, d).
         Inr (t\<lparr> ti_last_block := lastBlock, ti_records := live_records r (ti_records t) \<rparr>,
              d\<lparr> ldb_total_record_count := live_total operation (ti_records t) (ldb_total_record_count d),
                 ldb_total_log_record_count := ldb_total_log_record_count d + 1 \<rparr>)))"

lemma AppendLogRecord_valid:
  "valid_op t operation index \<Longrightarrow> AppendLogRecord t operation index k v w d =
     bind_res (CreateNewBlockIfNeeded (ti_last_block t) (d\<lparr> ldb_last_record_id := ldb_last_record_id d + 1 \<rparr>))
       (\<lambda>(old, new, d). bind_res (WriteOptional k d) (\<lambda>(fk, d). bind_res (WriteOptional v d) (\<lambda>(fv, d).
        bind_res (WriteOptional w d) (\<lambda>(fw, d). store_record t operation index k v w old new fk fv fw d))))"
  unfolding AppendLogRecord_def valid_op_def store_record_def
  by (simp only: guard_res_simps bind_res_simps Let_def)

abbreviation args_size :: "byte list option \<Rightarrow> byte list option \<Rightarrow> byte list option \<Rightarrow> nat" where
  "args_size k v w \<equiv> opt_size k + opt_size v + opt_size w"

lemma stored_changed:
  assumes "stored lo N F fld x" and "lo' \<le> lo"
    and "\<And>off n. lo \<le> off \<Longrightarrow> file_read G off n = file_read F off n"
  shows "stored lo' N G fld x"
  using assms by (auto simp: stored_def split: option.splits)

lemma AppendLogRecord_same:
  assumes ok: "ldb_ok d" and b: "block_at (disk d) (ti_last_block t) rs"
    and ch: "chain_at (disk d) (pre @ [(ti_last_block t, rs)])"
    and bN: "bend (ti_last_block t) \<le> unat (ldb_next_data_offset d)"
    and valid: "valid_op t operation index" and ne: "k \<noteq> Some []" "v \<noteq> Some []" "w \<noteq> Some []"
    and room: "length (disk d) + args_size k v w + 3 * grow_slack d < 2 ^ 32"
    and notfull: "\<not> CheckNeedForNewBlock (bi_block_header (ti_last_block t))"
  shows "\<exists>fk fv fw t' d' c'. AppendLogRecord t operation index k v w d = Inr (t', d') \<and>
    logged d t (pre @ [(ti_last_block t, rs)])
      (make_log_record t operation index (ldb_last_record_id d + 1) k v w fk fv fw) (args_size k v w) d' t' c' \<and>
    stored (bend (ti_last_block t')) (unat (ldb_next_data_offset d')) (disk d') fk k \<and>
    stored (bend (ti_last_block t')) (unat (ldb_next_data_offset d')) (disk d') fv v \<and>
    stored (bend (ti_last_block t')) (unat (ldb_next_data_offset d')) (disk d') fw w"
proof -
  let ?b = "ti_last_block t" and ?N = "unat (ldb_next_data_offset d)"
  let ?d0 = "d\<lparr> ldb_last_record_id := ldb_last_record_id d + 1 \<rparr>"
  let ?K = "store_record t operation index k v w ?b None"
  have fits: "16 + 48 * (length rs + 1) \<le> bsize ?b"
    using notfull CheckNeedForNewBlock_iff [OF b] by simp
  have ok0: "ldb_ok ?d0" and sl: "grow_slack ?d0 = grow_slack d" "disk ?d0 = disk d"
      "ldb_next_data_offset ?d0 = ldb_next_data_offset d"
    using ok by (simp_all add: ldb_ok_def grow_slack_def)
  obtain fk fv fw f m where f:
    "bind_res (WriteOptional k ?d0) (\<lambda>(fk, d). bind_res (WriteOptional v d) (\<lambda>(fv, d).
       bind_res (WriteOptional w d) (\<lambda>(fw, d). ?K fk fv fw d))) = ?K fk fv fw (moved ?d0 f m)"
    "ldb_ok (moved ?d0 f m)" "unat m = ?N + opt_size k + opt_size v + opt_size w"
    "extends ?N (disk d) (pf_disk f)"
    "stored ?N (unat m) (pf_disk f) fk k" "stored ?N (unat m) (pf_disk f) fv v"
    "stored ?N (unat m) (pf_disk f) fw w"
    "length (pf_disk f) \<le> length (disk d) + opt_size k + opt_size v + opt_size w + 3 * grow_slack d"
    "pf_page_size f = pf_page_size (ldb_file d)"
    by (rule write_fields_ok [OF ok0 _ ne, of ?K]) (use room sl in simp_all)
  let ?r = "make_log_record t operation index (ldb_last_record_id d + 1) k v w fk fv fw"
  have bf: "block_at (disk (moved ?d0 f m)) ?b rs"
    using block_at_extends [OF b f(4) bN] by simp
  obtain g where g: "PutLogRecord ?b None ?r (moved ?d0 f m) =
      Inr (with_record ?b, (moved ?d0 f m)\<lparr> ldb_file := g \<rparr>)"
    "ldb_ok ((moved ?d0 f m)\<lparr> ldb_file := g \<rparr>)" "block_at (pf_disk g) (with_record ?b) (rs @ [?r])"
    "changed_in (boff ?b) (bend ?b) (disk (moved ?d0 f m)) (pf_disk g)"
    "pf_page_size g = pf_page_size (ldb_file (moved ?d0 f m))"
    by (rule PutLogRecord_same [OF f(2) bf fits, of ?r])
  let ?t' = "t\<lparr> ti_last_block := with_record ?b, ti_records := live_records ?r (ti_records t) \<rparr>"
  let ?d' = "((moved ?d0 f m)\<lparr> ldb_file := g \<rparr>)
    \<lparr> ldb_total_record_count := live_total operation (ti_records t) (ldb_total_record_count d),
       ldb_total_log_record_count := ldb_total_log_record_count d + 1 \<rparr>"
  have res: "AppendLogRecord t operation index k v w d = Inr (?t', ?d')"
    using AppendLogRecord_valid [OF valid, of k v w d] f(1) g(1) notfull
    by (simp add: CreateNewBlockIfNeeded_def store_record_def)
  have rd: "file_read (disk ?d') off n = file_read (pf_disk f) off n"
    if "off + n \<le> boff ?b \<or> bend ?b \<le> off" for off n
    using changed_in_read [OF g(4) that] by simp
  have log: "logged d t (pre @ [(?b, rs)]) ?r (args_size k v w) ?d' ?t' (pre @ [(with_record ?b, rs @ [?r])])"
  proof (rule logged_same [OF ch refl notfull])
    show "ldb_ok ?d'" using g(2) by (simp add: ldb_ok_def)
    show "grow_slack ?d' = grow_slack d" using f(9) g(5) by (simp add: grow_slack_def)
    show "length (disk d) \<le> length (disk ?d')"
      using g(4) extends_length [OF f(4)] by (simp add: changed_in_def)
    show "length (disk ?d') \<le> length (disk d) + args_size k v w + 3 * grow_slack d"
      using g(4) f(8) by (simp add: changed_in_def)
    show "file_read (disk ?d') off n = file_read (disk d) off n"
      if "off + n \<le> boff ?b \<or> bend ?b \<le> off" "off + n \<le> ?N" for off n
      using rd [OF that(1)] extends_read [OF f(4) that(2)] by simp
  qed (use bN f(3) g(3) in simp_all)
  have st: "stored (bend (ti_last_block ?t')) (unat (ldb_next_data_offset ?d')) (disk ?d') fld x"
    if "stored ?N (unat m) (pf_disk f) fld x" for fld x
  proof -
    have "stored (bend ?b) (unat m) (pf_disk g) fld x"
      by (rule stored_changed [OF that bN]) (use rd bN in simp)
    then show ?thesis by simp
  qed
  show ?thesis using res log st [OF f(5)] st [OF f(6)] st [OF f(7)] by blast
qed

lemma AppendLogRecord_new:
  assumes ok: "ldb_ok d" and b: "block_at (disk d) (ti_last_block t) rs"
    and ch: "chain_at (disk d) (pre @ [(ti_last_block t, rs)])"
    and bN: "bend (ti_last_block t) \<le> unat (ldb_next_data_offset d)"
    and valid: "valid_op t operation index" and ne: "k \<noteq> Some []" "v \<noteq> Some []" "w \<noteq> Some []"
    and room: "length (disk d) + args_size k v w + bsize (ti_last_block t) + 4 * grow_slack d < 2 ^ 32"
    and full: "CheckNeedForNewBlock (bi_block_header (ti_last_block t))"
  shows "\<exists>fk fv fw t' d' nb. AppendLogRecord t operation index k v w d = Inr (t', d') \<and>
    logged d t (pre @ [(ti_last_block t, rs)])
      (make_log_record t operation index (ldb_last_record_id d + 1) k v w fk fv fw) (args_size k v w) d' t'
      (pre @ [(with_next (bi_offset nb) (ti_last_block t), rs),
        (with_record nb, [make_log_record t operation index (ldb_last_record_id d + 1) k v w fk fv fw])]) \<and>
    bi_offset nb = ldb_next_data_offset d \<and>
    stored (bend (ti_last_block t')) (unat (ldb_next_data_offset d')) (disk d') fk k \<and>
    stored (bend (ti_last_block t')) (unat (ldb_next_data_offset d')) (disk d') fv v \<and>
    stored (bend (ti_last_block t')) (unat (ldb_next_data_offset d')) (disk d') fw w"
proof -
  let ?b = "ti_last_block t" and ?N = "unat (ldb_next_data_offset d)"
  let ?d0 = "d\<lparr> ldb_last_record_id := ldb_last_record_id d + 1 \<rparr>"
  have ok0: "ldb_ok ?d0" and sl: "grow_slack ?d0 = grow_slack d" "disk ?d0 = disk d"
    using ok by (simp_all add: ldb_ok_def grow_slack_def)
  obtain e m1 nb where e: "CreateNewBlockIfNeeded ?b ?d0 =
      Inr (with_next (ldb_next_data_offset d) ?b, Some nb, moved ?d0 e m1)"
    "ldb_ok (moved ?d0 e m1)" "unat m1 = ?N + bsize ?b" "extends ?N (disk d) (pf_disk e)"
    "block_at (pf_disk e) nb []" "bi_offset nb = ldb_next_data_offset d" "bsize nb = bsize ?b"
    "bh_next_block_offset (bi_block_header nb) = 0"
    "length (pf_disk e) \<le> length (disk d) + bsize ?b + grow_slack d"
    "pf_page_size e = pf_page_size (ldb_file d)"
    by (rule CreateNewBlockIfNeeded_new [OF ok0 _ full, of rs]) (use b room sl in simp_all)
  have be: "boff nb = ?N" "bend nb = unat m1" using e(3,6,7) by (simp_all add: boff_def bend_def)
  then have below: "bend ?b \<le> boff nb" using bN by simp
  let ?d1 = "moved ?d0 e m1" and ?old = "with_next (ldb_next_data_offset d) ?b"
  let ?K = "store_record t operation index k v w ?old (Some nb)"
  obtain fk fv fw f m where f:
    "bind_res (WriteOptional k ?d1) (\<lambda>(fk, d). bind_res (WriteOptional v d) (\<lambda>(fv, d).
       bind_res (WriteOptional w d) (\<lambda>(fw, d). ?K fk fv fw d))) = ?K fk fv fw (moved ?d1 f m)"
    "ldb_ok (moved ?d1 f m)" "unat m = unat m1 + opt_size k + opt_size v + opt_size w"
    "extends (unat m1) (pf_disk e) (pf_disk f)"
    "stored (unat m1) (unat m) (pf_disk f) fk k" "stored (unat m1) (unat m) (pf_disk f) fv v"
    "stored (unat m1) (unat m) (pf_disk f) fw w"
    "length (pf_disk f) \<le> length (pf_disk e) + opt_size k + opt_size v + opt_size w + 3 * grow_slack d"
    "pf_page_size f = pf_page_size (ldb_file d)"
    by (rule write_fields_ok [OF e(2) _ ne, of ?K]) (use room sl e(9,10) in simp_all)
  let ?r = "make_log_record t operation index (ldb_last_record_id d + 1) k v w fk fv fw"
  have xf: "extends ?N (disk d) (pf_disk f)" by (rule extends_trans [OF e(4) f(4)]) (simp add: e(3))
  have bf: "block_at (disk (moved ?d1 f m)) ?b rs" "block_at (disk (moved ?d1 f m)) nb []"
    using block_at_extends [OF b xf bN] block_at_extends [OF e(5) f(4)] be by simp_all
  obtain g where g: "PutLogRecord ?old (Some nb) ?r (moved ?d1 f m) =
      Inr (with_record nb, (moved ?d1 f m)\<lparr> ldb_file := g \<rparr>)"
    "ldb_ok ((moved ?d1 f m)\<lparr> ldb_file := g \<rparr>)" "block_at (pf_disk g) (with_record nb) [?r]"
    "block_at (pf_disk g) ?old rs"
    "\<forall>o' n. o' + n \<le> boff ?b \<or> bend ?b \<le> o' \<longrightarrow> o' + n \<le> boff nb \<or> bend nb \<le> o' \<longrightarrow>
       file_read (pf_disk g) o' n = file_read (disk (moved ?d1 f m)) o' n"
    "length (pf_disk g) = length (disk (moved ?d1 f m))"
    "pf_page_size g = pf_page_size (ldb_file (moved ?d1 f m))"
    by (rule PutLogRecord_new [OF f(2) bf below, of "ldb_next_data_offset d" ?r])
  let ?t' = "t\<lparr> ti_last_block := with_record nb, ti_records := live_records ?r (ti_records t) \<rparr>"
  let ?d' = "((moved ?d1 f m)\<lparr> ldb_file := g \<rparr>)
    \<lparr> ldb_total_record_count := live_total operation (ti_records t) (ldb_total_record_count d),
       ldb_total_log_record_count := ldb_total_log_record_count d + 1 \<rparr>"
  have res: "AppendLogRecord t operation index k v w d = Inr (?t', ?d')"
    using AppendLogRecord_valid [OF valid, of k v w d] e(1) f(1) g(1) by (simp add: store_record_def)
  have log: "logged d t (pre @ [(?b, rs)]) ?r (args_size k v w) ?d' ?t'
      (pre @ [(with_next (bi_offset nb) ?b, rs), (with_record nb, [?r])])"
  proof (rule logged_new [OF ch refl full])
    show "ldb_ok ?d'" using g(2) by (simp add: ldb_ok_def)
    show "grow_slack ?d' = grow_slack d" using f(9) g(7) by (simp add: grow_slack_def)
    show "length (disk d) \<le> length (disk ?d')" using g(6) extends_length [OF xf] by simp
    show "length (disk ?d') \<le> length (disk d) + args_size k v w + bsize ?b + 4 * grow_slack d"
      using g(6) f(8) e(9) by simp
    show "file_read (disk ?d') off n = file_read (disk d) off n"
      if "off + n \<le> boff ?b \<or> bend ?b \<le> off" "off + n \<le> ?N" for off n
      using g(5) that be extends_read [OF xf that(2)] by auto
  qed (use bN e(3,6,7,8) f(3) g(3,4) in simp_all)
  have st: "stored (bend (ti_last_block ?t')) (unat (ldb_next_data_offset ?d')) (disk ?d') fld x"
    if "stored (unat m1) (unat m) (pf_disk f) fld x" for fld x
  proof -
    have "stored (bend nb) (unat m) (pf_disk g) fld x"
      by (rule stored_changed [OF that]) (use g(5) bN be e(3) in simp_all)
    then show ?thesis by simp
  qed
  show ?thesis using res log e(6) st [OF f(5)] st [OF f(6)] st [OF f(7)] by blast
qed

lemma AppendLogRecord_ok:
  assumes ok: "ldb_ok d" and disk: "on_disk d t c" and valid: "valid_op t operation index"
    and ne: "k \<noteq> Some []" "v \<noteq> Some []" "w \<noteq> Some []"
    and room: "length (disk d) + args_size k v w + bsize (ti_last_block t) + 4 * grow_slack d < 2 ^ 32"
  obtains fk fv fw t' d' c' where "AppendLogRecord t operation index k v w d = Inr (t', d')"
    and "logged d t c (make_log_record t operation index (ldb_last_record_id d + 1) k v w fk fv fw)
           (args_size k v w) d' t' c'"
    and "stored (bend (ti_last_block t')) (unat (ldb_next_data_offset d')) (disk d') fk k"
    and "stored (bend (ti_last_block t')) (unat (ldb_next_data_offset d')) (disk d') fv v"
    and "stored (bend (ti_last_block t')) (unat (ldb_next_data_offset d')) (disk d') fw w"
proof -
  obtain pre rs where c: "c = pre @ [(ti_last_block t, rs)]" and b: "block_at (disk d) (ti_last_block t) rs"
    by (rule on_disk_obtain [OF disk])
  have bN: "bend (ti_last_block t) \<le> unat (ldb_next_data_offset d)"
    and ch: "chain_at (disk d) (pre @ [(ti_last_block t, rs)])"
    using disk c by (simp_all add: on_disk_def)
  have room3: "length (disk d) + args_size k v w + 3 * grow_slack d < 2 ^ 32" using room by linarith
  show ?thesis
  proof (cases "CheckNeedForNewBlock (bi_block_header (ti_last_block t))")
    case False
    from AppendLogRecord_same [OF ok b ch bN valid ne room3 False] c that show ?thesis by blast
  next
    case True
    from AppendLogRecord_new [OF ok b ch bN valid ne room True] c that show ?thesis by blast
  qed
qed


section \<open>Replaying the log\<close>

definition replay1 :: "ldb_log_record \<Rightarrow> ldb_log_record list \<Rightarrow> ldb_log_record list" where
  "replay1 r records = fst (replay_record r (records, 0))"

lemma replay_record_records: "fst (replay_record r (records, tot)) = replay1 r records"
  by (simp add: replay1_def replay_record_def Let_def)

text \<open>
  Replaying a record does to the records what logging it did, except for an insert at the end,
  which the replay performs twice.
\<close>

lemma replay1_live:
  assumes "lr_operation r = OPERATION_SET \<or> lr_operation r = OPERATION_DELETE \<or>
      lr_operation r = OPERATION_INSERT \<Longrightarrow> unat (lr_record_index r) < length records"
  shows "replay1 r records = live_records r records"
  using assms by (auto simp: replay1_def replay_record_def live_records_def Let_def)

lemma replay1_insert_end:
  assumes "lr_operation r = OPERATION_INSERT" and "unat (lr_record_index r) = length records"
  shows "replay1 r records = records @ [r, r]"
  using assms by (simp add: replay1_def replay_record_def Let_def)

lemma set_replay1:
  "set (replay1 r records) \<subseteq>
     set records \<union> {s. s = r \<and> lr_operation r \<noteq> OPERATION_DELETE \<and> lr_operation r \<noteq> OPERATION_CLEAR}"
  by (auto simp: replay1_def replay_record_def Let_def
      dest: in_set_takeD in_set_dropD set_update_subset_insert [THEN subsetD] split: if_splits)

lemma set_replay:
  "set (fold replay1 rs records) \<subseteq>
     set records \<union> {r \<in> set rs. lr_operation r \<noteq> OPERATION_DELETE \<and> lr_operation r \<noteq> OPERATION_CLEAR}"
proof (induction rs arbitrary: records)
  case (Cons r rs)
  from Cons.IH [of "replay1 r records"] set_replay1 [of r records] show ?case by auto
qed simp

definition loadable :: "ldb_log_record \<Rightarrow> bool" where
  "loadable r \<longleftrightarrow> lr_operation r = OPERATION_DELETE \<or> lr_operation r = OPERATION_CLEAR \<or> last_field_end r \<noteq> 0"

lemma load_record_ok:
  assumes "loadable r"
  shows "\<exists>d'. load_record r (t, d) = Inr (t\<lparr> ti_records := replay1 r (ti_records t) \<rparr>, d') \<and>
           ldb_file d' = ldb_file d \<and> ldb_next_data_offset d \<le> ldb_next_data_offset d' \<and>
           last_field_end r \<le> ldb_next_data_offset d'"
  using assms replay_record_records [of r "ti_records t"]
  by (auto simp: load_record_def loadable_def Let_def case_prod_unfold)

lemma load_records_ok:
  assumes "\<forall>r \<in> set rs. loadable r"
  shows "\<exists>d'. load_records rs (t, d) = Inr (t\<lparr> ti_records := fold replay1 rs (ti_records t) \<rparr>, d') \<and>
           ldb_file d' = ldb_file d \<and> ldb_next_data_offset d \<le> ldb_next_data_offset d' \<and>
           (\<forall>r \<in> set rs. last_field_end r \<le> ldb_next_data_offset d')"
  using assms
proof (induction rs arbitrary: t d)
  case (Cons r rs)
  obtain d1 where d1: "load_record r (t, d) = Inr (t\<lparr> ti_records := replay1 r (ti_records t) \<rparr>, d1)"
    "ldb_file d1 = ldb_file d" "ldb_next_data_offset d \<le> ldb_next_data_offset d1"
    "last_field_end r \<le> ldb_next_data_offset d1" using load_record_ok [of r t d] Cons.prems by auto
  with Cons.IH [of "t\<lparr> ti_records := replay1 r (ti_records t) \<rparr>" d1] Cons.prems show ?case
    by (auto intro: order_trans)
qed simp

text \<open>
  Loading a block, and then the chain.  \<open>covers\<close>: the next free byte of the loaded database is
  behind the blocks and behind the data of their log records.
\<close>

definition covers :: "ldb \<Rightarrow> chain \<Rightarrow> bool" where
  "covers d c \<longleftrightarrow> (\<forall>(b, rs) \<in> set c. bend b \<le> unat (ldb_next_data_offset d) \<and>
     (\<forall>r \<in> set rs. last_field_end r \<le> ldb_next_data_offset d))"

lemma covers_mono: "covers d c \<Longrightarrow> ldb_next_data_offset d \<le> ldb_next_data_offset d' \<Longrightarrow> covers d' c"
  unfolding covers_def word_le_nat_alt by fastforce

lemma LoadBlock_ok:
  assumes coh: "pf_coherent (ldb_file d)" and len: "length (disk d) < 2 ^ 32"
    and b: "block_at (disk d) b rs" and off: "bi_offset (ti_last_block t) = bi_offset b"
    and load: "\<forall>r \<in> set rs. loadable r"
  shows "\<exists>d'. LoadBlock t d =
      Inr (t\<lparr> ti_last_block := b, ti_records := fold replay1 rs (ti_records t) \<rparr>, d') \<and>
      pf_coherent (ldb_file d') \<and> disk d' = disk d \<and>
      ldb_next_data_offset d \<le> ldb_next_data_offset d' \<and> covers d' [(b, rs)]"
proof -
  let ?h = "bi_block_header b"
  have k: "0 < boff b" "bend b \<le> length (disk d)" "64 \<le> bsize b" "16 + 48 * length rs \<le> unat (bh_size ?h)"
    "unat (bh_used_count ?h) = length rs" "file_read (disk d) (boff b) 12 = block_header_bytes ?h"
    "file_read (disk d) (boff b + 12) (48 * length rs) = logs_bytes rs" "bend b = boff b + bsize b"
    using b by (simp_all add: block_at_def bend_def bsize_def)
  have bs: "bsize b = unat (bh_size ?h)" "boff b = unat (bi_offset b)" by (simp_all add: bsize_def boff_def)
  obtain g where g: "ldb_read (bi_offset b) 12 d = (block_header_bytes ?h, d\<lparr> ldb_file := g \<rparr>)"
    "pf_coherent g" "pf_disk g = disk d"
    using ldb_read_ok [OF coh, of "bi_offset b" 12] k bs by auto
  let ?d1 = "d\<lparr> ldb_file := g \<rparr>"
  define d2 where "d2 = (if ldb_next_data_offset ?d1 < bi_offset b + bh_size ?h
    then ?d1\<lparr> ldb_next_data_offset := bi_offset b + bh_size ?h \<rparr> else ?d1)"
  have "unat (bi_offset b + bh_size ?h) = bend b"
    using k len bs by (subst unat_add_u32) simp_all
  then have d2: "ldb_file d2 = g" "ldb_next_data_offset d \<le> ldb_next_data_offset d2"
    "bend b \<le> unat (ldb_next_data_offset d2)"
    by (auto simp: d2_def word_less_nat_alt word_le_nat_alt)
  let ?t = "t\<lparr> ti_last_block := b \<rparr>"
  have beq: "\<lparr> bi_block_header = ?h, bi_offset = bi_offset b \<rparr> = b" by simp
  have load1: "LoadBlock t d = (if bh_used_count ?h = 0 then Inr (?t, d2)
      else let (rs, d) = LoadLogRecords b d2 in load_records rs (?t, d))"
    using g(1) off by (simp add: LoadBlock_def Let_def d2_def beq)
  show ?thesis
  proof (cases "rs = []")
    case True
    then have "bh_used_count ?h = 0" using k(5) by (simp add: unat_eq_zero)
    then show ?thesis using load1 True d2 g by (simp add: covers_def)
  next
    case False
    then have used: "bh_used_count ?h \<noteq> 0" using k(5) by auto
    have w: "unat (bh_used_count ?h * 48) = 48 * length rs" by (rule used_words(1) [OF k(5,4)])
    have o12: "unat (bi_offset b + 12) = boff b + 12" using k len bs by (subst unat_add_u32) simp_all
    obtain e where e: "ldb_read (bi_offset b + 12) (bh_used_count ?h * 48) d2 =
        (logs_bytes rs, d2\<lparr> ldb_file := e \<rparr>)" "pf_coherent e" "pf_disk e = disk d"
      using ldb_read_ok [of d2 "bi_offset b + 12" "bh_used_count ?h * 48"] g d2(1) w o12 k bs by auto
    have "LoadLogRecords b d2 = (rs, d2\<lparr> ldb_file := e \<rparr>)"
      using used e(1) k(5) bytes_log_records_bytes [of rs] by (simp add: LoadLogRecords_def Let_def)
    with load1 used have "LoadBlock t d = load_records rs (?t, d2\<lparr> ldb_file := e \<rparr>)" by simp
    with load_records_ok [OF load, of ?t "d2\<lparr> ldb_file := e \<rparr>"] e(2,3) d2 show ?thesis
      by (auto simp: covers_def word_le_nat_alt)
  qed
qed

lemma linked_Cons:
  assumes "linked (b # b' # bs)"
  shows "linked (b' # bs)" and "bh_next_block_offset (bi_block_header b) = bi_offset b'"
    and "bend b \<le> boff b'"
  using assms by (simp_all add: linked_def)

lemma spaced_Cons:
  assumes "linked (map fst ((b, rs) # (b', rs') # c))"
  shows "spaced ((b, rs) # (b', rs') # c) \<longleftrightarrow> bend b < boff b' \<and> spaced ((b', rs') # c)"
proof -
  have "\<forall>x \<in> set c. bend b' \<le> boff (fst x)" using assms by (simp add: linked_def)
  moreover have "boff b' \<le> bend b'" by (simp add: bend_def)
  ultimately show ?thesis by (fastforce simp: spaced_def)
qed

lemma load_all_blocks_chain:
  assumes "linked (map fst c)" and "\<forall>(b, rs) \<in> set c. block_at F b rs \<and> (\<forall>r \<in> set rs. loadable r)"
    and "length c \<le> fuel" and "pf_coherent (ldb_file d)" and "disk d = F" and "length F < 2 ^ 32"
  shows "if spaced c
    then \<exists>d'. load_all_blocks fuel a (bi_offset (fst (hd c))) t d = Inr (a + of_nat (length c),
           t\<lparr> ti_last_block := fst (last c), ti_records := fold replay1 (log_of c) (ti_records t) \<rparr>, d') \<and>
         pf_coherent (ldb_file d') \<and> disk d' = F \<and> ldb_next_data_offset d \<le> ldb_next_data_offset d' \<and>
         covers d' c
    else load_all_blocks fuel a (bi_offset (fst (hd c))) t d = Inl AssertionFailed"
  using assms
proof (induction c arbitrary: fuel a t d)
  case Nil
  then show ?case by (simp add: linked_def)
next
  case (Cons x c)
  obtain b rs where x: "x = (b, rs)" by (cases x)
  obtain n where n: "fuel = Suc n" "length c \<le> n" using Cons.prems(3) by (cases fuel) auto
  have b: "block_at F b rs" "\<forall>r \<in> set rs. loadable r" using Cons.prems(2) x by auto
  then have off: "bi_offset b \<noteq> 0" "bend b \<le> length F" by (auto simp: block_at_def boff_def)
  let ?t = "t\<lparr> ti_last_block := (ti_last_block t)\<lparr> bi_offset := bi_offset b \<rparr> \<rparr>"
  obtain d1 where d1: "LoadBlock ?t d =
      Inr (?t\<lparr> ti_last_block := b, ti_records := fold replay1 rs (ti_records ?t) \<rparr>, d1)"
    "pf_coherent (ldb_file d1)" "disk d1 = disk d" "ldb_next_data_offset d \<le> ldb_next_data_offset d1"
    "covers d1 [(b, rs)]"
    using LoadBlock_ok [OF Cons.prems(4) _ _ _ b(2), of b ?t] b(1) Cons.prems(5,6) by auto
  let ?t1 = "t\<lparr> ti_last_block := b, ti_records := fold replay1 rs (ti_records t) \<rparr>"
  let ?next = "bh_next_block_offset (bi_block_header b)"
  have step: "load_all_blocks fuel a (bi_offset b) t d =
      bind_res (guard_res (?next = 0 \<or> bi_offset b + bh_size (bi_block_header b) < ?next) AssertionFailed)
        (\<lambda>_. load_all_blocks n (a + 1) ?next ?t1 d1)"
    using off(1) n(1) d1(1) by (simp add: Let_def)
  show ?case
  proof (cases c)
    case Nil
    then have "?next = 0" using Cons.prems(1) x by (simp add: linked_def)
    then have "load_all_blocks n (a + 1) ?next ?t1 d1 = Inr (a + 1, ?t1, d1)" by (cases n) simp_all
    then show ?thesis
      using step d1 x Nil Cons.prems(5) \<open>?next = 0\<close> by (auto simp: spaced_def log_of_def)
  next
    case (Cons y c')
    obtain b' rs' where y: "y = (b', rs')" by (cases y)
    have l: "linked (map fst ((b, rs) # (b', rs') # c'))" using Cons.prems(1) x Cons y by simp
    then have nx: "?next = bi_offset b'" and lc: "linked (map fst c)"
      using linked_Cons [of b b' "map fst c'"] Cons y by simp_all
    have b': "block_at F b' rs'" using Cons.prems(2) Cons y by auto
    then have o': "bi_offset b' \<noteq> 0" by (auto simp: block_at_def boff_def)
    have "unat (bi_offset b + bh_size (bi_block_header b)) = bend b"
      using off(2) Cons.prems(6) by (subst unat_add_u32) (simp_all add: bend_def boff_def bsize_def)
    then have guard: "(?next = 0 \<or> bi_offset b + bh_size (bi_block_header b) < ?next) \<longleftrightarrow> bend b < boff b'"
      using nx o' by (simp add: word_less_nat_alt boff_def)
    have sp: "spaced (x # c) \<longleftrightarrow> bend b < boff b' \<and> spaced c"
      using spaced_Cons [OF l] x Cons y by simp
    have hd: "bi_offset (fst (hd c)) = ?next" using Cons y nx by simp
    have "\<forall>(b, rs) \<in> set c. block_at F b rs \<and> (\<forall>r \<in> set rs. loadable r)"
      using Cons.prems(2) by simp
    from Cons.IH [OF lc this n(2) d1(2), of "a + 1" ?t1] Cons.prems(5,6) d1(3)
    have IH: "if spaced c
      then \<exists>d'. load_all_blocks n (a + 1) ?next ?t1 d1 = Inr (a + 1 + of_nat (length c),
             ?t1\<lparr> ti_last_block := fst (last c), ti_records := fold replay1 (log_of c) (ti_records ?t1) \<rparr>, d') \<and>
           pf_coherent (ldb_file d') \<and> disk d' = F \<and> ldb_next_data_offset d1 \<le> ldb_next_data_offset d' \<and>
           covers d' c
      else load_all_blocks n (a + 1) ?next ?t1 d1 = Inl AssertionFailed"
      unfolding hd by simp
    show ?thesis
    proof (cases "spaced (x # c)")
      case True
      then obtain d' where d': "load_all_blocks n (a + 1) ?next ?t1 d1 = Inr (a + 1 + of_nat (length c),
             ?t1\<lparr> ti_last_block := fst (last c), ti_records := fold replay1 (log_of c) (ti_records ?t1) \<rparr>, d')"
          "pf_coherent (ldb_file d')" "disk d' = F" "ldb_next_data_offset d1 \<le> ldb_next_data_offset d'"
          "covers d' c" using IH sp by auto
      have "covers d' (x # c)"
        using covers_mono [OF d1(5) d'(4)] d'(5) x by (simp add: covers_def)
      moreover have "load_all_blocks fuel a (bi_offset (fst (hd (x # c)))) t d = Inr (a + of_nat (length (x # c)),
          t\<lparr> ti_last_block := fst (last (x # c)), ti_records := fold replay1 (log_of (x # c)) (ti_records t) \<rparr>, d')"
        using step guard True sp d'(1) x \<open>c = y # c'\<close> by (simp add: log_of_def)
      ultimately show ?thesis using True d' order_trans [OF d1(4) d'(4)] by auto
    next
      case False
      then show ?thesis using step guard sp IH x by (cases "bend b < boff b'") auto
    qed
  qed
qed


section \<open>The invariant of a table\<close>

text \<open>A field ends at or before \<open>N\<close> and does not overlap the block.\<close>

definition field_below :: "nat \<Rightarrow> ldb_log_record_field \<Rightarrow> bool" where
  "field_below N f \<longleftrightarrow> unat (lf_data_offset f) + unat (lf_data_size f) \<le> N"

definition clear_of :: "ldb_block_header_info \<Rightarrow> ldb_log_record_field \<Rightarrow> bool" where
  "clear_of b f \<longleftrightarrow> field_below (boff b) f \<or> bend b \<le> unat (lf_data_offset f)"

definition record_fields :: "ldb_log_record \<Rightarrow> ldb_log_record_field set" where
  "record_fields r = {lr_key r, lr_value r, lr_metadata r}"

definition has_data :: "ldb_log_record \<Rightarrow> bool" where
  "has_data r \<longleftrightarrow> (\<exists>f \<in> record_fields r. lf_data_offset f \<noteq> 0)"

definition record_ok :: "nat \<Rightarrow> ldb_block_header_info set \<Rightarrow> ldb_log_record \<Rightarrow> bool" where
  "record_ok N B r \<longleftrightarrow> (\<forall>f \<in> record_fields r. field_below N f \<and> (\<forall>b \<in> B. clear_of b f)) \<and>
     (lr_operation r = OPERATION_DELETE \<or> lr_operation r = OPERATION_CLEAR \<or> has_data r)"

definition table_ok :: "ldb \<Rightarrow> table_info \<Rightarrow> chain \<Rightarrow> bool" where
  "table_ok d t c \<longleftrightarrow> on_disk d t c \<and> ti_records t = fold replay1 (log_of c) [] \<and>
     (\<forall>r \<in> set (log_of c). record_ok (unat (ldb_next_data_offset d)) (fst ` set c) r)"

lemma record_ok_mono:
  assumes "record_ok N B r" and "N \<le> M"
    and "\<forall>b' \<in> B'. N \<le> boff b' \<or> (\<exists>b \<in> B. boff b' = boff b \<and> bend b' = bend b)"
  shows "record_ok M B' r"
proof -
  have "clear_of b' f" if "b' \<in> B'" "f \<in> record_fields r" for b' f
  proof -
    have f: "field_below N f" "\<forall>b \<in> B. clear_of b f" using assms(1) that(2) by (auto simp: record_ok_def)
    from assms(3) that(1) show ?thesis
    proof (elim ballE disjE bexE)
      assume "N \<le> boff b'"
      then show ?thesis using f(1) by (simp add: clear_of_def field_below_def)
    next
      fix b assume "b \<in> B" "boff b' = boff b \<and> bend b' = bend b"
      then show ?thesis using f(2) by (auto simp: clear_of_def)
    qed simp
  qed
  moreover have "field_below M f" if "f \<in> record_fields r" for f
    using assms(1,2) that by (auto simp: record_ok_def field_below_def)
  ultimately show ?thesis using assms(1) by (simp add: record_ok_def)
qed

lemma field_end_below:
  "field_below N f \<Longrightarrow> N < 2 ^ 32 \<Longrightarrow> unat (field_end f) = unat (lf_data_offset f) + unat (lf_data_size f)"
  unfolding field_end_def field_below_def by (rule unat_add_u32) simp

lemma record_ok_loadable:
  assumes "record_ok N B r" and "N < 2 ^ 32"
  shows "loadable r"
proof -
  have e: "unat (field_end f) = unat (lf_data_offset f) + unat (lf_data_size f)" if "f \<in> record_fields r" for f
    using assms that by (auto simp: record_ok_def intro: field_end_below)
  have "0 < unat (last_field_end r)" if "has_data r"
    using that e unfolding has_data_def unat_gt_0 [symmetric] last_field_end_def word_less_nat_alt
    by (auto simp: record_fields_def)
  then show ?thesis using assms(1) by (auto simp: record_ok_def loadable_def)
qed

text \<open>Where a written field is.\<close>

lemma stored_field:
  assumes "stored lo N F f (Some data)" and "N < 2 ^ 32"
  shows "lf_data_size f = of_nat (length data)" and "lf_hash f = DoHash data"
    and "unat (lf_data_size f) = length data" and "lo \<le> unat (lf_data_offset f)"
    and "unat (lf_data_offset f) + length data \<le> N"
    and "file_read F (unat (lf_data_offset f)) (length data) = data"
proof -
  have st: "f = field_of (lf_data_offset f) data" "lo \<le> unat (lf_data_offset f)"
    "unat (lf_data_offset f) + length data \<le> N"
    "file_read F (unat (lf_data_offset f)) (length data) = data"
    using assms(1) by (simp_all add: stored_def)
  show "lf_data_size f = of_nat (length data)"
    using arg_cong [OF st(1), of lf_data_size] by (simp add: field_of_def)
  then show "unat (lf_data_size f) = length data" using st(3) assms(2) by (simp add: unat_of_nat_u32)
  show "lf_hash f = DoHash data" using arg_cong [OF st(1), of lf_hash] by (simp add: field_of_def)
  show "lo \<le> unat (lf_data_offset f)" "unat (lf_data_offset f) + length data \<le> N"
    "file_read F (unat (lf_data_offset f)) (length data) = data" by (rule st)+
qed

lemma stored_below: "stored lo N F f x \<Longrightarrow> N < 2 ^ 32 \<Longrightarrow> field_below N f"
  using stored_field(3,5)
  by (cases x) (auto simp: field_below_def stored_def [of _ _ _ _ None] zero_field_def)

lemma stored_clear: "stored (bend b) N F f x \<Longrightarrow> N < 2 ^ 32 \<Longrightarrow> bend b' \<le> bend b \<Longrightarrow> clear_of b' f"
  by (cases x)
    (auto simp: clear_of_def field_below_def stored_def [of _ _ _ _ None] zero_field_def
      dest: stored_field(4))

lemma stored_nonzero: "stored lo N F f x \<Longrightarrow> 0 < lo \<Longrightarrow> x \<noteq> None \<Longrightarrow> lf_data_offset f \<noteq> 0"
  by (auto simp: stored_def)

text \<open>
  The arguments an operation may have: no empty data, and some data for a new record.  An insert
  goes before an existing record.
\<close>

definition op_args :: "table_info \<Rightarrow> u32 \<Rightarrow> u32 \<Rightarrow> byte list option \<Rightarrow> byte list option \<Rightarrow> byte list option \<Rightarrow> bool" where
  "op_args t operation index k v w \<longleftrightarrow>
     k \<noteq> Some [] \<and> v \<noteq> Some [] \<and> w \<noteq> Some [] \<and>
     (operation = OPERATION_APPEND \<and> \<not> (k = None \<and> v = None \<and> w = None) \<or>
      operation = OPERATION_INSERT \<and> CheckIndex t index \<and> \<not> (k = None \<and> v = None \<and> w = None) \<or>
      operation = OPERATION_SET \<and> CheckIndex t index \<or>
      operation = OPERATION_DELETE \<and> CheckIndex t index \<or>
      operation = OPERATION_CLEAR)"

lemma made_record_ok:
  assumes set: "operation = OPERATION_SET \<Longrightarrow> CheckIndex t index" and N: "N < 2 ^ 32"
    and data: "operation = OPERATION_SET \<or> operation = OPERATION_DELETE \<or> operation = OPERATION_CLEAR \<or>
      \<not> (k = None \<and> v = None \<and> w = None)"
    and recs: "\<forall>r \<in> set (ti_records t). record_ok N B r \<and> has_data r"
    and lo: "0 < bend b" "\<forall>b' \<in> B. bend b' \<le> bend b"
    and st: "stored (bend b) N F fk k" "stored (bend b) N F fv v" "stored (bend b) N F fw w"
  shows "record_ok N B (make_log_record t operation index i k v w fk fv fw)"
proof -
  let ?r = "make_log_record t operation index i k v w fk fv fw"
  let ?ok = "\<lambda>f. field_below N f \<and> (\<forall>b' \<in> B. clear_of b' f)"
  have f: "?ok fk" "?ok fv" "?ok fw"
    using st N lo(2) stored_below stored_clear by blast+
  have nz: "k \<noteq> None \<Longrightarrow> lf_data_offset fk \<noteq> 0" "v \<noteq> None \<Longrightarrow> lf_data_offset fv \<noteq> 0"
    "w \<noteq> None \<Longrightarrow> lf_data_offset fw \<noteq> 0"
    using stored_nonzero [OF st(1) lo(1)] stored_nonzero [OF st(2) lo(1)] stored_nonzero [OF st(3) lo(1)]
    by simp_all
  show ?thesis
  proof (cases "operation = OPERATION_SET")
    case True
    then have "ti_records t ! unat index \<in> set (ti_records t)"
      using set by (simp add: CheckIndex_def)
    then have old: "record_ok N B (ti_records t ! unat index)" "has_data (ti_records t ! unat index)"
      using recs by simp_all
    have "\<forall>g \<in> record_fields ?r. ?ok g"
      using True f old(1) by (auto simp: make_log_record_def record_ok_def record_fields_def Let_def)
    moreover have "has_data ?r"
      using True nz old(2) by (auto simp: make_log_record_def has_data_def record_fields_def Let_def)
    ultimately show ?thesis by (simp add: record_ok_def)
  next
    case False
    then have "\<forall>g \<in> record_fields ?r. ?ok g"
      using f by (auto simp: make_log_record_def record_fields_def Let_def)
    moreover have "lr_operation ?r = OPERATION_DELETE \<or> lr_operation ?r = OPERATION_CLEAR \<or> has_data ?r"
      using False nz data by (auto simp: make_log_record_def has_data_def record_fields_def Let_def)
    ultimately show ?thesis by (simp add: record_ok_def)
  qed
qed

lemma on_disk_bends:
  assumes "on_disk d t c"
  shows "\<forall>b \<in> fst ` set c. bend b \<le> bend (ti_last_block t)" and "0 < bend (ti_last_block t)"
proof -
  obtain pre rs where c: "c = pre @ [(ti_last_block t, rs)]" and b: "block_at (disk d) (ti_last_block t) rs"
    by (rule on_disk_obtain [OF assms])
  show "0 < bend (ti_last_block t)" using b by (simp add: block_at_def bend_def)
  have "\<forall>x \<in> set pre. bend (fst x) \<le> boff (ti_last_block t)"
    using assms c by (simp add: on_disk_def chain_at_def linked_def sorted_wrt_append)
  moreover have "boff (ti_last_block t) \<le> bend (ti_last_block t)" by (simp add: bend_def)
  ultimately show "\<forall>b \<in> fst ` set c. bend b \<le> bend (ti_last_block t)"
    using c by (auto intro: order_trans)
qed

text \<open>The records of the log stay well formed when one is added.\<close>

lemma logged_records_ok:
  assumes tab: "table_ok d t c"
    and l: "logged d t c (make_log_record t operation index i k v w fk fv fw) n d' t' c'"
    and set: "operation = OPERATION_SET \<Longrightarrow> CheckIndex t index"
    and data: "operation = OPERATION_SET \<or> operation = OPERATION_DELETE \<or> operation = OPERATION_CLEAR \<or>
      \<not> (k = None \<and> v = None \<and> w = None)"
    and st: "stored (bend (ti_last_block t')) (unat (ldb_next_data_offset d')) (disk d') fk k"
      "stored (bend (ti_last_block t')) (unat (ldb_next_data_offset d')) (disk d') fv v"
      "stored (bend (ti_last_block t')) (unat (ldb_next_data_offset d')) (disk d') fw w"
  shows "\<forall>r \<in> set (log_of c'). record_ok (unat (ldb_next_data_offset d')) (fst ` set c') r"
proof -
  let ?r = "make_log_record t operation index i k v w fk fv fw"
  let ?N = "unat (ldb_next_data_offset d')" and ?B = "fst ` set c'"
  have rep: "ti_records t = fold replay1 (log_of c) []"
    and rok: "\<forall>r \<in> set (log_of c). record_ok (unat (ldb_next_data_offset d)) (fst ` set c) r"
    using tab by (simp_all add: table_ok_def)
  have mono: "unat (ldb_next_data_offset d) \<le> ?N" and N: "?N < 2 ^ 32"
    and log: "log_of c' = log_of c @ [?r]" and on': "on_disk d' t' c'"
    and blocks: "\<forall>b' \<in> ?B. unat (ldb_next_data_offset d) \<le> boff b' \<or>
        (\<exists>b \<in> fst ` set c. boff b' = boff b \<and> bend b' = bend b)"
    using l unat_u32_less [of "ldb_next_data_offset d'"] by (auto simp: logged_def)
  have rok': "\<forall>r \<in> set (log_of c). record_ok ?N ?B r"
    using rok record_ok_mono [OF _ mono blocks] by blast
  have old: "\<forall>r \<in> set (ti_records t). record_ok ?N ?B r \<and> has_data r"
    using set_replay [of "log_of c" "[]"] rok' unfolding rep by (auto simp: record_ok_def)
  have "record_ok ?N ?B ?r"
    by (rule made_record_ok [OF set N data old on_disk_bends(2,1) [OF on'] st])
  with log rok' show ?thesis by simp
qed

text \<open>Every logged operation keeps the invariant.\<close>

lemma table_ok_append:
  assumes ok: "ldb_ok d" and tab: "table_ok d t c" and args: "op_args t operation index k v w"
    and room: "length (disk d) + args_size k v w + bsize (ti_last_block t) + 4 * grow_slack d < 2 ^ 32"
  obtains fk fv fw t' d' c' where "AppendLogRecord t operation index k v w d = Inr (t', d')"
    and "logged d t c (make_log_record t operation index (ldb_last_record_id d + 1) k v w fk fv fw)
           (args_size k v w) d' t' c'"
    and "table_ok d' t' c'"
    and "stored (bend (ti_last_block t')) (unat (ldb_next_data_offset d')) (disk d') fk k"
    and "stored (bend (ti_last_block t')) (unat (ldb_next_data_offset d')) (disk d') fv v"
    and "stored (bend (ti_last_block t')) (unat (ldb_next_data_offset d')) (disk d') fw w"
proof -
  have on: "on_disk d t c" and rep: "ti_records t = fold replay1 (log_of c) []"
    using tab by (simp_all add: table_ok_def)
  have valid: "valid_op t operation index" and ne: "k \<noteq> Some []" "v \<noteq> Some []" "w \<noteq> Some []"
    using args by (auto simp: op_args_def valid_op_def)
  obtain fk fv fw t' d' c' where a: "AppendLogRecord t operation index k v w d = Inr (t', d')"
    and l: "logged d t c (make_log_record t operation index (ldb_last_record_id d + 1) k v w fk fv fw)
           (args_size k v w) d' t' c'"
    and st: "stored (bend (ti_last_block t')) (unat (ldb_next_data_offset d')) (disk d') fk k"
      "stored (bend (ti_last_block t')) (unat (ldb_next_data_offset d')) (disk d') fv v"
      "stored (bend (ti_last_block t')) (unat (ldb_next_data_offset d')) (disk d') fw w"
    by (rule AppendLogRecord_ok [OF ok on valid ne room])
  let ?r = "make_log_record t operation index (ldb_last_record_id d + 1) k v w fk fv fw"
  have "replay1 ?r (ti_records t) = live_records ?r (ti_records t)"
    by (rule replay1_live) (use args in \<open>auto simp: make_log_record_def op_args_def CheckIndex_def Let_def\<close>)
  then have "ti_records t' = fold replay1 (log_of c') []" and "on_disk d' t' c'"
    using l rep by (simp_all add: logged_def)
  moreover have "\<forall>r \<in> set (log_of c'). record_ok (unat (ldb_next_data_offset d')) (fst ` set c') r"
    by (rule logged_records_ok [OF tab l _ _ st]) (use args in \<open>auto simp: op_args_def\<close>)
  ultimately have "table_ok d' t' c'" by (simp add: table_ok_def)
  with a l st show ?thesis by (rule_tac that)
qed

text \<open>A chain has fewer blocks than the file has bytes.\<close>

lemma chain_length:
  assumes "chain_at F c"
  shows "length c \<le> length F"
proof -
  have len: "length bs \<le> bend (last bs)"
    if "sorted_wrt (\<lambda>b b'. bend b \<le> boff b') bs" "\<forall>b \<in> set bs. 64 \<le> bsize b" "bs \<noteq> []" for bs
    using that
  proof (induction bs rule: rev_induct)
    case (snoc b bs)
    show ?case
    proof (cases "bs = []")
      case False
      then have "length bs \<le> bend (last bs)" "bend (last bs) \<le> boff b"
        using snoc by (simp_all add: sorted_wrt_append)
      then show ?thesis using snoc.prems(2) by (simp add: bend_def)
    qed (use snoc.prems(2) in \<open>simp add: bend_def\<close>)
  qed simp
  have c: "c \<noteq> []" "sorted_wrt (\<lambda>b b'. bend b \<le> boff b') (map fst c)"
    using assms by (simp_all add: chain_at_def linked_def)
  have b: "\<forall>b \<in> set (map fst c). 64 \<le> bsize b \<and> bend b \<le> length F"
    using assms by (auto simp: chain_at_def block_at_def)
  have "length (map fst c) \<le> bend (last (map fst c))" by (rule len [OF c(2)]) (use b c(1) in auto)
  moreover have "bend (last (map fst c)) \<le> length F" using b c(1) last_in_set [of "map fst c"] by blast
  ultimately show ?thesis by simp
qed

end
