(* ===== verification/LogTable.thy ===== *)
theory LogTable
  imports LogDisk
begin

text \<open>
  The operations of a table of the log database against what they promise: a table is a list of
  key, value and metadata, kept in the file, and loading the table gives the list back.  The
  locale \<open>persistent\<close> is that promise for one operation and what follows for a sequence; the
  tables are its interpretation.
\<close>

section \<open>Sequences of operations\<close>

fun run_all :: "('o \<Rightarrow> 's \<Rightarrow> 'e + 's) \<Rightarrow> 'o list \<Rightarrow> 's \<Rightarrow> 'e + 's" where
  "run_all run [] s = Inr s"
| "run_all run (op # ops) s = bind_res (run op s) (run_all run ops)"

fun all_allowed :: "('o \<Rightarrow> 's \<Rightarrow> 'e + 's) \<Rightarrow> ('o \<Rightarrow> 's \<Rightarrow> bool) \<Rightarrow> 'o list \<Rightarrow> 's \<Rightarrow> bool" where
  "all_allowed run allowed [] s = True"
| "all_allowed run allowed (op # ops) s =
     (allowed op s \<and> (case run op s of Inl e \<Rightarrow> False | Inr s' \<Rightarrow> all_allowed run allowed ops s'))"

locale persistent =
  fixes run :: "'o \<Rightarrow> 's \<Rightarrow> 'e + 's"
    and allowed :: "'o \<Rightarrow> 's \<Rightarrow> bool"
    and content :: "'s \<Rightarrow> 'c"
    and spec :: "'o \<Rightarrow> 'c \<Rightarrow> 'c"
    and inv :: "'s \<Rightarrow> bool"
    and load :: "'s \<Rightarrow> 'e + 's"
  assumes run_refines: "inv s \<Longrightarrow> allowed op s \<Longrightarrow>
      \<exists>s'. run op s = Inr s' \<and> inv s' \<and> content s' = spec op (content s)"
    and load_content: "inv s \<Longrightarrow> \<exists>s'. load s = Inr s' \<and> content s' = content s"
begin

lemma run_all_refines:
  assumes "inv s" and "all_allowed run allowed ops s"
  shows "\<exists>s'. run_all run ops s = Inr s' \<and> inv s' \<and> content s' = fold spec ops (content s)"
  using assms
proof (induction ops arbitrary: s)
  case (Cons op ops)
  then have "allowed op s" by simp
  with run_refines [OF Cons.prems(1)] obtain s' where
    s': "run op s = Inr s'" "inv s'" "content s' = spec op (content s)" by blast
  with Cons.prems(2) have "all_allowed run allowed ops s'" by simp
  from Cons.IH [OF s'(2) this] s' show ?case by simp
qed simp

text \<open>What was written is what a later load finds.\<close>

lemma load_after_run:
  assumes "inv s" and "all_allowed run allowed ops s"
  shows "\<exists>s' s''. run_all run ops s = Inr s' \<and> load s' = Inr s'' \<and> content s'' = fold spec ops (content s)"
  using run_all_refines [OF assms] load_content by metis

end


section \<open>The contents of a table\<close>

type_synonym cell = "byte list \<times> byte list \<times> byte list"

definition fbytes :: "byte list \<Rightarrow> ldb_log_record_field \<Rightarrow> byte list" where
  "fbytes F f = file_read F (unat (lf_data_offset f)) (unat (lf_data_size f))"

definition cell_of :: "byte list \<Rightarrow> ldb_log_record \<Rightarrow> cell" where
  "cell_of F r = (fbytes F (lr_key r), fbytes F (lr_value r), fbytes F (lr_metadata r))"

definition table_content :: "table_info \<times> ldb \<Rightarrow> cell list" where
  "table_content = (\<lambda>(t, d). map (cell_of (disk d)) (ti_records t))"

text \<open>The calls a client makes on a table.\<close>

datatype table_op =
    TAppend "byte list option" "byte list option" "byte list option"
  | TSet u32 "byte list option" "byte list option" "byte list option"
  | TInsert u32 "byte list option" "byte list option" "byte list option"
  | TDelete u32
  | TClear

definition run_op :: "table_op \<Rightarrow> table_info \<times> ldb \<Rightarrow> (table_info \<times> ldb) cres" where
  "run_op op = (\<lambda>(t, d).
     case op of
       TAppend k v w \<Rightarrow> bind_res (LdbAppend t k v w d) (\<lambda>(_, s). Inr s)
     | TSet i k v w \<Rightarrow> bind_res (SetByIndex t i k v w d) (\<lambda>(_, s). Inr s)
     | TInsert i k v w \<Rightarrow> bind_res (InsertByIndex t i k v w d) (\<lambda>(_, s). Inr s)
     | TDelete i \<Rightarrow> bind_res (DeleteByIndex t i d) (\<lambda>(_, s). Inr s)
     | TClear \<Rightarrow> ClearAllRecords t d)"

definition opt_bytes :: "byte list option \<Rightarrow> byte list" where
  "opt_bytes x = (case x of None \<Rightarrow> [] | Some bs \<Rightarrow> bs)"

definition opt_else :: "byte list option \<Rightarrow> byte list \<Rightarrow> byte list" where
  "opt_else x old = (case x of None \<Rightarrow> old | Some bs \<Rightarrow> bs)"

definition spec_op :: "table_op \<Rightarrow> cell list \<Rightarrow> cell list" where
  "spec_op op cells =
     (case op of
        TAppend k v w \<Rightarrow> cells @ [(opt_bytes k, opt_bytes v, opt_bytes w)]
      | TSet i k v w \<Rightarrow>
          (if unat i < length cells
           then let (a, b, c) = cells ! unat i in cells[unat i := (opt_else k a, opt_else v b, opt_else w c)]
           else cells)
      | TInsert i k v w \<Rightarrow>
          (if unat i < length cells
           then take (unat i) cells @ (opt_bytes k, opt_bytes v, opt_bytes w) # drop (unat i) cells
           else cells)
      | TDelete i \<Rightarrow>
          (if unat i < length cells then take (unat i) cells @ drop (Suc (unat i)) cells else cells)
      | TClear \<Rightarrow> [])"

text \<open>
  What is asked of a call: data that is not empty, some data for a new record, an insert not into
  an empty table, and room in the file (4 GB).  Indexes may be out of range.
\<close>

fun op_data :: "table_op \<Rightarrow> byte list option list" where
  "op_data (TAppend k v w) = [k, v, w]"
| "op_data (TSet i k v w) = [k, v, w]"
| "op_data (TInsert i k v w) = [k, v, w]"
| "op_data (TDelete i) = [None, None, None]"
| "op_data TClear = [None, None, None]"

definition op_size :: "table_op \<Rightarrow> nat" where
  "op_size op = sum_list (map opt_size (op_data op))"

fun op_creates :: "table_op \<Rightarrow> bool" where
  "op_creates (TAppend k v w) = True"
| "op_creates (TInsert i k v w) = True"
| "op_creates op = False"

definition op_allowed :: "table_op \<Rightarrow> table_info \<times> ldb \<Rightarrow> bool" where
  "op_allowed op = (\<lambda>(t, d).
     Some [] \<notin> set (op_data op) \<and> (op_creates op \<longrightarrow> 0 < op_size op) \<and>
     (case op of TInsert i k v w \<Rightarrow> ti_records t \<noteq> [] | _ \<Rightarrow> True) \<and>
     length (disk d) + op_size op + bsize (ti_last_block t) + 4 * grow_slack d < 2 ^ 32)"

lemma bind_res_Inr [simp]: "bind_res m (\<lambda>(t, d). Inr (t, d)) = m"
  by (cases m) simp_all

lemma bind_res_forget [simp]:
  "bind_res (bind_res m (\<lambda>(t, d). Inr (index, t, d))) (\<lambda>(_, s). Inr s) = m"
  by (cases m) auto

lemma opt_size_eq_0: "x \<noteq> Some [] \<Longrightarrow> opt_size x = 0 \<longleftrightarrow> x = None"
  by (auto simp: opt_size_def split: option.splits)

text \<open>The log operation of a call and its index.\<close>

fun op_code :: "table_op \<Rightarrow> table_info \<Rightarrow> u32 \<times> u32" where
  "op_code (TAppend k v w) t = (OPERATION_APPEND, of_nat (length (ti_records t)))"
| "op_code (TSet i k v w) t = (OPERATION_SET, i)"
| "op_code (TInsert i k v w) t = (OPERATION_INSERT, i)"
| "op_code (TDelete i) t = (OPERATION_DELETE, i)"
| "op_code TClear t = (OPERATION_CLEAR, 0)"

definition out_of_range :: "table_op \<Rightarrow> nat \<Rightarrow> bool" where
  "out_of_range op n =
     (case op of TSet i _ _ _ \<Rightarrow> n \<le> unat i | TInsert i _ _ _ \<Rightarrow> n \<le> unat i | TDelete i \<Rightarrow> n \<le> unat i
      | _ \<Rightarrow> False)"

lemma run_op_out_of_range:
  assumes "op_allowed op (t, d)" and "out_of_range op (length (ti_records t))"
  shows "run_op op (t, d) = Inr (t, d)"
    and "length cells = length (ti_records t) \<Longrightarrow> spec_op op cells = cells"
proof -
  show "run_op op (t, d) = Inr (t, d)"
  proof (cases op)
    case (TInsert i k v w)
    then have "ti_records t \<noteq> []" "length (ti_records t) \<le> unat i"
      using assms by (simp_all add: op_allowed_def out_of_range_def)
    then have "i \<noteq> 0 \<and> \<not> CheckIndex t i" by (auto simp: CheckIndex_def)
    then show ?thesis using TInsert by (simp add: run_op_def InsertByIndex_def)
  qed (use assms(2) in \<open>simp_all add: run_op_def out_of_range_def SetByIndex_def DeleteByIndex_def CheckIndex_def\<close>)
  show "spec_op op cells = cells" if "length cells = length (ti_records t)"
    using assms(2) that by (cases op) (auto simp: spec_op_def out_of_range_def)
qed

lemma run_op_logs:
  assumes "op_allowed op (t, d)" and "\<not> out_of_range op (length (ti_records t))"
    and "op_code op t = (code, i)" and "op_data op = [k, v, w]"
  shows "op_args t code i k v w" and "run_op op (t, d) = AppendLogRecord t code i k v w d"
proof -
  have ne: "k \<noteq> Some []" "v \<noteq> Some []" "w \<noteq> Some []"
    and data: "op_creates op \<longrightarrow> \<not> (k = None \<and> v = None \<and> w = None)"
    using assms(1,4) by (auto simp: op_allowed_def op_size_def opt_size_def)
  show "op_args t code i k v w"
    using assms(2,3) ne data by (cases op) (auto simp: op_args_def out_of_range_def CheckIndex_def)
  show "run_op op (t, d) = AppendLogRecord t code i k v w d"
    using assms(2,3,4)
    by (cases op) (auto simp: run_op_def out_of_range_def CheckIndex_def LdbAppend_def SetByIndex_def
        InsertByIndex_def DeleteByIndex_def ClearAllRecords_def)
qed

text \<open>The contents after a record is logged.\<close>

lemma fbytes_logged:
  assumes l: "logged d t c r n d' t' c'" and f: "clear_of (ti_last_block t) f"
    "field_below (unat (ldb_next_data_offset d)) f"
  shows "fbytes (disk d') f = fbytes (disk d) f"
  using l f by (auto simp: logged_def fbytes_def clear_of_def field_below_def)

lemma fbytes_stored: "stored lo N F f x \<Longrightarrow> N < 2 ^ 32 \<Longrightarrow> fbytes F f = opt_bytes x"
  using stored_field(3,6)
  by (cases x) (auto simp: fbytes_def opt_bytes_def stored_def [of _ _ _ _ None] zero_field_def file_read_def)

lemma make_log_record_simps [simp]:
  "lr_operation (make_log_record t operation i ident k v w fk fv fw) = operation"
  "lr_record_index (make_log_record t operation i ident k v w fk fv fw) = i"
  by (simp_all add: make_log_record_def Let_def)

lemma live_content:
  assumes old: "\<forall>r \<in> set records. cell_of G r = cell_of F r"
    and new: "cell_of G (make_log_record t code i ident k v w fk fv fw) =
      (if code = OPERATION_SET
       then (opt_else k (fst (cell_of F (records ! unat i))), opt_else v (fst (snd (cell_of F (records ! unat i)))),
             opt_else w (snd (snd (cell_of F (records ! unat i)))))
       else (opt_bytes k, opt_bytes v, opt_bytes w))"
    and op: "op_code op t = (code, i)" "op_data op = [k, v, w]"
    and range: "\<not> out_of_range op (length records)"
  shows "map (cell_of G) (live_records (make_log_record t code i ident k v w fk fv fw) records) =
         spec_op op (map (cell_of F) records)"
proof -
  have m: "map (cell_of G) records = map (cell_of F) records" using old by simp
  show ?thesis
    using old new op range
    by (cases op) (auto simp: m live_records_def spec_op_def out_of_range_def map_update take_map drop_map
        case_prod_unfold Let_def dest: in_set_takeD in_set_dropD)
qed

lemma table_ok_fields:
  assumes tab: "table_ok d t c" and r: "r \<in> set (ti_records t)" and f: "f \<in> record_fields r"
  shows "clear_of (ti_last_block t) f" and "field_below (unat (ldb_next_data_offset d)) f"
proof -
  have on: "on_disk d t c" and "r \<in> set (log_of c)"
    using tab r set_replay [of "log_of c" "[]"] by (auto simp: table_ok_def)
  then have ok: "record_ok (unat (ldb_next_data_offset d)) (fst ` set c) r" using tab by (simp add: table_ok_def)
  obtain pre rs where "c = pre @ [(ti_last_block t, rs)]" by (rule on_disk_obtain [OF on])
  then have "ti_last_block t \<in> fst ` set c" by simp
  then show "clear_of (ti_last_block t) f" "field_below (unat (ldb_next_data_offset d)) f"
    using ok f unfolding record_ok_def by blast+
qed

lemma cell_of_made:
  assumes "fbytes G fk = opt_bytes k" and "fbytes G fv = opt_bytes v" and "fbytes G fw = opt_bytes w"
    and "code = OPERATION_SET \<Longrightarrow> cell_of G (ti_records t ! unat i) = cell_of F (ti_records t ! unat i)"
  shows "cell_of G (make_log_record t code i ident k v w fk fv fw) =
      (if code = OPERATION_SET
       then (opt_else k (fst (cell_of F (ti_records t ! unat i))),
             opt_else v (fst (snd (cell_of F (ti_records t ! unat i)))),
             opt_else w (snd (snd (cell_of F (ti_records t ! unat i)))))
       else (opt_bytes k, opt_bytes v, opt_bytes w))"
proof -
  have "opt_bytes x = opt_else x old" if "x \<noteq> None" for x old
    using that by (auto simp: opt_bytes_def opt_else_def)
  then show ?thesis
    using assms by (auto simp: cell_of_def make_log_record_def Let_def opt_else_def split: option.splits)
qed

text \<open>The next block of the table will not start where the last one ends.\<close>

definition keeps_apart :: "table_info \<Rightarrow> ldb \<Rightarrow> bool" where
  "keeps_apart t d \<longleftrightarrow> bend (ti_last_block t) < unat (ldb_next_data_offset d) \<or>
     \<not> CheckNeedForNewBlock (bi_block_header (ti_last_block t))"

lemma run_op_ok:
  assumes ok: "ldb_ok d" and tab: "table_ok d t c" and al: "op_allowed op (t, d)"
  obtains t' d' c' where "run_op op (t, d) = Inr (t', d')" and "ldb_ok d'" and "table_ok d' t' c'"
    and "table_content (t', d') = spec_op op (table_content (t, d))"
    and "bi_offset (fst (hd c')) = bi_offset (fst (hd c))"
    and "keeps_apart t d \<and> spaced c \<longrightarrow> spaced c'"
    and "keeps_apart t d \<and> (0 < op_size op \<or> bend (ti_last_block t) < unat (ldb_next_data_offset d) \<and>
        \<not> CheckNeedForNewBlock (bi_block_header (ti_last_block t))) \<longrightarrow> keeps_apart t' d'"
    and "\<not> out_of_range op (length (ti_records t)) \<and> \<not> keeps_apart t d \<longrightarrow> \<not> spaced c'"
    and "t' = t \<and> d' = d \<and> c' = c \<or> (\<exists>r n. logged d t c r n d' t' c')"
proof (cases "out_of_range op (length (ti_records t))")
  case True
  show ?thesis
    by (rule that [of t d c])
      (use run_op_out_of_range [OF al True] ok tab True in \<open>simp_all add: table_content_def\<close>)
next
  case False
  obtain code i where code: "op_code op t = (code, i)" by (cases "op_code op t")
  obtain k v w where kvw: "op_data op = [k, v, w]" by (cases op) auto
  note run = run_op_logs [OF al False code kvw]
  have sz: "op_size op = args_size k v w" using kvw by (simp add: op_size_def)
  have room: "length (disk d) + args_size k v w + bsize (ti_last_block t) + 4 * grow_slack d < 2 ^ 32"
    using al sz by (simp add: op_allowed_def)
  obtain fk fv fw t' d' c' where a: "AppendLogRecord t code i k v w d = Inr (t', d')"
    and l: "logged d t c (make_log_record t code i (ldb_last_record_id d + 1) k v w fk fv fw)
           (args_size k v w) d' t' c'" and tab': "table_ok d' t' c'"
    and st: "stored (bend (ti_last_block t')) (unat (ldb_next_data_offset d')) (disk d') fk k"
      "stored (bend (ti_last_block t')) (unat (ldb_next_data_offset d')) (disk d') fv v"
      "stored (bend (ti_last_block t')) (unat (ldb_next_data_offset d')) (disk d') fw w"
    by (rule table_ok_append [OF ok tab run(1) room])
  let ?r = "make_log_record t code i (ldb_last_record_id d + 1) k v w fk fv fw"
  have same: "fbytes (disk d') f = fbytes (disk d) f" if "r \<in> set (ti_records t)" "f \<in> record_fields r" for r f
    by (rule fbytes_logged [OF l]) (use table_ok_fields [OF tab that] in simp_all)
  have cells: "\<forall>r \<in> set (ti_records t). cell_of (disk d') r = cell_of (disk d) r"
    using same by (auto simp: cell_of_def record_fields_def)
  have N: "unat (ldb_next_data_offset d') < 2 ^ 32"
    using unat_u32_less [of "ldb_next_data_offset d'"] by simp
  note new = fbytes_stored [OF st(1) N] fbytes_stored [OF st(2) N] fbytes_stored [OF st(3) N]
  have "cell_of (disk d') (ti_records t ! unat i) = cell_of (disk d) (ti_records t ! unat i)"
    if "code = OPERATION_SET" using cells run(1) that by (auto simp: op_args_def CheckIndex_def)
  note made = cell_of_made [OF new this]
  have content: "table_content (t', d') = spec_op op (table_content (t, d))"
    using live_content [OF cells made code kvw False] l by (simp add: table_content_def logged_def)
  have "bend (ti_last_block t) \<le> unat (ldb_next_data_offset d)"
    using tab by (simp add: table_ok_def on_disk_def)
  moreover have "\<exists>r n. logged d t c r n d' t' c'" using l by blast
  ultimately show ?thesis
    by (intro that [of t' d' c'])
      (use run(2) a l tab' content sz in \<open>auto simp: logged_def keeps_apart_def\<close>)
qed


section \<open>Loading a table again\<close>

text \<open>
  A new database object on the bytes of the file, reading with the large pages of \<^verbatim>\<open>LoadFile\<close>, and
  the table as \<^verbatim>\<open>LoadTables\<close> sets it up before the blocks are loaded: only the offset of the first
  block is known.  A file has more bytes than blocks, so its length bounds the walk.
\<close>

definition reopened :: "byte \<Rightarrow> byte list \<Rightarrow> ldb" where
  "reopened junk F = (Ldb_new junk)\<lparr> ldb_file := pf_SetPageSize (1024 * 1024 * 4) (PagedFile_new junk F) \<rparr>"

definition table_handle :: "byte list \<Rightarrow> u32 \<Rightarrow> table_info" where
  "table_handle name first =
     \<lparr> ti_name = name, ti_last_block = empty_block_info\<lparr> bi_offset := first \<rparr>, ti_records = [] \<rparr>"

definition reload :: "byte \<Rightarrow> u32 \<Rightarrow> table_info \<times> ldb \<Rightarrow> (table_info \<times> ldb) cres" where
  "reload junk first = (\<lambda>(t, d).
     bind_res (LoadAllBlocks (length (disk d)) (table_handle (ti_name t) first) (reopened junk (disk d)))
       (\<lambda>(_, s). Inr s))"

lemma reopened_ok:
  "length F < 2 ^ 32 \<Longrightarrow> pf_coherent (ldb_file (reopened junk F))" "disk (reopened junk F) = F"
  by (simp_all add: reopened_def pf_SetPageSize_def PagedFile_new_def pf_FreeCache_def pf_coherent_def)

lemma table_ok_loadable:
  assumes ok: "ldb_ok d" and tab: "table_ok d t c"
  shows "\<forall>(b, rs) \<in> set c. block_at (disk d) b rs \<and> (\<forall>r \<in> set rs. loadable r)"
    and "bi_offset (fst (hd c)) \<noteq> 0"
proof -
  have ch: "chain_at (disk d) c"
    and rok: "\<forall>r \<in> set (log_of c). record_ok (unat (ldb_next_data_offset d)) (fst ` set c) r"
    using tab by (simp_all add: table_ok_def on_disk_def)
  show "\<forall>(b, rs) \<in> set c. block_at (disk d) b rs \<and> (\<forall>r \<in> set rs. loadable r)"
    using ch rok record_ok_loadable unat_u32_less [of "ldb_next_data_offset d"]
    by (fastforce simp: chain_at_def log_of_def)
  have "c \<noteq> []" using ch by (auto simp: chain_at_def linked_def)
  then have "hd c \<in> set c" by simp
  then have "block_at (disk d) (fst (hd c)) (snd (hd c))" using ch by (auto simp: chain_at_def)
  then show "bi_offset (fst (hd c)) \<noteq> 0" by (auto simp: block_at_def boff_def)
qed

lemma reload_ok:
  assumes ok: "ldb_ok d" and tab: "table_ok d t c"
  shows "if spaced c
    then \<exists>d'. reload junk (bi_offset (fst (hd c))) (t, d) = Inr (t, d') \<and> disk d' = disk d \<and> covers d' c
    else reload junk (bi_offset (fst (hd c))) (t, d) = Inl AssertionFailed"
proof -
  let ?d = "reopened junk (disk d)" and ?first = "bi_offset (fst (hd c))"
  have ch: "chain_at (disk d) c" and last: "fst (last c) = ti_last_block t"
    and rep: "ti_records t = fold replay1 (log_of c) []"
    using tab by (simp_all add: table_ok_def on_disk_def)
  have len: "length (disk d) < 2 ^ 32" using ok by (simp add: ldb_ok_def)
  note ld = table_ok_loadable(1) [OF ok tab] and ne = table_ok_loadable(2) [OF ok tab]
  note L = load_all_blocks_chain [OF _ ld chain_length [OF ch] reopened_ok(1) [OF len] reopened_ok(2) len,
      of 0 "table_handle (ti_name t) ?first" junk]
  have t: "(table_handle (ti_name t) ?first)\<lparr> ti_last_block := fst (last c),
      ti_records := fold replay1 (log_of c) [] \<rparr> = t"
    using last rep by (simp add: table_handle_def)
  show ?thesis
    using L ch ne t by (auto simp: reload_def LoadAllBlocks_def table_handle_def chain_at_def empty_block_info_def)
qed

text \<open>The invariant under which every call is refined and a load gives the table back.\<close>

definition table_inv :: "u32 \<Rightarrow> table_info \<times> ldb \<Rightarrow> bool" where
  "table_inv first = (\<lambda>(t, d). \<exists>c. ldb_ok d \<and> table_ok d t c \<and> spaced c \<and> keeps_apart t d \<and>
     bi_offset (fst (hd c)) = first)"

definition call_allowed :: "table_op \<Rightarrow> table_info \<times> ldb \<Rightarrow> bool" where
  "call_allowed op = (\<lambda>(t, d). op_allowed op (t, d) \<and>
     (0 < op_size op \<or> bend (ti_last_block t) < unat (ldb_next_data_offset d) \<and>
        \<not> CheckNeedForNewBlock (bi_block_header (ti_last_block t))))"

interpretation lt: persistent run_op call_allowed table_content spec_op "table_inv first" "reload junk first"
  for first junk
proof (unfold_locales, goal_cases)
  case (1 s op)
  obtain t d where s: "s = (t, d)" by (cases s)
  with 1 obtain c where c: "ldb_ok d" "table_ok d t c" "spaced c" "keeps_apart t d"
    "bi_offset (fst (hd c)) = first" by (auto simp: table_inv_def)
  have al: "op_allowed op (t, d)" and data: "0 < op_size op \<or>
      bend (ti_last_block t) < unat (ldb_next_data_offset d) \<and>
      \<not> CheckNeedForNewBlock (bi_block_header (ti_last_block t))"
    using 1(2) s by (simp_all add: call_allowed_def)
  obtain t' d' c' where r: "run_op op (t, d) = Inr (t', d')" "ldb_ok d'" "table_ok d' t' c'"
    "table_content (t', d') = spec_op op (table_content (t, d))"
    "bi_offset (fst (hd c')) = bi_offset (fst (hd c))"
    "keeps_apart t d \<and> spaced c \<longrightarrow> spaced c'"
    "keeps_apart t d \<and> (0 < op_size op \<or> bend (ti_last_block t) < unat (ldb_next_data_offset d) \<and>
        \<not> CheckNeedForNewBlock (bi_block_header (ti_last_block t))) \<longrightarrow> keeps_apart t' d'"
    by (rule run_op_ok [OF c(1,2) al])
  have "table_inv first (t', d')"
    using r(2,3,5,6,7) c(3,4,5) data unfolding table_inv_def by auto
  then show ?case using r(1,4) s by simp
next
  case (2 s)
  obtain t d where s: "s = (t, d)" by (cases s)
  with 2 obtain c where c: "ldb_ok d" "table_ok d t c" "spaced c" "bi_offset (fst (hd c)) = first"
    by (auto simp: table_inv_def)
  from reload_ok [OF c(1,2), of junk] c(3,4) s show ?case by (auto simp: table_content_def)
qed


section \<open>Reading and searching\<close>

text \<open>Reading changes nothing but the page cache.\<close>

definition same_db :: "ldb \<Rightarrow> ldb \<Rightarrow> bool" where
  "same_db d d' \<longleftrightarrow> (\<exists>g. d' = d\<lparr> ldb_file := g \<rparr> \<and> pf_coherent g \<and> same_file (ldb_file d) g)"

lemma same_db_refl: "pf_coherent (ldb_file d) \<Longrightarrow> same_db d d"
  unfolding same_db_def same_file_def by (intro exI [of _ "ldb_file d"]) simp

lemma same_db_disk: "same_db d d' \<Longrightarrow> disk d' = disk d"
  by (auto simp: same_db_def same_file_def)

lemma same_db_coherent: "same_db d d' \<Longrightarrow> pf_coherent (ldb_file d')"
  by (auto simp: same_db_def)

lemma same_db_trans: "same_db d d' \<Longrightarrow> same_db d' d'' \<Longrightarrow> same_db d d''"
  by (auto simp: same_db_def same_file_def)

lemma same_db_ok: "same_db d d' \<Longrightarrow> ldb_ok d \<Longrightarrow> ldb_ok d' \<and> grow_slack d' = grow_slack d"
  by (auto simp: same_db_def same_file_def ldb_ok_def pf_inv_def grow_slack_def)

definition field_inside :: "byte list \<Rightarrow> ldb_log_record_field \<Rightarrow> bool" where
  "field_inside F f \<longleftrightarrow> unat (lf_data_offset f) + unat (lf_data_size f) \<le> length F"

lemma ReadInto_ok:
  assumes coh: "pf_coherent (ldb_file d)" and f: "field_inside (disk d) f"
  obtains d' where "ReadInto f out d =
      (map_option (\<lambda>old. if lf_data_size f = 0 then old else fbytes (disk d) f) out, d')"
    and "same_db d d'"
proof (cases "out \<noteq> None \<and> lf_data_size f \<noteq> 0")
  case True
  obtain g where g: "ldb_read (lf_data_offset f) (lf_data_size f) d =
      (file_read (disk d) (unat (lf_data_offset f)) (unat (lf_data_size f)), d\<lparr> ldb_file := g \<rparr>)"
    "pf_coherent g" "pf_disk g = disk d" "pf_page_size g = pf_page_size (ldb_file d)"
    by (rule ldb_read_ok [OF coh]) (use f in \<open>simp_all add: field_inside_def\<close>)
  show ?thesis
    by (rule that [of "d\<lparr> ldb_file := g \<rparr>"])
      (use True g in \<open>auto simp: ReadInto_def ReadField_def fbytes_def same_db_def same_file_def\<close>)
next
  case False
  then have "ReadInto f out d =
      (map_option (\<lambda>old. if lf_data_size f = 0 then old else fbytes (disk d) f) out, d)"
    by (cases out) (auto simp: ReadInto_def)
  then show ?thesis by (rule that) (rule same_db_refl [OF coh])
qed

definition record_inside :: "byte list \<Rightarrow> ldb_log_record \<Rightarrow> bool" where
  "record_inside F r \<longleftrightarrow> (\<forall>f \<in> record_fields r. field_inside F f)"

text \<open>What a caller's buffer holds after a read of a field.\<close>

definition read_out :: "byte list \<Rightarrow> ldb_log_record_field \<Rightarrow> byte list option \<Rightarrow> byte list option" where
  "read_out F f = map_option (\<lambda>old. if lf_data_size f = 0 then old else fbytes F f)"

lemma read_out_fresh: "read_out F f (Some []) = Some (fbytes F f)"
  by (auto simp: read_out_def fbytes_def file_read_def)

lemma read_out_None: "read_out F f None = None"
  by (simp add: read_out_def)

lemma GetByIndex_ok:
  assumes coh: "pf_coherent (ldb_file d)" and i: "i < length (ti_records t)"
    and n: "length (ti_records t) < 2 ^ 32" and r: "record_inside (disk d) (ti_records t ! i)"
  obtains d' where "GetByIndex t (of_nat i) k v w d =
      Inr (of_nat i, read_out (disk d) (lr_key (ti_records t ! i)) k,
        read_out (disk d) (lr_value (ti_records t ! i)) v,
        read_out (disk d) (lr_metadata (ti_records t ! i)) w, d')"
    and "same_db d d'"
proof -
  let ?r = "ti_records t ! i"
  have f: "field_inside (disk d) (lr_key ?r)" "field_inside (disk d) (lr_value ?r)"
    "field_inside (disk d) (lr_metadata ?r)" using r by (simp_all add: record_inside_def record_fields_def)
  obtain d1 where d1: "ReadInto (lr_key ?r) k d = (read_out (disk d) (lr_key ?r) k, d1)" "same_db d d1"
    unfolding read_out_def by (rule ReadInto_ok [OF coh f(1)])
  obtain d2 where d2: "ReadInto (lr_value ?r) v d1 = (read_out (disk d) (lr_value ?r) v, d2)" "same_db d1 d2"
    using ReadInto_ok [OF same_db_coherent [OF d1(2)], of "lr_value ?r" v] f(2) same_db_disk [OF d1(2)]
    unfolding read_out_def by metis
  have s2: "same_db d d2" by (rule same_db_trans [OF d1(2) d2(2)])
  obtain d3 where d3: "ReadInto (lr_metadata ?r) w d2 = (read_out (disk d) (lr_metadata ?r) w, d3)" "same_db d2 d3"
    using ReadInto_ok [OF same_db_coherent [OF s2], of "lr_metadata ?r" w] f(3) same_db_disk [OF s2]
    unfolding read_out_def by metis
  have i32: "unat (of_nat i :: u32) = i" using i n by (simp add: unat_of_nat_u32)
  have "unat (of_nat i + 1 :: u32) \<le> length (ti_records t)"
  proof (cases "i + 1 < 2 ^ 32")
    case True
    then have "unat (of_nat i + 1 :: u32) = i + 1" using i32 by (subst unat_add_u32) simp_all
    then show ?thesis using i by simp
  qed (use i n in simp)
  then have "GetByIndex t (of_nat i) k v w d =
      Inr (of_nat i, read_out (disk d) (lr_key ?r) k, read_out (disk d) (lr_value ?r) v,
        read_out (disk d) (lr_metadata ?r) w, d3)"
    using i i32 d1(1) d2(1) d3(1) by (simp add: GetByIndex_def Let_def)
  then show ?thesis by (rule that) (rule same_db_trans [OF s2 d3(2)])
qed

text \<open>The records a search matches, and where it stops.\<close>

definition key_at :: "byte list \<Rightarrow> ldb_log_record \<Rightarrow> byte list \<Rightarrow> bool" where
  "key_at F r key \<longleftrightarrow> lf_data_size (lr_key r) = of_nat (length key) \<and> lf_hash (lr_key r) = DoHash key \<and>
     fbytes F (lr_key r) = key"

fun first_index :: "(nat \<Rightarrow> bool) \<Rightarrow> nat list \<Rightarrow> u32" where
  "first_index P [] = LDB_INVALID_RECNO"
| "first_index P (i # is) = (if P i then of_nat i else first_index P is)"

lemma find_key_loop_ok:
  assumes "pf_coherent (ldb_file d)" and "length (ti_records t) < 2 ^ 32" and "length key < 2 ^ 32"
    and "\<forall>r \<in> set (ti_records t). record_inside (disk d) r"
  shows "\<exists>d'. find_key_loop t a key d =
      Inr (first_index (\<lambda>i. key_at (disk d) (ti_records t ! i) key) [a..<length (ti_records t)], d') \<and>
      same_db d d'"
  using assms
proof (induction "length (ti_records t) - a" arbitrary: a d rule: less_induct)
  case less
  let ?n = "length (ti_records t)" and ?r = "ti_records t ! a"
  show ?case
  proof (cases "?n \<le> a")
    case True
    then show ?thesis
      using same_db_refl [OF less.prems(1)] by (auto simp: find_key_loop.simps [of t a])
  next
    case False
    then have a: "a < ?n" and upt: "[a..<?n] = a # [a + 1..<?n]" by (simp_all add: upt_conv_Cons)
    have r: "record_inside (disk d) ?r" using less.prems(4) a by simp
    have step: "?n - (a + 1) < ?n - a" using a by simp
    show ?thesis
    proof (cases "lf_data_size (lr_key ?r) \<noteq> of_nat (length key) \<or> lf_hash (lr_key ?r) \<noteq> DoHash key")
      case True
      then have "\<not> key_at (disk d) ?r key" by (auto simp: key_at_def)
      with True less.hyps [OF step less.prems] upt False show ?thesis
        by (simp add: find_key_loop.simps [of t a] Let_def)
    next
      case same: False
      obtain d1 where d1: "GetByIndex t (of_nat a) (Some []) None None d =
          Inr (of_nat a, Some (fbytes (disk d) (lr_key ?r)), None, None, d1)" "same_db d d1"
        by (rule GetByIndex_ok [OF less.prems(1) a less.prems(2) r, of "Some []" None None,
              unfolded read_out_fresh read_out_None])
      have len: "length (fbytes (disk d) (lr_key ?r)) = length key"
        using same r less.prems(3)
        by (auto simp: fbytes_def file_read_def record_inside_def record_fields_def field_inside_def unat_of_nat_u32)
      have eq: "key_at (disk d) ?r key \<longleftrightarrow> fbytes (disk d) (lr_key ?r) = key"
        using same by (simp add: key_at_def)
      have res: "find_key_loop t a key d = (if fbytes (disk d) (lr_key ?r) = key then Inr (of_nat a, d1)
          else find_key_loop t (a + 1) key d1)"
        using False same d1(1) len by (simp add: find_key_loop.simps [of t a] Let_def)
      obtain d' where "find_key_loop t (a + 1) key d1 =
          Inr (first_index (\<lambda>i. key_at (disk d1) (ti_records t ! i) key) [a + 1..<?n], d')" "same_db d1 d'"
        using less.hyps [OF step same_db_coherent [OF d1(2)] less.prems(2,3)] less.prems(4)
          same_db_disk [OF d1(2)] by auto
      then show ?thesis
        using res eq upt d1(2) same_db_disk [OF d1(2)] same_db_trans [OF d1(2)] by auto
    qed
  qed
qed

lemma FindKey_ok:
  assumes "pf_coherent (ldb_file d)" and "length (ti_records t) < 2 ^ 32" and "length key < 2 ^ 32"
    and "\<forall>r \<in> set (ti_records t). record_inside (disk d) r"
  shows "\<exists>d'. FindKey t start key d =
      Inr (first_index (\<lambda>i. key_at (disk d) (ti_records t ! i) key) [unat start..<length (ti_records t)], d') \<and>
      same_db d d'"
proof (cases "CheckIndex t start")
  case True
  then show ?thesis using find_key_loop_ok [OF assms, of "unat start"] by (simp add: FindKey_def)
next
  case False
  then show ?thesis using same_db_refl [OF assms(1)] by (auto simp: FindKey_def CheckIndex_def)
qed

end
