(* ===== verification/LogRestart.thy ===== *)
theory LogRestart
  imports LogTable
begin

text \<open>
  The log database as a whole: a new file, a new table in it, and the properties of the tables
  that hold from there on, across a restart of the process.
\<close>

section \<open>A new database\<close>

lemma InitializeFile_ok:
  assumes d0: "d0 = open_disk [] (Ldb_new junk)"
  obtains d where "InitializeFile d0 = Inr d" and "ldb_ok d" and "ldb_tables d = []"
    and "ldb_default_block_size d = 4096" and "ti_records (ldb_metatable d) = []"
    and "grow_slack d = 1025 * 4096" and "length (disk d) \<le> 5000000"
    and "file_read (disk d) 0 16 = file_header_bytes
      \<lparr> fh_magic = LDB_MAGIC, fh_version = 1, fh_flags = 0, fh_table_block_offset = 16 \<rparr>"
    and "table_ok d (ldb_metatable d) [(ti_last_block (ldb_metatable d), [])]"
    and "bi_offset (ti_last_block (ldb_metatable d)) = 16" and "bsize (ti_last_block (ldb_metatable d)) = 4096"
    and "ldb_header d = \<lparr> fh_magic = LDB_MAGIC, fh_version = 1, fh_flags = 0, fh_table_block_offset = 16 \<rparr>"
    and "ti_name (ldb_metatable d) = []" and "16 \<le> length (disk d)"
proof -
  let ?h = "\<lparr> fh_magic = LDB_MAGIC, fh_version = 1, fh_flags = 0, fh_table_block_offset = 16 \<rparr>"
  let ?b = "\<lparr> bi_block_header = \<lparr> bh_size = 4096, bh_used_count = 0, bh_next_block_offset = 0 \<rparr>, bi_offset = 16 \<rparr>"
  define d1 where "d1 = d0\<lparr> ldb_header := ?h, ldb_metatable := (ldb_metatable d0)\<lparr> ti_last_block := ?b \<rparr>,
    ldb_next_data_offset := 4112 \<rparr>"
  have f0: "ldb_file d1 = (PagedFile_new junk [])\<lparr> pf_disk := [] \<rparr>" "ldb_grow_pages_step d1 = 1024"
    by (simp_all add: d1_def d0 open_disk_def Ldb_new_def)
  then have fl: "pf_page_size (ldb_file d1) = 4096" "disk d1 = []" "grow_slack d1 = 1025 * 4096"
    by (simp_all add: PagedFile_new_def pf_SetPageSize_def pf_FreeCache_def grow_slack_def)
  have inv: "pf_inv (ldb_file d1)"
    unfolding f0 by (simp add: pf_inv_def pf_coherent_def PagedFile_new_def pf_SetPageSize_def pf_FreeCache_def)
  obtain f k where f: "LeaveRoom 8208 d1 = d1\<lparr> ldb_file := f \<rparr>" "pf_inv f"
    "pf_disk f = disk d1 @ replicate k 0xEE" "unat (8208 :: u32) < k" "k \<le> unat (8208 :: u32) + grow_slack d1"
    "pf_page_size f = pf_page_size (ldb_file d1)"
    by (rule LeaveRoom_ok [OF inv, of 8208]) (use fl in simp_all)
  let ?d2 = "d1\<lparr> ldb_file := f \<rparr>"
  have len: "8208 < length (pf_disk f)" "length (pf_disk f) \<le> 5000000" using f fl by simp_all
  have ok2: "ldb_ok ?d2" using f(2,6) fl len by (simp add: ldb_ok_def d1_def)
  obtain g where g: "ldb_write 16 (block_header_bytes (bi_block_header ?b)) ?d2 = ?d2\<lparr> ldb_file := g \<rparr>"
    "ldb_ok (?d2\<lparr> ldb_file := g \<rparr>)"
    "pf_disk g = file_write (disk ?d2) (unat (16 :: u32)) (block_header_bytes (bi_block_header ?b))"
    "pf_page_size g = pf_page_size (ldb_file ?d2)"
    by (rule ldb_write_ok [OF ok2, of 16 "block_header_bytes (bi_block_header ?b)"]) (use len in simp_all)
  have lg: "length (pf_disk g) = length (pf_disk f)" using g(3) len by simp
  obtain e where e: "ldb_write 0 (file_header_bytes ?h) (?d2\<lparr> ldb_file := g \<rparr>) =
      (?d2\<lparr> ldb_file := g \<rparr>)\<lparr> ldb_file := e \<rparr>"
    "ldb_ok ((?d2\<lparr> ldb_file := g \<rparr>)\<lparr> ldb_file := e \<rparr>)"
    "pf_disk e = file_write (pf_disk g) (unat (0 :: u32)) (file_header_bytes ?h)"
    "pf_page_size e = pf_page_size g"
    using ldb_write_ok [OF g(2), of 0 "file_header_bytes ?h"] lg len by auto
  have le: "length (pf_disk e) = length (pf_disk f)" using e(3) lg len by simp
  let ?d = "d1\<lparr> ldb_file := e \<rparr>"
  have "16 < ldb_file_size ?d2" using unat_file_size [of ?d2] len by (simp add: word_less_nat_alt)
  then have res: "InitializeFile d0 = Inr ?d"
    using f(1) g(1) e(1) fl(1)
    by (simp add: InitializeFile_def WriteBlockToFile_def Let_def d1_def d0 open_disk_def Ldb_new_def)
  have hdr: "file_read (pf_disk e) 0 16 = file_header_bytes ?h"
    using file_read_write_same [of 0 "file_header_bytes ?h" "pf_disk g"] lg len by (simp add: e(3))
  have "file_read (pf_disk e) 16 12 = file_read (pf_disk g) 16 12"
    unfolding e(3) by (rule file_read_write_other) (use lg len in simp_all)
  also have "\<dots> = block_header_bytes (bi_block_header ?b)"
    using file_read_write_same [of 16 "block_header_bytes (bi_block_header ?b)" "pf_disk f"] len by (simp add: g(3))
  finally have "block_at (disk ?d) ?b []"
    using le len by (simp add: block_at_def boff_def bsize_def bend_def file_read_def)
  then have "table_ok ?d (ldb_metatable ?d) [(?b, [])]"
    by (simp add: table_ok_def on_disk_def chain_at_def linked_def log_of_def d1_def d0 open_disk_def Ldb_new_def
        bend_def boff_def bsize_def)
  then show ?thesis
    using res hdr e(2) le len fl(3) f(6) g(4) e(4)
    by (intro that [of ?d]) (simp_all add: d1_def d0 open_disk_def Ldb_new_def bsize_def grow_slack_def)
qed


section \<open>A new table\<close>

lemma first_index_none: "\<forall>i \<in> set is. \<not> P i \<Longrightarrow> first_index P is = LDB_INVALID_RECNO"
  by (induction "is") auto

lemma first_index_cong: "(\<And>i. i \<in> set is \<Longrightarrow> P i = Q i) \<Longrightarrow> first_index P is = first_index Q is"
  by (induction "is") auto

lemma table_ok_inside:
  assumes "ldb_ok d" and "table_ok d t c"
  shows "\<forall>r \<in> set (ti_records t). record_inside (disk d) r"
  using table_ok_fields(2) [OF assms(2)] assms(1)
  by (fastforce simp: record_inside_def field_inside_def field_below_def ldb_ok_def)

lemma file_read_shorter: "k \<le> n \<Longrightarrow> file_read F off k = take k (file_read F off n)"
  by (simp add: file_read_def min_def)

lemma same_db_table_ok: "same_db d d' \<Longrightarrow> table_ok d t c \<Longrightarrow> table_ok d' t c"
  by (auto simp: same_db_def same_file_def table_ok_def on_disk_def)

text \<open>Logging leaves the list of tables and the parameters of the database alone.\<close>

lemma tables_simps [simp]:
  "ldb_tables (ldb_write off bs d) = ldb_tables d" "ldb_tables (EnsureSpace n d) = ldb_tables d"
  by (simp_all add: ldb_write_def EnsureSpace_def LeaveRoom_def Let_def)

lemma WriteOptional_tables: "WriteOptional x d = Inr (f, d') \<Longrightarrow> ldb_tables d' = ldb_tables d"
  by (cases x) (auto simp: WriteOptional_def WriteLdbData_def Let_def fault_simps)

lemma CreateNewBlockIfNeeded_tables:
  "CreateNewBlockIfNeeded b d = Inr (old, new, d') \<Longrightarrow> ldb_tables d' = ldb_tables d"
  by (auto simp: CreateNewBlockIfNeeded_def Let_def fault_simps split: if_splits)

lemma PutLogRecord_tables: "PutLogRecord old new r d = Inr (b, d') \<Longrightarrow> ldb_tables d' = ldb_tables d"
  by (auto simp: PutLogRecord_def Let_def fault_simps split: if_splits)

lemma AppendLogRecord_tables:
  "AppendLogRecord t operation i k v w d = Inr (t', d') \<Longrightarrow> ldb_tables d' = ldb_tables d"
  by (auto simp: AppendLogRecord_def Let_def fault_simps
      dest!: WriteOptional_tables CreateNewBlockIfNeeded_tables PutLogRecord_tables)

text \<open>A stored block header followed by unused bytes is an empty table.\<close>

lemma fresh_table_inv:
  assumes ok: "ldb_ok d" and lo: "0 < lo" and D: "64 \<le> unat D"
    and h: "h = \<lparr> bh_size = D, bh_used_count = 0, bh_next_block_offset = 0 \<rparr>"
    and st: "stored lo (unat (ldb_next_data_offset d)) (disk d) f
      (Some (block_header_bytes h @ replicate (unat D - 12) 0xEE))"
  shows "table_inv (lf_data_offset f)
    (\<lparr> ti_name = name, ti_last_block = \<lparr> bi_block_header = h, bi_offset = lf_data_offset f \<rparr>, ti_records = [] \<rparr>, d)"
    and "0 < lf_data_offset f \<and> lf_data_offset f < ldb_file_size d"
proof -
  let ?buf = "block_header_bytes h @ replicate (unat D - 12) 0xEE"
  let ?b = "\<lparr> bi_block_header = h, bi_offset = lf_data_offset f \<rparr>"
  let ?t = "\<lparr> ti_name = name, ti_last_block = ?b, ti_records = [] \<rparr>"
  have N: "unat (ldb_next_data_offset d) < 2 ^ 32" using unat_u32_less [of "ldb_next_data_offset d"] by simp
  note s = stored_field [OF st N]
  have lb: "length ?buf = unat D" using D by simp
  have nx: "unat (ldb_next_data_offset d) \<le> length (disk d)" "length (disk d) < 2 ^ 32"
    using ok by (simp_all add: ldb_ok_def)
  have "file_read (disk d) (unat (lf_data_offset f)) 12 = take 12 ?buf"
    using file_read_shorter [of 12 "length ?buf" "disk d"] s(6) D lb by simp
  then have b: "block_at (disk d) ?b []"
    using s(4,5) lo D lb nx h by (simp add: block_at_def boff_def bsize_def bend_def file_read_def)
  have "\<not> CheckNeedForNewBlock h"
    using CheckNeedForNewBlock_iff [OF b] D h by (simp add: bsize_def)
  moreover have "table_ok d ?t [(?b, [])]"
    using b s(5) lb h
    by (simp add: table_ok_def on_disk_def chain_at_def linked_def log_of_def bend_def boff_def bsize_def)
  ultimately show "table_inv (lf_data_offset f) (?t, d)"
    using ok by (auto simp: table_inv_def keeps_apart_def spaced_def intro!: exI [of _ "[(?b, [])]"])
  show "0 < lf_data_offset f \<and> lf_data_offset f < ldb_file_size d"
    using b nx unat_file_size [OF nx(2)] D h
    by (auto simp: block_at_def boff_def bend_def bsize_def word_less_nat_alt)
qed

lemma CreateTable_ok:
  assumes ok: "ldb_ok d" and meta: "table_ok d (ldb_metatable d) c"
    and n: "length (ti_records (ldb_metatable d)) < 2 ^ 32 - 1"
    and name: "name \<noteq> []" "sm_find name (ldb_tables d) = None"
      "\<forall>r \<in> set (ti_records (ldb_metatable d)). \<not> key_at (disk d) r name"
    and bs: "64 \<le> unat (ldb_default_block_size d)"
    and room: "length (disk d) + length name + unat (ldb_default_block_size d) +
      bsize (ti_last_block (ldb_metatable d)) + 4 * grow_slack d < 2 ^ 32"
    and sm: "sm_inv (ldb_tables d)"
  obtains t d' c' where "CreateTable name d = Inr (t, d')" and "ldb_ok d'" and "OpenTable name d' = Some t"
    and "table_ok d' (ldb_metatable d') c'" and "table_inv (bi_offset (ti_last_block t)) (t, d')"
    and "ti_records t = []" and "bsize (ti_last_block t) = unat (ldb_default_block_size d)"
    and "grow_slack d' = grow_slack d"
    and "length (disk d') \<le> length (disk d) + length name + unat (ldb_default_block_size d) +
      bsize (ti_last_block (ldb_metatable d)) + 4 * grow_slack d"
proof -
  let ?m = "ldb_metatable d" and ?D = "ldb_default_block_size d"
  let ?h = "\<lparr> bh_size = ?D, bh_used_count = 0, bh_next_block_offset = 0 \<rparr>"
  let ?buf = "block_header_bytes ?h @ replicate (unat ?D - 12) (0xEE :: byte)"
  have lb: "length ?buf = unat ?D" using bs by simp
  have coh: "pf_coherent (ldb_file d)" using ok by (simp add: ldb_ok_def pf_inv_def)
  have none: "first_index (\<lambda>i. key_at (disk d) (ti_records ?m ! i) name) [unat (0 :: u32)..<length (ti_records ?m)] =
      LDB_INVALID_RECNO"
    by (rule first_index_none) (use name(3) in simp)
  obtain d1 where d1: "FindKey ?m 0 name d = Inr (LDB_INVALID_RECNO, d1)" "same_db d d1"
    using FindKey_ok [OF coh _ _ table_ok_inside [OF ok meta], of name 0] n room none by auto
  have same: "ldb_metatable d1 = ?m" "ldb_tables d1 = ldb_tables d" "ldb_default_block_size d1 = ?D"
    "disk d1 = disk d" using d1(2) by (auto simp: same_db_def same_file_def)
  have ok1: "ldb_ok d1" and sl1: "grow_slack d1 = grow_slack d" using same_db_ok [OF d1(2) ok] by auto
  have tab1: "table_ok d1 ?m c" by (rule same_db_table_ok [OF d1(2) meta])
  have args: "op_args ?m OPERATION_APPEND (of_nat (length (ti_records ?m))) (Some name) (Some ?buf) None"
    using name(1) bs lb by (auto simp: op_args_def)
  have room1: "length (disk d1) + args_size (Some name) (Some ?buf) None + bsize (ti_last_block ?m) +
      4 * grow_slack d1 < 2 ^ 32"
    using room lb by (simp add: opt_size_def same sl1)
  obtain fk fv fw m' d2 c' where
    a: "AppendLogRecord ?m OPERATION_APPEND (of_nat (length (ti_records ?m))) (Some name) (Some ?buf) None d1 =
      Inr (m', d2)"
    and l: "logged d1 ?m c (make_log_record ?m OPERATION_APPEND (of_nat (length (ti_records ?m)))
        (ldb_last_record_id d1 + 1) (Some name) (Some ?buf) None fk fv fw)
      (args_size (Some name) (Some ?buf) None) d2 m' c'"
    and tab2: "table_ok d2 m' c'"
    and st: "stored (bend (ti_last_block m')) (unat (ldb_next_data_offset d2)) (disk d2) fk (Some name)"
      "stored (bend (ti_last_block m')) (unat (ldb_next_data_offset d2)) (disk d2) fv (Some ?buf)"
      "stored (bend (ti_last_block m')) (unat (ldb_next_data_offset d2)) (disk d2) fw None"
    by (rule table_ok_append [OF ok1 tab1 args room1])
  let ?i = "of_nat (length (ti_records ?m)) :: u32"
  let ?r = "make_log_record ?m OPERATION_APPEND ?i (ldb_last_record_id d1 + 1) (Some name) (Some ?buf) None fk fv fw"
  have recs: "ti_records m' = ti_records ?m @ [?r]" and ok2: "ldb_ok d2"
    using l by (simp_all add: logged_def live_records_def)
  have i: "unat ?i = length (ti_records ?m)" using n by (simp add: unat_of_nat_u32)
  then have off: "lf_data_offset (lr_value (ti_records m' ! unat ?i)) = lf_data_offset fv"
    by (simp add: recs make_log_record_def Let_def)
  let ?t = "\<lparr> ti_name = name, ti_last_block = \<lparr> bi_block_header = ?h, bi_offset = lf_data_offset fv \<rparr>,
              ti_records = [] \<rparr>"
  have lo: "0 < bend (ti_last_block m')" using on_disk_bends(2) [of d2 m' c'] tab2 by (simp add: table_ok_def)
  note fresh = fresh_table_inv [OF ok2 lo bs refl st(2)]
  let ?d' = "d2\<lparr> ldb_metatable := m', ldb_tables := sm_set name ?t (ldb_tables d2) \<rparr>"
  have tabs: "ldb_tables d2 = ldb_tables d"
    using AppendLogRecord_tables [OF a] same(2) by simp
  show ?thesis
  proof (rule that [of ?t ?d' c'])
    show "CreateTable name d = Inr (?t, ?d')"
      using d1(1) same name(2) a i recs off fresh(2) by (simp add: CreateTable_def LdbAppend_def Let_def)
    show "OpenTable name ?d' = Some ?t"
      using sm tabs by (simp add: OpenTable_def sm_find_set)
    have "grow_slack d2 = grow_slack d1"
      "length (disk d2) \<le> length (disk d1) + args_size (Some name) (Some ?buf) None + bsize (ti_last_block ?m) +
        4 * grow_slack d1" using l by (simp_all add: logged_def)
    moreover have "grow_slack ?d' = grow_slack d2" by (simp add: grow_slack_def)
    ultimately show "grow_slack ?d' = grow_slack d"
      "length (disk ?d') \<le> length (disk d) + length name + unat ?D + bsize (ti_last_block ?m) + 4 * grow_slack d"
      using lb by (simp_all add: sl1 same(4) opt_size_def)
  qed (use ok2 tab2 fresh(1) in \<open>simp_all add: ldb_ok_def table_ok_def on_disk_def table_inv_def keeps_apart_def
      bsize_def\<close>)
qed


section \<open>What holds of a table\<close>


text \<open>The first table of a new database, for the witnesses.\<close>

lemma first_table:
  obtains d t d' where "InitializeFile (open_disk [] (Ldb_new 0)) = Inr d"
    and "CreateTable [116] d = Inr (t, d')" and "table_inv (bi_offset (ti_last_block t)) (t, d')"
    and "ti_records t = []" and "bsize (ti_last_block t) = 4096" and "grow_slack d' = 1025 * 4096"
    and "length (disk d') \<le> 30000000" and "OpenTable [116] d' = Some t"
proof -
  obtain d where d: "InitializeFile (open_disk [] (Ldb_new 0)) = Inr d" "ldb_ok d" "ldb_tables d = []"
    "ldb_default_block_size d = 4096" "ti_records (ldb_metatable d) = []" "grow_slack d = 1025 * 4096"
    "length (disk d) \<le> 5000000" "table_ok d (ldb_metatable d) [(ti_last_block (ldb_metatable d), [])]"
    "bsize (ti_last_block (ldb_metatable d)) = 4096"
    by (rule InitializeFile_ok [OF refl, of 0])
  obtain t d' c' where c: "CreateTable [116] d = Inr (t, d')" "ldb_ok d'" "OpenTable [116] d' = Some t"
    "table_inv (bi_offset (ti_last_block t)) (t, d')" "ti_records t = []"
    "bsize (ti_last_block t) = unat (ldb_default_block_size d)" "grow_slack d' = grow_slack d"
    "length (disk d') \<le> length (disk d) + length [116 :: byte] + unat (ldb_default_block_size d) +
      bsize (ti_last_block (ldb_metatable d)) + 4 * grow_slack d"
    by (rule CreateTable_ok [OF d(2,8), of "[116]"]) (use d in \<open>simp_all add: sm_inv_def\<close>)
  show ?thesis by (rule that [OF d(1) c(1)]) (use c d in simp_all)
qed


text \<open>
  The load of a table rejects what its own appends write.  When the last block is full and
  nothing was written behind it, every call that logs a record succeeds and puts the next block
  directly behind the last one; \<^verbatim>\<open>LoadAllBlocks\<close> asserts that a block starts strictly behind the end
  of the one before, so the next load of the table fails.
\<close>

theorem adjacent_block_not_loaded:
  assumes "ldb_ok d" and "table_ok d t c" and "op_allowed op (t, d)"
    and "\<not> out_of_range op (length (ti_records t))"
    and "CheckNeedForNewBlock (bi_block_header (ti_last_block t))"
    and "bend (ti_last_block t) = unat (ldb_next_data_offset d)"
  shows "\<exists>s'. run_op op (t, d) = Inr s' \<and> reload junk (bi_offset (fst (hd c))) s' = Inl AssertionFailed"
proof -
  obtain t' d' c' where r: "run_op op (t, d) = Inr (t', d')" "ldb_ok d'" "table_ok d' t' c'"
    "bi_offset (fst (hd c')) = bi_offset (fst (hd c))"
    "\<not> out_of_range op (length (ti_records t)) \<and> \<not> keeps_apart t d \<longrightarrow> \<not> spaced c'"
    by (rule run_op_ok [OF assms(1,2,3)])
  have "\<not> spaced c'" using r(5) assms(4,5,6) by (simp add: keeps_apart_def)
  with reload_ok [OF r(2,3), of junk] r(1,4) show ?thesis by auto
qed

text \<open>A block of 64 bytes that holds one record, with nothing behind it; the key is stored before it.\<close>

definition full_record :: ldb_log_record where
  "full_record = \<lparr> lr_operation = OPERATION_APPEND, lr_record_index = 0, lr_record_id = 1,
     lr_key = field_of 8 [7], lr_value = zero_field, lr_metadata = zero_field \<rparr>"

definition full_block :: ldb_block_header_info where
  "full_block = \<lparr> bi_block_header = \<lparr> bh_size = 64, bh_used_count = 1, bh_next_block_offset = 0 \<rparr>, bi_offset = 16 \<rparr>"

definition full_table :: table_info where
  "full_table = \<lparr> ti_name = [116], ti_last_block = full_block, ti_records = [full_record] \<rparr>"

definition full_db :: ldb where
  "full_db = (Ldb_new 0)\<lparr> ldb_file := \<lparr> pf_page_size = 128,
       pf_disk = replicate 8 0 @ [7] @ replicate 7 0 @ block_header_bytes (bi_block_header full_block) @
         log_record_bytes full_record @ replicate 52 0xEE,
       pf_cache = Map.empty, pf_pages = [], pf_max_pages = 1, pf_junk = 0 \<rparr>,
     ldb_next_data_offset := 80, ldb_grow_pages_step := 0 \<rparr>"

lemma replay_full_record [simp]: "replay1 full_record [] = [full_record]"
  by (simp add: replay1_def replay_record_def full_record_def Let_def)

lemma full_db_ok: "ldb_ok full_db" "table_ok full_db full_table [(full_block, [full_record])]"
proof -
  show "ldb_ok full_db" by (simp add: ldb_ok_def pf_inv_def pf_coherent_def full_db_def)
  have "block_at (disk full_db) full_block [full_record]"
    by (simp add: block_at_def boff_def bsize_def bend_def file_read_def full_db_def full_block_def)
  moreover have "record_ok 80 {full_block} full_record"
    by (simp add: record_ok_def record_fields_def full_record_def zero_field_def field_of_def field_below_def
        clear_of_def full_block_def boff_def has_data_def)
  ultimately show "table_ok full_db full_table [(full_block, [full_record])]"
    by (simp add: table_ok_def on_disk_def chain_at_def linked_def log_of_def full_table_def bend_def boff_def
        bsize_def) (simp add: full_db_def full_block_def)
qed

theorem adjacent_block_not_loaded_witness:
  "\<exists>s'. run_op (TDelete 0) (full_table, full_db) = Inr s' \<and>
     reload 0 (bi_offset (fst (hd [(full_block, [full_record])]))) s' = Inl AssertionFailed"
proof (rule adjacent_block_not_loaded [OF full_db_ok])
  show "op_allowed (TDelete 0) (full_table, full_db)"
    by (simp add: op_allowed_def op_size_def opt_size_def full_db_def full_table_def full_block_def bsize_def
        grow_slack_def)
  show "CheckNeedForNewBlock (bi_block_header (ti_last_block full_table))"
    by (simp add: full_table_def full_block_def CheckNeedForNewBlock_def)
  show "bend (ti_last_block full_table) = unat (ldb_next_data_offset full_db)"
    by (simp add: full_table_def full_block_def full_db_def bend_def boff_def bsize_def)
qed (simp add: out_of_range_def full_table_def)

text \<open>
  A record inserted into an empty table is there twice after a restart: \<^verbatim>\<open>LoadBlock\<close> appends a
  record whose index is the number of records and then, the table having grown, inserts it as well.
\<close>

theorem insert_into_empty_loaded_twice:
  assumes "table_inv first (t, d)" and "ti_records t = []"
    and "k \<noteq> Some []" and "v \<noteq> Some []" and "w \<noteq> Some []" and "\<not> (k = None \<and> v = None \<and> w = None)"
    and "length (disk d) + args_size k v w + bsize (ti_last_block t) + 4 * grow_slack d < 2 ^ 32"
  shows "\<exists>t' d' r d''. InsertByIndex t 0 k v w d = Inr (0, t', d') \<and> ti_records t' = [r] \<and>
           reload junk first (t', d') = Inr (t'\<lparr> ti_records := [r, r] \<rparr>, d'')"
proof -
  obtain c where c: "ldb_ok d" "table_ok d t c" "spaced c" "keeps_apart t d" "bi_offset (fst (hd c)) = first"
    using assms(1) by (auto simp: table_inv_def)
  have on: "on_disk d t c" using c(2) by (simp add: table_ok_def)
  have valid: "valid_op t OPERATION_INSERT 0" by (simp add: valid_op_def)
  obtain fk fv fw t' d' c' where a: "AppendLogRecord t OPERATION_INSERT 0 k v w d = Inr (t', d')"
    and l: "logged d t c (make_log_record t OPERATION_INSERT 0 (ldb_last_record_id d + 1) k v w fk fv fw)
           (args_size k v w) d' t' c'"
    and st: "stored (bend (ti_last_block t')) (unat (ldb_next_data_offset d')) (disk d') fk k"
      "stored (bend (ti_last_block t')) (unat (ldb_next_data_offset d')) (disk d') fv v"
      "stored (bend (ti_last_block t')) (unat (ldb_next_data_offset d')) (disk d') fw w"
    by (rule AppendLogRecord_ok [OF c(1) on valid assms(3-5,7)])
  let ?r = "make_log_record t OPERATION_INSERT 0 (ldb_last_record_id d + 1) k v w fk fv fw"
  let ?t = "t'\<lparr> ti_records := [?r, ?r] \<rparr>"
  have k: "ti_records t' = [?r]" "log_of c' = log_of c @ [?r]" "on_disk d' t' c'" "ldb_ok d'"
    "bi_offset (fst (hd c')) = first" "spaced c'"
    using l assms(2) c(3,4,5) by (auto simp: logged_def live_records_def keeps_apart_def)
  have "\<forall>r \<in> set (log_of c'). record_ok (unat (ldb_next_data_offset d')) (fst ` set c') r"
    by (rule logged_records_ok [OF c(2) l _ _ st]) (use assms(6) in auto)
  moreover have "fold replay1 (log_of c') [] = [?r, ?r]"
    using k(2) c(2) assms(2) replay1_insert_end [of ?r "[]"] by (simp add: table_ok_def)
  ultimately have "table_ok d' ?t c'" using k(3) by (simp add: table_ok_def on_disk_def)
  from reload_ok [OF k(4) this, of junk] k(5,6) obtain d'' where "reload junk first (?t, d') = Inr (?t, d'')"
    by auto
  then have "reload junk first (t', d') = Inr (?t, d'')" by (simp add: reload_def)
  moreover have "InsertByIndex t 0 k v w d = Inr (0, t', d')" using a by (simp add: InsertByIndex_def)
  ultimately show ?thesis using k(1) by blast
qed

theorem insert_into_empty_loaded_twice_witness:
  "\<exists>d t d0 t' d' r d''. InitializeFile (open_disk [] (Ldb_new 0)) = Inr d0 \<and> CreateTable [116] d0 = Inr (t, d) \<and>
     InsertByIndex t 0 (Some [1]) None None d = Inr (0, t', d') \<and> ti_records t' = [r] \<and>
     reload 0 (bi_offset (ti_last_block t)) (t', d') = Inr (t'\<lparr> ti_records := [r, r] \<rparr>, d'')"
proof -
  obtain d t d' where d: "InitializeFile (open_disk [] (Ldb_new 0)) = Inr d"
    "CreateTable [116] d = Inr (t, d')" and inv: "table_inv (bi_offset (ti_last_block t)) (t, d')"
    and e: "ti_records t = []" "bsize (ti_last_block t) = 4096" "grow_slack d' = 1025 * 4096"
    "length (disk d') \<le> 30000000"
    by (rule first_table)
  have "length (disk d') + args_size (Some [1]) None None + bsize (ti_last_block t) + 4 * grow_slack d' < 2 ^ 32"
    using e by (simp add: opt_size_def)
  from insert_into_empty_loaded_twice [OF inv e(1) _ _ _ _ this, of 0] d show ?thesis by blast
qed

text \<open>
  \<^verbatim>\<open>GetByIndex\<close> into empty buffers returns the key, value and metadata of the record and changes
  only the page cache.  Past the end it returns \<^verbatim>\<open>LDB_INVALID_RECNO\<close> and touches nothing, except for
  the index \<^verbatim>\<open>0xFFFFFFFF\<close>, for which \<^verbatim>\<open>index + 1\<close> wraps to zero, the test passes and the vector is
  read out of bounds.
\<close>

theorem get_by_index_correct:
  assumes "ldb_ok d" and "table_ok d t c" and "length (ti_records t) < 2 ^ 32 - 1"
  shows "(unat i < length (ti_records t) \<longrightarrow>
            (\<exists>d'. GetByIndex t i (Some []) (Some []) (Some []) d =
               (let (k, v, w) = table_content (t, d) ! unat i in Inr (i, Some k, Some v, Some w, d')) \<and>
             same_db d d')) \<and>
         (length (ti_records t) \<le> unat i \<and> i \<noteq> 0xFFFFFFFF \<longrightarrow>
            GetByIndex t i k v w d = Inr (LDB_INVALID_RECNO, k, v, w, d)) \<and>
         (i = 0xFFFFFFFF \<longrightarrow> GetByIndex t i k v w d = Inl BufferOverrun)"
proof (intro conjI impI)
  assume i: "unat i < length (ti_records t)"
  have coh: "pf_coherent (ldb_file d)" using assms(1) by (simp add: ldb_ok_def pf_inv_def)
  have r: "record_inside (disk d) (ti_records t ! unat i)"
    using table_ok_inside [OF assms(1,2)] i by simp
  obtain d' where "GetByIndex t (of_nat (unat i)) (Some []) (Some []) (Some []) d =
      Inr (of_nat (unat i), Some (fbytes (disk d) (lr_key (ti_records t ! unat i))),
        Some (fbytes (disk d) (lr_value (ti_records t ! unat i))),
        Some (fbytes (disk d) (lr_metadata (ti_records t ! unat i))), d')" "same_db d d'"
    by (rule GetByIndex_ok [OF coh i _ r, of "Some []" "Some []" "Some []", unfolded read_out_fresh])
      (use assms(3) in simp)
  then show "\<exists>d'. GetByIndex t i (Some []) (Some []) (Some []) d =
      (let (k, v, w) = table_content (t, d) ! unat i in Inr (i, Some k, Some v, Some w, d')) \<and> same_db d d'"
    using i by (auto simp: table_content_def cell_of_def)
next
  assume i: "length (ti_records t) \<le> unat i \<and> i \<noteq> 0xFFFFFFFF"
  then have "unat (i + 1) = unat i + 1" using u32_suc_less [of i] by (subst unat_add_u32) simp_all
  then show "GetByIndex t i k v w d = Inr (LDB_INVALID_RECNO, k, v, w, d)"
    using i by (simp add: GetByIndex_def)
next
  assume "i = 0xFFFFFFFF"
  then show "GetByIndex t i k v w d = Inl BufferOverrun" using assms(3) by (simp add: GetByIndex_def)
qed

lemma full_content: "table_content (full_table, full_db) = [([7], [], [])]"
  by (simp add: table_content_def cell_of_def fbytes_def file_read_def full_table_def full_record_def full_db_def
      field_of_def zero_field_def)

theorem get_by_index_correct_witness:
  "(\<exists>d'. GetByIndex full_table 0 (Some []) (Some []) (Some []) full_db =
      Inr (0, Some [7], Some [], Some [], d')) \<and>
   GetByIndex full_table 1 None None None full_db = Inr (LDB_INVALID_RECNO, None, None, None, full_db) \<and>
   GetByIndex full_table 0xFFFFFFFF None None None full_db = Inl BufferOverrun"
  using get_by_index_correct [OF full_db_ok, of 0 None None None]
    get_by_index_correct [OF full_db_ok, of 1 None None None]
    get_by_index_correct [OF full_db_ok, of "0xFFFFFFFF" None None None]
  by (auto simp: full_content full_table_def [THEN arg_cong, of ti_records])

text \<open>
  \<^verbatim>\<open>FindKey\<close> returns the first index, from the start index on, whose record has the key, and
  \<^verbatim>\<open>LDB_INVALID_RECNO\<close> when there is none or the start index is out of range: the comparison of
  sizes and hashes that precedes the comparison of the bytes never loses a match.
\<close>

theorem find_key_first:
  assumes "ldb_ok d" and "table_ok d t c" and "length (ti_records t) < 2 ^ 32" and "length key < 2 ^ 32"
    and "\<forall>r \<in> set (ti_records t). lf_hash (lr_key r) = DoHash (fbytes (disk d) (lr_key r))"
  shows "\<exists>d'. FindKey t start key d =
      Inr (first_index (\<lambda>i. fst (table_content (t, d) ! i) = key) [unat start..<length (ti_records t)], d') \<and>
      same_db d d'"
proof -
  have coh: "pf_coherent (ldb_file d)" using assms(1) by (simp add: ldb_ok_def pf_inv_def)
  note inside = table_ok_inside [OF assms(1,2)]
  have eq: "key_at (disk d) (ti_records t ! i) key = (fst (table_content (t, d) ! i) = key)"
    if "i \<in> set [unat start..<length (ti_records t)]" for i
  proof -
    let ?f = "lr_key (ti_records t ! i)"
    have r: "ti_records t ! i \<in> set (ti_records t)" using that by simp
    then have "field_inside (disk d) ?f" using inside by (auto simp: record_inside_def record_fields_def)
    then have "length (fbytes (disk d) ?f) = unat (lf_data_size ?f)"
      by (auto simp: fbytes_def file_read_def field_inside_def)
    moreover have "fst (table_content (t, d) ! i) = fbytes (disk d) ?f"
      using that by (simp add: table_content_def cell_of_def)
    ultimately show ?thesis using r assms(5) by (auto simp: key_at_def)
  qed
  have "first_index (\<lambda>i. key_at (disk d) (ti_records t ! i) key) [unat start..<length (ti_records t)] =
      first_index (\<lambda>i. fst (table_content (t, d) ! i) = key) [unat start..<length (ti_records t)]"
    by (rule first_index_cong) (rule eq)
  with FindKey_ok [OF coh assms(3,4) inside, of start] show ?thesis by simp
qed

theorem find_key_first_witness:
  "\<exists>d'. FindKey full_table 0 [7] full_db = Inr (0, d')"
proof -
  have "fbytes (disk full_db) (lr_key full_record) = [7]" using full_content
    by (simp add: table_content_def cell_of_def full_table_def)
  then have "\<forall>r \<in> set (ti_records full_table). lf_hash (lr_key r) = DoHash (fbytes (disk full_db) (lr_key r))"
    by (simp add: full_table_def) (simp add: full_record_def field_of_def)
  from find_key_first [OF full_db_ok _ _ this, of "[7]" 0] full_content show ?thesis
    by (auto simp: full_table_def [THEN arg_cong, of ti_records])
qed


section \<open>Two tables in one file\<close>

text \<open>No block of the first chain overlaps a block or a field of the second.\<close>

definition apart_from :: "chain \<Rightarrow> chain \<Rightarrow> bool" where
  "apart_from c e \<longleftrightarrow> (\<forall>b \<in> fst ` set c.
     (\<forall>b' \<in> fst ` set e. bend b \<le> boff b' \<or> bend b' \<le> boff b) \<and>
     (\<forall>r \<in> set (log_of e). \<forall>f \<in> record_fields r. clear_of b f))"

lemma chain_below: "on_disk d t c \<Longrightarrow> b \<in> fst ` set c \<Longrightarrow> bend b \<le> unat (ldb_next_data_offset d)"
  using on_disk_bends(1) [of d t c] by (auto simp: on_disk_def intro: order_trans)

lemma apart_from_logged:
  assumes l: "logged d t c r n d' t' c'" and u: "table_ok d u e" and ap: "apart_from c e"
  shows "apart_from c' e"
proof -
  have "(\<forall>x \<in> fst ` set e. bend b' \<le> boff x \<or> bend x \<le> boff b') \<and>
      (\<forall>r \<in> set (log_of e). \<forall>f \<in> record_fields r. clear_of b' f)" if b': "b' \<in> fst ` set c'" for b'
  proof -
    have e: "bend x \<le> unat (ldb_next_data_offset d)" if "x \<in> fst ` set e" for x
      using chain_below [OF _ that] u by (auto simp: table_ok_def)
    have f: "field_below (unat (ldb_next_data_offset d)) f" if "r \<in> set (log_of e)" "f \<in> record_fields r" for r f
      using u that by (auto simp: table_ok_def record_ok_def)
    have "unat (ldb_next_data_offset d) \<le> boff b' \<or> (\<exists>b \<in> fst ` set c. boff b' = boff b \<and> bend b' = bend b)"
      using l b' unfolding logged_def by blast
    then show ?thesis
    proof (elim disjE bexE)
      assume "unat (ldb_next_data_offset d) \<le> boff b'"
      then show ?thesis using e f by (fastforce simp: clear_of_def field_below_def)
    next
      fix b assume "b \<in> fst ` set c" "boff b' = boff b \<and> bend b' = bend b"
      then show ?thesis using ap unfolding apart_from_def clear_of_def by auto
    qed
  qed
  then show ?thesis by (simp add: apart_from_def)
qed

lemma other_table_kept:
  assumes l: "logged d t c r n d' t' c'" and on: "on_disk d t c" and u: "table_ok d u e" and ap: "apart_from c e"
  shows "table_ok d' u e" and "table_content (u, d') = table_content (u, d)"
proof -
  obtain pre rs where "c = pre @ [(ti_last_block t, rs)]" by (rule on_disk_obtain [OF on])
  then have b: "ti_last_block t \<in> fst ` set c" by simp
  have rd: "file_read (disk d') off k = file_read (disk d) off k"
    if "off + k \<le> boff (ti_last_block t) \<or> bend (ti_last_block t) \<le> off"
      "off + k \<le> unat (ldb_next_data_offset d)" for off k
    using l that unfolding logged_def by blast
  have len: "length (disk d) \<le> length (disk d')" and mono: "unat (ldb_next_data_offset d) \<le> unat (ldb_next_data_offset d')"
    using l by (auto simp: logged_def)
  have blocks: "block_at (disk d') x xs" if "(x, xs) \<in> set e" for x xs
  proof (rule block_at_frame [of "disk d"])
    have x: "x \<in> fst ` set e" using that by force
    have sep: "bend (ti_last_block t) \<le> boff x \<or> bend x \<le> boff (ti_last_block t)"
      using ap b x unfolding apart_from_def by blast
    have "bend x \<le> unat (ldb_next_data_offset d)"
      using chain_below [OF _ x] u by (auto simp: table_ok_def)
    then show "file_read (disk d') off n = file_read (disk d) off n" if "boff x \<le> off" "off + n \<le> bend x" for off n
      using rd [of off n] sep that by auto
    show "block_at (disk d) x xs" using u that by (auto simp: table_ok_def on_disk_def chain_at_def)
  qed (rule len)
  have "\<forall>r \<in> set (log_of e). record_ok (unat (ldb_next_data_offset d')) (fst ` set e) r"
    using u record_ok_mono [OF _ mono, of "fst ` set e" _ "fst ` set e"] by (auto simp: table_ok_def)
  then show "table_ok d' u e"
    using u blocks mono by (auto simp: table_ok_def on_disk_def chain_at_def)
  have "cell_of (disk d') r = cell_of (disk d) r" if r: "r \<in> set (ti_records u)" for r
  proof -
    have "r \<in> set (log_of e)" using u r set_replay [of "log_of e" "[]"] by (auto simp: table_ok_def)
    then have "fbytes (disk d') f = fbytes (disk d) f" if "f \<in> record_fields r" for f
      using ap b table_ok_fields(2) [OF u r that] that
      by (intro fbytes_logged [OF l]) (auto simp: apart_from_def)
    then show ?thesis by (simp add: cell_of_def record_fields_def)
  qed
  then show "table_content (u, d') = table_content (u, d)" by (simp add: table_content_def)
qed

text \<open>
  C27: tables of one file do not disturb each other.  A call on one table leaves the chain, the
  records and the contents of every other table whose blocks and fields are apart from its
  blocks as they are, and the two stay apart.
\<close>

theorem tables_independent:
  assumes "ldb_ok d" and "table_ok d t c" and "op_allowed op (t, d)" and "table_ok d u e" and "apart_from c e"
  shows "\<exists>t' d' c'. run_op op (t, d) = Inr (t', d') \<and> table_ok d' t' c' \<and>
           table_content (t', d') = spec_op op (table_content (t, d)) \<and>
           table_ok d' u e \<and> table_content (u, d') = table_content (u, d) \<and> apart_from c' e"
proof -
  obtain t' d' c' where r: "run_op op (t, d) = Inr (t', d')" "ldb_ok d'" "table_ok d' t' c'"
    "table_content (t', d') = spec_op op (table_content (t, d))"
    "t' = t \<and> d' = d \<and> c' = c \<or> (\<exists>r n. logged d t c r n d' t' c')"
    by (rule run_op_ok [OF assms(1,2,3)])
  have on: "on_disk d t c" using assms(2) by (simp add: table_ok_def)
  from r(5) have "table_ok d' u e \<and> table_content (u, d') = table_content (u, d) \<and> apart_from c' e"
  proof (elim disjE exE)
    fix r n assume l: "logged d t c r n d' t' c'"
    show ?thesis
      using other_table_kept [OF l on assms(4,5)] apart_from_logged [OF l assms(4,5)] by simp
  qed (use assms(4,5) in simp)
  with r(1,3,4) show ?thesis by blast
qed

text \<open>A second, empty table behind the first one.\<close>

definition second_table :: table_info where
  "second_table = \<lparr> ti_name = [117], ti_last_block = \<lparr> bi_block_header =
     \<lparr> bh_size = 64, bh_used_count = 0, bh_next_block_offset = 0 \<rparr>, bi_offset = 128 \<rparr>, ti_records = [] \<rparr>"

definition pair_db :: ldb where
  "pair_db = full_db\<lparr> ldb_file := (ldb_file full_db)\<lparr> pf_disk := disk full_db @
       block_header_bytes (bi_block_header (ti_last_block second_table)) @ replicate 116 0xEE \<rparr>,
     ldb_next_data_offset := 192 \<rparr>"

lemma pair_db_ok:
  "ldb_ok pair_db" "table_ok pair_db full_table [(full_block, [full_record])]"
  "table_ok pair_db second_table [(ti_last_block second_table, [])]"
proof -
  have len: "length (disk full_db) = 128" by (simp add: full_db_def)
  show "ldb_ok pair_db"
    using len by (simp add: ldb_ok_def pf_inv_def pf_coherent_def pair_db_def) (simp add: full_db_def)
  have "block_at (disk full_db) full_block [full_record]"
    using full_db_ok(2) by (simp add: table_ok_def on_disk_def chain_at_def)
  then have "block_at (disk pair_db) full_block [full_record]"
    by (rule block_at_frame) (auto simp: pair_db_def file_read_def len full_block_def bend_def boff_def bsize_def)
  moreover have "record_ok 80 {full_block} full_record"
    using full_db_ok(2) by (simp add: table_ok_def log_of_def) (simp add: full_db_def)
  then have "record_ok 192 {full_block} full_record" by (rule record_ok_mono) auto
  moreover have "bend full_block \<le> 192" by (simp add: full_block_def bend_def boff_def bsize_def)
  moreover have "linked [full_block]" by (simp add: linked_def full_block_def)
  ultimately show "table_ok pair_db full_table [(full_block, [full_record])]"
    by (simp add: table_ok_def on_disk_def chain_at_def log_of_def full_table_def) (simp add: pair_db_def)
  have "block_at (disk pair_db) (ti_last_block second_table) []"
    by (simp add: block_at_def boff_def bsize_def bend_def file_read_def pair_db_def second_table_def len)
  then show "table_ok pair_db second_table [(ti_last_block second_table, [])]"
    by (simp add: table_ok_def on_disk_def chain_at_def linked_def log_of_def bend_def boff_def bsize_def)
      (simp add: second_table_def pair_db_def)
qed

theorem tables_independent_witness:
  "\<exists>t' d' c'. run_op (TSet 0 None (Some [9]) None) (full_table, pair_db) = Inr (t', d') \<and> table_ok d' t' c' \<and>
     table_content (t', d') =
       spec_op (TSet 0 None (Some [9]) None) (table_content (full_table, pair_db)) \<and>
     table_ok d' second_table [(ti_last_block second_table, [])] \<and>
     table_content (second_table, d') = table_content (second_table, pair_db) \<and>
     apart_from c' [(ti_last_block second_table, [])]"
proof (rule tables_independent [OF pair_db_ok(1,2) _ pair_db_ok(3)])
  have "length (disk pair_db) = 256" "grow_slack pair_db = 128"
    by (simp_all add: pair_db_def full_db_def grow_slack_def)
  then show "op_allowed (TSet 0 None (Some [9]) None) (full_table, pair_db)"
    by (simp add: op_allowed_def op_size_def opt_size_def full_table_def full_block_def bsize_def)
  show "apart_from [(full_block, [full_record])] [(ti_last_block second_table, [])]"
    by (simp add: apart_from_def log_of_def full_block_def second_table_def bend_def boff_def bsize_def)
qed


section \<open>Opening a database\<close>

text \<open>Loading a table changes neither the header nor the list of tables.\<close>

definition static :: "ldb \<Rightarrow> ldb_file_header \<times> table_info \<times> (byte list \<times> table_info) list \<times> u32 \<times> u32" where
  "static d = (ldb_header d, ldb_metatable d, ldb_tables d, ldb_default_block_size d, ldb_grow_pages_step d)"

lemma static_read: "ldb_read off n d = (bs, d') \<Longrightarrow> static d' = static d"
  by (auto simp: ldb_read_def static_def split: prod.splits)

lemma static_load_record: "load_record r (t, d) = Inr (t', d') \<Longrightarrow> static d' = static d"
  by (auto simp: load_record_def static_def Let_def fault_simps split: prod.splits if_splits)

lemma static_load_records: "load_records rs (t, d) = Inr (t', d') \<Longrightarrow> static d' = static d"
proof (induction rs arbitrary: t d)
  case (Cons r rs)
  then obtain t1 d1 where "load_record r (t, d) = Inr (t1, d1)" "load_records rs (t1, d1) = Inr (t', d')"
    by (auto simp: fault_simps)
  with Cons.IH static_load_record show ?case by metis
qed simp

lemma static_LoadBlock: "LoadBlock t d = Inr (t', d') \<Longrightarrow> static d' = static d"
proof -
  assume l: "LoadBlock t d = Inr (t', d')"
  obtain bs d1 where r: "ldb_read (bi_offset (ti_last_block t)) 12 d = (bs, d1)"
    by (cases "ldb_read (bi_offset (ti_last_block t)) 12 d")
  let ?h = "bytes_block_header bs" and ?off = "bi_offset (ti_last_block t)"
  define d2 where "d2 = (if ldb_next_data_offset d1 < ?off + bh_size ?h
    then d1\<lparr> ldb_next_data_offset := ?off + bh_size ?h \<rparr> else d1)"
  have s2: "static d2 = static d" using static_read [OF r] by (simp add: d2_def static_def)
  let ?b = "\<lparr> bi_block_header = ?h, bi_offset = ?off \<rparr>"
  obtain rs d3 where r3: "LoadLogRecords ?b d2 = (rs, d3)" by (cases "LoadLogRecords ?b d2")
  then have "static d3 = static d2"
    by (auto simp: LoadLogRecords_def Let_def dest: static_read split: if_splits prod.splits)
  moreover have "d' = d2 \<or> load_records rs (t\<lparr> ti_last_block := ?b \<rparr>, d3) = Inr (t', d')"
    using l r r3 by (auto simp: LoadBlock_def Let_def d2_def split: if_splits)
  ultimately show ?thesis using s2 static_load_records by metis
qed

lemma static_load_all_blocks:
  "load_all_blocks fuel a off t d = Inr (a', t', d') \<Longrightarrow> static d' = static d"
proof (induction fuel arbitrary: a off t d)
  case (Suc fuel)
  show ?case
  proof (cases "off = 0")
    case False
    then obtain t1 d1 where "LoadBlock (t\<lparr> ti_last_block := (ti_last_block t)\<lparr> bi_offset := off \<rparr> \<rparr>) d = Inr (t1, d1)"
      "load_all_blocks fuel (a + 1) (bh_next_block_offset (bi_block_header (ti_last_block t1))) t1 d1 = Inr (a', t', d')"
      using Suc.prems by (auto simp: Let_def fault_simps)
    with Suc.IH static_LoadBlock show ?thesis by metis
  qed (use Suc.prems in simp)
qed (auto split: if_splits)

text \<open>
  A table from a new database object on the file, whatever else the object holds by then.
\<close>

lemma LoadAllBlocks_table:
  assumes ok: "ldb_ok d" and tab: "table_ok d t c" and sp: "spaced c"
    and coh: "pf_coherent (ldb_file d1)" "disk d1 = disk d"
  obtains d2 where "LoadAllBlocks (length (disk d)) (table_handle (ti_name t) (bi_offset (fst (hd c)))) d1 =
      Inr (of_nat (length c), t, d2)"
    and "pf_coherent (ldb_file d2)" and "disk d2 = disk d" and "static d2 = static d1"
proof -
  let ?h = "table_handle (ti_name t) (bi_offset (fst (hd c)))"
  have ch: "chain_at (disk d) c" using tab by (simp add: table_ok_def on_disk_def)
  note ld = table_ok_loadable [OF ok tab]
  have len: "length (disk d) < 2 ^ 32" using ok by (simp add: ldb_ok_def)
  have "linked (map fst c)" using ch by (simp add: chain_at_def)
  from load_all_blocks_chain [OF this ld(1) chain_length [OF ch] coh(1) coh(2) len, of 0 ?h] sp
  obtain d2 where d2: "load_all_blocks (length (disk d)) 0 (bi_offset (fst (hd c))) ?h d1 =
      Inr (0 + of_nat (length c),
        ?h\<lparr> ti_last_block := fst (last c), ti_records := fold replay1 (log_of c) (ti_records ?h) \<rparr>, d2)"
    "pf_coherent (ldb_file d2)" "disk d2 = disk d" by auto
  have t: "?h\<lparr> ti_last_block := fst (last c), ti_records := fold replay1 (log_of c) (ti_records ?h) \<rparr> = t"
    using tab by (simp add: table_handle_def table_ok_def on_disk_def)
  show ?thesis
  proof (rule that [OF _ d2(2,3)])
    show "LoadAllBlocks (length (disk d)) ?h d1 = Inr (of_nat (length c), t, d2)"
      using d2(1) t ld(2) by (simp add: LoadAllBlocks_def table_handle_def)
    show "static d2 = static d1" by (rule static_load_all_blocks [OF d2(1)])
  qed
qed

text \<open>
  A consistent database: the record of the metatable for a table has its name and the offset of
  its first block, and the tables in memory are those the metatable lists.
\<close>

type_synonym entry = "byte list \<times> table_info \<times> chain"

definition entry_ok :: "ldb \<Rightarrow> ldb_log_record \<Rightarrow> entry \<Rightarrow> bool" where
  "entry_ok d r = (\<lambda>(name, t, c).
     fbytes (disk d) (lr_key r) = name \<and> field_inside (disk d) (lr_key r) \<and> lf_data_offset (lr_key r) \<noteq> 0 \<and>
     name \<noteq> [] \<and> ti_name t = name \<and>
     lf_data_offset (lr_value r) = bi_offset (fst (hd c)) \<and> 12 < lf_data_size (lr_value r) \<and>
     table_ok d t c \<and> spaced c)"

definition tables_of :: "entry list \<Rightarrow> (byte list \<times> table_info) list" where
  "tables_of xs = fold (\<lambda>(name, t, c). sm_set name t) xs []"

definition db_ok :: "ldb \<Rightarrow> chain \<Rightarrow> entry list \<Rightarrow> bool" where
  "db_ok d m xs \<longleftrightarrow> ldb_ok d \<and> 16 \<le> length (disk d) \<and>
     file_read (disk d) 0 16 = file_header_bytes (ldb_header d) \<and> fh_magic (ldb_header d) = LDB_MAGIC \<and>
     fh_table_block_offset (ldb_header d) = bi_offset (fst (hd m)) \<and>
     ti_name (ldb_metatable d) = [] \<and> table_ok d (ldb_metatable d) m \<and> spaced m \<and>
     list_all2 (entry_ok d) (ti_records (ldb_metatable d)) xs \<and> ldb_tables d = tables_of xs"

lemma load_tables_ok:
  assumes "ldb_ok d" and "list_all2 (entry_ok d) rs xs"
    and "pf_coherent (ldb_file d1)" and "disk d1 = disk d"
  shows "\<exists>d2. load_tables (length (disk d)) rs d1 = Inr d2 \<and> pf_coherent (ldb_file d2) \<and> disk d2 = disk d \<and>
           static d2 = static (d1\<lparr> ldb_tables := fold (\<lambda>(name, t, c). sm_set name t) xs (ldb_tables d1) \<rparr>)"
  using assms(2,3,4)
proof (induction rs xs arbitrary: d1 rule: list_all2_induct)
  case Nil
  then show ?case by (simp add: static_def)
next
  case (Cons r rs x xs)
  obtain name t c where x: "x = (name, t, c)" by (cases x) auto
  have e: "fbytes (disk d) (lr_key r) = name" "field_inside (disk d) (lr_key r)" "lf_data_offset (lr_key r) \<noteq> 0"
    "name \<noteq> []" "ti_name t = name" "lf_data_offset (lr_value r) = bi_offset (fst (hd c))"
    "12 < lf_data_size (lr_value r)" "table_ok d t c" "spaced c"
    using Cons.hyps x by (simp_all add: entry_ok_def)
  obtain g where g: "ldb_read (lf_data_offset (lr_key r)) (lf_data_size (lr_key r)) d1 =
      (file_read (disk d1) (unat (lf_data_offset (lr_key r))) (unat (lf_data_size (lr_key r))), d1\<lparr> ldb_file := g \<rparr>)"
    "pf_coherent g" "pf_disk g = disk d1"
    by (rule ldb_read_ok [OF Cons.prems(1)]) (use e(2) Cons.prems(2) in \<open>simp_all add: field_inside_def\<close>)
  have key: "ReadField (lr_key r) d1 = (name, d1\<lparr> ldb_file := g \<rparr>)"
    using g(1) e(1) Cons.prems(2) by (simp add: ReadField_def fbytes_def)
  obtain d2 where d2: "LoadAllBlocks (length (disk d)) (table_handle (ti_name t) (bi_offset (fst (hd c))))
      (d1\<lparr> ldb_file := g \<rparr>) = Inr (of_nat (length c), t, d2)" "pf_coherent (ldb_file d2)" "disk d2 = disk d"
    "static d2 = static (d1\<lparr> ldb_file := g \<rparr>)"
    by (rule LoadAllBlocks_table [OF assms(1) e(8,9), of "d1\<lparr> ldb_file := g \<rparr>"]) (use g Cons.prems(2) in simp_all)
  let ?d3 = "d2\<lparr> ldb_tables := sm_set name t (ldb_tables d2) \<rparr>"
  have sz: "lf_data_size (lr_value r) \<noteq> 0" using e(7) by auto
  have "load_tables (length (disk d)) (r # rs) d1 = load_tables (length (disk d)) rs ?d3"
    using key d2(1) e(3-7) sz by (simp add: table_handle_def)
  moreover obtain d4 where "load_tables (length (disk d)) rs ?d3 = Inr d4" "pf_coherent (ldb_file d4)"
    "disk d4 = disk d" "static d4 = static (?d3\<lparr> ldb_tables := fold (\<lambda>(name, t, c). sm_set name t) xs (ldb_tables ?d3) \<rparr>)"
    using Cons.IH [of ?d3] d2(2,3) by auto
  moreover have "ldb_tables d2 = ldb_tables d1" using d2(4) by (simp add: static_def)
  ultimately show ?case using d2(4) x by (simp add: static_def)
qed

lemma coherent_SetPageSize:
  "0 < n \<Longrightarrow> n \<le> 4194304 \<Longrightarrow> length (pf_disk f) \<le> 2 ^ 32 \<Longrightarrow> pf_coherent (pf_SetPageSize n f)"
  "pf_disk (pf_SetPageSize n f) = pf_disk f"
  by (simp_all add: pf_SetPageSize_def pf_FreeCache_def pf_coherent_def div_greater_zero_iff)




section \<open>A damaged file\<close>

text \<open>
  C34: a damaged file can keep the load of a table running for ever.  A block whose size field is
  \<^verbatim>\<open>0xFFFFFFFF\<close> and whose link points to itself passes the assertion of \<^verbatim>\<open>LoadAllBlocks\<close>, because
  \<^verbatim>\<open>nextTableOffset + size\<close> wraps to less than the offset; the walk reads the same block in every
  turn, whatever number of turns it is given.
\<close>

theorem self_linked_block_loops:
  assumes "pf_coherent (ldb_file d)" and "unat off + 12 \<le> length (disk d)" and "off \<noteq> 0"
    and "file_read (disk d) (unat off) 12 = block_header_bytes
      \<lparr> bh_size = 0xFFFFFFFF, bh_used_count = 0, bh_next_block_offset = off \<rparr>"
    and "bi_offset (ti_last_block t) = off"
  shows "LoadAllBlocks fuel t d = Inl StillRunning"
proof -
  let ?h = "\<lparr> bh_size = 0xFFFFFFFF, bh_used_count = 0, bh_next_block_offset = off \<rparr>"
  have step: "\<exists>t' d'. LoadBlock (t\<lparr> ti_last_block := (ti_last_block t)\<lparr> bi_offset := off \<rparr> \<rparr>) d = Inr (t', d') \<and>
      bi_block_header (ti_last_block t') = ?h \<and> pf_coherent (ldb_file d') \<and> disk d' = F"
    if p: "pf_coherent (ldb_file d)" "disk d = F" "unat off + 12 \<le> length F"
      "file_read F (unat off) 12 = block_header_bytes ?h" for t d F
  proof -
    obtain g where "ldb_read off 12 d = (block_header_bytes ?h, d\<lparr> ldb_file := g \<rparr>)" "pf_coherent g" "pf_disk g = F"
      using ldb_read_ok [OF p(1), of off 12] p by auto
    then show ?thesis by (simp add: LoadBlock_def Let_def)
  qed
  have wrap: "off + 0xFFFFFFFF < off"
  proof -
    have "off + 0xFFFFFFFF = off - 1" by simp
    moreover have "unat (off - 1) = unat off - 1" using assms(3) by (simp add: unat_sub_u32 unat_gt_0 Suc_leI)
    ultimately have "unat (off + 0xFFFFFFFF) = unat off - 1" by (simp only:)
    then show ?thesis using assms(3) unat_gt_0 [of off] unfolding word_less_nat_alt by linarith
  qed
  have "load_all_blocks fuel a off t d = Inl StillRunning"
    if "pf_coherent (ldb_file d)" "disk d = F" "unat off + 12 \<le> length F"
      "file_read F (unat off) 12 = block_header_bytes ?h" for a t d F
    using that
  proof (induction fuel arbitrary: a t d)
    case 0
    then show ?case using assms(3) by simp
  next
    case (Suc fuel)
    from step [OF Suc.prems, of t] obtain t' d' where
      "LoadBlock (t\<lparr> ti_last_block := (ti_last_block t)\<lparr> bi_offset := off \<rparr> \<rparr>) d = Inr (t', d')"
      "bi_block_header (ti_last_block t') = ?h" "pf_coherent (ldb_file d')" "disk d' = F" by blast
    with Suc.IH [of d' "a + 1" t'] Suc.prems(3,4) assms(3) wrap show ?case by simp
  qed
  from this [OF assms(1) refl assms(2,4)] show ?thesis
    using assms(3,5) by (simp add: LoadAllBlocks_def)
qed

definition loop_db :: ldb where
  "loop_db = (Ldb_new 0)\<lparr> ldb_file := PagedFile_new 0 (replicate 16 0 @ block_header_bytes
     \<lparr> bh_size = 0xFFFFFFFF, bh_used_count = 0, bh_next_block_offset = 16 \<rparr> @ replicate 4068 0xEE) \<rparr>"

theorem self_linked_block_loops_witness:
  "LoadAllBlocks 1000 (table_handle [] 16) loop_db = Inl StillRunning"
  by (rule self_linked_block_loops [where off = 16])
    (simp_all add: loop_db_def PagedFile_new_def pf_SetPageSize_def pf_FreeCache_def pf_coherent_def
      file_read_def table_handle_def)

end
