(* ===== verification/AccessControl.thy ===== *)
theory AccessControl
  imports StdMap
begin

text \<open>
  \<^verbatim>\<open>class Auth\<close> of \<^verbatim>\<open>server/tio/auth.h\<close>: which session may send which command to which object.
  An object has a map from commands to the tokens allowed and denied.  A \<^verbatim>\<open>std::set\<close> of tokens is a
  set, the maps are those of \<^verbatim>\<open>std::map\<close>.  An entry created by \<^verbatim>\<open>operator[]\<close> is value-initialised:
  its default rule is the first enumerator.
\<close>

section \<open>Rules\<close>

datatype rule_result = Allow | Deny | NoRule

record auth_command =
  ac_denies :: "string set"
  ac_allows :: "string set"
  ac_default :: rule_result

record auth_object =
  ao_default :: rule_result
  ao_commands :: "(string \<times> auth_command) list"

record auth =
  au_object_rules :: "(string \<times> auth_object) list"
  au_object_default :: rule_result
  au_command_rules :: "(string \<times> auth_command) list"
  au_command_default :: rule_result

definition zero_command :: auth_command where
  "zero_command = \<lparr> ac_denies = {}, ac_allows = {}, ac_default = Allow \<rparr>"

definition zero_object :: auth_object where
  "zero_object = \<lparr> ao_default = Allow, ao_commands = [] \<rparr>"

definition Auth_new :: auth where
  "Auth_new = \<lparr> au_object_rules = [], au_object_default = Allow, au_command_rules = [],
     au_command_default = Allow \<rparr>"

text \<open>\<^verbatim>\<open>operator[]\<close>: the value of the key, which is added when it is missing.\<close>

definition entry_at :: "'v \<Rightarrow> 'k :: linorder \<Rightarrow> ('k \<times> 'v) list \<Rightarrow> 'v" where
  "entry_at zero k m = (case sm_find k m of None \<Rightarrow> zero | Some v \<Rightarrow> v)"


section \<open>Checking\<close>

fun FindRuleForTokens :: "string set \<Rightarrow> string list \<Rightarrow> bool" where
  "FindRuleForTokens commandTokens [] = False"
| "FindRuleForTokens commandTokens (token # tokens) =
     (if token \<in> commandTokens then True else FindRuleForTokens commandTokens tokens)"

definition CheckCommandTokens :: "auth_command \<Rightarrow> string list \<Rightarrow> rule_result" where
  "CheckCommandTokens cmd tokens =
     (if FindRuleForTokens (ac_denies cmd) tokens then Deny
      else if FindRuleForTokens (ac_allows cmd) tokens then Allow
      else ac_default cmd)"

definition CheckCommandAccess :: "string \<Rightarrow> string list \<Rightarrow> auth \<Rightarrow> rule_result" where
  "CheckCommandAccess command tokens a =
     (case sm_find command (au_command_rules a) of
        None \<Rightarrow> au_command_default a
      | Some cmd \<Rightarrow> CheckCommandTokens cmd tokens)"

definition fullQualifiedName :: "string \<Rightarrow> string \<Rightarrow> string" where
  "fullQualifiedName objectType objectName = objectType @ ''/'' @ objectName"

definition CheckObjectAccess :: "string \<Rightarrow> string \<Rightarrow> string \<Rightarrow> string list \<Rightarrow> auth \<Rightarrow> rule_result" where
  "CheckObjectAccess objectType objectName command tokens a =
     (case sm_find (fullQualifiedName objectType objectName) (au_object_rules a) of
        None \<Rightarrow> au_object_default a
      | Some obj \<Rightarrow>
          (case (case ao_commands obj of
                   [(first, cmd)] \<Rightarrow> if first = ''*'' then Some cmd else sm_find command (ao_commands obj)
                 | _ \<Rightarrow> sm_find command (ao_commands obj)) of
             None \<Rightarrow> ao_default obj
           | Some cmd \<Rightarrow> CheckCommandTokens cmd tokens))"

definition CheckObjectAccess1 :: "string \<Rightarrow> string \<Rightarrow> string \<Rightarrow> string \<Rightarrow> auth \<Rightarrow> rule_result" where
  "CheckObjectAccess1 objectType objectName command token a =
     CheckObjectAccess objectType objectName command [token] a"


section \<open>Changing the rules\<close>

definition AddObjectRule :: "string \<Rightarrow> string \<Rightarrow> string \<Rightarrow> string \<Rightarrow> rule_result \<Rightarrow> auth \<Rightarrow> auth" where
  "AddObjectRule objectType objectName command token result a =
     (let name = fullQualifiedName objectType objectName;
          obj = entry_at zero_object name (au_object_rules a);
          cmd = entry_at zero_command command (ao_commands obj);
          cmd = (case result of
                   Allow \<Rightarrow> cmd\<lparr> ac_allows := insert token (ac_allows cmd) \<rparr>
                 | Deny \<Rightarrow> cmd\<lparr> ac_denies := insert token (ac_denies cmd) \<rparr>
                 | NoRule \<Rightarrow> cmd)
      in a\<lparr> au_object_rules := sm_set name (obj\<lparr> ao_commands := sm_set command cmd (ao_commands obj) \<rparr>)
              (au_object_rules a) \<rparr>)"

definition SetObjectDefaultRule :: "string \<Rightarrow> string \<Rightarrow> rule_result \<Rightarrow> auth \<Rightarrow> auth" where
  "SetObjectDefaultRule objectType objectName rule a =
     (let name = fullQualifiedName objectType objectName;
          obj = entry_at zero_object name (au_object_rules a)
      in a\<lparr> au_object_rules := sm_set name (obj\<lparr> ao_default := rule \<rparr>) (au_object_rules a) \<rparr>)"

definition SetDefaultRule :: "rule_result \<Rightarrow> auth \<Rightarrow> auth" where
  "SetDefaultRule rule a = a\<lparr> au_object_default := rule \<rparr>"


section \<open>The rules as a policy\<close>

lemma FindRuleForTokens_iff: "FindRuleForTokens S tokens \<longleftrightarrow> (\<exists>token \<in> set tokens. token \<in> S)"
  by (induction tokens) auto

text \<open>The maps stay ordered; \<open>auth_inv\<close> is kept by every change.\<close>

definition auth_inv :: "auth \<Rightarrow> bool" where
  "auth_inv a \<longleftrightarrow> sm_inv (au_object_rules a) \<and> (\<forall>(n, obj) \<in> set (au_object_rules a). sm_inv (ao_commands obj))"

lemma entry_inv:
  assumes "auth_inv a"
  shows "sm_inv (ao_commands (entry_at zero_object name (au_object_rules a)))"
proof (cases "sm_find name (au_object_rules a)")
  case (Some obj)
  then have "(name, obj) \<in> set (au_object_rules a)"
    using assms sm_find_items [of "au_object_rules a" name obj] by (simp add: auth_inv_def)
  then show ?thesis using assms Some by (auto simp: entry_at_def auth_inv_def)
qed (simp add: entry_at_def zero_object_def sm_inv_def)

lemma set_sm_set: "set (sm_set k v m) \<subseteq> insert (k, v) (set m)"
  by (induction k v m rule: sm_set.induct) auto

lemma auth_inv_update:
  assumes "auth_inv a" and "sm_inv (ao_commands obj)"
  shows "auth_inv (a\<lparr> au_object_rules := sm_set name obj (au_object_rules a) \<rparr>)"
  using assms set_sm_set [of name obj "au_object_rules a"]
  by (auto simp: auth_inv_def sm_set_inv)

lemma auth_inv_ops:
  "auth_inv Auth_new"
  "auth_inv a \<Longrightarrow> auth_inv (AddObjectRule objectType objectName command token result a)"
  "auth_inv a \<Longrightarrow> auth_inv (SetObjectDefaultRule objectType objectName rule a)"
  "auth_inv a \<Longrightarrow> auth_inv (SetDefaultRule rule a)"
proof -
  show "auth_inv Auth_new" by (simp add: auth_inv_def Auth_new_def sm_inv_def)
  show "auth_inv a \<Longrightarrow> auth_inv (AddObjectRule objectType objectName command token result a)"
    unfolding AddObjectRule_def Let_def by (intro auth_inv_update) (simp_all add: entry_inv sm_set_inv)
  show "auth_inv a \<Longrightarrow> auth_inv (SetObjectDefaultRule objectType objectName rule a)"
    unfolding SetObjectDefaultRule_def Let_def by (intro auth_inv_update) (simp_all add: entry_inv)
  show "auth_inv a \<Longrightarrow> auth_inv (SetDefaultRule rule a)" by (simp add: SetDefaultRule_def auth_inv_def)
qed


section \<open>What the rules guarantee\<close>

text \<open>The calls that change the rules, in the order in which they come.\<close>

datatype auth_op =
    AddRule string string string string rule_result
  | ObjectDefault string string rule_result
  | DefaultRule rule_result

fun auth_exec :: "auth_op \<Rightarrow> auth \<Rightarrow> auth" where
  "auth_exec (AddRule objectType objectName command token result) a =
     AddObjectRule objectType objectName command token result a"
| "auth_exec (ObjectDefault objectType objectName rule) a = SetObjectDefaultRule objectType objectName rule a"
| "auth_exec (DefaultRule rule) a = SetDefaultRule rule a"

text \<open>The object has a deny rule for the token and the command.\<close>

definition denied :: "string \<Rightarrow> string \<Rightarrow> string \<Rightarrow> auth \<Rightarrow> bool" where
  "denied name command token a \<longleftrightarrow> auth_inv a \<and>
     (\<exists>obj cmd. sm_find name (au_object_rules a) = Some obj \<and> sm_find command (ao_commands obj) = Some cmd \<and>
        token \<in> ac_denies cmd)"

lemma denied_AddObjectRule:
  "auth_inv a \<Longrightarrow>
   denied (fullQualifiedName objectType objectName) command token
     (AddObjectRule objectType objectName command token Deny a)"
  using auth_inv_ops(2) [of a objectType objectName command token Deny]
  by (auto simp: denied_def AddObjectRule_def Let_def sm_find_set entry_inv auth_inv_def)

lemma denied_step:
  assumes "denied name command token a"
  shows "denied name command token (auth_exec op a)"
proof -
  obtain obj cmd where a: "auth_inv a" "sm_find name (au_object_rules a) = Some obj"
    "sm_find command (ao_commands obj) = Some cmd" "token \<in> ac_denies cmd"
    using assms by (auto simp: denied_def)
  have inv: "sm_inv (au_object_rules a)" using a(1) by (simp add: auth_inv_def)
  show ?thesis
  proof (cases op)
    case (AddRule t n c tok r)
    let ?name = "fullQualifiedName t n"
    let ?obj = "entry_at zero_object ?name (au_object_rules a)"
    have e: "sm_inv (ao_commands ?obj)" by (rule entry_inv [OF a(1)])
    show ?thesis
    proof (cases "?name = name")
      case True
      then have "?obj = obj" using a(2) by (simp add: entry_at_def)
      with True a e inv auth_inv_ops(2) [OF a(1), of t n c tok r] AddRule show ?thesis
        by (cases r) (auto simp: denied_def AddObjectRule_def Let_def sm_find_set entry_at_def split: option.splits)
    next
      case False
      with a inv auth_inv_ops(2) [OF a(1), of t n c tok r] AddRule show ?thesis
        by (auto simp: denied_def AddObjectRule_def Let_def sm_find_set)
    qed
  next
    case (ObjectDefault t n r)
    with a inv auth_inv_ops(3) [OF a(1), of t n r] show ?thesis
      by (auto simp: denied_def SetObjectDefaultRule_def Let_def sm_find_set entry_at_def)
  next
    case (DefaultRule r)
    with a auth_inv_ops(4) [OF a(1), of r] show ?thesis by (auto simp: denied_def SetDefaultRule_def)
  qed
qed

lemma denied_check:
  assumes "denied (fullQualifiedName objectType objectName) command token a" and "token \<in> set tokens"
  shows "CheckObjectAccess objectType objectName command tokens a = Deny"
proof -
  obtain obj cmd where a: "sm_find (fullQualifiedName objectType objectName) (au_object_rules a) = Some obj"
    "sm_find command (ao_commands obj) = Some cmd" "token \<in> ac_denies cmd"
    using assms(1) by (auto simp: denied_def)
  have "(case ao_commands obj of [(first, c)] \<Rightarrow> if first = ''*'' then Some c else sm_find command (ao_commands obj)
      | _ \<Rightarrow> sm_find command (ao_commands obj)) = Some cmd"
    using a(2) by (auto split: list.split if_splits)
  then show ?thesis
    using a assms(2) by (auto simp: CheckObjectAccess_def CheckCommandTokens_def FindRuleForTokens_iff)
qed

text \<open>
  C29: a deny rule is final.  Once a token is denied a command on an object, every session that holds
  the token is refused the command on that object after any further changes of the rules, allow
  rules for the same token and new defaults included.
\<close>

theorem deny_rule_is_final:
  assumes "token \<in> set tokens"
  shows "CheckObjectAccess objectType objectName command tokens
    (fold auth_exec (before @ AddRule objectType objectName command token Deny # after) Auth_new) = Deny"
proof -
  have inv: "auth_inv (fold auth_exec ops Auth_new)" for ops
  proof (induction ops rule: rev_induct)
    case (snoc op ops)
    then show ?case by (cases op) (simp_all add: auth_inv_ops)
  qed (simp add: auth_inv_ops)
  have "denied (fullQualifiedName objectType objectName) command token (fold auth_exec ops a)"
    if "denied (fullQualifiedName objectType objectName) command token a" for ops a
    using that by (induction ops arbitrary: a) (auto dest: denied_step)
  from denied_check [OF this assms] denied_AddObjectRule [OF inv] show ?thesis by simp
qed

theorem deny_rule_is_final_witness:
  "CheckObjectAccess ''volatile_map'' ''users'' ''set'' [''guest'', ''staff'']
    (fold auth_exec ([] @ AddRule ''volatile_map'' ''users'' ''set'' ''guest'' Deny #
      [AddRule ''volatile_map'' ''users'' ''set'' ''staff'' Allow, DefaultRule Allow]) Auth_new) = Deny"
  by (rule deny_rule_is_final) simp

text \<open>
  An object without rules follows the default of the server, but the first rule for one of its
  commands opens the others: with the server default set to deny and a single rule that allows one
  token one command, every token is allowed every other command on the object, because the entry
  created for the object has its own default, which is allow.
\<close>

theorem object_rule_opens_object:
  assumes "command \<noteq> ''*''" and "command' \<noteq> command"
  shows "CheckObjectAccess objectType objectName command' tokens (SetDefaultRule Deny Auth_new) = Deny \<and>
         CheckObjectAccess objectType objectName command' tokens
           (AddObjectRule objectType objectName command token Allow (SetDefaultRule Deny Auth_new)) = Allow"
  using assms
  by (simp add: CheckObjectAccess_def AddObjectRule_def SetDefaultRule_def Auth_new_def entry_at_def zero_object_def
      zero_command_def Let_def)

theorem object_rule_opens_object_witness:
  "CheckObjectAccess ''volatile_map'' ''users'' ''clear'' [] (SetDefaultRule Deny Auth_new) = Deny \<and>
   CheckObjectAccess ''volatile_map'' ''users'' ''clear'' []
     (AddObjectRule ''volatile_map'' ''users'' ''get'' ''staff'' Allow (SetDefaultRule Deny Auth_new)) = Allow"
  by (rule object_rule_opens_object) simp_all

text \<open>
  A rule for all commands stops to apply as soon as the object has a rule for any single command.
\<close>

lemma star_rule_dropped:
  assumes "command \<noteq> ''*''" and "command' \<noteq> ''*''" and "command' \<noteq> command"
  shows "CheckObjectAccess objectType objectName command' [token]
           (AddObjectRule objectType objectName ''*'' token Deny Auth_new) = Deny \<and>
         CheckObjectAccess objectType objectName command' [token]
           (AddObjectRule objectType objectName command token' result
             (AddObjectRule objectType objectName ''*'' token Deny Auth_new)) = Allow"
  using assms
  by (auto simp: CheckObjectAccess_def AddObjectRule_def Auth_new_def entry_at_def zero_object_def
      zero_command_def CheckCommandTokens_def Let_def)

end
