(* ===== verification/ServerMessages.thy ===== *)
theory ServerMessages
  imports ClientData TioData
begin

text \<open>
  How the server builds and reads binary messages (the inline functions at the top of
  \<^verbatim>\<open>server/tio/TioTcpSession.h\<close>), on the messages of the client library (\<open>Pr1Message\<close>) and the
  server's values (\<open>TioData\<close>).  The two ends are put together here: what a client puts in a
  request is what the server reads, and what the server puts in an answer is what the client reads.
\<close>

text \<open>A fault of the C functions inside the server.\<close>

fun c_error :: "c_fault \<Rightarrow> cpp_error" where
  "c_error BufferOverrun = undefined_behaviour ''buffer overrun''"
| "c_error AssertionFailed = assertion_failed"
| "c_error NullDereference = undefined_behaviour ''null pointer''"
| "c_error DanglingPointer = undefined_behaviour ''dangling pointer''"
| "c_error StillRunning = undefined_behaviour ''still running''"

definition lift_c :: "'a cres \<Rightarrow> 'a cpp" where
  "lift_c r = (case r of Inl e \<Rightarrow> Inl (c_error e) | Inr x \<Rightarrow> Inr x)"

lemma lift_c_simps [simp]: "lift_c (Inl e) = Inl (c_error e)" "lift_c (Inr x) = Inr x"
  by (simp_all add: lift_c_def)

lemma lift_c_bind: "lift_c (bind_res m f) = bind_res (lift_c m) (\<lambda>x. lift_c (f x))"
  by (cases m) simp_all

lemma lift_c_Inr_iff: "lift_c r = Inr x \<longleftrightarrow> r = Inr x"
  by (cases r) simp_all


section \<open>Reading fields\<close>

definition Pr1MessageToCppTioData :: "block \<Rightarrow> nat \<Rightarrow> tio_data cpp" where
  "Pr1MessageToCppTioData b f =
     bind_res (lift_c (data_type_at b f)) (\<lambda>t.
     if t = MESSAGE_FIELD_TYPE_NONE then Inr TNone
     else if t = MESSAGE_FIELD_TYPE_STRING
     then bind_res (lift_c (data_size_at b f)) (\<lambda>n.
            SetRaw TNone (drop (f + sizeof_PR1_MESSAGE_FIELD_HEADER) b) (unat n))
     else if t = MESSAGE_FIELD_TYPE_INT
     then bind_res (lift_c (pr1_message_field_get_int b f)) (\<lambda>v. Inr (SetInt TNone v))
     else if t = MESSAGE_FIELD_TYPE_DOUBLE
     then bind_res (lift_c (pr1_message_field_get_double b f)) (\<lambda>v. Inr (SetDouble TNone v))
     else Inr TNone)"

text \<open>
  The three overloads of \<^verbatim>\<open>Pr1MessageGetField\<close>: \<open>None\<close> is the result \<^verbatim>\<open>false\<close>, which leaves the
  output parameter alone.
\<close>

definition Pr1MessageGetField_data :: "pr1_message \<Rightarrow> u32 \<Rightarrow> tio_data option cpp" where
  "Pr1MessageGetField_data m fieldId =
     bind_res (lift_c (pr1_message_field_find_by_id m fieldId)) (\<lambda>r.
     case r of None \<Rightarrow> Inr None
     | Some f \<Rightarrow> bind_res (Pr1MessageToCppTioData (pm_block m) f) (\<lambda>d. Inr (Some d)))"

definition Pr1MessageGetField_string :: "pr1_message \<Rightarrow> u32 \<Rightarrow> byte list option cpp" where
  "Pr1MessageGetField_string m fieldId =
     bind_res (lift_c (pr1_message_field_find_by_id m fieldId)) (\<lambda>r.
     case r of None \<Rightarrow> Inr None
     | Some f \<Rightarrow>
         bind_res (lift_c (data_type_at (pm_block m) f)) (\<lambda>t.
         if t \<noteq> MESSAGE_FIELD_TYPE_STRING then Inr None
         else
           bind_res (lift_c (data_size_at (pm_block m) f)) (\<lambda>n.
           bind_res (lift_c (mem_read (pm_block m) (f + sizeof_PR1_MESSAGE_FIELD_HEADER) (unat n))) (\<lambda>s.
             Inr (Some s)))))"

definition Pr1MessageGetField_int :: "pr1_message \<Rightarrow> u32 \<Rightarrow> u32 option cpp" where
  "Pr1MessageGetField_int m fieldId =
     bind_res (lift_c (pr1_message_field_find_by_id m fieldId)) (\<lambda>r.
     case r of None \<Rightarrow> Inr None
     | Some f \<Rightarrow>
         bind_res (lift_c (data_type_at (pm_block m) f)) (\<lambda>t.
         if t \<noteq> MESSAGE_FIELD_TYPE_INT then Inr None
         else bind_res (lift_c (pr1_message_field_get_int (pm_block m) f)) (\<lambda>v. Inr (Some v))))"

text \<open>
  The output parameters are the current values of the caller's objects, \<open>None\<close> a null pointer; the
  handle is always asked for by the callers and is 0 when the message has none.
\<close>

definition get_data_into :: "pr1_message \<Rightarrow> u32 \<Rightarrow> tio_data option \<Rightarrow> tio_data option cpp" where
  "get_data_into m fieldId out =
     (case out of
        None \<Rightarrow> Inr None
      | Some old \<Rightarrow>
          bind_res (Pr1MessageGetField_data m fieldId) (\<lambda>r.
            Inr (Some (case r of None \<Rightarrow> old | Some d \<Rightarrow> d))))"

definition Pr1MessageGetHandleKeyValueAndMetadata ::
    "pr1_message \<Rightarrow> tio_data option \<Rightarrow> tio_data option \<Rightarrow> tio_data option \<Rightarrow>
     (u32 \<times> tio_data option \<times> tio_data option \<times> tio_data option) cpp" where
  "Pr1MessageGetHandleKeyValueAndMetadata m key v metadata =
     bind_res (Pr1MessageGetField_int m (ucast MESSAGE_FIELD_ID_HANDLE)) (\<lambda>h.
     bind_res (get_data_into m (ucast MESSAGE_FIELD_ID_KEY) key) (\<lambda>key.
     bind_res (get_data_into m (ucast MESSAGE_FIELD_ID_VALUE) v) (\<lambda>v.
     bind_res (get_data_into m (ucast MESSAGE_FIELD_ID_METADATA) metadata) (\<lambda>metadata.
       Inr (case h of None \<Rightarrow> 0 | Some h \<Rightarrow> h, key, v, metadata)))))"


section \<open>Adding fields\<close>

definition Pr1MessageAddField_int :: "pr1_message \<Rightarrow> u16 \<Rightarrow> u32 \<Rightarrow> pr1_message cpp" where
  "Pr1MessageAddField_int m fieldId v = lift_c (pr1_message_add_field_int m fieldId v)"

text \<open>A \<^verbatim>\<open>std::string\<close> passed as \<^verbatim>\<open>c_str()\<close>: its bytes and a zero.\<close>

definition Pr1MessageAddField_string :: "pr1_message \<Rightarrow> u16 \<Rightarrow> byte list \<Rightarrow> pr1_message cpp" where
  "Pr1MessageAddField_string m fieldId v = lift_c (pr1_message_add_field_string m fieldId (v @ [0]))"

definition Pr1MessageAddField_data :: "pr1_message \<Rightarrow> u16 \<Rightarrow> tio_data \<Rightarrow> pr1_message cpp" where
  "Pr1MessageAddField_data m fieldId tiodata =
     (case GetDataType tiodata of
        StringT \<Rightarrow>
          bind_res (AsRaw tiodata) (\<lambda>raw. bind_res (GetSize tiodata) (\<lambda>n.
            lift_c (pr1_message_add_field m fieldId MESSAGE_FIELD_TYPE_STRING raw (of_nat n))))
      | IntT \<Rightarrow>
          bind_res (AsRaw tiodata) (\<lambda>raw. bind_res (GetSize tiodata) (\<lambda>n.
            lift_c (pr1_message_add_field m fieldId MESSAGE_FIELD_TYPE_INT raw (of_nat n))))
      | DoubleT \<Rightarrow>
          bind_res (AsRaw tiodata) (\<lambda>raw. bind_res (GetSize tiodata) (\<lambda>n.
            lift_c (pr1_message_add_field m fieldId MESSAGE_FIELD_TYPE_DOUBLE raw (of_nat n))))
      | _ \<Rightarrow> lift_c (pr1_message_add_field m fieldId MESSAGE_FIELD_TYPE_NONE [] 0))"

definition Pr1CreateMessage :: "pr1_message cpp" where
  "Pr1CreateMessage = lift_c pr1_message_new"

definition Pr1CreateAnswerMessage :: "pr1_message cpp" where
  "Pr1CreateAnswerMessage =
     bind_res Pr1CreateMessage (\<lambda>m. Pr1MessageAddField_int m MESSAGE_FIELD_ID_COMMAND TIO_COMMAND_ANSWER)"

definition add_unless_none :: "pr1_message \<Rightarrow> u16 \<Rightarrow> tio_data option \<Rightarrow> pr1_message cpp" where
  "add_unless_none m fieldId d =
     (case d of
        None \<Rightarrow> Inr m
      | Some x \<Rightarrow> if GetDataType x \<noteq> NoneT then Pr1MessageAddField_data m fieldId x else Inr m)"

definition Pr1MessageAddFields ::
    "pr1_message \<Rightarrow> tio_data option \<Rightarrow> tio_data option \<Rightarrow> tio_data option \<Rightarrow> pr1_message cpp" where
  "Pr1MessageAddFields m key v metadata =
     bind_res (add_unless_none m MESSAGE_FIELD_ID_KEY key) (\<lambda>m.
     bind_res (add_unless_none m MESSAGE_FIELD_ID_VALUE v) (\<lambda>m.
       add_unless_none m MESSAGE_FIELD_ID_METADATA metadata))"

definition Pr1CreateAnswerMessageWith ::
    "tio_data option \<Rightarrow> tio_data option \<Rightarrow> tio_data option \<Rightarrow> pr1_message cpp" where
  "Pr1CreateAnswerMessageWith key v metadata =
     bind_res Pr1CreateAnswerMessage (\<lambda>answer. Pr1MessageAddFields answer key v metadata)"


section \<open>What the messages hold\<close>

text \<open>The value of the client library a server value travels as.\<close>

fun client_value :: "tio_data \<Rightarrow> tio_value" where
  "client_value TNone = VNone"
| "client_value (TInt i) = VInt i"
| "client_value (TDouble d) = VDouble d"
| "client_value (TString s) = VString s"

fun server_value :: "tio_value \<Rightarrow> tio_data" where
  "server_value VNone = TNone"
| "server_value (VInt i) = TInt i"
| "server_value (VDouble d) = TDouble d"
| "server_value (VString s) = TString s"

lemma server_client_value [simp]: "server_value (client_value d) = d" "client_value (server_value v) = v"
  by (cases d; simp_all) (cases v; simp_all)

definition data_field :: "u16 \<Rightarrow> tio_data \<Rightarrow> pr1_field" where
  "data_field i d = value_field i (client_value d)"

definition int_field :: "u16 \<Rightarrow> u32 \<Rightarrow> pr1_field" where
  "int_field i v = data_field i (TInt v)"

text \<open>A value is left out when it is null or a null pointer.\<close>

definition data_fields :: "u16 \<Rightarrow> tio_data option \<Rightarrow> pr1_field list" where
  "data_fields i d = (case d of None \<Rightarrow> [] | Some x \<Rightarrow> if x = TNone then [] else [data_field i x])"

definition record_fields :: "tio_data option \<Rightarrow> tio_data option \<Rightarrow> tio_data option \<Rightarrow> pr1_field list" where
  "record_fields k v md =
     data_fields MESSAGE_FIELD_ID_KEY k @ data_fields MESSAGE_FIELD_ID_VALUE v @
     data_fields MESSAGE_FIELD_ID_METADATA md"

definition answer_fields :: "tio_data option \<Rightarrow> tio_data option \<Rightarrow> tio_data option \<Rightarrow> pr1_field list" where
  "answer_fields k v md = int_field MESSAGE_FIELD_ID_COMMAND TIO_COMMAND_ANSWER # record_fields k v md"

lemma GetDataType_NoneT [simp]: "GetDataType d = NoneT \<longleftrightarrow> d = TNone"
  by (cases d) simp_all

lemma fst_data_field [simp]: "fst (data_field i d) = i" "fst (int_field i v) = i"
  by (simp_all add: data_field_def int_field_def)

lemma data_field_ok [simp]:
  "i \<noteq> 0 \<Longrightarrow> i \<le> MESSAGE_FIELD_ID_MAX_VALUE \<Longrightarrow> pr1_field_ok (data_field i d)"
  "i \<noteq> 0 \<Longrightarrow> i \<le> MESSAGE_FIELD_ID_MAX_VALUE \<Longrightarrow> pr1_field_ok (int_field i v)"
  by (simp_all add: data_field_def int_field_def value_field_ok del: pr1_field_ok.simps value_field.simps
      client_value.simps)

text \<open>\<open>makes c fs\<close>: the construction \<open>c\<close> gives a message with the fields \<open>fs\<close>, when they fit.\<close>

definition fits :: "pr1_field list \<Rightarrow> bool" where
  "fits fs \<longleftrightarrow> length (encode_fields fs) < 2 ^ 31 - 4096"

definition makes :: "pr1_message cpp \<Rightarrow> pr1_field list \<Rightarrow> bool" where
  "makes c fs \<longleftrightarrow> (fits fs \<longrightarrow> (\<exists>m. c = Inr m \<and> pm_holds m fs))"

text \<open>\<open>adds f fs\<close>: the step \<open>f\<close> appends the fields \<open>fs\<close>.\<close>

definition adds :: "(pr1_message \<Rightarrow> pr1_message cpp) \<Rightarrow> pr1_field list \<Rightarrow> bool" where
  "adds f fs \<longleftrightarrow> (\<forall>m gs. pm_holds m gs \<and> fits (gs @ fs) \<longrightarrow> (\<exists>m'. f m = Inr m' \<and> pm_holds m' (gs @ fs)))"

lemma fits_append: "fits (fs @ gs) \<Longrightarrow> fits fs" "fits (fs @ gs) \<Longrightarrow> fits gs"
  by (simp_all add: fits_def)

lemma makes_new: "makes Pr1CreateMessage []"
  using pr1_message_new_holds unfolding makes_def Pr1CreateMessage_def by (metis lift_c_simps(2))

lemma makes_bind: "makes c fs \<Longrightarrow> adds f gs \<Longrightarrow> makes (bind_res c f) (fs @ gs)"
  unfolding makes_def adds_def by (metis fits_append(1) bind_res_simps(2))

lemma adds_id: "adds Inr []"
  by (simp add: adds_def)

lemma adds_bind: "adds f fs \<Longrightarrow> adds g gs \<Longrightarrow> adds (\<lambda>m. bind_res (f m) g) (fs @ gs)"
  unfolding adds_def using fits_append by (metis append_assoc bind_res_simps(2))

lemma adds_one:
  assumes "length d = unat n"
  shows "adds (\<lambda>m. lift_c (pr1_message_add_field m i t d n)) [(i, t, d)]"
  unfolding adds_def fits_def
proof (intro allI impI)
  fix m gs assume h: "pm_holds m gs \<and> length (encode_fields (gs @ [(i, t, d)])) < 2 ^ 31 - 4096"
  then have "length (encode_fields gs) + length d < 2 ^ 31 - 4096" by simp
  from pr1_message_add_field_holds [OF conjunct1 [OF h] assms this, of i t]
  show "\<exists>m'. lift_c (pr1_message_add_field m i t d n) = Inr m' \<and> pm_holds m' (gs @ [(i, t, d)])"
    by (auto simp: lift_c_Inr_iff)
qed

lemma adds_int: "adds (\<lambda>m. Pr1MessageAddField_int m i v) [int_field i v]"
  using adds_one [of "u32_bytes v" 4 i 3]
  by (simp add: Pr1MessageAddField_int_def pr1_message_add_field_int_def int_field_def data_field_def)

text \<open>A field too long for 32 bits does not fit a message.\<close>

lemma adds_long: "2 ^ 31 \<le> length d \<Longrightarrow> adds f [(i, t, d)]"
  by (auto simp: adds_def fits_def)

lemma adds_data: "adds (\<lambda>m. Pr1MessageAddField_data m i d) [data_field i d]"
proof (cases d)
  case (TString s)
  show ?thesis
  proof (cases "length s < 2 ^ 31")
    case True
    then have "length s = unat (of_nat (length s) :: u32)" by (simp add: unat_of_nat_u32)
    from adds_one [OF this] TString show ?thesis
      by (simp add: Pr1MessageAddField_data_def data_field_def)
  next
    case False
    then show ?thesis using TString adds_long [of s] by (simp add: data_field_def)
  qed
next
  case (TInt v)
  then show ?thesis using adds_one [of "u32_bytes v" 4 i 3]
    by (simp add: Pr1MessageAddField_data_def data_field_def)
next
  case (TDouble v)
  then show ?thesis using adds_one [of "u64_bytes v" 8 i 4]
    by (simp add: Pr1MessageAddField_data_def data_field_def)
next
  case TNone
  then show ?thesis using adds_one [of "[]" 0 i 1]
    by (simp add: Pr1MessageAddField_data_def data_field_def)
qed

lemma adds_string: "adds (\<lambda>m. Pr1MessageAddField_string m i s) [data_field i (TString (c_str s))]"
proof (cases "length (c_str s) < 2 ^ 31")
  case True
  have t: "takeWhile (\<lambda>c. c \<noteq> 0) (s @ [0]) = c_str s"
    unfolding c_str_def by (induction s) simp_all
  have pre: "take (length (c_str s)) (s @ [0]) = c_str s"
    by (metis t takeWhile_eq_take)
  have n: "length (c_str s) = unat (of_nat (length (c_str s)) :: u32)"
    using True by (simp add: unat_of_nat_u32)
  have "pr1_message_add_field_string m i (s @ [0]) =
      pr1_message_add_field m i 2 (c_str s) (of_nat (length (c_str s)))" for m
  proof -
    have "length (c_str s) \<le> length (s @ [0])"
      unfolding c_str_def by (simp add: le_SucI length_takeWhile_le)
    then show ?thesis
      using pr1_message_add_field_take [of "of_nat (length (c_str s))" "s @ [0]" m i 2] True n pre
      by (simp add: pr1_message_add_field_string_def strlen32_def Let_def t)
  qed
  then show ?thesis using adds_one [OF n] by (simp add: Pr1MessageAddField_string_def data_field_def)
next
  case False
  then show ?thesis using adds_long [of "c_str s"] by (simp add: data_field_def)
qed

lemma adds_unless_none: "adds (\<lambda>m. add_unless_none m i d) (data_fields i d)"
  using adds_id adds_data by (auto simp: add_unless_none_def data_fields_def split: option.splits)

lemma adds_record: "adds (\<lambda>m. Pr1MessageAddFields m k v md) (record_fields k v md)"
  unfolding Pr1MessageAddFields_def record_fields_def by (intro adds_bind adds_unless_none)

lemmas makes_message = makes_bind [OF makes_new] makes_bind [OF makes_bind]
lemmas adds_rules = adds_int adds_data adds_string adds_record adds_unless_none

lemma makes_answer: "makes (Pr1CreateAnswerMessageWith k v md) (answer_fields k v md)"
  using makes_bind [OF makes_bind [OF makes_new adds_int] adds_record,
      of MESSAGE_FIELD_ID_COMMAND TIO_COMMAND_ANSWER k v md]
  by (simp add: Pr1CreateAnswerMessageWith_def Pr1CreateAnswerMessage_def answer_fields_def)


section \<open>Reading what was received\<close>

lemma read_field_parts:
  assumes "read_field b p = Inr (i, t, d)"
  shows "data_type_at b p = Inr t" and "\<exists>n. data_size_at b p = Inr n \<and> unat n = length d \<and>
    mem_read b (p + 8) (unat n) = Inr d \<and> take (length d) (drop (p + 8) b) = d \<and> p + 8 + length d \<le> length b"
proof -
  show "data_type_at b p = Inr t"
    using assms by (auto simp: read_field_def bind_res_Inr_iff)
  obtain n where n: "data_size_at b p = Inr n" "mem_read b (p + 8) (unat n) = Inr d"
    using assms by (auto simp: read_field_def bind_res_Inr_iff pr1_message_field_get_buffer_def)
  then have "p + 8 + unat n \<le> length b" "d = take (unat n) (drop (p + 8) b)"
    by (auto simp: mem_read_Inr_iff)
  moreover from this have "length d = unat n" by simp
  ultimately show "\<exists>n. data_size_at b p = Inr n \<and> unat n = length d \<and>
    mem_read b (p + 8) (unat n) = Inr d \<and> take (length d) (drop (p + 8) b) = d \<and> p + 8 + length d \<le> length b"
    using n by (intro exI [of _ n]) simp
qed

lemma to_cpp_data:
  assumes "read_field b p = Inr (data_field i d)"
  shows "Pr1MessageToCppTioData b p = Inr d"
proof (cases d)
  case TNone
  then show ?thesis using assms read_field_parts [of b p i 1 "[]"]
    by (simp add: Pr1MessageToCppTioData_def data_field_def)
next
  case (TInt v)
  then have r: "read_field b p = Inr (i, 3, u32_bytes v)" using assms by (simp add: data_field_def)
  obtain n where n: "data_size_at b p = Inr n" "unat n = 4" "mem_read b (p + 8) (unat n) = Inr (u32_bytes v)"
    using read_field_parts(2) [OF r] by auto
  then have "unat n = unat (4 :: u32)" by simp
  then have "n = 4" by (rule unsigned_word_eqI)
  then show ?thesis using TInt n read_field_parts(1) [OF r]
    by (simp add: Pr1MessageToCppTioData_def pr1_message_field_get_int_def SetInt_def)
next
  case (TDouble v)
  then have r: "read_field b p = Inr (i, 4, u64_bytes v)" using assms by (simp add: data_field_def)
  obtain n where n: "data_size_at b p = Inr n" "unat n = 8" "mem_read b (p + 8) (unat n) = Inr (u64_bytes v)"
    using read_field_parts(2) [OF r] by auto
  then have "unat n = unat (8 :: u32)" by simp
  then have "n = 8" by (rule unsigned_word_eqI)
  then show ?thesis using TDouble n read_field_parts(1) [OF r]
    by (simp add: Pr1MessageToCppTioData_def pr1_message_field_get_double_def SetDouble_def)
next
  case (TString s)
  then have r: "read_field b p = Inr (i, 2, s)" using assms by (simp add: data_field_def)
  from read_field_parts(2) [OF r] show ?thesis using TString read_field_parts(1) [OF r]
    by (auto simp: Pr1MessageToCppTioData_def SetRaw_def)
qed

abbreviation field_with :: "u32 \<Rightarrow> pr1_field list \<Rightarrow> pr1_field option" where
  "field_with fid fs \<equiv> find (\<lambda>g. (ucast (fst g) :: u32) = fid) fs"

lemma finds_none:
  "pm_finds m fs \<Longrightarrow> field_with fid fs = None \<Longrightarrow> pr1_message_field_find_by_id m fid = Inr None"
  by (auto simp: pm_finds_def dest: spec [of _ fid])

lemma finds_some:
  "pm_finds m fs \<Longrightarrow> field_with fid fs = Some f \<Longrightarrow>
   \<exists>p. pr1_message_field_find_by_id m fid = Inr (Some p) \<and> read_field (pm_block m) p = Inr f"
  by (auto simp: pm_finds_def dest!: spec [of _ fid])

lemma get_data:
  assumes "pm_finds m fs" and "field_with fid fs = map_option (data_field i) x"
  shows "Pr1MessageGetField_data m fid = Inr x"
proof (cases x)
  case None
  then show ?thesis using finds_none [OF assms(1), of fid] assms(2)
    by (simp add: Pr1MessageGetField_data_def)
next
  case (Some d)
  then obtain p where "pr1_message_field_find_by_id m fid = Inr (Some p)"
    "read_field (pm_block m) p = Inr (data_field i d)"
    using finds_some [OF assms(1), of fid] assms(2) by auto
  then show ?thesis using Some to_cpp_data by (simp add: Pr1MessageGetField_data_def)
qed

lemma get_int:
  assumes "pm_finds m fs" and "field_with fid fs = map_option (data_field i) x"
  shows "Pr1MessageGetField_int m fid = Inr (case x of Some (TInt v) \<Rightarrow> Some v | _ \<Rightarrow> None)"
proof (cases x)
  case None
  then show ?thesis using finds_none [OF assms(1), of fid] assms(2)
    by (simp add: Pr1MessageGetField_int_def)
next
  case (Some d)
  then obtain p where p: "pr1_message_field_find_by_id m fid = Inr (Some p)"
    and r: "read_field (pm_block m) p = Inr (data_field i d)"
    using finds_some [OF assms(1), of fid] assms(2) by auto
  have t: "data_type_at (pm_block m) p = Inr (fst (snd (data_field i d)))"
    using read_field_parts(1) [of _ p] r by (cases "data_field i d") simp
  have c: "Pr1MessageToCppTioData (pm_block m) p = Inr d" by (rule to_cpp_data [OF r])
  show ?thesis
  proof (cases d)
    case (TInt v)
    then have "lift_c (pr1_message_field_get_int (pm_block m) p) = Inr v"
      using c t by (simp add: Pr1MessageToCppTioData_def data_field_def bind_res_Inr_iff SetInt_def)
    then show ?thesis using Some TInt p t by (simp add: Pr1MessageGetField_int_def data_field_def)
  qed (use Some p t in \<open>simp_all add: Pr1MessageGetField_int_def data_field_def\<close>)
qed

lemma get_string:
  assumes "pm_finds m fs" and "field_with fid fs = map_option (data_field i) x"
  shows "Pr1MessageGetField_string m fid = Inr (case x of Some (TString s) \<Rightarrow> Some s | _ \<Rightarrow> None)"
proof (cases x)
  case None
  then show ?thesis using finds_none [OF assms(1), of fid] assms(2)
    by (simp add: Pr1MessageGetField_string_def)
next
  case (Some d)
  then obtain p where p: "pr1_message_field_find_by_id m fid = Inr (Some p)"
    and r: "read_field (pm_block m) p = Inr (data_field i d)"
    using finds_some [OF assms(1), of fid] assms(2) by auto
  have t: "data_type_at (pm_block m) p = Inr (fst (snd (data_field i d)))"
    using read_field_parts(1) [of _ p] r by (cases "data_field i d") simp
  show ?thesis
  proof (cases d)
    case (TString s)
    then have "read_field (pm_block m) p = Inr (i, 2, s)" using r by (simp add: data_field_def)
    from read_field_parts(2) [OF this] show ?thesis using Some TString p t
      by (auto simp: Pr1MessageGetField_string_def data_field_def)
  qed (use Some p t in \<open>simp_all add: Pr1MessageGetField_string_def data_field_def\<close>)
qed

lemma get_into:
  assumes "pm_finds m fs" and "field_with fid fs = map_option (data_field i) x"
  shows "get_data_into m fid (Some TNone) = Inr (Some (case x of None \<Rightarrow> TNone | Some d \<Rightarrow> d))"
  using get_data [OF assms] by (cases x) (simp_all add: get_data_into_def)

lemma received:
  assumes "list_all pr1_field_ok fs" and "length fs < 2 ^ 16" and "fits fs"
  obtains r where "pr1_message_from_wire (wire q fs) = Inr r" "pm_finds r fs"
  using pr1_message_from_wire_ok [OF assms(1,2), of q] assms(3) by (auto simp: wire_def fits_def)


section \<open>Both ends\<close>

lemma optional_field_data: "optional_field i x =
    (case x of None \<Rightarrow> [] | Some d \<Rightarrow> [data_field i (server_value (tiodata_value d))])"
  by (simp add: optional_field_def data_field_def split: option.splits)

text \<open>
  C15: a data request of the client (command, handle and any of key, value and metadata) arrives at the
  server as it was sent: the command, the handle, and each value, or the null value for a null pointer.
\<close>

theorem request_read_by_server:
  assumes "opt_inv key" and "opt_inv v" and "opt_inv metadata"
    and "length (encode_fields (data_message_fields command handle key v metadata)) < 2 ^ 31 - 4096"
  shows "\<exists>m bytes n m' r. tio_generate_data_message command handle key v metadata = Inr m \<and>
     pr1_message_get_buffer m q = Inr (bytes, n, m') \<and> pr1_message_from_wire bytes = Inr r \<and>
     Pr1MessageGetField_int r (ucast MESSAGE_FIELD_ID_COMMAND) = Inr (Some command) \<and>
     Pr1MessageGetHandleKeyValueAndMetadata r (Some TNone) (Some TNone) (Some TNone) =
       Inr (handle, Some (server_value (optional_value key)), Some (server_value (optional_value v)),
            Some (server_value (optional_value metadata)))"
proof -
  let ?fs = "data_message_fields command handle key v metadata"
  obtain m where m: "tio_generate_data_message command handle key v metadata = Inr m" "pm_holds m ?fs"
    using new_message_fields [OF assms(4)] tio_generate_data_message_fields [OF assms(1-3)] by auto
  obtain m' where b: "pr1_message_get_buffer m q = Inr (wire q ?fs, of_nat (8 + length (encode_fields ?fs)), m')"
    using pr1_message_get_buffer_holds [OF m(2) assms(4), of q] by (auto simp: wire_def)
  obtain r where r: "pr1_message_from_wire (wire q ?fs) = Inr r" and f: "pm_finds r ?fs"
    using received [OF data_message_fields_ok] assms(4) unfolding fits_def by blast
  let ?opt = "\<lambda>x. map_option (\<lambda>d. server_value (tiodata_value d)) x"
  note fields = data_message_fields_def optional_field_data
  have c: "Pr1MessageGetField_int r (ucast MESSAGE_FIELD_ID_COMMAND) = Inr (Some command)"
    using get_int [OF f, of _ MESSAGE_FIELD_ID_COMMAND "Some (TInt command)"]
    by (simp add: fields data_field_def)
  have h: "Pr1MessageGetField_int r (ucast MESSAGE_FIELD_ID_HANDLE) = Inr (Some handle)"
    using get_int [OF f, of _ MESSAGE_FIELD_ID_HANDLE "Some (TInt handle)"]
    by (simp add: fields data_field_def)
  have val: "(case ?opt x of None \<Rightarrow> TNone | Some d \<Rightarrow> d) = server_value (optional_value x)" for x
    by (cases x) (simp_all add: optional_value_def)
  have k: "get_data_into r (ucast MESSAGE_FIELD_ID_KEY) (Some TNone) = Inr (Some (server_value (optional_value key)))"
    using get_into [OF f, of _ MESSAGE_FIELD_ID_KEY "?opt key"] unfolding val
    by (auto simp: fields split: option.splits)
  have w: "get_data_into r (ucast MESSAGE_FIELD_ID_VALUE) (Some TNone) = Inr (Some (server_value (optional_value v)))"
    using get_into [OF f, of _ MESSAGE_FIELD_ID_VALUE "?opt v"] unfolding val
    by (auto simp: fields split: option.splits)
  have md: "get_data_into r (ucast MESSAGE_FIELD_ID_METADATA) (Some TNone) =
      Inr (Some (server_value (optional_value metadata)))"
    using get_into [OF f, of _ MESSAGE_FIELD_ID_METADATA "?opt metadata"] unfolding val
    by (auto simp: fields split: option.splits)
  show ?thesis
    using m(1) b r c by (simp add: Pr1MessageGetHandleKeyValueAndMetadata_def h [simplified] k [simplified]
        w [simplified] md [simplified])
qed

theorem request_read_by_server_witness:
  "\<exists>m bytes n m' r.
     tio_generate_data_message TIO_COMMAND_SET 3 (Some (tiodata_set_int tiodata_init 7))
       (Some (tiodata_set_double tiodata_init 42)) None = Inr m \<and>
     pr1_message_get_buffer m 0 = Inr (bytes, n, m') \<and> pr1_message_from_wire bytes = Inr r \<and>
     Pr1MessageGetField_int r (ucast MESSAGE_FIELD_ID_COMMAND) = Inr (Some TIO_COMMAND_SET) \<and>
     Pr1MessageGetHandleKeyValueAndMetadata r (Some TNone) (Some TNone) (Some TNone) =
       Inr (3, Some (TInt 7), Some (TDouble 42), Some TNone)"
proof -
  let ?k = "tiodata_set_int tiodata_init 7" and ?v = "tiodata_set_double tiodata_init 42"
  have i: "opt_inv (Some ?k)" "opt_inv (Some ?v)" "opt_inv None"
    using tiodata_set_int_ok tiodata_set_double_ok by (simp_all add: opt_inv_def)
  have v: "optional_value (Some ?k) = VInt 7" "optional_value (Some ?v) = VDouble 42"
    "optional_value None = VNone"
    using tiodata_set_int_ok tiodata_set_double_ok by (simp_all add: optional_value_def)
  have "length (encode_fields (data_message_fields TIO_COMMAND_SET 3 (Some ?k) (Some ?v) None)) < 2 ^ 31 - 4096"
    using v by (simp add: data_message_fields_def optional_field_def optional_value_def)
  from request_read_by_server [OF i this, of 0] show ?thesis
    unfolding v by simp
qed

text \<open>An answer of the server as the client reads it.\<close>

lemma record_fields_ok [simp]: "list_all pr1_field_ok (record_fields k v md)" "length (record_fields k v md) \<le> 3"
  by (auto simp: record_fields_def data_fields_def split: option.splits)

lemma answer_fields_ok [simp]: "list_all pr1_field_ok (answer_fields k v md)" "length (answer_fields k v md) \<le> 4"
  by (auto simp: answer_fields_def)

lemma makes_wire:
  assumes "makes c fs" and "fits fs"
  shows "\<exists>m m'. c = Inr m \<and> pm_holds m fs \<and>
    pr1_message_get_buffer m q = Inr (wire q fs, of_nat (8 + length (encode_fields fs)), m')"
  using assms pr1_message_get_buffer_holds [of _ fs q] unfolding makes_def fits_def wire_def by metis

definition some_value :: "tio_data option \<Rightarrow> tio_data" where
  "some_value x = (case x of None \<Rightarrow> TNone | Some d \<Rightarrow> d)"

lemma answer_read_by_client:
  assumes "fits (answer_fields k v md)" and "tiodata_inv d"
  shows "\<exists>m m' r dk dv dm. Pr1CreateAnswerMessageWith k v md = Inr m \<and>
     pr1_message_get_buffer m q =
       Inr (wire q (answer_fields k v md), of_nat (8 + length (encode_fields (answer_fields k v md))), m') \<and>
     pr1_message_from_wire (wire q (answer_fields k v md)) = Inr r \<and>
     pr1_message_field_get_as_tio_data r (ucast MESSAGE_FIELD_ID_KEY) d = Inr dk \<and>
     tiodata_value dk = client_value (some_value k) \<and>
     pr1_message_field_get_as_tio_data r (ucast MESSAGE_FIELD_ID_VALUE) d = Inr dv \<and>
     tiodata_value dv = client_value (some_value v) \<and>
     pr1_message_field_get_as_tio_data r (ucast MESSAGE_FIELD_ID_METADATA) d = Inr dm \<and>
     tiodata_value dm = client_value (some_value md)"
proof -
  obtain m m' where m: "Pr1CreateAnswerMessageWith k v md = Inr m" "pr1_message_get_buffer m q =
      Inr (wire q (answer_fields k v md), of_nat (8 + length (encode_fields (answer_fields k v md))), m')"
    using makes_wire [OF makes_answer assms(1), of q] by auto
  have "length (answer_fields k v md) < 2 ^ 16" by (rule le_less_trans [OF answer_fields_ok(2)]) simp
  then obtain r where r: "pr1_message_from_wire (wire q (answer_fields k v md)) = Inr r"
    and f: "pm_finds r (answer_fields k v md)"
    using received assms(1) answer_fields_ok(1) by blast
  have len: "length (encode_fields (answer_fields k v md)) < 2 ^ 31" using assms(1) by (simp add: fits_def)
  let ?opt = "\<lambda>x. case x of None \<Rightarrow> None | Some d \<Rightarrow> if d = TNone then None else Some (client_value d)"
  have val: "(case ?opt x of None \<Rightarrow> VNone | Some v \<Rightarrow> v) = client_value (some_value x)" for x
    by (auto simp: some_value_def split: option.splits)
  note get = get_as_tio_value_ok [OF f assms(2) _ len]
  note fields = answer_fields_def record_fields_def data_fields_def data_field_def int_field_def
  have "\<exists>d'. pr1_message_field_get_as_tio_data r (ucast MESSAGE_FIELD_ID_KEY) d = Inr d' \<and> tiodata_inv d' \<and>
      tiodata_value d' = client_value (some_value k)"
    unfolding val [symmetric] by (rule get [where i = MESSAGE_FIELD_ID_KEY]) (auto simp: fields split: option.splits)
  moreover have "\<exists>d'. pr1_message_field_get_as_tio_data r (ucast MESSAGE_FIELD_ID_VALUE) d = Inr d' \<and> tiodata_inv d' \<and>
      tiodata_value d' = client_value (some_value v)"
    unfolding val [symmetric] by (rule get [where i = MESSAGE_FIELD_ID_VALUE]) (auto simp: fields split: option.splits)
  moreover have "\<exists>d'. pr1_message_field_get_as_tio_data r (ucast MESSAGE_FIELD_ID_METADATA) d = Inr d' \<and> tiodata_inv d' \<and>
      tiodata_value d' = client_value (some_value md)"
    unfolding val [symmetric] by (rule get [where i = MESSAGE_FIELD_ID_METADATA]) (auto simp: fields split: option.splits)
  ultimately show ?thesis using m r by blast
qed

end
