(* ===== verification/ServerSession.thy ===== *)
theory ServerSession
  imports ServerMessages ContainerManager
begin

text \<open>
  \<^verbatim>\<open>class TioTcpSession\<close> (\<^verbatim>\<open>server/tio/TioTcpSession.h\<close> and \<^verbatim>\<open>.cpp\<close>): the handle table of a client
  connection, its queue of binary messages and the gathering of them into one write, its queue of
  text, and the messages it sends for answers, events, snapshots and query results.  The socket is
  the list of the writes handed to asio; the completion of a write is a call of \<open>OnBinaryMessageSent\<close>
  or \<open>OnWrite\<close> by the environment, which asio makes with the full size when there is no error.  An
  operation returns its result and the session as it leaves it, also when it throws.
  \<^verbatim>\<open>bigLock_\<close> and \<^verbatim>\<open>writeLock_\<close> are recursive, each operation runs under them.
\<close>

definition ascii :: "string \<Rightarrow> byte list" where
  "ascii s = map of_char s"

definition of_ascii :: "byte list \<Rightarrow> string" where
  "of_ascii bs = map (\<lambda>b. char_of (unat b)) bs"

lemma of_ascii_ascii [simp]: "of_ascii (ascii n) = n"
  by (simp add: of_ascii_def ascii_def comp_def)

abbreviation (input) "crlf \<equiv> [13, 10 :: byte]"

datatype posted = RemoveClient_posted | Callback_posted nat

record tio_session =
  ts_id :: u32
  ts_handles :: "(u32 \<times> nat) list"
  ts_containerNameToHandle :: "(string \<times> u32) list"
  ts_lastHandle :: u32
  ts_sentBytes :: int
  ts_pendingSendSize :: int
  ts_maxPendingSendingSize :: int
  ts_binaryProtocol :: bool
  ts_lowPendingCallbacks :: "nat list"
  ts_pendingSendData :: "byte list list"
  ts_pendingBinarySendData :: "pr1_message list"
  ts_binarySendBuffer :: "byte list option"
  ts_binarySendInProgress :: bool
  ts_tokens :: "string list"
  ts_valid :: bool
  ts_debugSeqNum :: u16
  ts_writes :: "byte list list"
  ts_posted :: "posted list"
  ts_socket_open :: bool

definition TioTcpSession_new :: "u32 \<Rightarrow> tio_session" where
  "TioTcpSession_new i =
     \<lparr> ts_id = i, ts_handles = [], ts_containerNameToHandle = [], ts_lastHandle = 0, ts_sentBytes = 0,
       ts_pendingSendSize = 0, ts_maxPendingSendingSize = 0, ts_binaryProtocol = False,
       ts_lowPendingCallbacks = [], ts_pendingSendData = [], ts_pendingBinarySendData = [],
       ts_binarySendBuffer = None, ts_binarySendInProgress = False, ts_tokens = [], ts_valid = True,
       ts_debugSeqNum = 0, ts_writes = [], ts_posted = [], ts_socket_open = True \<rparr>"

definition PENDING_SEND_SIZE_BIG_THRESHOLD :: int where
  "PENDING_SEND_SIZE_BIG_THRESHOLD = 1024 * 1024 * 10"

definition PENDING_SEND_SIZE_SMALL_THRESHOLD :: int where
  "PENDING_SEND_SIZE_SMALL_THRESHOLD = 1024"

definition SEND_BUFFER_SIZE :: nat where
  "SEND_BUFFER_SIZE = 10 * 1024 * 1024"


section \<open>Sizes and failures\<close>

definition IncreasePendingSendSize :: "int \<Rightarrow> tio_session \<Rightarrow> tio_session" where
  "IncreasePendingSendSize n s =
     (let s = s\<lparr> ts_pendingSendSize := wrap32 (ts_pendingSendSize s + n) \<rparr> in
      if ts_maxPendingSendingSize s < ts_pendingSendSize s
      then s\<lparr> ts_maxPendingSendingSize := ts_pendingSendSize s \<rparr> else s)"

definition IsPendingSendSizeTooBig :: "tio_session \<Rightarrow> bool" where
  "IsPendingSendSizeTooBig s \<longleftrightarrow> PENDING_SEND_SIZE_BIG_THRESHOLD < ts_pendingSendSize s"

definition RegisterLowPendingBytesCallback :: "nat \<Rightarrow> tio_session \<Rightarrow> unit cpp \<times> tio_session" where
  "RegisterLowPendingBytesCallback cb s =
     (if \<not> IsPendingSendSizeTooBig s then (Inl assertion_failed, s)
      else (Inr (), s\<lparr> ts_lowPendingCallbacks := ts_lowPendingCallbacks s @ [cb] \<rparr>))"

definition DecreasePendingSendSize :: "int \<Rightarrow> tio_session \<Rightarrow> unit cpp \<times> tio_session" where
  "DecreasePendingSendSize n s =
     (let s = s\<lparr> ts_pendingSendSize := wrap32 (ts_pendingSendSize s - n) \<rparr> in
      if ts_pendingSendSize s < 0 then (Inl assertion_failed, s)
      else case ts_lowPendingCallbacks s of
             [] \<Rightarrow> (Inr (), s)
           | cb # cbs \<Rightarrow>
               if ts_pendingSendSize s \<le> PENDING_SEND_SIZE_SMALL_THRESHOLD
               then (Inr (), s\<lparr> ts_lowPendingCallbacks := cbs, ts_posted := ts_posted s @ [Callback_posted cb] \<rparr>)
               else (Inr (), s))"

text \<open>\<^verbatim>\<open>UnsubscribeAll\<close> only takes the lock.\<close>

definition UnsubscribeAll :: "tio_session \<Rightarrow> tio_session" where
  "UnsubscribeAll s = s"

text \<open>\<^verbatim>\<open>TioTcpServer::OnClientFailed\<close> posts the removal of the session.\<close>

definition OnClientFailed :: "tio_session \<Rightarrow> tio_session" where
  "OnClientFailed s = s\<lparr> ts_posted := ts_posted s @ [RemoveClient_posted] \<rparr>"

definition InvalidateConnection :: "tio_session \<Rightarrow> tio_session" where
  "InvalidateConnection s =
     (if \<not> ts_valid s then s
      else
        let s = s\<lparr> ts_valid := False, ts_binarySendBuffer := None, ts_pendingBinarySendData := [],
                   ts_pendingSendData := [] \<rparr>;
            s = UnsubscribeAll s;
            s = OnClientFailed (s\<lparr> ts_handles := [] \<rparr>)
        in s\<lparr> ts_socket_open := False \<rparr>)"

definition CheckError :: "bool \<Rightarrow> tio_session \<Rightarrow> bool \<times> tio_session" where
  "CheckError err s = (if err then (True, InvalidateConnection s) else (False, s))"


section \<open>Binary messages\<close>

text \<open>
  The loop that fills the send buffer.  \<open>used\<close> is \<^verbatim>\<open>bufferSpaceUsed\<close>; its sum with the size of the
  message is unsigned 32-bit arithmetic.  The message that does not fit any more stays at the front of
  the list, with its header filled in.
\<close>

fun gather :: "pr1_message list \<Rightarrow> u16 \<Rightarrow> u32 \<Rightarrow> byte list \<Rightarrow> (byte list \<times> u16 \<times> pr1_message list) cpp" where
  "gather [] debugSeqNum used buf = Inr (buf, debugSeqNum, [])"
| "gather (item # rest) debugSeqNum used buf =
     bind_res (lift_c (pr1_message_get_buffer item (debugSeqNum + 1))) (\<lambda>(buffer, bufferSize, item).
     if of_nat SEND_BUFFER_SIZE < used + bufferSize then Inr (buf, debugSeqNum + 1, item # rest)
     else if SEND_BUFFER_SIZE < length buf + unat bufferSize
     then Inl (undefined_behaviour ''copy past the send buffer'')
     else gather rest (debugSeqNum + 1) (used + bufferSize) (buf @ buffer))"

definition SendPendingBinaryData :: "tio_session \<Rightarrow> unit cpp \<times> tio_session" where
  "SendPendingBinaryData s =
     (if ts_binarySendInProgress s then (Inr (), s)
      else if \<not> ts_valid s then (Inr (), s)
      else if ts_pendingBinarySendData s = [] then (Inr (), s)
      else
        case gather (ts_pendingBinarySendData s) (ts_debugSeqNum s) 0 [] of
          Inl e \<Rightarrow> (Inl e, s)
        | Inr (buf, q, rest) \<Rightarrow>
            (Inr (), s\<lparr> ts_binarySendBuffer := Some buf, ts_debugSeqNum := q, ts_pendingBinarySendData := rest,
                       ts_binarySendInProgress := True, ts_writes := ts_writes s @ [buf] \<rparr>))"

definition OnBinaryMessageSent :: "bool \<Rightarrow> nat \<Rightarrow> tio_session \<Rightarrow> unit cpp \<times> tio_session" where
  "OnBinaryMessageSent err sent s =
     (case CheckError err s of
        (True, s) \<Rightarrow> (Inr (), s)
      | (False, s) \<Rightarrow>
          cm_bind (DecreasePendingSendSize (wrap32 (int sent)) s) (\<lambda>_ s.
          let s = s\<lparr> ts_sentBytes := wrap32 (ts_sentBytes s + int sent) \<rparr> in
          if ts_pendingSendSize s < 0 then (Inl assertion_failed, s)
          else SendPendingBinaryData (s\<lparr> ts_binarySendInProgress := False \<rparr>)))"

text \<open>One message is appended to the list of pending messages and counted.\<close>

definition queue_message :: "pr1_message \<Rightarrow> tio_session \<Rightarrow> tio_session" where
  "queue_message m s =
     IncreasePendingSendSize (sint (pr1_message_get_data_size m))
       (s\<lparr> ts_pendingBinarySendData := ts_pendingBinarySendData s @ [m] \<rparr>)"

definition SendBinaryMessage :: "pr1_message \<Rightarrow> tio_session \<Rightarrow> unit cpp \<times> tio_session" where
  "SendBinaryMessage m s =
     (if \<not> ts_valid s then (Inr (), s) else SendPendingBinaryData (queue_message m s))"

definition SendBinaryMessages :: "pr1_message list \<Rightarrow> tio_session \<Rightarrow> unit cpp \<times> tio_session" where
  "SendBinaryMessages ms s =
     (if \<not> ts_valid s then (Inr (), s) else SendPendingBinaryData (fold queue_message ms s))"

text \<open>A message is made, then sent.\<close>

definition make_and_send :: "pr1_message cpp \<Rightarrow> tio_session \<Rightarrow> unit cpp \<times> tio_session" where
  "make_and_send c s = cm_bind (c, s) SendBinaryMessage"

definition SendBinaryAnswerWith ::
    "tio_data option \<Rightarrow> tio_data option \<Rightarrow> tio_data option \<Rightarrow> tio_session \<Rightarrow> unit cpp \<times> tio_session" where
  "SendBinaryAnswerWith key v metadata = make_and_send (Pr1CreateAnswerMessageWith key v metadata)"

definition SendBinaryAnswer :: "tio_session \<Rightarrow> unit cpp \<times> tio_session" where
  "SendBinaryAnswer = make_and_send (Pr1CreateAnswerMessageWith None None None)"

definition error_answer :: "int \<Rightarrow> byte list \<Rightarrow> pr1_message cpp" where
  "error_answer errorCode description =
     bind_res Pr1CreateMessage (\<lambda>m.
     bind_res (Pr1MessageAddField_int m MESSAGE_FIELD_ID_COMMAND TIO_COMMAND_ANSWER) (\<lambda>m.
     bind_res (Pr1MessageAddField_int m MESSAGE_FIELD_ID_ERROR_CODE (word_of_int errorCode)) (\<lambda>m.
       Pr1MessageAddField_string m MESSAGE_FIELD_ID_ERROR_DESC description)))"

definition SendBinaryErrorAnswer :: "int \<Rightarrow> byte list \<Rightarrow> tio_session \<Rightarrow> unit cpp \<times> tio_session" where
  "SendBinaryErrorAnswer errorCode description = make_and_send (error_answer errorCode description)"

text \<open>The first three fields of an event.\<close>

definition event_message :: "u32 \<Rightarrow> event_code \<Rightarrow> pr1_message cpp" where
  "event_message handle eventCode =
     bind_res Pr1CreateMessage (\<lambda>m.
     bind_res (Pr1MessageAddField_int m MESSAGE_FIELD_ID_COMMAND TIO_COMMAND_EVENT) (\<lambda>m.
     bind_res (Pr1MessageAddField_int m MESSAGE_FIELD_ID_HANDLE handle) (\<lambda>m.
       Pr1MessageAddField_int m MESSAGE_FIELD_ID_EVENT_CODE (event_code_value eventCode))))"

definition SendBinaryEvent :: "u32 \<Rightarrow> event_code \<Rightarrow> tio_data \<Rightarrow> tio_data \<Rightarrow> tio_data \<Rightarrow> tio_session \<Rightarrow>
    unit cpp \<times> tio_session" where
  "SendBinaryEvent handle eventCode k v md =
     make_and_send
       (bind_res (event_message handle eventCode) (\<lambda>m.
        bind_res (if k \<noteq> TNone then Pr1MessageAddField_data m MESSAGE_FIELD_ID_KEY k else Inr m) (\<lambda>m.
        bind_res (if v \<noteq> TNone then Pr1MessageAddField_data m MESSAGE_FIELD_ID_VALUE v else Inr m) (\<lambda>m.
          if md \<noteq> TNone then Pr1MessageAddField_data m MESSAGE_FIELD_ID_METADATA md else Inr m))))"


section \<open>Query results and snapshots\<close>

text \<open>
  The rows that the loops over a result set see: \<^verbatim>\<open>GetRecord\<close> until it fails, \<^verbatim>\<open>MoveNext\<close> after each.
\<close>

definition rs_records :: "result_set \<Rightarrow> tio_record list" where
  "rs_records r = drop (rs_current r) (rs_items r)"

lemma rs_records_step:
  assumes "rs_current r \<le> length (rs_items r)"
  shows "rs_records r =
    (case rs_GetRecord r of None \<Rightarrow> [] | Some x \<Rightarrow> x # rs_records (snd (rs_MoveNext r)))"
    and "rs_current (snd (rs_MoveNext r)) \<le> length (rs_items (snd (rs_MoveNext r)))"
  using assms by (auto simp: rs_records_def rs_GetRecord_def rs_MoveNext_def Let_def Cons_nth_drop_Suc)

definition query_item :: "u32 \<Rightarrow> pr1_message cpp" where
  "query_item queryID =
     bind_res Pr1CreateMessage (\<lambda>m.
     bind_res (Pr1MessageAddField_int m MESSAGE_FIELD_ID_COMMAND TIO_COMMAND_QUERY_ITEM) (\<lambda>m.
       Pr1MessageAddField_int m MESSAGE_FIELD_ID_QUERY_ID queryID))"

text \<open>A row that the filter refuses does not count.\<close>

fun send_query_rows :: "u32 \<Rightarrow> (tio_data \<Rightarrow> bool cpp) option \<Rightarrow> u32 \<Rightarrow> u32 \<Rightarrow> tio_record list \<Rightarrow> tio_session \<Rightarrow>
    unit cpp \<times> tio_session" where
  "send_query_rows queryID filterFunction maxRecords a [] s = (Inr (), s)"
| "send_query_rows queryID filterFunction maxRecords a ((k, v, md) # rows) s =
     (if \<not> a < maxRecords then (Inr (), s)
      else
        cm_bind (case filterFunction of None \<Rightarrow> Inr True | Some f \<Rightarrow> f k, s) (\<lambda>take s.
        if \<not> take then send_query_rows queryID filterFunction maxRecords a rows s
        else
          cm_bind (make_and_send (bind_res (query_item queryID) (\<lambda>m.
                     Pr1MessageAddFields m (Some k) (Some v) (Some md))) s) (\<lambda>_ s.
            send_query_rows queryID filterFunction maxRecords (a + 1) rows s)))"

definition SendBinaryResultSet :: "result_set \<Rightarrow> u32 \<Rightarrow> (tio_data \<Rightarrow> bool cpp) option \<Rightarrow> u32 \<Rightarrow> tio_session \<Rightarrow>
    unit cpp \<times> tio_session" where
  "SendBinaryResultSet resultSet queryID filterFunction maxRecords s =
     cm_bind (make_and_send (bind_res Pr1CreateAnswerMessage (\<lambda>m.
                Pr1MessageAddField_int m MESSAGE_FIELD_ID_QUERY_ID queryID)) s) (\<lambda>_ s.
     let maxRecords = (if maxRecords = 0 then 0xFFFFFFFF else maxRecords) in
     cm_bind (send_query_rows queryID filterFunction maxRecords 0 (rs_records resultSet) s) (\<lambda>_ s.
       make_and_send (query_item queryID) s))"

text \<open>The vector of messages has \<^verbatim>\<open>RecordCount()\<close> places and is filled by index.\<close>

fun fill_snapshot :: "u32 \<Rightarrow> event_code \<Rightarrow> nat \<Rightarrow> tio_record list \<Rightarrow> pr1_message option list \<Rightarrow>
    pr1_message option list cpp" where
  "fill_snapshot handle eventCode a [] messages = Inr messages"
| "fill_snapshot handle eventCode a ((k, v, md) # rows) messages =
     (if length messages \<le> a then Inl (undefined_behaviour ''index past the messages'')
      else
        bind_res (bind_res (event_message handle eventCode) (\<lambda>m.
          Pr1MessageAddFields m (Some k) (Some v) (Some md))) (\<lambda>item.
          fill_snapshot handle eventCode (a + 1) rows (messages[a := Some item])))"

text \<open>A null message would be followed when it is queued.\<close>

fun messages_of :: "pr1_message option list \<Rightarrow> pr1_message list cpp" where
  "messages_of [] = Inr []"
| "messages_of (None # ms) = Inl (undefined_behaviour ''null pointer'')"
| "messages_of (Some m # ms) = bind_res (messages_of ms) (\<lambda>ms. Inr (m # ms))"

definition SendBinarySubscriptionSnapshot :: "result_set \<Rightarrow> u32 \<Rightarrow> event_code \<Rightarrow> tio_session \<Rightarrow>
    unit cpp \<times> tio_session" where
  "SendBinarySubscriptionSnapshot resultSet handle eventCode s =
     cm_bind (fill_snapshot handle eventCode 0 (rs_records resultSet)
                (replicate (rs_RecordCount resultSet) None), s) (\<lambda>messages s.
     cm_bind (event_message handle EVENT_CODE_SNAPSHOT_END, s) (\<lambda>snapshotEndEvent s.
     cm_bind (messages_of (messages @ [Some snapshotEndEvent]), s) (\<lambda>messages s.
       SendBinaryMessages messages s)))"


section \<open>Text\<close>

definition SendStringNow :: "byte list \<Rightarrow> tio_session \<Rightarrow> tio_session" where
  "SendStringNow txt s =
     (if \<not> ts_valid s then s
      else
        let s = IncreasePendingSendSize (wrap32 (int (length txt))) s
        in s\<lparr> ts_writes := ts_writes s @ [txt] \<rparr>)"

definition SendString :: "byte list \<Rightarrow> tio_session \<Rightarrow> tio_session" where
  "SendString txt s =
     (if \<not> ts_valid s then s
      else if ts_pendingSendSize s \<noteq> 0
      then
        (if 100 * 1024 * 1024 < ts_pendingSendSize s then OnClientFailed (UnsubscribeAll s)
         else s\<lparr> ts_pendingSendData := ts_pendingSendData s @ [txt] \<rparr>)
      else SendStringNow txt s)"

definition OnWrite :: "nat \<Rightarrow> bool \<Rightarrow> nat \<Rightarrow> tio_session \<Rightarrow> tio_session" where
  "OnWrite bufferSize err sent s =
     (let s = s\<lparr> ts_pendingSendSize := wrap32 (ts_pendingSendSize s - int bufferSize) \<rparr>;
          s = s\<lparr> ts_sentBytes := wrap32 (ts_sentBytes s + int sent) \<rparr>
      in case CheckError err s of
           (True, s) \<Rightarrow> s
         | (False, s) \<Rightarrow>
             (case ts_pendingSendData s of
                [] \<Rightarrow> s
              | front # rest \<Rightarrow>
                  let s = SendStringNow front s in s\<lparr> ts_pendingSendData := tl (ts_pendingSendData s) \<rparr>))"

definition SendAnswer :: "byte list \<Rightarrow> tio_session \<Rightarrow> tio_session" where
  "SendAnswer = SendString"

text \<open>
  \<open>format_g\<close> is what a \<^verbatim>\<open>std::ostream\<close> prints for a double.
\<close>

definition TioDataToString :: "(u64 \<Rightarrow> byte list) \<Rightarrow> tio_data \<Rightarrow> byte list" where
  "TioDataToString format_g d =
     (case d of TNone \<Rightarrow> [] | TInt i \<Rightarrow> dec_int (sint i) | TDouble x \<Rightarrow> format_g x | TString s \<Rightarrow> s)"

fun EventCodeToEventName :: "event_code \<Rightarrow> string" where
  "EventCodeToEventName EVENT_CODE_PUSH_BACK = ''push_back''"
| "EventCodeToEventName EVENT_CODE_PUSH_FRONT = ''push_front''"
| "EventCodeToEventName EVENT_CODE_SET = ''set''"
| "EventCodeToEventName EVENT_CODE_DELETE = ''delete''"
| "EventCodeToEventName EVENT_CODE_INSERT = ''insert''"
| "EventCodeToEventName EVENT_CODE_CLEAR = ''clear''"
| "EventCodeToEventName EVENT_CODE_SNAPSHOT_END = ''snapshot_end''"

definition EventNameToEventCode :: "string \<Rightarrow> u32" where
  "EventNameToEventCode eventName =
     (if eventName = ''push_back'' then TIO_COMMAND_PUSH_BACK
      else if eventName = ''push_front'' then TIO_COMMAND_PUSH_FRONT
      else if eventName = ''pop_back'' \<or> eventName = ''pop_front'' \<or> eventName = ''delete'' then TIO_COMMAND_DELETE
      else if eventName = ''clear'' then TIO_COMMAND_CLEAR
      else if eventName = ''set'' then TIO_COMMAND_SET
      else if eventName = ''insert'' then TIO_COMMAND_INSERT
      else if eventName = ''snapshot_end'' then 0x23
      else 0)"

text \<open>The announcement of a value in the first line of a text message, and its line.\<close>

definition text_announce :: "(u64 \<Rightarrow> byte list) \<Rightarrow> string \<Rightarrow> tio_data \<Rightarrow> byte list" where
  "text_announce format_g label d =
     (let txt = TioDataToString format_g d in
      if txt = [] then []
      else ascii (CHR '' '' # label @ '' '' @ GetDataTypeAsString d @ '' '') @ dec_nat (length txt))"

definition text_line :: "(u64 \<Rightarrow> byte list) \<Rightarrow> tio_data \<Rightarrow> byte list" where
  "text_line format_g d = (let txt = TioDataToString format_g d in if txt = [] then [] else txt @ crlf)"

definition text_record :: "(u64 \<Rightarrow> byte list) \<Rightarrow> byte list \<Rightarrow> tio_data \<Rightarrow> tio_data \<Rightarrow> tio_data \<Rightarrow> byte list" where
  "text_record format_g start key v metadata =
     start @ text_announce format_g ''key'' key @ text_announce format_g ''value'' v @
     text_announce format_g ''metadata'' metadata @ crlf @
     text_line format_g key @ text_line format_g v @ text_line format_g metadata"

definition SendTextEvent :: "(u64 \<Rightarrow> byte list) \<Rightarrow> u32 \<Rightarrow> event_code \<Rightarrow> tio_data \<Rightarrow> tio_data \<Rightarrow> tio_data \<Rightarrow>
    tio_session \<Rightarrow> tio_session" where
  "SendTextEvent format_g handle eventCode key v metadata =
     SendString (text_record format_g
       (ascii ''event '' @ dec_nat (unat handle) @ ascii ('' '' @ EventCodeToEventName eventCode)) key v metadata)"

definition SendTextResultSetStart :: "u32 \<Rightarrow> tio_session \<Rightarrow> tio_session" where
  "SendTextResultSetStart queryID = SendAnswer (ascii ''answer ok query '' @ dec_nat (unat queryID) @ crlf)"

definition SendTextResultSetEnd :: "u32 \<Rightarrow> tio_session \<Rightarrow> tio_session" where
  "SendTextResultSetEnd queryID = SendAnswer (ascii ''query '' @ dec_nat (unat queryID) @ ascii '' end'' @ crlf)"

definition SendTextResultSetItem :: "(u64 \<Rightarrow> byte list) \<Rightarrow> u32 \<Rightarrow> tio_data \<Rightarrow> tio_data \<Rightarrow> tio_data \<Rightarrow>
    tio_session \<Rightarrow> tio_session" where
  "SendTextResultSetItem format_g queryID key v metadata =
     SendString (text_record format_g (ascii ''query '' @ dec_nat (unat queryID) @ ascii '' item'') key v metadata)"

definition SendTextResultSet :: "(u64 \<Rightarrow> byte list) \<Rightarrow> result_set \<Rightarrow> u32 \<Rightarrow> tio_session \<Rightarrow> tio_session" where
  "SendTextResultSet format_g resultSet queryID s =
     SendTextResultSetEnd queryID
       (fold (\<lambda>(k, v, md). SendTextResultSetItem format_g queryID k v md) (rs_records resultSet)
         (SendTextResultSetStart queryID s))"

definition SendTextSubscriptionSnapshot :: "(u64 \<Rightarrow> byte list) \<Rightarrow> result_set \<Rightarrow> u32 \<Rightarrow> event_code \<Rightarrow>
    tio_session \<Rightarrow> tio_session" where
  "SendTextSubscriptionSnapshot format_g resultSet handle eventCode s =
     SendTextEvent format_g handle EVENT_CODE_SNAPSHOT_END TNone TNone TNone
       (fold (\<lambda>(k, v, md). SendTextEvent format_g handle eventCode k v md) (rs_records resultSet) s)"

definition SendSubscriptionSnapshot :: "(u64 \<Rightarrow> byte list) \<Rightarrow> result_set \<Rightarrow> u32 \<Rightarrow> event_code \<Rightarrow>
    tio_session \<Rightarrow> unit cpp \<times> tio_session" where
  "SendSubscriptionSnapshot format_g resultSet handle eventCode s =
     (if ts_binaryProtocol s then SendBinarySubscriptionSnapshot resultSet handle eventCode s
      else (Inr (), SendTextSubscriptionSnapshot format_g resultSet handle eventCode s))"

definition PublishEvent :: "(u64 \<Rightarrow> byte list) \<Rightarrow> u32 \<Rightarrow> event_code \<Rightarrow> tio_data \<Rightarrow> tio_data \<Rightarrow> tio_data \<Rightarrow>
    tio_session \<Rightarrow> unit cpp \<times> tio_session" where
  "PublishEvent format_g handle eventCode k v md s =
     (if ts_binaryProtocol s then SendBinaryEvent handle eventCode k v md s
      else (Inr (), SendTextEvent format_g handle eventCode k v md s))"

text \<open>\<open>name\<close> and \<open>type\<close> are the container's.\<close>

definition PublishNewGroupContainer :: "string \<Rightarrow> u32 \<Rightarrow> string \<Rightarrow> string \<Rightarrow> tio_session \<Rightarrow>
    unit cpp \<times> tio_session" where
  "PublishNewGroupContainer groupName handle name type s =
     (if ts_binaryProtocol s
      then
        make_and_send
          (bind_res Pr1CreateMessage (\<lambda>m.
           bind_res (Pr1MessageAddField_int m MESSAGE_FIELD_ID_COMMAND TIO_COMMAND_NEW_GROUP_CONTAINER) (\<lambda>m.
           bind_res (Pr1MessageAddField_int m MESSAGE_FIELD_ID_HANDLE handle) (\<lambda>m.
           bind_res (Pr1MessageAddField_string m MESSAGE_FIELD_ID_GROUP_NAME (ascii groupName)) (\<lambda>m.
           bind_res (Pr1MessageAddField_string m MESSAGE_FIELD_ID_CONTAINER_NAME (ascii name)) (\<lambda>m.
             Pr1MessageAddField_string m MESSAGE_FIELD_ID_CONTAINER_TYPE (ascii type))))))) s
      else
        (Inr (), SendAnswer (ascii (''group_container '' @ groupName @ '' '' @ name @ '' '' @ type @ '' '') @
                   dec_nat (unat handle) @ crlf) s))"


section \<open>Handles and tokens\<close>

definition RegisterContainer :: "string \<Rightarrow> nat \<Rightarrow> tio_session \<Rightarrow> u32 \<times> tio_session" where
  "RegisterContainer containerName container s =
     (case sm_find containerName (ts_containerNameToHandle s) of
        Some handle \<Rightarrow> (handle, s)
      | None \<Rightarrow>
          let handle = ts_lastHandle s + 1 in
          (handle, s\<lparr> ts_lastHandle := handle,
             ts_handles := (if sm_find handle (ts_handles s) = None then sm_set handle container (ts_handles s)
                            else ts_handles s),
             ts_containerNameToHandle := sm_set containerName handle (ts_containerNameToHandle s) \<rparr>))"

definition RegisterNewGroupContainer :: "string \<Rightarrow> string \<Rightarrow> nat \<Rightarrow> tio_session \<Rightarrow> u32 \<times> tio_session" where
  "RegisterNewGroupContainer groupName containerName container s = RegisterContainer containerName container s"

definition object_GetName :: "nat \<Rightarrow> container_manager \<Rightarrow> string cpp" where
  "object_GetName ob cm =
     (case cm_objects cm ob of
        None \<Rightarrow> Inl (undefined_behaviour ''expired container'')
      | Some c \<Rightarrow>
          (case mg_heap (cm_managers cm (co_manager c)) (co_storage c) of
             None \<Rightarrow> Inl (undefined_behaviour ''no such object'')
           | Some (st, p) \<Rightarrow> Inr (any_name st)))"

definition object_GetType :: "nat \<Rightarrow> container_manager \<Rightarrow> string cpp" where
  "object_GetType ob cm =
     (case cm_objects cm ob of
        None \<Rightarrow> Inl (undefined_behaviour ''expired container'')
      | Some c \<Rightarrow>
          (case mg_heap (cm_managers cm (co_manager c)) (co_storage c) of
             None \<Rightarrow> Inl (undefined_behaviour ''no such object'')
           | Some (st, p) \<Rightarrow> Inr (any_type st)))"

definition GetRegisteredContainer :: "u32 \<Rightarrow> tio_session \<Rightarrow> nat cpp" where
  "GetRegisteredContainer handle s =
     (case sm_find handle (ts_handles s) of
        None \<Rightarrow> Inl (invalid_argument ''invalid handle'')
      | Some ob \<Rightarrow> Inr ob)"

text \<open>The same with the outputs \<^verbatim>\<open>containerName\<close> and \<^verbatim>\<open>containerType\<close>, both the container's name.\<close>

definition GetRegisteredContainerInfo :: "u32 \<Rightarrow> container_manager \<Rightarrow> tio_session \<Rightarrow> (nat \<times> string \<times> string) cpp" where
  "GetRegisteredContainerInfo handle cm s =
     bind_res (GetRegisteredContainer handle s) (\<lambda>ob.
     bind_res (object_GetName ob cm) (\<lambda>containerName.
     bind_res (object_GetName ob cm) (\<lambda>containerType.
       Inr (ob, containerName, containerType))))"

definition Unsubscribe :: "u32 \<Rightarrow> tio_session \<Rightarrow> tio_session" where
  "Unsubscribe handle s = s"

definition CloseContainerHandle :: "u32 \<Rightarrow> container_manager \<Rightarrow> tio_session \<Rightarrow> unit cpp \<times> tio_session" where
  "CloseContainerHandle handle cm s =
     (case sm_find handle (ts_handles s) of
        None \<Rightarrow> (Inl (invalid_argument ''invalid handle''), s)
      | Some ob \<Rightarrow>
          cm_bind (object_GetName ob cm, s) (\<lambda>containerName s.
          let s = (if sm_find containerName (ts_containerNameToHandle s) \<noteq> None
                   then s\<lparr> ts_containerNameToHandle := sm_erase containerName (ts_containerNameToHandle s) \<rparr>
                   else s);
              s = Unsubscribe handle s
          in (Inr (), s\<lparr> ts_handles := sm_erase handle (ts_handles s) \<rparr>)))"

definition GetTokens :: "tio_session \<Rightarrow> string list" where
  "GetTokens s = ts_tokens s"

definition AddToken :: "string \<Rightarrow> tio_session \<Rightarrow> tio_session" where
  "AddToken token s = s\<lparr> ts_tokens := ts_tokens s @ [token] \<rparr>"

end
