(* ===== verification/SessionProperties.thy ===== *)
theory SessionProperties
  imports ServerSession
begin

text \<open>
  What a client on the other side of a session can rely on: the binary messages leave in the order in
  which they were sent, each complete, whatever the sizes and the timing of the writes, and nothing
  that fits the send buffer is left behind.  A run of a session is a list of actions, sends and
  completions of writes; the abstract queue is the list of the messages' fields.
\<close>

section \<open>Gathering\<close>

definition msg_size :: "pr1_field list \<Rightarrow> nat" where
  "msg_size fs = 8 + length (encode_fields fs)"

definition total_size :: "pr1_field list list \<Rightarrow> nat" where
  "total_size fss = sum_list (map msg_size fss)"

lemma total_size_simps [simp]:
  "total_size [] = 0" "total_size (fs # fss) = msg_size fs + total_size fss"
  "total_size (fss @ gss) = total_size fss + total_size gss"
  by (simp_all add: total_size_def)

lemma total_size_take_drop: "total_size (take k fss) + total_size (drop k fss) = total_size fss"
  by (metis append_take_drop_id total_size_simps(3))

lemma length_wire [simp]: "length (wire q fs) = msg_size fs"
  by (simp add: wire_def msg_size_def)

definition wires :: "u16 list \<Rightarrow> pr1_field list list \<Rightarrow> byte list" where
  "wires qs fss = concat (map2 wire qs fss)"

lemma wires_simps [simp]:
  "wires [] fss = []" "wires qs [] = []" "wires (q # qs) (fs # fss) = wire q fs @ wires qs fss"
  by (simp_all add: wires_def)

lemma wires_append: "length qs = length fss \<Longrightarrow> wires (qs @ rs) (fss @ gss) = wires qs fss @ wires rs gss"
  by (simp add: wires_def)

lemma length_wires: "length qs = length fss \<Longrightarrow> length (wires qs fss) = total_size fss"
  by (induction qs fss rule: list_induct2) simp_all

lemma fill_header_keeps:
  assumes "pr1_message_fill_header_info m q = Inr m'"
  shows "pm_field_count m' = pm_field_count m \<and> sb_current (pm_stream_buffer m') = sb_current (pm_stream_buffer m) \<and>
    sb_buffer_size (pm_stream_buffer m') = sb_buffer_size (pm_stream_buffer m) \<and>
    length (pm_block m') = length (pm_block m)"
  using assms
  by (auto simp: pr1_message_fill_header_info_def Let_def bind_res_Inr_iff sb_poke_def dest!: mem_write_length)

lemma get_buffer_ok:
  assumes "pm_holds m fs" and "fits fs"
  shows "\<exists>m'. pr1_message_get_buffer m q = Inr (wire q fs, of_nat (msg_size fs), m') \<and> pm_holds m' fs"
proof -
  have len: "length (encode_fields fs) < 2 ^ 31 - 4096" using assms(2) by (simp add: fits_def)
  obtain m' s where m': "pr1_message_get_buffer m q = Inr (wire q fs, of_nat (msg_size fs), m')"
    and b: "pm_block m' = wire q fs @ s"
    using pr1_message_get_buffer_holds [OF assms(1) len, of q] by (auto simp: wire_def msg_size_def)
  have "pr1_message_fill_header_info m q = Inr m'"
    using m' by (auto simp: pr1_message_get_buffer_def bind_res_Inr_iff Let_def)
  note keep = fill_header_keeps [OF this]
  have "drop 8 (sb_written (pm_stream_buffer m')) = encode_fields fs"
    using keep pm_holds_current [OF assms(1)] b by (simp add: sb_written_def wire_def)
  then have "pm_holds m' fs"
    using assms(1) keep by (simp add: pm_holds_def stream_buffer_inv_def)
  then show ?thesis using m' by blast
qed

lemma msg_size_u32: "fits fs \<Longrightarrow> unat (of_nat (msg_size fs) :: u32) = msg_size fs"
  by (rule unat_of_nat_u32) (simp add: fits_def msg_size_def)

lemma SEND_BUFFER_SIZE_u32: "unat (of_nat SEND_BUFFER_SIZE :: u32) = SEND_BUFFER_SIZE"
  by (simp add: SEND_BUFFER_SIZE_def)

text \<open>
  The loop takes as many messages as the buffer holds, and stops only at one that does not fit any more.
\<close>

lemma gather_ok:
  assumes "list_all2 pm_holds ms fss" and "list_all fits fss" and "used = of_nat (length buf)"
    and "length buf \<le> SEND_BUFFER_SIZE"
  shows "\<exists>qs q ms'. gather ms q0 used buf = Inr (buf @ wires qs (take (length qs) fss), q, ms') \<and>
    length qs \<le> length fss \<and> list_all2 pm_holds ms' (drop (length qs) fss) \<and>
    length buf + total_size (take (length qs) fss) \<le> SEND_BUFFER_SIZE \<and>
    (length qs < length fss \<longrightarrow>
       SEND_BUFFER_SIZE < length buf + total_size (take (length qs) fss) + msg_size (fss ! length qs))"
  using assms
proof (induction ms fss arbitrary: q0 used buf rule: list_all2_induct)
  case Nil
  then show ?case by (intro exI [of _ "[]"]) simp
next
  case (Cons m ms fs fss)
  obtain m' where m': "pr1_message_get_buffer m (q0 + 1) = Inr (wire (q0 + 1) fs, of_nat (msg_size fs), m')"
    and h: "pm_holds m' fs"
    using get_buffer_ok [OF Cons.hyps(1)] Cons.prems(1) by auto
  have used: "used + of_nat (msg_size fs) = of_nat (length (buf @ wire (q0 + 1) fs))"
    using Cons.prems(2) by simp
  have "msg_size fs < 2 ^ 31" using Cons.prems(1) by (simp add: fits_def msg_size_def)
  then have sum: "unat (of_nat (length (buf @ wire (q0 + 1) fs)) :: u32) = length buf + msg_size fs"
    using Cons.prems(3) by (subst unat_of_nat_u32) (simp_all add: SEND_BUFFER_SIZE_def)
  have sz: "unat (of_nat (msg_size fs) :: u32) = msg_size fs" using msg_size_u32 Cons.prems(1) by simp
  show ?case
  proof (cases "SEND_BUFFER_SIZE < length buf + msg_size fs")
    case True
    then have "gather (m # ms) q0 used buf = Inr (buf, q0 + 1, m' # ms)"
      using m' sum unfolding gather.simps used word_less_nat_alt SEND_BUFFER_SIZE_u32
      by (simp add: used word_less_nat_alt SEND_BUFFER_SIZE_u32 del: of_nat_add)
    then show ?thesis
      using True h Cons.hyps(2) Cons.prems(3) by (intro exI [of _ "[]"]) simp
  next
    case False
    then have g: "gather (m # ms) q0 used buf =
        gather ms (q0 + 1) (used + of_nat (msg_size fs)) (buf @ wire (q0 + 1) fs)"
      using m' sum sz by (simp add: used word_less_nat_alt SEND_BUFFER_SIZE_u32 del: of_nat_add)
    obtain qs q ms' where
      "gather ms (q0 + 1) (used + of_nat (msg_size fs)) (buf @ wire (q0 + 1) fs) =
         Inr ((buf @ wire (q0 + 1) fs) @ wires qs (take (length qs) fss), q, ms')"
      "length qs \<le> length fss" "list_all2 pm_holds ms' (drop (length qs) fss)"
      "length (buf @ wire (q0 + 1) fs) + total_size (take (length qs) fss) \<le> SEND_BUFFER_SIZE"
      "length qs < length fss \<longrightarrow> SEND_BUFFER_SIZE <
         length (buf @ wire (q0 + 1) fs) + total_size (take (length qs) fss) + msg_size (fss ! length qs)"
      using Cons.IH [OF _ used, of "q0 + 1"] Cons.prems(1) False by auto
    then show ?thesis
      unfolding g by (intro exI [of _ "(q0 + 1) # qs"] exI [of _ q] exI [of _ ms']) auto
  qed
qed


section \<open>The queue of a session\<close>

definition in_flight :: "tio_session \<Rightarrow> nat" where
  "in_flight s = (if ts_binarySendInProgress s then length (the (ts_binarySendBuffer s)) else 0)"

text \<open>
  \<open>session_queue fss s n\<close>: of the messages \<open>fss\<close> the first \<open>n\<close> were written, the rest is pending, and
  \<^verbatim>\<open>pendingSendSize_\<close> counts the bytes that are pending or being written.
\<close>

definition session_queue :: "pr1_field list list \<Rightarrow> tio_session \<Rightarrow> nat \<Rightarrow> bool" where
  "session_queue fss s n \<longleftrightarrow>
     ts_valid s \<and> list_all fits fss \<and> n \<le> length fss \<and>
     (\<exists>qs. length qs = n \<and> concat (ts_writes s) = wires qs (take n fss)) \<and>
     list_all2 pm_holds (ts_pendingBinarySendData s) (drop n fss) \<and>
     in_flight s \<le> total_size (take n fss) \<and> in_flight s + total_size (drop n fss) < 2 ^ 31 \<and>
     ts_pendingSendSize s = int (in_flight s + total_size (drop n fss)) \<and>
     (ts_binarySendInProgress s \<longrightarrow> ts_binarySendBuffer s \<noteq> None)"

text \<open>Between two calls a write is in progress whenever something is pending.\<close>

definition session_holds :: "pr1_field list list \<Rightarrow> tio_session \<Rightarrow> nat \<Rightarrow> bool" where
  "session_holds fss s n \<longleftrightarrow>
     session_queue fss s n \<and> (n < length fss \<longrightarrow> ts_binarySendInProgress s)"

lemma session_queue_pending: "session_queue fss s n \<Longrightarrow> length (ts_pendingBinarySendData s) = length fss - n"
  by (auto simp: session_queue_def dest!: list_all2_lengthD)

lemma session_new: "session_holds [] (TioTcpSession_new i) 0"
  by (simp add: session_holds_def session_queue_def TioTcpSession_new_def in_flight_def)

definition blocked :: "pr1_field list list \<Rightarrow> nat \<Rightarrow> bool" where
  "blocked fss n \<longleftrightarrow> n < length fss \<and> SEND_BUFFER_SIZE < msg_size (fss ! n)"

lemma send_pending_ok:
  assumes q: "session_queue fss s n"
  shows "\<exists>s' n'. SendPendingBinaryData s = (Inr (), s') \<and> session_holds fss s' n' \<and> n \<le> n' \<and>
    (\<not> ts_binarySendInProgress s \<and> n < length fss \<and> msg_size (fss ! n) \<le> SEND_BUFFER_SIZE \<longrightarrow> n < n') \<and>
    (blocked fss n \<longrightarrow> n' = n)"
proof (cases "ts_binarySendInProgress s \<or> n = length fss")
  case True
  then have "SendPendingBinaryData s = (Inr (), s)"
    using q session_queue_pending [OF q] by (auto simp: SendPendingBinaryData_def session_queue_def)
  then show ?thesis using True q by (auto simp: session_holds_def session_queue_def)
next
  case False
  then have n: "n < length fss" using q by (auto simp: session_queue_def)
  have hs: "list_all2 pm_holds (ts_pendingBinarySendData s) (drop n fss)" and fit: "list_all fits (drop n fss)"
    and v: "ts_valid s"
    using q by (auto simp: session_queue_def list_all_iff dest: in_set_dropD)
  have "ts_pendingBinarySendData s \<noteq> []" using session_queue_pending [OF q] n by auto
  obtain qs q' ms' where g: "gather (ts_pendingBinarySendData s) (ts_debugSeqNum s) 0 [] =
      Inr (wires qs (take (length qs) (drop n fss)), q', ms')"
    and qs: "length qs \<le> length (drop n fss)" "list_all2 pm_holds ms' (drop (length qs) (drop n fss))"
    and used: "total_size (take (length qs) (drop n fss)) \<le> SEND_BUFFER_SIZE"
    and stop: "length qs < length (drop n fss) \<longrightarrow> SEND_BUFFER_SIZE <
      total_size (take (length qs) (drop n fss)) + msg_size (drop n fss ! length qs)"
    using gather_ok [OF hs fit, of 0 "[]" "ts_debugSeqNum s"] by auto
  let ?buf = "wires qs (take (length qs) (drop n fss))" and ?n' = "n + length qs"
  let ?s' = "s\<lparr> ts_binarySendBuffer := Some ?buf, ts_debugSeqNum := q', ts_pendingBinarySendData := ms',
                ts_binarySendInProgress := True, ts_writes := ts_writes s @ [?buf] \<rparr>"
  have send: "SendPendingBinaryData s = (Inr (), ?s')"
    using False v \<open>ts_pendingBinarySendData s \<noteq> []\<close> g by (simp add: SendPendingBinaryData_def)
  obtain ps where ps: "length ps = n" "concat (ts_writes s) = wires ps (take n fss)"
    using q by (auto simp: session_queue_def)
  have w: "concat (ts_writes ?s') = wires (ps @ qs) (take ?n' fss)"
    using ps n by (simp add: take_add wires_append)
  have len: "length ?buf = total_size (take (length qs) (drop n fss))"
    using qs(1) by (intro length_wires) simp
  have tot: "in_flight ?s' + total_size (drop ?n' fss) = in_flight s + total_size (drop n fss)"
    using len total_size_take_drop [of "length qs" "drop n fss"] False by (simp add: in_flight_def add.commute)
  have "in_flight ?s' \<le> total_size (take ?n' fss)"
    using len by (simp add: in_flight_def take_add)
  then have "session_queue fss ?s' ?n'"
    unfolding session_queue_def tot
    using q qs w ps(1) n by (auto simp: session_queue_def add.commute intro!: exI [of _ "ps @ qs"])
  moreover have "msg_size (fss ! n) \<le> SEND_BUFFER_SIZE \<longrightarrow> 0 < length qs"
    using stop n by (cases qs) auto
  moreover have "blocked fss n \<longrightarrow> qs = []"
    using used n by (cases qs) (auto simp: blocked_def Cons_nth_drop_Suc [symmetric])
  ultimately show ?thesis using send by (auto simp: session_holds_def)
qed

lemma pending_size_word:
  assumes "pm_holds m fs" and "fits fs"
  shows "sint (pr1_message_get_data_size m) = int (msg_size fs)"
proof -
  have "pr1_message_get_data_size m = of_nat (msg_size fs)"
    by (simp add: pr1_message_get_data_size_def stream_buffer_space_used_def pm_holds_current [OF assms(1)] msg_size_def)
  moreover have "wrap32 (int (msg_size fs)) = int (msg_size fs)"
    using assms(2) by (intro wrap32_nat) (simp add: fits_def msg_size_def)
  ultimately show ?thesis by (simp add: wrap32_def del: of_nat_add)
qed

lemma queue_message_ok:
  assumes "session_queue fss s n" and "pm_holds m fs" and "fits fs"
    and "in_flight s + total_size (drop n fss) + msg_size fs < 2 ^ 31"
  shows "session_queue (fss @ [fs]) (queue_message m s) n" and "ts_valid (queue_message m s)"
    and "in_flight (queue_message m s) = in_flight s"
    and "ts_binarySendInProgress (queue_message m s) = ts_binarySendInProgress s"
proof -
  have n: "n \<le> length fss" using assms(1) by (simp add: session_queue_def)
  let ?s = "queue_message m s"
  have sz: "wrap32 (ts_pendingSendSize s + int (msg_size fs)) = int (in_flight s + total_size (drop n fss) + msg_size fs)"
    using assms(1,4) wrap32_nat [of "in_flight s + total_size (drop n fss) + msg_size fs"]
    by (simp add: session_queue_def)
  have same: "ts_valid ?s = ts_valid s" "ts_writes ?s = ts_writes s"
    "ts_binarySendInProgress ?s = ts_binarySendInProgress s" "ts_binarySendBuffer ?s = ts_binarySendBuffer s"
    "ts_pendingBinarySendData ?s = ts_pendingBinarySendData s @ [m]"
    by (simp_all add: queue_message_def IncreasePendingSendSize_def Let_def)
  have size: "ts_pendingSendSize ?s = int (in_flight s + total_size (drop n fss) + msg_size fs)"
    using sz pending_size_word [OF assms(2,3)] by (simp add: queue_message_def IncreasePendingSendSize_def Let_def)
  show fl: "in_flight ?s = in_flight s" by (simp add: in_flight_def same)
  have "list_all2 pm_holds (ts_pendingBinarySendData ?s) (drop n (fss @ [fs]))"
    using assms(1,2) n by (simp add: session_queue_def same list_all2_appendI)
  then show "session_queue (fss @ [fs]) ?s n"
    using assms(1,3,4) n size unfolding session_queue_def fl same(1-4)
    by (auto simp: add.assoc)
  show "ts_valid ?s" using assms(1) by (simp add: same session_queue_def)
  show "ts_binarySendInProgress ?s = ts_binarySendInProgress s" by (rule same(3))
qed

lemma decrease_ok:
  assumes "0 \<le> wrap32 (ts_pendingSendSize s - k)"
  shows "\<exists>s1. DecreasePendingSendSize k s = (Inr (), s1) \<and> ts_pendingSendSize s1 = wrap32 (ts_pendingSendSize s - k) \<and>
    ts_valid s1 = ts_valid s \<and> ts_writes s1 = ts_writes s \<and>
    ts_pendingBinarySendData s1 = ts_pendingBinarySendData s"
  using assms by (cases "ts_lowPendingCallbacks s") (simp_all add: DecreasePendingSendSize_def Let_def)

text \<open>A completed write: asio reports the size of the buffer and no error.\<close>

lemma sent_ok:
  assumes h: "session_holds fss s n" and p: "ts_binarySendInProgress s"
  shows "\<exists>s' n'. OnBinaryMessageSent False (in_flight s) s = (Inr (), s') \<and> session_holds fss s' n' \<and> n \<le> n' \<and>
    (n < length fss \<and> msg_size (fss ! n) \<le> SEND_BUFFER_SIZE \<longrightarrow> n < n') \<and> (blocked fss n \<longrightarrow> n' = n) \<and>
    (n = length fss \<longrightarrow> \<not> ts_binarySendInProgress s' \<and> ts_pendingSendSize s' = 0)"
proof -
  have q: "session_queue fss s n" using h by (simp add: session_holds_def)
  let ?rest = "total_size (drop n fss)"
  have b: "in_flight s + ?rest < 2 ^ 31" and sz: "ts_pendingSendSize s = int (in_flight s + ?rest)"
    using q by (auto simp: session_queue_def)
  have "wrap32 (int (in_flight s)) = int (in_flight s)" "wrap32 (int ?rest) = int ?rest"
    using b by (auto intro!: wrap32_nat)
  then have size: "wrap32 (ts_pendingSendSize s - wrap32 (int (in_flight s))) = int ?rest" using sz by simp
  obtain s1 where d: "DecreasePendingSendSize (wrap32 (int (in_flight s))) s = (Inr (), s1)"
    and s1: "ts_pendingSendSize s1 = int ?rest" "ts_valid s1 = ts_valid s" "ts_writes s1 = ts_writes s"
      "ts_pendingBinarySendData s1 = ts_pendingBinarySendData s"
    using decrease_ok [of s "wrap32 (int (in_flight s))"] size by auto
  let ?s2 = "s1\<lparr> ts_sentBytes := wrap32 (ts_sentBytes s1 + int (in_flight s)), ts_binarySendInProgress := False \<rparr>"
  have q2: "session_queue fss ?s2 n"
    using q s1 b by (auto simp: session_queue_def in_flight_def)
  obtain s' n' where s': "SendPendingBinaryData ?s2 = (Inr (), s')" "session_holds fss s' n'" "n \<le> n'"
    "n < length fss \<and> msg_size (fss ! n) \<le> SEND_BUFFER_SIZE \<longrightarrow> n < n'" "blocked fss n \<longrightarrow> n' = n"
    using send_pending_ok [OF q2] by auto
  moreover have "OnBinaryMessageSent False (in_flight s) s = SendPendingBinaryData ?s2"
    using d s1(1) by (simp add: OnBinaryMessageSent_def CheckError_def Let_def)
  moreover have "n = length fss \<Longrightarrow> s' = ?s2"
    using s'(1) session_queue_pending [OF q2] by (simp add: SendPendingBinaryData_def split: if_splits)
  then have "n = length fss \<longrightarrow> \<not> ts_binarySendInProgress s' \<and> ts_pendingSendSize s' = 0"
    using s1(1) by auto
  ultimately show ?thesis by auto
qed


section \<open>Runs\<close>

datatype session_action = Send "pr1_field list" | SendAll "pr1_field list list" | Complete

definition new_message :: "pr1_field list \<Rightarrow> pr1_message cpp" where
  "new_message fs = lift_c (bind_res pr1_message_new (\<lambda>m. pr1_message_add_fields m fs))"

fun new_messages :: "pr1_field list list \<Rightarrow> pr1_message list cpp" where
  "new_messages [] = Inr []"
| "new_messages (fs # fss) = bind_res (new_message fs) (\<lambda>m. bind_res (new_messages fss) (\<lambda>ms. Inr (m # ms)))"

fun session_act :: "session_action \<Rightarrow> tio_session \<Rightarrow> unit cpp \<times> tio_session" where
  "session_act (Send fs) s = make_and_send (new_message fs) s"
| "session_act (SendAll fss) s = cm_bind (new_messages fss, s) SendBinaryMessages"
| "session_act Complete s =
     (if ts_binarySendInProgress s then OnBinaryMessageSent False (in_flight s) s else (Inr (), s))"

fun session_run :: "session_action list \<Rightarrow> tio_session \<Rightarrow> unit cpp \<times> tio_session" where
  "session_run [] s = (Inr (), s)"
| "session_run (a # as) s = cm_bind (session_act a s) (\<lambda>_ s. session_run as s)"

fun sent_by :: "session_action list \<Rightarrow> pr1_field list list" where
  "sent_by [] = []"
| "sent_by (Send fs # as) = fs # sent_by as"
| "sent_by (SendAll fss # as) = fss @ sent_by as"
| "sent_by (Complete # as) = sent_by as"

lemma new_message_ok: "fits fs \<Longrightarrow> \<exists>m. new_message fs = Inr m \<and> pm_holds m fs"
  using new_message_fields [of fs] by (auto simp: new_message_def fits_def lift_c_Inr_iff)

lemma new_messages_ok: "list_all fits fss \<Longrightarrow> \<exists>ms. new_messages fss = Inr ms \<and> list_all2 pm_holds ms fss"
  by (induction fss) (auto dest: new_message_ok)

lemma queue_messages_ok:
  assumes "session_queue fss s n" and "list_all2 pm_holds ms gss" and "list_all fits gss"
    and "in_flight s + total_size (drop n fss) + total_size gss < 2 ^ 31"
  shows "session_queue (fss @ gss) (fold queue_message ms s) n \<and>
    ts_binarySendInProgress (fold queue_message ms s) = ts_binarySendInProgress s"
  using assms(2,1,3,4)
proof (induction ms gss arbitrary: fss s rule: list_all2_induct)
  case (Cons m ms gs gss)
  have n: "n \<le> length fss" using Cons.prems(1) by (simp add: session_queue_def)
  have "in_flight s + total_size (drop n fss) + msg_size gs < 2 ^ 31" "fits gs" using Cons.prems by simp_all
  note m = queue_message_ok [OF Cons.prems(1) Cons.hyps(1) this(2,1)]
  from Cons.IH [OF m(1)] Cons.prems(2,3) n m(3,4) show ?case by (simp add: add.assoc)
qed simp

lemma send_all_ok:
  assumes "session_holds fss s n" and "list_all2 pm_holds ms gss" and "list_all fits gss"
    and "in_flight s + total_size (drop n fss) + total_size gss < 2 ^ 31"
  shows "\<exists>s' n'. SendBinaryMessages ms s = (Inr (), s') \<and> session_holds (fss @ gss) s' n' \<and> n \<le> n' \<and>
    (blocked (fss @ gss) n \<longrightarrow> n' = n)"
proof -
  have q: "session_queue fss s n" using assms(1) by (simp add: session_holds_def)
  from send_pending_ok [OF conjunct1 [OF queue_messages_ok [OF q assms(2-4)]]] q
  show ?thesis by (auto simp: SendBinaryMessages_def session_queue_def)
qed

lemma SendBinaryMessages_one: "SendBinaryMessages [m] s = SendBinaryMessage m s"
  by (simp add: SendBinaryMessages_def SendBinaryMessage_def)

text \<open>
  \<open>room as s\<close>: at no send of the run the bytes waiting reach 2 GiB, the range of \<^verbatim>\<open>pendingSendSize_\<close>.
\<close>

fun room :: "session_action list \<Rightarrow> tio_session \<Rightarrow> bool" where
  "room [] s \<longleftrightarrow> True"
| "room (a # as) s \<longleftrightarrow>
     ts_pendingSendSize s + int (total_size (sent_by [a])) < 2 ^ 31 \<and> room as (snd (session_act a s))"

lemma session_act_ok:
  assumes h: "session_holds fss s n" and f: "list_all fits (sent_by [a])"
    and r: "ts_pendingSendSize s + int (total_size (sent_by [a])) < 2 ^ 31"
  shows "\<exists>s' n'. session_act a s = (Inr (), s') \<and> session_holds (fss @ sent_by [a]) s' n' \<and> n \<le> n' \<and>
    (blocked (fss @ sent_by [a]) n \<longrightarrow> n' = n)"
proof -
  have b: "in_flight s + total_size (drop n fss) + total_size (sent_by [a]) < 2 ^ 31"
    using h r by (simp add: session_holds_def session_queue_def)
  show ?thesis
  proof (cases a)
    case (Send fs)
    then obtain m where m: "new_message fs = Inr m" "pm_holds m fs" using f new_message_ok by auto
    then show ?thesis
      using send_all_ok [OF h, of "[m]" "[fs]"] b f Send
      by (simp add: make_and_send_def SendBinaryMessages_one)
  next
    case (SendAll gss)
    then obtain ms where "new_messages gss = Inr ms" "list_all2 pm_holds ms gss"
      using f new_messages_ok by auto
    then show ?thesis using send_all_ok [OF h, of ms gss] b f SendAll by simp
  next
    case Complete
    then show ?thesis using sent_ok [OF h] h by (cases "ts_binarySendInProgress s") auto
  qed
qed

lemma sent_by_Cons: "sent_by (a # as) = sent_by [a] @ sent_by as"
  by (cases a) simp_all

lemma sent_by_append: "sent_by (as @ bs) = sent_by as @ sent_by bs"
proof (induction as)
  case (Cons a as)
  then show ?case using sent_by_Cons [of a as] sent_by_Cons [of a "as @ bs"] by simp
qed simp

lemma session_run_ok:
  assumes "session_holds fss s n" and "list_all fits (sent_by as)" and "room as s"
  shows "\<exists>s' n'. session_run as s = (Inr (), s') \<and> session_holds (fss @ sent_by as) s' n' \<and> n \<le> n' \<and>
    (blocked (fss @ sent_by as) n \<longrightarrow> n' = n)"
  using assms
proof (induction as arbitrary: fss s n)
  case (Cons a as)
  have f: "list_all fits (sent_by [a])" "list_all fits (sent_by as)"
    using Cons.prems(2) unfolding sent_by_Cons [of a as] by simp_all
  obtain s1 n1 where 1: "session_act a s = (Inr (), s1)" "session_holds (fss @ sent_by [a]) s1 n1" "n \<le> n1"
    "blocked (fss @ sent_by [a]) n \<longrightarrow> n1 = n"
    using session_act_ok [OF Cons.prems(1) f(1)] Cons.prems(3) by auto
  then obtain s' n' where 2: "session_run as s1 = (Inr (), s')" "n1 \<le> n'"
    "session_holds ((fss @ sent_by [a]) @ sent_by as) s' n'"
    "blocked ((fss @ sent_by [a]) @ sent_by as) n1 \<longrightarrow> n' = n1"
    using Cons.IH [OF 1(2) f(2)] Cons.prems(3) by auto
  have "n1 \<le> length (fss @ sent_by [a])" using 1(2) by (simp add: session_holds_def session_queue_def)
  then have "blocked ((fss @ sent_by [a]) @ sent_by as) n \<longrightarrow> n1 = n"
    using 1(3,4) by (auto simp: blocked_def nth_append split: if_splits)
  then show ?case using 1(1,3) 2 unfolding sent_by_Cons [of a as] by (auto simp: append.assoc)
qed auto

lemma room_total:
  assumes "session_holds fss s n" and "list_all fits (sent_by as)" and "total_size (fss @ sent_by as) < 2 ^ 31"
  shows "room as s"
  using assms
proof (induction as arbitrary: fss s n)
  case (Cons a as)
  have f: "list_all fits (sent_by [a])" "list_all fits (sent_by as)"
    using Cons.prems(2) unfolding sent_by_Cons [of a as] by simp_all
  have t: "total_size fss + total_size (sent_by [a]) + total_size (sent_by as) < 2 ^ 31"
    using Cons.prems(3) unfolding sent_by_Cons [of a as] by (simp add: add.assoc)
  moreover have "ts_pendingSendSize s \<le> int (total_size fss)"
    using Cons.prems(1) total_size_take_drop [of n fss] by (simp add: session_holds_def session_queue_def)
  ultimately have r: "ts_pendingSendSize s + int (total_size (sent_by [a])) < 2 ^ 31" by simp
  obtain s1 n1 where 1: "session_act a s = (Inr (), s1)" "session_holds (fss @ sent_by [a]) s1 n1"
    using session_act_ok [OF Cons.prems(1) f(1) r] by auto
  then show ?case using Cons.IH [OF 1(2) f(2)] t r by (simp add: add.assoc)
qed simp

lemma session_run_append:
  "session_run (as @ bs) s = cm_bind (session_run as s) (\<lambda>_ s. session_run bs s)"
proof (induction as arbitrary: s)
  case (Cons a as)
  then show ?case by (cases "session_act a s"; cases "fst (session_act a s)") (auto simp: cm_bind_def)
qed simp

lemma drain_ok:
  assumes "session_holds fss s n" and "\<forall>fs\<in>set fss. msg_size fs \<le> SEND_BUFFER_SIZE" and "length fss - n < k"
  shows "\<exists>s'. session_run (replicate k Complete) s = (Inr (), s') \<and> session_holds fss s' (length fss) \<and>
    \<not> ts_binarySendInProgress s'"
  using assms
proof (induction k arbitrary: s n)
  case (Suc k)
  have n: "n \<le> length fss" using Suc.prems(1) by (simp add: session_holds_def session_queue_def)
  have idle: "session_run (replicate j Complete) t = (Inr (), t)" if "\<not> ts_binarySendInProgress t" for j t
    using that by (induction j) simp_all
  show ?case
  proof (cases "ts_binarySendInProgress s")
    case False
    moreover from this have "n = length fss" using Suc.prems(1) n by (auto simp: session_holds_def)
    ultimately show ?thesis using Suc.prems(1) idle [of s "Suc k"] by auto
  next
    case True
    obtain s1 n1 where 1: "OnBinaryMessageSent False (in_flight s) s = (Inr (), s1)" "session_holds fss s1 n1" "n \<le> n1"
      "n < length fss \<and> msg_size (fss ! n) \<le> SEND_BUFFER_SIZE \<longrightarrow> n < n1"
      "n = length fss \<longrightarrow> \<not> ts_binarySendInProgress s1"
      using sent_ok [OF Suc.prems(1) True] by blast
    have n1: "n1 \<le> length fss" using 1(2) by (simp add: session_holds_def session_queue_def)
    show ?thesis
    proof (cases "n = length fss")
      case True
      then show ?thesis using 1 n1 idle [of s1 k] \<open>ts_binarySendInProgress s\<close> by auto
    next
      case False
      then have "n < n1" using 1(4) n Suc.prems(2) by auto
      then have "length fss - n1 < k" using Suc.prems(3) n1 by simp
      from Suc.IH [OF 1(2) Suc.prems(2) this] 1(1) \<open>ts_binarySendInProgress s\<close> show ?thesis by simp
    qed
  qed
qed simp


section \<open>Order and delivery\<close>

text \<open>
  C6: the bytes a session has written are, at any time, the complete messages sent so far, in order and
  without a gap, up to those still in its list of pending messages; no assertion on the counter of pending
  bytes fails, and a write is under way whenever a message is pending.
\<close>

theorem session_writes_in_order:
  assumes "list_all fits (sent_by as)" and "room as (TioTcpSession_new i)"
  shows "\<exists>s qs. session_run as (TioTcpSession_new i) = (Inr (), s) \<and>
    concat (ts_writes s) = wires qs (take (length qs) (sent_by as)) \<and>
    list_all2 pm_holds (ts_pendingBinarySendData s) (drop (length qs) (sent_by as)) \<and>
    ts_pendingSendSize s = int (in_flight s + total_size (drop (length qs) (sent_by as))) \<and>
    (ts_pendingBinarySendData s \<noteq> [] \<longrightarrow> ts_binarySendInProgress s)"
proof -
  obtain s n where s: "session_run as (TioTcpSession_new i) = (Inr (), s)" and h: "session_holds (sent_by as) s n"
    using session_run_ok [OF session_new assms] by auto
  then obtain qs where "length qs = n" "concat (ts_writes s) = wires qs (take n (sent_by as))"
    by (auto simp: session_holds_def session_queue_def)
  moreover have "ts_pendingBinarySendData s \<noteq> [] \<longrightarrow> ts_binarySendInProgress s"
    using h session_queue_pending [of "sent_by as" s n] by (auto simp: session_holds_def)
  ultimately show ?thesis
    using s h by (intro exI [of _ s] exI [of _ qs]) (auto simp: session_holds_def session_queue_def)
qed

text \<open>Three small messages, with a write completing in between.\<close>

definition example_run :: "session_action list" where
  "example_run = [Send [int_field 1 1], SendAll [[int_field 1 2], [int_field 1 3, int_field 2 7]], Complete]"

lemma example_run_ok:
  "list_all fits (sent_by example_run)" "room example_run (TioTcpSession_new 1)"
  "\<forall>fs\<in>set (sent_by example_run). msg_size fs \<le> SEND_BUFFER_SIZE" "length (sent_by example_run) < 4"
proof -
  show f: "list_all fits (sent_by example_run)"
    by (simp add: example_run_def fits_def int_field_def data_field_def)
  show "length (sent_by example_run) < 4" by (simp add: example_run_def)
  show "\<forall>fs\<in>set (sent_by example_run). msg_size fs \<le> SEND_BUFFER_SIZE"
    by (simp add: example_run_def msg_size_def SEND_BUFFER_SIZE_def int_field_def data_field_def)
  show "room example_run (TioTcpSession_new 1)"
    by (rule room_total [OF session_new f])
      (simp add: example_run_def msg_size_def int_field_def data_field_def)
qed

theorem session_writes_in_order_witness:
  "\<exists>s qs. session_run example_run (TioTcpSession_new 1) = (Inr (), s) \<and>
    concat (ts_writes s) = wires qs (take (length qs) (sent_by example_run)) \<and>
    list_all2 pm_holds (ts_pendingBinarySendData s) (drop (length qs) (sent_by example_run)) \<and>
    ts_pendingSendSize s = int (in_flight s + total_size (drop (length qs) (sent_by example_run))) \<and>
    (ts_pendingBinarySendData s \<noteq> [] \<longrightarrow> ts_binarySendInProgress s)"
  by (rule session_writes_in_order [OF example_run_ok(1,2)])

text \<open>
  C14: when no message is larger than the send buffer, every message sent is written once the pending writes
  complete; then nothing is pending and the counter of pending bytes is back at zero.
\<close>

theorem session_delivers_all:
  assumes "list_all fits (sent_by as)" and "room as (TioTcpSession_new i)"
    and "\<forall>fs\<in>set (sent_by as). msg_size fs \<le> SEND_BUFFER_SIZE" and "length (sent_by as) < k"
  shows "\<exists>s qs. session_run (as @ replicate k Complete) (TioTcpSession_new i) = (Inr (), s) \<and>
    length qs = length (sent_by as) \<and> concat (ts_writes s) = wires qs (sent_by as) \<and>
    ts_pendingBinarySendData s = [] \<and> \<not> ts_binarySendInProgress s \<and> ts_pendingSendSize s = 0"
proof -
  obtain s1 n where 1: "session_run as (TioTcpSession_new i) = (Inr (), s1)" "session_holds (sent_by as) s1 n"
    using session_run_ok [OF session_new assms(1,2)] by auto
  have "length (sent_by as) - n < k" using assms(4) by simp
  then obtain s where s: "session_run (replicate k Complete) s1 = (Inr (), s)"
    "session_holds (sent_by as) s (length (sent_by as))" "\<not> ts_binarySendInProgress s"
    using drain_ok [OF 1(2) assms(3)] by blast
  then show ?thesis
    using 1(1) by (auto simp: session_run_append session_holds_def session_queue_def in_flight_def)
qed

theorem session_delivers_all_witness:
  "\<exists>s qs. session_run (example_run @ replicate 4 Complete) (TioTcpSession_new 1) = (Inr (), s) \<and>
    length qs = length (sent_by example_run) \<and> concat (ts_writes s) = wires qs (sent_by example_run) \<and>
    ts_pendingBinarySendData s = [] \<and> \<not> ts_binarySendInProgress s \<and> ts_pendingSendSize s = 0"
  by (rule session_delivers_all [OF example_run_ok])

text \<open>
  C40: a message larger than the send buffer is never written, and nothing after it: each completion of a
  write starts another write of no bytes.
\<close>

theorem oversized_message_blocks:
  assumes "fits fs" and "SEND_BUFFER_SIZE < msg_size fs" and "list_all fits (sent_by as)"
    and "room (Send fs # as) (TioTcpSession_new i)"
  shows "\<exists>s. session_run (Send fs # as) (TioTcpSession_new i) = (Inr (), s) \<and> concat (ts_writes s) = [] \<and>
    ts_binarySendInProgress s \<and> length (ts_pendingBinarySendData s) = length (sent_by (Send fs # as))"
proof -
  have f: "list_all fits (sent_by (Send fs # as))" using assms(1,3) by simp
  have b: "blocked (sent_by (Send fs # as)) 0" using assms(2) by (simp add: blocked_def)
  obtain s where s: "session_run (Send fs # as) (TioTcpSession_new i) = (Inr (), s)"
    "session_holds (sent_by (Send fs # as)) s 0"
    using session_run_ok [OF session_new f assms(4)] b unfolding append_Nil by blast
  moreover from s(2) have "concat (ts_writes s) = []" "ts_binarySendInProgress s"
    by (auto simp: session_holds_def session_queue_def)
  moreover have "length (ts_pendingBinarySendData s) = length (sent_by (Send fs # as))"
    using session_queue_pending [of "sent_by (Send fs # as)" s 0] s(2) by (simp add: session_holds_def)
  ultimately show ?thesis by blast
qed

theorem oversized_message_blocks_witness:
  "\<exists>s. session_run [Send [data_field 4 (TString (replicate SEND_BUFFER_SIZE 0))]] (TioTcpSession_new 1) = (Inr (), s) \<and>
    concat (ts_writes s) = [] \<and> ts_binarySendInProgress s \<and> length (ts_pendingBinarySendData s) = 1"
proof -
  let ?fs = "[data_field 4 (TString (replicate SEND_BUFFER_SIZE 0))]"
  have size: "msg_size ?fs = 16 + SEND_BUFFER_SIZE" by (simp add: msg_size_def data_field_def)
  have "room [Send ?fs] (TioTcpSession_new 1)"
    by (simp add: size) (simp add: SEND_BUFFER_SIZE_def TioTcpSession_new_def)
  moreover have "fits ?fs" by (simp add: fits_def data_field_def SEND_BUFFER_SIZE_def)
  moreover have "SEND_BUFFER_SIZE < msg_size ?fs" using size by simp
  ultimately show ?thesis using oversized_message_blocks [of ?fs "[]" 1] by simp
qed

end
