(* ===== verification/ServerState.thy ===== *)
theory ServerState
  imports ServerSession AccessControl "HOL-Library.Product_Lexorder"
begin

text \<open>
  The state of \<^verbatim>\<open>class TioTcpServer\<close> (\<^verbatim>\<open>server/tio/TioTcpServer.h\<close>): the container manager, the sessions,
  the subscriptions by storage, the queue of events for the publisher, and the groups.  Sessions and
  container objects are shared: they are named by addresses, a \<^verbatim>\<open>weak_ptr\<close> is an address whose object
  may be gone.  A storage is identified by its manager and its address there (\<^verbatim>\<open>GetStorageId\<close>).  Every
  operation on containers goes through \<open>with_manager\<close>, which hands the events that the storages
  published meanwhile to \<open>OnAnyContainerEvent\<close>, the sink the server installed.
\<close>

section \<open>Containers by address\<close>

fun any_Query :: "int \<Rightarrow> int \<Rightarrow> tio_data \<Rightarrow> any_storage \<Rightarrow> (result_set \<times> any_storage) cpp" where
  "any_Query startOffset endOffset query (SList s) =
     bind_res (ls_Query startOffset endOffset query s) (\<lambda>r. Inr (r, SList s))"
| "any_Query startOffset endOffset query (SMap s) =
     bind_res (ms_Query startOffset endOffset query s) (\<lambda>r. Inr (r, SMap s))"
| "any_Query startOffset endOffset query (SVector s) =
     bind_res (vs_Query startOffset endOffset query s) (\<lambda>(r, s). Inr (r, SVector s))"

fun any_GetRecordCount :: "any_storage \<Rightarrow> (nat \<times> any_storage) cpp" where
  "any_GetRecordCount (SList s) = Inr (ls_GetRecordCount s, SList s)"
| "any_GetRecordCount (SMap s) = Inr (ms_GetRecordCount s, SMap s)"
| "any_GetRecordCount (SVector s) = bind_res (vs_GetRecordCount s) (\<lambda>(n, s). Inr (n, SVector s))"

type_synonym outputs = "tio_data option \<times> tio_data option \<times> tio_data option"

fun any_PopBack :: "outputs \<Rightarrow> any_storage \<Rightarrow> (outputs \<times> any_storage) cpp" where
  "any_PopBack (k, v, m) (SList s) = bind_res (ls_PopBack k v m s) (\<lambda>(x, s). Inr (x, SList s))"
| "any_PopBack (k, v, m) (SVector s) = bind_res (vs_PopBack k v m s) (\<lambda>(x, s). Inr (x, SVector s))"
| "any_PopBack (k, v, m) (SMap s) = bind_res (ms_unsupported ''pop_back'') (\<lambda>s. Inr ((k, v, m), SMap s))"

fun any_PopFront :: "outputs \<Rightarrow> any_storage \<Rightarrow> (outputs \<times> any_storage) cpp" where
  "any_PopFront (k, v, m) (SList s) = bind_res (ls_PopFront k v m s) (\<lambda>(x, s). Inr (x, SList s))"
| "any_PopFront (k, v, m) (SVector s) = bind_res (vs_PopFront k v m s) (\<lambda>(x, s). Inr (x, SVector s))"
| "any_PopFront (k, v, m) (SMap s) = bind_res (ms_unsupported ''pop_front'') (\<lambda>s. Inr ((k, v, m), SMap s))"

text \<open>A member function of the storage behind a container.\<close>

definition storage_call :: "(any_storage \<Rightarrow> ('a \<times> any_storage) cpp) \<Rightarrow> nat \<Rightarrow> container_manager \<Rightarrow>
    ('a \<times> container_manager) cpp" where
  "storage_call f = object_call (\<lambda>a g.
     case mg_heap g a of
       None \<Rightarrow> Inl (undefined_behaviour ''no such object'')
     | Some (s, p) \<Rightarrow> bind_res (f s) (\<lambda>(x, s). Inr (x, g\<lparr> mg_heap := (mg_heap g)(a \<mapsto> (s, p)) \<rparr>)))"

definition object_Query :: "int \<Rightarrow> int \<Rightarrow> tio_data \<Rightarrow> nat \<Rightarrow> container_manager \<Rightarrow> (result_set \<times> container_manager) cpp" where
  "object_Query startOffset endOffset query = storage_call (any_Query startOffset endOffset query)"

definition object_GetRecordCount :: "nat \<Rightarrow> container_manager \<Rightarrow> (nat \<times> container_manager) cpp" where
  "object_GetRecordCount = storage_call any_GetRecordCount"

definition object_PopBack :: "outputs \<Rightarrow> nat \<Rightarrow> container_manager \<Rightarrow> (outputs \<times> container_manager) cpp" where
  "object_PopBack outs = storage_call (any_PopBack outs)"

definition object_PopFront :: "outputs \<Rightarrow> nat \<Rightarrow> container_manager \<Rightarrow> (outputs \<times> container_manager) cpp" where
  "object_PopFront outs = storage_call (any_PopFront outs)"

definition object_GetProperty :: "string \<Rightarrow> nat \<Rightarrow> container_manager \<Rightarrow> (byte list \<times> container_manager) cpp" where
  "object_GetProperty key = object_call (\<lambda>a g. bind_res (container_GetProperty key a g) (\<lambda>v. Inr (v, g)))"

definition IsMapContainer :: "nat \<Rightarrow> container_manager \<Rightarrow> bool cpp" where
  "IsMapContainer ob cm =
     bind_res (object_GetType ob cm) (\<lambda>type. Inr (type = ''volatile_map'' \<or> type = ''persistent_map''))"

definition IsListContainer :: "nat \<Rightarrow> container_manager \<Rightarrow> bool cpp" where
  "IsListContainer ob cm =
     bind_res (object_GetType ob cm) (\<lambda>type.
       Inr (type = ''volatile_list'' \<or> type = ''persistent_list'' \<or>
            type = ''volatile_vector'' \<or> type = ''persistent_vector''))"

type_synonym storage_id = "nat \<times> nat"

definition GetStorageId :: "nat \<Rightarrow> container_manager \<Rightarrow> storage_id cpp" where
  "GetStorageId ob cm =
     (case cm_objects cm ob of
        None \<Rightarrow> Inl (undefined_behaviour ''expired container'')
      | Some c \<Rightarrow> Inr (co_manager c, co_storage c))"

fun any_events :: "any_storage \<Rightarrow> tio_event list" where
  "any_events (SList s) = st_events s"
| "any_events (SMap s) = st_events s"
| "any_events (SVector s) = st_events s"

definition events_of :: "container_manager \<Rightarrow> storage_id \<Rightarrow> tio_event list" where
  "events_of cm i =
     (case mg_heap (cm_managers cm (fst i)) (snd i) of None \<Rightarrow> [] | Some (s, p) \<Rightarrow> any_events s)"


section \<open>The server\<close>

record subscription_info =
  si_handle :: u32
  si_snapshotPending :: bool
  si_groupName :: string
  si_start :: string
  si_session :: nat
  si_container :: nat
  si_lastRevNum :: u64

definition SubscriptionInfo_new :: "string \<Rightarrow> nat \<Rightarrow> u32 \<Rightarrow> nat \<Rightarrow> string \<Rightarrow> subscription_info" where
  "SubscriptionInfo_new groupName container handle session start =
     \<lparr> si_handle = handle, si_snapshotPending = True, si_groupName = groupName, si_start = start,
       si_session = session, si_container = container, si_lastRevNum = 0 \<rparr>"

record group_info =
  gi_groupName :: string
  gi_containerListName :: string
  gi_containerListContainer :: nat
  gi_containersMap :: "(string \<times> nat) list"

record tio_server =
  sv_containerManager :: container_manager
  sv_sessions :: "(nat \<times> tio_session) list"
  sv_subscribers :: "(storage_id \<times> subscription_info list) list"
  sv_eventQueue :: "(storage_id \<times> tio_event) list"
  sv_lastQueryID :: u32
  sv_groups :: "(string \<times> group_info) list"
  sv_groupSubscriptions :: "(string \<times> nat list) list"
  sv_logged :: "(nat \<times> pr1_message) list"
  sv_lastSessionID :: u32
  sv_auth :: auth
  sv_meta_users :: "nat option"
  sv_meta_sessions :: "nat option"
  sv_serverPaused :: bool

text \<open>The server when its constructor has installed the sink.\<close>

definition server_start :: "container_manager \<Rightarrow> tio_server" where
  "server_start cm =
     \<lparr> sv_containerManager = cm_SetSubscriber cm, sv_sessions = [], sv_subscribers = [], sv_eventQueue = [],
       sv_lastQueryID = 0, sv_groups = [], sv_groupSubscriptions = [], sv_logged = [], sv_lastSessionID = 0,
       sv_auth = Auth_new, sv_meta_users = None, sv_meta_sessions = None, sv_serverPaused = False \<rparr>"

text \<open>What \<^verbatim>\<open>catch(std::exception&)\<close> catches.\<close>

fun std_exception :: "cpp_error \<Rightarrow> bool" where
  "std_exception (invalid_argument _) = True"
| "std_exception (runtime_error _) = True"
| "std_exception out_of_range = True"
| "std_exception length_error = True"
| "std_exception bad_lexical_cast = True"
| "std_exception (undefined_behaviour _) = False"
| "std_exception self_deadlock = False"
| "std_exception assertion_failed = False"

text \<open>A call on the session at an address.\<close>

definition with_session :: "nat \<Rightarrow> (tio_session \<Rightarrow> 'a cpp \<times> tio_session) \<Rightarrow> tio_server \<Rightarrow> 'a cpp \<times> tio_server" where
  "with_session sid f sv =
     (case sm_find sid (sv_sessions sv) of
        None \<Rightarrow> (Inl (undefined_behaviour ''no such session''), sv)
      | Some s \<Rightarrow> (case f s of (r, s') \<Rightarrow> (r, sv\<lparr> sv_sessions := sm_set sid s' (sv_sessions sv) \<rparr>)))"

text \<open>Nobody is interested in a storage without an entry in the table.\<close>

definition OnAnyContainerEvent :: "storage_id \<Rightarrow> tio_event \<Rightarrow> tio_server \<Rightarrow> tio_server" where
  "OnAnyContainerEvent i e sv =
     (if sm_find i (sv_subscribers sv) = None then sv
      else sv\<lparr> sv_eventQueue := sv_eventQueue sv @ [(i, e)] \<rparr>)"

definition new_events :: "container_manager \<Rightarrow> container_manager \<Rightarrow> storage_id \<Rightarrow> tio_event list" where
  "new_events cm cm' i = drop (length (events_of cm i)) (events_of cm' i)"

text \<open>The calls of the sink since \<open>cm\<close>: only those on storages with subscribers have an effect.\<close>

definition publish_new :: "container_manager \<Rightarrow> tio_server \<Rightarrow> tio_server" where
  "publish_new cm sv =
     fold (\<lambda>i sv. fold (OnAnyContainerEvent i) (new_events cm (sv_containerManager sv) i) sv)
       (map fst (sv_subscribers sv)) sv"

definition with_manager :: "(container_manager \<Rightarrow> 'a cpp \<times> container_manager) \<Rightarrow> tio_server \<Rightarrow> 'a cpp \<times> tio_server" where
  "with_manager f sv =
     (case f (sv_containerManager sv) of
        (r, cm) \<Rightarrow> (r, publish_new (sv_containerManager sv) (sv\<lparr> sv_containerManager := cm \<rparr>)))"

definition CreateNewQueryId :: "tio_server \<Rightarrow> u32 \<times> tio_server" where
  "CreateNewQueryId sv = (let q = sv_lastQueryID sv + 1 in (q, sv\<lparr> sv_lastQueryID := q \<rparr>))"

definition LogMessage :: "nat \<Rightarrow> pr1_message \<Rightarrow> tio_server \<Rightarrow> tio_server" where
  "LogMessage container m sv = sv\<lparr> sv_logged := sv_logged sv @ [(container, m)] \<rparr>"

text \<open>The marker and the subscription enter the two tables under both locks.\<close>

definition SessionAsyncSubscribe :: "subscription_info \<Rightarrow> tio_server \<Rightarrow> unit cpp \<times> tio_server" where
  "SessionAsyncSubscribe info sv =
     cm_bind (GetStorageId (si_container info) (sv_containerManager sv), sv) (\<lambda>i sv.
       (Inr (), sv\<lparr> sv_eventQueue := sv_eventQueue sv @
                      [(i, \<lparr> ev_code = EVENT_CODE_SNAPSHOT_END, ev_key = TNone, ev_value = TNone, ev_metadata = TNone \<rparr>)],
                   sv_subscribers := sm_set i
                      ((case sm_find i (sv_subscribers sv) of None \<Rightarrow> [] | Some l \<Rightarrow> l) @ [info]) (sv_subscribers sv) \<rparr>))"


section \<open>Start and connections\<close>

definition users_schema :: "nat \<Rightarrow> tio_server \<Rightarrow> unit cpp \<times> tio_server" where
  "users_schema users sv =
     (case with_manager (attempt (object_GetProperty ''schema'' users)) sv of
        (Inr _, sv) \<Rightarrow> (Inr (), sv)
      | (Inl e, sv) \<Rightarrow>
          if std_exception e
          then with_manager (attempt (object_SetProperty ''schema'' (ascii ''password type|password'') users)) sv
          else (Inl e, sv))"

definition InitializeMetaContainers :: "tio_server \<Rightarrow> unit cpp \<times> tio_server" where
  "InitializeMetaContainers sv =
     cm_bind (with_manager (CreateContainer ''volatile_map'' ''__meta__/users'') sv) (\<lambda>users sv.
     let sv = sv\<lparr> sv_meta_users := Some users \<rparr> in
     cm_bind (users_schema users sv) (\<lambda>_ sv.
     let userContainerType = ResolveAlias ''users'' (sv_containerManager sv);
         auth = SetObjectDefaultRule userContainerType ''__meta__/users'' Deny (sv_auth sv);
         auth = AddObjectRule userContainerType ''__meta__/users'' ''*'' ''__admin__'' Allow auth;
         sv = sv\<lparr> sv_auth := auth \<rparr>
     in
     cm_bind (with_manager (CreateContainer ''volatile_map'' ''__meta__/sessions'') sv) (\<lambda>sessions sv.
       (Inr (), sv\<lparr> sv_meta_sessions := Some sessions \<rparr>))))"

definition TioTcpServer_new :: "container_manager \<Rightarrow> unit cpp \<times> tio_server" where
  "TioTcpServer_new cm = InitializeMetaContainers (server_start cm)"

definition GenerateSessionId :: "tio_server \<Rightarrow> u32 \<times> tio_server" where
  "GenerateSessionId sv = (let i = sv_lastSessionID sv + 1 in (i, sv\<lparr> sv_lastSessionID := i \<rparr>))"

text \<open>\<^verbatim>\<open>lexical_cast<string>(session->id())\<close>.\<close>

definition session_key :: "u32 \<Rightarrow> tio_data" where
  "session_key i = TString (dec_nat (unat i))"

text \<open>
  A session waits for a connection from the start; its number is also its address.  A paused server drops
  the connection.
\<close>

definition server_OnAccept :: "u32 \<Rightarrow> tio_server \<Rightarrow> unit cpp \<times> tio_server" where
  "server_OnAccept i sv =
     (if sv_serverPaused sv then (Inr (), sv)
      else
        let sv = sv\<lparr> sv_sessions := sm_set (unat i) (TioTcpSession_new i) (sv_sessions sv) \<rparr> in
        cm_bind (deref_shared (sv_meta_sessions sv), sv) (\<lambda>sessions sv.
          with_manager (attempt (object_exec (OpInsert (session_key i) TNone TNone) sessions)) sv))"

definition RemoveClient :: "u32 \<Rightarrow> tio_server \<Rightarrow> unit cpp \<times> tio_server" where
  "RemoveClient i sv =
     (if sm_find (unat i) (sv_sessions sv) = None then (Inr (), sv)
      else
        let sv = sv\<lparr> sv_sessions := sm_erase (unat i) (sv_sessions sv) \<rparr> in
        cm_bind (deref_shared (sv_meta_sessions sv), sv) (\<lambda>sessions sv.
          with_manager (attempt (object_exec (OpDelete (session_key i) TNone TNone) sessions)) sv))"


section \<open>Groups\<close>

definition GroupInfo_new :: "string \<Rightarrow> tio_server \<Rightarrow> group_info cpp \<times> tio_server" where
  "GroupInfo_new groupName sv =
     (let containerListName = ''__meta__/groups/'' @ groupName in
      cm_bind (with_manager (CreateContainer ''volatile_map'' containerListName) sv) (\<lambda>ob sv.
        (Inr \<lparr> gi_groupName = groupName, gi_containerListName = containerListName,
               gi_containerListContainer = ob, gi_containersMap = [] \<rparr>, sv)))"

definition GetGroup :: "string \<Rightarrow> tio_server \<Rightarrow> group_info cpp \<times> tio_server" where
  "GetGroup groupName sv =
     (case sm_find groupName (sv_groups sv) of
        Some g \<Rightarrow> (Inr g, sv)
      | None \<Rightarrow>
          cm_bind (GroupInfo_new groupName sv) (\<lambda>g sv.
            (Inr g, sv\<lparr> sv_groups := sm_set groupName g (sv_groups sv) \<rparr>)))"

definition AddContainer :: "string \<Rightarrow> nat \<Rightarrow> tio_server \<Rightarrow> unit cpp \<times> tio_server" where
  "AddContainer groupName container sv =
     cm_bind (GetGroup groupName sv) (\<lambda>g sv.
     cm_bind (object_GetName container (sv_containerManager sv), sv) (\<lambda>name sv.
       if sm_find name (gi_containersMap g) \<noteq> None then (Inr (), sv)
       else (Inr (), sv\<lparr> sv_groups := sm_set groupName
               (g\<lparr> gi_containersMap := sm_set name container (gi_containersMap g) \<rparr>) (sv_groups sv) \<rparr>)))"

definition RemoveContainer :: "string \<Rightarrow> string \<Rightarrow> bool" where
  "RemoveContainer groupName containerName = False"

definition GetGroupContainers :: "string \<Rightarrow> tio_server \<Rightarrow> (string \<times> nat) list" where
  "GetGroupContainers groupName sv =
     (case sm_find groupName (sv_groups sv) of None \<Rightarrow> [] | Some g \<Rightarrow> gi_containersMap g)"

text \<open>\<^verbatim>\<open>groupSubscriptions_[groupName]\<close>, which adds an empty entry for a new name.\<close>

definition group_subscribers :: "string \<Rightarrow> tio_server \<Rightarrow> nat list \<times> tio_server" where
  "group_subscribers groupName sv =
     (case sm_find groupName (sv_groupSubscriptions sv) of
        Some l \<Rightarrow> (l, sv)
      | None \<Rightarrow> ([], sv\<lparr> sv_groupSubscriptions := sm_set groupName [] (sv_groupSubscriptions sv) \<rparr>))"

end
