(* ===== verification/SessionMessages.thy ===== *)
theory SessionMessages
  imports SessionProperties
begin

text \<open>
  The messages that the operations of a session put into its queue, as lists of fields, and the
  table of handles.
\<close>

section \<open>What an operation sends\<close>

definition same_tables :: "tio_session \<Rightarrow> tio_session \<Rightarrow> bool" where
  "same_tables s s' \<longleftrightarrow>
     ts_id s' = ts_id s \<and> ts_handles s' = ts_handles s \<and>
     ts_containerNameToHandle s' = ts_containerNameToHandle s \<and> ts_lastHandle s' = ts_lastHandle s \<and>
     ts_tokens s' = ts_tokens s \<and> ts_binaryProtocol s' = ts_binaryProtocol s"

lemma same_tables_refl [simp]: "same_tables s s"
  by (simp add: same_tables_def)

lemma same_tables_trans: "same_tables s s' \<Longrightarrow> same_tables s' s'' \<Longrightarrow> same_tables s s''"
  by (simp add: same_tables_def)

text \<open>\<open>emits f gss\<close>: \<open>f\<close> sends the messages \<open>gss\<close>, when they and the backlog fit, and nothing else.\<close>

definition emits :: "(tio_session \<Rightarrow> unit cpp \<times> tio_session) \<Rightarrow> pr1_field list list \<Rightarrow> bool" where
  "emits f gss \<longleftrightarrow>
     (\<forall>fss s n. session_holds fss s n \<and> list_all fits gss \<and>
        ts_pendingSendSize s + int (total_size gss) < 2 ^ 31 \<longrightarrow>
        (\<exists>s' n'. f s = (Inr (), s') \<and> session_holds (fss @ gss) s' n' \<and> same_tables s s' \<and>
                 ts_pendingSendSize s' = ts_pendingSendSize s + int (total_size gss)))"

lemma SendPendingBinaryData_keeps:
  "SendPendingBinaryData s = (r, s') \<Longrightarrow>
     same_tables s s' \<and> ts_pendingSendSize s' = ts_pendingSendSize s"
  by (auto simp: SendPendingBinaryData_def same_tables_def split: if_splits sum.splits)

lemma fold_queue_message_keeps: "same_tables s (fold queue_message ms s)"
proof (induction ms arbitrary: s)
  case (Cons m ms)
  have "same_tables s (queue_message m s)"
    by (simp add: queue_message_def IncreasePendingSendSize_def Let_def same_tables_def)
  then show ?case using Cons [of "queue_message m s"] by (auto intro: same_tables_trans)
qed simp

lemma emits_messages:
  assumes "list_all2 pm_holds ms gss"
  shows "emits (SendBinaryMessages ms) gss"
  unfolding emits_def
proof (intro allI impI, elim conjE)
  fix fss s n
  assume h: "session_holds fss s n" and f: "list_all fits gss" and r: "ts_pendingSendSize s + int (total_size gss) < 2 ^ 31"
  have q: "session_queue fss s n" using h by (simp add: session_holds_def)
  have b: "in_flight s + total_size (drop n fss) + total_size gss < 2 ^ 31"
    using q r by (simp add: session_queue_def)
  have n: "n \<le> length fss" using q by (simp add: session_queue_def)
  note qm = queue_messages_ok [OF q assms f b]
  obtain s' n' where s': "SendPendingBinaryData (fold queue_message ms s) = (Inr (), s')" "session_holds (fss @ gss) s' n'"
    using send_pending_ok [OF conjunct1 [OF qm]] by auto
  have size: "ts_pendingSendSize (fold queue_message ms s) = ts_pendingSendSize s + int (total_size gss)"
  proof -
    have "in_flight (fold queue_message ms s) = in_flight s"
    proof -
      have "ts_binarySendBuffer (fold queue_message ms s) = ts_binarySendBuffer s"
        by (induction ms arbitrary: s) (simp_all add: queue_message_def IncreasePendingSendSize_def Let_def)
      then show ?thesis using conjunct2 [OF qm] by (simp add: in_flight_def)
    qed
    then show ?thesis using q qm n by (simp add: session_queue_def)
  qed
  have "SendBinaryMessages ms s = (Inr (), s')" using s'(1) q by (simp add: SendBinaryMessages_def session_queue_def)
  moreover have "same_tables s s'" "ts_pendingSendSize s' = ts_pendingSendSize s + int (total_size gss)"
    using SendPendingBinaryData_keeps [OF s'(1)] fold_queue_message_keeps [of s ms] size
    by (auto intro: same_tables_trans)
  ultimately show "\<exists>s' n'. SendBinaryMessages ms s = (Inr (), s') \<and> session_holds (fss @ gss) s' n' \<and> same_tables s s' \<and>
      ts_pendingSendSize s' = ts_pendingSendSize s + int (total_size gss)"
    using s'(2) by blast
qed

lemma emits_nothing: "emits (\<lambda>s. (Inr (), s)) []"
  by (auto simp: emits_def)

lemma emits_make: "makes c fs \<Longrightarrow> emits (make_and_send c) [fs]"
  unfolding emits_def
proof (intro allI impI, elim conjE)
  fix fss s n
  assume c: "makes c fs" and h: "session_holds fss s n" and f: "list_all fits [fs]"
    and r: "ts_pendingSendSize s + int (total_size [fs]) < 2 ^ 31"
  then obtain m where m: "c = Inr m" "pm_holds m fs" by (auto simp: makes_def)
  have "emits (SendBinaryMessages [m]) [fs]" using emits_messages [of "[m]" "[fs]"] m(2) by simp
  then show "\<exists>s' n'. make_and_send c s = (Inr (), s') \<and> session_holds (fss @ [fs]) s' n' \<and> same_tables s s' \<and>
      ts_pendingSendSize s' = ts_pendingSendSize s + int (total_size [fs])"
    using h f r unfolding emits_def make_and_send_def m(1) cm_bind_simps SendBinaryMessages_one by blast
qed

lemma emits_bind:
  assumes "emits f gss" and "emits g hss"
  shows "emits (\<lambda>s. cm_bind (f s) (\<lambda>_ s. g s)) (gss @ hss)"
  unfolding emits_def
proof (intro allI impI, elim conjE)
  fix fss s n
  assume h: "session_holds fss s n" and f: "list_all fits (gss @ hss)"
    and r: "ts_pendingSendSize s + int (total_size (gss @ hss)) < 2 ^ 31"
  obtain s1 n1 where 1: "f s = (Inr (), s1)" "session_holds (fss @ gss) s1 n1" "same_tables s s1"
    "ts_pendingSendSize s1 = ts_pendingSendSize s + int (total_size gss)"
    using assms(1) h f r unfolding emits_def by (fastforce simp: list_all_append)
  then obtain s2 n2 where "g s1 = (Inr (), s2)" "session_holds ((fss @ gss) @ hss) s2 n2" "same_tables s1 s2"
    "ts_pendingSendSize s2 = ts_pendingSendSize s1 + int (total_size hss)"
    using assms(2) f r unfolding emits_def by (fastforce simp: list_all_append)
  then show "\<exists>s' n'. cm_bind (f s) (\<lambda>_ s. g s) = (Inr (), s') \<and> session_holds (fss @ gss @ hss) s' n' \<and>
      same_tables s s' \<and> ts_pendingSendSize s' = ts_pendingSendSize s + int (total_size (gss @ hss))"
    using 1 by (auto intro: same_tables_trans)
qed


section \<open>Answers, events and results\<close>

definition error_fields :: "int \<Rightarrow> byte list \<Rightarrow> pr1_field list" where
  "error_fields errorCode description =
     [int_field MESSAGE_FIELD_ID_COMMAND TIO_COMMAND_ANSWER,
      int_field MESSAGE_FIELD_ID_ERROR_CODE (word_of_int errorCode),
      data_field MESSAGE_FIELD_ID_ERROR_DESC (TString (c_str description))]"

definition event_fields :: "u32 \<Rightarrow> event_code \<Rightarrow> tio_record \<Rightarrow> pr1_field list" where
  "event_fields handle eventCode r =
     (case r of (k, v, md) \<Rightarrow>
        [int_field MESSAGE_FIELD_ID_COMMAND TIO_COMMAND_EVENT, int_field MESSAGE_FIELD_ID_HANDLE handle,
         int_field MESSAGE_FIELD_ID_EVENT_CODE (event_code_value eventCode)] @
        record_fields (Some k) (Some v) (Some md))"

definition query_fields :: "u32 \<Rightarrow> tio_record \<Rightarrow> pr1_field list" where
  "query_fields queryID r =
     (case r of (k, v, md) \<Rightarrow>
        [int_field MESSAGE_FIELD_ID_COMMAND TIO_COMMAND_QUERY_ITEM, int_field MESSAGE_FIELD_ID_QUERY_ID queryID] @
        record_fields (Some k) (Some v) (Some md))"

abbreviation (input) "no_record \<equiv> (TNone, TNone, TNone)"

lemma record_fields_none [simp]: "record_fields None None None = []"
  "record_fields (Some TNone) (Some TNone) (Some TNone) = []"
  by (simp_all add: record_fields_def data_fields_def)

lemma emits_answer: "emits (SendBinaryAnswerWith k v md) [answer_fields k v md]"
  unfolding SendBinaryAnswerWith_def by (rule emits_make [OF makes_answer])

lemma emits_SendBinaryAnswer: "emits SendBinaryAnswer [answer_fields None None None]"
  unfolding SendBinaryAnswer_def by (rule emits_make [OF makes_answer])

lemma makes_error: "makes (error_answer c d) (error_fields c d)"
  unfolding error_answer_def error_fields_def
  using makes_bind [OF makes_new adds_bind [OF adds_int adds_bind [OF adds_int adds_string]]] by simp

lemma emits_error: "emits (SendBinaryErrorAnswer c d) [error_fields c d]"
  unfolding SendBinaryErrorAnswer_def by (rule emits_make [OF makes_error])

lemma makes_event_message: "makes (event_message h c)
    [int_field MESSAGE_FIELD_ID_COMMAND TIO_COMMAND_EVENT, int_field MESSAGE_FIELD_ID_HANDLE h,
     int_field MESSAGE_FIELD_ID_EVENT_CODE (event_code_value c)]"
  unfolding event_message_def
  using makes_bind [OF makes_new adds_bind [OF adds_int adds_bind [OF adds_int adds_int]]] by simp

lemma makes_event: "makes (bind_res (event_message h c) (\<lambda>m. Pr1MessageAddFields m (Some k) (Some v) (Some md)))
    (event_fields h c (k, v, md))"
  unfolding event_fields_def prod.case by (rule makes_bind [OF makes_event_message adds_record])

lemma SendBinaryEvent_record:
  "SendBinaryEvent h c k v md =
     make_and_send (bind_res (event_message h c) (\<lambda>m. Pr1MessageAddFields m (Some k) (Some v) (Some md)))"
  by (simp add: SendBinaryEvent_def Pr1MessageAddFields_def add_unless_none_def)

lemma emits_event: "emits (SendBinaryEvent h c k v md) [event_fields h c (k, v, md)]"
  unfolding SendBinaryEvent_record by (rule emits_make [OF makes_event])

lemma makes_snapshot_end: "makes (event_message h EVENT_CODE_SNAPSHOT_END)
    (event_fields h EVENT_CODE_SNAPSHOT_END no_record)"
  unfolding event_fields_def prod.case record_fields_none append_Nil2 by (rule makes_event_message)

text \<open>The snapshot: one event per row, then the end marker.\<close>

definition snapshot_fields :: "u32 \<Rightarrow> event_code \<Rightarrow> tio_record list \<Rightarrow> pr1_field list list" where
  "snapshot_fields handle eventCode rows =
     map (event_fields handle eventCode) rows @ [event_fields handle EVENT_CODE_SNAPSHOT_END no_record]"

lemma fill_snapshot_ok:
  assumes "list_all fits (map (event_fields h c) rows)" and "length done + length rows = length msgs"
    and "take (length done) msgs = map Some done"
  shows "\<exists>ms. fill_snapshot h c (length done) rows msgs = Inr (map Some (done @ ms)) \<and>
    list_all2 pm_holds ms (map (event_fields h c) rows)"
  using assms
proof (induction rows arbitrary: "done" msgs)
  case (Cons r rows)
  obtain k v md where r: "r = (k, v, md)" by (cases r)
  obtain m where m: "bind_res (event_message h c) (\<lambda>m. Pr1MessageAddFields m (Some k) (Some v) (Some md)) = Inr m"
    "pm_holds m (event_fields h c (k, v, md))"
    using makes_event Cons.prems(1) r unfolding makes_def by fastforce
  have l: "length done < length msgs" using Cons.prems(2) by simp
  have t: "take (length (done @ [m])) (msgs[length done := Some m]) = map Some (done @ [m])"
    using l Cons.prems(3) by (simp add: take_Suc_conv_app_nth)
  obtain ms where "fill_snapshot h c (length (done @ [m])) rows (msgs[length done := Some m]) = Inr (map Some ((done @ [m]) @ ms))"
    "list_all2 pm_holds ms (map (event_fields h c) rows)"
    using Cons.IH [OF _ _ t] Cons.prems(1,2) by auto
  then show ?case using m r l by (intro exI [of _ "m # ms"]) simp
qed auto

lemma messages_of_Some: "messages_of (map Some ms) = Inr ms"
  by (induction ms) simp_all

lemma emits_snapshot:
  assumes "rs_current rs = 0"
  shows "emits (SendBinarySubscriptionSnapshot rs h c) (snapshot_fields h c (rs_records rs))"
  unfolding emits_def
proof (intro allI impI, elim conjE)
  fix fss s n
  let ?gss = "snapshot_fields h c (rs_records rs)"
  assume h: "session_holds fss s n" and f: "list_all fits ?gss"
    and r: "ts_pendingSendSize s + int (total_size ?gss) < 2 ^ 31"
  have l: "rs_records rs = rs_items rs" using assms by (simp add: rs_records_def)
  have f1: "list_all fits (map (event_fields h c) (rs_records rs))" and f2: "fits (event_fields h EVENT_CODE_SNAPSHOT_END no_record)"
    using f by (simp_all add: snapshot_fields_def)
  obtain ms where ms: "fill_snapshot h c 0 (rs_records rs) (replicate (rs_RecordCount rs) None) = Inr (map Some ms)"
    "list_all2 pm_holds ms (map (event_fields h c) (rs_records rs))"
    using fill_snapshot_ok [OF f1, of "[]" "replicate (rs_RecordCount rs) None"] l by (auto simp: rs_RecordCount_def)
  obtain e where e: "event_message h EVENT_CODE_SNAPSHOT_END = Inr e" "pm_holds e (event_fields h EVENT_CODE_SNAPSHOT_END no_record)"
    using makes_snapshot_end f2 by (auto simp: makes_def)
  have "list_all2 pm_holds (ms @ [e]) ?gss"
    using ms(2) e(2) by (simp add: snapshot_fields_def list_all2_appendI)
  then have em: "emits (SendBinaryMessages (ms @ [e])) ?gss" by (rule emits_messages)
  have "messages_of (map Some ms @ [Some e]) = Inr (ms @ [e])" using messages_of_Some [of "ms @ [e]"] by simp
  then have "SendBinarySubscriptionSnapshot rs h c s = SendBinaryMessages (ms @ [e]) s"
    using ms(1) e(1) by (simp add: SendBinarySubscriptionSnapshot_def)
  then show "\<exists>s' n'. SendBinarySubscriptionSnapshot rs h c s = (Inr (), s') \<and> session_holds (fss @ ?gss) s' n' \<and>
      same_tables s s' \<and> ts_pendingSendSize s' = ts_pendingSendSize s + int (total_size ?gss)"
    using em h f r unfolding emits_def by metis
qed


definition accepts :: "(tio_data \<Rightarrow> bool cpp) option \<Rightarrow> tio_record \<Rightarrow> bool" where
  "accepts f r = (case f of None \<Rightarrow> True | Some g \<Rightarrow> g (fst r) = Inr True)"

definition total_filter :: "(tio_data \<Rightarrow> bool cpp) option \<Rightarrow> bool" where
  "total_filter f \<longleftrightarrow> (case f of None \<Rightarrow> True | Some g \<Rightarrow> \<forall>k. \<exists>b. g k = Inr b)"

lemma makes_query_item: "makes (query_item q)
    [int_field MESSAGE_FIELD_ID_COMMAND TIO_COMMAND_QUERY_ITEM, int_field MESSAGE_FIELD_ID_QUERY_ID q]"
  unfolding query_item_def using makes_bind [OF makes_new adds_bind [OF adds_int adds_int]] by simp

lemma makes_query_row:
  "makes (bind_res (query_item q) (\<lambda>m. Pr1MessageAddFields m (Some k) (Some v) (Some md))) (query_fields q (k, v, md))"
  unfolding query_fields_def prod.case by (rule makes_bind [OF makes_query_item adds_record])

lemma unat_Suc_u32: "unat (a :: u32) < 2 ^ 32 - 1 \<Longrightarrow> unat (a + 1) = unat a + 1"
  by (simp add: unat_word_ariths)

lemma unat_add_one_u32: "(a :: u32) < b \<Longrightarrow> unat (a + 1) = unat a + 1"
  using unat_u32_less [of b] by (intro unat_Suc_u32) (simp add: word_less_nat_alt)

text \<open>The rows sent: those the filter accepts, at most \<open>mx\<close> of them.\<close>

lemma emits_query_rows:
  assumes "total_filter f" and "unat a \<le> unat mx"
  shows "emits (send_query_rows q f mx a rows)
    (map (query_fields q) (take (unat mx - unat a) (filter (accepts f) rows)))"
  using assms(2)
proof (induction rows arbitrary: a)
  case Nil
  then show ?case using emits_nothing by (simp add: send_query_rows.simps(1) [abs_def])
next
  case (Cons r rows)
  obtain k v md where r: "r = (k, v, md)" by (cases r)
  obtain b where b: "(case f of None \<Rightarrow> Inr True | Some g \<Rightarrow> g k) = Inr b"
    using assms(1) by (auto simp: total_filter_def split: option.splits)
  have acc: "accepts f r = b" using b r by (auto simp: accepts_def split: option.splits)
  show ?case
  proof (cases "a < mx")
    case False
    then have "unat mx - unat a = 0" by (simp add: word_less_nat_alt)
    moreover have "send_query_rows q f mx a (r # rows) = (\<lambda>s. (Inr (), s))" using False r by (simp add: fun_eq_iff)
    ultimately show ?thesis using emits_nothing by simp
  next
    case True
    show ?thesis
    proof (cases b)
      case False
      then have "send_query_rows q f mx a (r # rows) = send_query_rows q f mx a rows"
        using True r b by (simp add: fun_eq_iff)
      then show ?thesis using Cons acc False by simp
    next
      case b': True
      have n: "unat (a + 1) = unat a + 1" by (rule unat_add_one_u32 [OF True])
      have lt: "unat a < unat mx" using True by (simp add: word_less_nat_alt)
      then have s: "unat mx - unat a = Suc (unat mx - unat (a + 1))" "unat (a + 1) \<le> unat mx" using n by simp_all
      have e: "send_query_rows q f mx a (r # rows) = (\<lambda>s. cm_bind (make_and_send (bind_res (query_item q) (\<lambda>m.
          Pr1MessageAddFields m (Some k) (Some v) (Some md))) s) (\<lambda>_ s. send_query_rows q f mx (a + 1) rows s))"
        using True r b b' by (simp add: fun_eq_iff)
      show ?thesis
        unfolding e using emits_bind [OF emits_make [OF makes_query_row] Cons.IH [OF s(2)]] acc b' s(1) r by simp
    qed
  qed
qed

definition result_fields :: "u32 \<Rightarrow> (tio_data \<Rightarrow> bool cpp) option \<Rightarrow> u32 \<Rightarrow> tio_record list \<Rightarrow> pr1_field list list" where
  "result_fields queryID f maxRecords rows =
     [[int_field MESSAGE_FIELD_ID_COMMAND TIO_COMMAND_ANSWER, int_field MESSAGE_FIELD_ID_QUERY_ID queryID]] @
     map (query_fields queryID)
       (take (unat (if maxRecords = 0 then 0xFFFFFFFF else maxRecords)) (filter (accepts f) rows)) @
     [query_fields queryID no_record]"

lemma emits_result_set:
  assumes "total_filter f"
  shows "emits (SendBinaryResultSet rs q f mx) (result_fields q f mx (rs_records rs))"
proof -
  have 1: "makes (bind_res Pr1CreateAnswerMessage (\<lambda>m. Pr1MessageAddField_int m MESSAGE_FIELD_ID_QUERY_ID q))
      [int_field MESSAGE_FIELD_ID_COMMAND TIO_COMMAND_ANSWER, int_field MESSAGE_FIELD_ID_QUERY_ID q]"
    using makes_bind [OF makes_bind [OF makes_new adds_int] adds_int] by (simp add: Pr1CreateAnswerMessage_def)
  have 3: "makes (query_item q) (query_fields q no_record)"
    unfolding query_fields_def prod.case record_fields_none append_Nil2 by (rule makes_query_item)
  let ?mx = "if mx = 0 then 0xFFFFFFFF else mx"
  have 2: "emits (send_query_rows q f ?mx 0 (rs_records rs))
      (map (query_fields q) (take (unat ?mx) (filter (accepts f) (rs_records rs))))"
    using emits_query_rows [OF assms, of 0 ?mx q "rs_records rs"] by simp
  show ?thesis
    using emits_bind [OF emits_make [OF 1] emits_bind [OF 2 emits_make [OF 3]]]
    by (simp add: SendBinaryResultSet_def [abs_def] result_fields_def Let_def)
qed


section \<open>The table of handles\<close>

text \<open>
  Names and handles correspond: every registered name leads to a live handle of a container that has
  this name, and back.  Handles are positive and at most the last one given out.
\<close>

definition handles_ok :: "container_manager \<Rightarrow> tio_session \<Rightarrow> bool" where
  "handles_ok cm s \<longleftrightarrow>
     sm_inv (ts_handles s) \<and> sm_inv (ts_containerNameToHandle s) \<and>
     (\<forall>h ob. sm_find h (ts_handles s) = Some ob \<longrightarrow> 0 < h \<and> h \<le> ts_lastHandle s \<and>
        (\<exists>n. object_GetName ob cm = Inr n \<and> sm_find n (ts_containerNameToHandle s) = Some h)) \<and>
     (\<forall>n h. sm_find n (ts_containerNameToHandle s) = Some h \<longrightarrow>
        (\<exists>ob. sm_find h (ts_handles s) = Some ob \<and> object_GetName ob cm = Inr n))"

lemma handle_name:
  assumes "handles_ok cm s" and "sm_find h (ts_handles s) = Some ob"
  obtains n where "0 < h" "h \<le> ts_lastHandle s" "object_GetName ob cm = Inr n"
    "sm_find n (ts_containerNameToHandle s) = Some h"
  using assms unfolding handles_ok_def by blast

lemma handles_new: "handles_ok cm (TioTcpSession_new i)"
  by (simp add: handles_ok_def TioTcpSession_new_def sm_inv_def)

lemma last_handle_step:
  assumes "unat (ts_lastHandle s) < 2 ^ 32 - 1"
  shows "ts_lastHandle s < ts_lastHandle s + 1" "0 < ts_lastHandle s + 1"
  using unat_Suc_u32 [OF assms] by (simp_all add: word_less_nat_alt)

lemma register_ok:
  assumes ok: "handles_ok cm s" and ob: "object_GetName ob cm = Inr n" and last: "unat (ts_lastHandle s) < 2 ^ 32 - 1"
    and r: "RegisterContainer n ob s = (h, s')"
  shows "handles_ok cm s' \<and> 0 < h \<and> sm_find n (ts_containerNameToHandle s') = Some h \<and>
    (\<exists>ob'. sm_find h (ts_handles s') = Some ob' \<and> object_GetName ob' cm = Inr n)"
proof (cases "sm_find n (ts_containerNameToHandle s)")
  case (Some h')
  then have "h' = h" "s' = s" using r by (simp_all add: RegisterContainer_def)
  then show ?thesis using ok Some by (force simp: handles_ok_def)
next
  case None
  let ?h = "ts_lastHandle s + 1"
  note h = last_handle_step [OF last]
  have free: "sm_find ?h (ts_handles s) = None"
  proof (cases "sm_find ?h (ts_handles s)")
    case (Some x)
    then show ?thesis using ok h(1) unfolding handles_ok_def by (metis linorder_not_le)
  qed
  have s': "h = ?h" "ts_handles s' = sm_set ?h ob (ts_handles s)" "ts_lastHandle s' = ?h"
    "ts_containerNameToHandle s' = sm_set n ?h (ts_containerNameToHandle s)"
    using r None free by (auto simp: RegisterContainer_def Let_def)
  have inv: "sm_inv (ts_handles s)" "sm_inv (ts_containerNameToHandle s)" using ok by (simp_all add: handles_ok_def)
  have le: "k \<le> ?h" if "sm_find k (ts_handles s) = Some x" for k x
    using ok that h(1) unfolding handles_ok_def by (meson less_imp_le order_trans)
  have "handles_ok cm s'"
    unfolding handles_ok_def
  proof (intro conjI allI impI)
    show "sm_inv (ts_handles s')" "sm_inv (ts_containerNameToHandle s')"
      using inv by (simp_all add: s' sm_set_inv)
    fix k x assume k: "sm_find k (ts_handles s') = Some x"
    show "0 < k" "k \<le> ts_lastHandle s'"
      using k ok h(2) le by (auto simp: s' sm_find_set inv handles_ok_def split: if_splits)
    show "\<exists>m. object_GetName x cm = Inr m \<and> sm_find m (ts_containerNameToHandle s') = Some k"
    proof (cases "k = ?h")
      case True
      then show ?thesis using k ob by (simp add: s' sm_find_set inv)
    next
      case False
      then have "sm_find k (ts_handles s) = Some x" using k by (simp add: s' sm_find_set inv)
      with ok obtain m where m: "object_GetName x cm = Inr m" "sm_find m (ts_containerNameToHandle s) = Some k"
        by (rule handle_name)
      then have "m \<noteq> n" using None by auto
      then show ?thesis using m by (simp add: s' sm_find_set inv)
    qed
  next
    fix m k assume m: "sm_find m (ts_containerNameToHandle s') = Some k"
    show "\<exists>x. sm_find k (ts_handles s') = Some x \<and> object_GetName x cm = Inr m"
    proof (cases "m = n")
      case True
      then show ?thesis using m ob by (simp add: s' sm_find_set inv)
    next
      case False
      then have "sm_find m (ts_containerNameToHandle s) = Some k" using m by (simp add: s' sm_find_set inv)
      then obtain x where "sm_find k (ts_handles s) = Some x" "object_GetName x cm = Inr m"
        using ok unfolding handles_ok_def by blast
      then show ?thesis using free by (auto simp: s' sm_find_set inv)
    qed
  qed
  then show ?thesis using h(2) ob by (simp add: s' sm_find_set inv)
qed

lemma close_ok:
  assumes ok: "handles_ok cm s" and h: "sm_find h (ts_handles s) = Some ob"
  shows "\<exists>n s'. object_GetName ob cm = Inr n \<and> CloseContainerHandle h cm s = (Inr (), s') \<and> handles_ok cm s' \<and>
    sm_find h (ts_handles s') = None \<and> sm_find n (ts_containerNameToHandle s') = None"
proof -
  obtain n where n: "object_GetName ob cm = Inr n" "sm_find n (ts_containerNameToHandle s) = Some h"
    by (rule handle_name [OF ok h])
  let ?s' = "s\<lparr> ts_containerNameToHandle := sm_erase n (ts_containerNameToHandle s),
                ts_handles := sm_erase h (ts_handles s) \<rparr>"
  have inv: "sm_inv (ts_handles s)" "sm_inv (ts_containerNameToHandle s)" using ok by (simp_all add: handles_ok_def)
  have c: "CloseContainerHandle h cm s = (Inr (), ?s')"
    using h n by (simp add: CloseContainerHandle_def Unsubscribe_def Let_def)
  have other: "k \<noteq> h" if "sm_find m (ts_containerNameToHandle s) = Some k" "m \<noteq> n" for m k
    using ok that n(1) h unfolding handles_ok_def by (metis Inr_inject option.inject)
  have "handles_ok cm ?s'"
    unfolding handles_ok_def
  proof (intro conjI allI impI)
    show "sm_inv (ts_handles ?s')" "sm_inv (ts_containerNameToHandle ?s')"
      using inv by (simp_all add: sm_erase_inv)
    fix k x assume "sm_find k (ts_handles ?s') = Some x"
    then have k: "k \<noteq> h" "sm_find k (ts_handles s) = Some x" by (auto simp: sm_find_erase inv split: if_splits)
    obtain m where m: "object_GetName x cm = Inr m" "sm_find m (ts_containerNameToHandle s) = Some k"
      and b: "0 < k" "k \<le> ts_lastHandle s" by (rule handle_name [OF ok k(2)])
    show "0 < k" "k \<le> ts_lastHandle ?s'" using b by simp_all
    show "\<exists>m. object_GetName x cm = Inr m \<and> sm_find m (ts_containerNameToHandle ?s') = Some k"
      using m n(2) k(1) by (auto simp: sm_find_erase inv)
  next
    fix m k assume "sm_find m (ts_containerNameToHandle ?s') = Some k"
    then have "m \<noteq> n" "sm_find m (ts_containerNameToHandle s) = Some k" by (auto simp: sm_find_erase inv split: if_splits)
    then show "\<exists>x. sm_find k (ts_handles ?s') = Some x \<and> object_GetName x cm = Inr m"
      using ok other by (auto simp: sm_find_erase inv handles_ok_def)
  qed
  then show ?thesis using n c by (simp add: sm_find_erase inv)
qed

end
