(* ===== verification/ServerCommands.thy ===== *)
theory ServerCommands
  imports ServerState SessionMessages
begin

text \<open>
  The commands of the binary protocol (\<^verbatim>\<open>TioTcpServer::OnBinaryCommand\<close> of
  \<^verbatim>\<open>server/tio/TioTcpServer.cpp\<close>), one definition per group of cases of its switch.  What the server
  takes from libraries is a parameter: the texts of exceptions thrown inside the standard library, the
  number that \<^verbatim>\<open>try_lexical_convert\<close> leaves, the printing of doubles, and \<^verbatim>\<open>boost::regex\<close>.  An exception
  derived from \<^verbatim>\<open>std::exception\<close> is caught and answered, any other error of the model stops the
  server.
\<close>

record server_env =
  se_what :: "cpp_error \<Rightarrow> byte list"
  se_lexical_int :: "string \<Rightarrow> int"
  se_format_g :: "u64 \<Rightarrow> byte list"
  se_regex :: "byte list \<Rightarrow> (byte list \<Rightarrow> bool cpp) cpp"

fun what :: "server_env \<Rightarrow> cpp_error \<Rightarrow> byte list" where
  "what env (invalid_argument text) = ascii text"
| "what env (runtime_error text) = ascii text"
| "what env e = se_what env e"


section \<open>Requests on a handle\<close>

definition GetContainerAndParametersFromRequest :: "pr1_message \<Rightarrow> nat \<Rightarrow>
    tio_data option \<Rightarrow> tio_data option \<Rightarrow> tio_data option \<Rightarrow> tio_server \<Rightarrow>
    (nat \<times> tio_data option \<times> tio_data option \<times> tio_data option) cpp \<times> tio_server" where
  "GetContainerAndParametersFromRequest m sid key v metadata sv =
     cm_bind (Pr1MessageGetHandleKeyValueAndMetadata m key v metadata, sv) (\<lambda>(handle, key, v, metadata) sv.
     if handle = 0 then (Inl (runtime_error ''handle?''), sv)
     else cm_bind (with_session sid (\<lambda>s. (GetRegisteredContainer handle s, s)) sv) (\<lambda>ob sv.
       (Inr (ob, key, v, metadata), sv)))"

definition missing :: "nat \<Rightarrow> string \<Rightarrow> tio_server \<Rightarrow> unit cpp \<times> tio_server" where
  "missing sid text = with_session sid (SendBinaryErrorAnswer TIO_ERROR_MISSING_PARAMETER (ascii text))"

definition on_ping :: "nat \<Rightarrow> pr1_message \<Rightarrow> tio_server \<Rightarrow> unit cpp \<times> tio_server" where
  "on_ping sid m sv =
     cm_bind (Pr1MessageGetField_string m (ucast MESSAGE_FIELD_ID_VALUE), sv) (\<lambda>r sv.
     case r of
       None \<Rightarrow> missing sid ''missing MESSAGE_FIELD_ID_VALUE'' sv
     | Some payload \<Rightarrow>
         with_session sid (make_and_send (bind_res Pr1CreateAnswerMessage (\<lambda>answer.
           Pr1MessageAddField_string answer MESSAGE_FIELD_ID_VALUE payload))) sv)"

definition handle_answer :: "u32 \<Rightarrow> pr1_message cpp" where
  "handle_answer handle =
     bind_res Pr1CreateAnswerMessage (\<lambda>answer. Pr1MessageAddField_int answer MESSAGE_FIELD_ID_HANDLE handle)"

definition on_open_create :: "u32 \<Rightarrow> nat \<Rightarrow> pr1_message \<Rightarrow> tio_server \<Rightarrow> unit cpp \<times> tio_server" where
  "on_open_create command sid m sv =
     cm_bind (Pr1MessageGetField_string m (ucast MESSAGE_FIELD_ID_NAME), sv) (\<lambda>r sv.
     case r of
       None \<Rightarrow> missing sid ''missing container name (MESSAGE_FIELD_ID_NAME)'' sv
     | Some name \<Rightarrow>
         cm_bind (Pr1MessageGetField_string m (ucast MESSAGE_FIELD_ID_TYPE), sv) (\<lambda>r sv.
         let type = (case r of None \<Rightarrow> [] | Some t \<Rightarrow> of_ascii t) in
         if command = TIO_COMMAND_CREATE \<and> type = []
         then missing sid ''must inform type on container creation (MESSAGE_FIELD_ID_TYPE)'' sv
         else
           cm_bind (with_manager
               (if command = TIO_COMMAND_CREATE then CreateContainer type (of_ascii name)
                else OpenContainer type (of_ascii name)) sv) (\<lambda>ob sv.
           cm_bind (with_session sid (\<lambda>s.
               case RegisterContainer (of_ascii name) ob s of (handle, s) \<Rightarrow> (Inr handle, s)) sv) (\<lambda>handle sv.
           cm_bind (handle_answer handle, sv) (\<lambda>answer sv.
             with_session sid (SendBinaryMessage answer) (LogMessage ob m sv))))))"

definition on_close :: "nat \<Rightarrow> pr1_message \<Rightarrow> tio_server \<Rightarrow> unit cpp \<times> tio_server" where
  "on_close sid m sv =
     cm_bind (Pr1MessageGetField_int m (ucast MESSAGE_FIELD_ID_HANDLE), sv) (\<lambda>r sv.
     case r of
       None \<Rightarrow> missing sid ''missing handle (MESSAGE_FIELD_ID_HANDLE)'' sv
     | Some handle \<Rightarrow>
         cm_bind (with_session sid (CloseContainerHandle handle (sv_containerManager sv)) sv) (\<lambda>_ sv.
           with_session sid SendBinaryAnswer sv))"

definition on_get :: "u32 \<Rightarrow> nat \<Rightarrow> pr1_message \<Rightarrow> tio_server \<Rightarrow> unit cpp \<times> tio_server" where
  "on_get command sid m sv =
     cm_bind (GetContainerAndParametersFromRequest m sid (Some TNone) None None sv) (\<lambda>(ob, key, _, _) sv.
     let searchKey = or_null key in
     cm_bind
       (if command = TIO_COMMAND_GET then with_manager (attempt (object_GetRecord searchKey ob)) sv
        else
          cm_bind (AsSz searchKey, sv) (\<lambda>name sv.
          cm_bind (with_manager (attempt (object_GetProperty (of_ascii name) ob)) sv) (\<lambda>v sv.
            (Inr (searchKey, TString v, TNone), sv)))) (\<lambda>(key, v, metadata) sv.
       with_session sid (SendBinaryAnswerWith (Some key) (Some v) (Some metadata)) sv))"

definition on_pop :: "u32 \<Rightarrow> nat \<Rightarrow> pr1_message \<Rightarrow> tio_server \<Rightarrow> unit cpp \<times> tio_server" where
  "on_pop command sid m sv =
     cm_bind (GetContainerAndParametersFromRequest m sid None None None sv) (\<lambda>(ob, _, _, _) sv.
     let outs = (Some TNone, Some TNone, Some TNone) in
     cm_bind (with_manager (attempt
         (if command = TIO_COMMAND_POP_BACK then object_PopBack outs ob else object_PopFront outs ob)) sv)
       (\<lambda>(key, v, metadata) sv.
         with_session sid (SendBinaryAnswerWith key v metadata) (LogMessage ob m sv)))"

text \<open>The operation of a modifying command other than \<^verbatim>\<open>TIO_COMMAND_PROPSET\<close>.\<close>

definition modify_op :: "u32 \<Rightarrow> tio_data \<Rightarrow> tio_data \<Rightarrow> tio_data \<Rightarrow> storage_op" where
  "modify_op command key v metadata =
     (if command = TIO_COMMAND_PUSH_BACK then OpPushBack key v metadata
      else if command = TIO_COMMAND_PUSH_FRONT then OpPushFront key v metadata
      else if command = TIO_COMMAND_SET then OpSet key v metadata
      else if command = TIO_COMMAND_INSERT then OpInsert key v metadata
      else if command = TIO_COMMAND_DELETE then OpDelete key v metadata
      else OpClear)"

definition set_property :: "tio_data \<Rightarrow> tio_data \<Rightarrow> nat \<Rightarrow> tio_server \<Rightarrow> unit cpp \<times> tio_server" where
  "set_property key v ob sv =
     (if GetDataType key \<noteq> StringT \<or> GetDataType v \<noteq> StringT
      then (Inl (runtime_error ''properties key and value should be strings''), sv)
      else
        cm_bind (AsSz key, sv) (\<lambda>k sv.
        cm_bind (AsSz v, sv) (\<lambda>v sv.
          with_manager (attempt (object_SetProperty (of_ascii k) v ob)) sv)))"

definition on_modify :: "u32 \<Rightarrow> nat \<Rightarrow> pr1_message \<Rightarrow> tio_server \<Rightarrow> unit cpp \<times> tio_server" where
  "on_modify command sid m sv =
     cm_bind (GetContainerAndParametersFromRequest m sid (Some TNone) (Some TNone) (Some TNone) sv)
       (\<lambda>(ob, key, v, metadata) sv.
     let key = or_null key; v = or_null v; metadata = or_null metadata in
     cm_bind
       (if command = TIO_COMMAND_PROPSET then set_property key v ob sv
        else with_manager (attempt (object_exec (modify_op command key v metadata) ob)) sv) (\<lambda>_ sv.
       with_session sid SendBinaryAnswer (LogMessage ob m sv)))"

definition count_answer :: "u32 \<Rightarrow> pr1_message cpp" where
  "count_answer n =
     bind_res (Pr1CreateAnswerMessageWith None None None) (\<lambda>answer.
       Pr1MessageAddField_int answer MESSAGE_FIELD_ID_VALUE n)"

definition on_count :: "nat \<Rightarrow> pr1_message \<Rightarrow> tio_server \<Rightarrow> unit cpp \<times> tio_server" where
  "on_count sid m sv =
     cm_bind (GetContainerAndParametersFromRequest m sid None None None sv) (\<lambda>(ob, _, _, _) sv.
     cm_bind (with_manager (attempt (object_GetRecordCount ob)) sv) (\<lambda>n sv.
       with_session sid (make_and_send (count_answer (of_nat n))) sv))"

text \<open>\<open>None\<close> is the empty \<^verbatim>\<open>std::function\<close>.\<close>

definition query_filter :: "server_env \<Rightarrow> byte list \<Rightarrow> (tio_data \<Rightarrow> bool cpp) option cpp" where
  "query_filter env queryExpression =
     (if queryExpression = [] then Inr None
      else
        bind_res (se_regex env queryExpression) (\<lambda>e.
          Inr (Some (\<lambda>key. if GetDataType key \<noteq> StringT then Inr False
                           else bind_res (AsSz key) (\<lambda>sz. e sz)))))"

definition on_query :: "server_env \<Rightarrow> nat \<Rightarrow> pr1_message \<Rightarrow> tio_server \<Rightarrow> unit cpp \<times> tio_server" where
  "on_query env sid m sv =
     cm_bind (GetContainerAndParametersFromRequest m sid None None None sv) (\<lambda>(ob, _, _, _) sv.
     cm_bind (Pr1MessageGetField_int m (ucast MESSAGE_FIELD_ID_START_RECORD), sv) (\<lambda>start sv.
     cm_bind (Pr1MessageGetField_int m (ucast MESSAGE_FIELD_ID_END), sv) (\<lambda>en sv.
     cm_bind (Pr1MessageGetField_string m (ucast MESSAGE_FIELD_ID_QUERY_EXPRESSION), sv) (\<lambda>queryExpression sv.
     let start = (case start of None \<Rightarrow> 0 | Some x \<Rightarrow> x);
         en = (case en of None \<Rightarrow> 0 | Some x \<Rightarrow> x);
         maxRecords = en;
         queryExpression = (case queryExpression of None \<Rightarrow> [] | Some e \<Rightarrow> e)
     in
     cm_bind (query_filter env queryExpression, sv) (\<lambda>filterFunction sv.
     let (start, en) = (if queryExpression = [] then (sint start, sint en) else (0, 0)) in
     cm_bind (with_manager (attempt (object_Query start en TNone ob)) sv) (\<lambda>resultSet sv.
     let (queryID, sv) = CreateNewQueryId sv in
       with_session sid (SendBinaryResultSet resultSet queryID filterFunction maxRecords) sv))))))"


section \<open>Groups and subscriptions\<close>

definition subscribe_new :: "string \<Rightarrow> string \<Rightarrow> nat \<Rightarrow> nat \<Rightarrow> string \<Rightarrow> tio_server \<Rightarrow> unit cpp \<times> tio_server" where
  "subscribe_new groupName containerName container sid start sv =
     cm_bind (with_session sid (\<lambda>s.
         case RegisterNewGroupContainer groupName containerName container s of (h, s) \<Rightarrow> (Inr h, s)) sv) (\<lambda>handle sv.
       SessionAsyncSubscribe (SubscriptionInfo_new groupName container handle sid start) sv)"

text \<open>Sessions that are gone or invalid are passed over.\<close>

fun notify_group :: "string \<Rightarrow> string \<Rightarrow> nat \<Rightarrow> nat list \<Rightarrow> tio_server \<Rightarrow> unit cpp \<times> tio_server" where
  "notify_group groupName containerName container [] sv = (Inr (), sv)"
| "notify_group groupName containerName container (sid # sids) sv =
     (case sm_find sid (sv_sessions sv) of
        None \<Rightarrow> notify_group groupName containerName container sids sv
      | Some s \<Rightarrow>
          if \<not> ts_valid s then notify_group groupName containerName container sids sv
          else cm_bind (subscribe_new groupName containerName container sid ''0'' sv) (\<lambda>_ sv.
                 notify_group groupName containerName container sids sv))"

definition on_group_add :: "nat \<Rightarrow> pr1_message \<Rightarrow> tio_server \<Rightarrow> unit cpp \<times> tio_server" where
  "on_group_add sid m sv =
     cm_bind (Pr1MessageGetField_string m (ucast MESSAGE_FIELD_ID_GROUP_NAME), sv) (\<lambda>r sv.
     case r of
       None \<Rightarrow> missing sid ''missing handle (MESSAGE_FIELD_ID_GROUP_NAME)'' sv
     | Some groupName \<Rightarrow>
         cm_bind (Pr1MessageGetField_string m (ucast MESSAGE_FIELD_ID_CONTAINER_NAME), sv) (\<lambda>r sv.
         case r of
           None \<Rightarrow> missing sid ''missing handle (MESSAGE_FIELD_ID_CONTAINER_NAME)'' sv
         | Some containerName \<Rightarrow>
             cm_bind (with_manager (OpenContainer [] (of_ascii containerName)) sv) (\<lambda>ob sv.
             cm_bind (AddContainer (of_ascii groupName) ob sv) (\<lambda>_ sv.
             cm_bind (with_session sid SendBinaryAnswer sv) (\<lambda>_ sv.
             let (subscribers, sv) = group_subscribers (of_ascii groupName) sv in
             cm_bind (notify_group (of_ascii groupName) (of_ascii containerName) ob subscribers sv) (\<lambda>_ sv.
               (Inr (), LogMessage ob m sv)))))))"

fun subscribe_containers :: "string \<Rightarrow> (string \<times> nat) list \<Rightarrow> nat \<Rightarrow> string \<Rightarrow> tio_server \<Rightarrow> unit cpp \<times> tio_server" where
  "subscribe_containers groupName [] sid start sv = (Inr (), sv)"
| "subscribe_containers groupName ((containerName, container) # rest) sid start sv =
     cm_bind (subscribe_new groupName containerName container sid start sv) (\<lambda>_ sv.
       subscribe_containers groupName rest sid start sv)"

definition on_group_subscribe :: "nat \<Rightarrow> pr1_message \<Rightarrow> tio_server \<Rightarrow> unit cpp \<times> tio_server" where
  "on_group_subscribe sid m sv =
     cm_bind (Pr1MessageGetField_string m (ucast MESSAGE_FIELD_ID_GROUP_NAME), sv) (\<lambda>r sv.
     case r of
       None \<Rightarrow> missing sid ''missing handle (MESSAGE_FIELD_ID_GROUP_NAME)'' sv
     | Some groupName \<Rightarrow>
         cm_bind (Pr1MessageGetField_string m (ucast MESSAGE_FIELD_ID_START_RECORD), sv) (\<lambda>start sv.
         let groupName = of_ascii groupName;
             start = (case start of None \<Rightarrow> [] | Some x \<Rightarrow> of_ascii x);
             groupContainers = GetGroupContainers groupName sv;
             (subscribers, sv) = group_subscribers groupName sv;
             sv = sv\<lparr> sv_groupSubscriptions := sm_set groupName (subscribers @ [sid]) (sv_groupSubscriptions sv) \<rparr>
         in
         cm_bind (with_session sid SendBinaryAnswer sv) (\<lambda>_ sv.
           subscribe_containers groupName groupContainers sid start sv)))"

definition subscribe_start :: "pr1_message \<Rightarrow> string cpp" where
  "subscribe_start m =
     bind_res (Pr1MessageGetField_string m (ucast MESSAGE_FIELD_ID_KEY)) (\<lambda>r.
     case r of
       Some start \<Rightarrow> Inr (of_ascii start)
     | None \<Rightarrow>
         bind_res (Pr1MessageGetField_int m (ucast MESSAGE_FIELD_ID_KEY)) (\<lambda>r.
           Inr (case r of None \<Rightarrow> [] | Some start \<Rightarrow> of_ascii (dec_int (sint start)))))"

definition on_subscribe :: "nat \<Rightarrow> pr1_message \<Rightarrow> tio_server \<Rightarrow> unit cpp \<times> tio_server" where
  "on_subscribe sid m sv =
     cm_bind (Pr1MessageGetField_int m (ucast MESSAGE_FIELD_ID_HANDLE), sv) (\<lambda>r sv.
     case r of
       None \<Rightarrow> missing sid ''missing handle (MESSAGE_FIELD_ID_HANDLE)'' sv
     | Some handle \<Rightarrow>
         cm_bind (subscribe_start m, sv) (\<lambda>start sv.
         cm_bind (GetContainerAndParametersFromRequest m sid None None None sv) (\<lambda>(ob, _, _, _) sv.
         cm_bind (with_session sid SendBinaryAnswer sv) (\<lambda>_ sv.
           SessionAsyncSubscribe (SubscriptionInfo_new [] ob handle sid start) sv))))"

definition on_unsubscribe :: "nat \<Rightarrow> pr1_message \<Rightarrow> tio_server \<Rightarrow> unit cpp \<times> tio_server" where
  "on_unsubscribe sid m sv =
     cm_bind (Pr1MessageGetField_int m (ucast MESSAGE_FIELD_ID_HANDLE), sv) (\<lambda>r sv.
     case r of
       None \<Rightarrow> missing sid ''missing handle (MESSAGE_FIELD_ID_HANDLE)'' sv
     | Some handle \<Rightarrow>
         cm_bind (with_session sid (\<lambda>s. (Inr (), Unsubscribe handle s)) sv) (\<lambda>_ sv.
           with_session sid SendBinaryAnswer sv))"


section \<open>The switch\<close>

definition dispatch_binary :: "server_env \<Rightarrow> u32 \<Rightarrow> nat \<Rightarrow> pr1_message \<Rightarrow> tio_server \<Rightarrow> unit cpp \<times> tio_server" where
  "dispatch_binary env command sid m sv =
     (if command = TIO_COMMAND_PING then on_ping sid m sv
      else if command = TIO_COMMAND_OPEN \<or> command = TIO_COMMAND_CREATE then on_open_create command sid m sv
      else if command = TIO_COMMAND_CLOSE then on_close sid m sv
      else if command = TIO_COMMAND_GET \<or> command = TIO_COMMAND_PROPGET then on_get command sid m sv
      else if command = TIO_COMMAND_POP_FRONT \<or> command = TIO_COMMAND_POP_BACK then on_pop command sid m sv
      else if command \<in> {TIO_COMMAND_PUSH_BACK, TIO_COMMAND_PUSH_FRONT, TIO_COMMAND_SET, TIO_COMMAND_INSERT,
                          TIO_COMMAND_DELETE, TIO_COMMAND_CLEAR, TIO_COMMAND_PROPSET}
      then on_modify command sid m sv
      else if command = TIO_COMMAND_COUNT then on_count sid m sv
      else if command = TIO_COMMAND_QUERY then on_query env sid m sv
      else if command = TIO_COMMAND_GROUP_ADD then on_group_add sid m sv
      else if command = TIO_COMMAND_GROUP_SUBSCRIBE then on_group_subscribe sid m sv
      else if command = TIO_COMMAND_SUBSCRIBE then on_subscribe sid m sv
      else if command = TIO_COMMAND_UNSUBSCRIBE then on_unsubscribe sid m sv
      else with_session sid (SendBinaryErrorAnswer TIO_ERROR_PROTOCOL (ascii ''invalid command'')) sv)"

text \<open>\<^verbatim>\<open>catch(std::exception& ex)\<close> around the switch.\<close>

definition catch_std :: "server_env \<Rightarrow> nat \<Rightarrow> unit cpp \<times> tio_server \<Rightarrow> unit cpp \<times> tio_server" where
  "catch_std env sid r =
     (case r of
        (Inl e, sv) \<Rightarrow>
          if std_exception e then with_session sid (SendBinaryErrorAnswer TIO_ERROR_PROTOCOL (what env e)) sv
          else (Inl e, sv)
      | (Inr x, sv) \<Rightarrow> (Inr x, sv))"

definition OnBinaryCommand :: "server_env \<Rightarrow> nat \<Rightarrow> pr1_message \<Rightarrow> tio_server \<Rightarrow> unit cpp \<times> tio_server" where
  "OnBinaryCommand env sid m sv =
     cm_bind (lift_c (pr1_message_parse m), sv) (\<lambda>m sv.
     cm_bind (Pr1MessageGetField_int m (ucast MESSAGE_FIELD_ID_COMMAND), sv) (\<lambda>r sv.
     case r of
       None \<Rightarrow> missing sid ''missing MESSAGE_FIELD_ID_COMMAND'' sv
     | Some command \<Rightarrow> catch_std env sid (dispatch_binary env command sid m sv)))"

end
