(* ===== verification/ServerAnswers.thy ===== *)
theory ServerAnswers
  imports ServerCommands
begin

text \<open>
  Every command of the binary protocol is answered exactly once.  \<open>quiet sv sv'\<close> says that between two
  states of the server no session was sent anything (only tables of handles changed), \<open>answered\<close> that
  the session of the request was sent one answer and no other session anything.
\<close>

section \<open>Quiet and answered\<close>

definition queue_part :: "tio_session \<Rightarrow> tio_session" where
  "queue_part s = s\<lparr> ts_handles := [], ts_containerNameToHandle := [], ts_lastHandle := 0 \<rparr>"

definition same_queue :: "tio_session \<Rightarrow> tio_session \<Rightarrow> bool" where
  "same_queue s s' \<longleftrightarrow> queue_part s = queue_part s'"

lemma same_queue_refl [simp]: "same_queue s s"
  by (simp add: same_queue_def)

lemma same_queue_trans: "same_queue s s' \<Longrightarrow> same_queue s' s'' \<Longrightarrow> same_queue s s''"
  by (simp add: same_queue_def)

abbreviation session_at :: "tio_server \<Rightarrow> nat \<Rightarrow> tio_session option" where
  "session_at sv sid \<equiv> sm_find sid (sv_sessions sv)"

definition quiet :: "tio_server \<Rightarrow> tio_server \<Rightarrow> bool" where
  "quiet sv sv' \<longleftrightarrow>
     sm_inv (sv_sessions sv') \<and> (\<forall>i. rel_option same_queue (session_at sv i) (session_at sv' i))"

text \<open>The messages that answer a command.\<close>

definition answer_message :: "pr1_message \<Rightarrow> bool" where
  "answer_message m \<longleftrightarrow>
     (\<exists>k v md. Pr1CreateAnswerMessageWith k v md = Inr m) \<or> (\<exists>c d. error_answer c d = Inr m) \<or>
     (\<exists>h. handle_answer h = Inr m) \<or> (\<exists>n. count_answer n = Inr m) \<or>
     (\<exists>p. bind_res Pr1CreateAnswerMessage (\<lambda>a. Pr1MessageAddField_string a MESSAGE_FIELD_ID_VALUE p) = Inr m)"

definition answered :: "nat \<Rightarrow> tio_server \<Rightarrow> tio_server \<Rightarrow> bool" where
  "answered sid sv sv' \<longleftrightarrow>
     sm_inv (sv_sessions sv') \<and>
     (\<forall>i. i \<noteq> sid \<longrightarrow> rel_option same_queue (session_at sv i) (session_at sv' i)) \<and>
     (\<exists>s s1 s2 s' m. session_at sv sid = Some s \<and> same_queue s s1 \<and> answer_message m \<and>
        SendBinaryMessage m s1 = (Inr (), s2) \<and> same_queue s2 s' \<and> session_at sv' sid = Some s')"

lemma quiet_refl: "sm_inv (sv_sessions sv) \<Longrightarrow> quiet sv sv"
  by (simp add: quiet_def option.rel_refl)

lemma rel_option_same_queue_trans:
  "rel_option same_queue a b \<Longrightarrow> rel_option same_queue b c \<Longrightarrow> rel_option same_queue a c"
  by (cases a; cases b; cases c) (auto intro: same_queue_trans)

lemma quiet_trans: "quiet sv sv' \<Longrightarrow> quiet sv' sv'' \<Longrightarrow> quiet sv sv''"
  unfolding quiet_def using rel_option_same_queue_trans by blast

lemma answered_quiet: "answered sid sv sv' \<Longrightarrow> quiet sv' sv'' \<Longrightarrow> answered sid sv sv''"
  unfolding answered_def quiet_def
proof (elim conjE exE, intro conjI allI impI)
  fix s s1 s2 s' m
  assume q: "\<forall>i. rel_option same_queue (session_at sv' i) (session_at sv'' i)"
    and a: "session_at sv sid = Some s" "same_queue s s1" "answer_message m" "SendBinaryMessage m s1 = (Inr (), s2)"
      "same_queue s2 s'" "session_at sv' sid = Some s'"
  obtain s'' where "session_at sv'' sid = Some s''" "same_queue s' s''"
    using q [rule_format, of sid] a(6) by (cases "session_at sv'' sid") auto
  then show "\<exists>s s1 s2 s' m. session_at sv sid = Some s \<and> same_queue s s1 \<and> answer_message m \<and>
      SendBinaryMessage m s1 = (Inr (), s2) \<and> same_queue s2 s' \<and> session_at sv'' sid = Some s'"
    using a by (blast intro: same_queue_trans)
qed (auto intro: rel_option_same_queue_trans)

text \<open>
  \<open>ends_quiet\<close>: the computation leaves all queues alone.  \<open>ends_answered\<close>: it answers when it returns,
  and a standard exception leaves it before the answer.
\<close>

definition ends_quiet :: "tio_server \<Rightarrow> 'a cpp \<times> tio_server \<Rightarrow> bool" where
  "ends_quiet sv p \<longleftrightarrow> quiet sv (snd p)"

definition ends_answered :: "nat \<Rightarrow> tio_server \<Rightarrow> unit cpp \<times> tio_server \<Rightarrow> bool" where
  "ends_answered sid sv p \<longleftrightarrow>
     (case fst p of Inr _ \<Rightarrow> answered sid sv (snd p) | Inl e \<Rightarrow> std_exception e \<longrightarrow> quiet sv (snd p))"

lemma ends_quiet_return: "quiet sv0 sv \<Longrightarrow> ends_quiet sv0 (r, sv)"
  by (simp add: ends_quiet_def)

lemma ends_quiet_bind:
  assumes "ends_quiet sv0 p" and "\<And>x sv. p = (Inr x, sv) \<Longrightarrow> quiet sv0 sv \<Longrightarrow> ends_quiet sv0 (f x sv)"
  shows "ends_quiet sv0 (cm_bind p f)"
  using assms by (cases p; cases "fst p") (auto simp: ends_quiet_def)

lemma ends_answered_bind:
  assumes "ends_quiet sv0 p" and "\<And>x sv. p = (Inr x, sv) \<Longrightarrow> quiet sv0 sv \<Longrightarrow> ends_answered sid sv0 (f x sv)"
  shows "ends_answered sid sv0 (cm_bind p f)"
  using assms by (cases p; cases "fst p") (auto simp: ends_quiet_def ends_answered_def)

text \<open>What follows the answer is quiet and throws nothing that is caught.\<close>

definition throws_no_std :: "'a cpp \<times> 's \<Rightarrow> bool" where
  "throws_no_std p \<longleftrightarrow> (\<forall>e. fst p = Inl e \<longrightarrow> \<not> std_exception e)"

lemma ends_answered_then:
  assumes "ends_answered sid sv0 p"
    and "\<And>sv. answered sid sv0 sv \<Longrightarrow> ends_quiet sv (f () sv) \<and> throws_no_std (f () sv)"
  shows "ends_answered sid sv0 (cm_bind p f)"
proof -
  obtain r sv where p: "p = (r, sv)" by (cases p)
  show ?thesis
  proof (cases r)
    case (Inl e)
    then show ?thesis using assms(1) p by (simp add: ends_answered_def)
  next
    case (Inr u)
    then have a: "answered sid sv0 sv" using assms(1) p by (simp add: ends_answered_def)
    then show ?thesis
      using assms(2) [OF a] p Inr answered_quiet [OF a]
      by (auto simp: ends_answered_def ends_quiet_def throws_no_std_def split: sum.splits)
  qed
qed


section \<open>The parts of the server\<close>

lemma publish_new_sessions [simp]: "sv_sessions (publish_new cm sv) = sv_sessions sv"
proof -
  have 1: "sv_sessions (fold (OnAnyContainerEvent i) es sv) = sv_sessions sv" for i es sv
    by (induction es arbitrary: sv) (simp_all add: OnAnyContainerEvent_def)
  have "sv_sessions (fold (\<lambda>i sv. fold (OnAnyContainerEvent i) (new_events cm (sv_containerManager sv) i) sv) is sv) =
      sv_sessions sv" for "is"
    by (induction "is" arbitrary: sv) (simp_all add: 1)
  then show ?thesis by (simp add: publish_new_def)
qed

lemma quiet_sessions_eq: "quiet sv0 sv \<Longrightarrow> sv_sessions sv' = sv_sessions sv \<Longrightarrow> quiet sv0 sv'"
  by (simp add: quiet_def)

lemma ends_quiet_manager: "quiet sv0 sv \<Longrightarrow> ends_quiet sv0 (with_manager f sv)"
  by (auto simp: ends_quiet_def with_manager_def split: prod.splits intro: quiet_sessions_eq)

lemma ends_quiet_session:
  assumes "quiet sv0 sv" and "\<And>s. same_queue s (snd (f s))"
  shows "ends_quiet sv0 (with_session sid f sv)"
proof (cases "session_at sv sid")
  case None
  then show ?thesis using assms(1) by (simp add: with_session_def ends_quiet_def)
next
  case (Some s)
  obtain r s' where f: "f s = (r, s')" by (cases "f s")
  then have q: "same_queue s s'" using assms(2) [of s] by simp
  have inv: "sm_inv (sv_sessions sv)" using assms(1) by (simp add: quiet_def)
  have "quiet sv (sv\<lparr> sv_sessions := sm_set sid s' (sv_sessions sv) \<rparr>)"
    using inv q Some by (auto simp: quiet_def sm_set_inv sm_find_set option.rel_refl)
  then show ?thesis
    using Some f quiet_trans [OF assms(1)] by (simp add: with_session_def ends_quiet_def)
qed

lemma c_error_std [simp]: "\<not> std_exception (c_error x)"
  by (cases x) simp_all

lemma gather_throws: "gather ms q used buf = Inl e \<Longrightarrow> \<not> std_exception e"
proof (induction ms q used buf rule: gather.induct)
  case (2 item rest q used buf)
  show ?case
  proof (cases "pr1_message_get_buffer item (q + 1)")
    case (Inl x)
    then show ?thesis using 2(2) by auto
  next
    case (Inr y)
    obtain b n i where y: "y = (b, n, i)" by (cases y)
    show ?thesis using 2 Inr unfolding y by (auto split: if_splits)
  qed
qed simp

lemma SendBinaryMessage_throws: "SendBinaryMessage m s = (Inl e, s') \<Longrightarrow> \<not> std_exception e"
  by (auto simp: SendBinaryMessage_def SendPendingBinaryData_def dest: gather_throws split: if_splits sum.splits)

lemma ends_answered_send:
  assumes q: "quiet sv0 sv" and c: "\<And>m. c = Inr m \<Longrightarrow> answer_message m" and e: "\<And>e. c = Inl e \<Longrightarrow> \<not> std_exception e"
  shows "ends_answered sid sv0 (with_session sid (make_and_send c) sv)"
proof (cases "session_at sv sid")
  case None
  then show ?thesis by (simp add: with_session_def ends_answered_def)
next
  case (Some s)
  obtain s0 where s0: "session_at sv0 sid = Some s0" "same_queue s0 s"
    using q Some by (auto simp: quiet_def dest!: spec [of _ sid] elim!: option.rel_cases)
  show ?thesis
  proof (cases c)
    case (Inl x)
    then show ?thesis using Some e by (simp add: with_session_def make_and_send_def ends_answered_def)
  next
    case (Inr m)
    obtain r s' where s': "SendBinaryMessage m s = (r, s')" by (cases "SendBinaryMessage m s")
    let ?sv' = "sv\<lparr> sv_sessions := sm_set sid s' (sv_sessions sv) \<rparr>"
    have w: "with_session sid (make_and_send c) sv = (r, ?sv')"
      using Some Inr s' by (simp add: with_session_def make_and_send_def)
    show ?thesis
    proof (cases r)
      case (Inl x)
      then show ?thesis using s' w SendBinaryMessage_throws by (simp add: ends_answered_def)
    next
      case r: (Inr u)
      have inv: "sm_inv (sv_sessions sv)" using q by (simp add: quiet_def)
      have "SendBinaryMessage m s = (Inr (), s')" using s' r by simp
      then have "answered sid sv0 ?sv'"
        using q inv s0 c [OF Inr] unfolding answered_def quiet_def
        by (intro conjI exI [of _ s0] exI [of _ s] exI [of _ s'] exI [of _ m]) (auto simp: sm_set_inv sm_find_set)
      then show ?thesis using w r by (simp add: ends_answered_def)
    qed
  qed
qed


section \<open>The constructors of answers\<close>

lemma add_int_throws: "Pr1MessageAddField_int m i v = Inl e \<Longrightarrow> \<not> std_exception e"
  by (auto simp: Pr1MessageAddField_int_def lift_c_def split: sum.splits)

lemma add_string_throws: "Pr1MessageAddField_string m i v = Inl e \<Longrightarrow> \<not> std_exception e"
  by (auto simp: Pr1MessageAddField_string_def lift_c_def split: sum.splits)

lemma add_data_throws: "Pr1MessageAddField_data m i d = Inl e \<Longrightarrow> \<not> std_exception e"
  by (cases d) (auto simp: Pr1MessageAddField_data_def lift_c_def split: sum.splits)

lemma add_unless_none_throws: "add_unless_none m i d = Inl e \<Longrightarrow> \<not> std_exception e"
  by (auto simp: add_unless_none_def dest: add_data_throws split: option.splits if_splits)

lemma create_throws: "Pr1CreateMessage = Inl e \<Longrightarrow> \<not> std_exception e"
  by (auto simp: Pr1CreateMessage_def lift_c_def split: sum.splits)

lemma create_answer_throws: "Pr1CreateAnswerMessage = Inl e \<Longrightarrow> \<not> std_exception e"
  by (auto simp: Pr1CreateAnswerMessage_def bind_res_Inl_iff dest: create_throws add_int_throws)

lemma answer_throws: "Pr1CreateAnswerMessageWith k v md = Inl e \<Longrightarrow> \<not> std_exception e"
  by (auto simp: Pr1CreateAnswerMessageWith_def Pr1MessageAddFields_def bind_res_Inl_iff
      dest: create_answer_throws add_unless_none_throws)

lemmas build_throws = create_throws create_answer_throws answer_throws add_int_throws add_string_throws

lemma error_answer_throws: "error_answer c d = Inl e \<Longrightarrow> \<not> std_exception e"
  by (auto simp: error_answer_def bind_res_Inl_iff dest: build_throws)

lemma handle_answer_throws: "handle_answer h = Inl e \<Longrightarrow> \<not> std_exception e"
  by (auto simp: handle_answer_def bind_res_Inl_iff dest: build_throws)

lemma count_answer_throws: "count_answer n = Inl e \<Longrightarrow> \<not> std_exception e"
  by (auto simp: count_answer_def bind_res_Inl_iff dest: build_throws)

lemma ends_answered_answer: "quiet sv0 sv \<Longrightarrow> ends_answered sid sv0 (with_session sid (SendBinaryAnswerWith k v md) sv)"
  unfolding SendBinaryAnswerWith_def
  by (rule ends_answered_send) (auto simp: answer_message_def dest: answer_throws)

lemma ends_answered_plain: "quiet sv0 sv \<Longrightarrow> ends_answered sid sv0 (with_session sid SendBinaryAnswer sv)"
  unfolding SendBinaryAnswer_def
  by (rule ends_answered_send) (auto simp: answer_message_def dest: answer_throws)

lemma ends_answered_error: "quiet sv0 sv \<Longrightarrow> ends_answered sid sv0 (with_session sid (SendBinaryErrorAnswer c d) sv)"
  unfolding SendBinaryErrorAnswer_def
  by (rule ends_answered_send) (auto simp: answer_message_def dest: error_answer_throws)

lemma ends_answered_missing: "quiet sv0 sv \<Longrightarrow> ends_answered sid sv0 (missing sid text sv)"
  unfolding missing_def by (rule ends_answered_error)

lemma ends_answered_ping: "quiet sv0 sv \<Longrightarrow> ends_answered sid sv0 (with_session sid (make_and_send
    (bind_res Pr1CreateAnswerMessage (\<lambda>a. Pr1MessageAddField_string a MESSAGE_FIELD_ID_VALUE p))) sv)"
  by (rule ends_answered_send) (auto simp: answer_message_def bind_res_Inl_iff dest: build_throws)

lemma ends_answered_count: "quiet sv0 sv \<Longrightarrow> ends_answered sid sv0 (with_session sid (make_and_send (count_answer n)) sv)"
  by (rule ends_answered_send) (auto simp: answer_message_def dest: count_answer_throws)

lemma ends_answered_handle:
  assumes "quiet sv0 sv" and "\<And>sv. quiet sv0 sv \<Longrightarrow> quiet sv0 (g sv)"
  shows "ends_answered sid sv0 (cm_bind (handle_answer h, sv) (\<lambda>answer sv. with_session sid (SendBinaryMessage answer) (g sv)))"
proof (cases "handle_answer h")
  case (Inl e)
  then show ?thesis using handle_answer_throws by (simp add: ends_answered_def)
next
  case (Inr m)
  then show ?thesis
    using ends_answered_send [OF assms(2) [OF assms(1)], of "Inr m" sid]
    by (auto simp: answer_message_def make_and_send_def [abs_def])
qed


section \<open>The handlers\<close>

lemma RegisterContainer_same_queue: "RegisterContainer n ob s = (h, s') \<Longrightarrow> same_queue s s'"
  by (auto simp: RegisterContainer_def Let_def same_queue_def queue_part_def split: option.splits)

lemma register_quiet:
  "same_queue s (snd (case RegisterContainer n ob s of (h, s) \<Rightarrow> (Inr h, s)))"
  using RegisterContainer_same_queue by (auto split: prod.splits)

lemma close_same_queue: "same_queue s (snd (CloseContainerHandle h cm s))"
  by (cases "sm_find h (ts_handles s)"; cases "object_GetName (the (sm_find h (ts_handles s))) cm")
    (auto simp: CloseContainerHandle_def Unsubscribe_def Let_def same_queue_def queue_part_def)

lemma ends_quiet_request:
  assumes "quiet sv0 sv"
  shows "ends_quiet sv0 (GetContainerAndParametersFromRequest m sid k v md sv)"
  unfolding GetContainerAndParametersFromRequest_def
  by (intro ends_quiet_bind ends_quiet_return assms)
    (auto intro!: ends_quiet_bind ends_quiet_return ends_quiet_session)

lemma quiet_update [simp]:
  "quiet sv0 (sv\<lparr> sv_groups := g \<rparr>) = quiet sv0 sv"
  "quiet sv0 (sv\<lparr> sv_groupSubscriptions := gs \<rparr>) = quiet sv0 sv"
  "quiet sv0 (sv\<lparr> sv_lastQueryID := q \<rparr>) = quiet sv0 sv"
  by (simp_all add: quiet_def)

lemma quiet_LogMessage: "quiet sv0 sv \<Longrightarrow> quiet sv0 (LogMessage ob m sv)"
  by (rule quiet_sessions_eq) (simp_all add: LogMessage_def)

lemmas quiet_intros = ends_quiet_bind ends_quiet_return ends_quiet_manager ends_quiet_request quiet_LogMessage
lemmas answer_intros = ends_answered_bind ends_answered_answer ends_answered_plain ends_answered_error
  ends_answered_missing ends_answered_ping ends_answered_count

lemma on_ping_answers: "quiet sv0 sv \<Longrightarrow> ends_answered sid sv0 (on_ping sid m sv)"
  unfolding on_ping_def by (intro answer_intros quiet_intros) (auto intro!: answer_intros split: option.splits)

lemma on_open_create_answers: "quiet sv0 sv \<Longrightarrow> ends_answered sid sv0 (on_open_create command sid m sv)"
  unfolding on_open_create_def Let_def
  by (intro answer_intros quiet_intros)
    (auto intro!: answer_intros quiet_intros ends_answered_handle ends_quiet_session register_quiet split: option.splits)

lemma on_close_answers: "quiet sv0 sv \<Longrightarrow> ends_answered sid sv0 (on_close sid m sv)"
  unfolding on_close_def
  by (intro answer_intros quiet_intros)
    (auto intro!: answer_intros quiet_intros ends_quiet_session close_same_queue split: option.splits)

lemma on_get_answers: "quiet sv0 sv \<Longrightarrow> ends_answered sid sv0 (on_get command sid m sv)"
  unfolding on_get_def Let_def
  by (intro answer_intros quiet_intros) (auto intro!: answer_intros quiet_intros)

lemma on_pop_answers: "quiet sv0 sv \<Longrightarrow> ends_answered sid sv0 (on_pop command sid m sv)"
  unfolding on_pop_def Let_def
  by (intro answer_intros quiet_intros) (auto intro!: answer_intros quiet_intros)

lemma set_property_quiet: "quiet sv0 sv \<Longrightarrow> ends_quiet sv0 (set_property k v ob sv)"
  by (auto simp: set_property_def intro!: quiet_intros)

lemma on_modify_answers: "quiet sv0 sv \<Longrightarrow> ends_answered sid sv0 (on_modify command sid m sv)"
  unfolding on_modify_def Let_def
  by (intro answer_intros quiet_intros) (auto intro!: answer_intros quiet_intros set_property_quiet)

lemma on_count_answers: "quiet sv0 sv \<Longrightarrow> ends_answered sid sv0 (on_count sid m sv)"
  unfolding on_count_def
  by (intro answer_intros quiet_intros) (auto intro!: answer_intros quiet_intros)

lemma on_unsubscribe_answers: "quiet sv0 sv \<Longrightarrow> ends_answered sid sv0 (on_unsubscribe sid m sv)"
  unfolding on_unsubscribe_def
  by (intro answer_intros quiet_intros)
    (auto intro!: answer_intros quiet_intros ends_quiet_session simp: Unsubscribe_def split: option.splits)

text \<open>Subscribing happens after the answer; it sends nothing and does not throw.\<close>

definition calm :: "tio_server \<Rightarrow> 'a cpp \<times> tio_server \<Rightarrow> bool" where
  "calm sv p \<longleftrightarrow> ends_quiet sv p \<and> throws_no_std p"

lemma calm_bind:
  assumes "calm sv0 p" and "\<And>x sv. p = (Inr x, sv) \<Longrightarrow> quiet sv0 sv \<Longrightarrow> calm sv0 (f x sv)"
  shows "calm sv0 (cm_bind p f)"
  using assms by (cases p; cases "fst p") (auto simp: calm_def ends_quiet_def throws_no_std_def)

lemma calm_return: "quiet sv0 sv \<Longrightarrow> calm sv0 (Inr x, sv)"
  by (simp add: calm_def ends_quiet_def throws_no_std_def)

lemma calm_subscribe: "quiet sv0 sv \<Longrightarrow> calm sv0 (SessionAsyncSubscribe info sv)"
  by (cases "cm_objects (sv_containerManager sv) (si_container info)")
    (auto simp: SessionAsyncSubscribe_def GetStorageId_def calm_def ends_quiet_def throws_no_std_def
      intro: quiet_sessions_eq)

lemma calm_register: "quiet sv0 sv \<Longrightarrow> calm sv0 (with_session sid (\<lambda>s.
    case RegisterNewGroupContainer g n ob s of (h, s) \<Rightarrow> (Inr h, s)) sv)"
  unfolding calm_def RegisterNewGroupContainer_def
proof
  show "throws_no_std (with_session sid (\<lambda>s. case RegisterContainer n ob s of (h, s) \<Rightarrow> (Inr h, s)) sv)"
    by (auto simp: throws_no_std_def with_session_def split: option.splits prod.splits)
qed (intro ends_quiet_session register_quiet)

lemma calm_subscribe_new: "quiet sv0 sv \<Longrightarrow> calm sv0 (subscribe_new g n ob sid start sv)"
  unfolding subscribe_new_def by (intro calm_bind calm_register calm_subscribe)

lemma calm_notify_group: "quiet sv0 sv \<Longrightarrow> calm sv0 (notify_group g n ob sids sv)"
proof (induction g n ob sids sv rule: notify_group.induct)
  case (2 g n ob sid sids sv)
  show ?case
  proof (cases "session_at sv sid")
    case None
    then show ?thesis using 2 by simp
  next
    case (Some s)
    show ?thesis
    proof (cases "ts_valid s")
      case False
      then show ?thesis using 2 Some by simp
    next
      case True
      have "calm sv0 (cm_bind (subscribe_new g n ob sid ''0'' sv) (\<lambda>_ sv. notify_group g n ob sids sv))"
        by (intro calm_bind calm_subscribe_new 2(4)) (use 2(3) Some True in auto)
      then show ?thesis using Some True by simp
    qed
  qed
qed (auto intro: calm_return)

lemma calm_subscribe_containers: "quiet sv0 sv \<Longrightarrow> calm sv0 (subscribe_containers g cs sid start sv)"
proof (induction g cs sid start sv rule: subscribe_containers.induct)
  case (2 g n ob rest sid start sv)
  then show ?case by (auto intro!: calm_bind calm_subscribe_new)
qed (auto intro: calm_return)

lemma AddContainer_quiet: "quiet sv0 sv \<Longrightarrow> ends_quiet sv0 (AddContainer g ob sv)"
  unfolding AddContainer_def GetGroup_def GroupInfo_new_def Let_def
  by (auto intro!: quiet_intros split: option.splits)

lemma ends_answered_calm:
  assumes "ends_answered sid sv0 p" and "\<And>sv. sm_inv (sv_sessions sv) \<Longrightarrow> calm sv (f () sv)"
  shows "ends_answered sid sv0 (cm_bind p f)"
  by (rule ends_answered_then [OF assms(1)]) (use assms(2) in \<open>auto simp: calm_def answered_def\<close>)

lemma group_subscribers_sessions [simp]: "sv_sessions (snd (group_subscribers g sv)) = sv_sessions sv"
  by (simp add: group_subscribers_def split: option.splits)

lemma calm_group_add:
  assumes "sm_inv (sv_sessions sv)"
  shows "calm sv (let (subscribers, sv) = group_subscribers g sv in
    cm_bind (notify_group g n ob subscribers sv) (\<lambda>_ sv. (Inr (), LogMessage ob m sv)))"
proof -
  obtain l sv1 where l: "group_subscribers g sv = (l, sv1)" by (cases "group_subscribers g sv")
  have "sv_sessions sv1 = sv_sessions sv" using group_subscribers_sessions [of g sv] l by simp
  then have "quiet sv sv1" using quiet_refl [OF assms] by (rule quiet_sessions_eq [rotated])
  then show ?thesis unfolding l by (auto intro!: calm_bind calm_notify_group calm_return quiet_LogMessage)
qed

lemma on_group_add_answers:
  assumes q: "quiet sv0 sv"
  shows "ends_answered sid sv0 (on_group_add sid m sv)"
  unfolding on_group_add_def
proof (intro ends_answered_bind ends_quiet_return [OF q], goal_cases)
  case (1 r sv1)
  show ?case
  proof (cases r)
    case None
    then show ?thesis using 1(2) by (simp add: ends_answered_missing)
  next
    case (Some g)
    show ?thesis unfolding Some option.case
    proof (intro ends_answered_bind ends_quiet_return [OF 1(2)], goal_cases)
      case (1 r sv2)
      show ?case
      proof (cases r)
        case None
        then show ?thesis using 1(2) by (simp add: ends_answered_missing)
      next
        case (Some n)
        show ?thesis unfolding Some option.case
          by (intro ends_answered_bind ends_quiet_manager [OF 1(2)] AddContainer_quiet
              ends_answered_calm [OF ends_answered_plain] calm_group_add)
      qed
    qed
  qed
qed

lemma on_group_subscribe_answers:
  assumes q: "quiet sv0 sv"
  shows "ends_answered sid sv0 (on_group_subscribe sid m sv)"
  unfolding on_group_subscribe_def
proof (intro ends_answered_bind ends_quiet_return [OF q], goal_cases)
  case (1 r sv1)
  show ?case
  proof (cases r)
    case None
    then show ?thesis using 1(2) by (simp add: ends_answered_missing)
  next
    case (Some g)
    show ?thesis unfolding Some option.case Let_def
    proof (intro ends_answered_bind ends_quiet_return [OF 1(2)], goal_cases)
      case (1 start sv2)
      let ?g = "of_ascii g"
      obtain l sv3 where l: "group_subscribers ?g sv2 = (l, sv3)" by (cases "group_subscribers ?g sv2")
      have "sv_sessions sv3 = sv_sessions sv2" using group_subscribers_sessions [of ?g sv2] l by simp
      then have "quiet sv0 sv3" using 1(2) by (rule quiet_sessions_eq [rotated])
      then show ?case unfolding l prod.case
        by (intro ends_answered_calm [OF ends_answered_plain] calm_subscribe_containers quiet_refl) simp
    qed
  qed
qed

lemma on_subscribe_answers:
  assumes q: "quiet sv0 sv"
  shows "ends_answered sid sv0 (on_subscribe sid m sv)"
  unfolding on_subscribe_def
proof (intro ends_answered_bind ends_quiet_return [OF q], goal_cases)
  case (1 r sv1)
  show ?case
  proof (cases r)
    case None
    then show ?thesis using 1(2) by (simp add: ends_answered_missing)
  next
    case (Some h)
    show ?thesis unfolding Some option.case
      by (intro ends_answered_bind ends_quiet_return [OF 1(2)] ends_quiet_request)
        (auto intro!: ends_answered_calm [OF ends_answered_plain] calm_subscribe quiet_refl)
  qed
qed


section \<open>Every command\<close>

lemma dispatch_answers:
  assumes "quiet sv0 sv" and "command \<noteq> TIO_COMMAND_QUERY"
  shows "ends_answered sid sv0 (dispatch_binary env command sid m sv)"
  using assms
  by (auto simp: dispatch_binary_def intro!: on_ping_answers on_open_create_answers on_close_answers on_get_answers
      on_pop_answers on_modify_answers on_count_answers on_group_add_answers on_group_subscribe_answers
      on_subscribe_answers on_unsubscribe_answers ends_answered_error)

lemma catch_answers:
  assumes "ends_answered sid sv0 p" and "catch_std env sid p = (Inr (), sv')"
  shows "answered sid sv0 sv'"
proof -
  obtain r sv where p: "p = (r, sv)" by (cases p)
  show ?thesis
  proof (cases r)
    case (Inr u)
    then show ?thesis using assms p by (simp add: ends_answered_def catch_std_def)
  next
    case (Inl e)
    then have e: "std_exception e" and w: "with_session sid (SendBinaryErrorAnswer TIO_ERROR_PROTOCOL (what env e)) sv = (Inr (), sv')"
      using assms(2) p by (auto simp: catch_std_def split: if_splits)
    then have "quiet sv0 sv" using assms(1) p Inl by (simp add: ends_answered_def)
    from ends_answered_error [OF this, of sid TIO_ERROR_PROTOCOL "what env e"] w
    show ?thesis by (simp add: ends_answered_def)
  qed
qed

text \<open>
  C7: whatever message a client sends and whatever the state of the server, a command other than a query
  that the server survives is answered with exactly one message to the session that sent it, be it a
  result or an error, and no other session is sent anything by the handler.
\<close>

theorem every_command_answered_once:
  assumes "OnBinaryCommand env sid m sv = (Inr (), sv')" and "sm_inv (sv_sessions sv)"
    and "\<forall>p. pr1_message_parse m = Inr p \<longrightarrow>
           Pr1MessageGetField_int p (ucast MESSAGE_FIELD_ID_COMMAND) \<noteq> Inr (Some TIO_COMMAND_QUERY)"
  shows "answered sid sv sv'"
proof -
  obtain p where p: "pr1_message_parse m = Inr p"
    using assms(1) by (cases "pr1_message_parse m") (auto simp: OnBinaryCommand_def)
  obtain r where r: "Pr1MessageGetField_int p (ucast MESSAGE_FIELD_ID_COMMAND) = Inr r"
    using assms(1) p by (cases "Pr1MessageGetField_int p (ucast MESSAGE_FIELD_ID_COMMAND)") (auto simp: OnBinaryCommand_def)
  note q = quiet_refl [OF assms(2)]
  show ?thesis
  proof (cases r)
    case None
    then have "missing sid ''missing MESSAGE_FIELD_ID_COMMAND'' sv = (Inr (), sv')"
      using assms(1) p r by (simp add: OnBinaryCommand_def)
    then show ?thesis using ends_answered_missing [OF q, of sid "''missing MESSAGE_FIELD_ID_COMMAND''"]
      by (simp add: ends_answered_def)
  next
    case (Some command)
    then have "command \<noteq> TIO_COMMAND_QUERY" using assms(3) p r by auto
    moreover have "catch_std env sid (dispatch_binary env command sid p sv) = (Inr (), sv')"
      using assms(1) p r Some by (simp add: OnBinaryCommand_def)
    ultimately show ?thesis using catch_answers [OF dispatch_answers [OF q]] by blast
  qed
qed

end
