(* ===== verification/ServerEffects.thy ===== *)
theory ServerEffects
  imports ServerAnswers
begin

text \<open>
  What the commands do to the containers and what is answered, branch by branch, for requests as the
  client library sends them.
\<close>

section \<open>Requests\<close>

definition opt_field :: "u16 \<Rightarrow> tio_data option \<Rightarrow> pr1_field list" where
  "opt_field i d = (case d of None \<Rightarrow> [] | Some x \<Rightarrow> [data_field i x])"

definition request_fields :: "u32 \<Rightarrow> u32 \<Rightarrow> tio_data option \<Rightarrow> tio_data option \<Rightarrow> tio_data option \<Rightarrow> pr1_field list" where
  "request_fields command handle k v md =
     [int_field MESSAGE_FIELD_ID_COMMAND command, int_field MESSAGE_FIELD_ID_HANDLE handle] @
     opt_field MESSAGE_FIELD_ID_KEY k @ opt_field MESSAGE_FIELD_ID_VALUE v @ opt_field MESSAGE_FIELD_ID_METADATA md"

text \<open>The message of the client's \<^verbatim>\<open>tio_generate_data_message\<close>.\<close>

lemma data_message_request:
  "data_message_fields c h k v md =
     request_fields c h (map_option (\<lambda>d. server_value (tiodata_value d)) k)
       (map_option (\<lambda>d. server_value (tiodata_value d)) v) (map_option (\<lambda>d. server_value (tiodata_value d)) md)"
  by (auto simp: data_message_fields_def request_fields_def optional_field_data opt_field_def int_field_def
      data_field_def split: option.splits)

text \<open>A message as it comes from the network, before it is parsed.\<close>

definition unparsed :: "byte list \<Rightarrow> pr1_message cres" where
  "unparsed bytes =
     bind_res (pr1_message_new_get_buffer_for_receive (take 8 bytes)) (\<lambda>(p, m).
     bind_res (sb_poke (pm_stream_buffer m) p (drop 8 bytes)) (\<lambda>sb. Inr (m\<lparr> pm_stream_buffer := sb \<rparr>)))"

definition carries :: "pr1_message \<Rightarrow> pr1_field list \<Rightarrow> bool" where
  "carries m fs \<longleftrightarrow> (\<exists>p. pr1_message_parse m = Inr p \<and> pm_finds p fs)"

lemma from_wire_unparsed: "pr1_message_from_wire bytes = bind_res (unparsed bytes) pr1_message_parse"
  by (simp add: pr1_message_from_wire_def unparsed_def bind_res_assoc split: prod.splits)
    (auto simp: bind_res_def split: sum.splits prod.splits)

lemma wire_carries:
  assumes "list_all pr1_field_ok fs" and "length fs < 2 ^ 16" and "fits fs"
  shows "\<exists>m. unparsed (wire q fs) = Inr m \<and> carries m fs"
proof -
  obtain r where r: "pr1_message_from_wire (wire q fs) = Inr r" "pm_finds r fs"
    by (rule received [OF assms])
  then obtain m where "unparsed (wire q fs) = Inr m" "pr1_message_parse m = Inr r"
    by (auto simp: from_wire_unparsed bind_res_Inr_iff)
  then show ?thesis using r(2) by (auto simp: carries_def)
qed

lemma request_fields_ok: "list_all pr1_field_ok (request_fields c h k v md)" "length (request_fields c h k v md) < 2 ^ 16"
  by (auto simp: request_fields_def opt_field_def split: option.splits)

lemma or_null_case: "(case x of None \<Rightarrow> TNone | Some d \<Rightarrow> d) = or_null x"
  by (simp add: or_null_def split: option.splits)

lemma request_read:
  assumes "pm_finds p (request_fields c h k v md)"
  shows "Pr1MessageGetField_int p (ucast MESSAGE_FIELD_ID_COMMAND) = Inr (Some c)"
    and "Pr1MessageGetField_int p (ucast MESSAGE_FIELD_ID_HANDLE) = Inr (Some h)"
    and "get_data_into p (ucast MESSAGE_FIELD_ID_KEY) (Some TNone) = Inr (Some (or_null k))"
    and "get_data_into p (ucast MESSAGE_FIELD_ID_VALUE) (Some TNone) = Inr (Some (or_null v))"
    and "get_data_into p (ucast MESSAGE_FIELD_ID_METADATA) (Some TNone) = Inr (Some (or_null md))"
proof -
  note fields = request_fields_def opt_field_def int_field_def
  show "Pr1MessageGetField_int p (ucast MESSAGE_FIELD_ID_COMMAND) = Inr (Some c)"
    using get_int [OF assms, of _ MESSAGE_FIELD_ID_COMMAND "Some (TInt c)"] by (simp add: fields)
  show "Pr1MessageGetField_int p (ucast MESSAGE_FIELD_ID_HANDLE) = Inr (Some h)"
    using get_int [OF assms, of _ MESSAGE_FIELD_ID_HANDLE "Some (TInt h)"] by (simp add: fields)
  show "get_data_into p (ucast MESSAGE_FIELD_ID_KEY) (Some TNone) = Inr (Some (or_null k))"
    using get_into [OF assms, of _ MESSAGE_FIELD_ID_KEY k] unfolding or_null_case
    by (auto simp: fields split: option.splits)
  show "get_data_into p (ucast MESSAGE_FIELD_ID_VALUE) (Some TNone) = Inr (Some (or_null v))"
    using get_into [OF assms, of _ MESSAGE_FIELD_ID_VALUE v] unfolding or_null_case
    by (auto simp: fields split: option.splits)
  show "get_data_into p (ucast MESSAGE_FIELD_ID_METADATA) (Some TNone) = Inr (Some (or_null md))"
    using get_into [OF assms, of _ MESSAGE_FIELD_ID_METADATA md] unfolding or_null_case
    by (auto simp: fields split: option.splits)
qed

lemma request_container:
  assumes f: "pm_finds p (request_fields c h k v md)" and s: "session_at sv sid = Some s"
    and h: "h \<noteq> 0" "sm_find h (ts_handles s) = Some ob" and inv: "sm_inv (sv_sessions sv)"
  shows "GetContainerAndParametersFromRequest p sid (Some TNone) (Some TNone) (Some TNone) sv =
      (Inr (ob, Some (or_null k), Some (or_null v), Some (or_null md)), sv)"
    and "GetContainerAndParametersFromRequest p sid (Some TNone) None None sv = (Inr (ob, Some (or_null k), None, None), sv)"
    and "GetContainerAndParametersFromRequest p sid None None None sv = (Inr (ob, None, None, None), sv)"
proof -
  have set: "sm_set sid s (sv_sessions sv) = sv_sessions sv"
    by (rule sm.items_eqI) (auto simp: inv sm_set_inv sm_find_set s)
  have none: "get_data_into p i None = Inr None" for i by (simp add: get_data_into_def)
  note read = request_read [OF f]
  note simps = GetContainerAndParametersFromRequest_def Pr1MessageGetHandleKeyValueAndMetadata_def
    read [simplified] none with_session_def s GetRegisteredContainer_def h set
  show "GetContainerAndParametersFromRequest p sid (Some TNone) (Some TNone) (Some TNone) sv =
      (Inr (ob, Some (or_null k), Some (or_null v), Some (or_null md)), sv)"
    by (simp add: simps)
  show "GetContainerAndParametersFromRequest p sid (Some TNone) None None sv = (Inr (ob, Some (or_null k), None, None), sv)"
    by (simp add: simps)
  show "GetContainerAndParametersFromRequest p sid None None None sv = (Inr (ob, None, None, None), sv)"
    by (simp add: simps)
qed


section \<open>Sending from the server\<close>

definition roomy :: "tio_session \<Rightarrow> pr1_field list list \<Rightarrow> bool" where
  "roomy s gss \<longleftrightarrow> list_all fits gss \<and> ts_pendingSendSize s + int (total_size gss) < 2 ^ 31"

lemma with_session_emits:
  assumes "emits f gss" and "session_at sv sid = Some s" and "session_holds fss s n" and "roomy s gss"
  shows "\<exists>s' n'. with_session sid f sv = (Inr (), sv\<lparr> sv_sessions := sm_set sid s' (sv_sessions sv) \<rparr>) \<and>
    session_holds (fss @ gss) s' n' \<and> same_tables s s'"
proof -
  obtain s' n' where "f s = (Inr (), s')" "session_holds (fss @ gss) s' n'" "same_tables s s'"
    using assms unfolding emits_def roomy_def by blast
  then show ?thesis using assms(2) by (auto simp: with_session_def)
qed

lemma OnBinaryCommand_request:
  assumes "carries m (request_fields c h k v md)"
  obtains p where "pm_finds p (request_fields c h k v md)"
    "OnBinaryCommand env sid m sv = catch_std env sid (dispatch_binary env c sid p sv)"
proof -
  obtain p where p: "pr1_message_parse m = Inr p" "pm_finds p (request_fields c h k v md)"
    using assms by (auto simp: carries_def)
  show ?thesis
    by (rule that [OF p(2)]) (simp add: OnBinaryCommand_def p(1) request_read(1) [OF p(2), simplified])
qed

lemma catch_error:
  assumes "std_exception e" and "session_at sv sid = Some s" and "session_holds fss s n"
    and "roomy s [error_fields TIO_ERROR_PROTOCOL (what env e)]"
  shows "\<exists>s' n'. catch_std env sid (Inl e, sv) = (Inr (), sv\<lparr> sv_sessions := sm_set sid s' (sv_sessions sv) \<rparr>) \<and>
    session_holds (fss @ [error_fields TIO_ERROR_PROTOCOL (what env e)]) s' n' \<and> same_tables s s'"
  using with_session_emits [OF emits_error assms(2-4)] assms(1) by (simp add: catch_std_def)


section \<open>Modifying commands\<close>

definition modifying :: "u32 \<Rightarrow> bool" where
  "modifying c \<longleftrightarrow> c \<in> {TIO_COMMAND_PUSH_BACK, TIO_COMMAND_PUSH_FRONT, TIO_COMMAND_SET, TIO_COMMAND_INSERT,
                        TIO_COMMAND_DELETE, TIO_COMMAND_CLEAR}"

lemma publish_new_self: "publish_new (sv_containerManager sv) sv = sv"
proof -
  have "fold (\<lambda>i sv'. fold (OnAnyContainerEvent i) (new_events (sv_containerManager sv) (sv_containerManager sv') i) sv')
      is sv = sv" for "is"
    by (induction "is") (simp_all add: new_events_def)
  then show ?thesis by (simp add: publish_new_def)
qed

text \<open>
  C8: a modifying command (push, set, insert, delete, clear) on an open handle runs exactly the container's
  operation with the key, value and metadata of the request.  When the operation succeeds, the container
  manager is left as the operation leaves it, the events it published are queued for the subscribers, the
  command is logged and the client is sent an empty answer; when it throws a standard exception, nothing but the
  client's queue changes, and the answer carries the text of the exception.
\<close>

theorem modify_command_effect:
  assumes m: "carries m (request_fields c h k v md)" and c: "modifying c"
    and s: "session_at sv sid = Some s" and q: "session_holds fss s n" and inv: "sm_inv (sv_sessions sv)"
    and h: "h \<noteq> 0" "sm_find h (ts_handles s) = Some ob"
    and room: "roomy s [answer_fields None None None]"
  shows "case object_exec (modify_op c (or_null k) (or_null v) (or_null md)) ob (sv_containerManager sv) of
     Inr (_, cm) \<Rightarrow>
       (\<exists>s' n' p. OnBinaryCommand env sid m sv =
          (Inr (), (LogMessage ob p (publish_new (sv_containerManager sv) (sv\<lparr> sv_containerManager := cm \<rparr>)))
                     \<lparr> sv_sessions := sm_set sid s' (sv_sessions sv) \<rparr>) \<and>
          session_holds (fss @ [answer_fields None None None]) s' n' \<and> same_tables s s')
   | Inl e \<Rightarrow>
       std_exception e \<and> roomy s [error_fields TIO_ERROR_PROTOCOL (what env e)] \<longrightarrow>
       (\<exists>s' n'. OnBinaryCommand env sid m sv = (Inr (), sv\<lparr> sv_sessions := sm_set sid s' (sv_sessions sv) \<rparr>) \<and>
          session_holds (fss @ [error_fields TIO_ERROR_PROTOCOL (what env e)]) s' n' \<and> same_tables s s')"
proof -
  let ?op = "modify_op c (or_null k) (or_null v) (or_null md)" and ?cm = "sv_containerManager sv"
  obtain p where f: "pm_finds p (request_fields c h k v md)"
    and cmd: "OnBinaryCommand env sid m sv = catch_std env sid (dispatch_binary env c sid p sv)"
    by (rule OnBinaryCommand_request [OF m])
  have "dispatch_binary env c sid p sv = on_modify c sid p sv" and np: "c \<noteq> TIO_COMMAND_PROPSET"
    using c by (auto simp: dispatch_binary_def modifying_def)
  then have d: "dispatch_binary env c sid p sv = cm_bind (with_manager (attempt (object_exec ?op ob)) sv)
      (\<lambda>_ sv. with_session sid SendBinaryAnswer (LogMessage ob p sv))"
    using request_container(1) [OF f s h inv] by (simp add: on_modify_def or_null_def Let_def)
  show ?thesis
  proof (cases "object_exec ?op ob ?cm")
    case (Inl e)
    have "dispatch_binary env c sid p sv = (Inl e, sv)"
      using d Inl publish_new_self [of sv] by (simp add: with_manager_def attempt_def)
    then show ?thesis using Inl cmd catch_error [OF _ s q] by auto
  next
    case (Inr x)
    obtain u cm where x: "x = (u, cm)" by (cases x)
    let ?sv = "LogMessage ob p (publish_new ?cm (sv\<lparr> sv_containerManager := cm \<rparr>))"
    have ses: "sv_sessions ?sv = sv_sessions sv" by (simp add: LogMessage_def)
    have "session_at ?sv sid = Some s" using s ses by simp
    from with_session_emits [OF emits_SendBinaryAnswer this q room]
    obtain s' n' where w: "with_session sid SendBinaryAnswer ?sv = (Inr (), ?sv\<lparr> sv_sessions := sm_set sid s' (sv_sessions ?sv) \<rparr>)"
      and s': "session_holds (fss @ [answer_fields None None None]) s' n'" "same_tables s s'" by blast
    have "dispatch_binary env c sid p sv = with_session sid SendBinaryAnswer ?sv"
      using d Inr x by (simp add: with_manager_def attempt_def)
    then show ?thesis
      unfolding Inr x sum.case prod.case using w s' cmd ses
      by (intro exI [of _ s'] exI [of _ n'] exI [of _ p]) (simp add: catch_std_def)
  qed
qed

end
