(* ===== verification/ServerHandles.thy ===== *)
theory ServerHandles
  imports ServerEffects ContainerProperties
begin

text \<open>
  Opening and closing containers over the binary protocol, and queries: a handle that was answered
  leads to the container it was asked for, until it is closed.
\<close>

section \<open>Requests by name\<close>

definition create_fields :: "u32 \<Rightarrow> string \<Rightarrow> string \<Rightarrow> pr1_field list" where
  "create_fields command name type =
     [int_field MESSAGE_FIELD_ID_COMMAND command, data_field MESSAGE_FIELD_ID_NAME (TString (ascii name)),
      data_field MESSAGE_FIELD_ID_TYPE (TString (ascii type))]"

definition handle_fields :: "u32 \<Rightarrow> pr1_field list" where
  "handle_fields h = [int_field MESSAGE_FIELD_ID_COMMAND TIO_COMMAND_ANSWER, int_field MESSAGE_FIELD_ID_HANDLE h]"

lemma create_read:
  assumes "pm_finds p (create_fields c n t)"
  shows "Pr1MessageGetField_int p (ucast MESSAGE_FIELD_ID_COMMAND) = Inr (Some c)"
    and "Pr1MessageGetField_string p (ucast MESSAGE_FIELD_ID_NAME) = Inr (Some (ascii n))"
    and "Pr1MessageGetField_string p (ucast MESSAGE_FIELD_ID_TYPE) = Inr (Some (ascii t))"
proof -
  show "Pr1MessageGetField_int p (ucast MESSAGE_FIELD_ID_COMMAND) = Inr (Some c)"
    using get_int [OF assms, of _ MESSAGE_FIELD_ID_COMMAND "Some (TInt c)"] by (simp add: create_fields_def int_field_def)
  show "Pr1MessageGetField_string p (ucast MESSAGE_FIELD_ID_NAME) = Inr (Some (ascii n))"
    using get_string [OF assms, of _ MESSAGE_FIELD_ID_NAME "Some (TString (ascii n))"] by (simp add: create_fields_def)
  show "Pr1MessageGetField_string p (ucast MESSAGE_FIELD_ID_TYPE) = Inr (Some (ascii t))"
    using get_string [OF assms, of _ MESSAGE_FIELD_ID_TYPE "Some (TString (ascii t))"] by (simp add: create_fields_def)
qed

lemma makes_handle: "makes (handle_answer h) (handle_fields h)"
  using makes_bind [OF makes_bind [OF makes_new adds_int] adds_int]
  by (simp add: handle_answer_def Pr1CreateAnswerMessage_def handle_fields_def)

text \<open>A container keeps its name when others are created or opened.\<close>

lemma object_GetName_ext:
  assumes "cm_ext cm cm'" and "object_GetName ob cm = Inr n"
  shows "object_GetName ob cm' = Inr n"
proof -
  obtain c s p where c: "cm_objects cm ob = Some c" "mg_heap (cm_managers cm (co_manager c)) (co_storage c) = Some (s, p)"
    "any_name s = n"
    using assms(2) by (auto simp: object_GetName_def split: option.splits)
  have "heap_ext (cm_managers cm (co_manager c)) (cm_managers cm' (co_manager c))" using assms(1) by (simp add: cm_ext_def)
  then obtain s' p' where "mg_heap (cm_managers cm' (co_manager c)) (co_storage c) = Some (s', p')" "any_name s' = any_name s"
    using c(2) by (rule heap_extD)
  then show ?thesis using c cm_ext_fields(1) [OF assms(1)] by (simp add: object_GetName_def)
qed

lemma object_GetName_CreateOrOpen:
  assumes inv: "cm_inv cm" and call: "CreateOrOpen t op n cm = (r, cm')" and x: "object_GetName ob cm = Inr k"
  shows "object_GetName ob cm' = Inr k"
  using inv call
proof (cases rule: CreateOrOpen_cases)
  case (failed e)
  then show ?thesis using object_GetName_ext [OF failed(4) x] by simp
next
  case (made m a cm2 s p)
  have x2: "object_GetName ob cm2 = Inr k" by (rule object_GetName_ext [OF made(3) x])
  then obtain c where "cm_objects cm2 ob = Some c" by (auto simp: object_GetName_def split: option.splits)
  then have "ob < cm_fresh cm2" using cm_invD(3) [OF made(2)] by (auto simp: object_ok_def)
  moreover have "cm_managers cm' = cm_managers cm2"
    "cm_objects cm' = (cm_objects cm2)(cm_fresh cm2 \<mapsto> \<lparr> co_manager = m, co_storage = a \<rparr>)"
    using made(6) by (auto simp: new_container_def Let_def)
  ultimately show ?thesis using x2 by (auto simp: object_GetName_def split: option.splits)
qed (use x in simp)

lemma handles_CreateOrOpen:
  assumes "cm_inv cm" and "CreateOrOpen t op n cm = (r, cm')" and "handles_ok cm s"
  shows "handles_ok cm' s"
  using assms(3) object_GetName_CreateOrOpen [OF assms(1,2)] unfolding handles_ok_def by blast

lemma sm_set_set: "sm_inv m \<Longrightarrow> sm_set k v (sm_set k w m) = sm_set k v m"
  by (rule sm.set_set_items)

lemma session_holds_tables:
  "session_holds fss (s\<lparr> ts_handles := a, ts_containerNameToHandle := b, ts_lastHandle := c \<rparr>) n = session_holds fss s n"
  by (simp add: session_holds_def session_queue_def in_flight_def)

lemma session_holds_same_queue:
  assumes "same_queue s s'"
  shows "session_holds fss s n = session_holds fss s' n" and "roomy s gss = roomy s' gss"
proof -
  have "session_holds fss s n = session_holds fss (queue_part s) n" for s
    by (simp add: queue_part_def session_holds_tables)
  then show "session_holds fss s n = session_holds fss s' n" using assms by (metis same_queue_def)
  have "roomy s gss = roomy (queue_part s) gss" for s by (simp add: roomy_def queue_part_def)
  then show "roomy s gss = roomy s' gss" using assms by (metis same_queue_def)
qed

text \<open>
  C16: creating a container over the protocol: the client is answered a handle that is not 0 and that the
  session resolves to the container of that name in the manager, the table of handles stays consistent, and
  the containers are as \<^verbatim>\<open>CreateContainer\<close> left them.
\<close>

theorem create_command_registers:
  assumes m: "carries m (create_fields TIO_COMMAND_CREATE n t)" and t: "t \<noteq> []"
    and create: "CreateContainer t n (sv_containerManager sv) = (Inr ob, cm)" and nm: "object_GetName ob cm = Inr n"
    and cm: "cm_inv (sv_containerManager sv)" and s: "session_at sv sid = Some s" and inv: "sm_inv (sv_sessions sv)"
    and q: "session_holds fss s k" and ok: "handles_ok (sv_containerManager sv) s"
    and last: "unat (ts_lastHandle s) < 2 ^ 32 - 1"
    and room: "\<forall>h. roomy s [handle_fields h]"
  shows "\<exists>h s' k' p ob'. OnBinaryCommand env sid m sv =
      (Inr (), (LogMessage ob p (publish_new (sv_containerManager sv) (sv\<lparr> sv_containerManager := cm \<rparr>)))
                 \<lparr> sv_sessions := sm_set sid s' (sv_sessions sv) \<rparr>) \<and>
    session_holds (fss @ [handle_fields h]) s' k' \<and> h \<noteq> 0 \<and> handles_ok cm s' \<and>
    GetRegisteredContainer h s' = Inr ob' \<and> object_GetName ob' cm = Inr n"
proof -
  obtain p where p: "pr1_message_parse m = Inr p" "pm_finds p (create_fields TIO_COMMAND_CREATE n t)"
    using m by (auto simp: carries_def)
  let ?sv = "publish_new (sv_containerManager sv) (sv\<lparr> sv_containerManager := cm \<rparr>)"
  have ok': "handles_ok cm s" by (rule handles_CreateOrOpen [OF cm create [unfolded CreateContainer_def] ok])
  obtain h s1 where reg: "RegisterContainer n ob s = (h, s1)" by (cases "RegisterContainer n ob s")
  from register_ok [OF ok' nm last reg] obtain ob' where h: "handles_ok cm s1" "0 < h"
    "sm_find h (ts_handles s1) = Some ob'" "object_GetName ob' cm = Inr n" by blast
  note same = session_holds_same_queue [OF RegisterContainer_same_queue [OF reg]]
  let ?sv1 = "LogMessage ob p (?sv\<lparr> sv_sessions := sm_set sid s1 (sv_sessions sv) \<rparr>)"
  have "session_at ?sv1 sid = Some s1" using inv by (simp add: LogMessage_def sm_find_set)
  from with_session_emits [OF emits_make [OF makes_handle] this, of fss k h] q room same
  obtain s' k' where w: "with_session sid (make_and_send (handle_answer h)) ?sv1 =
      (Inr (), ?sv1\<lparr> sv_sessions := sm_set sid s' (sv_sessions ?sv1) \<rparr>)"
    and s': "session_holds (fss @ [handle_fields h]) s' k'" "same_tables s1 s'" by auto
  have ss: "sm_set sid s' (sv_sessions ?sv1) = sm_set sid s' (sv_sessions sv)"
    using inv by (simp add: LogMessage_def sm_set_set)
  obtain a where a: "handle_answer h = Inr a" using makes_handle [of h] room by (auto simp: makes_def roomy_def)
  have mk: "make_and_send (handle_answer h) = SendBinaryMessage a" using a by (simp add: make_and_send_def fun_eq_iff)
  have "on_open_create TIO_COMMAND_CREATE sid p sv = with_session sid (make_and_send (handle_answer h)) ?sv1"
    unfolding mk
    using t create create_read(2,3) [OF p(2), simplified] s reg a
    by (simp add: on_open_create_def with_manager_def with_session_def [of _ "\<lambda>s. case RegisterContainer _ _ s of (x, y) \<Rightarrow> _ x y"])
  then have "OnBinaryCommand env sid m sv = (Inr (), ?sv1\<lparr> sv_sessions := sm_set sid s' (sv_sessions sv) \<rparr>)"
    using w ss create_read(1) [OF p(2), simplified] p(1)
    by (simp add: OnBinaryCommand_def dispatch_binary_def catch_std_def)
  moreover have "handles_ok cm s'" "GetRegisteredContainer h s' = Inr ob'"
    using h s'(2) by (simp_all add: handles_ok_def same_tables_def GetRegisteredContainer_def)
  ultimately show ?thesis using s'(1) h(2,4)
    by (intro exI [of _ h] exI [of _ s'] exI [of _ k'] exI [of _ p] exI [of _ ob']) (simp add: LogMessage_def)
qed


section \<open>A server with one session\<close>

definition example_start :: tio_server where
  "example_start = (server_start (snd (SetupContainerManager [])))\<lparr> sv_sessions := [(1, TioTcpSession_new 1)] \<rparr>"

definition example_cm :: container_manager where
  "example_cm = snd (CreateContainer ''volatile_list'' ''l'' (sv_containerManager example_start))"

definition example_session :: tio_session where
  "example_session = snd (RegisterContainer ''l'' 2 (TioTcpSession_new 1))"

definition example_server :: tio_server where
  "example_server = example_start\<lparr> sv_containerManager := example_cm, sv_sessions := [(1, example_session)] \<rparr>"

definition example_env :: server_env where
  "example_env = \<lparr> se_what = (\<lambda>_. []), se_lexical_int = (\<lambda>_. 0), se_format_g = (\<lambda>_. []),
                   se_regex = (\<lambda>_. Inr (\<lambda>_. Inr True)) \<rparr>"

lemma example_create_fst: "fst (CreateContainer ''volatile_list'' ''l'' (sv_containerManager example_start)) = Inr 2"
  by code_simp

lemma example_create:
  "CreateContainer ''volatile_list'' ''l'' (sv_containerManager example_start) = (Inr 2, example_cm)"
  unfolding example_cm_def using example_create_fst by (metis prod.collapse)

lemma example_name: "object_GetName 2 example_cm = Inr ''l''"
  by code_simp

lemma example_start_inv: "cm_inv (sv_containerManager example_start)"
proof -
  have "cm_inv ((snd (SetupContainerManager []))\<lparr> cm_sink := True \<rparr>)"
    using setup_ready by (simp add: cm_inv_fields ready_inv)
  from conjunct1 [OF fold_subscribe_ext [OF this]] show ?thesis
    by (simp add: example_start_def server_start_def cm_SetSubscriber_def)
qed

lemma example_start_session:
  "session_at example_start 1 = Some (TioTcpSession_new 1)" "sm_inv (sv_sessions example_start)"
  by (simp_all add: example_start_def sm_inv_def)

lemma small_roomy: "total_size [fs] < 2 ^ 30 \<Longrightarrow> ts_pendingSendSize s < 2 ^ 30 \<Longrightarrow> roomy s [fs]"
  by (simp add: roomy_def fits_def msg_size_def)

theorem create_command_registers_witness:
  "\<exists>m h s' k' p ob'. unparsed (wire 1 (create_fields TIO_COMMAND_CREATE ''l'' ''volatile_list'')) = Inr m \<and>
    OnBinaryCommand example_env 1 m example_start =
      (Inr (), (LogMessage 2 p (publish_new (sv_containerManager example_start)
                  (example_start\<lparr> sv_containerManager := example_cm \<rparr>)))
                 \<lparr> sv_sessions := sm_set 1 s' (sv_sessions example_start) \<rparr>) \<and>
    session_holds [handle_fields h] s' k' \<and> h \<noteq> 0 \<and> handles_ok example_cm s' \<and>
    GetRegisteredContainer h s' = Inr ob' \<and> object_GetName ob' example_cm = Inr ''l''"
proof -
  let ?fs = "create_fields TIO_COMMAND_CREATE ''l'' ''volatile_list''"
  have "list_all pr1_field_ok ?fs" "length ?fs < 2 ^ 16" "fits ?fs"
    by (simp_all add: create_fields_def fits_def int_field_def) (simp_all add: data_field_def ascii_def)
  then obtain m where m: "unparsed (wire 1 ?fs) = Inr m" "carries m ?fs" using wire_carries by blast
  have room: "\<forall>h. roomy (TioTcpSession_new 1) [handle_fields h]"
    by (intro allI small_roomy) (simp_all add: handle_fields_def msg_size_def TioTcpSession_new_def int_field_def data_field_def)
  have "unat (ts_lastHandle (TioTcpSession_new 1)) < 2 ^ 32 - 1" by (simp add: TioTcpSession_new_def)
  from create_command_registers [OF m(2) _ example_create example_name example_start_inv example_start_session
      session_new handles_new this room, of example_env] m(1)
  show ?thesis by auto
qed


section \<open>Modifying an open list\<close>

lemma example_server_session:
  "session_at example_server 1 = Some example_session" "sm_inv (sv_sessions example_server)"
  "sm_find 1 (ts_handles example_session) = Some 2" "session_holds [] example_session 0"
proof -
  have s: "example_session = (TioTcpSession_new 1)\<lparr> ts_handles := [(1, 2)], ts_containerNameToHandle := [(''l'', 1)],
      ts_lastHandle := 1 \<rparr>"
    by (simp add: example_session_def RegisterContainer_def TioTcpSession_new_def)
  show "sm_find 1 (ts_handles example_session) = Some 2" unfolding s by simp
  have "same_queue (TioTcpSession_new 1) example_session" by (simp add: s same_queue_def queue_part_def TioTcpSession_new_def)
  then show "session_holds [] example_session 0" using session_holds_same_queue(1) session_new by blast
qed (simp_all add: example_server_def sm_inv_def)

lemma example_roomy: "total_size [fs] < 2 ^ 30 \<Longrightarrow> roomy example_session [fs]"
  by (rule small_roomy) (simp_all add: example_session_def RegisterContainer_def TioTcpSession_new_def)

lemma example_push:
  "(case object_exec (modify_op TIO_COMMAND_PUSH_BACK TNone (TInt 5) TNone) 2 (sv_containerManager example_server) of
      Inl _ \<Rightarrow> False | Inr _ \<Rightarrow> True)"
  by code_simp

theorem modify_command_effect_witness:
  "\<exists>m s' n' p cm. unparsed (wire 1 (request_fields TIO_COMMAND_PUSH_BACK 1 None (Some (TInt 5)) None)) = Inr m \<and>
     object_exec (OpPushBack TNone (TInt 5) TNone) 2 (sv_containerManager example_server) = Inr ((), cm) \<and>
     OnBinaryCommand example_env 1 m example_server =
       (Inr (), (LogMessage 2 p (publish_new (sv_containerManager example_server)
                   (example_server\<lparr> sv_containerManager := cm \<rparr>)))
                  \<lparr> sv_sessions := sm_set 1 s' (sv_sessions example_server) \<rparr>) \<and>
     session_holds [answer_fields None None None] s' n'"
proof -
  let ?fs = "request_fields TIO_COMMAND_PUSH_BACK 1 None (Some (TInt 5)) None"
  have "fits ?fs" by (simp add: fits_def request_fields_def opt_field_def int_field_def data_field_def)
  then obtain m where m: "unparsed (wire 1 ?fs) = Inr m" "carries m ?fs"
    using wire_carries [OF request_fields_ok] by blast
  have room: "roomy example_session [answer_fields None None None]"
    by (rule example_roomy) (simp add: answer_fields_def msg_size_def int_field_def data_field_def)
  obtain cm where cm: "object_exec (modify_op TIO_COMMAND_PUSH_BACK TNone (TInt 5) TNone) 2
      (sv_containerManager example_server) = Inr ((), cm)"
    using example_push by (auto split: sum.splits)
  have "modifying TIO_COMMAND_PUSH_BACK" by (simp add: modifying_def)
  from modify_command_effect [OF m(2) this example_server_session(1,4,2) _ example_server_session(3) room,
      of example_env] cm m(1)
  show ?thesis by (auto simp: or_null_def modify_op_def)
qed


section \<open>Containers without a name\<close>

text \<open>
  A container created with an empty name is registered in the session under that name, but closing its
  handle looks for the name the manager gave it: the entry stays, and the next creation with an empty name
  is answered a handle that the session does not know.
\<close>

theorem nameless_handle_dangles:
  assumes "sm_find [] (ts_containerNameToHandle s) = None"
    and "sm_find GenerateNamelessName (ts_containerNameToHandle s) = None"
    and "sm_find (ts_lastHandle s + 1) (ts_handles s) = None"
    and "sm_inv (ts_handles s)" and "sm_inv (ts_containerNameToHandle s)"
    and "object_GetName ob cm = Inr GenerateNamelessName"
  shows "\<exists>h s1 s2. RegisterContainer [] ob s = (h, s1) \<and> CloseContainerHandle h cm s1 = (Inr (), s2) \<and>
    (\<forall>ob'. RegisterContainer [] ob' s2 = (h, s2)) \<and>
    GetRegisteredContainer h s2 = Inl (invalid_argument ''invalid handle'')"
proof -
  have n: "GenerateNamelessName \<noteq> []" by (simp add: GenerateNamelessName_def)
  show ?thesis
    using assms n by (simp add: RegisterContainer_def Let_def CloseContainerHandle_def Unsubscribe_def
        GetRegisteredContainer_def sm_find_set sm_find_erase sm_set_inv)
qed

theorem nameless_handle_dangles_witness:
  "(let cm = snd (CreateContainer ''volatile_list'' [] (snd (SetupContainerManager []))) in
    \<exists>h s1 s2. RegisterContainer [] 2 (TioTcpSession_new 1) = (h, s1) \<and> CloseContainerHandle h cm s1 = (Inr (), s2) \<and>
      (\<forall>ob'. RegisterContainer [] ob' s2 = (h, s2)) \<and>
      GetRegisteredContainer h s2 = Inl (invalid_argument ''invalid handle''))"
proof -
  let ?cm = "snd (CreateContainer ''volatile_list'' [] (snd (SetupContainerManager [])))"
  have "object_GetName 2 ?cm = Inr GenerateNamelessName" by code_simp
  from nameless_handle_dangles [OF _ _ _ _ _ this, of "TioTcpSession_new 1"]
  show ?thesis by (simp add: TioTcpSession_new_def sm_inv_def)
qed


section \<open>Queries\<close>

definition query_request :: "u32 \<Rightarrow> u32 \<Rightarrow> u32 \<Rightarrow> pr1_field list" where
  "query_request handle start en =
     [int_field MESSAGE_FIELD_ID_COMMAND TIO_COMMAND_QUERY, int_field MESSAGE_FIELD_ID_HANDLE handle,
      int_field MESSAGE_FIELD_ID_START_RECORD start, int_field MESSAGE_FIELD_ID_END en]"

lemma query_read:
  assumes "pm_finds p (query_request h start en)"
  shows "Pr1MessageGetField_int p (ucast MESSAGE_FIELD_ID_COMMAND) = Inr (Some TIO_COMMAND_QUERY)"
    and "Pr1MessageGetField_int p (ucast MESSAGE_FIELD_ID_HANDLE) = Inr (Some h)"
    and "Pr1MessageGetField_int p (ucast MESSAGE_FIELD_ID_START_RECORD) = Inr (Some start)"
    and "Pr1MessageGetField_int p (ucast MESSAGE_FIELD_ID_END) = Inr (Some en)"
    and "Pr1MessageGetField_string p (ucast MESSAGE_FIELD_ID_QUERY_EXPRESSION) = Inr None"
proof -
  note fields = query_request_def int_field_def
  show "Pr1MessageGetField_int p (ucast MESSAGE_FIELD_ID_COMMAND) = Inr (Some TIO_COMMAND_QUERY)"
    using get_int [OF assms, of _ MESSAGE_FIELD_ID_COMMAND "Some (TInt TIO_COMMAND_QUERY)"] by (simp add: fields)
  show "Pr1MessageGetField_int p (ucast MESSAGE_FIELD_ID_HANDLE) = Inr (Some h)"
    using get_int [OF assms, of _ MESSAGE_FIELD_ID_HANDLE "Some (TInt h)"] by (simp add: fields)
  show "Pr1MessageGetField_int p (ucast MESSAGE_FIELD_ID_START_RECORD) = Inr (Some start)"
    using get_int [OF assms, of _ MESSAGE_FIELD_ID_START_RECORD "Some (TInt start)"] by (simp add: fields)
  show "Pr1MessageGetField_int p (ucast MESSAGE_FIELD_ID_END) = Inr (Some en)"
    using get_int [OF assms, of _ MESSAGE_FIELD_ID_END "Some (TInt en)"] by (simp add: fields)
  show "Pr1MessageGetField_string p (ucast MESSAGE_FIELD_ID_QUERY_EXPRESSION) = Inr None"
    using get_string [OF assms, of _ MESSAGE_FIELD_ID_QUERY_EXPRESSION None] by (simp add: fields)
qed

lemma sm_set_same: "sm_inv m \<Longrightarrow> sm_find k m = Some v \<Longrightarrow> sm_set k v m = m"
  by (rule sm.items_eqI) (auto simp: sm_set_inv sm_find_set)

text \<open>
  C17: a query over the protocol is answered with a query number that was not used before, then one message per
  record of the container's \<^verbatim>\<open>Query\<close> in order, at most as many as the given end when it is not 0, then an empty
  message that ends the result; the container is not changed.
\<close>

theorem query_command_effect:
  assumes m: "carries m (query_request h start en)" and h: "h \<noteq> 0" "sm_find h (ts_handles s) = Some ob"
    and s: "session_at sv sid = Some s" and q: "session_holds fss s k" and inv: "sm_inv (sv_sessions sv)"
    and query: "object_Query (sint start) (sint en) TNone ob (sv_containerManager sv) = Inr (rs, cm)"
    and room: "roomy s (result_fields (sv_lastQueryID sv + 1) None en (rs_records rs))"
  shows "\<exists>s' k'. OnBinaryCommand env sid m sv =
      (Inr (), (publish_new (sv_containerManager sv) (sv\<lparr> sv_containerManager := cm \<rparr>))
                 \<lparr> sv_lastQueryID := sv_lastQueryID sv + 1, sv_sessions := sm_set sid s' (sv_sessions sv) \<rparr>) \<and>
    session_holds (fss @ result_fields (sv_lastQueryID sv + 1) None en (rs_records rs)) s' k' \<and> same_tables s s'"
proof -
  obtain p where p: "pr1_message_parse m = Inr p" "pm_finds p (query_request h start en)"
    using m by (auto simp: carries_def)
  note read = query_read [OF p(2), simplified]
  let ?Q = "sv_lastQueryID sv + 1"
  let ?pub = "publish_new (sv_containerManager sv) (sv\<lparr> sv_containerManager := cm \<rparr>)"
  have last: "sv_lastQueryID ?pub = sv_lastQueryID sv"
  proof -
    have 1: "sv_lastQueryID (fold (OnAnyContainerEvent i) es sv) = sv_lastQueryID sv" for i es sv
      by (induction es arbitrary: sv) (simp_all add: OnAnyContainerEvent_def)
    have "sv_lastQueryID (fold (\<lambda>i sv. fold (OnAnyContainerEvent i) (new_events cm0 (sv_containerManager sv) i) sv) is sv) =
        sv_lastQueryID sv" for cm0 "is" sv
      by (induction "is" arbitrary: sv) (simp_all add: 1)
    then show ?thesis by (simp add: publish_new_def)
  qed
  let ?sv = "?pub\<lparr> sv_lastQueryID := ?Q \<rparr>"
  have "total_filter None" by (simp add: total_filter_def)
  note em = emits_result_set [OF this, of rs ?Q en]
  have "session_at ?sv sid = Some s" using s by simp
  from with_session_emits [OF em this q room] obtain s' k' where
    w: "with_session sid (SendBinaryResultSet rs ?Q None en) ?sv = (Inr (), ?sv\<lparr> sv_sessions := sm_set sid s' (sv_sessions ?sv) \<rparr>)"
    and s': "session_holds (fss @ result_fields ?Q None en (rs_records rs)) s' k'" "same_tables s s'" by blast
  have "GetContainerAndParametersFromRequest p sid None None None sv = (Inr (ob, None, None, None), sv)"
    using read(2) s h sm_set_same [OF inv s]
    by (simp add: GetContainerAndParametersFromRequest_def Pr1MessageGetHandleKeyValueAndMetadata_def
        get_data_into_def with_session_def GetRegisteredContainer_def)
  then have "on_query env sid p sv = with_session sid (SendBinaryResultSet rs ?Q None en) ?sv"
    using read(3-5) query last
    by (simp add: on_query_def query_filter_def with_manager_def attempt_def CreateNewQueryId_def Let_def)
  then have "OnBinaryCommand env sid m sv = (Inr (), ?sv\<lparr> sv_sessions := sm_set sid s' (sv_sessions sv) \<rparr>)"
    using w read(1) p(1) by (simp add: OnBinaryCommand_def dispatch_binary_def catch_std_def)
  then show ?thesis using s' by (intro exI [of _ s'] exI [of _ k']) simp
qed

definition example_full :: tio_server where
  "example_full = (case object_exec (OpPushBack TNone (TInt 5) TNone) 2 example_cm of
     Inr (_, cm) \<Rightarrow> example_server\<lparr> sv_containerManager := cm \<rparr> | Inl _ \<Rightarrow> example_server)"

lemma example_full_query:
  "(case object_Query 0 0 TNone 2 (sv_containerManager example_full) of
      Inl _ \<Rightarrow> False | Inr (rs, _) \<Rightarrow> rs_items rs = [(TInt 0, TInt 5, TNone)] \<and> rs_current rs = 0)"
  by code_simp

lemma example_full_server:
  "sv_sessions example_full = sv_sessions example_server" "sv_lastQueryID example_full = 0"
  by (simp_all add: example_full_def example_server_def example_start_def server_start_def split: sum.splits)

theorem query_command_effect_witness:
  "\<exists>m sv' s' k'. unparsed (wire 1 (query_request 1 0 0)) = Inr m \<and>
     OnBinaryCommand example_env 1 m example_full = (Inr (), sv') \<and> session_at sv' 1 = Some s' \<and>
     session_holds [[int_field MESSAGE_FIELD_ID_COMMAND TIO_COMMAND_ANSWER, int_field MESSAGE_FIELD_ID_QUERY_ID 1],
       query_fields 1 (TInt 0, TInt 5, TNone), query_fields 1 no_record] s' k'"
proof -
  let ?fs = "query_request 1 0 0"
  have "list_all pr1_field_ok ?fs" "length ?fs < 2 ^ 16" "fits ?fs"
    by (simp_all add: query_request_def fits_def int_field_def) (simp_all add: data_field_def)
  then obtain m where m: "unparsed (wire 1 ?fs) = Inr m" "carries m ?fs" using wire_carries by blast
  obtain rs cm where q: "object_Query (sint (0 :: u32)) (sint (0 :: u32)) TNone 2 (sv_containerManager example_full) = Inr (rs, cm)"
    and rs: "rs_records rs = [(TInt 0, TInt 5, TNone)]"
    using example_full_query by (auto simp: rs_records_def split: sum.splits)
  have r: "result_fields (sv_lastQueryID example_full + 1) None 0 (rs_records rs) =
      [[int_field MESSAGE_FIELD_ID_COMMAND TIO_COMMAND_ANSWER, int_field MESSAGE_FIELD_ID_QUERY_ID 1],
       query_fields 1 (TInt 0, TInt 5, TNone), query_fields 1 no_record]"
    by (simp add: result_fields_def rs accepts_def example_full_server)
  have s: "session_at example_full 1 = Some example_session" "sm_inv (sv_sessions example_full)"
    using example_server_session(1,2) by (simp_all add: example_full_server)
  have room: "roomy example_session (result_fields (sv_lastQueryID example_full + 1) None 0 (rs_records rs))"
    unfolding r by (simp add: roomy_def fits_def msg_size_def query_fields_def record_fields_def data_fields_def
        int_field_def data_field_def example_session_def RegisterContainer_def TioTcpSession_new_def)
  from query_command_effect [OF m(2) _ example_server_session(3) s(1) example_server_session(4) s(2) q room, of example_env]
  obtain s' k' where "OnBinaryCommand example_env 1 m example_full =
      (Inr (), (publish_new (sv_containerManager example_full) (example_full\<lparr> sv_containerManager := cm \<rparr>))
         \<lparr> sv_lastQueryID := sv_lastQueryID example_full + 1, sv_sessions := sm_set 1 s' (sv_sessions example_full) \<rparr>)"
    "session_holds (result_fields (sv_lastQueryID example_full + 1) None 0 (rs_records rs)) s' k'" by auto
  moreover have "session_at (x\<lparr> sv_lastQueryID := y, sv_sessions := sm_set 1 s' (sv_sessions example_full) \<rparr>) 1 = Some s'" for x y
    using s(2) by (simp add: sm_find_set)
  ultimately show ?thesis using m(1) unfolding r by blast
qed

theorem every_command_answered_once_witness:
  "\<exists>m sv'. unparsed (wire 1 []) = Inr m \<and> OnBinaryCommand example_env 1 m example_server = (Inr (), sv') \<and>
     answered 1 example_server sv'"
proof -
  have "list_all pr1_field_ok []" "length ([] :: pr1_field list) < 2 ^ 16" "fits []" by (simp_all add: fits_def)
  then obtain m where m: "unparsed (wire 1 []) = Inr m" "carries m []" using wire_carries by blast
  then obtain p where p: "pr1_message_parse m = Inr p" "pm_finds p []" by (auto simp: carries_def)
  have none: "Pr1MessageGetField_int p (ucast MESSAGE_FIELD_ID_COMMAND) = Inr None"
    using get_int [OF p(2), of "ucast MESSAGE_FIELD_ID_COMMAND" MESSAGE_FIELD_ID_COMMAND None] by simp
  have "roomy example_session [error_fields TIO_ERROR_MISSING_PARAMETER (ascii ''missing MESSAGE_FIELD_ID_COMMAND'')]"
  proof (rule example_roomy)
    have "length (takeWhile P xs) \<le> length xs" for P and xs :: "byte list" by (rule length_takeWhile_le)
    from this [of "\<lambda>c. c \<noteq> 0" "ascii ''missing MESSAGE_FIELD_ID_COMMAND''"]
    show "total_size [error_fields TIO_ERROR_MISSING_PARAMETER (ascii ''missing MESSAGE_FIELD_ID_COMMAND'')] < 2 ^ 30"
      by (simp add: error_fields_def msg_size_def int_field_def data_field_def c_str_def ascii_def)
  qed
  from with_session_emits [OF emits_error example_server_session(1,4) this]
  obtain sv' where "missing 1 ''missing MESSAGE_FIELD_ID_COMMAND'' example_server = (Inr (), sv')"
    by (auto simp: missing_def)
  then have c: "OnBinaryCommand example_env 1 m example_server = (Inr (), sv')"
    using p(1) none by (simp add: OnBinaryCommand_def)
  have "\<forall>p. pr1_message_parse m = Inr p \<longrightarrow>
      Pr1MessageGetField_int p (ucast MESSAGE_FIELD_ID_COMMAND) \<noteq> Inr (Some TIO_COMMAND_QUERY)"
    using p(1) none by auto
  from every_command_answered_once [OF c example_server_session(2) this] m(1) c show ?thesis by blast
qed

end
