(* ===== verification/Publisher.thy ===== *)
theory Publisher
  imports ServerHandles
begin

text \<open>
  \<^verbatim>\<open>TioTcpServer::PublisherThread\<close> (\<^verbatim>\<open>server/tio/TioTcpServer.cpp\<close>): the thread that takes the events queued by
  the containers and by new subscriptions and sends them to the subscribed sessions.  One pass of its
  outer loop is \<open>PublisherThread_pass\<close>; commands run between passes.  A new subscription gets its snapshot
  when the publisher reaches the marker that the subscription put into the queue.
\<close>

section \<open>One pass\<close>

fun sv_each :: "('a \<Rightarrow> tio_server \<Rightarrow> unit cpp \<times> tio_server) \<Rightarrow> 'a list \<Rightarrow> tio_server \<Rightarrow> unit cpp \<times> tio_server" where
  "sv_each f [] sv = (Inr (), sv)"
| "sv_each f (x # xs) sv = cm_bind (f x sv) (\<lambda>_ sv. sv_each f xs sv)"

definition subscription_at :: "storage_id \<Rightarrow> nat \<Rightarrow> tio_server \<Rightarrow> subscription_info option" where
  "subscription_at i k sv =
     (case sm_find i (sv_subscribers sv) of
        None \<Rightarrow> None
      | Some l \<Rightarrow> if k < length l then Some (l ! k) else None)"

text \<open>\<^verbatim>\<open>s->snapshotPending = false\<close> through the shared pointer.\<close>

definition snapshot_done :: "storage_id \<Rightarrow> nat \<Rightarrow> tio_server \<Rightarrow> tio_server" where
  "snapshot_done i k sv =
     (case sm_find i (sv_subscribers sv) of
        None \<Rightarrow> sv
      | Some l \<Rightarrow> sv\<lparr> sv_subscribers :=
          sm_set i (l[k := (l ! k)\<lparr> si_snapshotPending := False \<rparr>]) (sv_subscribers sv) \<rparr>)"

definition send_snapshot :: "server_env \<Rightarrow> subscription_info \<Rightarrow> tio_server \<Rightarrow> unit cpp \<times> tio_server" where
  "send_snapshot env s sv =
     cm_bind (with_manager (attempt (object_Query (se_lexical_int env (si_start s)) 0 TNone (si_container s))) sv)
       (\<lambda>resultSet sv.
     cm_bind (IsMapContainer (si_container s) (sv_containerManager sv), sv) (\<lambda>isMap sv.
     let eventCode = (if isMap then EVENT_CODE_SET else EVENT_CODE_PUSH_BACK) in
     cm_bind
       (if si_groupName s = [] then (Inr (), sv)
        else
          cm_bind (object_GetName (si_container s) (sv_containerManager sv), sv) (\<lambda>name sv.
          cm_bind (object_GetType (si_container s) (sv_containerManager sv), sv) (\<lambda>type sv.
            with_session (si_session s) (PublishNewGroupContainer (si_groupName s) (si_handle s) name type) sv)))
       (\<lambda>_ sv.
       with_session (si_session s)
         (SendSubscriptionSnapshot (se_format_g env) resultSet (si_handle s) eventCode) sv)))"

text \<open>The assertion in the \<^verbatim>\<open>catch\<close> blocks always fails.\<close>

definition no_exception :: "'a cpp \<times> tio_server \<Rightarrow> 'a cpp \<times> tio_server" where
  "no_exception p =
     (case p of
        (Inl e, sv) \<Rightarrow> (if std_exception e then Inl assertion_failed else Inl e, sv)
      | (Inr x, sv) \<Rightarrow> (Inr x, sv))"

definition publish_snapshot :: "server_env \<Rightarrow> storage_id \<Rightarrow> nat \<Rightarrow> tio_server \<Rightarrow> unit cpp \<times> tio_server" where
  "publish_snapshot env i k sv =
     (case subscription_at i k sv of
        None \<Rightarrow> (Inl (undefined_behaviour ''no such subscription''), sv)
      | Some s \<Rightarrow>
          if \<not> si_snapshotPending s then (Inr (), sv)
          else if si_start s = [] then (Inr (), snapshot_done i k sv)
          else if session_at sv (si_session s) = None then (Inr (), sv)
          else cm_bind (no_exception (send_snapshot env s sv)) (\<lambda>_ sv. (Inr (), snapshot_done i k sv)))"

definition publish_event :: "server_env \<Rightarrow> storage_id \<Rightarrow> tio_event \<Rightarrow> nat \<Rightarrow> tio_server \<Rightarrow> unit cpp \<times> tio_server" where
  "publish_event env i e k sv =
     (case subscription_at i k sv of
        None \<Rightarrow> (Inl (undefined_behaviour ''no such subscription''), sv)
      | Some s \<Rightarrow>
          if si_snapshotPending s then (Inr (), sv)
          else if session_at sv (si_session s) = None then (Inr (), sv)
          else no_exception (with_session (si_session s)
                 (PublishEvent (se_format_g env) (si_handle s) (ev_code e) (ev_key e) (ev_value e) (ev_metadata e)) sv))"

text \<open>The subscribers are those of the table when the event is taken up.\<close>

definition process_event :: "server_env \<Rightarrow> storage_id \<times> tio_event \<Rightarrow> tio_server \<Rightarrow> unit cpp \<times> tio_server" where
  "process_event env ie sv =
     (case sm_find (fst ie) (sv_subscribers sv) of
        None \<Rightarrow> (Inr (), sv)
      | Some l \<Rightarrow>
          sv_each
            (if ev_code (snd ie) = EVENT_CODE_SNAPSHOT_END then publish_snapshot env (fst ie)
             else publish_event env (fst ie) (snd ie)) [0..<length l] sv)"

definition PublisherThread_pass :: "server_env \<Rightarrow> tio_server \<Rightarrow> unit cpp \<times> tio_server" where
  "PublisherThread_pass env sv = sv_each (process_event env) (sv_eventQueue sv) (sv\<lparr> sv_eventQueue := [] \<rparr>)"


section \<open>Operations on a watched container\<close>

definition server_op :: "nat \<Rightarrow> storage_op \<Rightarrow> tio_server \<Rightarrow> tio_server" where
  "server_op ob op sv = snd (with_manager (attempt (object_exec op ob)) sv)"

definition server_ops :: "nat \<Rightarrow> storage_op list \<Rightarrow> tio_server \<Rightarrow> tio_server" where
  "server_ops ob ops sv = fold (server_op ob) ops sv"

text \<open>\<open>ob\<close> is a container on the storage \<open>st\<close> at \<open>i\<close>, the only storage with subscribers.\<close>

definition watching :: "tio_server \<Rightarrow> nat \<Rightarrow> storage_id \<Rightarrow> any_storage \<Rightarrow> subscription_info list \<Rightarrow> bool" where
  "watching sv ob i st l \<longleftrightarrow>
     cm_objects (sv_containerManager sv) ob = Some \<lparr> co_manager = fst i, co_storage = snd i \<rparr> \<and>
     (\<exists>p. mg_heap (cm_managers (sv_containerManager sv) (fst i)) (snd i) = Some (st, p)) \<and>
     sv_subscribers sv = [(i, l)]"

lemma fold_OnAnyContainerEvent:
  "sm_find i (sv_subscribers sv) \<noteq> None \<Longrightarrow>
   fold (OnAnyContainerEvent i) es sv = sv\<lparr> sv_eventQueue := sv_eventQueue sv @ map (Pair i) es \<rparr>"
  by (induction es arbitrary: sv) (simp_all add: OnAnyContainerEvent_def)

lemma publish_new_one:
  "sv_subscribers sv = [(i, l)] \<Longrightarrow>
   publish_new cm sv = sv\<lparr> sv_eventQueue := sv_eventQueue sv @ map (Pair i) (new_events cm (sv_containerManager sv) i) \<rparr>"
  by (simp add: publish_new_def fold_OnAnyContainerEvent)

lemma any_events_grow:
  "any_exec op s = Inr s' \<Longrightarrow>
   \<exists>es. any_events s' = any_events s @ es \<and> (\<forall>e\<in>set es. ev_code e \<noteq> EVENT_CODE_SNAPSHOT_END)"
  by (cases s; cases op)
    (auto simp: bind_res_Inr_iff ls_PushBack_def ls_PushFront_def ls_PopBack_def ls_PopFront_def ls_Set_def
      ls_Insert_def ls_Delete_def ls_Clear_def ms_op_defs vs_PushBack_def vs_PushFront_def vs_PopBack_def
      vs_PopFront_def vs_Pop_def vs_Set_def vs_Insert_def vs_Delete_def vs_Clear_def vs_Publish_def vs_guarded_def
      vs_lock_def vs_unlock_def vs_GetRecord_def Let_def split: if_splits prod.splits)


lemma run_ops_events:
  "\<exists>es. any_events (run_ops any_exec ops s) = any_events s @ es \<and>
        (\<forall>e\<in>set es. ev_code e \<noteq> EVENT_CODE_SNAPSHOT_END)"
proof (induction ops arbitrary: s)
  case (Cons op ops)
  show ?case
  proof (cases "any_exec op s")
    case (Inl e)
    then show ?thesis using Cons by simp
  next
    case (Inr s1)
    then show ?thesis using Cons [of s1] any_events_grow [OF Inr] by fastforce
  qed
qed simp

text \<open>The events a storage published from one state to a later one.\<close>

definition events_since :: "any_storage \<Rightarrow> any_storage \<Rightarrow> tio_event list" where
  "events_since s s' = drop (length (any_events s)) (any_events s')"

lemma object_exec_watched:
  assumes "watching sv ob i st l"
  shows "server_op ob op sv = (case any_exec op st of
      Inl _ \<Rightarrow> sv
    | Inr st' \<Rightarrow> (let cm = sv_containerManager sv; g = cm_managers cm (fst i); p = snd (the (mg_heap g (snd i))) in
        sv\<lparr> sv_containerManager := cm\<lparr> cm_managers := (cm_managers cm)(fst i := g\<lparr> mg_heap := (mg_heap g)(snd i \<mapsto> (st', p)) \<rparr>) \<rparr>,
            sv_eventQueue := sv_eventQueue sv @ map (Pair i) (events_since st st') \<rparr>))"
proof -
  obtain p where o: "cm_objects (sv_containerManager sv) ob = Some \<lparr> co_manager = fst i, co_storage = snd i \<rparr>"
    and h: "mg_heap (cm_managers (sv_containerManager sv) (fst i)) (snd i) = Some (st, p)"
    and s: "sv_subscribers sv = [(i, l)]"
    using assms by (auto simp: watching_def)
  show ?thesis
  proof (cases "any_exec op st")
    case (Inl e)
    then show ?thesis
      using o h publish_new_self [of sv]
      by (simp add: server_op_def with_manager_def attempt_def object_exec_def object_call_def container_exec_def)
  next
    case (Inr st')
    then show ?thesis
      using o h s publish_new_one [of _ i l]
      by (simp add: server_op_def with_manager_def attempt_def object_exec_def object_call_def container_exec_def Let_def
          new_events_def events_of_def events_since_def)
  qed
qed

lemma server_op_watched:
  assumes w: "watching sv ob i st l"
  shows "watching (server_op ob op sv) ob i (run_ops any_exec [op] st) l"
    and "sv_eventQueue (server_op ob op sv) = sv_eventQueue sv @ map (Pair i) (events_since st (run_ops any_exec [op] st))"
    and "sv_sessions (server_op ob op sv) = sv_sessions sv"
proof -
  note e = object_exec_watched [OF w, of op]
  show "watching (server_op ob op sv) ob i (run_ops any_exec [op] st) l"
    using w unfolding e by (auto simp: watching_def Let_def split: sum.splits)
  show "sv_eventQueue (server_op ob op sv) = sv_eventQueue sv @ map (Pair i) (events_since st (run_ops any_exec [op] st))"
    unfolding e by (auto simp: Let_def events_since_def split: sum.splits)
  show "sv_sessions (server_op ob op sv) = sv_sessions sv"
    unfolding e by (auto simp: Let_def split: sum.splits)
qed

lemma run_ops_append: "run_ops exec (ops @ ops') s = run_ops exec ops' (run_ops exec ops s)"
  by (induction ops arbitrary: s) simp_all

lemma events_since_append:
  "events_since s (run_ops any_exec ops' (run_ops any_exec ops s)) =
     events_since s (run_ops any_exec ops s) @ events_since (run_ops any_exec ops s) (run_ops any_exec ops' (run_ops any_exec ops s))"
proof -
  obtain es where "any_events (run_ops any_exec ops s) = any_events s @ es" using run_ops_events by blast
  moreover obtain fs where "any_events (run_ops any_exec ops' (run_ops any_exec ops s)) = any_events (run_ops any_exec ops s) @ fs"
    using run_ops_events by blast
  ultimately show ?thesis by (simp add: events_since_def)
qed

lemma server_ops_watched:
  assumes "watching sv ob i st l"
  shows "watching (server_ops ob ops sv) ob i (run_ops any_exec ops st) l \<and>
    sv_eventQueue (server_ops ob ops sv) = sv_eventQueue sv @ map (Pair i) (events_since st (run_ops any_exec ops st)) \<and>
    sv_sessions (server_ops ob ops sv) = sv_sessions sv"
  using assms
proof (induction ops arbitrary: sv st)
  case Nil
  then show ?case by (simp add: server_ops_def events_since_def)
next
  case (Cons op ops)
  note 1 = server_op_watched [OF Cons.prems, of op]
  have "server_ops ob (op # ops) sv = server_ops ob ops (server_op ob op sv)" by (simp add: server_ops_def)
  then show ?case
    using Cons.IH [OF 1(1)] 1(2,3) run_ops_append [of any_exec "[op]" ops]
      events_since_append [of st ops "[op]"]
    by (simp del: run_ops.simps)
qed


section \<open>What a pass delivers\<close>

definition stored_event_fields :: "u32 \<Rightarrow> tio_event \<Rightarrow> pr1_field list" where
  "stored_event_fields h e = event_fields h (ev_code e) (ev_key e, ev_value e, ev_metadata e)"

text \<open>A binary session with its queue and the room for later messages.\<close>

definition session_with :: "tio_server \<Rightarrow> nat \<Rightarrow> pr1_field list list \<Rightarrow> pr1_field list list \<Rightarrow> bool" where
  "session_with sv sid fss later \<longleftrightarrow>
     sm_inv (sv_sessions sv) \<and>
     (\<exists>s n. session_at sv sid = Some s \<and> session_holds fss s n \<and> ts_binaryProtocol s \<and> roomy s later)"

lemma session_with_send:
  assumes "session_with sv sid fss (gss @ later)" and "emits f gss"
  shows "\<exists>sv'. with_session sid f sv = (Inr (), sv') \<and> session_with sv' sid (fss @ gss) later \<and>
    (\<exists>ss. sv' = sv\<lparr> sv_sessions := ss \<rparr>)"
proof -
  obtain s n where s: "session_at sv sid = Some s" "session_holds fss s n" "ts_binaryProtocol s" "roomy s (gss @ later)"
    and inv: "sm_inv (sv_sessions sv)" using assms(1) by (auto simp: session_with_def)
  obtain s' n' where e: "f s = (Inr (), s')" "session_holds (fss @ gss) s' n'" "same_tables s s'"
    "ts_pendingSendSize s' = ts_pendingSendSize s + int (total_size gss)"
    using assms(2) s(2,4) unfolding emits_def roomy_def by (fastforce simp: list_all_append)
  have "roomy s' later" using s(4) e(4) by (simp add: roomy_def)
  moreover have "ts_binaryProtocol s'" using e(3) s(3) by (simp add: same_tables_def)
  ultimately show ?thesis using s(1) e(1,2) inv
    by (auto simp: with_session_def session_with_def sm_find_set sm_set_inv)
qed

lemma emits_PublishEvent:
  "session_with sv sid fss later \<Longrightarrow> with_session sid (PublishEvent fmt h c k v md) sv =
    with_session sid (SendBinaryEvent h c k v md) sv"
  by (auto simp: with_session_def PublishEvent_def session_with_def)

lemma with_snapshot_binary:
  "session_with sv sid fss later \<Longrightarrow> with_session sid (SendSubscriptionSnapshot fmt rs h c) sv =
    with_session sid (SendBinarySubscriptionSnapshot rs h c) sv"
  by (auto simp: with_session_def SendSubscriptionSnapshot_def session_with_def)

lemma deliver_events:
  assumes "session_with sv (si_session info) fss (map (stored_event_fields (si_handle info)) es @ later)"
    and "sv_subscribers sv = [(i, [info])]" and "\<not> si_snapshotPending info"
    and "\<forall>e\<in>set es. ev_code e \<noteq> EVENT_CODE_SNAPSHOT_END"
  shows "\<exists>sv'. sv_each (process_event env) (map (Pair i) es) sv = (Inr (), sv') \<and>
    session_with sv' (si_session info) (fss @ map (stored_event_fields (si_handle info)) es) later \<and>
    (\<exists>ss. sv' = sv\<lparr> sv_sessions := ss \<rparr>)"
  using assms
proof (induction es arbitrary: sv fss)
  case Nil
  have "sv = sv\<lparr> sv_sessions := sv_sessions sv \<rparr>" by simp
  then show ?case using Nil.prems(1) by (metis append_Nil append_Nil2 list.map(1) sv_each.simps(1))
next
  case (Cons e es)
  let ?h = "si_handle info" and ?sid = "si_session info"
  let ?rest = "map (stored_event_fields ?h) es @ later"
  have w: "session_with sv ?sid fss ([stored_event_fields ?h e] @ ?rest)" using Cons.prems(1) by simp
  obtain sv1 where 1: "with_session ?sid (SendBinaryEvent ?h (ev_code e) (ev_key e) (ev_value e) (ev_metadata e)) sv = (Inr (), sv1)"
    "session_with sv1 ?sid (fss @ [stored_event_fields ?h e]) ?rest" "\<exists>ss. sv1 = sv\<lparr> sv_sessions := ss \<rparr>"
    using session_with_send [OF w] emits_event unfolding stored_event_fields_def by blast
  have live: "session_at sv ?sid \<noteq> None" using w by (auto simp: session_with_def)
  have p: "process_event env (i, e) sv = (Inr (), sv1)"
    using Cons.prems(2-4) 1(1) live emits_PublishEvent [OF w]
    by (auto simp: process_event_def publish_event_def subscription_at_def no_exception_def)
  have subs: "sv_subscribers sv1 = [(i, [info])]" using 1(3) Cons.prems(2) by auto
  obtain sv' where "sv_each (process_event env) (map (Pair i) es) sv1 = (Inr (), sv')"
    "session_with sv' ?sid ((fss @ [stored_event_fields ?h e]) @ map (stored_event_fields ?h) es) later"
    "\<exists>ss. sv' = sv1\<lparr> sv_sessions := ss \<rparr>"
    using Cons.IH [OF 1(2) subs Cons.prems(3)] Cons.prems(4) by auto
  then show ?case using p 1(3) by auto
qed


lemma events_since_codes: "\<forall>e\<in>set (events_since s (run_ops any_exec ops s)). ev_code e \<noteq> EVENT_CODE_SNAPSHOT_END"
  using run_ops_events [of ops s] by (auto simp: events_since_def)

text \<open>The marker of a new subscription is answered with the snapshot.\<close>

definition snapshot_code :: "any_storage \<Rightarrow> event_code" where
  "snapshot_code st = (if any_type st \<in> {''volatile_map'', ''persistent_map''} then EVENT_CODE_SET else EVENT_CODE_PUSH_BACK)"

lemma snapshot_sent:
  assumes w: "watching sv ob i st [info]" and q: "any_Query (se_lexical_int env (si_start info)) 0 TNone st = Inr (rs, st)"
    and "rs_current rs = 0" and c: "si_container info = ob" and "si_groupName info = []" and "si_start info \<noteq> []"
    and "si_snapshotPending info"
    and room: "session_with sv (si_session info) fss (snapshot_fields (si_handle info) (snapshot_code st) (rs_records rs) @ later)"
  shows "\<exists>ss. let sv' = sv\<lparr> sv_sessions := ss, sv_subscribers := [(i, [info\<lparr> si_snapshotPending := False \<rparr>])] \<rparr> in
    process_event env (i, \<lparr> ev_code = EVENT_CODE_SNAPSHOT_END, ev_key = k, ev_value = v, ev_metadata = m \<rparr>) sv = (Inr (), sv') \<and>
    session_with sv' (si_session info) (fss @ snapshot_fields (si_handle info) (snapshot_code st) (rs_records rs)) later"
proof -
  let ?sid = "si_session info" and ?gss = "snapshot_fields (si_handle info) (snapshot_code st) (rs_records rs)"
  obtain p where o: "cm_objects (sv_containerManager sv) ob = Some \<lparr> co_manager = fst i, co_storage = snd i \<rparr>"
    and h: "mg_heap (cm_managers (sv_containerManager sv) (fst i)) (snd i) = Some (st, p)"
    and s: "sv_subscribers sv = [(i, [info])]" using w by (auto simp: watching_def)
  have "object_Query (se_lexical_int env (si_start info)) 0 TNone ob (sv_containerManager sv) = Inr (rs, sv_containerManager sv)"
    using o h q by (simp add: object_Query_def storage_call_def object_call_def map_upd_triv)
  then have "with_manager (attempt (object_Query (se_lexical_int env (si_start info)) 0 TNone ob)) sv = (Inr rs, sv)"
    using publish_new_self [of sv] by (simp add: with_manager_def attempt_def)
  moreover have "IsMapContainer ob (sv_containerManager sv) = Inr (any_type st \<in> {''volatile_map'', ''persistent_map''})"
    using o h by (auto simp: IsMapContainer_def object_GetType_def)
  moreover obtain sv1 ss where 1: "with_session ?sid (SendSubscriptionSnapshot (se_format_g env) rs (si_handle info) (snapshot_code st)) sv = (Inr (), sv1)"
    "session_with sv1 ?sid (fss @ ?gss) later" "sv1 = sv\<lparr> sv_sessions := ss \<rparr>"
    using session_with_send [OF room emits_snapshot [OF assms(3)]] with_snapshot_binary [OF room] by auto
  ultimately have "send_snapshot env info sv = (Inr (), sv1)"
    using c assms(5) by (simp add: send_snapshot_def Let_def snapshot_code_def)
  moreover have "session_at sv ?sid \<noteq> None" using room by (auto simp: session_with_def)
  ultimately have "process_event env (i, \<lparr> ev_code = EVENT_CODE_SNAPSHOT_END, ev_key = k, ev_value = v, ev_metadata = m \<rparr>) sv =
      (Inr (), sv1\<lparr> sv_subscribers := [(i, [info\<lparr> si_snapshotPending := False \<rparr>])] \<rparr>)"
    using assms(6,7) s 1(3)
    by (auto simp: process_event_def publish_snapshot_def subscription_at_def no_exception_def snapshot_done_def)
  then show ?thesis using 1(2,3) by (auto simp: session_with_def Let_def)
qed

lemma server_ops_keeps:
  assumes "watching sv ob i st l" and "session_with sv sid fss gss"
  shows "session_with (server_ops ob ops sv) sid fss gss"
  using server_ops_watched [OF assms(1), of ops] assms(2) by (simp add: session_with_def)


section \<open>A subscription, from its start\<close>

text \<open>
  A session subscribes to the container \<open>ob\<close>; clients run the operations \<open>ops\<close> before the publisher takes
  the queue, and \<open>ops'\<close> between its first and its second pass.
\<close>

definition subscribe_run :: "server_env \<Rightarrow> subscription_info \<Rightarrow> storage_op list \<Rightarrow> storage_op list \<Rightarrow> tio_server \<Rightarrow>
    unit cpp \<times> tio_server" where
  "subscribe_run env info ops ops' sv =
     cm_bind (SessionAsyncSubscribe info sv) (\<lambda>_ sv.
     cm_bind (PublisherThread_pass env (server_ops (si_container info) ops sv)) (\<lambda>_ sv.
     PublisherThread_pass env (server_ops (si_container info) ops' sv)))"

lemma watching_cong:
  "watching sv ob i st l \<Longrightarrow> sv_containerManager sv' = sv_containerManager sv \<Longrightarrow> sv_subscribers sv' = [(i, l')] \<Longrightarrow>
   watching sv' ob i st l'"
  by (simp add: watching_def)

lemma session_with_cong: "session_with sv sid fss gss \<Longrightarrow> sv_sessions sv' = sv_sessions sv \<Longrightarrow> session_with sv' sid fss gss"
  by (simp add: session_with_def)

text \<open>The operations since the last pass reach a session whose snapshot is done, in their order.\<close>

lemma pass_delivers:
  assumes w: "watching sv ob i st [info]" and n: "\<not> si_snapshotPending info" and q: "sv_eventQueue sv = []"
    and r: "session_with sv (si_session info) fss
      (map (stored_event_fields (si_handle info)) (events_since st (run_ops any_exec ops st)) @ later)"
  shows "\<exists>sv'. PublisherThread_pass env (server_ops ob ops sv) = (Inr (), sv') \<and>
    watching sv' ob i (run_ops any_exec ops st) [info] \<and> sv_eventQueue sv' = [] \<and>
    session_with sv' (si_session info)
      (fss @ map (stored_event_fields (si_handle info)) (events_since st (run_ops any_exec ops st))) later"
proof -
  define sv1 where "sv1 = server_ops ob ops sv"
  note o = server_ops_watched [OF w, of ops, folded sv1_def]
  have "session_with (sv1\<lparr> sv_eventQueue := [] \<rparr>) (si_session info) fss
      (map (stored_event_fields (si_handle info)) (events_since st (run_ops any_exec ops st)) @ later)"
    by (rule session_with_cong [OF r]) (simp add: o)
  from deliver_events [OF this _ n events_since_codes, of i env] o q show ?thesis
    unfolding sv1_def [symmetric] by (auto simp: PublisherThread_pass_def watching_def)
qed

text \<open>The pass that finds the marker sends the snapshot of that moment and then what was queued behind the marker.\<close>

abbreviation (input) "marker i \<equiv>
  (i :: storage_id, \<lparr> ev_code = EVENT_CODE_SNAPSHOT_END, ev_key = TNone, ev_value = TNone, ev_metadata = TNone \<rparr>)"

lemma first_pass_delivers:
  fixes st :: any_storage
  assumes w: "watching sv ob i st [info]" and q: "sv_eventQueue sv = [marker i]"
    and st': "st' = run_ops any_exec ops st"
    and "any_Query (se_lexical_int env (si_start info)) 0 TNone st' = Inr (rs, st')" and "rs_current rs = 0"
    and "si_container info = ob" and "si_groupName info = []" and "si_start info \<noteq> []" and "si_snapshotPending info"
    and r: "session_with sv (si_session info) fss (snapshot_fields (si_handle info) (snapshot_code st') (rs_records rs) @
      map (stored_event_fields (si_handle info)) (events_since st st') @ later)"
  shows "\<exists>sv'. PublisherThread_pass env (server_ops ob ops sv) = (Inr (), sv') \<and>
    watching sv' ob i st' [info\<lparr> si_snapshotPending := False \<rparr>] \<and> sv_eventQueue sv' = [] \<and>
    session_with sv' (si_session info) (fss @ snapshot_fields (si_handle info) (snapshot_code st') (rs_records rs) @
      map (stored_event_fields (si_handle info)) (events_since st st')) later"
proof -
  let ?info = "info\<lparr> si_snapshotPending := False \<rparr>"
  define sv1 where "sv1 = server_ops ob ops sv"
  note o = server_ops_watched [OF w, of ops, folded sv1_def st']
  have w1: "watching (sv1\<lparr> sv_eventQueue := [] \<rparr>) ob i st' [info]" using o by (auto simp: watching_def)
  have "session_with (sv1\<lparr> sv_eventQueue := [] \<rparr>) (si_session info) fss
      (snapshot_fields (si_handle info) (snapshot_code st') (rs_records rs) @
       map (stored_event_fields (si_handle info)) (events_since st st') @ later)"
    by (rule session_with_cong [OF r]) (simp add: o)
  from snapshot_sent [where k = TNone and v = TNone and m = TNone, OF w1 assms(4-9) this]
  obtain sv2 ss where 2: "process_event env (marker i) (sv1\<lparr> sv_eventQueue := [] \<rparr>) = (Inr (), sv2)"
    "sv2 = sv1\<lparr> sv_eventQueue := [], sv_sessions := ss, sv_subscribers := [(i, [?info])] \<rparr>"
    "session_with sv2 (si_session ?info) (fss @ snapshot_fields (si_handle info) (snapshot_code st') (rs_records rs))
       (map (stored_event_fields (si_handle ?info)) (events_since st st') @ later)"
    by (auto simp: Let_def)
  from deliver_events [OF 2(3), of i env] events_since_codes [of st ops, folded st'] 2(2)
  obtain sv3 ss' where "sv_each (process_event env) (map (Pair i) (events_since st st')) sv2 = (Inr (), sv3)"
    "sv3 = sv2\<lparr> sv_sessions := ss' \<rparr>"
    "session_with sv3 (si_session info) (fss @ snapshot_fields (si_handle info) (snapshot_code st') (rs_records rs) @
      map (stored_event_fields (si_handle info)) (events_since st st')) later"
    by auto
  then show ?thesis
    using o q 2(1,2) unfolding sv1_def [symmetric] by (auto simp: PublisherThread_pass_def watching_def)
qed

lemma subscription_delivered:
  fixes st :: any_storage
  assumes "sv_subscribers sv = []" and "sv_eventQueue sv = []"
    and o: "cm_objects (sv_containerManager sv) ob = Some \<lparr> co_manager = fst i, co_storage = snd i \<rparr>"
    and hp: "mg_heap (cm_managers (sv_containerManager sv) (fst i)) (snd i) = Some (st, p)"
    and "b \<noteq> []" and st': "st' = run_ops any_exec ops st" and fin: "fin = run_ops any_exec ops' st'"
    and q: "any_Query (se_lexical_int env b) 0 TNone st' = Inr (rs, st')" and rs: "rs_current rs = 0"
    and room: "session_with sv sid fss (snapshot_fields h (snapshot_code st') (rs_records rs) @
      map (stored_event_fields h) (events_since st fin))"
  shows "\<exists>sv'. subscribe_run env (SubscriptionInfo_new [] ob h sid b) ops ops' sv = (Inr (), sv') \<and>
    (\<exists>l. watching sv' ob i fin l) \<and>
    session_with sv' sid (fss @ snapshot_fields h (snapshot_code st') (rs_records rs) @
      map (stored_event_fields h) (events_since st fin)) []"
proof -
  define info where "info = SubscriptionInfo_new [] ob h sid b"
  have info_simps [simp]: "si_container info = ob" "si_handle info = h" "si_session info = sid" "si_start info = b"
    "si_groupName info = []" "si_snapshotPending info" by (simp_all add: info_def SubscriptionInfo_new_def)
  have es: "events_since st fin = events_since st st' @ events_since st' fin"
    unfolding fin st' by (rule events_since_append)
  define sv1 where "sv1 = sv\<lparr> sv_eventQueue := [marker i], sv_subscribers := [(i, [info])] \<rparr>"
  have 1: "SessionAsyncSubscribe info sv = (Inr (), sv1)"
    using assms(1-3) by (simp add: SessionAsyncSubscribe_def GetStorageId_def sv1_def)
  have w1: "watching sv1 ob i st [info]" and q1: "sv_eventQueue sv1 = [marker i]"
    using o hp by (simp_all add: watching_def sv1_def)
  have "session_with sv1 (si_session info) fss (snapshot_fields (si_handle info) (snapshot_code st') (rs_records rs) @
      map (stored_event_fields (si_handle info)) (events_since st st') @ map (stored_event_fields h) (events_since st' fin))"
    by (rule session_with_cong [of sv]) (use room in \<open>simp_all add: sv1_def es\<close>)
  from first_pass_delivers [OF w1 q1 st' _ rs _ _ _ _ this, of env] q \<open>b \<noteq> []\<close>
  obtain sv2 where 2: "PublisherThread_pass env (server_ops ob ops sv1) = (Inr (), sv2)"
    "watching sv2 ob i st' [info\<lparr> si_snapshotPending := False \<rparr>]" "sv_eventQueue sv2 = []"
    "session_with sv2 sid (fss @ snapshot_fields h (snapshot_code st') (rs_records rs) @
       map (stored_event_fields h) (events_since st st')) (map (stored_event_fields h) (events_since st' fin))"
    by auto
  from pass_delivers [OF 2(2) _ 2(3), of "fss @ snapshot_fields h (snapshot_code st') (rs_records rs) @
      map (stored_event_fields h) (events_since st st')" ops' "[]" env, folded fin] 2(4)
  obtain sv3 where "PublisherThread_pass env (server_ops ob ops' sv2) = (Inr (), sv3)"
    "watching sv3 ob i fin [info\<lparr> si_snapshotPending := False \<rparr>]"
    "session_with sv3 sid (fss @ snapshot_fields h (snapshot_code st') (rs_records rs) @
       map (stored_event_fields h) (events_since st fin)) []" by (auto simp: es)
  then show ?thesis using 1 2(1) by (auto simp: subscribe_run_def info_def [symmetric])
qed

end
