(* ===== verification/Subscriptions.thy ===== *)
theory Subscriptions
  imports Publisher
begin

text \<open>
  What a subscriber can rely on: the events that reach a session rebuild the contents of the container.
  The contract of a storage that can be copied from a snapshot is a locale, interpreted for the list and
  the map storage.
\<close>

section \<open>Copies of a container\<close>

definition record_events :: "event_code \<Rightarrow> tio_record list \<Rightarrow> tio_event list" where
  "record_events code = map (\<lambda>(k, v, m). \<lparr> ev_code = code, ev_key = k, ev_value = v, ev_metadata = m \<rparr>)"

text \<open>What a subscriber is sent: the records of the snapshot, the end of the snapshot, the events.\<close>

definition subscription_events :: "event_code \<Rightarrow> tio_record list \<Rightarrow> tio_event list \<Rightarrow> tio_event list" where
  "subscription_events code rows es = record_events code rows @
     \<lparr> ev_code = EVENT_CODE_SNAPSHOT_END, ev_key = TNone, ev_value = TNone, ev_metadata = TNone \<rparr> # es"

lemma subscription_events_fields:
  "map (stored_event_fields h) (subscription_events c rows es) =
     snapshot_fields h c rows @ map (stored_event_fields h) es"
  by (auto simp: subscription_events_def record_events_def snapshot_fields_def stored_event_fields_def)

text \<open>A replicated storage whose contents can be rebuilt from the records of a query.\<close>

locale replicated_snapshot = replicated exec inv count
  for exec :: "storage_op \<Rightarrow> 'd storage \<Rightarrow> 'd storage cpp" and inv :: "'d \<Rightarrow> bool" and count :: "'d \<Rightarrow> nat" +
  fixes embed :: "'d storage \<Rightarrow> any_storage"
    and rows :: "'d \<Rightarrow> tio_record list"
    and code :: event_code
    and blank :: 'd
    and whole :: "'d \<Rightarrow> bool"
  assumes embed_exec: "any_exec op (embed s) = bind_res (exec op s) (\<lambda>s. Inr (embed s))"
    and embed_events: "any_events (embed s) = st_events s"
    and embed_Query: "count (st_data s) < 2 ^ 31 \<Longrightarrow>
      any_Query 0 0 TNone (embed s) = Inr (VectorResultSet (rows (st_data s)) TNone, embed s)"
    and rebuild: "inv d \<Longrightarrow> whole d \<Longrightarrow> st_data r = blank \<Longrightarrow>
      \<exists>r'. replay_events exec (record_events code (rows d)) r = Inr r' \<and> st_data r' = d"
begin

lemma embed_run: "run_ops any_exec ops (embed s) = embed (run_ops exec ops s)"
  by (induction ops arbitrary: s) (simp_all add: embed_exec bind_res_def split: sum.splits)

text \<open>A copy built from the snapshot and the events since has the contents.\<close>

lemma copy_equal:
  assumes "inv (st_data s)" and "whole (st_data s)" and "count (st_data s) + length ops < 2 ^ 31 - 1"
    and "st_sink s" and "st_data r = blank"
  shows "\<exists>r'. replay_events exec (subscription_events code (rows (st_data s))
             (events_since (embed s) (run_ops any_exec ops (embed s)))) r = Inr r' \<and>
           st_data r' = st_data (run_ops exec ops s)"
proof -
  obtain r1 where 1: "replay_events exec (record_events code (rows (st_data s))) r = Inr r1" "st_data r1 = st_data s"
    using rebuild [OF assms(1,2,5)] by blast
  obtain es r' where 2: "st_events (run_ops exec ops s) = st_events s @ es" "replay_events exec es r1 = Inr r'"
    "st_data r' = st_data (run_ops exec ops s)"
    using snapshot_plus_events [OF assms(1,3,4) 1(2)] by blast
  have "events_since (embed s) (run_ops any_exec ops (embed s)) = es"
    by (simp add: events_since_def embed_run embed_events 2(1))
  then show ?thesis
    using 1(1) 2(2,3) by (simp add: subscription_events_def replay_events_append event_op_def)
qed

text \<open>The session of a subscription from position 0 is sent such a list of events.\<close>

lemma subscription_sent:
  assumes "sv_subscribers sv = []" and "sv_eventQueue sv = []"
    and "cm_objects (sv_containerManager sv) ob = Some \<lparr> co_manager = fst i, co_storage = snd i \<rparr>"
    and "mg_heap (cm_managers (sv_containerManager sv) (fst i)) (snd i) = Some (embed s, p)"
    and "b \<noteq> []" and b: "se_lexical_int env b = 0"
    and n: "count (st_data (run_ops exec ops s)) < 2 ^ 31"
    and c: "snapshot_code (embed (run_ops exec ops s)) = code"
    and es: "es = subscription_events code (rows (st_data (run_ops exec ops s)))
        (events_since (embed s) (run_ops any_exec (ops @ ops') (embed s)))"
    and room: "session_with sv sid fss (map (stored_event_fields h) es)"
  shows "\<exists>sv'. subscribe_run env (SubscriptionInfo_new [] ob h sid b) ops ops' sv = (Inr (), sv') \<and>
    (\<exists>l. watching sv' ob i (embed (run_ops exec (ops @ ops') s)) l) \<and>
    session_with sv' sid (fss @ map (stored_event_fields h) es) []"
proof -
  let ?s = "run_ops exec ops s"
  let ?rs = "VectorResultSet (rows (st_data ?s)) TNone"
  have rs: "rs_current ?rs = 0" "rs_records ?rs = rows (st_data ?s)"
    by (simp_all add: VectorResultSet_def rs_records_def)
  have q: "any_Query (se_lexical_int env b) 0 TNone (embed ?s) = Inr (?rs, embed ?s)"
    unfolding b by (rule embed_Query [OF n])
  have fin: "embed (run_ops exec (ops @ ops') s) = run_ops any_exec ops' (embed ?s)"
    by (simp add: embed_run run_ops_append)
  have es': "map (stored_event_fields h) es = snapshot_fields h (snapshot_code (embed ?s)) (rs_records ?rs) @
      map (stored_event_fields h) (events_since (embed s) (embed (run_ops exec (ops @ ops') s)))"
    by (simp add: es subscription_events_fields rs c embed_run)
  show ?thesis
    unfolding es' by (rule subscription_delivered [OF assms(1-5) embed_run [symmetric] fin q rs(1) room [unfolded es']])
qed

end

lemma ls_Query_all:
  assumes "length (st_data s) < 2 ^ 31"
  shows "ls_Query 0 0 TNone s =
    Inr (VectorResultSet (map (\<lambda>k. (TInt (of_nat k), st_data s ! k)) [0..<length (st_data s)]) TNone)"
proof (cases "st_data s = []")
  case True
  then show ?thesis by (simp add: ls_Query_def ls_collect.simps)
next
  case False
  let ?d = "st_data s"
  have "NormalizeQueryLimits 0 0 (int (length ?d)) = Inr (0, int (length ?d))"
    using False by (simp add: NormalizeQueryLimits_def NormalizeForQueries_def NormalizeIndex_def)
  moreover have "ls_query_iterator ?d 0 = Inr 0" "ls_query_iterator ?d (int (length ?d)) = Inr (length ?d)"
    using ls_query_iterator_nat [of 0 ?d] ls_query_iterator_nat [of "int (length ?d)" ?d] assms by simp_all
  moreover have "ls_collect ?d 0 0 (length ?d) = Inr (map (\<lambda>k. (TInt (of_nat k), ?d ! k)) [0..<length ?d])"
    using assms by (intro ls_collect_range) auto
  ultimately show ?thesis using False wrap32_nat [OF assms] by (simp add: ls_Query_def Let_def)
qed

definition list_rows :: "(tio_data \<times> tio_data) list \<Rightarrow> tio_record list" where
  "list_rows d = map (\<lambda>k. (TInt (of_nat k), d ! k)) [0..<length d]"

definition list_whole :: "(tio_data \<times> tio_data) list \<Rightarrow> bool" where
  "list_whole = list_all (\<lambda>(v, m). \<not> Empty v)"

definition map_rows :: "(byte list \<times> tio_data \<times> tio_data) list \<Rightarrow> tio_record list" where
  "map_rows = map (\<lambda>(k, v, m). (TString k, v, m))"

definition map_whole :: "(byte list \<times> tio_data \<times> tio_data) list \<Rightarrow> bool" where
  "map_whole = list_all (\<lambda>(k, v, m). c_str k = k)"

lemma list_rebuild:
  assumes "list_whole d"
  shows "\<exists>r'. replay_events ls_exec (record_events EVENT_CODE_PUSH_BACK (map (\<lambda>k. (f k, d ! k)) [0..<length d])) r = Inr r' \<and>
    st_data r' = st_data r @ d"
  using assms
proof (induction d rule: rev_induct)
  case Nil
  then show ?case by (simp add: record_events_def)
next
  case (snoc x d)
  obtain v m where x: "x = (v, m)" by force
  obtain r' where r: "replay_events ls_exec (record_events EVENT_CODE_PUSH_BACK (map (\<lambda>k. (f k, d ! k)) [0..<length d])) r = Inr r'"
    "st_data r' = st_data r @ d" using snoc by (auto simp: list_whole_def)
  have e: "map (\<lambda>k. (f k, (d @ [x]) ! k)) [0..<length (d @ [x])] = map (\<lambda>k. (f k, d ! k)) [0..<length d] @ [(f (length d), v, m)]"
    by (simp add: x nth_append)
  show ?case
    unfolding e using r snoc.prems
    by (simp add: x record_events_def replay_events_append ls_PushBack_def ls_CheckValue_def list_whole_def Let_def)
qed

lemma sm_set_last: "\<forall>a\<in>fst ` set d. a < k \<Longrightarrow> sm_set k v d = d @ [(k, v)]"
  by (induction d) (auto simp: less_imp_neq less_not_sym)

lemma map_rebuild:
  assumes "sm_inv d" and "map_whole d" and "st_data r = []"
  shows "\<exists>r'. replay_events ms_exec (record_events EVENT_CODE_SET (map_rows d)) r = Inr r' \<and> st_data r' = d"
  using assms(1,2)
proof (induction d rule: rev_induct)
  case Nil
  then show ?case using assms(3) by (simp add: record_events_def map_rows_def)
next
  case (snoc x d)
  obtain k v m where x: "x = (k, v, m)" by (metis prod_cases3)
  have d: "sm_inv d" "\<forall>a\<in>fst ` set d. a < k" using snoc.prems(1) by (auto simp: sm_inv_def x sorted_wrt_append)
  obtain r' where r: "replay_events ms_exec (record_events EVENT_CODE_SET (map_rows d)) r = Inr r'" "st_data r' = d"
    using snoc d(1) by (auto simp: map_whole_def)
  show ?case
    using r snoc.prems(2) sm_set_last [OF d(2)]
    by (simp add: x record_events_def map_rows_def replay_events_append ms_Set_def AsSz_def CheckDataType_def Empty_def
        map_whole_def)
qed

interpretation list_copy: replicated_snapshot ls_exec "\<lambda>_. True" length SList list_rows EVENT_CODE_PUSH_BACK "[]" list_whole
proof (unfold_locales, goal_cases)
  case (3 s)
  then show ?case by (simp add: ls_Query_all list_rows_def)
next
  case (4 d r)
  then show ?case using list_rebuild [of d "\<lambda>k. TInt (of_nat k)" r] by (simp add: list_rows_def)
qed simp_all

interpretation map_copy: replicated_snapshot ms_exec sm_inv length SMap map_rows EVENT_CODE_SET "[]" map_whole
proof (unfold_locales, goal_cases)
  case (3 s)
  then show ?case by (simp add: ms_Query_def map_rows_def Let_def)
next
  case (4 d r)
  then show ?case by (rule map_rebuild)
qed simp_all


section \<open>Properties\<close>



text \<open>
  C36: the snapshot is taken when the publisher reaches the marker, not when the subscription is made, and the
  changes queued behind the marker are sent as well: a value pushed in between reaches the session twice,
  and its copy ends with one element too many.
\<close>

theorem push_before_snapshot_sent_twice:
  assumes "sv_subscribers sv = []" and "sv_eventQueue sv = []"
    and "cm_objects (sv_containerManager sv) ob = Some \<lparr> co_manager = fst i, co_storage = snd i \<rparr>"
    and "mg_heap (cm_managers (sv_containerManager sv) (fst i)) (snd i) = Some (SList s, p)"
    and "b \<noteq> []" and "se_lexical_int env b = 0"
    and "st_type s = ''volatile_list''" and "st_sink s" and "list_whole (st_data s)" and "\<not> Empty v"
    and "length (st_data s) < 2 ^ 31 - 1"
    and "es = subscription_events EVENT_CODE_PUSH_BACK (list_rows (st_data s @ [(v, m)]))
        [\<lparr> ev_code = EVENT_CODE_PUSH_BACK, ev_key = TInt (of_nat (length (st_data s))), ev_value = v, ev_metadata = m \<rparr>]"
    and "session_with sv sid fss (map (stored_event_fields h) es)"
    and "st_data r = []"
  shows "\<exists>sv' s' l r'. subscribe_run env (SubscriptionInfo_new [] ob h sid b) [OpPushBack k v m] [] sv = (Inr (), sv') \<and>
    watching sv' ob i (SList s') l \<and> st_data s' = st_data s @ [(v, m)] \<and>
    session_with sv' sid (fss @ map (stored_event_fields h) es) [] \<and>
    replay_events ls_exec es r = Inr r' \<and> st_data r' = st_data s @ [(v, m), (v, m)]"
proof -
  let ?s = "run_ops ls_exec [OpPushBack k v m] s"
  have s: "st_data ?s = st_data s @ [(v, m)]" "st_type ?s = st_type s"
    and ev: "es = subscription_events EVENT_CODE_PUSH_BACK (list_rows (st_data ?s))
      (events_since (SList s) (run_ops any_exec ([OpPushBack k v m] @ []) (SList s)))"
    using assms(8,10,12) by (simp_all add: ls_PushBack_def ls_CheckValue_def events_since_def Let_def)
  have "list_whole (st_data ?s)" unfolding s(1) using assms(9,10) by (simp add: list_whole_def)
  from list_rebuild [OF this, of "\<lambda>k. TInt (of_nat k)" r] assms(14)
  obtain r1 where r1: "replay_events ls_exec (record_events EVENT_CODE_PUSH_BACK (list_rows (st_data ?s))) r = Inr r1"
    "st_data r1 = st_data ?s" by (auto simp: list_rows_def)
  then have "\<exists>r'. replay_events ls_exec es r = Inr r' \<and> st_data r' = st_data s @ [(v, m), (v, m)]"
    using assms(10) unfolding assms(12) s(1)
    by (simp add: subscription_events_def replay_events_append event_op_def ls_PushBack_def ls_CheckValue_def Let_def)
  moreover from list_copy.subscription_sent [OF assms(1-6), of "[OpPushBack k v m]" es "[]" sid fss h, OF _ _ ev]
  obtain sv' l where "subscribe_run env (SubscriptionInfo_new [] ob h sid b) [OpPushBack k v m] [] sv = (Inr (), sv')"
    "watching sv' ob i (SList ?s) l" "session_with sv' sid (fss @ map (stored_event_fields h) es) []"
    using s assms(7,11,13) by (auto simp: snapshot_code_def simp del: run_ops.simps)
  ultimately show ?thesis using s(1) by blast
qed


text \<open>
  Taking the snapshot of a vector container blocks the publisher on the mutex that
  \<^verbatim>\<open>VectorStorage::Query\<close> already holds; no event of any container is sent after that.
\<close>

lemma vector_snapshot_blocks:
  assumes w: "watching sv ob i (SVector s) [info]" and "sv_eventQueue sv = marker i # es"
    and "si_container info = ob" and "si_start info \<noteq> []" and "si_snapshotPending info"
    and "session_at sv (si_session info) \<noteq> None"
  shows "fst (PublisherThread_pass env sv) = Inl self_deadlock"
proof -
  obtain p where o: "cm_objects (sv_containerManager sv) ob = Some \<lparr> co_manager = fst i, co_storage = snd i \<rparr>"
    and h: "mg_heap (cm_managers (sv_containerManager sv) (fst i)) (snd i) = Some (SVector s, p)"
    and l: "sv_subscribers sv = [(i, [info])]" using w by (auto simp: watching_def)
  have "vs_Query a b TNone s = Inl self_deadlock" for a b
    by (cases "vs_locked s") (simp_all add: vs_Query_def vs_guarded_def vs_lock_def vs_GetRecordCount_def)
  then have "object_Query a b TNone ob (sv_containerManager sv) = Inl self_deadlock" for a b
    using o h by (simp add: object_Query_def storage_call_def object_call_def)
  then show ?thesis
    using assms(2-6) l
    by (auto simp: PublisherThread_pass_def process_event_def publish_snapshot_def subscription_at_def no_exception_def
        send_snapshot_def with_manager_def attempt_def)
qed

section \<open>An example\<close>

text \<open>The server of the examples, with its session in binary mode.\<close>

definition example_subscriber :: tio_server where
  "example_subscriber = example_server\<lparr> sv_sessions := [(1, example_session\<lparr> ts_binaryProtocol := True \<rparr>)] \<rparr>"

lemma example_list:
  "(case cm_objects example_cm 2 of
      None \<Rightarrow> False
    | Some c \<Rightarrow>
        (case mg_heap (cm_managers example_cm (co_manager c)) (co_storage c) of
           Some (SList s, p) \<Rightarrow> st_data s = [] \<and> st_sink s \<and> st_type s = ''volatile_list''
         | _ \<Rightarrow> False))"
  by code_simp

lemma example_list_storage:
  obtains i s p where
    "cm_objects (sv_containerManager example_subscriber) 2 = Some \<lparr> co_manager = fst i, co_storage = snd i \<rparr>"
    "mg_heap (cm_managers (sv_containerManager example_subscriber) (fst i)) (snd i) = Some (SList s, p)"
    "st_data s = []" "st_sink s" "st_type s = ''volatile_list''"
proof -
  obtain c where c: "cm_objects example_cm 2 = Some c" using example_list by (auto split: option.splits)
  then obtain s p where "mg_heap (cm_managers example_cm (co_manager c)) (co_storage c) = Some (SList s, p)"
    "st_data s = []" "st_sink s" "st_type s = ''volatile_list''"
    using example_list by (auto split: option.splits prod.splits any_storage.splits)
  then show thesis using c that [of "(co_manager c, co_storage c)" s p]
    by (cases c) (auto simp: example_subscriber_def example_server_def)
qed

lemma example_subscriber_session:
  assumes "list_all fits gss" and "int (total_size gss) < 2 ^ 30"
  shows "session_with example_subscriber 1 [] gss"
proof -
  let ?s = "example_session\<lparr> ts_binaryProtocol := True \<rparr>"
  have "session_holds [] ?s 0"
    using example_server_session(4) by (simp add: session_holds_def session_queue_def in_flight_def split: if_splits)
  moreover have "ts_pendingSendSize ?s = 0" by (simp add: example_session_def RegisterContainer_def TioTcpSession_new_def)
  ultimately show ?thesis using assms by (auto simp: session_with_def example_subscriber_def sm_inv_def roomy_def)
qed

lemma example_subscriber_queue: "sv_subscribers example_subscriber = []" "sv_eventQueue example_subscriber = []"
  by (simp_all add: example_subscriber_def example_server_def example_start_def server_start_def)

lemmas example_event_simps = stored_event_fields_def event_fields_def subscription_events_def record_events_def list_rows_def
  fits_def msg_size_def int_field_def data_field_def record_fields_def data_fields_def

text \<open>The same server with a map container instead.\<close>

definition example_map_cm :: container_manager where
  "example_map_cm = snd (CreateContainer ''volatile_map'' ''m'' (sv_containerManager example_start))"

definition example_map_subscriber :: tio_server where
  "example_map_subscriber = example_subscriber\<lparr> sv_containerManager := example_map_cm \<rparr>"

lemma example_map:
  "(case cm_objects example_map_cm 2 of
      None \<Rightarrow> False
    | Some c \<Rightarrow>
        (case mg_heap (cm_managers example_map_cm (co_manager c)) (co_storage c) of
           Some (SMap s, p) \<Rightarrow> st_data s = [] \<and> st_sink s \<and> st_type s = ''volatile_map''
         | _ \<Rightarrow> False))"
  by code_simp

lemma example_map_storage:
  obtains i s p where
    "cm_objects (sv_containerManager example_map_subscriber) 2 = Some \<lparr> co_manager = fst i, co_storage = snd i \<rparr>"
    "mg_heap (cm_managers (sv_containerManager example_map_subscriber) (fst i)) (snd i) = Some (SMap s, p)"
    "st_data s = []" "st_sink s" "st_type s = ''volatile_map''"
proof -
  obtain c where c: "cm_objects example_map_cm 2 = Some c" using example_map by (auto split: option.splits)
  then obtain s p where "mg_heap (cm_managers example_map_cm (co_manager c)) (co_storage c) = Some (SMap s, p)"
    "st_data s = []" "st_sink s" "st_type s = ''volatile_map''"
    using example_map by (auto split: option.splits prod.splits any_storage.splits)
  then show thesis using c that [of "(co_manager c, co_storage c)" s p]
    by (cases c) (auto simp: example_map_subscriber_def)
qed



theorem push_before_snapshot_sent_twice_witness:
  "\<exists>sv' i s' l r'. subscribe_run example_env (SubscriptionInfo_new [] 2 1 1 ''0'') [OpPushBack TNone (TInt 5) TNone] []
       example_subscriber = (Inr (), sv') \<and>
     watching sv' 2 i (SList s') l \<and> st_data s' = [(TInt 5, TNone)] \<and>
     replay_events ls_exec (subscription_events EVENT_CODE_PUSH_BACK (list_rows [(TInt 5, TNone)])
       [\<lparr> ev_code = EVENT_CODE_PUSH_BACK, ev_key = TInt 0, ev_value = TInt 5, ev_metadata = TNone \<rparr>])
         (storage_new [] ''copy'' ''volatile_list'') = Inr r' \<and> st_data r' = [(TInt 5, TNone), (TInt 5, TNone)]"
proof -
  obtain i s p where s: "cm_objects (sv_containerManager example_subscriber) 2 = Some \<lparr> co_manager = fst i, co_storage = snd i \<rparr>"
    "mg_heap (cm_managers (sv_containerManager example_subscriber) (fst i)) (snd i) = Some (SList s, p)"
    "st_data s = []" "st_sink s" "st_type s = ''volatile_list''" by (rule example_list_storage)
  let ?es = "subscription_events EVENT_CODE_PUSH_BACK (list_rows [(TInt 5, TNone)])
       [\<lparr> ev_code = EVENT_CODE_PUSH_BACK, ev_key = TInt 0, ev_value = TInt 5, ev_metadata = TNone \<rparr>]"
  have es: "?es = subscription_events EVENT_CODE_PUSH_BACK (list_rows (st_data s @ [(TInt 5, TNone)]))
       [\<lparr> ev_code = EVENT_CODE_PUSH_BACK, ev_key = TInt (of_nat (length (st_data s))), ev_value = TInt 5, ev_metadata = TNone \<rparr>]"
    using s(3) by simp
  have room: "session_with example_subscriber 1 [] (map (stored_event_fields 1) ?es)"
    by (rule example_subscriber_session) (simp_all add: example_event_simps)
  have "se_lexical_int example_env ''0'' = 0" "list_whole (st_data s)" "length (st_data s) < 2 ^ 31 - 1"
    "st_data (storage_new [] ''copy'' ''volatile_list'') = []" "\<not> Empty (TInt 5)"
    by (simp_all add: example_env_def list_whole_def s(3) storage_new_def Empty_def)
  from push_before_snapshot_sent_twice [OF example_subscriber_queue s(1,2) _ this(1) s(5,4) this(2,5,3) es room this(4), of TNone] s(3)
  obtain sv' s' l r' where
    "subscribe_run example_env (SubscriptionInfo_new [] 2 1 1 ''0'') [OpPushBack TNone (TInt 5) TNone] [] example_subscriber = (Inr (), sv')"
    "watching sv' 2 i (SList s') l" "st_data s' = [(TInt 5, TNone)]"
    "replay_events ls_exec ?es (storage_new [] ''copy'' ''volatile_list'') = Inr r'" "st_data r' = [(TInt 5, TNone), (TInt 5, TNone)]"
    by auto
  then show ?thesis by blast
qed

end
