(* ===== verification/TextProtocol.thy ===== *)
theory TextProtocol
  imports ServerSession
begin

text \<open>
  The text protocol: \<^verbatim>\<open>class Command\<close> (\<^verbatim>\<open>server/tio/Command.h\<close>, \<^verbatim>\<open>Command.cpp\<close>) and the answers and data fields
  of \<^verbatim>\<open>server/tio/TioTcpProtocol.h\<close>.  A line is a list of words; values travel behind the line, each with
  its size announced in the line.  What the code takes from Boost and from the output of floating point
  numbers is a parameter: \<^verbatim>\<open>boost::split\<close> at one separator and \<^verbatim>\<open>lexical_cast\<close>.  The predicate \<open>lexical_ok\<close>
  states what is relied on.  Texts are bytes; \<open>ascii\<close> gives the bytes of a literal.
\<close>

section \<open>Words and numbers\<close>

record lexical =
  lx_split :: "byte \<Rightarrow> byte list \<Rightarrow> byte list list"
  lx_unsigned :: "byte list \<Rightarrow> u32 option"
  lx_int :: "byte list \<Rightarrow> int option"
  lx_size :: "byte list \<Rightarrow> u64 option"
  lx_double :: "byte list \<Rightarrow> u64 option"
  lx_format_g :: "u64 \<Rightarrow> byte list"

definition lexical_cast :: "'a option \<Rightarrow> 'a cpp" where
  "lexical_cast r = (case r of None \<Rightarrow> Inl bad_lexical_cast | Some x \<Rightarrow> Inr x)"

text \<open>The pieces between the separators, at least one.\<close>

fun split_sep :: "byte \<Rightarrow> byte list \<Rightarrow> byte list list" where
  "split_sep sep [] = [[]]"
| "split_sep sep (c # cs) =
     (if c = sep then [] # split_sep sep cs
      else case split_sep sep cs of [] \<Rightarrow> [[c]] | w # ws \<Rightarrow> (c # w) # ws)"

definition lexical_ok :: "lexical \<Rightarrow> bool" where
  "lexical_ok lx \<longleftrightarrow>
     (\<forall>sep s. lx_split lx sep s = split_sep sep s) \<and>
     (\<forall>n. lx_unsigned lx (dec_nat (unat n)) = Some n) \<and>
     (\<forall>i. - (2 ^ 31) \<le> i \<and> i < 2 ^ 31 \<longrightarrow> lx_int lx (dec_int i) = Some i) \<and>
     (\<forall>n. lx_size lx (dec_nat (unat n)) = Some n)"


section \<open>Commands\<close>

record command =
  cmd_command :: "byte list"
  cmd_params :: "byte list list"
  cmd_source :: "byte list"
  cmd_data :: "byte list option"
  cmd_isHttp :: bool

definition Command_new :: command where
  "Command_new = \<lparr> cmd_command = [], cmd_params = [], cmd_source = [], cmd_data = None, cmd_isHttp = False \<rparr>"

definition Parse :: "lexical \<Rightarrow> byte list \<Rightarrow> command \<Rightarrow> command cpp" where
  "Parse lx source cmd =
     (case lx_split lx 32 (c_str source) of
        [] \<Rightarrow> Inl (invalid_argument ''not a command'')
      | w # ws \<Rightarrow>
          Inr (cmd\<lparr> cmd_source := c_str source, cmd_command := w, cmd_params := ws,
                   cmd_isHttp := (if ws \<noteq> [] \<and> last ws = ascii ''HTTP/1.1'' then True else cmd_isHttp cmd) \<rparr>))"

text \<open>\<^verbatim>\<open>GetDataBuffer\<close> makes an empty buffer when there is none.\<close>

definition GetDataBuffer :: "command \<Rightarrow> byte list" where
  "GetDataBuffer cmd = (case cmd_data cmd of None \<Rightarrow> [] | Some b \<Rightarrow> b)"

text \<open>\<^verbatim>\<open>EnsureMinSize\<close> and then the bytes read into the buffer.\<close>

definition fill_data_buffer :: "nat \<Rightarrow> byte list \<Rightarrow> command \<Rightarrow> command" where
  "fill_data_buffer n bs cmd =
     cmd\<lparr> cmd_data := Some (take n bs @ (if length (GetDataBuffer cmd) < n then [] else drop n (GetDataBuffer cmd))) \<rparr>"


section \<open>Answers\<close>

datatype answer_type = success | failure

definition MakeAnswerStart :: "answer_type \<Rightarrow> byte list \<Rightarrow> byte list \<Rightarrow> byte list" where
  "MakeAnswerStart type answer stream =
     stream @ ascii ''answer '' @ ascii (if type = success then ''ok'' else ''error'') @ ascii '' '' @ c_str answer"

definition MakeAnswerEnd :: "byte list \<Rightarrow> byte list" where
  "MakeAnswerEnd stream = stream @ crlf"

definition MakeAnswer :: "answer_type \<Rightarrow> byte list \<Rightarrow> byte list \<Rightarrow> byte list" where
  "MakeAnswer type answer stream = MakeAnswerEnd (MakeAnswerStart type answer stream)"

definition MakeAnswer2 :: "answer_type \<Rightarrow> byte list \<Rightarrow> byte list \<Rightarrow> byte list \<Rightarrow> byte list" where
  "MakeAnswer2 type answer1 answer2 stream = MakeAnswer type (answer1 @ ascii '' '' @ answer2) stream"

definition MakeAnswer3 :: "answer_type \<Rightarrow> byte list \<Rightarrow> byte list \<Rightarrow> byte list \<Rightarrow> byte list \<Rightarrow> byte list" where
  "MakeAnswer3 type answer1 answer2 answer3 stream =
     MakeAnswerEnd (MakeAnswerStart type [] stream @ answer1 @ ascii '' '' @ answer2 @ ascii '' '' @ answer3)"

definition MakeAnswerRange :: "byte list list \<Rightarrow> answer_type \<Rightarrow> byte list \<Rightarrow> byte list \<Rightarrow> byte list" where
  "MakeAnswerRange words type answer stream =
     MakeAnswerEnd (MakeAnswerStart type answer stream @ concat (map (\<lambda>w. 32 # w) words))"

definition GenerateSimpleOkAnswer :: "byte list" where
  "GenerateSimpleOkAnswer = ascii ''answer ok'' @ crlf"

text \<open>One field in the announcing line, and its line of data.\<close>

definition field_header :: "lexical \<Rightarrow> string \<Rightarrow> tio_data \<Rightarrow> byte list" where
  "field_header lx label d =
     (if Empty d then []
      else ascii '' '' @ ascii label @ ascii '' '' @ ascii (GetDataTypeAsString d) @ ascii '' '' @
           dec_nat (length (TioDataToString (lx_format_g lx) d)))"

definition field_line :: "lexical \<Rightarrow> tio_data \<Rightarrow> byte list" where
  "field_line lx d = (if Empty d then [] else TioDataToString (lx_format_g lx) d @ crlf)"

definition SerializeData :: "lexical \<Rightarrow> tio_data \<Rightarrow> tio_data \<Rightarrow> tio_data \<Rightarrow> byte list \<Rightarrow> byte list" where
  "SerializeData lx key v metadata stream =
     (if Empty key \<and> Empty v \<and> Empty metadata then stream
      else stream @ field_header lx ''key'' key @ field_header lx ''value'' v @ field_header lx ''metadata'' metadata @
           crlf @ field_line lx key @ field_line lx v @ field_line lx metadata)"

definition MakeEventAnswer :: "lexical \<Rightarrow> byte list \<Rightarrow> u32 \<Rightarrow> tio_data \<Rightarrow> tio_data \<Rightarrow> tio_data \<Rightarrow> byte list \<Rightarrow> byte list" where
  "MakeEventAnswer lx eventName handle key v metadata stream =
     SerializeData lx key v metadata
       (stream @ ascii ''event '' @ dec_nat (unat handle) @ ascii '' '' @ eventName)"

definition MakeDataAnswer :: "lexical \<Rightarrow> tio_data \<Rightarrow> tio_data \<Rightarrow> tio_data \<Rightarrow> byte list \<Rightarrow> byte list" where
  "MakeDataAnswer lx key v metadata stream =
     SerializeData lx key v metadata (MakeAnswerStart success (ascii ''data'') stream)"


section \<open>Fields\<close>

definition IsValidFieldName :: "byte list \<Rightarrow> bool" where
  "IsValidFieldName fieldName \<longleftrightarrow>
     fieldName = ascii ''key'' \<or> fieldName = ascii ''value'' \<or> fieldName = ascii ''metadata''"

record field_info =
  fi_name :: "byte list"
  fi_type :: "byte list"
  fi_size :: u64

text \<open>The size and the total are 64 bits wide and wrap.\<close>

fun ExtractFieldSet :: "lexical \<Rightarrow> byte list list \<Rightarrow> (field_info list \<times> u64) cpp" where
  "ExtractFieldSet lx [] = Inr ([], 0)"
| "ExtractFieldSet lx [name] =
     (if \<not> IsValidFieldName name then Inl (invalid_argument ''invalid field name'')
      else Inl (invalid_argument ''invalid number of parameters''))"
| "ExtractFieldSet lx [name, type] =
     (if \<not> IsValidFieldName name then Inl (invalid_argument ''invalid field name'')
      else Inl (invalid_argument ''invalid number of parameters''))"
| "ExtractFieldSet lx (name # type # sz # rest) =
     (if \<not> IsValidFieldName name then Inl (invalid_argument ''invalid field name'')
      else
        bind_res (lexical_cast (lx_size lx sz)) (\<lambda>n.
        bind_res (ExtractFieldSet lx rest) (\<lambda>(fs, total).
          Inr (\<lparr> fi_name = name, fi_type = type, fi_size = n \<rparr> # fs, n + 2 + total))))"

text \<open>\<open>buffer\<close> is what is left of the received data; reading past it is undefined behaviour.\<close>

definition SetTioData :: "lexical \<Rightarrow> field_info \<Rightarrow> byte list \<Rightarrow> tio_data cpp" where
  "SetTioData lx f buffer =
     (if length buffer < unat (fi_size f) then Inl (undefined_behaviour ''read past the data buffer'')
      else
        let str = take (unat (fi_size f)) buffer in
        if fi_type f = ascii ''int''
        then bind_res (lexical_cast (lx_int lx str)) (\<lambda>i. Inr (TInt (word_of_int i)))
        else if fi_type f = ascii ''double''
        then bind_res (lexical_cast (lx_double lx str)) (\<lambda>d. Inr (TDouble d))
        else if fi_type f = ascii ''string'' then Inr (TString str)
        else Inl (invalid_argument ''invalid data type''))"

fun ExtractFieldsFromBuffer :: "lexical \<Rightarrow> field_info list \<Rightarrow> byte list \<Rightarrow> tio_record \<Rightarrow> tio_record cpp" where
  "ExtractFieldsFromBuffer lx [] buffer kvm = Inr kvm"
| "ExtractFieldsFromBuffer lx (f # fs) buffer (key, v, metadata) =
     bind_res
       (if fi_name f = ascii ''key''
        then bind_res (SetTioData lx f buffer) (\<lambda>d. Inr (d, v, metadata))
        else if fi_name f = ascii ''value''
        then bind_res (SetTioData lx f buffer) (\<lambda>d. Inr (key, d, metadata))
        else if fi_name f = ascii ''metadata''
        then bind_res (SetTioData lx f buffer) (\<lambda>d. Inr (key, v, d))
        else Inr (key, v, metadata))
       (\<lambda>kvm. ExtractFieldsFromBuffer lx fs (drop (unat (fi_size f) + 2) buffer) kvm)"

text \<open>The overload of \<^verbatim>\<open>ExtractFieldSet\<close> in \<^verbatim>\<open>TioTcpServer.cpp\<close>: the size that is missing, or 0 and the values.\<close>

definition ExtractFieldSetFrom :: "lexical \<Rightarrow> byte list list \<Rightarrow> byte list \<Rightarrow> tio_record \<Rightarrow> (u64 \<times> tio_record) cpp" where
  "ExtractFieldSetFrom lx words buffer kvm =
     bind_res (ExtractFieldSet lx words) (\<lambda>(fs, total).
       if of_nat (length buffer) < total then Inr (total, kvm)
       else bind_res (ExtractFieldsFromBuffer lx fs buffer kvm) (\<lambda>kvm. Inr (0, kvm)))"


section \<open>Reading an answer\<close>

datatype protocol_answer_type = TypeUndefined | TypeAnswer | TypeEvent

record protocol_answer =
  pa_rawRequest :: "byte list"
  pa_pendingDataSize :: u64
  pa_type :: protocol_answer_type
  pa_rawAnswerLine :: "byte list"
  pa_eventName :: "byte list"
  pa_parameter :: "byte list"
  pa_parameterType :: "byte list"
  pa_fieldSet :: "field_info list"
  pa_error :: bool
  pa_errorMessage :: "byte list"
  pa_key :: tio_data
  pa_value :: tio_data
  pa_metadata :: tio_data

definition ProtocolAnswer_reset :: protocol_answer where
  "ProtocolAnswer_reset =
     \<lparr> pa_rawRequest = [], pa_pendingDataSize = 0, pa_type = TypeUndefined, pa_rawAnswerLine = [], pa_eventName = [],
       pa_parameter = [], pa_parameterType = [], pa_fieldSet = [], pa_error = False, pa_errorMessage = [],
       pa_key = TNone, pa_value = TNone, pa_metadata = TNone \<rparr>"

definition take_fields :: "lexical \<Rightarrow> byte list list \<Rightarrow> protocol_answer \<Rightarrow> protocol_answer cpp" where
  "take_fields lx words a =
     bind_res (ExtractFieldSet lx words) (\<lambda>(fs, total).
       Inr (a\<lparr> pa_fieldSet := fs, pa_pendingDataSize := total \<rparr>))"

definition ParseAnswerLine_answer :: "lexical \<Rightarrow> byte list list \<Rightarrow> protocol_answer \<Rightarrow> protocol_answer cpp" where
  "ParseAnswerLine_answer lx words a =
     (case words of
        [] \<Rightarrow> Inl (undefined_behaviour ''end iterator dereferenced'')
      | result # rest \<Rightarrow>
          if result = ascii ''error''
          then Inr (a\<lparr> pa_error := True, pa_errorMessage := concat (map (\<lambda>w. w @ [32]) rest) \<rparr>)
          else if result \<noteq> ascii ''ok''
          then Inl (invalid_argument ''invalid line. Result must be \"ok\" or \"error\"'')
          else
            (case rest of
               [] \<Rightarrow> Inr a
             | answerType # params \<Rightarrow>
                 if answerType = ascii ''data'' then take_fields lx params a
                 else if answerType \<in> {ascii ''handle'', ascii ''count'', ascii ''type''}
                 then
                   (case params of
                      [] \<Rightarrow> Inl (invalid_argument ''invalid answer. dataType specified but no data.'')
                    | p # _ \<Rightarrow> Inr (a\<lparr> pa_parameterType := answerType, pa_parameter := p \<rparr>))
                 else Inr a))"

definition ParseAnswerLine :: "lexical \<Rightarrow> byte list \<Rightarrow> protocol_answer cpp" where
  "ParseAnswerLine lx line =
     (if line = [] then Inl (invalid_argument ''empty command line'')
      else
        let line = (if last line = 13 then butlast line else line);
            a = ProtocolAnswer_reset\<lparr> pa_rawAnswerLine := line \<rparr>
        in
        case lx_split lx 32 line of
          [] \<Rightarrow> Inl (undefined_behaviour ''end iterator dereferenced'')
        | answerType # words \<Rightarrow>
            if answerType = ascii ''answer''
            then ParseAnswerLine_answer lx words (a\<lparr> pa_type := TypeAnswer \<rparr>)
            else if answerType = ascii ''event''
            then
              (case words of
                 [] \<Rightarrow> Inl (runtime_error ''invalid answer: no handle value'')
               | [_] \<Rightarrow> Inl (runtime_error ''invalid answer: no data'')
               | handle # eventName # params \<Rightarrow>
                   take_fields lx params (a\<lparr> pa_type := TypeEvent, pa_parameterType := ascii ''handle'',
                                             pa_parameter := handle, pa_eventName := eventName \<rparr>))
            else Inr a)"

end
