(* ===== verification/TextFields.thy ===== *)
theory TextFields
  imports TextProtocol
begin

text \<open>
  What the text protocol keeps of the values it carries: words are split as they were joined, announced fields
  are read back from the data behind the line, and an answer written by the server is parsed by
  \<^verbatim>\<open>ParseAnswerLine\<close> and \<^verbatim>\<open>ExtractFieldsFromBuffer\<close> to the values it was made from.
\<close>

section \<open>Words\<close>

fun join_words :: "byte list list \<Rightarrow> byte list" where
  "join_words [] = []"
| "join_words (w # ws) = w @ concat (map (\<lambda>w. 32 # w) ws)"

lemma split_sep_no_sep: "sep \<notin> set w \<Longrightarrow> split_sep sep w = [w]"
  by (induction w) auto

lemma split_sep_word: "sep \<notin> set w \<Longrightarrow> split_sep sep (w @ sep # s) = w # split_sep sep s"
  by (induction w) auto

lemma split_sep_join:
  "\<forall>w\<in>set ws. 32 \<notin> set w \<Longrightarrow> ws \<noteq> [] \<Longrightarrow> split_sep 32 (join_words ws) = ws"
proof (induction ws rule: induct_list012)
  case (3 v w ws)
  have "join_words (v # w # ws) = v @ 32 # join_words (w # ws)" by simp
  then show ?case using 3 by (simp add: split_sep_word del: join_words.simps)
qed (simp_all add: split_sep_no_sep)

lemma split_sep_nonempty [simp]: "split_sep sep s \<noteq> []"
  by (induction s) (auto split: list.splits)

lemma digit_range: "n < 10 \<Longrightarrow> (48 :: byte) \<le> of_nat (48 + n) \<and> (of_nat (48 + n) :: byte) \<le> 57"
  by (simp add: word_le_nat_alt unat_of_nat del: of_nat_add)

lemma dec_nat_range: "\<forall>c\<in>set (dec_nat n). 48 \<le> c \<and> c \<le> 57"
proof (induction n rule: dec_nat.induct)
  case (1 n)
  show ?case
  proof (cases "n < 10")
    case True
    then show ?thesis using digit_range [OF True] by (subst dec_nat.simps) (simp del: of_nat_add)
  next
    case False
    then show ?thesis using 1 digit_range [of "n mod 10"] by (subst dec_nat.simps) (auto simp del: of_nat_add)
  qed
qed

lemma dec_nat_no_space [simp]: "32 \<notin> set (dec_nat n)"
  using dec_nat_range [of n] by (auto simp: word_le_nat_alt)

lemma lexical_okD:
  assumes "lexical_ok lx"
  shows "lx_split lx sep s = split_sep sep s" "lx_unsigned lx (dec_nat (unat h)) = Some h"
    "- (2 ^ 31) \<le> i \<Longrightarrow> i < 2 ^ 31 \<Longrightarrow> lx_int lx (dec_int i) = Some i"
    "k < 2 ^ 64 \<Longrightarrow> lx_size lx (dec_nat k) = Some (of_nat k)"
proof -
  show "k < 2 ^ 64 \<Longrightarrow> lx_size lx (dec_nat k) = Some (of_nat k)"
  proof -
    assume "k < 2 ^ 64"
    then have "unat (of_nat k :: u64) = k" by (simp add: unat_of_nat)
    then show "lx_size lx (dec_nat k) = Some (of_nat k)"
      using assms unfolding lexical_ok_def by metis
  qed
qed (use assms in \<open>auto simp: lexical_ok_def\<close>)


section \<open>Announced fields\<close>

definition field_text :: "lexical \<Rightarrow> tio_data \<Rightarrow> byte list" where
  "field_text lx d = TioDataToString (lx_format_g lx) d"

definition field_words :: "lexical \<Rightarrow> string \<times> tio_data \<Rightarrow> byte list list" where
  "field_words lx f = [ascii (fst f), ascii (GetDataTypeAsString (snd f)), dec_nat (length (field_text lx (snd f)))]"

definition field_info_of :: "lexical \<Rightarrow> string \<times> tio_data \<Rightarrow> field_info" where
  "field_info_of lx f = \<lparr> fi_name = ascii (fst f), fi_type = ascii (GetDataTypeAsString (snd f)),
     fi_size = of_nat (length (field_text lx (snd f))) \<rparr>"

definition field_bytes :: "lexical \<Rightarrow> (string \<times> tio_data) list \<Rightarrow> byte list" where
  "field_bytes lx fs = concat (map (\<lambda>f. field_text lx (snd f) @ crlf) fs)"

text \<open>A double comes back only when the library reads what it printed.\<close>

definition readable :: "lexical \<Rightarrow> tio_data \<Rightarrow> bool" where
  "readable lx d \<longleftrightarrow> (case d of TNone \<Rightarrow> False | TDouble x \<Rightarrow> lx_double lx (lx_format_g lx x) = Some x | _ \<Rightarrow> True)"

definition field_ok :: "lexical \<Rightarrow> string \<times> tio_data \<Rightarrow> bool" where
  "field_ok lx f \<longleftrightarrow> fst f \<in> {''key'', ''value'', ''metadata''} \<and> readable lx (snd f)"

fun put_field :: "string \<times> tio_data \<Rightarrow> tio_record \<Rightarrow> tio_record" where
  "put_field (l, d) (k, v, m) =
     (if l = ''key'' then (d, v, m) else if l = ''value'' then (k, d, m)
      else if l = ''metadata'' then (k, v, d) else (k, v, m))"

lemma ascii_inject [simp]: "ascii s = ascii t \<longleftrightarrow> s = t"
  by (metis of_ascii_ascii)

lemma ExtractFieldSet_words:
  assumes "lexical_ok lx" and "list_all (field_ok lx) fs" and "length (field_bytes lx fs) < 2 ^ 64"
  shows "ExtractFieldSet lx (concat (map (field_words lx) fs)) =
    Inr (map (field_info_of lx) fs, of_nat (length (field_bytes lx fs)))"
  using assms(2,3)
proof (induction fs)
  case Nil
  then show ?case by (simp add: field_bytes_def)
next
  case (Cons f fs)
  have n: "length (field_text lx (snd f)) + 2 + length (field_bytes lx fs) < 2 ^ 64"
    using Cons.prems(2) by (simp add: field_bytes_def)
  then have "lx_size lx (dec_nat (length (field_text lx (snd f)))) = Some (of_nat (length (field_text lx (snd f))))"
    by (intro lexical_okD [OF assms(1)]) simp
  moreover have "ExtractFieldSet lx (concat (map (field_words lx) fs)) =
      Inr (map (field_info_of lx) fs, of_nat (length (field_bytes lx fs)))"
    using Cons n by simp
  moreover have "field_bytes lx (f # fs) = field_text lx (snd f) @ crlf @ field_bytes lx fs" by (simp add: field_bytes_def)
  moreover have "concat (map (field_words lx) (f # fs)) = ascii (fst f) # ascii (GetDataTypeAsString (snd f)) #
      dec_nat (length (field_text lx (snd f))) # concat (map (field_words lx) fs)" by (simp add: field_words_def)
  moreover have "IsValidFieldName (ascii (fst f))" using Cons.prems(1) by (auto simp: field_ok_def IsValidFieldName_def)
  ultimately show ?case by (simp add: lexical_cast_def field_info_of_def)
qed

lemma SetTioData_text:
  assumes "lexical_ok lx" and "readable lx d" and "length (field_text lx d) < 2 ^ 64"
  shows "SetTioData lx (field_info_of lx (l, d)) (field_text lx d @ rest) = Inr d"
proof -
  have "unat (of_nat (length (field_text lx d)) :: u64) = length (field_text lx d)"
    using assms(3) by (simp add: unat_of_nat)
  moreover have "lx_int lx (dec_int (sint i)) = Some (sint i)" for i :: u32
    using lexical_okD(3) [OF assms(1)] sint_ge [of i] sint_lt [of i] by simp
  ultimately show ?thesis
    using assms(2)
    by (cases d) (simp_all add: SetTioData_def field_info_of_def field_text_def TioDataToString_def lexical_cast_def readable_def)
qed

lemma ExtractFieldsFromBuffer_text:
  assumes "lexical_ok lx" and "list_all (field_ok lx) fs" and "length (field_bytes lx fs) < 2 ^ 64"
  shows "ExtractFieldsFromBuffer lx (map (field_info_of lx) fs) (field_bytes lx fs) kvm = Inr (fold put_field fs kvm)"
  using assms(2,3)
proof (induction fs arbitrary: kvm)
  case (Cons f fs)
  obtain l d where f: "f = (l, d)" by force
  obtain k v m where kvm: "kvm = (k, v, m)" by (metis prod_cases3)
  have n: "length (field_text lx d) < 2 ^ 64" "length (field_bytes lx fs) < 2 ^ 64"
    using Cons.prems(2) by (simp_all add: field_bytes_def f)
  then have u: "unat (fi_size (field_info_of lx (l, d))) = length (field_text lx d)"
    by (simp add: field_info_of_def unat_of_nat)
  have b: "field_bytes lx (f # fs) = field_text lx d @ crlf @ field_bytes lx fs" by (simp add: field_bytes_def f)
  have s: "SetTioData lx (field_info_of lx (l, d)) (field_bytes lx (f # fs)) = Inr d"
    unfolding b using Cons.prems(1) n by (intro SetTioData_text [OF assms(1)]) (simp_all add: field_ok_def f)
  have "drop (unat (fi_size (field_info_of lx (l, d))) + 2) (field_bytes lx (f # fs)) = field_bytes lx fs"
    by (simp add: b u)
  moreover have "fi_name (field_info_of lx (l, d)) = ascii l" by (simp add: field_info_of_def)
  ultimately show ?case
    using s Cons.IH [OF _ n(2)] Cons.prems(1) unfolding f kvm by (auto simp: field_ok_def)
qed simp


section \<open>A data answer and its reader\<close>

definition record_texts :: "tio_data \<Rightarrow> tio_data \<Rightarrow> tio_data \<Rightarrow> (string \<times> tio_data) list" where
  "record_texts key v metadata =
     filter (\<lambda>f. \<not> Empty (snd f)) [(''key'', key), (''value'', v), (''metadata'', metadata)]"

lemma Empty_iff [simp]: "Empty d \<longleftrightarrow> d = TNone"
  by (cases d) (simp_all add: Empty_def)

lemma put_record_texts: "fold put_field (record_texts k v m) (TNone, TNone, TNone) = (k, v, m)"
  by (simp add: record_texts_def)

lemma SerializeData_texts:
  assumes "\<not> (Empty k \<and> Empty v \<and> Empty m)"
  shows "SerializeData lx k v m stream = stream @ concat (map (\<lambda>w. 32 # w) (concat (map (field_words lx) (record_texts k v m)))) @
    crlf @ field_bytes lx (record_texts k v m)"
  using assms
  by (auto simp: SerializeData_def record_texts_def field_words_def field_bytes_def field_header_def field_line_def
      field_text_def ascii_def)

lemma ascii_space [simp]: "32 \<in> set (ascii s) \<longleftrightarrow> CHR '' '' \<in> set s"
proof -
  have "c = CHR '' ''" if "(of_char c :: byte) = 32" for c
  proof -
    have "ascii [c] = ascii '' ''" using that by (simp add: ascii_def)
    then show ?thesis unfolding ascii_inject by simp
  qed
  then show ?thesis by (force simp: ascii_def)
qed

lemma field_words_no_space: "field_ok lx f \<Longrightarrow> w \<in> set (field_words lx f) \<Longrightarrow> 32 \<notin> set w"
  by (cases "snd f") (auto simp: field_ok_def field_words_def)

lemma take_fields_texts:
  assumes "lexical_ok lx" and "list_all (field_ok lx) fs" and "length (field_bytes lx fs) < 2 ^ 64"
  shows "take_fields lx (concat (map (field_words lx) fs)) a =
    Inr (a\<lparr> pa_fieldSet := map (field_info_of lx) fs, pa_pendingDataSize := of_nat (length (field_bytes lx fs)) \<rparr>)"
  by (simp add: take_fields_def ExtractFieldSet_words [OF assms])



section \<open>A reading of decimal numbers\<close>

definition parse_nat :: "nat \<Rightarrow> byte list \<Rightarrow> nat option" where
  "parse_nat bound bs =
     (if bs \<noteq> [] \<and> list_all (\<lambda>c. 48 \<le> c \<and> c \<le> 57) bs \<and> read_dec_nat bs < bound then Some (read_dec_nat bs) else None)"

definition parse_int :: "byte list \<Rightarrow> int option" where
  "parse_int bs =
     (case bs of
        [] \<Rightarrow> None
      | c # cs \<Rightarrow>
          if c = 45 then map_option (\<lambda>n. - int n) (parse_nat (2 ^ 31 + 1) cs)
          else map_option int (parse_nat (2 ^ 31) bs))"

definition decimal_lexical :: lexical where
  "decimal_lexical = \<lparr> lx_split = split_sep, lx_unsigned = (\<lambda>s. map_option of_nat (parse_nat (2 ^ 32) s)),
     lx_int = parse_int, lx_size = (\<lambda>s. map_option of_nat (parse_nat (2 ^ 64) s)),
     lx_double = (\<lambda>_. None), lx_format_g = (\<lambda>_. []) \<rparr>"

lemma parse_nat_dec: "n < bound \<Longrightarrow> parse_nat bound (dec_nat n) = Some n"
  using dec_nat_range [of n] dec_nat_hd [of n] by (simp add: parse_nat_def read_dec_nat_dec_nat list_all_iff)

lemma parse_int_dec:
  assumes "- (2 ^ 31) \<le> i" and "i < 2 ^ 31"
  shows "parse_int (dec_int i) = Some i"
proof (cases "i < 0")
  case True
  then have "parse_nat (2 ^ 31 + 1) (dec_nat (nat (- i))) = Some (nat (- i))" using assms by (intro parse_nat_dec) simp
  then show ?thesis using True by (simp add: parse_int_def dec_int_def)
next
  case False
  obtain c cs where c: "dec_nat (nat i) = c # cs" "c \<noteq> 45"
    using dec_nat_hd [of "nat i"] by (cases "dec_nat (nat i)") auto
  have "parse_nat (2 ^ 31) (dec_nat (nat i)) = Some (nat i)" using assms False by (intro parse_nat_dec) simp
  then show ?thesis using False c by (simp add: parse_int_def dec_int_def)
qed

lemma decimal_lexical_ok: "lexical_ok decimal_lexical"
proof -
  have "unat n < 2 ^ 32" for n :: u32 using unsigned_less [of n, where ?'a = nat] by simp
  moreover have "unat n < 2 ^ 64" for n :: u64 using unsigned_less [of n, where ?'a = nat] by simp
  ultimately show ?thesis
    by (simp add: lexical_ok_def decimal_lexical_def parse_nat_dec parse_int_dec)
qed


text \<open>
  C39: the size of a field is added to the total in 64 bits: a field that announces \<open>2 ^ 64 - 2\<close> bytes makes the total
  zero, so the server asks for no data and reads the value from behind the end of its empty buffer.
\<close>

theorem field_size_wraps:
  assumes "lexical_ok lx" and "IsValidFieldName name" and "length buffer < 2 ^ 64 - 2"
  shows "ExtractFieldSet lx [name, type, dec_nat (2 ^ 64 - 2)] =
      Inr ([\<lparr> fi_name = name, fi_type = type, fi_size = - 2 \<rparr>], 0) \<and>
    ExtractFieldSetFrom lx [name, type, dec_nat (2 ^ 64 - 2)] buffer kvm =
      Inl (undefined_behaviour ''read past the data buffer'')"
proof -
  have "lx_size lx (dec_nat (2 ^ 64 - 2)) = Some (of_nat (2 ^ 64 - 2))" by (rule lexical_okD(4) [OF assms(1)]) simp
  moreover have "(of_nat (2 ^ 64 - 2) :: u64) = - 2" by simp
  ultimately have e: "ExtractFieldSet lx [name, type, dec_nat (2 ^ 64 - 2)] =
      Inr ([\<lparr> fi_name = name, fi_type = type, fi_size = - 2 \<rparr>], 0)"
    using assms(2) by (simp add: lexical_cast_def)
  have "unat (- 2 :: u64) = 2 ^ 64 - 2" by simp
  then have "SetTioData lx \<lparr> fi_name = name, fi_type = type, fi_size = - 2 \<rparr> buffer =
      Inl (undefined_behaviour ''read past the data buffer'')"
    using assms(3) by (simp add: SetTioData_def)
  then show ?thesis
    using e assms(2) by (cases kvm) (auto simp: ExtractFieldSetFrom_def IsValidFieldName_def)
qed

theorem field_size_wraps_witness:
  "ExtractFieldSetFrom decimal_lexical [ascii ''key'', ascii ''string'', dec_nat (2 ^ 64 - 2)] [] (TNone, TNone, TNone) =
     Inl (undefined_behaviour ''read past the data buffer'')"
  using field_size_wraps [OF decimal_lexical_ok, of "ascii ''key''" "[]" "ascii ''string''" "(TNone, TNone, TNone)"]
  by (simp add: IsValidFieldName_def)

end
