(* ===== verification/TextCommands.thy ===== *)
theory TextCommands
  imports TextProtocol ServerCommands
begin

text \<open>
  The commands of the text protocol (\<^verbatim>\<open>TioTcpServer::OnTextCommand\<close> and the handlers of its dispatch map in
  \<^verbatim>\<open>server/tio/TioTcpServer.cpp\<close>).  A handler gets the command and the session and gives the text it wrote
  to the answer stream and the number of bytes of data it still needs.  Handlers that answer by themselves
  (queries and groups) leave the stream empty.
\<close>

section \<open>Answers and checks\<close>

type_synonym text_answer = "byte list \<times> u64"

definition reply :: "byte list \<Rightarrow> tio_server \<Rightarrow> text_answer cpp \<times> tio_server" where
  "reply answer sv = (Inr (answer, 0), sv)"

definition reply_ok :: "tio_server \<Rightarrow> text_answer cpp \<times> tio_server" where
  "reply_ok = reply (MakeAnswer success [] [])"

definition reply_error :: "byte list \<Rightarrow> tio_server \<Rightarrow> text_answer cpp \<times> tio_server" where
  "reply_error description = reply (MakeAnswer failure description [])"

text \<open>\<^verbatim>\<open>catch(std::exception&)\<close>.\<close>

definition catching :: "(cpp_error \<Rightarrow> tio_server \<Rightarrow> 'a cpp \<times> tio_server) \<Rightarrow> 'a cpp \<times> tio_server \<Rightarrow> 'a cpp \<times> tio_server" where
  "catching f r = (case r of (Inl e, sv) \<Rightarrow> if std_exception e then f e sv else (Inl e, sv) | (Inr x, sv) \<Rightarrow> (Inr x, sv))"

text \<open>A \<^verbatim>\<open>try\<close> block around the first part of a handler only.\<close>

definition try_then :: "'a cpp \<times> tio_server \<Rightarrow> (cpp_error \<Rightarrow> tio_server \<Rightarrow> 'b cpp \<times> tio_server) \<Rightarrow>
    ('a \<Rightarrow> tio_server \<Rightarrow> 'b cpp \<times> tio_server) \<Rightarrow> 'b cpp \<times> tio_server" where
  "try_then r f k = (case r of (Inl e, sv) \<Rightarrow> if std_exception e then f e sv else (Inl e, sv) | (Inr x, sv) \<Rightarrow> k x sv)"

datatype parameter_count_check = exact | at_least

definition CheckParameterCount :: "command \<Rightarrow> nat \<Rightarrow> parameter_count_check \<Rightarrow> bool" where
  "CheckParameterCount cmd requiredParameters type =
     (if type = exact \<and> length (cmd_params cmd) = requiredParameters then True
      else if type = at_least \<and> requiredParameters \<le> length (cmd_params cmd) then True
      else False)"

definition session_tokens :: "nat \<Rightarrow> tio_server \<Rightarrow> string list cpp \<times> tio_server" where
  "session_tokens sid = with_session sid (\<lambda>s. (Inr (GetTokens s), s))"

definition server_CheckCommandAccess :: "string \<Rightarrow> nat \<Rightarrow> (tio_server \<Rightarrow> text_answer cpp \<times> tio_server) \<Rightarrow>
    tio_server \<Rightarrow> text_answer cpp \<times> tio_server" where
  "server_CheckCommandAccess command sid k sv =
     cm_bind (session_tokens sid sv) (\<lambda>tokens sv.
       if CheckCommandAccess command tokens (sv_auth sv) = Allow then k sv
       else reply_error (ascii ''access denied'') sv)"

definition server_CheckObjectAccess :: "string \<Rightarrow> string \<Rightarrow> string \<Rightarrow> nat \<Rightarrow> (tio_server \<Rightarrow> text_answer cpp \<times> tio_server) \<Rightarrow>
    tio_server \<Rightarrow> text_answer cpp \<times> tio_server" where
  "server_CheckObjectAccess objectType objectName command sid k sv =
     cm_bind (session_tokens sid sv) (\<lambda>tokens sv.
       if CheckObjectAccess objectType objectName command tokens (sv_auth sv) = Allow then k sv
       else reply_error (ascii ''access denied'') sv)"

text \<open>The container of the handle in the first parameter.\<close>

definition handle_parameter :: "lexical \<Rightarrow> command \<Rightarrow> u32 cpp" where
  "handle_parameter lx cmd = lexical_cast (lx_unsigned lx (hd (cmd_params cmd)))"

definition registered :: "u32 \<Rightarrow> nat \<Rightarrow> tio_server \<Rightarrow> nat cpp \<times> tio_server" where
  "registered handle sid = with_session sid (\<lambda>s. (GetRegisteredContainer handle s, s))"

definition registered_info :: "u32 \<Rightarrow> nat \<Rightarrow> tio_server \<Rightarrow> (nat \<times> string \<times> string) cpp \<times> tio_server" where
  "registered_info handle sid sv =
     with_session sid (\<lambda>s. (GetRegisteredContainerInfo handle (sv_containerManager sv) s, s)) sv"

definition with_handle :: "lexical \<Rightarrow> command \<Rightarrow> nat \<Rightarrow> (nat \<Rightarrow> tio_server \<Rightarrow> text_answer cpp \<times> tio_server) \<Rightarrow>
    tio_server \<Rightarrow> text_answer cpp \<times> tio_server" where
  "with_handle lx cmd sid k sv =
     try_then (cm_bind (handle_parameter lx cmd, sv) (\<lambda>handle sv. registered handle sid sv))
       (\<lambda>e sv. reply_error (ascii ''invalid handle'') sv) k"

definition invalid_count :: "tio_server \<Rightarrow> text_answer cpp \<times> tio_server" where
  "invalid_count = reply_error (ascii ''invalid parameter count'')"


section \<open>Queries\<close>

text \<open>\<^verbatim>\<open>continue\<close> skips the test of \<^verbatim>\<open>MoveNext\<close>, and the next \<^verbatim>\<open>GetRecord\<close> ends the loop.\<close>

fun query_ex_rows :: "lexical \<Rightarrow> u32 \<Rightarrow> (byte list \<Rightarrow> bool cpp) \<Rightarrow> u32 \<Rightarrow> u32 \<Rightarrow> tio_record list \<Rightarrow> nat \<Rightarrow> tio_server \<Rightarrow>
    unit cpp \<times> tio_server" where
  "query_ex_rows lx queryId e maxRecords a [] sid sv = (Inr (), sv)"
| "query_ex_rows lx queryId e maxRecords a ((k, v, md) # rows) sid sv =
     (if \<not> a < maxRecords then (Inr (), sv)
      else if GetDataType k \<noteq> StringT then query_ex_rows lx queryId e maxRecords a rows sid sv
      else
        cm_bind (bind_res (AsSz k) e, sv) (\<lambda>found sv.
        if found
        then
          cm_bind (with_session sid (\<lambda>s. (Inr (), SendTextResultSetItem (lx_format_g lx) queryId k v md s)) sv) (\<lambda>_ sv.
            query_ex_rows lx queryId e maxRecords (a + 1) rows sid sv)
        else query_ex_rows lx queryId e maxRecords a rows sid sv))"

definition OnCommand_QueryEx :: "server_env \<Rightarrow> lexical \<Rightarrow> command \<Rightarrow> nat \<Rightarrow> tio_server \<Rightarrow> text_answer cpp \<times> tio_server" where
  "OnCommand_QueryEx env lx cmd sid sv =
     (if \<not> CheckParameterCount cmd 2 at_least then invalid_count sv
      else
        with_handle lx cmd sid (\<lambda>ob sv.
        try_then
          (if 2 < length (cmd_params cmd) then lexical_cast (lx_unsigned lx (cmd_params cmd ! 2)) else Inr 0xFFFFFFFF, sv)
          (\<lambda>_ sv. reply_error (ascii ''invalid record limit parameter'') sv) (\<lambda>maxRecords sv.
        cm_bind (se_regex env (cmd_params cmd ! 1), sv) (\<lambda>e sv.
        cm_bind (with_manager (attempt (object_Query 0 0 TNone ob)) sv) (\<lambda>resultSet sv.
        let (queryId, sv) = CreateNewQueryId sv in
        cm_bind (with_session sid (\<lambda>s. (Inr (), SendTextResultSetStart queryId s)) sv) (\<lambda>_ sv.
        cm_bind (query_ex_rows lx queryId e maxRecords 0 (rs_records resultSet) sid sv) (\<lambda>_ sv.
        cm_bind (with_session sid (\<lambda>s. (Inr (), SendTextResultSetEnd queryId s)) sv) (\<lambda>_ sv. reply [] sv))))))) sv)"

definition query_limit :: "lexical \<Rightarrow> command \<Rightarrow> nat \<Rightarrow> int cpp" where
  "query_limit lx cmd i =
     (if i < length (cmd_params cmd) then lexical_cast (lx_int lx (cmd_params cmd ! i)) else Inr 0)"

definition OnCommand_Query :: "server_env \<Rightarrow> lexical \<Rightarrow> command \<Rightarrow> nat \<Rightarrow> tio_server \<Rightarrow> text_answer cpp \<times> tio_server" where
  "OnCommand_Query env lx cmd sid sv =
     (if \<not> CheckParameterCount cmd 1 at_least then invalid_count sv
      else
        with_handle lx cmd sid (\<lambda>ob sv.
        try_then (bind_res (query_limit lx cmd 1) (\<lambda>start. bind_res (query_limit lx cmd 2) (\<lambda>en. Inr (start, en))), sv)
          (\<lambda>_ sv. reply_error (ascii ''invalid parameter'') sv) (\<lambda>(start, en) sv.
        catching (\<lambda>e sv. reply_error (what env e) sv)
          (cm_bind (with_manager (attempt (object_Query start en TNone ob)) sv) (\<lambda>resultSet sv.
           let (queryId, sv) = CreateNewQueryId sv in
           cm_bind (with_session sid (\<lambda>s. (Inr (), SendTextResultSet (lx_format_g lx) resultSet queryId s)) sv)
             (\<lambda>_ sv. reply [] sv))))) sv)"


section \<open>Groups\<close>

definition send_ok :: "nat \<Rightarrow> tio_server \<Rightarrow> unit cpp \<times> tio_server" where
  "send_ok sid = with_session sid (\<lambda>s. (Inr (), SendAnswer GenerateSimpleOkAnswer s))"

definition OnCommand_GroupAdd :: "server_env \<Rightarrow> command \<Rightarrow> nat \<Rightarrow> tio_server \<Rightarrow> text_answer cpp \<times> tio_server" where
  "OnCommand_GroupAdd env cmd sid sv =
     (if \<not> CheckParameterCount cmd 2 exact then invalid_count sv
      else
        let groupName = of_ascii (cmd_params cmd ! 0); containerName = of_ascii (cmd_params cmd ! 1) in
        catching (\<lambda>e sv. reply_error (what env e) sv)
          (cm_bind (with_manager (OpenContainer [] containerName) sv) (\<lambda>ob sv.
           cm_bind (AddContainer groupName ob sv) (\<lambda>_ sv.
           cm_bind (send_ok sid sv) (\<lambda>_ sv.
           let (subscribers, sv) = group_subscribers groupName sv in
           cm_bind (notify_group groupName containerName ob subscribers sv) (\<lambda>_ sv. reply [] sv))))))"

fun subscribe_group_containers :: "string \<Rightarrow> nat list \<Rightarrow> nat \<Rightarrow> tio_server \<Rightarrow> unit cpp \<times> tio_server" where
  "subscribe_group_containers groupName [] sid sv = (Inr (), sv)"
| "subscribe_group_containers groupName (container # rest) sid sv =
     cm_bind (object_GetName container (sv_containerManager sv), sv) (\<lambda>name sv.
     cm_bind (subscribe_new groupName name container sid ''0'' sv) (\<lambda>_ sv.
       subscribe_group_containers groupName rest sid sv))"

definition OnCommand_GroupSubscribe :: "server_env \<Rightarrow> command \<Rightarrow> nat \<Rightarrow> tio_server \<Rightarrow> text_answer cpp \<times> tio_server" where
  "OnCommand_GroupSubscribe env cmd sid sv =
     (if \<not> CheckParameterCount cmd 1 exact \<and> \<not> CheckParameterCount cmd 2 exact then invalid_count sv
      else if length (cmd_params cmd) = 2 then reply_error (ascii ''start parameters not supported'') sv
      else
        let groupName = of_ascii (cmd_params cmd ! 0);
            containers = GetGroupContainers groupName sv;
            (subscribers, sv) = group_subscribers groupName sv;
            sv = sv\<lparr> sv_groupSubscriptions := sm_set groupName (subscribers @ [sid]) (sv_groupSubscriptions sv) \<rparr>
        in
        catching (\<lambda>e sv. reply_error (what env e) sv)
          (cm_bind (send_ok sid sv) (\<lambda>_ sv.
           cm_bind (subscribe_group_containers groupName (map snd containers) sid sv) (\<lambda>_ sv. reply [] sv))))"


section \<open>Commands on a handle\<close>

text \<open>\<^verbatim>\<open>Command\<close> of the storages: all of them refuse.\<close>

fun any_Command :: "any_storage \<Rightarrow> byte list cpp" where
  "any_Command (SList s) = Inl (invalid_argument ''\"command\" not supported by the container'')"
| "any_Command (SMap s) = Inl (invalid_argument ''\"command\" not supported'')"
| "any_Command (SVector s) = Inl (invalid_argument ''command not supported'')"

definition object_Command :: "nat \<Rightarrow> container_manager \<Rightarrow> (byte list \<times> container_manager) cpp" where
  "object_Command = storage_call (\<lambda>s. bind_res (any_Command s) (\<lambda>x. Inr (x, s)))"

definition OnCommand_CustomCommand :: "lexical \<Rightarrow> command \<Rightarrow> nat \<Rightarrow> tio_server \<Rightarrow> text_answer cpp \<times> tio_server" where
  "OnCommand_CustomCommand lx cmd sid sv =
     (if \<not> CheckParameterCount cmd 2 at_least then invalid_count sv
      else
        with_handle lx cmd sid (\<lambda>ob sv.
        cm_bind (with_manager (attempt (object_Command ob)) sv) (\<lambda>result sv.
          reply (MakeAnswer success result []) sv)) sv)"

definition OnCommand_Clear :: "lexical \<Rightarrow> command \<Rightarrow> nat \<Rightarrow> tio_server \<Rightarrow> text_answer cpp \<times> tio_server" where
  "OnCommand_Clear lx cmd sid sv =
     (if \<not> CheckParameterCount cmd 1 exact then invalid_count sv
      else
        with_handle lx cmd sid (\<lambda>ob sv.
        cm_bind (with_manager (attempt (object_exec OpClear ob)) sv) (\<lambda>_ sv. reply_ok sv)) sv)"

definition OnCommand_GetRecordCount :: "lexical \<Rightarrow> command \<Rightarrow> nat \<Rightarrow> tio_server \<Rightarrow> text_answer cpp \<times> tio_server" where
  "OnCommand_GetRecordCount lx cmd sid sv =
     (if \<not> CheckParameterCount cmd 1 exact then invalid_count sv
      else
        with_handle lx cmd sid (\<lambda>ob sv.
        cm_bind (with_manager (attempt (object_GetRecordCount ob)) sv) (\<lambda>n sv.
          reply (MakeAnswer2 success (ascii ''count'') (dec_nat n) []) sv)) sv)"

definition subscribe_start_parameter :: "command \<Rightarrow> string" where
  "subscribe_start_parameter cmd =
     (if 2 \<le> length (cmd_params cmd)
      then let start = cmd_params cmd ! 1 in if start = ascii ''__none__'' then [] else of_ascii start
      else [])"

definition OnCommand_SubscribeUnsubscribe :: "server_env \<Rightarrow> lexical \<Rightarrow> command \<Rightarrow> nat \<Rightarrow> tio_server \<Rightarrow> text_answer cpp \<times> tio_server" where
  "OnCommand_SubscribeUnsubscribe env lx cmd sid sv =
     (if \<not> CheckParameterCount cmd 1 exact \<and> \<not> CheckParameterCount cmd 2 exact \<and> \<not> CheckParameterCount cmd 3 exact
      then invalid_count sv
      else
        try_then (handle_parameter lx cmd, sv) (\<lambda>_ sv. reply_error (ascii ''invalid handle'') sv) (\<lambda>handle sv.
        catching (\<lambda>e sv. reply_error (what env e) sv)
          (cm_bind (registered_info handle sid sv) (\<lambda>(ob, containerName, containerType) sv.
           server_CheckObjectAccess containerType containerName (of_ascii (cmd_command cmd)) sid (\<lambda>sv.
           cm_bind (if length (cmd_params cmd) = 3 then lexical_cast (lx_int lx (cmd_params cmd ! 2)) else Inr (- 1), sv)
             (\<lambda>filterEnd sv.
           if cmd_command cmd = ascii ''subscribe''
           then
             cm_bind (SessionAsyncSubscribe (SubscriptionInfo_new [] ob handle sid (subscribe_start_parameter cmd)) sv)
               (\<lambda>_ sv. reply_ok sv)
           else if cmd_command cmd = ascii ''unsubscribe''
           then cm_bind (with_session sid (\<lambda>s. (Inr (), Unsubscribe handle s)) sv) (\<lambda>_ sv. reply_ok sv)
           else (Inl assertion_failed, sv))) sv))))"

definition OnCommand_Ping :: "command \<Rightarrow> tio_server \<Rightarrow> text_answer cpp \<times> tio_server" where
  "OnCommand_Ping cmd = reply (MakeAnswerRange (cmd_params cmd) success (ascii ''pong'') [])"

definition OnCommand_Version :: "tio_server \<Rightarrow> text_answer cpp \<times> tio_server" where
  "OnCommand_Version = reply (MakeAnswer success (ascii ''0.1'') [])"

definition OnCommand_ListHandles :: "command \<Rightarrow> tio_server \<Rightarrow> text_answer cpp \<times> tio_server" where
  "OnCommand_ListHandles cmd sv =
     (if \<not> CheckParameterCount cmd 0 exact then invalid_count sv
      else reply_error (ascii ''not implemented'') sv)"


section \<open>Permissions, users and the server itself\<close>

definition OnCommand_SetPermission :: "command \<Rightarrow> tio_server \<Rightarrow> text_answer cpp \<times> tio_server" where
  "OnCommand_SetPermission cmd sv =
     (if \<not> CheckParameterCount cmd 4 exact \<and> \<not> CheckParameterCount cmd 5 exact then invalid_count sv
      else
        let params = map of_ascii (cmd_params cmd);
            objectType = ResolveAlias (params ! 0) (sv_containerManager sv);
            objectName = params ! 1; command = params ! 2; allowOrDeny = params ! 3
        in
        if allowOrDeny \<noteq> ''allow'' \<and> allowOrDeny \<noteq> ''deny''
        then reply_error (ascii ''invalid permission type'') sv
        else
          let ruleResult = (if allowOrDeny = ''allow'' then Allow else Deny) in
          cm_bind (cm_Exists objectType objectName (sv_containerManager sv), sv) (\<lambda>ex sv.
          if \<not> ex then reply_error (ascii ''no such object'') sv
          else if length params = 5
          then reply_ok (sv\<lparr> sv_auth := AddObjectRule objectType objectName command (params ! 4) ruleResult (sv_auth sv) \<rparr>)
          else if command \<noteq> ''__default__'' then reply_error (ascii ''no user specified'') sv
          else reply_ok (sv\<lparr> sv_auth := SetObjectDefaultRule objectType objectName ruleResult (sv_auth sv) \<rparr>)))"

text \<open>\<^verbatim>\<open>pause\<close> drops every connection but the current one.\<close>

definition drop_others :: "nat \<Rightarrow> tio_server \<Rightarrow> tio_server" where
  "drop_others sid sv =
     sv\<lparr> sv_sessions := map (\<lambda>(i, s). (i, if i = sid then s else InvalidateConnection s)) (sv_sessions sv) \<rparr>"

definition OnCommand_PauseResume :: "command \<Rightarrow> nat \<Rightarrow> tio_server \<Rightarrow> text_answer cpp \<times> tio_server" where
  "OnCommand_PauseResume cmd sid sv =
     (if \<not> CheckParameterCount cmd 0 exact then invalid_count sv
      else
        let sv = (if cmd_command cmd = ascii ''pause'' then (drop_others sid sv)\<lparr> sv_serverPaused := True \<rparr>
                  else if cmd_command cmd = ascii ''resume'' then sv\<lparr> sv_serverPaused := False \<rparr>
                  else sv)
        in reply_ok sv)"

definition OnCommand_Auth :: "command \<Rightarrow> nat \<Rightarrow> tio_server \<Rightarrow> text_answer cpp \<times> tio_server" where
  "OnCommand_Auth cmd sid sv =
     (if \<not> CheckParameterCount cmd 3 exact then invalid_count sv
      else
        let token = cmd_params cmd ! 0; passwordType = cmd_params cmd ! 1; password = cmd_params cmd ! 2 in
        if passwordType \<noteq> ascii ''clean'' then reply_error (ascii ''unsupported password type'') sv
        else
          catching (\<lambda>_ sv. reply_error (ascii ''error validating password'') sv)
            (cm_bind (deref_shared (sv_meta_users sv), sv) (\<lambda>users sv.
             cm_bind (with_manager (attempt (object_GetRecord (TString token) users)) sv) (\<lambda>(_, v, _) sv.
             cm_bind (tio_data_eq (TString password) v, sv) (\<lambda>same sv.
             if same
             then cm_bind (with_session sid (\<lambda>s. (Inr (), AddToken (of_ascii token) s)) sv) (\<lambda>_ sv. reply_ok sv)
             else reply_error (ascii ''invalid password'') sv)))))"


section \<open>Containers\<close>

definition OnCommand_DeleteContainer :: "server_env \<Rightarrow> command \<Rightarrow> nat \<Rightarrow> tio_server \<Rightarrow> text_answer cpp \<times> tio_server" where
  "OnCommand_DeleteContainer env cmd sid sv =
     (if \<not> CheckParameterCount cmd 2 exact then invalid_count sv
      else
        let containerType = of_ascii (cmd_params cmd ! 0); containerName = of_ascii (cmd_params cmd ! 1) in
        server_CheckObjectAccess containerType containerName (of_ascii (cmd_command cmd)) sid (\<lambda>sv.
        catching (\<lambda>e sv. reply_error (what env e) sv)
          (cm_bind (with_manager (DeleteContainer containerType containerName) sv) (\<lambda>_ sv. reply_ok sv))) sv)"

text \<open>The handle of the container and the answer.\<close>

definition register_and_reply :: "string \<Rightarrow> nat \<Rightarrow> nat \<Rightarrow> tio_server \<Rightarrow> text_answer cpp \<times> tio_server" where
  "register_and_reply containerName ob sid sv =
     cm_bind (with_session sid (\<lambda>s. case RegisterContainer containerName ob s of (h, s) \<Rightarrow> (Inr h, s)) sv) (\<lambda>handle sv.
     cm_bind (object_GetType ob (sv_containerManager sv), sv) (\<lambda>type sv.
       reply (MakeAnswer3 success (ascii ''handle'') (dec_nat (unat handle)) (ascii type) []) sv))"

definition OnCommand_CreateContainer_OpenContainer :: "server_env \<Rightarrow> command \<Rightarrow> nat \<Rightarrow> tio_server \<Rightarrow> text_answer cpp \<times> tio_server" where
  "OnCommand_CreateContainer_OpenContainer env cmd sid sv =
     (if \<not> CheckParameterCount cmd 1 at_least then invalid_count sv
      else
        let containerName = of_ascii (cmd_params cmd ! 0);
            containerType = (if 1 < length (cmd_params cmd) then of_ascii (cmd_params cmd ! 1) else []);
            command = of_ascii (cmd_command cmd)
        in
        catching (\<lambda>e sv. reply_error (what env e) sv)
          (if cmd_command cmd = ascii ''create''
           then
             if take 2 containerName = ''__''
             then reply_error (ascii ''invalid name, names starting with __ are reserved for internal use'') sv
             else
               let containerType = (if containerType = [] then ''volatile_list'' else containerType) in
               server_CheckCommandAccess command sid (\<lambda>sv.
               cm_bind (with_manager (CreateContainer containerType containerName) sv) (\<lambda>ob sv.
                 register_and_reply containerName ob sid sv)) sv
           else
             server_CheckObjectAccess containerType containerName command sid (\<lambda>sv.
             cm_bind (with_manager (OpenContainer containerType containerName) sv) (\<lambda>ob sv.
               register_and_reply containerName ob sid sv)) sv))"

definition OnCommand_CloseContainer :: "lexical \<Rightarrow> command \<Rightarrow> nat \<Rightarrow> tio_server \<Rightarrow> text_answer cpp \<times> tio_server" where
  "OnCommand_CloseContainer lx cmd sid sv =
     (if \<not> CheckParameterCount cmd 1 exact then invalid_count sv
      else
        try_then
          (cm_bind (handle_parameter lx cmd, sv) (\<lambda>handle sv.
             with_session sid (CloseContainerHandle handle (sv_containerManager sv)) sv))
          (\<lambda>_ sv. reply_error (ascii ''Invalid handle'') sv) (\<lambda>_ sv. reply_ok sv))"

definition GetRecordBySpec :: "lexical \<Rightarrow> byte list \<Rightarrow> nat \<Rightarrow> tio_server \<Rightarrow> (nat \<times> int) cpp \<times> tio_server" where
  "GetRecordBySpec lx spec sid sv =
     (case lx_split lx 58 spec of
        [h, n] \<Rightarrow>
          (case cm_bind (lexical_cast (lx_unsigned lx h), sv) (\<lambda>handle sv.
                cm_bind (lexical_cast (lx_int lx n), sv) (\<lambda>number sv.
                cm_bind (registered handle sid sv) (\<lambda>ob sv. (Inr (ob, number), sv)))) of
             (Inl bad_lexical_cast, sv) \<Rightarrow> (Inl (invalid_argument ''invalid record spec''), sv)
           | r \<Rightarrow> r)
      | _ \<Rightarrow> (Inl (invalid_argument ''invalid record spec''), sv))"

definition GetFullQualifiedName :: "nat \<Rightarrow> tio_server \<Rightarrow> string cpp" where
  "GetFullQualifiedName ob sv =
     bind_res (object_GetType ob (sv_containerManager sv)) (\<lambda>type.
     bind_res (object_GetName ob (sv_containerManager sv)) (\<lambda>name.
       Inr (ResolveAlias type (sv_containerManager sv) @ ''/'' @ name)))"


section \<open>Commands with data\<close>

text \<open>The size that is missing, the container and the values, with the name and the type of the container.\<close>

definition ParseDataCommand :: "lexical \<Rightarrow> command \<Rightarrow> nat \<Rightarrow> tio_server \<Rightarrow>
    (u64 \<times> nat \<times> string \<times> string \<times> tio_record) cpp \<times> tio_server" where
  "ParseDataCommand lx cmd sid sv =
     (if \<not> CheckParameterCount cmd 4 at_least then (Inl (invalid_argument ''Invalid parameter count''), sv)
      else
        let r = (case cm_bind (handle_parameter lx cmd, sv) (\<lambda>h sv. registered_info h sid sv) of
                   (Inl bad_lexical_cast, sv) \<Rightarrow> (Inl (invalid_argument ''invalid handle''), sv)
                 | (Inl (invalid_argument _), sv) \<Rightarrow> (Inl (invalid_argument ''invalid handle''), sv)
                 | r \<Rightarrow> r)
        in
        cm_bind r (\<lambda>(ob, containerName, containerType) sv.
        cm_bind (ExtractFieldSetFrom lx (tl (cmd_params cmd)) (GetDataBuffer cmd) (TNone, TNone, TNone), sv)
          (\<lambda>(dataSize, kvm) sv. (Inr (dataSize, ob, containerName, containerType, kvm), sv))))"

definition OnCommand_Pop :: "server_env \<Rightarrow> lexical \<Rightarrow> command \<Rightarrow> nat \<Rightarrow> tio_server \<Rightarrow> text_answer cpp \<times> tio_server" where
  "OnCommand_Pop env lx cmd sid sv =
     catching (\<lambda>e sv. reply_error (what env e) sv)
       (if \<not> CheckParameterCount cmd 1 exact then invalid_count sv
        else if cmd_command cmd \<noteq> ascii ''pop_back'' \<and> cmd_command cmd \<noteq> ascii ''pop_front''
        then (Inl assertion_failed, sv)
        else
          cm_bind (handle_parameter lx cmd, sv) (\<lambda>handle sv.
          cm_bind (registered_info handle sid sv) (\<lambda>(ob, containerName, containerType) sv.
          server_CheckObjectAccess containerType containerName (of_ascii (cmd_command cmd)) sid (\<lambda>sv.
          cm_bind (with_manager (attempt (if cmd_command cmd = ascii ''pop_back''
                     then object_PopBack (Some TNone, Some TNone, Some TNone) ob
                     else object_PopFront (Some TNone, Some TNone, Some TNone) ob)) sv) (\<lambda>(key, v, metadata) sv.
            reply (MakeDataAnswer lx (or_null key) (or_null v) (or_null metadata) []) sv)) sv)))"

text \<open>The sum that \<^verbatim>\<open>modify\<close> computes; an overflow of the signed addition is undefined.\<close>

definition modified_value :: "int \<Rightarrow> u32 \<Rightarrow> tio_data cpp" where
  "modified_value toAdd current =
     (if sint current + toAdd < - (2 ^ 31) \<or> 2 ^ 31 \<le> sint current + toAdd
      then Inl (undefined_behaviour ''signed overflow'')
      else Inr (TInt (word_of_int (sint current + toAdd))))"

definition modify_record :: "lexical \<Rightarrow> nat \<Rightarrow> tio_data \<Rightarrow> byte list \<Rightarrow> tio_server \<Rightarrow> text_answer cpp \<times> tio_server" where
  "modify_record lx ob key text sv =
     cm_bind (lexical_cast (lx_int lx text), sv) (\<lambda>toAdd sv.
     cm_bind (with_manager (attempt (object_GetRecord key ob)) sv) (\<lambda>(_, currentData, _) sv.
     case currentData of
       TInt current \<Rightarrow>
         cm_bind (modified_value toAdd current, sv) (\<lambda>newData sv.
         cm_bind (with_manager (attempt (object_exec (OpSet key newData TNone) ob)) sv) (\<lambda>_ sv.
           reply (MakeAnswer success [] (MakeDataAnswer lx TNone newData TNone [])) sv))
     | _ \<Rightarrow> reply_error (ascii ''modified data must be integer'') sv))"

definition OnModify :: "server_env \<Rightarrow> lexical \<Rightarrow> command \<Rightarrow> nat \<Rightarrow> tio_server \<Rightarrow> text_answer cpp \<times> tio_server" where
  "OnModify env lx cmd sid sv =
     catching (\<lambda>e sv. reply_error (what env e) sv)
       (cm_bind (ParseDataCommand lx cmd sid sv) (\<lambda>(dataSize, ob, containerName, containerType, key, v, metadata) sv.
        server_CheckObjectAccess containerType containerName (of_ascii (cmd_command cmd)) sid (\<lambda>sv.
        if dataSize \<noteq> 0 then (Inr ([], dataSize), sv)
        else if Empty key \<or> Empty v then reply_error (ascii ''need key and data'') sv
        else
          cm_bind (if GetDataType v \<noteq> StringT then bind_res (GetSize v) (\<lambda>n. Inr (n < 2)) else Inr False, sv) (\<lambda>short sv.
          if short then reply_error (ascii ''invalid data'') sv
          else
            cm_bind (AsSz v, sv) (\<lambda>sz sv.
            if sz = [] \<or> hd sz \<noteq> 43 then reply_error (ascii ''invalid operation'') sv
            else modify_record lx ob key (tl sz) sv))) sv))"

text \<open>The modifying branches of \<^verbatim>\<open>OnAnyDataCommand\<close>.\<close>

definition text_op :: "byte list \<Rightarrow> tio_record \<Rightarrow> storage_op option" where
  "text_op command kvm =
     (case kvm of (key, v, metadata) \<Rightarrow>
        if command = ascii ''insert'' then Some (OpInsert key v metadata)
        else if command = ascii ''set'' then Some (OpSet key v metadata)
        else if command = ascii ''pop_back'' then Some (OpPopBack (Some key) (Some v) (Some metadata))
        else if command = ascii ''pop_front'' then Some (OpPopFront (Some key) (Some v) (Some metadata))
        else if command = ascii ''push_back'' then Some (OpPushBack key v metadata)
        else if command = ascii ''push_front'' then Some (OpPushFront key v metadata)
        else if command = ascii ''delete'' then Some (OpDelete key v metadata)
        else None)"

definition text_get :: "lexical \<Rightarrow> nat \<Rightarrow> tio_data \<Rightarrow> tio_server \<Rightarrow> text_answer cpp \<times> tio_server" where
  "text_get lx ob key sv =
     cm_bind (with_manager (attempt (object_GetRecord key ob)) sv) (\<lambda>(realKey, v, metadata) sv.
       reply (MakeDataAnswer lx (if GetDataType realKey = NoneT then key else realKey) v metadata []) sv)"

definition text_set_property :: "nat \<Rightarrow> tio_data \<Rightarrow> tio_data \<Rightarrow> tio_server \<Rightarrow> text_answer cpp \<times> tio_server" where
  "text_set_property ob key v sv =
     try_then
       (cm_bind (AsSz key, sv) (\<lambda>k sv.
        cm_bind (AsSz v, sv) (\<lambda>x sv. with_manager (attempt (object_SetProperty (of_ascii k) x ob)) sv)))
       (\<lambda>_ sv. reply_error (ascii ''key and value must be strings'') sv) (\<lambda>_ sv. reply_ok sv)"

definition text_get_property :: "lexical \<Rightarrow> nat \<Rightarrow> tio_data \<Rightarrow> tio_server \<Rightarrow> text_answer cpp \<times> tio_server" where
  "text_get_property lx ob key sv =
     try_then
       (cm_bind (AsSz key, sv) (\<lambda>k sv. with_manager (attempt (object_GetProperty (of_ascii k) ob)) sv))
       (\<lambda>_ sv. reply_error (ascii ''invalid key'') sv)
       (\<lambda>propertyValue sv. reply (MakeDataAnswer lx key (TString propertyValue) TNone []) sv)"

definition OnAnyDataCommand :: "server_env \<Rightarrow> lexical \<Rightarrow> command \<Rightarrow> nat \<Rightarrow> tio_server \<Rightarrow> text_answer cpp \<times> tio_server" where
  "OnAnyDataCommand env lx cmd sid sv =
     catching (\<lambda>e sv. reply_error (what env e) sv)
       (cm_bind (ParseDataCommand lx cmd sid sv) (\<lambda>(dataSize, ob, containerName, containerType, kvm) sv.
        server_CheckObjectAccess containerType containerName (of_ascii (cmd_command cmd)) sid (\<lambda>sv.
        if dataSize \<noteq> 0 then (Inr ([], dataSize), sv)
        else
          case text_op (cmd_command cmd) kvm of
            Some op \<Rightarrow> cm_bind (with_manager (attempt (object_exec op ob)) sv) (\<lambda>_ sv. reply_ok sv)
          | None \<Rightarrow>
              if cmd_command cmd = ascii ''get'' then text_get lx ob (fst kvm) sv
              else if cmd_command cmd = ascii ''set_property'' then text_set_property ob (fst kvm) (fst (snd kvm)) sv
              else if cmd_command cmd = ascii ''get_property'' then text_get_property lx ob (fst kvm) sv
              else reply_ok sv) sv))"


section \<open>Dispatch\<close>

text \<open>The dispatch map; \<open>None\<close> is a command it does not have.\<close>

definition dispatch_text :: "server_env \<Rightarrow> lexical \<Rightarrow> command \<Rightarrow> nat \<Rightarrow> tio_server \<Rightarrow> (text_answer cpp \<times> tio_server) option" where
  "dispatch_text env lx cmd sid sv =
     (let c = of_ascii (cmd_command cmd) in
      if c = ''ping'' then Some (OnCommand_Ping cmd sv)
      else if c = ''ver'' then Some (OnCommand_Version sv)
      else if c \<in> {''create'', ''open''} then Some (OnCommand_CreateContainer_OpenContainer env cmd sid sv)
      else if c = ''close'' then Some (OnCommand_CloseContainer lx cmd sid sv)
      else if c = ''delete_container'' then Some (OnCommand_DeleteContainer env cmd sid sv)
      else if c = ''list_handles'' then Some (OnCommand_ListHandles cmd sv)
      else if c \<in> {''pop_back'', ''pop_front''} then Some (OnCommand_Pop env lx cmd sid sv)
      else if c = ''modify'' then Some (OnModify env lx cmd sid sv)
      else if c \<in> {''push_back'', ''push_front'', ''set'', ''insert'', ''delete'', ''get_property'', ''set_property'', ''get''}
      then Some (OnAnyDataCommand env lx cmd sid sv)
      else if c = ''clear'' then Some (OnCommand_Clear lx cmd sid sv)
      else if c = ''get_count'' then Some (OnCommand_GetRecordCount lx cmd sid sv)
      else if c \<in> {''subscribe'', ''unsubscribe''} then Some (OnCommand_SubscribeUnsubscribe env lx cmd sid sv)
      else if c = ''command'' then Some (OnCommand_CustomCommand lx cmd sid sv)
      else if c = ''auth'' then Some (OnCommand_Auth cmd sid sv)
      else if c \<in> {''pause'', ''resume''} then Some (OnCommand_PauseResume cmd sid sv)
      else if c = ''set_permission'' then Some (OnCommand_SetPermission cmd sv)
      else if c = ''query'' then Some (OnCommand_Query env lx cmd sid sv)
      else if c = ''queryex'' then Some (OnCommand_QueryEx env lx cmd sid sv)
      else if c = ''group_add'' then Some (OnCommand_GroupAdd env cmd sid sv)
      else if c = ''group_subscribe'' then Some (OnCommand_GroupSubscribe env cmd sid sv)
      else None)"

text \<open>A handler that throws fails the assertion of the \<^verbatim>\<open>catch\<close> block.\<close>

definition OnTextCommand :: "server_env \<Rightarrow> lexical \<Rightarrow> command \<Rightarrow> nat \<Rightarrow> tio_server \<Rightarrow> text_answer cpp \<times> tio_server" where
  "OnTextCommand env lx cmd sid sv =
     (case dispatch_text env lx cmd sid sv of
        None \<Rightarrow> reply_error (ascii ''invalid command'') sv
      | Some r \<Rightarrow> catching (\<lambda>_ sv. (Inl assertion_failed, sv)) r)"

end
