(* ===== verification/SessionReader.thy ===== *)
theory SessionReader
  imports TextCommands ServerEffects
begin

text \<open>
  How a session reads (\<^verbatim>\<open>TioTcpSession::ReadCommand\<close>, \<^verbatim>\<open>OnReadCommand\<close>, \<^verbatim>\<open>OnCommandData\<close>,
  \<^verbatim>\<open>OnBinaryProtocolMessageHeader\<close> and \<^verbatim>\<open>OnBinaryProtocolMessage\<close> of \<^verbatim>\<open>server/tio/TioTcpSession.cpp\<close>).  Lines and the data
  behind them are read into \<^verbatim>\<open>buf_\<close>, and such a read may take more bytes from the socket than it needs;
  binary messages are read from the socket directly.  \<open>reader_step\<close> is one completion of a read, with any number of
  bytes.  \<^verbatim>\<open>asio\<close> delivers the bytes of the connection in order; errors of the socket end the reading.
\<close>

section \<open>The state of the reader\<close>

datatype reading =
    ReadingLine
  | ReadingData nat
  | ReadingHeader
  | ReadingBody nat pr1_message nat
  | ReadingHttp
  | NotReading

record reader =
  rd_buf :: "byte list"
  rd_socket :: "byte list"
  rd_command :: command
  rd_state :: reading

definition ReadCommand :: "reader \<Rightarrow> reader" where
  "ReadCommand rd = rd\<lparr> rd_command := Command_new, rd_state := ReadingLine \<rparr>"

definition ReadBinaryProtocolMessage :: "reader \<Rightarrow> reader" where
  "ReadBinaryProtocolMessage rd = rd\<lparr> rd_state := ReadingHeader \<rparr>"

definition session_OnAccept :: "byte list \<Rightarrow> reader" where
  "session_OnAccept socket =
     ReadCommand \<lparr> rd_buf = [], rd_socket = socket, rd_command = Command_new, rd_state = NotReading \<rparr>"


section \<open>The completion handlers\<close>

type_synonym read_result = "reader cpp \<times> tio_server"

definition check_error :: "bool \<Rightarrow> nat \<Rightarrow> tio_server \<Rightarrow> bool cpp \<times> tio_server" where
  "check_error err sid = with_session sid (\<lambda>s. case CheckError err s of (b, s) \<Rightarrow> (Inr b, s))"

text \<open>\<^verbatim>\<open>getline\<close> up to the newline, without the carriage return.\<close>

definition get_line :: "byte list \<Rightarrow> byte list \<times> byte list" where
  "get_line buf = (takeWhile (\<lambda>c. c \<noteq> 10) buf, tl (dropWhile (\<lambda>c. c \<noteq> 10) buf))"

definition strip_cr :: "byte list \<Rightarrow> byte list" where
  "strip_cr line = (if last line = 13 then butlast line else line)"

definition send_answer :: "byte list \<Rightarrow> nat \<Rightarrow> tio_server \<Rightarrow> unit cpp \<times> tio_server" where
  "send_answer answer sid = with_session sid (\<lambda>s. (Inr (), SendAnswer answer s))"

text \<open>A text command, and the data or the next command to wait for.\<close>

definition run_text_command :: "server_env \<Rightarrow> lexical \<Rightarrow> nat \<Rightarrow> reader \<Rightarrow> tio_server \<Rightarrow> read_result" where
  "run_text_command env lx sid rd sv =
     cm_bind (OnTextCommand env lx (rd_command rd) sid sv) (\<lambda>(answer, moreDataSize) sv.
     if moreDataSize \<noteq> 0 \<and> 256 * 1024 * 1024 \<le> unat moreDataSize then (Inl assertion_failed, sv)
     else
       cm_bind (if answer = [] then (Inr (), sv) else send_answer answer sid sv) (\<lambda>_ sv.
         (Inr (if moreDataSize \<noteq> 0 then rd\<lparr> rd_state := ReadingData (unat moreDataSize) \<rparr> else ReadCommand rd), sv)))"

definition OnReadCommand :: "server_env \<Rightarrow> lexical \<Rightarrow> bool \<Rightarrow> nat \<Rightarrow> reader \<Rightarrow> tio_server \<Rightarrow> read_result" where
  "OnReadCommand env lx err sid rd sv =
     cm_bind (check_error err sid sv) (\<lambda>failed sv.
     if failed then (Inr (rd\<lparr> rd_state := NotReading \<rparr>), sv)
     else
       let (line, rest) = get_line (rd_buf rd); rd = rd\<lparr> rd_buf := rest \<rparr> in
       if line = [] then (Inr (ReadCommand rd), sv)
       else if cmd_command (rd_command rd) \<noteq> [] then (Inl assertion_failed, sv)
       else
         cm_bind (Parse lx (strip_cr line) (rd_command rd), sv) (\<lambda>cmd sv.
         let rd = rd\<lparr> rd_command := cmd \<rparr> in
         if cmd_command cmd = ascii ''protocol'' \<and> cmd_params cmd = [ascii ''binary'']
         then
           cm_bind (send_answer (ascii ''going binary'') sid sv) (\<lambda>_ sv.
           cm_bind (with_session sid (\<lambda>s. (Inr (), s\<lparr> ts_binaryProtocol := True \<rparr>)) sv) (\<lambda>_ sv.
             (Inr (ReadBinaryProtocolMessage rd), sv)))
         else if cmd_command cmd \<noteq> ascii ''protocol'' \<and> cmd_isHttp cmd
         then (Inr (rd\<lparr> rd_state := ReadingHttp \<rparr>), sv)
         else run_text_command env lx sid rd sv))"

definition OnCommandData :: "server_env \<Rightarrow> lexical \<Rightarrow> nat \<Rightarrow> bool \<Rightarrow> nat \<Rightarrow> reader \<Rightarrow> tio_server \<Rightarrow> read_result" where
  "OnCommandData env lx dataSize err sid rd sv =
     cm_bind (check_error err sid sv) (\<lambda>failed sv.
     if failed then (Inr (rd\<lparr> rd_state := NotReading \<rparr>), sv)
     else if length (rd_buf rd) < dataSize then (Inl assertion_failed, sv)
     else
       let cmd = fill_data_buffer dataSize (rd_buf rd) (rd_command rd);
           rd = rd\<lparr> rd_command := cmd, rd_buf := drop dataSize (rd_buf rd) \<rparr>
       in
       cm_bind (OnTextCommand env lx cmd sid sv) (\<lambda>(answer, moreDataSize) sv.
       if moreDataSize \<noteq> 0 \<or> answer = [] then (Inl assertion_failed, sv)
       else cm_bind (send_answer answer sid sv) (\<lambda>_ sv. (Inr (ReadCommand rd), sv))))"

definition OnBinaryProtocolMessageHeader :: "byte list \<Rightarrow> bool \<Rightarrow> nat \<Rightarrow> reader \<Rightarrow> tio_server \<Rightarrow> read_result" where
  "OnBinaryProtocolMessageHeader header err sid rd sv =
     cm_bind (check_error err sid sv) (\<lambda>failed sv.
     if failed then (Inr (rd\<lparr> rd_state := NotReading \<rparr>), sv)
     else
       cm_bind (lift_c (pr1_message_new_get_buffer_for_receive header), sv) (\<lambda>(buffer, message) sv.
       cm_bind (lift_c (header_message_size header), sv) (\<lambda>message_size sv.
         (Inr (rd\<lparr> rd_state := ReadingBody buffer message (unat message_size) \<rparr>), sv))))"

definition OnBinaryProtocolMessage :: "server_env \<Rightarrow> nat \<Rightarrow> pr1_message \<Rightarrow> byte list \<Rightarrow> bool \<Rightarrow> nat \<Rightarrow> reader \<Rightarrow> tio_server \<Rightarrow> read_result" where
  "OnBinaryProtocolMessage env buffer message body err sid rd sv =
     cm_bind (check_error err sid sv) (\<lambda>failed sv.
     if failed then (Inr (rd\<lparr> rd_state := NotReading \<rparr>), sv)
     else
       cm_bind (lift_c (sb_poke (pm_stream_buffer message) buffer body), sv) (\<lambda>sb sv.
       cm_bind (OnBinaryCommand env sid (message\<lparr> pm_stream_buffer := sb \<rparr>) sv) (\<lambda>_ sv.
         (Inr (ReadBinaryProtocolMessage rd), sv))))"


section \<open>Completions\<close>

text \<open>
  A handler that can run on what has been read: a whole line, all the data of a command, a whole header
  or a whole message.
\<close>

definition reader_handler :: "server_env \<Rightarrow> lexical \<Rightarrow> nat \<Rightarrow> reader \<Rightarrow> tio_server \<Rightarrow> read_result option" where
  "reader_handler env lx sid rd sv =
     (case rd_state rd of
        ReadingLine \<Rightarrow> if 10 \<in> set (rd_buf rd) then Some (OnReadCommand env lx False sid rd sv) else None
      | ReadingData n \<Rightarrow> if n \<le> length (rd_buf rd) then Some (OnCommandData env lx n False sid rd sv) else None
      | ReadingHeader \<Rightarrow>
          if 8 \<le> length (rd_socket rd)
          then Some (OnBinaryProtocolMessageHeader (take 8 (rd_socket rd)) False sid
                       (rd\<lparr> rd_socket := drop 8 (rd_socket rd) \<rparr>) sv)
          else None
      | ReadingBody buffer message n \<Rightarrow>
          if n \<le> length (rd_socket rd)
          then Some (OnBinaryProtocolMessage env buffer message (take n (rd_socket rd)) False sid
                       (rd\<lparr> rd_socket := drop n (rd_socket rd) \<rparr>) sv)
          else None
      | _ \<Rightarrow> None)"

definition reads_text :: "reading \<Rightarrow> bool" where
  "reads_text st \<longleftrightarrow> (case st of ReadingLine \<Rightarrow> True | ReadingData _ \<Rightarrow> True | _ \<Rightarrow> False)"

text \<open>A read into \<^verbatim>\<open>buf_\<close> takes some bytes when no handler can run yet.\<close>

inductive reader_step :: "server_env \<Rightarrow> lexical \<Rightarrow> nat \<Rightarrow> reader \<times> tio_server \<Rightarrow> reader \<times> tio_server \<Rightarrow> bool"
  for env lx sid where
  pull: "reads_text (rd_state rd) \<Longrightarrow> reader_handler env lx sid rd sv = None \<Longrightarrow> 0 < n \<Longrightarrow> n \<le> length (rd_socket rd) \<Longrightarrow>
     reader_step env lx sid (rd, sv)
       (rd\<lparr> rd_buf := rd_buf rd @ take n (rd_socket rd), rd_socket := drop n (rd_socket rd) \<rparr>, sv)"
| handle: "reader_handler env lx sid rd sv = Some (Inr rd', sv') \<Longrightarrow> reader_step env lx sid (rd, sv) (rd', sv')"

inductive_cases reader_stepE: "reader_step env lx sid (rd, sv) (rd', sv')"

end
