(* ===== verification/ReaderProperties.thy ===== *)
theory ReaderProperties
  imports SessionReader
begin

text \<open>
  What a session makes of the bytes of a connection does not depend on how they arrive.  \<open>stream_run\<close> handles all
  complete commands of a text session whose bytes are already there; every run of \<open>reader_step\<close> agrees with it.
\<close>

section \<open>Bytes behind a command\<close>

abbreviation (input) behind :: "byte list \<Rightarrow> reader \<Rightarrow> reader" where
  "behind xs rd \<equiv> rd\<lparr> rd_buf := rd_buf rd @ xs \<rparr>"

definition extend_result :: "byte list \<Rightarrow> read_result \<Rightarrow> read_result" where
  "extend_result xs r = (case r of (Inl e, sv) \<Rightarrow> (Inl e, sv) | (Inr rd, sv) \<Rightarrow> (Inr (behind xs rd), sv))"

lemma extend_result_bind:
  "extend_result xs (cm_bind r f) = cm_bind r (\<lambda>x sv. extend_result xs (f x sv))"
  by (auto simp: cm_bind_def extend_result_def split: sum.splits prod.splits)

lemma extend_result_simps [simp]:
  "extend_result xs (Inl e, sv) = (Inl e, sv)" "extend_result xs (Inr rd, sv) = (Inr (behind xs rd), sv)"
  by (simp_all add: extend_result_def)

lemma run_text_command_extend:
  "run_text_command env lx sid (behind xs rd) sv = extend_result xs (run_text_command env lx sid rd sv)"
  by (auto simp: run_text_command_def extend_result_def cm_bind_def ReadCommand_def split: sum.splits prod.splits if_splits)

lemma get_line_append: "10 \<in> set buf \<Longrightarrow> get_line (buf @ xs) = (fst (get_line buf), snd (get_line buf) @ xs)"
  by (auto simp: get_line_def takeWhile_append dropWhile_append dropWhile_eq_Nil_conv)

lemma OnReadCommand_extend:
  assumes "10 \<in> set (rd_buf rd)"
  shows "OnReadCommand env lx err sid (behind xs rd) sv = extend_result xs (OnReadCommand env lx err sid rd sv)"
proof -
  obtain line rest where l: "get_line (rd_buf rd) = (line, rest)" by force
  then have l': "get_line (rd_buf rd @ xs) = (line, rest @ xs)" using get_line_append [OF assms] by simp
  have "run_text_command env lx sid (rd\<lparr> rd_buf := rest @ xs, rd_command := cmd \<rparr>) sv =
      extend_result xs (run_text_command env lx sid (rd\<lparr> rd_buf := rest, rd_command := cmd \<rparr>) sv)" for cmd sv
    using run_text_command_extend [of env lx sid "rd\<lparr> rd_buf := rest, rd_command := cmd \<rparr>" xs sv] by (cases rd) simp
  then show ?thesis
    unfolding OnReadCommand_def using l l'
    by (cases rd) (simp add: extend_result_bind ReadCommand_def ReadBinaryProtocolMessage_def Let_def
        if_distrib [where f = "extend_result xs"] cong: if_cong)
qed

lemma OnCommandData_extend:
  assumes "n \<le> length (rd_buf rd)"
  shows "OnCommandData env lx n err sid (behind xs rd) sv = extend_result xs (OnCommandData env lx n err sid rd sv)"
  using assms
  by (auto simp: OnCommandData_def extend_result_def cm_bind_def ReadCommand_def fill_data_buffer_def Let_def
      split: sum.splits prod.splits if_splits)

lemma handler_extend:
  assumes "reads_text (rd_state rd)" and "reader_handler env lx sid rd sv = Some r"
  shows "reader_handler env lx sid (behind xs rd) sv = Some (extend_result xs r)"
  using assms OnReadCommand_extend [where rd = rd] OnCommandData_extend [where rd = rd]
  by (cases "rd_state rd") (auto simp: reader_handler_def reads_text_def split: if_splits)

text \<open>In text mode the bytes still in the socket play no part.\<close>

abbreviation (input) with_socket :: "byte list \<Rightarrow> reader \<Rightarrow> reader" where
  "with_socket xs rd \<equiv> rd\<lparr> rd_socket := xs \<rparr>"

definition socket_result :: "byte list \<Rightarrow> read_result \<Rightarrow> read_result" where
  "socket_result xs r = (case r of (Inl e, sv) \<Rightarrow> (Inl e, sv) | (Inr rd, sv) \<Rightarrow> (Inr (with_socket xs rd), sv))"

lemma handler_socket:
  assumes "reads_text (rd_state rd)"
  shows "reader_handler env lx sid (with_socket xs rd) sv = map_option (socket_result xs) (reader_handler env lx sid rd sv)"
  using assms
  by (cases "rd_state rd")
    (auto simp: reader_handler_def reads_text_def OnReadCommand_def OnCommandData_def run_text_command_def socket_result_def
      cm_bind_def ReadCommand_def ReadBinaryProtocolMessage_def fill_data_buffer_def Let_def
      split: sum.splits prod.splits if_splits)


section \<open>All commands of a stream\<close>

definition reader_weight :: "reader \<Rightarrow> nat" where
  "reader_weight rd = 2 * length (rd_buf rd) + (case rd_state rd of ReadingData _ \<Rightarrow> 1 | _ \<Rightarrow> 0)"

lemma check_error_False: "check_error False sid sv = (Inr b, sv') \<Longrightarrow> \<not> b"
  by (auto simp: check_error_def with_session_def CheckError_def split: option.splits)

lemma cm_bind_InrE:
  assumes "cm_bind r f = (Inr y, s')"
  obtains x s where "r = (Inr x, s)" "f x s = (Inr y, s')"
  using assms by (cases r; cases "fst r") auto

lemma run_text_command_buf:
  "run_text_command env lx sid rd sv = (Inr rd', sv') \<Longrightarrow> rd_buf rd' = rd_buf rd"
  by (auto simp: run_text_command_def cm_bind_def ReadCommand_def split: sum.splits prod.splits if_splits)

lemma OnReadCommand_buf:
  assumes "OnReadCommand env lx False sid rd sv = (Inr rd', sv')"
  shows "rd_buf rd' = snd (get_line (rd_buf rd))"
  using assms unfolding OnReadCommand_def
proof (elim cm_bind_InrE, goal_cases)
  case (1 b sv1)
  then show ?case
    using check_error_False [OF 1(1)]
    by (auto simp: ReadCommand_def ReadBinaryProtocolMessage_def Let_def split_def split: if_splits
        elim!: cm_bind_InrE dest!: run_text_command_buf)
qed

lemma OnCommandData_buf:
  assumes "OnCommandData env lx n False sid rd sv = (Inr rd', sv')"
  shows "rd_buf rd' = drop n (rd_buf rd) \<and> rd_state rd' = ReadingLine \<and> rd_command rd' = Command_new"
  using assms unfolding OnCommandData_def
proof (elim cm_bind_InrE, goal_cases)
  case (1 b sv1)
  then show ?case
    using check_error_False [OF 1(1)]
    by (auto simp: ReadCommand_def Let_def split_def split: if_splits elim!: cm_bind_InrE)
qed

lemma get_line_shorter: "10 \<in> set buf \<Longrightarrow> length (snd (get_line buf)) < length buf"
proof -
  assume a: "10 \<in> set buf"
  then have "dropWhile (\<lambda>c. c \<noteq> 10) buf \<noteq> []" by (auto simp: dropWhile_eq_Nil_conv)
  then show ?thesis using length_dropWhile_le [of "\<lambda>c. c \<noteq> 10" buf] by (cases "dropWhile (\<lambda>c. c \<noteq> 10) buf") (auto simp: get_line_def)
qed

lemma handler_consumes:
  assumes "reads_text (rd_state rd)" and "reader_handler env lx sid rd sv = Some (Inr rd', sv')"
  shows "reader_weight rd' < reader_weight rd"
proof (cases "rd_state rd")
  case ReadingLine
  then have "10 \<in> set (rd_buf rd)" "OnReadCommand env lx False sid rd sv = (Inr rd', sv')"
    using assms(2) by (auto simp: reader_handler_def split: if_splits)
  then have "length (rd_buf rd') < length (rd_buf rd)" using OnReadCommand_buf get_line_shorter by metis
  then show ?thesis using ReadingLine by (cases "rd_state rd'") (simp_all add: reader_weight_def)
next
  case (ReadingData n)
  then have "OnCommandData env lx n False sid rd sv = (Inr rd', sv')"
    using assms(2) by (auto simp: reader_handler_def split: if_splits)
  then show ?thesis using ReadingData OnCommandData_buf by (fastforce simp: reader_weight_def)
qed (use assms(1) in \<open>simp_all add: reads_text_def\<close>)

function stream_run :: "server_env \<Rightarrow> lexical \<Rightarrow> nat \<Rightarrow> reader \<Rightarrow> tio_server \<Rightarrow> read_result" where
  "stream_run env lx sid rd sv =
     (if \<not> reads_text (rd_state rd) then (Inr rd, sv)
      else
        case reader_handler env lx sid rd sv of
          None \<Rightarrow> (Inr rd, sv)
        | Some (Inl e, sv') \<Rightarrow> (Inl e, sv')
        | Some (Inr rd', sv') \<Rightarrow> stream_run env lx sid rd' sv')"
  by auto
termination
  by (relation "measure (\<lambda>(env, lx, sid, rd, sv). reader_weight rd)") (auto intro: handler_consumes)

declare stream_run.simps [simp del]

text \<open>All bytes of the connection in the buffer.\<close>

definition all_arrived :: "reader \<Rightarrow> reader" where
  "all_arrived rd = rd\<lparr> rd_buf := rd_buf rd @ rd_socket rd, rd_socket := [] \<rparr>"

lemma handler_arrived:
  assumes "reader_handler env lx sid rd sv = Some (Inr rd', sv')" and t: "reads_text (rd_state rd)"
  shows "reader_handler env lx sid (all_arrived rd) sv = Some (Inr (all_arrived rd'), sv')"
proof -
  have h: "reader_handler env lx sid (with_socket [] rd) sv = Some (Inr (with_socket [] rd'), sv')"
    using handler_socket [OF t, of env lx sid "[]" sv] assms(1) by (simp add: socket_result_def)
  have "rd_socket rd' = rd_socket rd"
    using handler_socket [OF t, of env lx sid "rd_socket rd" sv] assms(1) by (cases rd') (auto simp: socket_result_def)
  then show ?thesis
    using handler_extend [OF _ h, of "rd_socket rd"] t by (cases rd; cases rd') (simp add: all_arrived_def)
qed

lemma reads_text_arrived [simp]: "rd_state (all_arrived rd) = rd_state rd"
  by (simp add: all_arrived_def)

lemma stream_run_step:
  assumes "reader_step env lx sid (rd, sv) (rd', sv')" and t: "reads_text (rd_state rd)"
  shows "stream_run env lx sid (all_arrived rd) sv = stream_run env lx sid (all_arrived rd') sv'"
  using assms(1)
proof (cases rule: reader_step.cases)
  case (pull n)
  then show ?thesis by (cases rd) (simp add: all_arrived_def)
next
  case handle
  then show ?thesis
    using handler_arrived [OF handle t] t by (subst stream_run.simps) simp
qed

text \<open>A session that has left the text protocol does not return to it.\<close>

lemma OnBinaryProtocolMessage_state:
  "OnBinaryProtocolMessage env buffer message body err sid rd sv = (Inr rd', sv') \<Longrightarrow> \<not> reads_text (rd_state rd')"
  unfolding OnBinaryProtocolMessage_def
  by (auto elim!: cm_bind_InrE simp: reads_text_def ReadBinaryProtocolMessage_def split: if_splits)

lemma OnBinaryProtocolMessageHeader_state:
  "OnBinaryProtocolMessageHeader header err sid rd sv = (Inr rd', sv') \<Longrightarrow> \<not> reads_text (rd_state rd')"
  unfolding OnBinaryProtocolMessageHeader_def
  by (auto elim!: cm_bind_InrE simp: reads_text_def split: if_splits)

lemma step_reads_text:
  assumes "reader_step env lx sid (rd, sv) (rd', sv')" and "reads_text (rd_state rd')"
  shows "reads_text (rd_state rd)"
  using assms(1)
proof (cases rule: reader_step.cases)
  case handle
  then show ?thesis
    using assms(2) OnBinaryProtocolMessage_state OnBinaryProtocolMessageHeader_state
    by (cases "rd_state rd") (auto simp: reader_handler_def reads_text_def split: if_splits)
qed simp

lemma stream_run_steps:
  assumes "(reader_step env lx sid)\<^sup>*\<^sup>* (rd, sv) (rd', sv')" and "reads_text (rd_state rd')"
  shows "stream_run env lx sid (all_arrived rd) sv = stream_run env lx sid (all_arrived rd') sv'"
  using assms
proof (induction rule: converse_rtranclp_induct2)
  case (step rd sv rd1 sv1)
  have "reads_text (rd_state rd1)" using step.hyps(2) step.prems
    by (induction rule: converse_rtranclp_induct2) (auto dest: step_reads_text)
  then show ?case using step step_reads_text stream_run_step by metis
qed simp

text \<open>
  C10: A text session does the same whatever the sizes of the reads of its connection are: once all bytes have been read
  and no command is complete, the server and the session are where handling the whole stream from the buffer
  leads.
\<close>

theorem text_fragmentation_irrelevant:
  assumes "(reader_step env lx sid)\<^sup>*\<^sup>* (session_OnAccept bs, sv0) (rd, sv)"
    and "reads_text (rd_state rd)" and "rd_socket rd = []" and "reader_handler env lx sid rd sv = None"
  shows "stream_run env lx sid (all_arrived (session_OnAccept bs)) sv0 = (Inr rd, sv)"
proof -
  have "all_arrived rd = rd" using assms(3) by (cases rd) (simp add: all_arrived_def)
  then show ?thesis
    using stream_run_steps [OF assms(1,2)] assms(2,4) by (simp add: stream_run.simps [of env lx sid rd])
qed

end
