(* ===== verification/TextEffects.thy ===== *)
theory TextEffects
  imports TextFields ReaderProperties ServerHandles
begin

text \<open>
  What a command of the text protocol does, from its bytes on the connection to the answer: a command line with data
  behind it, the access rules such a command is checked against, and a request of the binary protocol.
\<close>

section \<open>A line of words\<close>

lemma with_session_keeps:
  "session_at sv sid = Some s \<Longrightarrow> sm_inv (sv_sessions sv) \<Longrightarrow> f s = (r, s) \<Longrightarrow> with_session sid f sv = (r, sv)"
  by (simp add: with_session_def sm_set_same)

definition plain :: "byte list \<Rightarrow> bool" where
  "plain w \<longleftrightarrow> set w \<inter> {0, 10, 32} = {}"

lemma plain_dec_nat [simp]: "plain (dec_nat n)"
  using dec_nat_range [of n] by (auto simp: plain_def word_le_nat_alt)

lemma join_words_plain:
  assumes "\<forall>w\<in>set ws. plain w"
  shows "10 \<notin> set (join_words ws)" "0 \<notin> set (join_words ws)"
  using assms by (cases ws; auto simp: plain_def)+

definition text_command :: "byte list list \<Rightarrow> command" where
  "text_command ws = Command_new\<lparr> cmd_source := join_words ws, cmd_command := hd ws, cmd_params := tl ws \<rparr>"

lemma get_line_crlf: "10 \<notin> set line \<Longrightarrow> get_line (line @ crlf @ rest) = (line @ [13], rest)"
  by (simp add: get_line_def takeWhile_append dropWhile_append)

lemma Parse_words:
  assumes "lexical_ok lx" and "ws \<noteq> []" and "\<forall>w\<in>set ws. plain w" and "last ws \<noteq> ascii ''HTTP/1.1''"
  shows "Parse lx (join_words ws) Command_new = Inr (text_command ws)"
proof -
  have "c_str (join_words ws) = join_words ws"
    using join_words_plain(2) [OF assms(3)] by (auto simp: c_str_def takeWhile_eq_all_conv)
  moreover have "lx_split lx 32 (join_words ws) = hd ws # tl ws"
    using assms split_sep_join [of ws] by (auto simp: lexical_okD(1) plain_def)
  ultimately show ?thesis
    using assms(2,4) by (cases ws) (auto simp: Parse_def text_command_def Command_new_def split: if_splits)
qed

lemma OnReadCommand_line:
  assumes "lexical_ok lx" and "ws \<noteq> []" and "\<forall>w\<in>set ws. plain w" and "last ws \<noteq> ascii ''HTTP/1.1''"
    and "hd ws \<noteq> ascii ''protocol''" and "session_at sv sid = Some s" and "sm_inv (sv_sessions sv)"
    and "rd_command rd = Command_new" and "rd_buf rd = join_words ws @ crlf @ rest"
  shows "OnReadCommand env lx False sid rd sv =
    run_text_command env lx sid (rd\<lparr> rd_buf := rest, rd_command := text_command ws \<rparr>) sv"
proof -
  have "check_error False sid sv = (Inr False, sv)"
    unfolding check_error_def using assms by (intro with_session_keeps [OF assms(6,7)]) (simp add: CheckError_def)
  moreover have "get_line (rd_buf rd) = (join_words ws @ [13], rest)"
    using get_line_crlf join_words_plain(1) [OF assms(3)] assms(9) by simp
  moreover have "strip_cr (join_words ws @ [13]) = join_words ws" by (simp add: strip_cr_def)
  ultimately show ?thesis
    using Parse_words [OF assms(1-4)] assms(5,8)
    by (cases rd) (simp add: OnReadCommand_def text_command_def Command_new_def)
qed


section \<open>Commands with data\<close>

abbreviation data_words :: "lexical \<Rightarrow> string \<Rightarrow> u32 \<Rightarrow> (string \<times> tio_data) list \<Rightarrow> byte list list" where
  "data_words lx c h fs \<equiv> ascii c # dec_nat (unat h) # concat (map (field_words lx) fs)"

text \<open>The operation a data command stands for.\<close>

definition data_op :: "string \<Rightarrow> (string \<times> tio_data) list \<Rightarrow> storage_op option" where
  "data_op c fs = text_op (ascii c) (fold put_field fs (TNone, TNone, TNone))"

definition modifying_text :: "string \<Rightarrow> bool" where
  "modifying_text c \<longleftrightarrow> c \<in> {''insert'', ''set'', ''push_back'', ''push_front'', ''delete''}"

lemma ascii_plain: "set s \<inter> {CHR '' '', CHR 0x0A, CHR 0x00} = {} \<Longrightarrow> plain (ascii s)"
proof -
  have "c \<in> {CHR '' '', CHR 0x0A, CHR 0x00}" if "(of_char c :: byte) \<in> {0, 10, 32}" for c
  proof -
    have "ascii [c] \<in> {ascii '' '', ascii [CHR 0x0A], ascii [CHR 0x00]}" using that by (auto simp: ascii_def)
    then show ?thesis by (simp only: ascii_inject insert_iff empty_iff) auto
  qed
  then show "set s \<inter> {CHR '' '', CHR 0x0A, CHR 0x00} = {} \<Longrightarrow> plain (ascii s)" by (force simp: plain_def ascii_def)
qed

lemma data_words_plain:
  assumes "list_all (field_ok lx) fs" and "modifying_text c"
  shows "\<forall>w\<in>set (data_words lx c h fs). plain w"
proof -
  have "plain w" if "field_ok lx f" "w \<in> set (field_words lx f)" for f w
    using that by (cases "snd f") (auto simp: field_ok_def field_words_def intro!: ascii_plain)
  moreover have "plain (ascii c)" using assms(2) by (auto simp: modifying_text_def intro!: ascii_plain)
  ultimately show ?thesis using assms(1) by (auto simp: list_all_iff)
qed

lemma data_words_last: "fs \<noteq> [] \<Longrightarrow> last (data_words lx c h fs) \<noteq> ascii ''HTTP/1.1''"
proof -
  assume "fs \<noteq> []"
  then obtain gs f where "fs = gs @ [f]" by (metis rev_exhaust)
  then have "last (data_words lx c h fs) = dec_nat (length (field_text lx (snd f)))" by (simp add: field_words_def)
  moreover have "72 \<in> set (ascii ''HTTP/1.1'')" by (simp add: ascii_def)
  moreover have "72 \<notin> set (dec_nat n)" for n using dec_nat_range [of n] by (auto simp: word_le_nat_alt)
  ultimately show ?thesis by metis
qed

lemma field_bytes_size:
  assumes "fs \<noteq> []" and "length (field_bytes lx fs) < 2 ^ 64"
  shows "unat (of_nat (length (field_bytes lx fs)) :: u64) = length (field_bytes lx fs)"
    and "(of_nat (length (field_bytes lx fs)) :: u64) \<noteq> 0"
proof -
  show u: "unat (of_nat (length (field_bytes lx fs)) :: u64) = length (field_bytes lx fs)"
    using assms(2) by (simp add: unat_of_nat)
  have "length (field_bytes lx fs) \<noteq> 0" using assms(1) by (cases fs) (simp_all add: field_bytes_def)
  then show "(of_nat (length (field_bytes lx fs)) :: u64) \<noteq> 0" using u by (metis unat_0)
qed

text \<open>Parsing the command, before and after its data have arrived.\<close>

lemma ParseDataCommand_words:
  assumes lx: "lexical_ok lx" and fs: "list_all (field_ok lx) fs" "fs \<noteq> []" "length (field_bytes lx fs) < 2 ^ 64"
    and cmd: "cmd_params cmd = dec_nat (unat h) # concat (map (field_words lx) fs)"
    and s: "session_at sv sid = Some s" "sm_inv (sv_sessions sv)" "GetRegisteredContainer h s = Inr ob"
    and ob: "object_GetName ob (sv_containerManager sv) = Inr name"
  shows "cmd_data cmd = None \<Longrightarrow> ParseDataCommand lx cmd sid sv =
      (Inr (of_nat (length (field_bytes lx fs)), ob, name, name, TNone, TNone, TNone), sv)"
    and "cmd_data cmd = Some (field_bytes lx fs) \<Longrightarrow> ParseDataCommand lx cmd sid sv =
      (Inr (0, ob, name, name, fold put_field fs (TNone, TNone, TNone)), sv)"
proof -
  have "with_session sid (\<lambda>s. (GetRegisteredContainerInfo h (sv_containerManager sv) s, s)) sv = (Inr (ob, name, name), sv)"
    using s ob by (intro with_session_keeps [OF s(1,2)]) (simp add: GetRegisteredContainerInfo_def)
  then have r: "cm_bind (handle_parameter lx cmd, sv) (\<lambda>h sv. registered_info h sid sv) = (Inr (ob, name, name), sv)"
    using lexical_okD(2) [OF lx] by (simp add: handle_parameter_def lexical_cast_def cmd registered_info_def)
  have n: "CheckParameterCount cmd 4 at_least"
    using fs(2) by (cases fs) (simp_all add: CheckParameterCount_def cmd field_words_def)
  have e: "ExtractFieldSet lx (tl (cmd_params cmd)) = Inr (map (field_info_of lx) fs, of_nat (length (field_bytes lx fs)))"
    using ExtractFieldSet_words [OF lx fs(1,3)] by (simp add: cmd)
  have pos: "(0 :: u64) < of_nat (length (field_bytes lx fs))"
    using field_bytes_size(2) [OF fs(2,3)] by (simp add: word_gt_0)
  show "ParseDataCommand lx cmd sid sv = (Inr (of_nat (length (field_bytes lx fs)), ob, name, name, TNone, TNone, TNone), sv)"
    if "cmd_data cmd = None"
    using that n r e pos by (simp add: ParseDataCommand_def ExtractFieldSetFrom_def GetDataBuffer_def)
  show "ParseDataCommand lx cmd sid sv = (Inr (0, ob, name, name, fold put_field fs (TNone, TNone, TNone)), sv)"
    if "cmd_data cmd = Some (field_bytes lx fs)"
    using that n r e ExtractFieldsFromBuffer_text [OF lx fs(1,3)]
    by (simp add: ParseDataCommand_def ExtractFieldSetFrom_def GetDataBuffer_def)
qed

lemma CheckObjectAccess_allows:
  assumes "session_at sv sid = Some s" and "sm_inv (sv_sessions sv)"
    and "CheckObjectAccess t n c (GetTokens s) (sv_auth sv) = Allow"
  shows "server_CheckObjectAccess t n c sid k sv = k sv"
proof -
  have "session_tokens sid sv = (Inr (GetTokens s), sv)"
    unfolding session_tokens_def by (intro with_session_keeps [OF assms(1,2)]) simp
  then show ?thesis using assms(3) by (simp add: server_CheckObjectAccess_def)
qed

lemma dispatch_modifying:
  assumes "modifying_text c" and "cmd_command cmd = ascii c"
  shows "dispatch_text env lx cmd sid sv = Some (OnAnyDataCommand env lx cmd sid sv)"
  using assms(1) unfolding modifying_text_def dispatch_text_def Let_def assms(2) of_ascii_ascii
  by (elim insertE emptyE) (simp_all only: list.inject char.inject simp_thms insert_iff if_True if_False list.distinct empty_iff)

lemma data_op_modifying: "modifying_text c \<Longrightarrow> \<exists>op. data_op c fs = Some op"
  by (auto simp: modifying_text_def data_op_def text_op_def split: prod.splits)

lemma OnTextCommand_data:
  assumes lx: "lexical_ok lx" and fs: "list_all (field_ok lx) fs" "fs \<noteq> []" "length (field_bytes lx fs) < 2 ^ 64"
    and c: "modifying_text c" "cmd_command cmd = ascii c"
    and cmd: "cmd_params cmd = dec_nat (unat h) # concat (map (field_words lx) fs)"
    and s: "session_at sv sid = Some s" "sm_inv (sv_sessions sv)" "GetRegisteredContainer h s = Inr ob"
    and ob: "object_GetName ob (sv_containerManager sv) = Inr name"
    and allowed: "CheckObjectAccess name name c (GetTokens s) (sv_auth sv) = Allow"
  shows "cmd_data cmd = None \<Longrightarrow> OnTextCommand env lx cmd sid sv = (Inr ([], of_nat (length (field_bytes lx fs))), sv)"
    and "cmd_data cmd = Some (field_bytes lx fs) \<Longrightarrow> OnTextCommand env lx cmd sid sv =
      (case object_exec (the (data_op c fs)) ob (sv_containerManager sv) of
         Inl e \<Rightarrow> if std_exception e then (Inr (MakeAnswer failure (what env e) [], 0), sv) else (Inl e, sv)
       | Inr (_, cm) \<Rightarrow>
           (Inr (MakeAnswer success [] [], 0), publish_new (sv_containerManager sv) (sv\<lparr> sv_containerManager := cm \<rparr>)))"
proof -
  note parse = ParseDataCommand_words [OF lx fs cmd s ob]
  note access = CheckObjectAccess_allows [OF s(1,2) allowed]
  note dispatch = dispatch_modifying [OF c, of env lx sid sv]
  note n = field_bytes_size(2) [OF fs(2,3)]
  show "OnTextCommand env lx cmd sid sv = (Inr ([], of_nat (length (field_bytes lx fs))), sv)" if "cmd_data cmd = None"
    using parse(1) [OF that] n
    by (simp add: OnTextCommand_def dispatch OnAnyDataCommand_def c(2) access catching_def)
  obtain op where op: "data_op c fs = Some op" using data_op_modifying [OF c(1)] by blast
  then have t: "text_op (ascii c) (fold put_field fs (TNone, TNone, TNone)) = Some op" by (simp add: data_op_def)
  show "OnTextCommand env lx cmd sid sv =
      (case object_exec (the (data_op c fs)) ob (sv_containerManager sv) of
         Inl e \<Rightarrow> if std_exception e then (Inr (MakeAnswer failure (what env e) [], 0), sv) else (Inl e, sv)
       | Inr (_, cm) \<Rightarrow>
           (Inr (MakeAnswer success [] [], 0), publish_new (sv_containerManager sv) (sv\<lparr> sv_containerManager := cm \<rparr>)))"
    if "cmd_data cmd = Some (field_bytes lx fs)"
    using parse(2) [OF that] t op
    by (simp add: OnTextCommand_def dispatch OnAnyDataCommand_def c(2) access catching_def with_manager_def attempt_def
        reply_ok_def reply_error_def reply_def publish_new_self split: sum.splits prod.splits)
qed

text \<open>The two completions of a modifying command: its line, and its data.\<close>

definition waiting_for :: "lexical \<Rightarrow> string \<Rightarrow> u32 \<Rightarrow> (string \<times> tio_data) list \<Rightarrow> byte list \<Rightarrow> reader \<Rightarrow> reader" where
  "waiting_for lx c h fs rest rd =
     rd\<lparr> rd_buf := field_bytes lx fs @ rest, rd_command := text_command (data_words lx c h fs),
         rd_state := ReadingData (length (field_bytes lx fs)) \<rparr>"

lemma text_command_words:
  "cmd_command (text_command (data_words lx c h fs)) = ascii c"
  "cmd_params (text_command (data_words lx c h fs)) = dec_nat (unat h) # concat (map (field_words lx) fs)"
  "cmd_data (text_command (data_words lx c h fs)) = None"
  by (simp_all add: text_command_def Command_new_def)

lemma data_line_read:
  assumes lx: "lexical_ok lx" and fs: "list_all (field_ok lx) fs" "fs \<noteq> []" "length (field_bytes lx fs) < 256 * 1024 * 1024"
    and c: "modifying_text c" and rd: "rd_state rd = ReadingLine" "rd_command rd = Command_new"
      "rd_buf rd = join_words (data_words lx c h fs) @ crlf @ field_bytes lx fs @ rest"
    and s: "session_at sv sid = Some s" "sm_inv (sv_sessions sv)" "GetRegisteredContainer h s = Inr ob"
    and ob: "object_GetName ob (sv_containerManager sv) = Inr name"
    and allowed: "CheckObjectAccess name name c (GetTokens s) (sv_auth sv) = Allow"
  shows "reader_handler env lx sid rd sv = Some (Inr (waiting_for lx c h fs rest rd), sv)"
proof -
  let ?n = "length (field_bytes lx fs)" and ?cmd = "text_command (data_words lx c h fs)"
  have n64: "?n < 2 ^ 64" using fs(3) by simp
  note u = field_bytes_size(1) [OF fs(2) this] and nz = field_bytes_size(2) [OF fs(2) this]
  have "ascii c \<noteq> ascii ''protocol''" using c by (auto simp: modifying_text_def)
  then have "OnReadCommand env lx False sid rd sv =
      run_text_command env lx sid (rd\<lparr> rd_buf := field_bytes lx fs @ rest, rd_command := ?cmd \<rparr>) sv"
    using rd by (intro OnReadCommand_line [OF lx _ data_words_plain [OF fs(1) c] data_words_last [OF fs(2)] _ s(1,2)])
      (simp_all del: join_words.simps)
  also have "\<dots> = (Inr (waiting_for lx c h fs rest rd), sv)"
    using OnTextCommand_data(1) [OF lx fs(1,2) n64 c text_command_words(1,2) s ob allowed text_command_words(3), of env] u nz fs(3)
    by (cases rd) (simp add: run_text_command_def waiting_for_def)
  finally show ?thesis using rd by (simp add: reader_handler_def)
qed

lemma data_arrived_run:
  assumes lx: "lexical_ok lx" and fs: "list_all (field_ok lx) fs" "fs \<noteq> []" "length (field_bytes lx fs) < 2 ^ 64"
    and c: "modifying_text c"
    and s: "session_at sv sid = Some s" "sm_inv (sv_sessions sv)" "GetRegisteredContainer h s = Inr ob"
    and ob: "object_GetName ob (sv_containerManager sv) = Inr name"
    and allowed: "CheckObjectAccess name name c (GetTokens s) (sv_auth sv) = Allow"
    and exec: "object_exec (the (data_op c fs)) ob (sv_containerManager sv) = Inr ((), cm)"
  shows "reader_handler env lx sid (waiting_for lx c h fs rest rd) sv =
      Some (Inr (ReadCommand (rd\<lparr> rd_buf := rest \<rparr>)),
            (publish_new (sv_containerManager sv) (sv\<lparr> sv_containerManager := cm \<rparr>))
              \<lparr> sv_sessions := sm_set sid (SendAnswer (MakeAnswer success [] []) s) (sv_sessions sv) \<rparr>)"
proof -
  let ?n = "length (field_bytes lx fs)" and ?rd1 = "waiting_for lx c h fs rest rd"
  let ?cmd = "fill_data_buffer ?n (field_bytes lx fs @ rest) (text_command (data_words lx c h fs))"
  have cmd: "cmd_command ?cmd = ascii c" "cmd_params ?cmd = dec_nat (unat h) # concat (map (field_words lx) fs)"
    "cmd_data ?cmd = Some (field_bytes lx fs)"
    by (simp_all add: text_command_words fill_data_buffer_def GetDataBuffer_def)
  let ?sv1 = "publish_new (sv_containerManager sv) (sv\<lparr> sv_containerManager := cm \<rparr>)"
  have "check_error False sid sv = (Inr False, sv)"
    unfolding check_error_def by (intro with_session_keeps [OF s(1,2)]) (simp add: CheckError_def)
  moreover have "OnTextCommand env lx ?cmd sid sv = (Inr (MakeAnswer success [] [], 0), ?sv1)"
    using OnTextCommand_data(2) [OF lx fs c cmd(1,2) s ob allowed cmd(3), of env] exec by simp
  moreover have "send_answer (MakeAnswer success [] []) sid ?sv1 =
      (Inr (), ?sv1\<lparr> sv_sessions := sm_set sid (SendAnswer (MakeAnswer success [] []) s) (sv_sessions sv) \<rparr>)"
    using s(1) by (simp add: send_answer_def with_session_def)
  moreover have "MakeAnswer success [] [] \<noteq> []" by (simp add: MakeAnswer_def MakeAnswerEnd_def)
  ultimately show ?thesis
    by (cases rd) (simp add: reader_handler_def OnCommandData_def waiting_for_def ReadCommand_def)
qed

text \<open>
  C9: a modifying command of the text protocol, with the values behind its line: reading the line leaves the server
  as it is and waits for exactly the announced bytes; when they are there, the operation the command stands for is
  executed on the container of the handle with the values the bytes encode, the answer is sent, and
  the session waits for the next line with the bytes behind the command.
\<close>

theorem text_data_command_effect:
  assumes lx: "lexical_ok lx" and fs: "list_all (field_ok lx) fs" "fs \<noteq> []" "length (field_bytes lx fs) < 256 * 1024 * 1024"
    and c: "modifying_text c" and rd: "rd_state rd = ReadingLine" "rd_command rd = Command_new"
      "rd_buf rd = join_words (data_words lx c h fs) @ crlf @ field_bytes lx fs @ rest"
    and s: "session_at sv sid = Some s" "sm_inv (sv_sessions sv)" "GetRegisteredContainer h s = Inr ob"
    and ob: "object_GetName ob (sv_containerManager sv) = Inr name"
    and allowed: "CheckObjectAccess name name c (GetTokens s) (sv_auth sv) = Allow"
    and exec: "object_exec (the (data_op c fs)) ob (sv_containerManager sv) = Inr ((), cm)"
  shows "\<exists>rd1. reader_handler env lx sid rd sv = Some (Inr rd1, sv) \<and>
    rd_state rd1 = ReadingData (length (field_bytes lx fs)) \<and>
    reader_handler env lx sid rd1 sv =
      Some (Inr (ReadCommand (rd\<lparr> rd_buf := rest \<rparr>)),
            (publish_new (sv_containerManager sv) (sv\<lparr> sv_containerManager := cm \<rparr>))
              \<lparr> sv_sessions := sm_set sid (SendAnswer (MakeAnswer success [] []) s) (sv_sessions sv) \<rparr>)"
proof (intro exI conjI)
  show "reader_handler env lx sid rd sv = Some (Inr (waiting_for lx c h fs rest rd), sv)"
    by (rule data_line_read [OF lx fs c rd s ob allowed])
  show "rd_state (waiting_for lx c h fs rest rd) = ReadingData (length (field_bytes lx fs))" by (simp add: waiting_for_def)
  have "length (field_bytes lx fs) < 2 ^ 64" using fs(3) by simp
  from data_arrived_run [OF lx fs(1,2) this c s ob allowed exec]
  show "reader_handler env lx sid (waiting_for lx c h fs rest rd) sv =
      Some (Inr (ReadCommand (rd\<lparr> rd_buf := rest \<rparr>)),
            (publish_new (sv_containerManager sv) (sv\<lparr> sv_containerManager := cm \<rparr>))
              \<lparr> sv_sessions := sm_set sid (SendAnswer (MakeAnswer success [] []) s) (sv_sessions sv) \<rparr>)" .
qed

abbreviation (input) example_fields :: "(string \<times> tio_data) list" where
  "example_fields \<equiv> [(''value'', TString [104, 105])]"

definition example_reader :: reader where
  "example_reader = (session_OnAccept [])\<lparr>
     rd_buf := join_words (data_words decimal_lexical ''push_back'' 1 example_fields) @ crlf @
               field_bytes decimal_lexical example_fields @ [] \<rparr>"

lemma example_fields_ok:
  "list_all (field_ok decimal_lexical) example_fields" "field_bytes decimal_lexical example_fields = [104, 105, 13, 10]"
  by (simp_all add: field_ok_def readable_def field_bytes_def field_text_def TioDataToString_def)

lemma example_text_op: "the (data_op ''push_back'' example_fields) = OpPushBack TNone (TString [104, 105]) TNone"
proof -
  have "''push_back'' \<noteq> ''insert''" "''push_back'' \<noteq> ''set''" "''push_back'' \<noteq> ''pop_back''" "''push_back'' \<noteq> ''pop_front''"
    by simp_all
  then show ?thesis by (simp add: data_op_def text_op_def)
qed

lemma example_text_push:
  "(case object_exec (OpPushBack TNone (TString [104, 105]) TNone) 2 (sv_containerManager example_server) of
      Inl _ \<Rightarrow> False | Inr _ \<Rightarrow> True)"
  by code_simp

lemma example_server_container:
  "GetRegisteredContainer 1 example_session = Inr 2"
  "object_GetName 2 (sv_containerManager example_server) = Inr ''l''"
  "sv_auth example_server = Auth_new"
  using example_server_session(3) example_name
  by (simp_all add: GetRegisteredContainer_def example_server_def example_start_def server_start_def)

lemma example_access: "CheckObjectAccess t n c tokens Auth_new = Allow"
  by (simp add: CheckObjectAccess_def Auth_new_def)

lemma example_exec:
  obtains cm where "object_exec (the (data_op ''push_back'' example_fields)) 2 (sv_containerManager example_server) = Inr ((), cm)"
  using example_text_push unfolding example_text_op by (auto split: sum.splits)

lemma example_reader_state:
  "rd_state example_reader = ReadingLine" "rd_command example_reader = Command_new"
  "rd_buf example_reader = join_words (data_words decimal_lexical ''push_back'' 1 example_fields) @ crlf @
     field_bytes decimal_lexical example_fields @ []"
  by (simp_all add: example_reader_def session_OnAccept_def ReadCommand_def)

lemma example_sizes:
  "modifying_text ''push_back''" "length (field_bytes decimal_lexical example_fields) < 256 * 1024 * 1024"
  "length (field_bytes decimal_lexical example_fields) < 2 ^ 64" "example_fields \<noteq> []"
  by (simp_all add: modifying_text_def example_fields_ok)

lemma example_allowed: "CheckObjectAccess t n c (GetTokens s) (sv_auth example_server) = Allow"
  by (simp add: example_server_container example_access)

theorem text_data_command_effect_witness:
  "\<exists>rd1 cm. object_exec (OpPushBack TNone (TString [104, 105]) TNone) 2 (sv_containerManager example_server) = Inr ((), cm) \<and>
     reader_handler example_env decimal_lexical 1 example_reader example_server = Some (Inr rd1, example_server) \<and>
     rd_state rd1 = ReadingData 4 \<and>
     reader_handler example_env decimal_lexical 1 rd1 example_server =
       Some (Inr (ReadCommand (example_reader\<lparr> rd_buf := [] \<rparr>)),
             (publish_new (sv_containerManager example_server) (example_server\<lparr> sv_containerManager := cm \<rparr>))
               \<lparr> sv_sessions := sm_set 1 (SendAnswer (MakeAnswer success [] []) example_session) (sv_sessions example_server) \<rparr>)"
proof -
  obtain cm where e: "object_exec (the (data_op ''push_back'' example_fields)) 2 (sv_containerManager example_server) = Inr ((), cm)"
    by (rule example_exec)
  have "length (field_bytes decimal_lexical example_fields) = 4" by (simp add: example_fields_ok)
  with text_data_command_effect [OF decimal_lexical_ok example_fields_ok(1) example_sizes(4,2,1) example_reader_state
      example_server_session(1,2) example_server_container(1,2) example_allowed e, of example_env] e [unfolded example_text_op]
  show ?thesis by metis
qed

text \<open>The same bytes on a new connection.\<close>

definition example_bytes :: "byte list" where
  "example_bytes = rd_buf example_reader"

lemma example_pull: "reader_step env lx sid (session_OnAccept example_bytes, sv) (example_reader, sv)"
proof -
  have "reader_step env lx sid (session_OnAccept example_bytes, sv)
      ((session_OnAccept example_bytes)\<lparr> rd_buf := rd_buf (session_OnAccept example_bytes) @
          take (length example_bytes) (rd_socket (session_OnAccept example_bytes)),
        rd_socket := drop (length example_bytes) (rd_socket (session_OnAccept example_bytes)) \<rparr>, sv)"
    by (rule reader_step.pull) (simp_all add: session_OnAccept_def ReadCommand_def reads_text_def reader_handler_def
        example_bytes_def example_reader_def)
  then show ?thesis by (simp add: session_OnAccept_def ReadCommand_def example_bytes_def example_reader_def)
qed

lemma example_line:
  "reader_step example_env decimal_lexical 1 (example_reader, example_server)
     (waiting_for decimal_lexical ''push_back'' 1 example_fields [] example_reader, example_server)"
  by (intro reader_step.handle data_line_read [OF decimal_lexical_ok example_fields_ok(1) example_sizes(4,2,1)
        example_reader_state example_server_session(1,2) example_server_container(1,2) example_allowed])

lemma example_data:
  "\<exists>sv'. reader_step example_env decimal_lexical 1
     (waiting_for decimal_lexical ''push_back'' 1 example_fields [] example_reader, example_server)
     (ReadCommand (example_reader\<lparr> rd_buf := [] \<rparr>), sv')"
proof -
  obtain cm where "object_exec (the (data_op ''push_back'' example_fields)) 2 (sv_containerManager example_server) = Inr ((), cm)"
    by (rule example_exec)
  from data_arrived_run [OF decimal_lexical_ok example_fields_ok(1) example_sizes(4,3,1) example_server_session(1,2)
      example_server_container(1,2) example_allowed this]
  show ?thesis by (intro exI reader_step.handle)
qed

theorem text_fragmentation_irrelevant_witness:
  "\<exists>rd sv. (reader_step example_env decimal_lexical 1)\<^sup>*\<^sup>* (session_OnAccept example_bytes, example_server) (rd, sv) \<and>
     stream_run example_env decimal_lexical 1 (all_arrived (session_OnAccept example_bytes)) example_server = (Inr rd, sv)"
proof -
  obtain sv where "reader_step example_env decimal_lexical 1
      (waiting_for decimal_lexical ''push_back'' 1 example_fields [] example_reader, example_server)
      (ReadCommand (example_reader\<lparr> rd_buf := [] \<rparr>), sv)" using example_data by blast
  then have r: "(reader_step example_env decimal_lexical 1)\<^sup>*\<^sup>* (session_OnAccept example_bytes, example_server)
      (ReadCommand (example_reader\<lparr> rd_buf := [] \<rparr>), sv)"
    using example_pull example_line by (meson converse_rtranclp_into_rtranclp rtranclp.rtrancl_refl)
  have "stream_run example_env decimal_lexical 1 (all_arrived (session_OnAccept example_bytes)) example_server =
      (Inr (ReadCommand (example_reader\<lparr> rd_buf := [] \<rparr>)), sv)"
    by (rule text_fragmentation_irrelevant [OF r])
      (simp_all add: ReadCommand_def reads_text_def reader_handler_def example_reader_def session_OnAccept_def)
  then show ?thesis using r by blast
qed

end
