(* ===== verification/TextProperties.thy ===== *)
theory TextProperties
  imports TextEffects
begin

text \<open>
  Properties of the reader that hold whatever the rest of the server does: a command asks for its data once, a
  request of the binary protocol reaches its handler as it was sent; and the rules a command on a handle is
  checked against.
\<close>

section \<open>Handlers that need no data\<close>

definition answers_now :: "text_answer cpp \<times> tio_server \<Rightarrow> bool" where
  "answers_now r \<longleftrightarrow> (\<forall>answer moreDataSize. fst r = Inr (answer, moreDataSize) \<longrightarrow> moreDataSize = 0)"

lemma answers_now_bind: "(\<And>x s. answers_now (f x s)) \<Longrightarrow> answers_now (cm_bind r f)"
  by (auto simp: cm_bind_def answers_now_def split: sum.splits prod.splits)

lemma answers_now_try: "(\<And>e s. answers_now (f e s)) \<Longrightarrow> (\<And>x s. answers_now (k x s)) \<Longrightarrow> answers_now (try_then r f k)"
  by (auto simp: try_then_def answers_now_def split: sum.splits prod.splits)

lemma answers_now_catching: "(\<And>e s. answers_now (f e s)) \<Longrightarrow> answers_now r \<Longrightarrow> answers_now (catching f r)"
  by (auto simp: catching_def answers_now_def split: sum.splits prod.splits)

lemma answers_now_cases:
  "answers_now a \<Longrightarrow> answers_now b \<Longrightarrow> answers_now (if c then a else b)"
  "(\<And>x y. answers_now (g x y)) \<Longrightarrow> answers_now (case p of (x, y) \<Rightarrow> g x y)"
  "(\<And>x y. answers_now (h x y s)) \<Longrightarrow> answers_now ((case p of (x, y) \<Rightarrow> h x y) s)"
  by (simp_all split: prod.splits)

lemma answers_now_reply: "answers_now (reply a sv)" "answers_now (reply_ok sv)" "answers_now (reply_error a sv)"
  "answers_now (invalid_count sv)" "answers_now (Inl e, sv)"
  by (simp_all add: answers_now_def reply_def reply_ok_def reply_error_def invalid_count_def)

lemma answers_now_object: "(\<And>sv. answers_now (k sv)) \<Longrightarrow> answers_now (server_CheckObjectAccess t n c sid k sv)"
  unfolding server_CheckObjectAccess_def by (rule answers_now_bind) (simp add: answers_now_reply)

lemma answers_now_command: "(\<And>sv. answers_now (k sv)) \<Longrightarrow> answers_now (server_CheckCommandAccess c sid k sv)"
  unfolding server_CheckCommandAccess_def by (rule answers_now_bind) (simp add: answers_now_reply)

lemma answers_now_handle: "(\<And>x sv. answers_now (k x sv)) \<Longrightarrow> answers_now (with_handle lx cmd sid k sv)"
  unfolding with_handle_def by (rule answers_now_try) (simp_all add: answers_now_reply)

lemmas answers_now_intros =
  answers_now_cases answers_now_bind answers_now_try answers_now_catching answers_now_reply answers_now_object
  answers_now_command answers_now_handle

lemma other_commands_answer:
  "answers_now (OnCommand_Ping cmd sv)" "answers_now (OnCommand_Version sv)" "answers_now (OnCommand_ListHandles cmd sv)"
  "answers_now (OnCommand_CreateContainer_OpenContainer env cmd sid sv)" "answers_now (OnCommand_CloseContainer lx cmd sid sv)"
  "answers_now (OnCommand_DeleteContainer env cmd sid sv)" "answers_now (OnCommand_Pop env lx cmd sid sv)"
  "answers_now (OnCommand_Clear lx cmd sid sv)" "answers_now (OnCommand_GetRecordCount lx cmd sid sv)"
  "answers_now (OnCommand_SubscribeUnsubscribe env lx cmd sid sv)" "answers_now (OnCommand_CustomCommand lx cmd sid sv)"
  "answers_now (OnCommand_Auth cmd sid sv)" "answers_now (OnCommand_PauseResume cmd sid sv)"
  "answers_now (OnCommand_SetPermission cmd sv)" "answers_now (OnCommand_Query env lx cmd sid sv)"
  "answers_now (OnCommand_QueryEx env lx cmd sid sv)" "answers_now (OnCommand_GroupAdd env cmd sid sv)"
  "answers_now (OnCommand_GroupSubscribe env cmd sid sv)"
  unfolding OnCommand_Ping_def OnCommand_Version_def OnCommand_ListHandles_def OnCommand_CreateContainer_OpenContainer_def
    OnCommand_CloseContainer_def OnCommand_DeleteContainer_def OnCommand_Pop_def OnCommand_Clear_def
    OnCommand_GetRecordCount_def OnCommand_SubscribeUnsubscribe_def OnCommand_CustomCommand_def OnCommand_Auth_def
    OnCommand_PauseResume_def OnCommand_SetPermission_def OnCommand_Query_def OnCommand_QueryEx_def
    OnCommand_GroupAdd_def OnCommand_GroupSubscribe_def Let_def register_and_reply_def
  by (rule answers_now_intros)+


section \<open>Data is asked for once\<close>

definition data_command :: "command \<Rightarrow> bool" where
  "data_command cmd \<longleftrightarrow> of_ascii (cmd_command cmd) \<in> {''push_back'', ''push_front'', ''set'', ''insert'', ''delete'',
     ''get_property'', ''set_property'', ''get'', ''modify''}"

text \<open>The data a command announces.\<close>

definition announces :: "lexical \<Rightarrow> command \<Rightarrow> u64 \<Rightarrow> bool" where
  "announces lx cmd n \<longleftrightarrow> (\<exists>fs. ExtractFieldSet lx (tl (cmd_params cmd)) = Inr (fs, n))"

lemma ParseDataCommand_asks:
  assumes "ParseDataCommand lx cmd sid sv = (Inr (n, rest), sv')"
  shows "n \<noteq> 0 \<Longrightarrow> announces lx cmd n"
    and "announces lx cmd k \<Longrightarrow> k \<le> of_nat (length (GetDataBuffer cmd)) \<Longrightarrow> n = 0"
  using assms unfolding ParseDataCommand_def ExtractFieldSetFrom_def announces_def
  by (auto elim!: cm_bind_InrE simp: Let_def bind_res_def split: if_splits sum.splits)

definition asks :: "(u64 \<Rightarrow> bool) \<Rightarrow> text_answer cpp \<times> tio_server \<Rightarrow> bool" where
  "asks P r \<longleftrightarrow> (\<forall>answer n. fst r = Inr (answer, n) \<longrightarrow> (n = 0 \<longrightarrow> answer \<noteq> []) \<and> (n \<noteq> 0 \<longrightarrow> P n))"

lemma asks_bind: "(\<And>x s. r = (Inr x, s) \<Longrightarrow> asks P (f x s)) \<Longrightarrow> asks P (cm_bind r f)"
  by (auto simp: cm_bind_def asks_def split: sum.splits prod.splits)

lemma asks_try: "(\<And>e s. asks P (f e s)) \<Longrightarrow> (\<And>x s. asks P (k x s)) \<Longrightarrow> asks P (try_then r f k)"
  by (auto simp: try_then_def asks_def split: sum.splits prod.splits)

lemma asks_catching: "(\<And>e s. asks P (f e s)) \<Longrightarrow> asks P r \<Longrightarrow> asks P (catching f r)"
  by (auto simp: catching_def asks_def split: sum.splits prod.splits)

lemma asks_reply: "asks P (reply_ok sv)" "asks P (reply_error a sv)" "asks P (Inl e, sv)"
  "asks P (reply (MakeAnswer ty b stream) sv)" "asks P (reply (MakeDataAnswer lx k v m stream) sv)"
  by (auto simp: asks_def reply_def reply_ok_def reply_error_def MakeAnswer_def MakeAnswerEnd_def MakeDataAnswer_def
      SerializeData_def MakeAnswerStart_def ascii_def)

lemma asks_object: "(\<And>sv. asks P (k sv)) \<Longrightarrow> asks P (server_CheckObjectAccess t n c sid k sv)"
  unfolding server_CheckObjectAccess_def by (rule asks_bind) (simp add: asks_reply)

lemma asks_cases:
  "(c \<Longrightarrow> asks P a) \<Longrightarrow> asks P b \<Longrightarrow> asks P (if c then a else b)"
  "(\<And>x y. p = (x, y) \<Longrightarrow> asks P (h x y s)) \<Longrightarrow> asks P ((case p of (x, y) \<Rightarrow> h x y) s)"
  "(\<And>x. asks P (g x)) \<Longrightarrow> asks P e \<Longrightarrow> asks P (case opt of None \<Rightarrow> e | Some x \<Rightarrow> g x)"
  by (simp_all split: prod.splits option.splits)

lemma asks_data_size: "n \<noteq> 0 \<Longrightarrow> P n \<Longrightarrow> asks P (Inr ([], n), sv)"
  by (simp add: asks_def)

lemmas asks_intros = asks_cases asks_bind asks_try asks_catching asks_reply asks_object asks_data_size

lemma asks_modify_record: "asks P (modify_record lx ob key txt sv)"
  unfolding modify_record_def
  by (intro asks_intros) (auto split: tio_data.splits intro!: asks_intros)

lemma data_command_asks:
  assumes "\<And>n rest sv'. ParseDataCommand lx cmd sid sv = (Inr (n, rest), sv') \<Longrightarrow> n \<noteq> 0 \<Longrightarrow> P n"
  shows "asks P (OnModify env lx cmd sid sv)" "asks P (OnAnyDataCommand env lx cmd sid sv)"
  unfolding OnModify_def OnAnyDataCommand_def text_get_def text_set_property_def text_get_property_def
  using assms by (intro asks_intros asks_modify_record; auto)+

lemma answers_now_failed: "answers_now r \<Longrightarrow> answers_now (catching (\<lambda>_ sv. (Inl e, sv)) r)"
  by (intro answers_now_intros)

lemma dispatch_text_cases:
  assumes "dispatch_text env lx cmd sid sv = Some r"
  shows "answers_now r \<or> data_command cmd \<and> r \<in> {OnModify env lx cmd sid sv, OnAnyDataCommand env lx cmd sid sv}"
  using assms unfolding dispatch_text_def Let_def data_command_def
  by (simp only: option.inject option.distinct insert_iff simp_thms split: if_split_asm)
    (simp_all only: other_commands_answer simp_thms HOL.eq_commute [of _ r])

lemma dispatch_data_command:
  assumes "data_command cmd"
  shows "\<exists>r \<in> {OnModify env lx cmd sid sv, OnAnyDataCommand env lx cmd sid sv}. dispatch_text env lx cmd sid sv = Some r"
  using assms unfolding dispatch_text_def Let_def data_command_def
  by (elim insertE emptyE)
    (simp_all only: list.inject char.inject simp_thms insert_iff if_True if_False list.distinct empty_iff option.inject
      bex_simps)

lemma OnTextCommand_asks:
  assumes "OnTextCommand env lx cmd sid sv = (Inr (a, n), sv')" and "n \<noteq> 0"
  shows "data_command cmd \<and> announces lx cmd n"
proof -
  obtain r where d: "dispatch_text env lx cmd sid sv = Some r"
    using assms by (auto simp: OnTextCommand_def reply_error_def reply_def split: option.splits)
  then have r: "r = (Inr (a, n), sv')"
    using assms(1) by (auto simp: OnTextCommand_def catching_def split: sum.splits prod.splits if_splits)
  then have "\<not> answers_now r" using assms(2) by (simp add: answers_now_def)
  then have c: "data_command cmd" "r \<in> {OnModify env lx cmd sid sv, OnAnyDataCommand env lx cmd sid sv}"
    using dispatch_text_cases [OF d] by blast+
  have "asks (announces lx cmd) r"
    using c(2) data_command_asks [of lx cmd sid sv "announces lx cmd" env] ParseDataCommand_asks(1) by blast
  then show ?thesis using c(1) r assms(2) by (simp add: asks_def)
qed

lemma OnTextCommand_answers:
  assumes "data_command cmd" and "announces lx cmd k" and "k \<le> of_nat (length (GetDataBuffer cmd))"
    and "OnTextCommand env lx cmd sid sv = (Inr (a, n), sv')"
  shows "n = 0 \<and> a \<noteq> []"
proof -
  obtain r where r: "r \<in> {OnModify env lx cmd sid sv, OnAnyDataCommand env lx cmd sid sv}"
    "dispatch_text env lx cmd sid sv = Some r"
    using dispatch_data_command [OF assms(1)] by blast
  then have "r = (Inr (a, n), sv')"
    using assms(4) by (auto simp: OnTextCommand_def catching_def split: sum.splits prod.splits if_splits)
  moreover have "asks (\<lambda>_. False) r"
    using r(1) data_command_asks [of lx cmd sid sv "\<lambda>_. False" env] ParseDataCommand_asks(2) [OF _ assms(2,3)] by blast
  ultimately show ?thesis by (auto simp: asks_def)
qed

text \<open>The steps of one session, with any changes of the server between them.\<close>

inductive session_step :: "server_env \<Rightarrow> lexical \<Rightarrow> nat \<Rightarrow> reader \<Rightarrow> reader \<Rightarrow> bool" for env lx sid where
  "reader_step env lx sid (rd, sv) (rd', sv') \<Longrightarrow> session_step env lx sid rd rd'"

definition waiting_ok :: "lexical \<Rightarrow> reader \<Rightarrow> bool" where
  "waiting_ok lx rd \<longleftrightarrow>
     (case rd_state rd of
        ReadingLine \<Rightarrow> rd_command rd = Command_new
      | ReadingData n \<Rightarrow> cmd_data (rd_command rd) = None \<and> data_command (rd_command rd) \<and>
          announces lx (rd_command rd) (of_nat n) \<and> n < 2 ^ 64
      | _ \<Rightarrow> True)"

lemma waiting_ok_simps [simp]:
  "waiting_ok lx (ReadCommand rd)" "waiting_ok lx (ReadBinaryProtocolMessage rd)"
  "waiting_ok lx (rd\<lparr> rd_state := NotReading \<rparr>)" "waiting_ok lx (rd\<lparr> rd_state := ReadingHttp \<rparr>)"
  "waiting_ok lx (rd\<lparr> rd_buf := x, rd_socket := y \<rparr>) \<longleftrightarrow> waiting_ok lx rd"
  by (auto simp: waiting_ok_def ReadCommand_def ReadBinaryProtocolMessage_def split: reading.splits)

lemma run_text_command_waits:
  assumes "run_text_command env lx sid rd sv = (Inr rd', sv')" and "cmd_data (rd_command rd) = None"
  shows "waiting_ok lx rd'"
proof -
  obtain a n sv1 where t: "OnTextCommand env lx (rd_command rd) sid sv = (Inr (a, n), sv1)"
    and rd': "rd' = (if n \<noteq> 0 then rd\<lparr> rd_state := ReadingData (unat n) \<rparr> else ReadCommand rd)"
    using assms(1) unfolding run_text_command_def by (elim cm_bind_InrE) (auto elim!: cm_bind_InrE split: if_splits)
  show ?thesis
    using OnTextCommand_asks [OF t] assms(2) rd' unsigned_less [of n, where ?'a = nat]
    by (simp add: waiting_ok_def ReadCommand_def)
qed

lemma Parse_data: "Parse lx line cmd = Inr cmd' \<Longrightarrow> cmd_data cmd' = cmd_data cmd"
  by (auto simp: Parse_def split: list.splits)

lemma OnReadCommand_waits:
  assumes "OnReadCommand env lx False sid rd sv = (Inr rd', sv')" and "rd_command rd = Command_new"
  shows "waiting_ok lx rd'"
  using assms(1) unfolding OnReadCommand_def
proof (elim cm_bind_InrE, goal_cases)
  case (1 b sv1)
  have d: "cmd_data cmd = None" if "Parse lx line Command_new = Inr cmd" for line cmd
    using Parse_data [OF that] by (simp add: Command_new_def)
  from 1 show ?case
    using check_error_False [OF 1(1)] assms(2)
    by (auto simp: Let_def split_def d split: if_splits elim!: cm_bind_InrE dest!: run_text_command_waits)
qed

lemma session_step_waits:
  assumes "session_step env lx sid rd rd'" and "waiting_ok lx rd"
  shows "waiting_ok lx rd'"
  using assms(1)
proof cases
  case (1 sv sv')
  from 1 show ?thesis
  proof (cases rule: reader_step.cases)
    case (pull n)
    then show ?thesis using assms(2) by simp
  next
    case handle
    show ?thesis
    proof (cases "rd_state rd")
      case ReadingLine
      then show ?thesis using handle assms(2) OnReadCommand_waits
        by (auto simp: reader_handler_def waiting_ok_def [of lx rd] split: if_splits)
    next
      case (ReadingData n)
      then show ?thesis using handle OnCommandData_buf
        by (fastforce simp: reader_handler_def waiting_ok_def split: if_splits)
    next
      case ReadingHeader
      then show ?thesis using handle OnBinaryProtocolMessageHeader_state
        by (fastforce simp: reader_handler_def waiting_ok_def reads_text_def split: if_splits reading.splits)
    next
      case (ReadingBody b m n)
      then show ?thesis using handle OnBinaryProtocolMessage_state
        by (fastforce simp: reader_handler_def waiting_ok_def reads_text_def split: if_splits reading.splits)
    qed (use handle in \<open>simp_all add: reader_handler_def\<close>)
  qed
qed

text \<open>
  C11: when the bytes a text command has asked for are there, the command does not ask for more and has an answer: what
  \<^verbatim>\<open>OnCommandData\<close> asserts holds in every session, whatever other sessions have done to the server since the
  command line was read.
\<close>

theorem data_command_asks_once:
  assumes "(session_step env lx sid)\<^sup>*\<^sup>* (session_OnAccept bs) rd" and "rd_state rd = ReadingData n"
    and "n \<le> length (rd_buf rd)"
    and "OnTextCommand env lx (fill_data_buffer n (rd_buf rd) (rd_command rd)) sid sv = (Inr (answer, moreDataSize), sv')"
  shows "moreDataSize = 0 \<and> answer \<noteq> []"
proof -
  have "waiting_ok lx rd"
    using assms(1) by (induction rule: rtranclp_induct) (auto simp: session_OnAccept_def dest: session_step_waits)
  then have w: "cmd_data (rd_command rd) = None" "data_command (rd_command rd)" "announces lx (rd_command rd) (of_nat n)"
    using assms(2) by (simp_all add: waiting_ok_def)
  let ?cmd = "fill_data_buffer n (rd_buf rd) (rd_command rd)"
  have "data_command ?cmd" "announces lx ?cmd (of_nat n)" "length (GetDataBuffer ?cmd) = n"
    using w assms(3) by (simp_all add: data_command_def announces_def fill_data_buffer_def GetDataBuffer_def)
  then show ?thesis using OnTextCommand_answers [OF _ _ _ assms(4)] by simp
qed


theorem data_command_asks_once_witness:
  "\<exists>rd answer sv'. (session_step example_env decimal_lexical 1)\<^sup>*\<^sup>* (session_OnAccept example_bytes) rd \<and>
     rd_state rd = ReadingData 4 \<and>
     OnTextCommand example_env decimal_lexical (fill_data_buffer 4 (rd_buf rd) (rd_command rd)) 1 example_server =
       (Inr (answer, 0), sv') \<and> answer \<noteq> []"
proof -
  let ?rd = "waiting_for decimal_lexical ''push_back'' 1 example_fields [] example_reader"
  let ?cmd = "fill_data_buffer 4 (rd_buf ?rd) (rd_command ?rd)"
  have r: "(session_step example_env decimal_lexical 1)\<^sup>*\<^sup>* (session_OnAccept example_bytes) ?rd"
    using session_step.intros [OF example_pull] session_step.intros [OF example_line]
    by (meson converse_rtranclp_into_rtranclp rtranclp.rtrancl_refl)
  have st: "rd_state ?rd = ReadingData 4" "4 \<le> length (rd_buf ?rd)" by (simp_all add: waiting_for_def example_fields_ok)
  obtain cm where e: "object_exec (the (data_op ''push_back'' example_fields)) 2 (sv_containerManager example_server) = Inr ((), cm)"
    by (rule example_exec)
  have cmd: "cmd_command ?cmd = ascii ''push_back''" "cmd_data ?cmd = Some (field_bytes decimal_lexical example_fields)"
    "cmd_params ?cmd = dec_nat (unat (1 :: u32)) # concat (map (field_words decimal_lexical) example_fields)"
    by (simp_all add: waiting_for_def fill_data_buffer_def GetDataBuffer_def example_fields_ok text_command_def Command_new_def)
  obtain sv' where "OnTextCommand example_env decimal_lexical ?cmd 1 example_server = (Inr (MakeAnswer success [] [], 0), sv')"
    using OnTextCommand_data(2) [OF decimal_lexical_ok example_fields_ok(1) example_sizes(4,3,1) cmd(1,3)
        example_server_session(1,2) example_server_container(1,2) example_allowed cmd(2)] e by simp
  with data_command_asks_once [OF r st this] r st show ?thesis by blast
qed


section \<open>A rule that is not enforced\<close>

text \<open>
  C37: a command on a handle is checked against the rules of an object whose type is the name of the container, so a
  rule that denies the command to a token of the session does not stop it: the operation is executed and
  the answer is a success.
\<close>

theorem denied_command_still_runs:
  assumes lx: "lexical_ok lx" and fs: "list_all (field_ok lx) fs" "fs \<noteq> []" "length (field_bytes lx fs) < 2 ^ 64"
    and c: "modifying_text c" "cmd_command cmd = ascii c"
    and cmd: "cmd_params cmd = dec_nat (unat h) # concat (map (field_words lx) fs)" "cmd_data cmd = Some (field_bytes lx fs)"
    and s: "session_at sv sid = Some s" "sm_inv (sv_sessions sv)" "GetRegisteredContainer h s = Inr ob"
    and ob: "object_GetName ob (sv_containerManager sv) = Inr name" "object_GetType ob (sv_containerManager sv) = Inr type"
    and rule: "type \<noteq> name" "token \<in> set (GetTokens s)" "sv_auth sv = AddObjectRule type name c token Deny Auth_new"
    and exec: "object_exec (the (data_op c fs)) ob (sv_containerManager sv) = Inr ((), cm)"
  shows "CheckObjectAccess type name c (GetTokens s) (sv_auth sv) = Deny \<and>
    OnTextCommand env lx cmd sid sv =
      (Inr (MakeAnswer success [] [], 0), publish_new (sv_containerManager sv) (sv\<lparr> sv_containerManager := cm \<rparr>))"
proof -
  have "CheckObjectAccess type name c (GetTokens s) (sv_auth sv) = Deny"
    using denied_AddObjectRule [OF auth_inv_ops(1)] denied_check rule by metis
  moreover have "CheckObjectAccess name name c (GetTokens s) (sv_auth sv) = Allow"
    using rule by (simp add: CheckObjectAccess_def AddObjectRule_def Auth_new_def fullQualifiedName_def Let_def)
  ultimately show ?thesis
    using OnTextCommand_data(2) [OF lx fs c cmd(1) s ob(1) _ cmd(2)] exec by simp
qed


definition guest_session :: tio_session where
  "guest_session = AddToken ''guest'' example_session"

definition guarded_server :: tio_server where
  "guarded_server = example_server\<lparr> sv_sessions := [(1, guest_session)],
     sv_auth := AddObjectRule ''volatile_list'' ''l'' ''push_back'' ''guest'' Deny Auth_new \<rparr>"

lemma guarded_type: "object_GetType 2 (sv_containerManager example_server) = Inr ''volatile_list''"
  by code_simp

theorem denied_command_still_runs_witness:
  "\<exists>cm. CheckObjectAccess ''volatile_list'' ''l'' ''push_back'' (GetTokens guest_session) (sv_auth guarded_server) = Deny \<and>
     OnTextCommand example_env decimal_lexical
       ((text_command (data_words decimal_lexical ''push_back'' 1 example_fields))\<lparr> cmd_data := Some [104, 105, 13, 10] \<rparr>)
       1 guarded_server =
       (Inr (MakeAnswer success [] [], 0),
        publish_new (sv_containerManager guarded_server) (guarded_server\<lparr> sv_containerManager := cm \<rparr>))"
proof -
  let ?cmd = "(text_command (data_words decimal_lexical ''push_back'' 1 example_fields))\<lparr> cmd_data := Some [104, 105, 13, 10] \<rparr>"
  obtain cm where e: "object_exec (the (data_op ''push_back'' example_fields)) 2 (sv_containerManager guarded_server) = Inr ((), cm)"
    using example_exec by (auto simp: guarded_server_def)
  have cmd: "cmd_command ?cmd = ascii ''push_back''" "cmd_data ?cmd = Some (field_bytes decimal_lexical example_fields)"
    "cmd_params ?cmd = dec_nat (unat (1 :: u32)) # concat (map (field_words decimal_lexical) example_fields)"
    by (simp_all add: example_fields_ok text_command_def Command_new_def)
  have s: "session_at guarded_server 1 = Some guest_session" "sm_inv (sv_sessions guarded_server)"
    "GetRegisteredContainer 1 guest_session = Inr 2" "''guest'' \<in> set (GetTokens guest_session)"
    "object_GetName 2 (sv_containerManager guarded_server) = Inr ''l''"
    "object_GetType 2 (sv_containerManager guarded_server) = Inr ''volatile_list''"
    using example_server_container guarded_type
    by (simp_all add: guarded_server_def guest_session_def sm_inv_def AddToken_def GetTokens_def GetRegisteredContainer_def)
  have "''volatile_list'' \<noteq> ''l''"
    "sv_auth guarded_server = AddObjectRule ''volatile_list'' ''l'' ''push_back'' ''guest'' Deny Auth_new"
    by (simp_all add: guarded_server_def)
  from denied_command_still_runs [OF decimal_lexical_ok example_fields_ok(1) example_sizes(4,3,1) cmd(1,3,2) s(1-3,5,6)
      this(1) s(4) this(2) e]
  show ?thesis by blast
qed


section \<open>A binary request\<close>

text \<open>
  C12: a request that lies encoded in the socket of a binary session reaches \<^verbatim>\<open>OnBinaryCommand\<close> after two
  reads, with the fields it was made from, and the next request is then read from the byte behind it.
\<close>

theorem binary_request_reaches_handler:
  assumes fs: "list_all pr1_field_ok fs" "length fs < 2 ^ 16" "fits fs"
    and rd: "rd_state rd = ReadingHeader" "rd_socket rd = wire q fs @ rest"
    and s: "session_at sv sid = Some s" "sm_inv (sv_sessions sv)" "session_at sv1 sid = Some s1" "sm_inv (sv_sessions sv1)"
  shows "\<exists>rd1 m. reader_handler env lx sid rd sv = Some (Inr rd1, sv) \<and> carries m fs \<and>
    reader_handler env lx sid rd1 sv1 =
      Some (cm_bind (OnBinaryCommand env sid m sv1) (\<lambda>_ sv. (Inr (rd\<lparr> rd_socket := rest \<rparr>), sv)))"
proof -
  let ?n = "length (encode_fields fs)"
  have ok: "check_error False sid sv = (Inr False, sv)" "check_error False sid sv1 = (Inr False, sv1)"
    unfolding check_error_def by (intro with_session_keeps [OF s(1,2)] with_session_keeps [OF s(3,4)]; simp add: CheckError_def)+
  obtain m where m: "unparsed (wire q fs) = Inr m" "carries m fs" using wire_carries [OF fs] by blast
  have t: "take 8 (wire q fs) = message_header_bytes (of_nat ?n) (of_nat (length fs)) q" "drop 8 (wire q fs) = encode_fields fs"
    "length (message_header_bytes (of_nat ?n) (of_nat (length fs)) q) = 8"
    by (simp_all add: wire_def message_header_bytes_def)
  then obtain b m0 sb where r: "pr1_message_new_get_buffer_for_receive (take 8 (wire q fs)) = Inr (b, m0)"
    "sb_poke (pm_stream_buffer m0) b (encode_fields fs) = Inr sb" "m = m0\<lparr> pm_stream_buffer := sb \<rparr>"
    using m(1) by (auto simp: unparsed_def bind_res_Inr_iff)
  have size: "header_message_size (take 8 (wire q fs)) = Inr (of_nat ?n)" "unat (of_nat ?n :: u32) = ?n"
    using message_header_reads(1) [of "of_nat ?n" "of_nat (length fs)" q "[]"] t(1) fs(3)
    by (simp_all add: fits_def unat_of_nat)
  let ?rd1 = "rd\<lparr> rd_socket := encode_fields fs @ rest, rd_state := ReadingBody b m0 ?n \<rparr>"
  have w: "8 \<le> length (wire q fs)" "take 8 (rd_socket rd) = take 8 (wire q fs)" "drop 8 (rd_socket rd) = encode_fields fs @ rest"
    using t rd(2) by (auto simp: wire_def)
  have "reader_handler env lx sid rd sv = Some (Inr ?rd1, sv)"
    using rd(1) w ok r(1) size rd(2) by (simp add: reader_handler_def OnBinaryProtocolMessageHeader_def)
  moreover have "reader_handler env lx sid ?rd1 sv1 =
      Some (cm_bind (OnBinaryCommand env sid m sv1) (\<lambda>_ sv. (Inr (rd\<lparr> rd_socket := rest \<rparr>), sv)))"
    using ok(2) r(2,3) rd(1)
    by (cases rd) (simp add: reader_handler_def OnBinaryProtocolMessage_def ReadBinaryProtocolMessage_def)
  ultimately show ?thesis using m(2) by blast
qed

theorem binary_request_reaches_handler_witness:
  "\<exists>rd1 m. reader_handler example_env decimal_lexical 1
       \<lparr> rd_buf = [], rd_socket = wire 1 (request_fields TIO_COMMAND_PUSH_BACK 1 None (Some (TInt 5)) None) @ [],
          rd_command = Command_new, rd_state = ReadingHeader \<rparr> example_server = Some (Inr rd1, example_server) \<and>
     carries m (request_fields TIO_COMMAND_PUSH_BACK 1 None (Some (TInt 5)) None) \<and>
     reader_handler example_env decimal_lexical 1 rd1 example_server =
       Some (cm_bind (OnBinaryCommand example_env 1 m example_server) (\<lambda>_ sv. (Inr
         \<lparr> rd_buf = [], rd_socket = [], rd_command = Command_new, rd_state = ReadingHeader \<rparr>, sv)))"
proof -
  let ?fs = "request_fields TIO_COMMAND_PUSH_BACK 1 None (Some (TInt 5)) None"
  have "fits ?fs" by (simp add: fits_def request_fields_def opt_field_def int_field_def data_field_def)
  from binary_request_reaches_handler [OF request_fields_ok this _ _ example_server_session(1,2) example_server_session(1,2),
      where rd = "\<lparr> rd_buf = [], rd_socket = wire 1 ?fs @ [], rd_command = Command_new, rd_state = ReadingHeader \<rparr>"
        and q = 1 and rest = "[]" and env = example_env and lx = decimal_lexical]
  show ?thesis by simp
qed

end
