(* ===== verification/ProtocolLog.thy ===== *)
theory ProtocolLog
  imports ServerEffects
begin

text \<open>
  The protocol log (\<^verbatim>\<open>class BinaryProtocolLogger\<close> of \<^verbatim>\<open>server/tio/BinaryProtocolLogger.h\<close>): one line of text for every
  command that changes a container, and the circular queue through which the lines reach the thread that writes
  the file.  What a \<^verbatim>\<open>lexical_cast<string>\<close> prints for a double is a parameter.
\<close>

section \<open>Lines\<close>

record logger =
  lg_globalContainerHandle :: "(string \<times> u32) list"
  lg_lastGlobalHandle :: u32
  lg_f_valid :: bool
  lg_timeString :: "byte list"
  lg_raw :: "byte list list"

definition BinaryProtocolLogger_new :: "byte list \<Rightarrow> logger" where
  "BinaryProtocolLogger_new uninitialised =
     \<lparr> lg_globalContainerHandle = [], lg_lastGlobalHandle = 0, lg_f_valid = False, lg_timeString = uninitialised,
       lg_raw = [] \<rparr>"

definition logger_Start :: "logger \<Rightarrow> logger" where
  "logger_Start lg = lg\<lparr> lg_f_valid := True \<rparr>"

definition UpdateTime :: "byte list \<Rightarrow> logger \<Rightarrow> logger" where
  "UpdateTime now lg = lg\<lparr> lg_timeString := now \<rparr>"

text \<open>A line handed to the queue of lines.\<close>

definition RawLog :: "byte list \<Rightarrow> logger \<Rightarrow> logger" where
  "RawLog line lg = lg\<lparr> lg_raw := lg_raw lg @ [line] \<rparr>"

definition log_string :: "byte list \<Rightarrow> byte list" where
  "log_string s = ascii '',s'' @ dec_nat (length s) @ ascii '','' @ s"

definition SerializeTioData :: "(u64 \<Rightarrow> byte list) \<Rightarrow> byte list \<Rightarrow> tio_data \<Rightarrow> byte list" where
  "SerializeTioData format_d lineLog d =
     lineLog @
     (case d of
        TNone \<Rightarrow> ascii '',n,''
      | TString s \<Rightarrow> log_string s
      | TInt i \<Rightarrow> (let serialized = dec_int (sint i) in ascii '',i'' @ dec_nat (length serialized) @ ascii '','' @ serialized)
      | TDouble x \<Rightarrow> (let serialized = format_d x in ascii '',d'' @ dec_nat (length serialized) @ ascii '','' @ serialized))"

text \<open>The commands that are logged with key, value and metadata.\<close>

definition log_command :: "u32 \<Rightarrow> string option" where
  "log_command command =
     (if command = TIO_COMMAND_PUSH_BACK then Some ''push_back''
      else if command = TIO_COMMAND_PUSH_FRONT then Some ''push_front''
      else if command = TIO_COMMAND_POP_BACK then Some ''pop_back''
      else if command = TIO_COMMAND_POP_FRONT then Some ''pop_front''
      else if command = TIO_COMMAND_SET then Some ''set''
      else if command = TIO_COMMAND_INSERT then Some ''insert''
      else if command = TIO_COMMAND_DELETE then Some ''delete''
      else if command = TIO_COMMAND_CLEAR then Some ''clear''
      else if command = TIO_COMMAND_PROPSET then Some ''propset''
      else None)"

text \<open>The handle of a container in the log; opening it for the first time gives it one.\<close>

definition global_handle :: "u32 \<Rightarrow> string \<Rightarrow> logger \<Rightarrow> bool \<times> u32 \<times> logger" where
  "global_handle command name lg =
     (let globalHandle = (case sm_find name (lg_globalContainerHandle lg) of None \<Rightarrow> 0 | Some h \<Rightarrow> h);
          (h, last) = (if globalHandle = 0 \<and> (command = TIO_COMMAND_CREATE \<or> command = TIO_COMMAND_OPEN)
                       then (lg_lastGlobalHandle lg + 1, lg_lastGlobalHandle lg + 1)
                       else (globalHandle, lg_lastGlobalHandle lg))
      in (globalHandle \<noteq> 0, h,
          lg\<lparr> lg_globalContainerHandle := sm_set name h (lg_globalContainerHandle lg), lg_lastGlobalHandle := last \<rparr>))"

definition log_record :: "(u64 \<Rightarrow> byte list) \<Rightarrow> byte list \<Rightarrow> u32 \<Rightarrow> pr1_message \<Rightarrow> logger \<Rightarrow> unit cpp \<times> logger" where
  "log_record format_d logLine currentHandle message lg =
     (case Pr1MessageGetHandleKeyValueAndMetadata message (Some TNone) (Some TNone) (Some TNone) of
        Inl e \<Rightarrow> (Inl e, lg)
      | Inr (_, key, v, metadata) \<Rightarrow>
          let logLine = logLine @ ascii '','' @ dec_nat (unat currentHandle);
              logLine = SerializeTioData format_d logLine (or_null key);
              logLine = SerializeTioData format_d logLine (or_null v);
              logLine = SerializeTioData format_d logLine (or_null metadata)
          in (Inr (), RawLog (logLine @ [10]) lg))"

text \<open>
  A \<^verbatim>\<open>group_add\<close> without one of its names leaves the switch and is logged like a command with key, value and metadata,
  without the name of a command.
\<close>

definition log_group_add :: "(u64 \<Rightarrow> byte list) \<Rightarrow> byte list \<Rightarrow> u32 \<Rightarrow> pr1_message \<Rightarrow> logger \<Rightarrow> unit cpp \<times> logger" where
  "log_group_add format_d logLine currentHandle message lg =
     (case Pr1MessageGetField_string message (ucast MESSAGE_FIELD_ID_GROUP_NAME) of
        Inl e \<Rightarrow> (Inl e, lg)
      | Inr None \<Rightarrow> log_record format_d logLine currentHandle message lg
      | Inr (Some groupName) \<Rightarrow>
          (case Pr1MessageGetField_string message (ucast MESSAGE_FIELD_ID_CONTAINER_NAME) of
             Inl e \<Rightarrow> (Inl e, lg)
           | Inr None \<Rightarrow> log_record format_d logLine currentHandle message lg
           | Inr (Some containerName) \<Rightarrow>
               (Inr (), RawLog (logLine @ ascii '',group_add,'' @ dec_nat (unat currentHandle) @
                  log_string groupName @ log_string containerName @ [10]) lg)))"

definition logger_LogMessage :: "(u64 \<Rightarrow> byte list) \<Rightarrow> container_manager \<Rightarrow> nat \<Rightarrow> pr1_message \<Rightarrow> logger \<Rightarrow> unit cpp \<times> logger" where
  "logger_LogMessage format_d cm container message lg =
     (if \<not> lg_f_valid lg then (Inr (), lg)
      else
        cm_bind (Pr1MessageGetField_int message (ucast MESSAGE_FIELD_ID_COMMAND), lg) (\<lambda>r lg.
        case r of
          None \<Rightarrow> (Inr (), lg)
        | Some command \<Rightarrow>
            cm_bind (object_GetName container cm, lg) (\<lambda>containerName lg.
            let (handleAlreadyOpen, currentHandle, lg) = global_handle command containerName lg;
                logLine = lg_timeString lg
            in
            if command = TIO_COMMAND_CREATE \<or> command = TIO_COMMAND_OPEN
            then
              if handleAlreadyOpen then (Inr (), lg)
              else
                cm_bind (object_GetType container cm, lg) (\<lambda>containerType lg.
                  (Inr (), RawLog (logLine @ ascii '',create,'' @ dec_nat (unat currentHandle) @
                     log_string (ascii containerName) @ log_string (ascii containerType) @ [10]) lg))
            else
              case log_command command of
                Some name \<Rightarrow> log_record format_d (logLine @ ascii '','' @ ascii name) currentHandle message lg
              | None \<Rightarrow>
                  if command = TIO_COMMAND_GROUP_ADD then log_group_add format_d logLine currentHandle message lg
                  else (Inr (), lg))))"

end
