(* ===== verification/LogReplay.thy ===== *)
theory LogReplay
  imports ProtocolLog
begin

text \<open>
  The tool that replays a protocol log to a server (\<^verbatim>\<open>tools/TioLogReplayCpp/tiologreplay.cpp\<close>): how it takes a line
  apart, and the requests it makes.  What \<^verbatim>\<open>get_time\<close>, \<^verbatim>\<open>mktime\<close> and the local time zone make of the
  time of a line, which only decides how long the tool waits, and \<^verbatim>\<open>stod\<close> of a text are parameters.  The requests
  are those of the client library and are recorded here in their order; that one of them fails is not considered.
\<close>

section \<open>Texts\<close>

text \<open>\<^verbatim>\<open>Utils::Split\<close> without \<^verbatim>\<open>skip_empty\<close>, as it is called.\<close>

fun replay_Split :: "byte \<Rightarrow> byte list \<Rightarrow> byte list list" where
  "replay_Split delimiter [] = [[]]"
| "replay_Split delimiter (c # cs) =
     (if c = delimiter then [] # replay_Split delimiter cs
      else case replay_Split delimiter cs of [] \<Rightarrow> [[c]] | w # ws \<Rightarrow> (c # w) # ws)"

fun replay_Join :: "byte \<Rightarrow> byte list list \<Rightarrow> byte list" where
  "replay_Join delimiter [] = []"
| "replay_Join delimiter [s] = s"
| "replay_Join delimiter (s # strings) = s @ delimiter # replay_Join delimiter strings"

definition StartsWith :: "byte list \<Rightarrow> byte list \<Rightarrow> bool" where
  "StartsWith s prefix \<longleftrightarrow> take (length prefix) s = prefix"

text \<open>\<^verbatim>\<open>std::equal\<close> from the end goes on behind the start of a text that is shorter and agrees so far.\<close>

definition EndsWith :: "byte list \<Rightarrow> byte list \<Rightarrow> bool cpp" where
  "EndsWith s suffix =
     (if length s < length suffix
      then if drop (length suffix - length s) suffix = s then Inl (undefined_behaviour ''read before the start of the text'')
           else Inr False
      else Inr (drop (length s - length suffix) s = suffix))"

text \<open>\<^verbatim>\<open>std::stoi\<close>.\<close>

definition stoi :: "byte list \<Rightarrow> int cpp" where
  "stoi s =
     (let s = dropWhile (\<lambda>c. c \<in> {9, 10, 11, 12, 13, 32}) s;
          (negative, s) = (case s of [] \<Rightarrow> (False, []) | c # cs \<Rightarrow> if c = 45 then (True, cs) else if c = 43 then (False, cs) else (False, s));
          digits = takeWhile (\<lambda>c. 48 \<le> c \<and> c \<le> 57) s;
          n = (if negative then - int (read_dec_nat digits) else int (read_dec_nat digits))
      in if digits = [] then Inl (invalid_argument ''stoi'')
         else if n < - (2 ^ 31) \<or> 2 ^ 31 \<le> n then Inl out_of_range
         else Inr n)"


section \<open>Entries\<close>

record replay_env =
  re_time :: "byte list \<Rightarrow> int"
  re_stod :: "byte list \<Rightarrow> u64 cpp"

record log_entry =
  le_line :: "byte list"
  le_command :: "byte list"
  le_handle :: int
  le_dateTime :: int
  le_key :: tiodata
  le_value :: tiodata

text \<open>\<^verbatim>\<open>new TIO_DATA()\<close> is all zero.\<close>

definition zero_data :: tiodata where
  "zero_data = tiodata_init\<lparr> td_data_type := 0 \<rparr>"

text \<open>
  The size of the data is an output; it keeps its value for an empty field.  A string is copied from the text with its
  terminating zero.
\<close>

definition replay_Deserialize :: "replay_env \<Rightarrow> byte list \<Rightarrow> byte list \<Rightarrow> int \<Rightarrow> (tiodata \<times> int) cpp" where
  "replay_Deserialize env info dat sz =
     (let type = (case info of [] \<Rightarrow> 0 | c # _ \<Rightarrow> c) in
      if type = 110 then Inr (tiodata_set_as_none zero_data, sz)
      else
        bind_res (stoi (tl info)) (\<lambda>sz.
        let fieldData = (if sz < 0 then dat else take (nat sz) dat) in
        bind_res
          (if type = 115 then lift_c (tiodata_set_string_and_size zero_data (dat @ [0]) (word_of_int sz))
           else if type = 105 then bind_res (stoi fieldData) (\<lambda>i. Inr (tiodata_set_int zero_data (word_of_int i)))
           else if type = 100 then bind_res (re_stod env fieldData) (\<lambda>x. Inr (tiodata_set_double zero_data x))
           else Inr zero_data)
          (\<lambda>d. Inr (d, sz))))"

definition at_entry :: "byte list list \<Rightarrow> nat \<Rightarrow> byte list cpp" where
  "at_entry entry i =
     (if i < length entry then Inr (entry ! i) else Inl (undefined_behaviour ''vector subscript out of range''))"

definition replay_substr :: "byte list \<Rightarrow> int \<Rightarrow> byte list cpp" where
  "replay_substr s pos =
     (if pos = 2 ^ 31 then Inl (undefined_behaviour ''signed overflow'')
      else if pos < 0 \<or> int (length s) < pos then Inl out_of_range
      else Inr (drop (nat pos) s))"

definition LogEntry :: "replay_env \<Rightarrow> byte list \<Rightarrow> log_entry cpp" where
  "LogEntry env line =
     bind_res (EndsWith line (ascii '',n,'')) (\<lambda>b.
     let line = (if b then take (length line - 3) line else line); entry = replay_Split 44 line in
     bind_res (at_entry entry 0) (\<lambda>time.
     bind_res (at_entry entry 1) (\<lambda>command.
     bind_res (bind_res (at_entry entry 2) stoi) (\<lambda>handle.
     bind_res (at_entry entry 3) (\<lambda>keyInfo.
     let rest = replay_Join 44 (drop 4 entry) in
     bind_res (replay_Deserialize env keyInfo rest 0) (\<lambda>(key, sz).
     bind_res (replay_substr rest (sz + 1)) (\<lambda>rest.
     let entry = replay_Split 44 rest in
     bind_res (at_entry entry 0) (\<lambda>valueInfo.
     bind_res (replay_Deserialize env valueInfo (replay_Join 44 (drop 1 entry)) sz) (\<lambda>(v, _).
       Inr \<lparr> le_line = line, le_command = command, le_handle = handle, le_dateTime = re_time env time,
             le_key = key, le_value = v \<rparr>)))))))))"


section \<open>Requests\<close>

datatype replay_request =
    ReqCreate "byte list" "byte list"
  | ReqAddToGroup "byte list" "byte list"
  | ReqPushBack "byte list" tiodata tiodata
  | ReqPushFront "byte list" tiodata tiodata
  | ReqPopBack "byte list"
  | ReqPopFront "byte list"
  | ReqSet "byte list" tiodata tiodata
  | ReqInsert "byte list" tiodata tiodata
  | ReqDelete "byte list" tiodata
  | ReqClear "byte list"
  | ReqPropset "byte list" tiodata tiodata

text \<open>The containers of the log, by handle, as the name they were created with.\<close>

record replay_state =
  rs_containers :: "(int \<times> byte list) list"
  rs_requests :: "replay_request list"

definition request :: "replay_request \<Rightarrow> replay_state \<Rightarrow> replay_state" where
  "request r rs = rs\<lparr> rs_requests := rs_requests rs @ [r] \<rparr>"

definition data_text :: "tiodata \<Rightarrow> byte list cpp" where
  "data_text d =
     (case td_string d of
        None \<Rightarrow> if td_string_size d = 0 then Inr [] else Inl (undefined_behaviour ''null pointer'')
      | Some b \<Rightarrow> lift_c (mem_read b 0 (unat (td_string_size d))))"

definition change_request :: "byte list \<Rightarrow> byte list \<Rightarrow> tiodata \<Rightarrow> tiodata \<Rightarrow> replay_request option" where
  "change_request command container key v =
     (if command = ascii ''push_back'' then Some (ReqPushBack container key v)
      else if command = ascii ''push_front'' then Some (ReqPushFront container key v)
      else if command = ascii ''pop_back'' then Some (ReqPopBack container)
      else if command = ascii ''pop_front'' then Some (ReqPopFront container)
      else if command = ascii ''set'' then Some (ReqSet container key v)
      else if command = ascii ''insert'' then Some (ReqInsert container key v)
      else if command = ascii ''delete'' then Some (ReqDelete container key)
      else if command = ascii ''clear'' then Some (ReqClear container)
      else if command = ascii ''propset'' then Some (ReqPropset container key v)
      else None)"

definition OnLogEntry :: "log_entry \<Rightarrow> replay_state \<Rightarrow> (bool \<times> replay_state) cpp" where
  "OnLogEntry log rs =
     (if le_command log = ascii ''create''
      then
        bind_res (data_text (le_key log)) (\<lambda>key.
        if StartsWith key (ascii ''__'') then Inr (False, rs)
        else
          bind_res (data_text (le_value log)) (\<lambda>v.
            Inr (True, (request (ReqCreate key v) rs)\<lparr> rs_containers := sm_set (le_handle log) key (rs_containers rs) \<rparr>)))
      else if le_command log = ascii ''group_add''
      then
        bind_res (data_text (le_key log)) (\<lambda>key.
        bind_res (data_text (le_value log)) (\<lambda>v. Inr (True, request (ReqAddToGroup key v) rs)))
      else
        case sm_find (le_handle log) (rs_containers rs) of
          None \<Rightarrow> Inl (undefined_behaviour ''end iterator dereferenced'')
        | Some container \<Rightarrow>
            (case change_request (le_command log) container (le_key log) (le_value log) of
               None \<Rightarrow> Inr (False, rs)
             | Some r \<Rightarrow> Inr (True, request r rs)))"

text \<open>\<^verbatim>\<open>Replay\<close> reads the lines of the file once; the publisher thread takes the entries from a queue in the same order.\<close>

fun getlines :: "byte list \<Rightarrow> byte list list" where
  "getlines [] = []"
| "getlines (c # cs) =
     (if c = 10 then [] # getlines cs
      else case getlines cs of [] \<Rightarrow> [[c]] | w # ws \<Rightarrow> (c # w) # ws)"

fun replay_entries :: "replay_env \<Rightarrow> byte list list \<Rightarrow> replay_state \<Rightarrow> replay_state cpp" where
  "replay_entries env [] rs = Inr rs"
| "replay_entries env (line # lines) rs =
     (if line = [13] \<or> line = [10] then replay_entries env lines rs
      else bind_res (LogEntry env line) (\<lambda>log. bind_res (OnLogEntry log rs) (\<lambda>(_, rs). replay_entries env lines rs)))"

definition Replay :: "replay_env \<Rightarrow> byte list \<Rightarrow> replay_state \<Rightarrow> replay_state cpp" where
  "Replay env input rs = replay_entries env (getlines input) rs"

end
