(* ===== verification/ReplayProperties.thy ===== *)
theory ReplayProperties
  imports LogReplay TextFields ServerHandles
begin

text \<open>
  A log that is replayed makes the requests that were logged: the lines of the logger are taken apart by the
  tool to the command, the handle of the container, the key and the value.
\<close>

section \<open>Taking texts apart\<close>

lemma replay_Split_eq: "replay_Split d s = split_sep d s"
  by (induction s) simp_all

lemma Join_Split [simp]: "replay_Join d (replay_Split d s) = s"
proof (induction s)
  case (Cons c s)
  obtain w ws where w: "replay_Split d s = w # ws" by (cases "replay_Split d s") (simp_all add: replay_Split_eq)
  then show ?case using Cons by (cases ws) auto
qed simp

lemma Split_word: "d \<notin> set w \<Longrightarrow> replay_Split d (w @ d # s) = w # replay_Split d s"
  by (simp add: replay_Split_eq split_sep_word)

lemma digit_byte: "c \<in> set (dec_nat n) \<Longrightarrow> 48 \<le> c \<and> c \<le> 57"
  using dec_nat_range by blast

lemma dec_nat_misc [simp]: "dec_nat n \<noteq> []" "44 \<notin> set (dec_nat n)" "10 \<notin> set (dec_nat n)"
  using dec_nat_hd [of n] by (auto dest: digit_byte simp: word_le_nat_alt)

lemma takeWhile_dec: "takeWhile (\<lambda>c. 48 \<le> c \<and> c \<le> 57) (dec_nat n) = dec_nat n"
  by (simp add: takeWhile_eq_all_conv dec_nat_range)

lemma stoi_dec_int:
  assumes "- (2 ^ 31) \<le> i" and "i < 2 ^ 31"
  shows "stoi (dec_int i) = Inr i"
proof -
  have hd: "48 \<le> hd (dec_nat n) \<and> hd (dec_nat n) \<le> 57" for n
    using dec_nat_misc(1) [of n] digit_byte [of "hd (dec_nat n)" n] hd_in_set by blast
  obtain c cs where c: "dec_nat (nat i) = c # cs" by (cases "dec_nat (nat i)") simp_all
  then have "48 \<le> c" "c \<le> 57" using hd [of "nat i"] by simp_all
  then have "c \<noteq> 45" "c \<noteq> 43" "c \<notin> {9, 10, 11, 12, 13, 32}" by (auto simp: word_le_nat_alt)
  then have "dropWhile (\<lambda>c. c \<in> {9, 10, 11, 12, 13, 32}) (dec_nat (nat i)) = dec_nat (nat i)"
    "(case dec_nat (nat i) of [] \<Rightarrow> (False, []) | c # cs \<Rightarrow> if c = 45 then (True, cs) else if c = 43 then (False, cs)
        else (False, dec_nat (nat i))) = (False, dec_nat (nat i))"
    unfolding c by auto
  then have pos: "0 \<le> i \<Longrightarrow> ?thesis"
    using assms by (simp add: stoi_def dec_int_def Let_def takeWhile_dec read_dec_nat_dec_nat)
  have neg: "i < 0 \<Longrightarrow> ?thesis"
    using assms by (simp add: stoi_def dec_int_def Let_def takeWhile_dec read_dec_nat_dec_nat)
  from pos neg show ?thesis by linarith
qed

lemma stoi_dec_nat: "n < 2 ^ 31 \<Longrightarrow> stoi (dec_nat n) = Inr (int n)"
  using stoi_dec_int [of "int n"] by (simp add: dec_int_def)


section \<open>Fields\<close>

text \<open>A field of a line: the type with the size, and the data.\<close>

definition log_body :: "(u64 \<Rightarrow> byte list) \<Rightarrow> tio_data \<Rightarrow> byte list" where
  "log_body fmt d = (case d of TNone \<Rightarrow> [] | TString s \<Rightarrow> s | TInt i \<Rightarrow> dec_int (sint i) | TDouble x \<Rightarrow> fmt x)"

definition log_info :: "(u64 \<Rightarrow> byte list) \<Rightarrow> tio_data \<Rightarrow> byte list" where
  "log_info fmt d =
     (case d of TNone \<Rightarrow> [110] | TString _ \<Rightarrow> 115 # dec_nat (length (log_body fmt d))
      | TInt _ \<Rightarrow> 105 # dec_nat (length (log_body fmt d)) | TDouble _ \<Rightarrow> 100 # dec_nat (length (log_body fmt d)))"

lemma SerializeTioData_field: "SerializeTioData fmt line d = line @ 44 # log_info fmt d @ 44 # log_body fmt d"
  by (cases d) (simp_all add: SerializeTioData_def log_info_def log_body_def log_string_def ascii_def Let_def)

lemma log_string_field: "log_string s = 44 # log_info fmt (TString s) @ 44 # log_body fmt (TString s)"
  by (simp add: log_string_def log_info_def log_body_def ascii_def)

lemma log_info_comma [simp]: "44 \<notin> set (log_info fmt d)"
  by (cases d) (simp_all add: log_info_def)

definition value_data :: "tiodata \<Rightarrow> tio_data" where
  "value_data d = (case tiodata_value d of VNone \<Rightarrow> TNone | VString s \<Rightarrow> TString s | VInt i \<Rightarrow> TInt i | VDouble x \<Rightarrow> TDouble x)"

text \<open>What can be replayed: short texts, and doubles that are read as they were printed.\<close>

definition replayable :: "(u64 \<Rightarrow> byte list) \<Rightarrow> replay_env \<Rightarrow> tio_data \<Rightarrow> bool" where
  "replayable fmt env d \<longleftrightarrow> length (log_body fmt d) < 2 ^ 31 - 1 \<and> 10 \<notin> set (log_body fmt d) \<and>
     (case d of TDouble x \<Rightarrow> re_stod env (fmt x) = Inr x | _ \<Rightarrow> True)"

lemma set_on_zero:
  "tiodata_value (tiodata_set_int zero_data i) = VInt i" "tiodata_value (tiodata_set_double zero_data x) = VDouble x"
  "tiodata_inv (tiodata_set_int zero_data i)" "tiodata_inv (tiodata_set_double zero_data x)"
  "tiodata_inv (tiodata_set_as_none zero_data)"
  by (simp_all add: tiodata_value_def tiodata_set_int_def tiodata_set_double_def tiodata_inv_def zero_data_def
      tiodata_set_as_none_def tiodata_get_type_def tiodata_init_def)

definition holds_data :: "tiodata \<Rightarrow> tio_data \<Rightarrow> bool" where
  "holds_data t d \<longleftrightarrow> tiodata_inv t \<and> value_data t = d"

lemma data_text_holds: "holds_data t (TString s) \<Longrightarrow> data_text t = Inr s"
  by (auto simp: holds_data_def value_data_def tiodata_value_def tiodata_inv_def data_text_def mem_read_def
      split: tio_value.splits if_splits option.splits)

lemma Deserialize_field:
  assumes "replayable fmt env d"
  shows "\<exists>t. replay_Deserialize env (log_info fmt d) (log_body fmt d @ more_bytes) sz =
      Inr (t, if d = TNone then sz else int (length (log_body fmt d))) \<and> holds_data t d"
proof -
  let ?n = "length (log_body fmt d)"
  have n: "?n < 2 ^ 31 - 1" "stoi (dec_nat ?n) = Inr (int ?n)" using assms by (simp_all add: replayable_def stoi_dec_nat)
  show ?thesis
  proof (cases d)
    case TNone
    then show ?thesis by (simp add: replay_Deserialize_def log_info_def value_data_def holds_data_def set_on_zero)
  next
    case (TString s)
    have u: "unat (word_of_int (int ?n) :: u32) = ?n" using n(1) by (simp add: unat_of_nat)
    obtain t where "tiodata_set_string_and_size zero_data ((s @ more_bytes) @ [0]) (word_of_int (int ?n)) = Inr t"
      "tiodata_value t = VString (take ?n ((s @ more_bytes) @ [0]))" "tiodata_inv t"
      using tiodata_set_string_and_size_ok [of "word_of_int (int ?n)" "(s @ more_bytes) @ [0]" zero_data] u n(1)
      by (auto simp: log_body_def TString)
    then show ?thesis using n TString
      by (auto simp: replay_Deserialize_def log_info_def log_body_def value_data_def holds_data_def)
  next
    case (TInt i)
    have "stoi (dec_int (sint i)) = Inr (sint i)" using sint_ge [of i] sint_lt [of i] by (intro stoi_dec_int) simp_all
    then show ?thesis using n TInt
      by (simp add: replay_Deserialize_def log_info_def log_body_def value_data_def set_on_zero holds_data_def)
  next
    case (TDouble x)
    then show ?thesis using n assms
      by (simp add: replay_Deserialize_def log_info_def log_body_def value_data_def set_on_zero replayable_def holds_data_def)
  qed
qed

section \<open>Entries\<close>

text \<open>The part of a line up to the value, and what may follow it.\<close>

definition log_prefix :: "(u64 \<Rightarrow> byte list) \<Rightarrow> byte list \<Rightarrow> byte list \<Rightarrow> u32 \<Rightarrow> tio_data \<Rightarrow> tio_data \<Rightarrow> byte list" where
  "log_prefix fmt time command handle k v =
     time @ 44 # command @ 44 # dec_nat (unat handle) @ 44 # log_info fmt k @ 44 # log_body fmt k @
     44 # log_info fmt v @ 44 # log_body fmt v"

text \<open>The entry of a line whose end has been cut off already.\<close>

definition parse_entry :: "replay_env \<Rightarrow> byte list \<Rightarrow> log_entry cpp" where
  "parse_entry env line =
     (let entry = replay_Split 44 line in
     bind_res (at_entry entry 0) (\<lambda>time.
     bind_res (at_entry entry 1) (\<lambda>command.
     bind_res (bind_res (at_entry entry 2) stoi) (\<lambda>handle.
     bind_res (at_entry entry 3) (\<lambda>keyInfo.
     let rest = replay_Join 44 (drop 4 entry) in
     bind_res (replay_Deserialize env keyInfo rest 0) (\<lambda>(key, sz).
     bind_res (replay_substr rest (sz + 1)) (\<lambda>rest.
     let entry = replay_Split 44 rest in
     bind_res (at_entry entry 0) (\<lambda>valueInfo.
     bind_res (replay_Deserialize env valueInfo (replay_Join 44 (drop 1 entry)) sz) (\<lambda>(v, _).
       Inr \<lparr> le_line = line, le_command = command, le_handle = handle, le_dateTime = re_time env time,
             le_key = key, le_value = v \<rparr>)))))))))"

lemma LogEntry_parse:
  "LogEntry env line = bind_res (EndsWith line (ascii '',n,'')) (\<lambda>b. parse_entry env (if b then take (length line - 3) line else line))"
  by (simp add: LogEntry_def parse_entry_def Let_def)

lemma parse_entry_value:
  assumes "44 \<notin> set time" and "44 \<notin> set command" and "unat h < 2 ^ 31" and k: "replayable fmt env k" and "44 \<notin> set info"
  shows "\<exists>e sz. holds_data (le_key e) k \<and> le_command e = command \<and> le_handle e = int (unat h) \<and>
    parse_entry env (time @ 44 # command @ 44 # dec_nat (unat h) @ 44 # log_info fmt k @ 44 # log_body fmt k @ 44 # info @ 44 # dat) =
      bind_res (replay_Deserialize env info dat sz) (\<lambda>(v, _). Inr (e\<lparr> le_value := v \<rparr>))"
proof -
  let ?rest2 = "info @ 44 # dat"
  let ?rest = "log_body fmt k @ 44 # ?rest2"
  let ?line = "time @ 44 # command @ 44 # dec_nat (unat h) @ 44 # log_info fmt k @ 44 # ?rest"
  have split: "replay_Split 44 ?line = time # command # dec_nat (unat h) # log_info fmt k # replay_Split 44 ?rest"
    using assms(1,2) by (simp add: Split_word)
  have split2: "replay_Split 44 ?rest2 = info # replay_Split 44 dat" using assms(5) by (simp add: Split_word)
  have at: "at_entry (x0 # xs) 0 = Inr x0" "at_entry (x0 # x1 # xs) (Suc 0) = Inr x1" "at_entry (x0 # x1 # x2 # xs) 2 = Inr x2"
    "at_entry (x0 # x1 # x2 # x3 # xs) 3 = Inr x3" for x0 x1 x2 x3 xs
    by (simp_all add: at_entry_def)
  let ?n = "if k = TNone then 0 else int (length (log_body fmt k))"
  obtain tk where tk: "replay_Deserialize env (log_info fmt k) ?rest 0 = Inr (tk, ?n)" "holds_data tk k"
    using Deserialize_field [OF k] by blast
  have sub: "replay_substr ?rest (?n + 1) = Inr ?rest2"
    using k by (auto simp: replay_substr_def replayable_def nat_add_distrib) (simp add: log_body_def)
  let ?e = "\<lparr> le_line = ?line, le_command = command, le_handle = int (unat h), le_dateTime = re_time env time, le_key = tk,
    le_value = zero_data \<rparr>"
  have "parse_entry env ?line = bind_res (replay_Deserialize env info dat ?n) (\<lambda>(v, _). Inr (?e\<lparr> le_value := v \<rparr>))"
    using tk sub stoi_dec_nat [OF assms(3)] by (simp add: parse_entry_def Let_def split split2 at)
  then show ?thesis using tk(2) by (intro exI [of _ ?e] exI [of _ ?n]) simp
qed

lemma parse_entry_fields:
  assumes "44 \<notin> set time" and "44 \<notin> set command" and "unat h < 2 ^ 31"
    and k: "replayable fmt env k" and v: "replayable fmt env v"
  shows "\<exists>e. parse_entry env (log_prefix fmt time command h k v @ tail) = Inr e \<and> le_command e = command \<and>
    le_handle e = int (unat h) \<and> holds_data (le_key e) k \<and> holds_data (le_value e) v"
proof -
  obtain e sz where e: "holds_data (le_key e) k" "le_command e = command" "le_handle e = int (unat h)"
    "parse_entry env (log_prefix fmt time command h k v @ tail) =
      bind_res (replay_Deserialize env (log_info fmt v) (log_body fmt v @ tail) sz) (\<lambda>(v, _). Inr (e\<lparr> le_value := v \<rparr>))"
    using parse_entry_value [OF assms(1-4) log_info_comma, of fmt v "log_body fmt v @ tail"] by (auto simp: log_prefix_def)
  obtain tv n where "replay_Deserialize env (log_info fmt v) (log_body fmt v @ tail) sz = Inr (tv, n)" "holds_data tv v"
    using Deserialize_field [OF v] by blast
  then show ?thesis using e by (intro exI [of _ "e\<lparr> le_value := tv \<rparr>"]) simp
qed

lemma EndsWith_long: "length suffix \<le> length s \<Longrightarrow> EndsWith s suffix = Inr (drop (length s - length suffix) s = suffix)"
  by (simp add: EndsWith_def)

text \<open>The metadata behind the value does not matter: an empty one is cut off, any other is not looked at.\<close>

lemma LogEntry_record:
  assumes "44 \<notin> set time" and "44 \<notin> set command" and "unat h < 2 ^ 31"
    and k: "replayable fmt env k" and v: "replayable fmt env v"
  shows "\<exists>e. LogEntry env (log_prefix fmt time command h k v @ 44 # log_info fmt md @ 44 # log_body fmt md) = Inr e \<and>
    le_command e = command \<and> le_handle e = int (unat h) \<and> holds_data (le_key e) k \<and> holds_data (le_value e) v"
proof -
  let ?p = "log_prefix fmt time command h k v" and ?m = "44 # log_info fmt md @ 44 # log_body fmt md"
  have "3 \<le> length ?m" by (cases md) (simp_all add: log_info_def log_body_def Suc_le_eq)
  then have t: "\<exists>tail. (if b then take (length (?p @ ?m) - 3) (?p @ ?m) else ?p @ ?m) = ?p @ tail" for b
    by auto
  have "length (ascii '',n,'') \<le> length (?p @ ?m)" using \<open>3 \<le> length ?m\<close> by (simp add: ascii_def)
  then obtain b where "EndsWith (?p @ ?m) (ascii '',n,'') = Inr b" using EndsWith_long by blast
  with t [of b] parse_entry_fields [OF assms] show ?thesis unfolding LogEntry_parse by force
qed

section \<open>What is logged\<close>

text \<open>The calls of \<^verbatim>\<open>LogMessage\<close>: a container opened or created, and a change of a container.\<close>

datatype logged =
    Opened container_manager nat pr1_message string string
  | Changed container_manager nat pr1_message string string tio_data tio_data tio_data

fun log_call :: "(u64 \<Rightarrow> byte list) \<Rightarrow> logged \<Rightarrow> logger \<Rightarrow> unit cpp \<times> logger" where
  "log_call fmt (Opened cm ob p name type) = logger_LogMessage fmt cm ob p"
| "log_call fmt (Changed cm ob p command name k v md) = logger_LogMessage fmt cm ob p"

fun log_calls :: "(u64 \<Rightarrow> byte list) \<Rightarrow> logged list \<Rightarrow> logger \<Rightarrow> unit cpp \<times> logger" where
  "log_calls fmt [] lg = (Inr (), lg)"
| "log_calls fmt (x # xs) lg = cm_bind (log_call fmt x lg) (\<lambda>_ lg. log_calls fmt xs lg)"

definition text_ok :: "byte list \<Rightarrow> bool" where
  "text_ok s \<longleftrightarrow> length s < 2 ^ 31 - 1 \<and> 10 \<notin> set s"

text \<open>
  \<open>names\<close> are the containers that have been opened.  Names of the server's own containers are not replayed; a
  type that ends like an empty field would be cut off.
\<close>

fun item_ok :: "(u64 \<Rightarrow> byte list) \<Rightarrow> replay_env \<Rightarrow> string set \<Rightarrow> logged \<Rightarrow> bool" where
  "item_ok fmt env names (Opened cm ob p name type) \<longleftrightarrow>
     (\<exists>c\<in>{TIO_COMMAND_CREATE, TIO_COMMAND_OPEN}. Pr1MessageGetField_int p (ucast MESSAGE_FIELD_ID_COMMAND) = Inr (Some c)) \<and>
     object_GetName ob cm = Inr name \<and> object_GetType ob cm = Inr type \<and> text_ok (ascii name) \<and> text_ok (ascii type) \<and>
     \<not> StartsWith (ascii name) (ascii ''__'') \<and> 3 \<le> length type \<and> drop (length type - 3) type \<noteq> '',n,''"
| "item_ok fmt env names (Changed cm ob p command name k v md) \<longleftrightarrow>
     (\<exists>c h k0 v0 md0. pm_finds p (request_fields c h k0 v0 md0) \<and> log_command c = Some command \<and>
        k = or_null k0 \<and> v = or_null v0 \<and> md = or_null md0) \<and>
     object_GetName ob cm = Inr name \<and> name \<in> names \<and>
     replayable fmt env k \<and> replayable fmt env v \<and> 10 \<notin> set (log_body fmt md)"

fun opened :: "logged \<Rightarrow> string set" where
  "opened (Opened cm ob p name type) = {name}"
| "opened (Changed cm ob p command name k v md) = {}"

fun items_ok :: "(u64 \<Rightarrow> byte list) \<Rightarrow> replay_env \<Rightarrow> string set \<Rightarrow> logged list \<Rightarrow> bool" where
  "items_ok fmt env names [] \<longleftrightarrow> True"
| "items_ok fmt env names (x # xs) \<longleftrightarrow> item_ok fmt env names x \<and> items_ok fmt env (names \<union> opened x) xs"

text \<open>The container, the command, the key and the value of a request.\<close>

fun request_view :: "replay_request \<Rightarrow> byte list \<times> string \<times> tio_data \<times> tio_data" where
  "request_view (ReqCreate n t) = (n, ''create'', TNone, TString t)"
| "request_view (ReqAddToGroup g n) = (n, ''group_add'', TString g, TNone)"
| "request_view (ReqPushBack n k v) = (n, ''push_back'', value_data k, value_data v)"
| "request_view (ReqPushFront n k v) = (n, ''push_front'', value_data k, value_data v)"
| "request_view (ReqPopBack n) = (n, ''pop_back'', TNone, TNone)"
| "request_view (ReqPopFront n) = (n, ''pop_front'', TNone, TNone)"
| "request_view (ReqSet n k v) = (n, ''set'', value_data k, value_data v)"
| "request_view (ReqInsert n k v) = (n, ''insert'', value_data k, value_data v)"
| "request_view (ReqDelete n k) = (n, ''delete'', value_data k, TNone)"
| "request_view (ReqClear n) = (n, ''clear'', TNone, TNone)"
| "request_view (ReqPropset n k v) = (n, ''propset'', value_data k, value_data v)"

definition change_view :: "string \<Rightarrow> string \<Rightarrow> tio_data \<Rightarrow> tio_data \<Rightarrow> byte list \<times> string \<times> tio_data \<times> tio_data" where
  "change_view command name k v =
     (ascii name, command, if command \<in> {''pop_back'', ''pop_front'', ''clear''} then TNone else k,
      if command \<in> {''pop_back'', ''pop_front'', ''clear'', ''delete''} then TNone else v)"

fun expected :: "string set \<Rightarrow> logged list \<Rightarrow> (byte list \<times> string \<times> tio_data \<times> tio_data) list" where
  "expected names [] = []"
| "expected names (Opened cm ob p name type # xs) =
     (if name \<in> names then [] else [(ascii name, ''create'', TNone, TString (ascii type))]) @ expected (insert name names) xs"
| "expected names (Changed cm ob p command name k v md # xs) = change_view command name k v # expected names xs"


section \<open>Logger and replay side by side\<close>

definition synced :: "string set \<Rightarrow> logger \<Rightarrow> replay_state \<Rightarrow> bool" where
  "synced names lg rs \<longleftrightarrow>
     lg_f_valid lg \<and> sm_inv (lg_globalContainerHandle lg) \<and> sm_inv (rs_containers rs) \<and>
     44 \<notin> set (lg_timeString lg) \<and> 10 \<notin> set (lg_timeString lg) \<and>
     (\<forall>name. (case sm_find name (lg_globalContainerHandle lg) of
        None \<Rightarrow> name \<notin> names
      | Some h \<Rightarrow> (h = 0 \<longleftrightarrow> name \<notin> names) \<and> h \<le> lg_lastGlobalHandle lg \<and>
          (h \<noteq> 0 \<longrightarrow> sm_find (int (unat h)) (rs_containers rs) = Some (ascii name))))"

lemma written_simps [simp]:
  "lg_raw (RawLog line lg) = lg_raw lg @ [line]" "lg_lastGlobalHandle (RawLog line lg) = lg_lastGlobalHandle lg"
  "rs_requests (request r rs) = rs_requests rs @ [r]" "rs_containers (request r rs) = rs_containers rs"
  by (simp_all add: RawLog_def request_def)

lemma synced_written [simp]: "synced names (RawLog line lg) (request r rs) = synced names lg rs"
  by (simp add: synced_def RawLog_def request_def cong: option.case_cong)

text \<open>One call: what is written is nothing or a line that the tool replays.\<close>

definition replays :: "replay_env \<Rightarrow> (byte list \<times> string \<times> tio_data \<times> tio_data) list \<Rightarrow> string set \<Rightarrow> logger \<Rightarrow> logger \<Rightarrow>
    replay_state \<Rightarrow> bool" where
  "replays env views names lg lg' rs \<longleftrightarrow>
     (\<exists>lines rs'. lg_raw lg' = lg_raw lg @ map (\<lambda>l. l @ [10]) lines \<and> (\<forall>l\<in>set lines. 10 \<notin> set l \<and> 44 \<in> set l) \<and>
        replay_entries env lines rs = Inr rs' \<and> synced names lg' rs' \<and>
        map request_view (rs_requests rs') = map request_view (rs_requests rs) @ views)"

lemma log_command_texts:
  assumes "log_command c = Some command"
  shows "c \<noteq> TIO_COMMAND_CREATE" "c \<noteq> TIO_COMMAND_OPEN" "44 \<notin> set (ascii command)" "10 \<notin> set (ascii command)"
  using assms by (auto simp: log_command_def ascii_def split: if_splits)

lemma change_request_view:
  assumes "log_command c = Some command" and "holds_data kt k" and "holds_data vt v"
  shows "\<exists>r. change_request (ascii command) (ascii name) kt vt = Some r \<and> request_view r = change_view command name k v"
  using assms by (auto simp: log_command_def change_request_def change_view_def holds_data_def split: if_splits)

lemma log_record_texts:
  "10 \<notin> set time \<Longrightarrow> 10 \<notin> set command \<Longrightarrow> 10 \<notin> set (log_body fmt k) \<Longrightarrow> 10 \<notin> set (log_body fmt v) \<Longrightarrow>
    10 \<notin> set (log_prefix fmt time command h k v)"
  "10 \<notin> set (log_info fmt d)" "44 \<in> set (log_prefix fmt time command h k v)"
  by (auto simp: log_prefix_def log_info_def split: tio_data.splits)

lemma change_step:
  assumes ok: "item_ok fmt env names (Changed cm ob p command name k v md)" and sy: "synced names lg rs"
    and last: "unat (lg_lastGlobalHandle lg) < 2 ^ 31"
  shows "\<exists>lg'. log_call fmt (Changed cm ob p command name k v md) lg = (Inr (), lg') \<and>
    lg_lastGlobalHandle lg' = lg_lastGlobalHandle lg \<and> replays env [change_view command name k v] names lg lg' rs"
proof -
  obtain c h0 k0 v0 md0 where f: "pm_finds p (request_fields c h0 k0 v0 md0)" and c: "log_command c = Some command"
    and kv: "k = or_null k0" "v = or_null v0" "md = or_null md0" using ok by auto
  have ob: "object_GetName ob cm = Inr name" "name \<in> names" "replayable fmt env k" "replayable fmt env v"
    "10 \<notin> set (log_body fmt md)" using ok by auto
  obtain h where h: "sm_find name (lg_globalContainerHandle lg) = Some h" "h \<noteq> 0" "h \<le> lg_lastGlobalHandle lg"
    "sm_find (int (unat h)) (rs_containers rs) = Some (ascii name)"
    using sy ob(2) unfolding synced_def by (force split: option.splits)
  have hb: "unat h < 2 ^ 31" using h(3) last by (simp add: word_le_nat_alt)
  have sync: "lg_f_valid lg" "sm_inv (lg_globalContainerHandle lg)" "44 \<notin> set (lg_timeString lg)" "10 \<notin> set (lg_timeString lg)"
    using sy by (auto simp: synced_def)
  let ?line = "log_prefix fmt (lg_timeString lg) (ascii command) h k v @ 44 # log_info fmt md @ 44 # log_body fmt md"
  have g: "global_handle c name lg = (True, h, lg)"
    using h(1,2) log_command_texts(1,2) [OF c] sm_set_same [OF sync(2) h(1)] by (simp add: global_handle_def)
  have "logger_LogMessage fmt cm ob p lg = (Inr (), RawLog (?line @ [10]) lg)"
    using sync(1) request_read [OF f] ob(1) g c log_command_texts(1,2) [OF c] kv
    by (simp add: logger_LogMessage_def log_record_def Pr1MessageGetHandleKeyValueAndMetadata_def SerializeTioData_field
        log_prefix_def or_null_def ascii_def)
  moreover obtain e where e: "LogEntry env ?line = Inr e" "le_command e = ascii command" "le_handle e = int (unat h)"
    "holds_data (le_key e) k" "holds_data (le_value e) v"
    using LogEntry_record [OF sync(3) log_command_texts(3) [OF c] hb ob(3,4)] by blast
  obtain r where r: "change_request (ascii command) (ascii name) (le_key e) (le_value e) = Some r"
    "request_view r = change_view command name k v" using change_request_view [OF c e(4,5)] by blast
  have "command \<noteq> ''create''" "command \<noteq> ''group_add''" using c by (auto simp: log_command_def split: if_splits)
  then have "OnLogEntry e rs = Inr (True, request r rs)" using e r(1) h(4) by (simp add: OnLogEntry_def)
  moreover have l: "10 \<notin> set ?line \<and> 44 \<in> set ?line"
    using log_record_texts sync(4) log_command_texts(4) [OF c] ob(3-5) by (auto simp: replayable_def)
  moreover have "?line \<noteq> [13]" "?line \<noteq> [10]" using l by auto
  ultimately show ?thesis
    using e(1) r(2) sy unfolding replays_def
    by (intro exI [of _ "RawLog (?line @ [10]) lg"] conjI exI [of _ "[?line]"] exI [of _ "request r rs"]) auto
qed

lemma LogEntry_create:
  assumes "44 \<notin> set time" and "unat h < 2 ^ 31" and "replayable fmt env k" and "replayable fmt env (TString (ascii type))"
    and "3 \<le> length type" and "drop (length type - 3) type \<noteq> '',n,''"
  shows "\<exists>e. LogEntry env (log_prefix fmt time (ascii ''create'') h k (TString (ascii type))) = Inr e \<and>
    le_command e = ascii ''create'' \<and> le_handle e = int (unat h) \<and> holds_data (le_key e) k \<and>
    holds_data (le_value e) (TString (ascii type))"
proof -
  let ?l = "log_prefix fmt time (ascii ''create'') h k (TString (ascii type))"
  have c: "44 \<notin> set (ascii ''create'')" by (simp add: ascii_def)
  obtain pre where l: "?l = pre @ ascii type" by (simp add: log_prefix_def log_body_def)
  then have "drop (length ?l - 3) ?l = ascii (drop (length type - 3) type)"
    using assms(5) unfolding l by (simp add: ascii_def drop_map)
  then have "drop (length ?l - 3) ?l \<noteq> ascii '',n,''" using assms(6) by (simp only: ascii_inject not_False_eq_True)
  then have "EndsWith ?l (ascii '',n,'') = Inr False"
    by (subst EndsWith_long) (simp_all add: log_prefix_def ascii_def)
  with parse_entry_fields [OF assms(1) c assms(2-4), of "[]"] show ?thesis by (simp add: LogEntry_parse)
qed

lemma synced_open:
  assumes sy: "synced names lg rs" and "name \<notin> names" and last: "unat (lg_lastGlobalHandle lg) + 1 < 2 ^ 31"
  shows "synced (insert name names)
    (lg\<lparr> lg_globalContainerHandle := sm_set name (lg_lastGlobalHandle lg + 1) (lg_globalContainerHandle lg),
        lg_lastGlobalHandle := lg_lastGlobalHandle lg + 1 \<rparr>)
    (rs\<lparr> rs_containers := sm_set (int (unat (lg_lastGlobalHandle lg + 1))) (ascii name) (rs_containers rs) \<rparr>)"
proof -
  let ?l = "lg_lastGlobalHandle lg"
  have h: "unat (?l + 1) = unat ?l + 1" using last by (simp add: unat_word_ariths)
  have nz: "?l + 1 \<noteq> 0" using h by (metis add_is_0 one_neq_zero unat_0)
  have le: "g \<le> ?l + 1 \<and> int (unat g) \<noteq> int (unat (?l + 1))" if "g \<le> ?l" for g
  proof -
    have "unat g \<le> unat ?l" using that by (simp add: word_le_nat_alt)
    then have "unat g \<noteq> unat (?l + 1)" "unat g \<le> unat (?l + 1)" using h by simp_all
    then show ?thesis unfolding of_nat_eq_iff by (simp add: word_le_nat_alt)
  qed
  have inv: "sm_inv (lg_globalContainerHandle lg)" "sm_inv (rs_containers rs)" using sy by (auto simp: synced_def)
  have old: "case sm_find n (lg_globalContainerHandle lg) of None \<Rightarrow> n \<notin> names
      | Some g \<Rightarrow> (g = 0 \<longleftrightarrow> n \<notin> names) \<and> g \<le> ?l \<and> (g \<noteq> 0 \<longrightarrow> sm_find (int (unat g)) (rs_containers rs) = Some (ascii n))" for n
    using sy by (auto simp: synced_def)
  have "case sm_find n (sm_set name (?l + 1) (lg_globalContainerHandle lg)) of None \<Rightarrow> n \<notin> insert name names
      | Some g \<Rightarrow> (g = 0 \<longleftrightarrow> n \<notin> insert name names) \<and> g \<le> ?l + 1 \<and>
          (g \<noteq> 0 \<longrightarrow> sm_find (int (unat g)) (sm_set (int (unat (?l + 1))) (ascii name) (rs_containers rs)) = Some (ascii n))" for n
  proof (cases "n = name")
    case True
    then show ?thesis using nz by (simp add: sm_find_set inv)
  next
    case False
    then show ?thesis using old [of n] le by (auto simp: sm_find_set inv simp del: of_nat_eq_iff split: option.splits)
  qed
  then show ?thesis using sy inv by (simp add: synced_def sm_set_inv cong: option.case_cong)
qed

lemma open_step:
  assumes ok: "item_ok fmt env names (Opened cm ob p name type)" and sy: "synced names lg rs"
    and last: "unat (lg_lastGlobalHandle lg) + 1 < 2 ^ 31"
  shows "\<exists>lg'. log_call fmt (Opened cm ob p name type) lg = (Inr (), lg') \<and>
    unat (lg_lastGlobalHandle lg') \<le> unat (lg_lastGlobalHandle lg) + 1 \<and>
    replays env (if name \<in> names then [] else [(ascii name, ''create'', TNone, TString (ascii type))]) (insert name names) lg lg' rs"
proof -
  obtain c where c: "c = TIO_COMMAND_CREATE \<or> c = TIO_COMMAND_OPEN"
    "Pr1MessageGetField_int p (ucast MESSAGE_FIELD_ID_COMMAND) = Inr (Some c)" using ok by auto
  have ob: "object_GetName ob cm = Inr name" "object_GetType ob cm = Inr type" "text_ok (ascii name)" "text_ok (ascii type)"
    "\<not> StartsWith (ascii name) (ascii ''__'')" "3 \<le> length type" "drop (length type - 3) type \<noteq> '',n,''" using ok by auto
  have sync: "lg_f_valid lg" "sm_inv (lg_globalContainerHandle lg)" "sm_inv (rs_containers rs)" "44 \<notin> set (lg_timeString lg)"
    "10 \<notin> set (lg_timeString lg)" using sy by (auto simp: synced_def)
  note call = logger_LogMessage_def sync(1) c(2) [simplified] ob(1)
  show ?thesis
  proof (cases "name \<in> names")
    case True
    then obtain h where h: "sm_find name (lg_globalContainerHandle lg) = Some h" "h \<noteq> 0"
      using sy unfolding synced_def by (force split: option.splits)
    then have "global_handle c name lg = (True, h, lg)"
      using sm_set_same [OF sync(2) h(1)] by (simp add: global_handle_def)
    then have "logger_LogMessage fmt cm ob p lg = (Inr (), lg)" using c(1) by (auto simp: call)
    then show ?thesis using True sy
      by (auto simp: replays_def insert_absorb intro!: exI [of _ "[]"])
  next
    case False
    let ?h = "lg_lastGlobalHandle lg + 1"
    let ?lg = "lg\<lparr> lg_globalContainerHandle := sm_set name ?h (lg_globalContainerHandle lg), lg_lastGlobalHandle := ?h \<rparr>"
    have h: "unat ?h = unat (lg_lastGlobalHandle lg) + 1" using last by (simp add: unat_word_ariths)
    have hb: "unat ?h < 2 ^ 31" using last h by simp
    have g0: "(case sm_find name (lg_globalContainerHandle lg) of None \<Rightarrow> 0 | Some h \<Rightarrow> h) = 0"
      using sy False unfolding synced_def by (force split: option.splits)
    have "global_handle c name lg = (False, ?h, ?lg)" using c(1) g0 by (auto simp: global_handle_def Let_def)
    let ?line = "log_prefix fmt (lg_timeString lg) (ascii ''create'') ?h (TString (ascii name)) (TString (ascii type))"
    have "logger_LogMessage fmt cm ob p lg = (Inr (), RawLog (?line @ [10]) ?lg)"
      using c(1) \<open>global_handle c name lg = _\<close> ob(2) log_string_field [of _ fmt] by (auto simp: call log_prefix_def ascii_def)
    moreover have rp: "replayable fmt env (TString (ascii name))" "replayable fmt env (TString (ascii type))"
      using ob(3,4) by (simp_all add: replayable_def text_ok_def log_body_def)
    moreover obtain e where e: "LogEntry env ?line = Inr e" "le_command e = ascii ''create''" "le_handle e = int (unat ?h)"
      "holds_data (le_key e) (TString (ascii name))" "holds_data (le_value e) (TString (ascii type))"
      using LogEntry_create [OF sync(4) hb rp ob(6,7)] by blast
    let ?rs = "(request (ReqCreate (ascii name) (ascii type)) rs)
      \<lparr> rs_containers := sm_set (int (unat ?h)) (ascii name) (rs_containers rs) \<rparr>"
    have "OnLogEntry e rs = Inr (True, ?rs)"
      using e ob(5) data_text_holds [OF e(4)] data_text_holds [OF e(5)] by (simp add: OnLogEntry_def)
    moreover have l: "10 \<notin> set ?line \<and> 44 \<in> set ?line"
      using log_record_texts(1,3) sync(5) ob(3,4) by (auto simp: text_ok_def log_body_def ascii_def)
    moreover have "?line \<noteq> [13]" "?line \<noteq> [10]" using l by auto
    moreover have "synced (insert name names) (RawLog (?line @ [10]) ?lg) ?rs"
    proof -
      have "?rs = request (ReqCreate (ascii name) (ascii type))
          (rs\<lparr> rs_containers := sm_set (int (unat ?h)) (ascii name) (rs_containers rs) \<rparr>)"
        by (cases rs) (simp add: request_def)
      then show ?thesis using synced_open [OF sy False last] by (simp only: synced_written)
    qed
    ultimately show ?thesis
      using False e(1) h unfolding replays_def
      by (intro exI [of _ "RawLog (?line @ [10]) ?lg"] conjI exI [of _ "[?line]"] exI [of _ ?rs]) auto
  qed
qed

lemma replay_entries_append:
  "replay_entries env (ls @ ls') rs = bind_res (replay_entries env ls rs) (replay_entries env ls')"
  by (induction ls arbitrary: rs) (auto simp: bind_res_def split: sum.splits)

lemma replays_trans:
  assumes "replays env vs names lg lg' rs"
    and "\<And>rs'. synced names lg' rs' \<Longrightarrow> replays env ws names' lg' lg'' rs'"
  shows "replays env (vs @ ws) names' lg lg'' rs"
proof -
  obtain ls rs1 where 1: "lg_raw lg' = lg_raw lg @ map (\<lambda>l. l @ [10]) ls" "\<forall>l\<in>set ls. 10 \<notin> set l \<and> 44 \<in> set l"
    "replay_entries env ls rs = Inr rs1" "synced names lg' rs1"
    "map request_view (rs_requests rs1) = map request_view (rs_requests rs) @ vs" using assms(1) by (auto simp: replays_def)
  obtain ls' rs2 where 2: "lg_raw lg'' = lg_raw lg' @ map (\<lambda>l. l @ [10]) ls'" "\<forall>l\<in>set ls'. 10 \<notin> set l \<and> 44 \<in> set l"
    "replay_entries env ls' rs1 = Inr rs2" "synced names' lg'' rs2"
    "map request_view (rs_requests rs2) = map request_view (rs_requests rs1) @ ws"
    using assms(2) [OF 1(4)] by (auto simp: replays_def)
  show ?thesis unfolding replays_def
    using 1 2 by (intro exI [of _ "ls @ ls'"] exI [of _ rs2]) (auto simp: replay_entries_append)
qed

lemma log_call_replay:
  assumes "item_ok fmt env names x" and "synced names lg rs" and "unat (lg_lastGlobalHandle lg) + 1 < 2 ^ 31"
  shows "\<exists>lg'. log_call fmt x lg = (Inr (), lg') \<and> unat (lg_lastGlobalHandle lg') \<le> unat (lg_lastGlobalHandle lg) + 1 \<and>
    replays env (expected names [x]) (names \<union> opened x) lg lg' rs"
proof (cases x)
  case (Opened cm ob p name type)
  then show ?thesis using open_step [of fmt env names cm ob p name type lg rs] assms by simp
next
  case (Changed cm ob p command name k v md)
  then show ?thesis using change_step [of fmt env names cm ob p command name k v md lg rs] assms
    by (auto simp del: item_ok.simps)
qed

lemma expected_Cons: "expected names (x # xs) = expected names [x] @ expected (names \<union> opened x) xs"
  by (cases x) simp_all

lemma log_calls_replay:
  assumes "items_ok fmt env names items" and "synced names lg rs"
    and "unat (lg_lastGlobalHandle lg) + length items < 2 ^ 31"
  shows "\<exists>lg'. log_calls fmt items lg = (Inr (), lg') \<and>
    replays env (expected names items) (names \<union> (\<Union>x\<in>set items. opened x)) lg lg' rs"
  using assms
proof (induction items arbitrary: names lg rs)
  case Nil
  then show ?case by (intro exI [of _ lg]) (auto simp: replays_def)
next
  case (Cons x items)
  have "unat (lg_lastGlobalHandle lg) + 1 < 2 ^ 31" using Cons.prems(3) by simp
  then obtain lg1 where 1: "log_call fmt x lg = (Inr (), lg1)"
    "unat (lg_lastGlobalHandle lg1) \<le> unat (lg_lastGlobalHandle lg) + 1"
    "replays env (expected names [x]) (names \<union> opened x) lg lg1 rs"
    using log_call_replay Cons.prems(1,2) by fastforce
  have ih: "\<exists>lg'. log_calls fmt items lg1 = (Inr (), lg') \<and> replays env (expected (names \<union> opened x) items)
      (names \<union> opened x \<union> (\<Union>x\<in>set items. opened x)) lg1 lg' rs'" if "synced (names \<union> opened x) lg1 rs'" for rs'
    using Cons.IH [OF _ that] Cons.prems(1,3) 1(2) by simp
  obtain rs1 where "synced (names \<union> opened x) lg1 rs1" using 1(3) by (auto simp: replays_def)
  then obtain lg2 where 2: "log_calls fmt items lg1 = (Inr (), lg2)" using ih by blast
  have "replays env (expected names [x] @ expected (names \<union> opened x) items)
      (names \<union> opened x \<union> (\<Union>x\<in>set items. opened x)) lg lg2 rs"
    by (rule replays_trans [OF 1(3)]) (use ih 2 in fastforce)
  then show ?case using 1(1) 2 by (simp add: expected_Cons [of names x items] Un_assoc)
qed

lemma getlines_line: "10 \<notin> set l \<Longrightarrow> getlines (l @ 10 # s) = l # getlines s"
  by (induction l) auto

lemma getlines_lines: "\<forall>l\<in>set ls. 10 \<notin> set l \<Longrightarrow> getlines (concat (map (\<lambda>l. l @ [10]) ls)) = ls"
  by (induction ls) (simp_all add: getlines_line)

definition replay_start :: replay_state where
  "replay_start = \<lparr> rs_containers = [], rs_requests = [] \<rparr>"


text \<open>A log with one container and one change.\<close>

definition example_replay_env :: replay_env where
  "example_replay_env = \<lparr> re_time = (\<lambda>_. 0), re_stod = (\<lambda>_. Inl out_of_range) \<rparr>"

lemma example_type: "object_GetType 2 example_cm = Inr ''volatile_list''"
  by code_simp

lemma received_message:
  assumes "list_all pr1_field_ok fs" and "length fs < 2 ^ 16" and "fits fs"
  obtains p where "pm_finds p fs"
  using wire_carries [OF assms, of 1] by (auto simp: carries_def)



section \<open>Lines that are broken\<close>

lemma string_past_end:
  assumes "length dat + 1 < n" and "n < 2 ^ 31"
  shows "replay_Deserialize env (115 # dec_nat n) dat sz = Inl (undefined_behaviour ''buffer overrun'')"
proof -
  have "unat (word_of_int (int n) :: u32) = n" using assms(2) by (simp add: unat_of_nat)
  then have "tiodata_set_string_and_size zero_data (dat @ [0]) (word_of_int (int n)) = Inl BufferOverrun"
    using assms(1) by (simp add: tiodata_set_string_and_size_def Let_def mem_read_def)
  then show ?thesis using stoi_dec_nat [OF assms(2)] by (simp add: replay_Deserialize_def)
qed

text \<open>
  The logger does not quote line ends.  The line of a string with a line end that is not its last byte ends inside the
  string, and the tool copies as many bytes as were announced, from behind the end of the line.
\<close>

theorem line_end_in_value_overruns:
  assumes "44 \<notin> set time" and "44 \<notin> set command" and "unat h < 2 ^ 31" and "replayable fmt env k"
    and "10 \<notin> set time" and "10 \<notin> set command" and "10 \<notin> set s" and "s \<noteq> []" and "last s \<noteq> 44" and "t \<noteq> []" and "length s + length t + 1 < 2 ^ 31"
  shows "\<exists>line rest. log_prefix fmt time command h k (TString (s @ 10 # t)) @ tail @ [10] = line @ 10 # rest \<and>
    getlines (line @ 10 # rest) = line # getlines rest \<and>
    LogEntry env line = Inl (undefined_behaviour ''buffer overrun'')"
proof -
  let ?n = "length (s @ 10 # t)"
  let ?line = "time @ 44 # command @ 44 # dec_nat (unat h) @ 44 # log_info fmt k @ 44 # log_body fmt k @
    44 # (115 # dec_nat ?n) @ 44 # s"
  have eq: "log_prefix fmt time command h k (TString (s @ 10 # t)) @ tail @ [10] = ?line @ 10 # t @ tail @ [10]"
    by (simp add: log_prefix_def log_info_def log_body_def)
  have "10 \<notin> set ?line"
    using assms(4-7) log_record_texts(2) [of fmt k] by (simp add: replayable_def)
  then have g: "getlines (?line @ 10 # r) = ?line # getlines r" for r by (rule getlines_line)
  have "EndsWith ?line (ascii '',n,'') = Inr False"
  proof -
    have "last ?line = last s" using assms(8) by simp
    moreover have "last ?line = 44" if "drop (length ?line - 3) ?line = ascii '',n,''"
    proof -
      have "last (drop (length ?line - 3) ?line) = last ?line" by (rule last_drop) simp
      then show ?thesis unfolding that by (simp add: ascii_def)
    qed
    ultimately show ?thesis using assms(9) by (auto simp: EndsWith_def ascii_def)
  qed
  moreover obtain e sz where "parse_entry env ?line =
      bind_res (replay_Deserialize env (115 # dec_nat ?n) s sz) (\<lambda>(v, _). Inr (e\<lparr> le_value := v \<rparr>))"
    using parse_entry_value [OF assms(1-4), of "115 # dec_nat ?n" s] by auto
  ultimately have "LogEntry env ?line = Inl (undefined_behaviour ''buffer overrun'')"
    using string_past_end [of s ?n env sz] assms(10,11) by (simp add: LogEntry_parse Suc_le_eq)
  then show ?thesis using eq g by blast
qed

theorem line_end_in_value_overruns_witness:
  "\<exists>line rest. log_prefix (\<lambda>_. []) (ascii ''t'') (ascii ''push_back'') 1 TNone (TString ([120] @ 10 # [121])) @
       ascii '',n,'' @ [10] = line @ 10 # rest \<and>
     getlines (line @ 10 # rest) = line # getlines rest \<and>
     LogEntry example_replay_env line = Inl (undefined_behaviour ''buffer overrun'')"
  by (rule line_end_in_value_overruns) (simp_all add: ascii_def replayable_def log_body_def)

end
