(* ===== verification/RawLogQueue.thy ===== *)
theory RawLogQueue
  imports ProtocolLog
begin

text \<open>
  The circular queue between \<^verbatim>\<open>RawLog\<close> and \<^verbatim>\<open>WriteRawLogThread\<close> (\<^verbatim>\<open>server/tio/BinaryProtocolLogger.h\<close>), with the accesses to
  the shared variables as steps.  Callers of \<^verbatim>\<open>RawLog\<close> exclude each other by a lock that the writing thread does not
  take.  \<open>rq_logged\<close> has the texts for which the head was advanced and \<open>rq_written\<close> the calls of \<^verbatim>\<open>f_.Write\<close>.
\<close>

section \<open>The two sides of the queue\<close>

datatype producer = PIdle | PStored "byte list" | PIncremented

datatype consumer = CTest | CWrite | CClear | CAdvance | CWrap

record raw_log =
  rq_queue :: "byte list list"
  rq_head :: nat
  rq_tail :: nat
  rq_producer :: producer
  rq_consumer :: consumer
  rq_logged :: "byte list list"
  rq_written :: "byte list list"

definition raw_log_start :: "nat \<Rightarrow> raw_log" where
  "raw_log_start queue_size =
     \<lparr> rq_queue = replicate queue_size [], rq_head = 0, rq_tail = 0, rq_producer = PIdle, rq_consumer = CTest,
       rq_logged = [], rq_written = [] \<rparr>"

definition RAW_LOG_QUEUE_SIZE :: nat where
  "RAW_LOG_QUEUE_SIZE = 250000"

definition IsLogQueueFull :: "nat \<Rightarrow> raw_log \<Rightarrow> bool" where
  "IsLogQueueFull queue_size st \<longleftrightarrow> (queue_size - rq_tail st + rq_head st) mod queue_size = queue_size - 1"

text \<open>
  \<open>atomic_wrap\<close> restricts the runs to those in which the writing thread does not look at the head between its increment
  and the test that sets it back.
\<close>

inductive raw_step :: "bool \<Rightarrow> nat \<Rightarrow> raw_log \<Rightarrow> raw_log \<Rightarrow> bool" for atomic_wrap queue_size where
  store: "rq_producer st = PIdle \<Longrightarrow>
     raw_step atomic_wrap queue_size st (st\<lparr> rq_queue := (rq_queue st)[rq_head st := line], rq_producer := PStored line \<rparr>)"
| increment: "rq_producer st = PStored line \<Longrightarrow> \<not> IsLogQueueFull queue_size st \<Longrightarrow>
     raw_step atomic_wrap queue_size st
       (st\<lparr> rq_head := rq_head st + 1, rq_producer := PIncremented, rq_logged := rq_logged st @ [line] \<rparr>)"
| wrap_head: "rq_producer st = PIncremented \<Longrightarrow>
     raw_step atomic_wrap queue_size st
       (st\<lparr> rq_head := (if queue_size \<le> rq_head st then 0 else rq_head st), rq_producer := PIdle \<rparr>)"
| test_head: "rq_consumer st = CTest \<Longrightarrow> rq_tail st \<noteq> rq_head st \<Longrightarrow> (atomic_wrap \<Longrightarrow> rq_head st < queue_size) \<Longrightarrow>
     raw_step atomic_wrap queue_size st (st\<lparr> rq_consumer := CWrite \<rparr>)"
| write_slot: "rq_consumer st = CWrite \<Longrightarrow>
     raw_step atomic_wrap queue_size st
       (st\<lparr> rq_written := rq_written st @ [rq_queue st ! rq_tail st], rq_consumer := CClear \<rparr>)"
| clear_slot: "rq_consumer st = CClear \<Longrightarrow>
     raw_step atomic_wrap queue_size st (st\<lparr> rq_queue := (rq_queue st)[rq_tail st := []], rq_consumer := CAdvance \<rparr>)"
| advance: "rq_consumer st = CAdvance \<Longrightarrow>
     raw_step atomic_wrap queue_size st (st\<lparr> rq_tail := rq_tail st + 1, rq_consumer := CWrap \<rparr>)"
| wrap_tail: "rq_consumer st = CWrap \<Longrightarrow>
     raw_step atomic_wrap queue_size st
       (st\<lparr> rq_tail := (if queue_size \<le> rq_tail st then 0 else rq_tail st), rq_consumer := CTest \<rparr>)"


section \<open>Order\<close>

definition ahead :: "raw_log \<Rightarrow> nat" where
  "ahead st = (if rq_consumer st \<in> {CClear, CAdvance} then 1 else 0)"

text \<open>\<open>w\<close> is the number of texts that were taken out; slot \<open>i mod n\<close> has text \<open>i\<close> until it is written.\<close>

definition ring_at :: "nat \<Rightarrow> nat \<Rightarrow> raw_log \<Rightarrow> bool" where
  "ring_at n w st \<longleftrightarrow>
     length (rq_queue st) = n \<and> w + ahead st \<le> length (rq_logged st) \<and> length (rq_logged st) < w + n \<and>
     rq_written st = take (w + ahead st) (rq_logged st) \<and>
     rq_head st mod n = length (rq_logged st) mod n \<and> rq_tail st mod n = w mod n \<and> rq_head st \<le> n \<and> rq_tail st \<le> n \<and>
     (rq_producer st \<noteq> PIncremented \<longrightarrow> rq_head st < n) \<and> (rq_consumer st \<noteq> CWrap \<longrightarrow> rq_tail st < n) \<and>
     (rq_consumer st = CWrite \<longrightarrow> w < length (rq_logged st)) \<and>
     (\<forall>i. w + ahead st \<le> i \<and> i < length (rq_logged st) \<longrightarrow> rq_queue st ! (i mod n) = rq_logged st ! i) \<and>
     (case rq_producer st of PStored line \<Rightarrow> rq_queue st ! (length (rq_logged st) mod n) = line | _ \<Rightarrow> True)"

lemma mod_neq: "w \<le> i \<Longrightarrow> i < j \<Longrightarrow> j < w + n \<Longrightarrow> i mod n \<noteq> j mod (n :: nat)"
proof
  assume a: "w \<le> i" "i < j" "j < w + n" and "i mod n = j mod n"
  then have "n dvd j - i" using mod_eq_dvd_iff_nat [of i j n] by simp
  then show False using a by (auto dest: dvd_imp_le)
qed

lemma ring_start: "0 < n \<Longrightarrow> ring_at n 0 (raw_log_start n)"
  by (simp add: ring_at_def raw_log_start_def ahead_def)

lemma full_iff:
  assumes "ring_at n w st" and "rq_head st < n"
  shows "IsLogQueueFull n st \<longleftrightarrow> length (rq_logged st) = w + n - 1"
proof -
  let ?l = "length (rq_logged st)"
  have r: "w \<le> ?l" "?l < w + n" "rq_head st = ?l mod n" "rq_tail st mod n = w mod n" "rq_tail st \<le> n"
    using assms by (auto simp: ring_at_def)
  have "(n - rq_tail st + rq_head st) mod n = (?l - w) mod n"
  proof -
    obtain k where "?l = w + k" using r(1) le_Suc_ex by blast
    then have "rq_head st = (w mod n + k) mod n" using r(3) by (simp add: mod_add_left_eq)
    then have "(n - rq_tail st + rq_head st) mod n = (n - rq_tail st + (rq_tail st + k)) mod n"
      unfolding r(4) [symmetric] by (metis mod_add_left_eq mod_add_right_eq)
    then show ?thesis using r(5) \<open>?l = w + k\<close> by simp
  qed
  then show ?thesis using r(1,2) by (auto simp: IsLogQueueFull_def)
qed

lemma ring_step:
  assumes "raw_step True n st st'" and "ring_at n w st"
  shows "\<exists>w'. ring_at n w' st'"
  using assms(1)
proof cases
  case (store line)
  let ?l = "length (rq_logged st)"
  have h: "rq_head st = ?l mod n" "?l < w + n" using assms(2) store by (auto simp: ring_at_def)
  have "(rq_queue st)[rq_head st := line] ! (i mod n) = rq_logged st ! i" if "w + ahead st \<le> i" "i < ?l" for i
    using that assms(2) mod_neq [of w i ?l n] h by (auto simp: ring_at_def)
  moreover have "(rq_queue st)[rq_head st := line] ! (?l mod n) = line" using assms(2) h store by (auto simp: ring_at_def)
  ultimately show ?thesis using assms(2) store by (intro exI [of _ w]) (auto simp: ring_at_def ahead_def)
next
  case (increment line)
  let ?l = "length (rq_logged st)"
  have l: "?l \<noteq> w + n - 1" using full_iff [OF assms(2)] increment assms(2) by (auto simp: ring_at_def)
  show ?thesis using assms(2) increment l
    by (intro exI [of _ w]) (auto simp: ring_at_def ahead_def nth_append mod_Suc less_Suc_eq)
next
  case wrap_head
  then show ?thesis using assms(2) by (intro exI [of _ w]) (auto simp: ring_at_def ahead_def)
next
  case test_head
  then show ?thesis using assms(2)
    by (intro exI [of _ w]) (auto simp: ring_at_def ahead_def le_less split: producer.splits)
next
  case write_slot
  then show ?thesis using assms(2)
    by (intro exI [of _ w]) (auto simp: ring_at_def ahead_def take_Suc_conv_app_nth split: producer.splits)
next
  case clear_slot
  let ?l = "length (rq_logged st)"
  have t: "rq_tail st = w mod n" "w < ?l" "?l < w + n" using assms(2) clear_slot by (auto simp: ring_at_def ahead_def)
  then have "w mod n \<noteq> ?l mod n" "w + 1 \<le> i \<Longrightarrow> i < ?l \<Longrightarrow> w mod n \<noteq> i mod n" for i
    using mod_neq [of w w ?l n] mod_neq [of w w i n] by auto
  then show ?thesis using assms(2) clear_slot t
    by (intro exI [of _ w]) (auto simp: ring_at_def ahead_def split: producer.splits)
next
  case advance
  then show ?thesis using assms(2)
    by (intro exI [of _ "w + 1"]) (auto simp: ring_at_def ahead_def mod_Suc split: producer.splits)
next
  case wrap_tail
  then show ?thesis using assms(2)
    by (intro exI [of _ w]) (auto simp: ring_at_def ahead_def split: producer.splits)
qed

lemma ring_reachable:
  assumes "(raw_step True n)\<^sup>*\<^sup>* (raw_log_start n) st" and "0 < n"
  shows "\<exists>w. ring_at n w st"
  using assms(1)
proof (induction rule: rtranclp_induct)
  case base
  then show ?case using ring_start [OF assms(2)] by blast
next
  case (step st st')
  then show ?case using ring_step by blast
qed

text \<open>
  C20: as long as the writing thread does not look at the head between its increment and its wrap-around, the log has the
  texts in the order in which they were logged: what was written is a prefix of what was logged, fewer texts than the
  queue has slots are missing, and none is missing when the indices are equal.
\<close>

theorem raw_log_in_order:
  assumes "(raw_step True n)\<^sup>*\<^sup>* (raw_log_start n) st" and "0 < n"
  shows "\<exists>pending. rq_logged st = rq_written st @ pending \<and> length pending < n \<and>
    (rq_head st = rq_tail st \<and> rq_consumer st = CTest \<longrightarrow> pending = [])"
proof -
  obtain w where r: "ring_at n w st" using ring_reachable [OF assms] by blast
  let ?l = "length (rq_logged st)" and ?p = "drop (w + ahead st) (rq_logged st)"
  have "rq_logged st = rq_written st @ ?p" "length ?p < n" using r by (auto simp: ring_at_def)
  moreover have "?l = w" if "rq_head st = rq_tail st" "rq_consumer st = CTest"
  proof (rule ccontr)
    have "w \<le> ?l" "?l < w + n" "w mod n = ?l mod n" using r that by (auto simp: ring_at_def ahead_def)
    moreover assume "?l \<noteq> w"
    ultimately show False using mod_neq [of w w ?l n] by simp
  qed
  ultimately show ?thesis by (intro exI [of _ ?p]) auto
qed

theorem raw_log_in_order_witness:
  "\<exists>st pending. (raw_step True RAW_LOG_QUEUE_SIZE)\<^sup>*\<^sup>* (raw_log_start RAW_LOG_QUEUE_SIZE) st \<and> rq_logged st = [[97]] \<and>
     rq_logged st = rq_written st @ pending"
proof -
  let ?n = RAW_LOG_QUEUE_SIZE and ?s0 = "raw_log_start RAW_LOG_QUEUE_SIZE"
  let ?s1 = "?s0\<lparr> rq_queue := (rq_queue ?s0)[rq_head ?s0 := [97]], rq_producer := PStored [97] \<rparr>"
  let ?s2 = "?s1\<lparr> rq_head := rq_head ?s1 + 1, rq_producer := PIncremented, rq_logged := rq_logged ?s1 @ [[97]] \<rparr>"
  have n: "0 < ?n" "?n \<noteq> 1" by (simp_all add: RAW_LOG_QUEUE_SIZE_def)
  have "raw_step True ?n ?s0 ?s1" by (rule raw_step.store) (simp add: raw_log_start_def)
  moreover have "raw_step True ?n ?s1 ?s2"
    by (rule raw_step.increment) (use n in \<open>simp_all add: raw_log_start_def IsLogQueueFull_def\<close>)
  ultimately have r: "(raw_step True ?n)\<^sup>*\<^sup>* ?s0 ?s2" by (meson converse_rtranclp_into_rtranclp rtranclp.rtrancl_refl)
  have "rq_logged ?s2 = [[97]]" by (simp add: raw_log_start_def)
  with raw_log_in_order [OF r n(1)] r show ?thesis by blast
qed


section \<open>A text that is lost\<close>

text \<open>A schedule of the two threads.\<close>

datatype turn = Store "byte list" | Increment | WrapHead | Test | Write | Clear | Advance | WrapTail

fun take_turn :: "nat \<Rightarrow> turn \<Rightarrow> raw_log \<Rightarrow> raw_log option" where
  "take_turn n (Store line) st =
     (if rq_producer st = PIdle
      then Some (st\<lparr> rq_queue := (rq_queue st)[rq_head st := line], rq_producer := PStored line \<rparr>) else None)"
| "take_turn n Increment st =
     (case rq_producer st of
        PStored line \<Rightarrow>
          if IsLogQueueFull n st then None
          else Some (st\<lparr> rq_head := rq_head st + 1, rq_producer := PIncremented, rq_logged := rq_logged st @ [line] \<rparr>)
      | _ \<Rightarrow> None)"
| "take_turn n WrapHead st =
     (if rq_producer st = PIncremented
      then Some (st\<lparr> rq_head := (if n \<le> rq_head st then 0 else rq_head st), rq_producer := PIdle \<rparr>) else None)"
| "take_turn n Test st =
     (if rq_consumer st = CTest \<and> rq_tail st \<noteq> rq_head st then Some (st\<lparr> rq_consumer := CWrite \<rparr>) else None)"
| "take_turn n Write st =
     (if rq_consumer st = CWrite
      then Some (st\<lparr> rq_written := rq_written st @ [rq_queue st ! rq_tail st], rq_consumer := CClear \<rparr>) else None)"
| "take_turn n Clear st =
     (if rq_consumer st = CClear
      then Some (st\<lparr> rq_queue := (rq_queue st)[rq_tail st := []], rq_consumer := CAdvance \<rparr>) else None)"
| "take_turn n Advance st =
     (if rq_consumer st = CAdvance then Some (st\<lparr> rq_tail := rq_tail st + 1, rq_consumer := CWrap \<rparr>) else None)"
| "take_turn n WrapTail st =
     (if rq_consumer st = CWrap
      then Some (st\<lparr> rq_tail := (if n \<le> rq_tail st then 0 else rq_tail st), rq_consumer := CTest \<rparr>) else None)"

fun take_turns :: "nat \<Rightarrow> turn list \<Rightarrow> raw_log \<Rightarrow> raw_log option" where
  "take_turns n [] st = Some st"
| "take_turns n (t # ts) st = (case take_turn n t st of None \<Rightarrow> None | Some st' \<Rightarrow> take_turns n ts st')"

lemma turn_step: "take_turn n t st = Some st' \<Longrightarrow> raw_step False n st st'"
  using raw_step.increment [of st _ n False] raw_step.wrap_head [of st False n] raw_step.advance [of st False n]
    raw_step.wrap_tail [of st False n]
  by (cases t) (auto intro: raw_step.store raw_step.test_head raw_step.write_slot raw_step.clear_slot
      split: if_split_asm producer.splits)

lemma turns_steps: "take_turns n ts st = Some st' \<Longrightarrow> (raw_step False n)\<^sup>*\<^sup>* st st'"
  by (induction ts arbitrary: st) (auto split: option.splits dest!: turn_step intro: converse_rtranclp_into_rtranclp)

definition quiet_at :: "nat \<Rightarrow> nat \<Rightarrow> byte list list \<Rightarrow> raw_log" where
  "quiet_at n i xs = \<lparr> rq_queue = replicate n [], rq_head = i, rq_tail = i, rq_producer = PIdle, rq_consumer = CTest,
     rq_logged = xs, rq_written = xs \<rparr>"

lemma clear_replicate: "(replicate n [])[i := []] = replicate n []"
proof (cases "i < n")
  case True
  then show ?thesis using list_update_id [of "replicate n []" i] by simp
next
  case False
  then show ?thesis by (simp add: list_update_beyond)
qed

abbreviation (input) one_text :: "byte list \<Rightarrow> turn list" where
  "one_text line \<equiv> [Store line, Increment, WrapHead, Test, Write, Clear, Advance, WrapTail]"

lemma one_text_run:
  assumes "2 \<le> n" and "i + 1 < n"
  shows "take_turns n (one_text line) (quiet_at n i xs) = Some (quiet_at n (i + 1) (xs @ [line]))"
  using assms by (simp add: quiet_at_def IsLogQueueFull_def clear_replicate)

lemma last_slot:
  assumes "2 \<le> n"
  shows "i < n \<Longrightarrow> (raw_step False n)\<^sup>*\<^sup>* (raw_log_start n) (quiet_at n i (replicate i line))"
proof (induction i)
  case 0
  then show ?case by (simp add: quiet_at_def raw_log_start_def)
next
  case (Suc i)
  then have "(raw_step False n)\<^sup>*\<^sup>* (quiet_at n i (replicate i line)) (quiet_at n (i + 1) (replicate i line @ [line]))"
    by (intro turns_steps [OF one_text_run [OF assms]]) simp
  then show ?case using Suc by (simp add: replicate_append_same)
qed

text \<open>
  At the last slot the writing thread sees the head before it is set back, takes the first slot for a text, and
  clears it after the next text was stored there.
\<close>

definition losing_turns :: "byte list \<Rightarrow> byte list \<Rightarrow> turn list" where
  "losing_turns line lost =
     [Store line, Increment, Test, Write, Clear, Advance, WrapTail, Test, Write, WrapHead,
      Store lost, Increment, WrapHead, Clear, Advance, WrapTail]"

lemma losing_run:
  assumes "2 \<le> n"
  shows "take_turns n (losing_turns line lost) (quiet_at n (n - 1) xs) =
    Some ((quiet_at n 1 [])\<lparr> rq_logged := xs @ [line, lost], rq_written := xs @ [line, []] \<rparr>)"
  using assms by (simp add: losing_turns_def quiet_at_def IsLogQueueFull_def clear_replicate)

text \<open>
  C38: without that restriction a text can be lost: for every size of the queue there is a run after which both threads
  have done all their work and the last text that was logged was not written.
\<close>

theorem raw_log_loses_text:
  assumes "2 \<le> n"
  shows "\<exists>st. (raw_step False n)\<^sup>*\<^sup>* (raw_log_start n) st \<and> rq_producer st = PIdle \<and> rq_consumer st = CTest \<and>
    rq_head st = rq_tail st \<and> rq_logged st = replicate n line @ [lost] \<and> rq_written st = replicate n line @ [[]]"
proof -
  have "(raw_step False n)\<^sup>*\<^sup>* (raw_log_start n) (quiet_at n (n - 1) (replicate (n - 1) line))"
    using last_slot [OF assms] assms by simp
  moreover have "replicate (n - 1) line @ [line, x] = replicate n line @ [x]" for x
    using assms by (cases n) (simp_all add: replicate_append_same [symmetric])
  ultimately show ?thesis
    using turns_steps [OF losing_run [OF assms, of line lost "replicate (n - 1) line"]]
    by (intro exI conjI) (erule (1) rtranclp_trans, simp_all add: quiet_at_def)
qed

theorem raw_log_loses_text_witness:
  "\<exists>st. (raw_step False RAW_LOG_QUEUE_SIZE)\<^sup>*\<^sup>* (raw_log_start RAW_LOG_QUEUE_SIZE) st \<and> rq_producer st = PIdle \<and>
    rq_consumer st = CTest \<and> rq_head st = rq_tail st \<and> rq_logged st = replicate RAW_LOG_QUEUE_SIZE [97] @ [[98]] \<and>
    rq_written st = replicate RAW_LOG_QUEUE_SIZE [97] @ [[]]"
proof -
  have "2 \<le> RAW_LOG_QUEUE_SIZE" by (simp add: RAW_LOG_QUEUE_SIZE_def)
  then show ?thesis by (rule raw_log_loses_text)
qed

end
