(* ===== verification/X1Fields.thy ===== *)
theory X1Fields
  imports ServerSession
begin

text \<open>
  The X1 encoding of a list of values: \<^verbatim>\<open>Serialize\<close> of \<^verbatim>\<open>server/tio/TioTcpServer.cpp\<close> writes it and \<^verbatim>\<open>x1_decode\<close> of
  \<^verbatim>\<open>client/c/tioclient.c\<close> reads it.  The header has the number of fields and for each field its size, as four hexadecimal
  digits, and a letter for its type; behind it are the texts of the values.  The text of a double is a parameter.
\<close>

section \<open>Hexadecimal numbers\<close>

definition hex_digit :: "nat \<Rightarrow> byte" where
  "hex_digit d = of_nat (if d < 10 then 48 + d else 87 + d)"

fun hex_nat :: "nat \<Rightarrow> byte list" where
  "hex_nat n = (if n < 16 then [hex_digit n] else hex_nat (n div 16) @ [hex_digit (n mod 16)])"

declare hex_nat.simps [simp del]

text \<open>\<^verbatim>\<open>setfill('0') << setw(4) << hex\<close>.\<close>

definition hex4 :: "nat \<Rightarrow> byte list" where
  "hex4 n = (let s = hex_nat n in replicate (4 - length s) 48 @ s)"

definition hex_value :: "byte \<Rightarrow> nat option" where
  "hex_value c =
     (if 48 \<le> c \<and> c \<le> 57 then Some (unat c - 48)
      else if 97 \<le> c \<and> c \<le> 102 then Some (unat c - 87)
      else if 65 \<le> c \<and> c \<le> 70 then Some (unat c - 55)
      else None)"

definition read_hex :: "byte list \<Rightarrow> nat" where
  "read_hex bs = foldl (\<lambda>n c. 16 * n + the (hex_value c)) 0 bs"

text \<open>
  \<^verbatim>\<open>sscanf(s, "%X", &n)\<close> for a text of at most four characters: white space, a sign, \<^verbatim>\<open>0x\<close> and the digits.  \<open>None\<close> is a
  failure to match, which leaves the variable as it was.
\<close>

definition sscanf_X :: "byte list \<Rightarrow> u32 option" where
  "sscanf_X s =
     (let s = dropWhile (\<lambda>c. c \<in> {9, 10, 11, 12, 13, 32}) s;
          (negative, s) =
            (case s of
               [] \<Rightarrow> (False, [])
             | c # cs \<Rightarrow> if c = 45 then (True, cs) else if c = 43 then (False, cs) else (False, s));
          s = (case s of z # x # cs \<Rightarrow> if z = 48 \<and> x \<in> {120, 88} then cs else s | _ \<Rightarrow> s);
          digits = takeWhile (\<lambda>c. hex_value c \<noteq> None) s;
          n = of_nat (read_hex digits)
      in if digits = [] then None else Some (if negative then - n else n))"


section \<open>The server's encoder\<close>

text \<open>The letter and the text of a field; a field without a value has neither.\<close>

fun x1_text :: "(u64 \<Rightarrow> byte list) \<Rightarrow> tio_data option \<Rightarrow> (byte \<times> byte list) option" where
  "x1_text format_g None = None"
| "x1_text format_g (Some TNone) = None"
| "x1_text format_g (Some (TString s)) = Some (83, TioData.c_str s)"
| "x1_text format_g (Some (TInt i)) = Some (73, dec_int (sint i))"
| "x1_text format_g (Some (TDouble x)) = Some (68, format_g x)"

definition serialize_field ::
    "(u64 \<Rightarrow> byte list) \<Rightarrow> byte list \<times> byte list \<Rightarrow> tio_data option \<Rightarrow> byte list \<times> byte list" where
  "serialize_field format_g hv field =
     (let (header, vals) = hv; currentStreamSize = of_nat (length vals) :: u32 in
      case x1_text format_g field of
        None \<Rightarrow> (header @ hex4 0 @ [88], vals)
      | Some (dataTypeCode, t) \<Rightarrow>
          let vals = vals @ t; sz = of_nat (length vals) - currentStreamSize
          in (header @ hex4 (unat sz) @ [dataTypeCode], vals @ [32]))"

definition x1_Serialize :: "(u64 \<Rightarrow> byte list) \<Rightarrow> tio_data option list \<Rightarrow> byte list" where
  "x1_Serialize format_g fs =
     (let (header, vals) = foldl (serialize_field format_g) (ascii ''X1'' @ hex4 (length fs) @ [67], []) fs
      in header @ [32] @ vals)"


section \<open>The client's decoder\<close>

record x1_field =
  x1_data_type :: byte
  x1_value :: "byte list option"

definition x1_zero :: x1_field where
  "x1_zero = \<lparr> x1_data_type = 0, x1_value = None \<rparr>"

text \<open>The values that are freed, up to the first field without one.\<close>

fun x1_free :: "x1_field list \<Rightarrow> byte list list cres" where
  "x1_free [] = Inl BufferOverrun"
| "x1_free (f # fs) =
     (case x1_value f of None \<Rightarrow> Inr [] | Some v \<Rightarrow> bind_res (x1_free fs) (\<lambda>vs. Inr (v # vs)))"

definition c_string_at :: "block \<Rightarrow> nat \<Rightarrow> byte list cres" where
  "c_string_at b off = (if 0 \<in> set (drop off b) then Inr (takeWhile (\<lambda>c. c \<noteq> 0) (drop off b)) else Inl BufferOverrun)"

text \<open>The loop with \<open>k\<close> fields to go; the variable \<^verbatim>\<open>fieldDataSize\<close> keeps its value when \<^verbatim>\<open>sscanf\<close> fails.\<close>

fun x1_fields :: "nat \<Rightarrow> u32 \<Rightarrow> u32 \<Rightarrow> block \<Rightarrow> nat \<Rightarrow> u32 \<Rightarrow> x1_field list \<Rightarrow> x1_field list option cres" where
  "x1_fields 0 a sz bufferCopy currentData fieldDataSize ret = Inr (Some ret)"
| "x1_fields (Suc k) a sz bufferCopy currentData fieldDataSize ret =
     (let fieldSpecOffset = 7 + 5 * a in
      if sz < fieldSpecOffset + 4 then bind_res (x1_free ret) (\<lambda>_. Inr None)
      else
        bind_res (mem_read bufferCopy (unat (fieldSpecOffset + 4)) 1) (\<lambda>t.
        bind_res (guard_res (unat a < length ret) BufferOverrun) (\<lambda>_.
        bind_res (mem_write bufferCopy (unat (fieldSpecOffset + 4)) [0]) (\<lambda>bufferCopy.
        bind_res (c_string_at bufferCopy (unat fieldSpecOffset)) (\<lambda>spec.
        let fieldDataSize = (case sscanf_X spec of None \<Rightarrow> fieldDataSize | Some n \<Rightarrow> n) in
        bind_res (mem_write bufferCopy (currentData + unat fieldDataSize) [0]) (\<lambda>bufferCopy.
        bind_res (c_string_at bufferCopy currentData) (\<lambda>v.
        bind_res (strlen32 v) (\<lambda>_.
          x1_fields k (a + 1) sz bufferCopy (currentData + unat (fieldDataSize + 1)) fieldDataSize
            (ret[unat a := \<lparr> x1_data_type = hd t, x1_value = Some v \<rparr>])))))))))"

text \<open>\<open>count0\<close> and \<open>size0\<close> are what the local variables \<^verbatim>\<open>fieldCount\<close> and \<^verbatim>\<open>fieldDataSize\<close> have before they are set.\<close>

definition x1_decode :: "u32 \<Rightarrow> u32 \<Rightarrow> block \<Rightarrow> u32 \<Rightarrow> x1_field list option cres" where
  "x1_decode count0 size0 buffer sz =
     bind_res (mem_read buffer 0 2) (\<lambda>magic.
     if magic \<noteq> ascii ''X1'' then Inr None
     else
       bind_res (mem_read buffer 0 (unat sz)) (\<lambda>bufferCopy.
       if sz < 2 + 4 then Inr None
       else
         bind_res (mem_write bufferCopy 6 [0]) (\<lambda>bufferCopy.
         bind_res (c_string_at bufferCopy 2) (\<lambda>count.
         let fieldCount = (case sscanf_X count of None \<Rightarrow> count0 | Some n \<Rightarrow> n);
             offset = 7 + 5 * fieldCount + 1
         in
         if sz < offset then Inr None
         else
           let ret_buffer_size = ucast ((ucast (fieldCount + 1) :: u64) * 16) :: u32
           in x1_fields (unat fieldCount) 0 sz bufferCopy (unat offset) size0
                (replicate (unat ret_buffer_size div 16) x1_zero)))))"


section \<open>Numbers read back\<close>

lemma hex_value_digit: "d < 16 \<Longrightarrow> hex_value (hex_digit d) = Some d"
proof -
  have "\<forall>d \<in> {0..<16}. hex_value (hex_digit d) = Some d"
    by (simp add: hex_value_def hex_digit_def upt_conv_Cons flip: set_upt)
  then show "d < 16 \<Longrightarrow> hex_value (hex_digit d) = Some d" by simp
qed

lemma hex_nat_digits: "c \<in> set (hex_nat n) \<Longrightarrow> hex_value c \<noteq> None"
proof (induction n rule: hex_nat.induct)
  case (1 n)
  then show ?case by (subst (asm) (2) hex_nat.simps) (auto simp: hex_value_digit split: if_splits)
qed

lemma read_hex_nat: "read_hex (hex_nat n) = n"
proof (induction n rule: hex_nat.induct)
  case (1 n)
  then show ?case by (subst hex_nat.simps) (simp add: read_hex_def hex_value_digit)
qed

lemma hex_nat_length: "n < 16 ^ Suc k \<Longrightarrow> length (hex_nat n) \<le> Suc k"
proof (induction k arbitrary: n)
  case 0
  then show ?case by (subst hex_nat.simps) simp
next
  case (Suc k)
  then have "n div 16 < 16 ^ Suc k" by (simp add: less_mult_imp_div_less)
  then show ?case using Suc.IH [of "n div 16"] by (subst hex_nat.simps) simp
qed

lemma hex4_length: "n < 2 ^ 16 \<Longrightarrow> length (hex4 n) = 4"
  using hex_nat_length [of n 3] by (simp add: hex4_def Let_def)

lemma hex4_digits: "c \<in> set (hex4 n) \<Longrightarrow> hex_value c \<noteq> None"
  by (auto simp: hex4_def Let_def dest: hex_nat_digits) (simp add: hex_value_def)

lemma read_hex_zeros: "read_hex (replicate k 48 @ bs) = read_hex bs"
  by (induction k) (simp_all add: read_hex_def hex_value_def)

lemma read_hex4: "read_hex (hex4 n) = n"
  by (simp add: hex4_def Let_def read_hex_zeros read_hex_nat)

lemma hex_value_not: "c \<in> {0, 9, 10, 11, 12, 13, 32, 43, 45, 120, 88} \<Longrightarrow> hex_value c = None"
  by (auto simp: hex_value_def)

lemma sscanf_hex:
  assumes "\<forall>c \<in> set s. hex_value c \<noteq> None" and "s \<noteq> []"
  shows "sscanf_X s = Some (of_nat (read_hex s))"
proof -
  obtain c cs where s: "s = c # cs" using assms(2) by (cases s) auto
  have d: "x \<notin> {0, 9, 10, 11, 12, 13, 32, 43, 45, 120, 88}" if "x \<in> set s" for x
    using that assms(1) hex_value_not by blast
  have w: "dropWhile (\<lambda>c. c \<in> {9, 10, 11, 12, 13, 32}) s = s" using d [of c] s by auto
  have sgn: "(case s of [] \<Rightarrow> (False, []) | c # cs \<Rightarrow> if c = 45 then (True, cs) else if c = 43 then (False, cs) else (False, s))
    = (False, s)" using d [of c] s by auto
  have p: "(case s of z # x # cs \<Rightarrow> if z = 48 \<and> x \<in> {120, 88} then cs else s | _ \<Rightarrow> s) = s"
    using d [of "hd cs"] s by (cases cs) auto
  have t: "takeWhile (\<lambda>c. hex_value c \<noteq> None) s = s" using assms(1) by (simp add: takeWhile_eq_all_conv)
  show ?thesis unfolding sscanf_X_def Let_def w sgn prod.case p t using assms(2) by simp
qed

lemma hex4_no_zero: "0 \<notin> set (hex4 n)"
  using hex4_digits [of 0 n] hex_value_not [of 0] by auto

lemma sscanf_hex4: "sscanf_X (hex4 n) = Some (of_nat n)"
proof -
  have "hex4 n \<noteq> []" by (simp add: hex4_def Let_def hex_nat.simps [of n])
  then show ?thesis using sscanf_hex [of "hex4 n"] hex4_digits by (auto simp: read_hex4)
qed


section \<open>One field of the decoder\<close>

lemma c_string_at_mid: "length p = off \<Longrightarrow> 0 \<notin> set t \<Longrightarrow> c_string_at (p @ t @ 0 # r) off = Inr t"
  by (auto simp: c_string_at_def takeWhile_append2 takeWhile_tail)

lemma x1_spec_step:
  assumes "length pre = 7 + 5 * a" and "m < 2 ^ 16" and "a < length ret" and "length (pre @ (hex4 m @ [c]) @ r) < 2 ^ 32"
  shows "x1_fields (Suc k) (of_nat a) (of_nat (length (pre @ (hex4 m @ [c]) @ r))) (pre @ (hex4 m @ [c]) @ r) cur old ret =
    bind_res (mem_write (pre @ hex4 m @ 0 # r) (cur + m) [0]) (\<lambda>b.
    bind_res (c_string_at b cur) (\<lambda>v.
    bind_res (strlen32 v) (\<lambda>_.
      x1_fields k (of_nat (Suc a)) (of_nat (length (pre @ (hex4 m @ [c]) @ r))) b (cur + m + 1) (of_nat m)
        (ret[a := \<lparr> x1_data_type = c, x1_value = Some v \<rparr>]))))"
proof -
  let ?B = "pre @ (hex4 m @ [c]) @ r"
  have h: "length (hex4 m) = 4" using assms(2) by (rule hex4_length)
  have n: "11 + 5 * a < length ?B" using assms(1) h by simp
  have u: "unat (of_nat i :: u32) = i" if "i \<le> length ?B" for i using that assms(4) by (intro unat_of_nat_u32) simp
  have off: "7 + 5 * of_nat a = (of_nat (7 + 5 * a) :: u32)" "of_nat (7 + 5 * a) + 4 = (of_nat (11 + 5 * a) :: u32)"
    "of_nat m + 1 = (of_nat (m + 1) :: u32)" "of_nat a + 1 = (of_nat (Suc a) :: u32)" by simp_all
  have lt: "\<not> (of_nat (length ?B) :: u32) < of_nat (11 + 5 * a)"
    unfolding word_less_nat_alt using u [of "length ?B"] u [of "11 + 5 * a"] n by simp
  have rd: "mem_read ?B (11 + 5 * a) 1 = Inr [c]" using assms(1) h mem_read_mid [of "pre @ hex4 m" "11 + 5 * a" "[c]"] by simp
  have w: "mem_write ?B (11 + 5 * a) [0] = Inr (pre @ hex4 m @ 0 # r)"
    using assms(1) h mem_write_mid [of "pre @ hex4 m" "11 + 5 * a" 0 "[0]" "[c]"] by simp
  have sp: "c_string_at (pre @ hex4 m @ 0 # r) (7 + 5 * a) = Inr (hex4 m)"
    using assms(1) hex4_no_zero by (intro c_string_at_mid) simp_all
  have um: "unat (of_nat m :: u32) = m" "unat (of_nat (m + 1) :: u32) = m + 1"
    using unat_of_nat_u32 [of m] unat_of_nat_u32 [of "m + 1"] assms(2) by simp_all
  have ua: "unat (of_nat a :: u32) = a" "unat (of_nat (7 + 5 * a) :: u32) = 7 + 5 * a"
    using u [of a] u [of "7 + 5 * a"] n by simp_all
  show ?thesis
    unfolding x1_fields.simps Let_def off if_not_P [OF lt] u [OF less_imp_le [OF n]] ua rd bind_res_simps w
      eqTrueI [OF assms(3)] guard_res_simps sp sscanf_hex4 option.case um list.sel
    by (simp only: add.assoc)
qed

lemma x1_field_step:
  assumes "length pre = 7 + 5 * a" and "length t < 2 ^ 16" and "0 \<notin> set t" and "length ready = a"
    and "length (pre @ (hex4 (length t) @ [c]) @ spec @ mid @ (t @ [x]) @ vals) < 2 ^ 32"
    and "cur = length pre + 5 + length spec + length mid"
  shows "x1_fields (Suc k) (of_nat a) (of_nat (length (pre @ (hex4 (length t) @ [c]) @ spec @ mid @ (t @ [x]) @ vals)))
      (pre @ (hex4 (length t) @ [c]) @ spec @ mid @ (t @ [x]) @ vals) cur old (ready @ e # rest) =
    x1_fields k (of_nat (Suc a)) (of_nat (length (pre @ (hex4 (length t) @ [c]) @ spec @ mid @ (t @ [x]) @ vals)))
      ((pre @ hex4 (length t) @ [0]) @ spec @ (mid @ t @ [0]) @ vals) (cur + length t + 1) (of_nat (length t))
      ((ready @ [\<lparr> x1_data_type = c, x1_value = Some t \<rparr>]) @ rest)"
proof -
  let ?h = "hex4 (length t)"
  have h: "length ?h = 4" using assms(2) by (rule hex4_length)
  have a: "a < length (ready @ e # rest)" using assms(4) by simp
  have w: "mem_write (pre @ ?h @ 0 # spec @ mid @ (t @ [x]) @ vals) (cur + length t) [0] =
      Inr ((pre @ ?h @ 0 # spec @ mid) @ t @ 0 # vals)"
    using assms(6) h mem_write_mid [of "pre @ ?h @ 0 # spec @ mid @ t" "cur + length t" 0 "[0]" "[x]"] by simp
  have st: "c_string_at ((pre @ ?h @ 0 # spec @ mid) @ t @ 0 # vals) cur = Inr t"
    using assms(3,6) h by (intro c_string_at_mid) simp_all
  have tw: "takeWhile (\<lambda>c. c \<noteq> 0) t = t" using assms(3) by (auto simp: takeWhile_eq_all_conv)
  have sl: "strlen32 t = Inr (of_nat (length t))" unfolding strlen32_def Let_def tw using assms(2) by simp
  have r: "(ready @ e # rest)[a := y] = (ready @ [y]) @ rest" for y
    using assms(4) list_update_length [of ready e rest y] by simp
  show ?thesis
    unfolding x1_spec_step [OF assms(1,2) a assms(5)] w bind_res_simps st sl r by simp
qed


section \<open>Round trip\<close>

definition x1_spec :: "byte \<times> byte list \<Rightarrow> byte list" where
  "x1_spec ct = hex4 (length (snd ct)) @ [fst ct]"

definition x1_space :: "byte \<times> byte list \<Rightarrow> byte list" where
  "x1_space ct = snd ct @ [32]"

definition x1_entry :: "byte \<times> byte list \<Rightarrow> x1_field" where
  "x1_entry ct = \<lparr> x1_data_type = fst ct, x1_value = Some (snd ct) \<rparr>"

definition x1_short :: "byte \<times> byte list \<Rightarrow> bool" where
  "x1_short ct \<longleftrightarrow> length (snd ct) < 2 ^ 16 \<and> 0 \<notin> set (snd ct)"

lemma serialize_fields:
  assumes "list_all2 (\<lambda>f ct. x1_text fmt f = Some ct) fs cts" and "list_all x1_short cts"
  shows "foldl (serialize_field fmt) (h, v) fs = (h @ concat (map x1_spec cts), v @ concat (map x1_space cts))"
  using assms
proof (induction arbitrary: h v rule: list_all2_induct)
  case (Cons f fs ct cts)
  obtain c t where ct: "ct = (c, t)" by (cases ct)
  have "unat (of_nat (length t) :: u32) = length t" using Cons.prems ct by (simp add: unat_of_nat_u32 x1_short_def)
  then have "serialize_field fmt (h, v) f = (h @ x1_spec ct, v @ x1_space ct)"
    using Cons.hyps ct by (simp add: serialize_field_def x1_spec_def x1_space_def)
  then show ?case using Cons by simp
qed simp

lemma specs_length: "list_all x1_short cts \<Longrightarrow> length (concat (map x1_spec cts)) = 5 * length cts"
  by (induction cts) (simp_all add: x1_spec_def x1_short_def hex4_length)

lemma x1_fields_run:
  assumes "list_all x1_short cts" and "length pre = 7 + 5 * a" and "length ready = a" and "length slots = length cts"
    and "length (pre @ concat (map x1_spec cts) @ spec @ mid @ concat (map x1_space cts) @ ext) < 2 ^ 32"
  shows "\<exists>pre' mid' old'. length pre' = 7 + 5 * (a + length cts) \<and> length mid' = length mid + length (concat (map x1_space cts)) \<and>
    x1_fields (length cts + k) (of_nat a) (of_nat (length (pre @ concat (map x1_spec cts) @ spec @ mid @ concat (map x1_space cts) @ ext)))
      (pre @ concat (map x1_spec cts) @ spec @ mid @ concat (map x1_space cts) @ ext)
      (length pre + 5 * length cts + length spec + length mid) old (ready @ slots @ rest) =
    x1_fields k (of_nat (a + length cts)) (of_nat (length (pre' @ spec @ mid' @ ext))) (pre' @ spec @ mid' @ ext)
      (length pre' + length spec + length mid') old' (ready @ map x1_entry cts @ rest)"
  using assms
proof (induction cts arbitrary: pre mid a old ready slots)
  case Nil
  then show ?case by (intro exI [of _ pre] exI [of _ mid] exI [of _ old]) simp
next
  case (Cons ct cts)
  obtain c t where ct: "ct = (c, t)" by (cases ct)
  obtain e slots' where sl: "slots = e # slots'" "length slots' = length cts" using Cons.prems(4) by (cases slots) auto
  let ?pre = "pre @ hex4 (length t) @ [0]" and ?mid = "mid @ t @ [0]" and ?S = "concat (map x1_spec cts)" and ?V = "concat (map x1_space cts)"
  have "x1_short ct" and t3: "list_all x1_short cts" using Cons.prems(1) by simp_all
  then have t: "length t < 2 ^ 16" "0 \<notin> set t" "list_all x1_short cts" using t3 ct by (auto simp: x1_short_def)
  have h: "length (hex4 (length t)) = 4" using t(1) by (rule hex4_length)
  have B: "pre @ concat (map x1_spec (ct # cts)) @ spec @ mid @ concat (map x1_space (ct # cts)) @ ext =
      pre @ (hex4 (length t) @ [c]) @ (?S @ spec) @ mid @ (t @ [32]) @ (?V @ ext)"
    by (simp add: ct x1_spec_def x1_space_def)
  have L: "length (pre @ (hex4 (length t) @ [c]) @ (?S @ spec) @ mid @ (t @ [32]) @ (?V @ ext)) =
      length (?pre @ ?S @ spec @ ?mid @ ?V @ ext)" by simp
  have small: "length (?pre @ ?S @ spec @ ?mid @ ?V @ ext) < 2 ^ 32" using Cons.prems(5) unfolding B L .
  have st: "x1_fields (Suc (length cts + k)) (of_nat a) (of_nat (length (?pre @ ?S @ spec @ ?mid @ ?V @ ext)))
      (pre @ (hex4 (length t) @ [c]) @ (?S @ spec) @ mid @ (t @ [32]) @ (?V @ ext))
      (length pre + 5 * Suc (length cts) + length spec + length mid) old (ready @ e # (slots' @ rest)) =
    x1_fields (length cts + k) (of_nat (Suc a)) (of_nat (length (?pre @ ?S @ spec @ ?mid @ ?V @ ext)))
      (?pre @ ?S @ spec @ ?mid @ ?V @ ext) (length ?pre + 5 * length cts + length spec + length ?mid) (of_nat (length t))
      ((ready @ [x1_entry ct]) @ slots' @ rest)"
    using x1_field_step [of pre a t ready c "?S @ spec" mid 32 "?V @ ext" _ "length cts + k" old e "slots' @ rest"]
      Cons.prems(2,3) t h small specs_length [OF t(3)] unfolding L by (simp add: ct x1_entry_def ac_simps)
  obtain pre' mid' old' where r: "length pre' = 7 + 5 * (Suc a + length cts)" "length mid' = length ?mid + length ?V"
    "x1_fields (length cts + k) (of_nat (Suc a)) (of_nat (length (?pre @ ?S @ spec @ ?mid @ ?V @ ext)))
      (?pre @ ?S @ spec @ ?mid @ ?V @ ext) (length ?pre + 5 * length cts + length spec + length ?mid) (of_nat (length t))
      ((ready @ [x1_entry ct]) @ slots' @ rest) =
    x1_fields k (of_nat (Suc a + length cts)) (of_nat (length (pre' @ spec @ mid' @ ext))) (pre' @ spec @ mid' @ ext)
      (length pre' + length spec + length mid') old' ((ready @ [x1_entry ct]) @ map x1_entry cts @ rest)"
    using Cons.IH [OF t(3) _ _ sl(2) small, of "Suc a" "ready @ [x1_entry ct]" "of_nat (length t)"] Cons.prems(2,3) h by auto
  show ?case
  proof (intro exI conjI)
    show "length pre' = 7 + 5 * (a + length (ct # cts))" using r(1) by simp
    show "length mid' = length mid + length (concat (map x1_space (ct # cts)))" using r(2) by (simp add: ct x1_space_def)
    show "x1_fields (length (ct # cts) + k) (of_nat a)
      (of_nat (length (pre @ concat (map x1_spec (ct # cts)) @ spec @ mid @ concat (map x1_space (ct # cts)) @ ext)))
      (pre @ concat (map x1_spec (ct # cts)) @ spec @ mid @ concat (map x1_space (ct # cts)) @ ext)
      (length pre + 5 * length (ct # cts) + length spec + length mid) old (ready @ slots @ rest) =
    x1_fields k (of_nat (a + length (ct # cts))) (of_nat (length (pre' @ spec @ mid' @ ext))) (pre' @ spec @ mid' @ ext)
      (length pre' + length spec + length mid') old' (ready @ map x1_entry (ct # cts) @ rest)"
      unfolding B L using st r(3) sl(1) by (simp add: ct)
  qed
qed

lemma x1_decode_start:
  assumes "n < 2 ^ 16" and "length (ascii ''X1'' @ hex4 n @ [67] @ R) < 2 ^ 32" and "5 * n + 1 \<le> length R"
  shows "x1_decode count0 size0 (ascii ''X1'' @ hex4 n @ [67] @ R) (of_nat (length (ascii ''X1'' @ hex4 n @ [67] @ R))) =
    x1_fields n 0 (of_nat (length (ascii ''X1'' @ hex4 n @ [67] @ R))) (ascii ''X1'' @ hex4 n @ 0 # R) (8 + 5 * n) size0
      (replicate (n + 1) x1_zero)"
proof -
  let ?B = "ascii ''X1'' @ hex4 n @ [67] @ R"
  have l: "length (ascii ''X1'') = 2" "length (hex4 n) = 4" using hex4_length [OF assms(1)] by (simp_all add: ascii_def)
  have u: "unat (of_nat m :: u32) = m" if "m \<le> length ?B" for m using that assms(2) by (intro unat_of_nat_u32) simp
  have lt: "\<not> (of_nat (length ?B) :: u32) < of_nat m" if "m \<le> length ?B" for m
    unfolding word_less_nat_alt using u [OF that] u [of "length ?B"] that by simp
  have m: "mem_read ?B 0 2 = Inr (ascii ''X1'')" using mem_read_mid [of "[]" 0 "ascii ''X1''" 2] l by simp
  have c: "mem_read ?B 0 (unat (of_nat (length ?B) :: u32)) = Inr ?B" unfolding u [OF order_refl] by (simp add: mem_read_def)
  have w: "mem_write ?B 6 [0] = Inr (ascii ''X1'' @ hex4 n @ 0 # R)"
    using mem_write_mid [of "ascii ''X1'' @ hex4 n" 6 0 "[0]" "[67]" R] l by simp
  have cs: "c_string_at (ascii ''X1'' @ hex4 n @ 0 # R) 2 = Inr (hex4 n)"
    using l hex4_no_zero by (intro c_string_at_mid) simp_all
  have off: "7 + 5 * of_nat n + 1 = (of_nat (8 + 5 * n) :: u32)" by simp
  have six: "2 + 4 = (of_nat 6 :: u32)" by simp
  have n: "unat (of_nat (n + 1) :: u32) = n + 1" using assms(1) by (intro unat_of_nat_u32) simp
  have "unat (ucast (of_nat (n + 1) :: u32) :: u64) = n + 1"
    unfolding unsigned_ucast_eq n using assms(1) by (intro take_bit_nat_eq_self) simp
  then have "unat ((ucast (of_nat (n + 1) :: u32) :: u64) * 16) = (n + 1) * 16"
    using assms(1) by (simp only: unat_word_ariths) simp
  then have "unat (ucast ((ucast (of_nat (n + 1) :: u32) :: u64) * 16) :: u32) = (n + 1) * 16"
    unfolding unsigned_ucast_eq using assms(1) by (simp only:) (intro take_bit_nat_eq_self, simp)
  then have rs: "unat (ucast ((ucast (of_nat (n + 1) :: u32) :: u64) * 16) :: u32) div 16 = n + 1" by simp
  have un: "unat (of_nat n :: u32) = n" "of_nat n + 1 = (of_nat (n + 1) :: u32)" using assms(1) by (simp_all add: unat_of_nat_u32)
  have b: "6 \<le> length ?B" "8 + 5 * n \<le> length ?B" using assms(3) l by simp_all
  show ?thesis
    unfolding x1_decode_def m c w bind_res_simps six if_not_P [OF lt [OF b(1)]] cs Let_def sscanf_hex4 option.case off
      if_not_P [OF lt [OF b(2)]] un rs u [OF b(2)]
    by simp
qed

lemma x1_decode_run:
  assumes "list_all x1_short cts" and "length cts + k < 2 ^ 16" and "length spec = 5 * k"
    and "B = ascii ''X1'' @ hex4 (length cts + k) @ [67] @ concat (map x1_spec cts) @ spec @ [32] @ concat (map x1_space cts)"
    and "length B < 2 ^ 32"
  shows "\<exists>pre mid old. length pre = 7 + 5 * length cts \<and> length pre + length spec + length mid = length B \<and>
    x1_decode count0 size0 B (of_nat (length B)) =
      x1_fields k (of_nat (length cts)) (of_nat (length B)) (pre @ spec @ mid) (length B) old
        (map x1_entry cts @ replicate (k + 1) x1_zero)"
proof -
  let ?n = "length cts + k" and ?S = "concat (map x1_spec cts)" and ?V = "concat (map x1_space cts)"
  let ?pre = "ascii ''X1'' @ hex4 ?n @ [0]"
  have l: "length ?pre = 7 + 5 * 0" using hex4_length [OF assms(2)] by (simp add: ascii_def)
  have B: "length B = length (?pre @ ?S @ spec @ [32] @ ?V @ [])" unfolding assms(4) by simp
  have "x1_decode count0 size0 B (of_nat (length B)) =
      x1_fields ?n 0 (of_nat (length B)) (?pre @ ?S @ spec @ [32] @ ?V @ []) (8 + 5 * ?n) size0 (replicate (?n + 1) x1_zero)"
    using x1_decode_start [OF assms(2), of "?S @ spec @ [32] @ ?V"] assms(3,5) specs_length [OF assms(1)]
    unfolding assms(4) by simp
  moreover have "replicate (?n + 1) x1_zero = [] @ replicate (length cts) x1_zero @ replicate (k + 1) x1_zero"
    using replicate_add [of "length cts" "k + 1" x1_zero] by simp
  ultimately have d: "x1_decode count0 size0 B (of_nat (length B)) =
      x1_fields ?n (of_nat 0) (of_nat (length (?pre @ ?S @ spec @ [32] @ ?V @ []))) (?pre @ ?S @ spec @ [32] @ ?V @ [])
        (length ?pre + 5 * length cts + length spec + length [32 :: byte]) size0
        ([] @ replicate (length cts) x1_zero @ replicate (k + 1) x1_zero)"
    using B l assms(3) by simp
  have "length (?pre @ ?S @ spec @ [32] @ ?V @ []) < 2 ^ 32" using assms(5) B by simp
  from x1_fields_run [OF assms(1) l _ _ this, of "[]" "replicate (length cts) x1_zero" k size0 "replicate (k + 1) x1_zero"]
  obtain pre mid old where r: "length pre = 7 + 5 * (0 + length cts)" "length mid = length [32 :: byte] + length ?V"
    "x1_fields ?n (of_nat 0) (of_nat (length (?pre @ ?S @ spec @ [32] @ ?V @ []))) (?pre @ ?S @ spec @ [32] @ ?V @ [])
        (length ?pre + 5 * length cts + length spec + length [32 :: byte]) size0
        ([] @ replicate (length cts) x1_zero @ replicate (k + 1) x1_zero) =
      x1_fields k (of_nat (0 + length cts)) (of_nat (length (pre @ spec @ mid @ []))) (pre @ spec @ mid @ [])
        (length pre + length spec + length mid) old ([] @ map x1_entry cts @ replicate (k + 1) x1_zero)"
    by auto
  have "length pre + length spec + length mid = length B" using r(1,2) B l specs_length [OF assms(1)] by simp
  then show ?thesis using r d by (intro exI [of _ pre] exI [of _ mid] exI [of _ old]) simp
qed

definition x1_fits :: "(u64 \<Rightarrow> byte list) \<Rightarrow> tio_data \<Rightarrow> bool" where
  "x1_fits fmt d \<longleftrightarrow> (case x1_text fmt (Some d) of None \<Rightarrow> False | Some ct \<Rightarrow> x1_short ct)"

lemma x1_fits_texts:
  assumes "list_all (x1_fits fmt) ds"
  obtains cts where "list_all2 (\<lambda>f ct. x1_text fmt f = Some ct) (map Some ds) cts" "list_all x1_short cts"
    "length cts = length ds" "cts = map (\<lambda>d. the (x1_text fmt (Some d))) ds"
proof
  show "list_all2 (\<lambda>f ct. x1_text fmt f = Some ct) (map Some ds) (map (\<lambda>d. the (x1_text fmt (Some d))) ds)"
    using assms by (induction ds) (auto simp: x1_fits_def split: option.splits)
  show "list_all x1_short (map (\<lambda>d. the (x1_text fmt (Some d))) ds)"
    using assms by (induction ds) (auto simp: x1_fits_def split: option.splits)
qed simp_all

lemma x1_free_entries: "x1_free (map x1_entry cts @ [x1_zero]) = Inr (map snd cts)"
  by (induction cts) (simp_all add: x1_zero_def x1_entry_def)

text \<open>
  C19: what the server's encoder writes for values that are not empty and whose texts are shorter than 2^16 bytes is decoded by
  the client to the type letters and texts of the values in order, ended by a field without value, whatever the
  uninitialised variables had; \<^verbatim>\<open>x1_free\<close> then frees each text once.
\<close>

theorem x1_roundtrip:
  assumes "list_all (x1_fits fmt) ds" and "length ds < 2 ^ 16" and "length (x1_Serialize fmt (map Some ds)) < 2 ^ 32"
  shows "\<exists>fs. x1_decode count0 size0 (x1_Serialize fmt (map Some ds)) (of_nat (length (x1_Serialize fmt (map Some ds)))) =
      Inr (Some fs) \<and>
    map (\<lambda>f. (x1_data_type f, x1_value f)) fs =
      map (\<lambda>d. case x1_text fmt (Some d) of Some (c, t) \<Rightarrow> (c, Some t)) ds @ [(0, None)] \<and>
    x1_free fs = Inr (map (\<lambda>d. snd (the (x1_text fmt (Some d)))) ds)"
proof -
  obtain cts where c: "list_all2 (\<lambda>f ct. x1_text fmt f = Some ct) (map Some ds) cts" "list_all x1_short cts"
    "length cts = length ds" "cts = map (\<lambda>d. the (x1_text fmt (Some d))) ds" using x1_fits_texts [OF assms(1)] .
  let ?n = "length ds" and ?S = "concat (map x1_spec cts)" and ?V = "concat (map x1_space cts)"
  have B: "x1_Serialize fmt (map Some ds) = ascii ''X1'' @ hex4 ?n @ [67] @ (?S @ [32] @ ?V)"
    unfolding x1_Serialize_def serialize_fields [OF c(1,2)] by simp
  have "x1_decode count0 size0 (x1_Serialize fmt (map Some ds)) (of_nat (length (x1_Serialize fmt (map Some ds)))) =
      Inr (Some (map x1_entry cts @ [x1_zero]))"
    using x1_decode_run [OF c(2), of 0 "[]", OF _ _ _ assms(3)] assms(2) c(3) B by auto
  moreover have "map (\<lambda>f. (x1_data_type f, x1_value f)) (map x1_entry cts @ [x1_zero]) =
      map (\<lambda>d. case x1_text fmt (Some d) of Some (c, t) \<Rightarrow> (c, Some t)) ds @ [(0, None)]"
    using assms(1) unfolding c(4) by (auto simp: x1_entry_def x1_zero_def list_all_iff x1_fits_def split: option.splits)
  ultimately show ?thesis using x1_free_entries [of cts] unfolding c(4) by (intro exI conjI) (assumption, simp_all add: comp_def)
qed

theorem x1_roundtrip_witness:
  "\<exists>fs. x1_decode 9 9 (x1_Serialize (\<lambda>_. []) (map Some [TInt 5, TString [97, 98]]))
       (of_nat (length (x1_Serialize (\<lambda>_. []) (map Some [TInt 5, TString [97, 98]])))) = Inr (Some fs) \<and>
     map (\<lambda>f. (x1_data_type f, x1_value f)) fs = [(73, Some [53]), (83, Some [97, 98]), (0, None)] \<and>
     x1_free fs = Inr [[53], [97, 98]]"
proof -
  have t: "x1_text (\<lambda>_. []) (Some (TInt 5)) = Some (73, [53])" by (simp add: dec_int_def dec_nat.simps)
  have u: "x1_text (\<lambda>_. []) (Some (TString [97, 98])) = Some (83, [97, 98])" by (simp add: TioData.c_str_def)
  have l: "length (x1_Serialize (\<lambda>_. []) (map Some [TInt 5, TString [97, 98]])) < 2 ^ 32"
    by (simp add: x1_Serialize_def serialize_field_def t u ascii_def hex4_def hex_nat.simps Let_def del: x1_text.simps)
  have "list_all (x1_fits (\<lambda>_. [])) [TInt 5, TString [97, 98]]"
    by (simp add: x1_fits_def t u x1_short_def del: x1_text.simps)
  from x1_roundtrip [OF this _ l, of 9 9] show ?thesis by (simp only: list.map t u) simp
qed

text \<open>
  A list of such values that ends with an empty one cannot be decoded: the encoder writes neither text nor separator
  for the empty value, and the decoder ends its text one byte behind the end of the copied message.
\<close>

theorem x1_empty_value_overruns:
  assumes "list_all (x1_fits fmt) ds" and "f \<in> {None, Some TNone}" and "length ds + 1 < 2 ^ 16"
    and "length (x1_Serialize fmt (map Some ds @ [f])) < 2 ^ 32"
  shows "x1_decode count0 size0 (x1_Serialize fmt (map Some ds @ [f])) (of_nat (length (x1_Serialize fmt (map Some ds @ [f])))) =
    Inl BufferOverrun"
proof -
  obtain cts where c: "list_all2 (\<lambda>f ct. x1_text fmt f = Some ct) (map Some ds) cts" "list_all x1_short cts"
    "length cts = length ds" using x1_fits_texts [OF assms(1)] .
  let ?B = "x1_Serialize fmt (map Some ds @ [f])"
  have "x1_text fmt f = None" using assms(2) by auto
  then have B: "?B = ascii ''X1'' @ hex4 (length cts + 1) @ [67] @ concat (map x1_spec cts) @ (hex4 0 @ [88]) @ [32] @
      concat (map x1_space cts)"
    unfolding x1_Serialize_def by (simp add: serialize_fields [OF c(1,2)] serialize_field_def c(3))
  have n: "length cts + 1 < 2 ^ 16" and s: "length (hex4 0 @ [88]) = 5 * 1" using assms(3) c(3) hex4_length [of 0] by simp_all
  obtain pre mid old where r: "length pre = 7 + 5 * length cts" "length pre + length (hex4 0 @ [88]) + length mid = length ?B"
    "x1_decode count0 size0 ?B (of_nat (length ?B)) =
      x1_fields 1 (of_nat (length cts)) (of_nat (length ?B)) (pre @ (hex4 0 @ [88]) @ mid) (length ?B) old
        (map x1_entry cts @ replicate (1 + 1) x1_zero)"
    using x1_decode_run [OF c(2) n s B assms(4), of count0 size0] by blast
  have l: "length ?B = length (pre @ (hex4 0 @ [88]) @ mid)" using r(2) by simp
  have w: "mem_write (pre @ hex4 0 @ 0 # mid) (length ?B + 0) [0] = Inl BufferOverrun" using r(2) by (simp add: mem_write_def)
  have "x1_fields (Suc 0) (of_nat (length cts)) (of_nat (length ?B)) (pre @ (hex4 0 @ [88]) @ mid) (length ?B) old
        (map x1_entry cts @ replicate (1 + 1) x1_zero) = Inl BufferOverrun"
    using x1_spec_step [OF r(1), of 0 _ 88 mid 0 "length ?B"] assms(4) w unfolding l by simp
  then show ?thesis using r(3) unfolding One_nat_def by simp
qed

theorem x1_empty_value_overruns_witness:
  "x1_decode 9 9 (x1_Serialize (\<lambda>_. []) (map Some [TString [97]] @ [None]))
     (of_nat (length (x1_Serialize (\<lambda>_. []) (map Some [TString [97]] @ [None])))) = Inl BufferOverrun"
proof -
  have u: "x1_text (\<lambda>_. []) (Some (TString [97])) = Some (83, [97])" by (simp add: TioData.c_str_def)
  have l: "length (x1_Serialize (\<lambda>_. []) (map Some [TString [97]] @ [None])) < 2 ^ 32"
    by (simp add: x1_Serialize_def serialize_field_def u ascii_def hex4_def hex_nat.simps Let_def del: x1_text.simps(3))
  have "list_all (x1_fits (\<lambda>_. [])) [TString [97]]" by (simp add: x1_fits_def u x1_short_def del: x1_text.simps)
  from x1_empty_value_overruns [OF this _ _ l] show ?thesis by simp
qed

text \<open>A number of fields with a minus sign passes the check of the size, because the offset wraps around.\<close>

lemma x1_negative_count: "x1_decode count0 size0 (ascii ''X1-001C'') 8 = Inl BufferOverrun"
proof -
  have "sscanf_X [45, 48, 48, 49] = Some (- 1)" by (simp add: sscanf_X_def hex_value_def read_hex_def)
  then show ?thesis
    by (simp add: x1_decode_def ascii_def mem_read_def mem_write_def c_string_at_def Let_def)
qed

end
