(* ===== verification/Spec2Isabelle.thy ===== *)
theory Spec2Isabelle
  imports Pr1Message ClientData EventQueue ClientProperties ContainerProperties LogRestart AccessControl
    SessionProperties ServerAnswers ServerHandles Subscriptions TextProperties
    ReplayProperties RawLogQueue X1Fields
begin

text \<open>
  A verification library for \<^bold>\<open>tiodb\<close>, an in-memory container server with publish/subscribe.

  \<^bold>\<open>The program.\<close>  A server (\<^verbatim>\<open>src/server/tio\<close>) keeps named containers: lists, vectors and maps of
  records with key, value and metadata.  Clients (\<^verbatim>\<open>src/client/c\<close>) open containers over TCP with a
  binary protocol of length-prefixed fields, read and modify them, run queries and subscribe to
  events.  Inside the server a \<^verbatim>\<open>ContainerManager\<close> finds the storage manager of a type and hands out
  container objects; a container forwards to its storage; a storage applies an operation and
  publishes it as an event to its subscriber, which the server sends to the clients.  A log database
  (\<^verbatim>\<open>logdb.h\<close>) keeps tables in a file as a log of operations that is replayed when the file is
  opened, and \<^verbatim>\<open>auth.h\<close> decides which session may send which command to which object.  On the client
  a connection sends requests, receives messages, queues the events that arrive before an answer
  and dispatches them to the callbacks of the containers.

  \<^bold>\<open>Conventions.\<close>  \<open>Prelude\<close> has the machine words, blocks of bytes and the result type: \<open>Inr\<close> is a value,
  \<open>Inl\<close> an exception, a failed assertion or an access outside of memory.  Machine integers are words or
  integers with the wrap-around written out; \<^verbatim>\<open>std::map\<close> is the sorted association list of
  \<open>StdMap\<close>, whose laws are the locale \<open>ordered_map\<close>; heap objects that can be shared or freed live in an
  explicit heap.  The operating system's side of a socket is a script of chunks of bytes, errors and
  timeouts; a run that needs more input than the script has is still blocked, which is a result
  of its own, and the theorems say when that does not happen.

  \<^bold>\<open>The client library\<close> (\<^verbatim>\<open>src/client/c/tioclient.c\<close>, \<^verbatim>\<open>tioclient_internals.h\<close>, \<^verbatim>\<open>tioclient.h\<close>).
  \<^item> \<open>StreamBuffer\<close>, \<open>Pr1Message\<close>: \<^verbatim>\<open>stream_buffer_*\<close> and \<^verbatim>\<open>pr1_message_*\<close>.  Any message that is built parses
    to the fields it was built from; what a received header with an extreme size or a
    message with 2^16 fields does.
  \<^item> \<open>Decimal\<close>, \<open>ClientData\<close>: \<^verbatim>\<open>tiodata_*\<close> and \<^verbatim>\<open>pr1_message_field_*\<close>.  Values survive the passage through
    a message; number texts read back and fit their buffer.
  \<^item> \<open>EventQueue\<close>: the circular list of \<^verbatim>\<open>events_list_push\<close> and \<^verbatim>\<open>events_list_pop\<close> in a heap refines a queue.
  \<^item> \<open>ClientSocket\<close>: \<^verbatim>\<open>socket_send\<close>, \<^verbatim>\<open>socket_receive\<close>, \<^verbatim>\<open>pr1_message_receive\<close>.  Every fragmentation of the stream
    gives the message that was sent.
  \<^item> \<open>ClientConnection\<close>, \<open>ClientRequests\<close>: \<^verbatim>\<open>struct TIO_CONNECTION\<close>, \<^verbatim>\<open>tio_receive_until_not_event\<close>,
    \<^verbatim>\<open>tio_dispatch_pending_events\<close>, \<^verbatim>\<open>register_container\<close> and every request function.  The receiving loops
    terminate because each round consumes the script.
  \<^item> \<open>ClientDelivery\<close>, \<open>ClientProperties\<close>: a request is answered and events are delivered in order whatever
    arrives in between, queries deliver all items, errors of the server reach the caller, the table
    of containers stays consistent and disconnecting frees everything; where a handle that is not
    checked, or a refused \<^verbatim>\<open>tio_close\<close>, leads to a fault.

  \<^bold>\<open>The server's containers\<close> (\<^verbatim>\<open>Container.h\<close>, \<^verbatim>\<open>ListStorage.h\<close>, \<^verbatim>\<open>VectorStorage.h\<close>, \<^verbatim>\<open>MapStorage.h\<close>,
  \<^verbatim>\<open>MemoryStorage.h\<close>, \<^verbatim>\<open>ContainerManager.cpp\<close>).
  \<^item> \<open>TioData\<close>: \<^verbatim>\<open>class TioData\<close> with its serialisation, \<^verbatim>\<open>NormalizeIndex\<close> and the query limits.
  \<^item> \<open>Storage\<close>: what storages share, and the locale \<open>replicated\<close>: a subscriber with a snapshot that replays the
    published events stays equal to the container.  \<open>ListStorage\<close> and \<open>MapStorage\<close> interpret it.
  \<^item> \<open>ListStorage\<close>, \<open>VectorStorage\<close>, \<open>MapStorage\<close>: every operation of the three storages against lists and
    maps, with the errors they throw; the vector's mutex is part of its state.
  \<^item> \<open>MemoryStorage\<close>: \<^verbatim>\<open>MemoryStorageManager\<close>, property maps, \<^verbatim>\<open>class Container\<close>; the invariant of the manager
    over all runs of the step relation \<open>mgr_step\<close>.
  \<^item> \<open>ContainerManager\<close>, \<open>ContainerProperties\<close>: aliases, open containers as weak pointers, the meta containers.
    The invariant over all runs of \<open>cm_step\<close>, opening by name, and what a request meets when a
    container of the name is still open.

  \<^bold>\<open>The log database\<close> (\<^verbatim>\<open>logdb.h\<close>).
  \<^item> \<open>PagedFile\<close>: the page cache refines a plain file.
  \<^item> \<open>LogDb\<close>: \<^verbatim>\<open>class Ldb\<close>, the layout of its records, every logged operation and the load.
  \<^item> \<open>LogDisk\<close>, \<open>LogTable\<close>, \<open>LogRestart\<close>: what the file holds, the locale \<open>persistent\<close> and its interpretations for the
    operations of a table, and the theorems across a restart: a table and a database that are opened again
    have exactly their records, tables do not disturb each other, and the situations in which a
    restart fails or changes the contents.  The load walks at most as many blocks as the
    file has bytes; this fuel is enough for every consistent file because its blocks do not overlap
    (\<open>chain_length\<close>), and a theorem names a file on which the loop never ends.

  \<^bold>\<open>Access control\<close> (\<^verbatim>\<open>auth.h\<close>): \<open>AccessControl\<close>.  A denied command stays denied; how rules and defaults combine.

  \<^bold>\<open>The network server\<close> (\<^verbatim>\<open>TioTcpSession.h\<close>, \<^verbatim>\<open>TioTcpSession.cpp\<close>, \<^verbatim>\<open>TioTcpServer.h\<close>, \<^verbatim>\<open>TioTcpServer.cpp\<close>).
  \<^item> \<open>ServerMessages\<close>: how the server reads and builds messages with the functions of the client library; a
    request is read as the client wrote it.
  \<^item> \<open>ServerSession\<close>, \<open>SessionProperties\<close>, \<open>SessionMessages\<close>: one connection with its handles, its queue of messages and its
    asynchronous writes.  Messages are written complete and in order, all of them when none exceeds
    the send buffer; \<open>emits\<close> says which messages a function puts into the queue.
  \<^item> \<open>ServerState\<close>, \<open>ServerCommands\<close>: \<^verbatim>\<open>class TioTcpServer\<close> with sessions, subscriptions, groups and the queue of events,
    and every binary command.  A regular expression library and the formatting of numbers are parameters
    (\<open>server_env\<close>).
  \<^item> \<open>ServerAnswers\<close>, \<open>ServerEffects\<close>, \<open>ServerHandles\<close>: each command is answered once; what the commands do to containers,
    handles and results.
  \<^item> \<open>Publisher\<close>, \<open>Subscriptions\<close>: the publisher thread, one pass at a time between commands; a subscriber that
    replays what it is sent has the contents of the container (locale \<open>replicated_snapshot\<close>), and the
    race in which a change is sent twice.

  \<^bold>\<open>The text protocol\<close> (\<^verbatim>\<open>TioTcpProtocol.h\<close>, \<^verbatim>\<open>Command.cpp\<close>, the text handlers of \<^verbatim>\<open>TioTcpServer.cpp\<close>, the readers of
  \<^verbatim>\<open>TioTcpSession.cpp\<close>).
  \<^item> \<open>TextProtocol\<close>, \<open>TextFields\<close>: lines, data fields and answers.  \<^verbatim>\<open>boost::split\<close>, \<^verbatim>\<open>lexical_cast\<close> and the printing of
    doubles are the parameter \<open>lexical\<close>, with what is relied on as \<open>lexical_ok\<close>; an answer is read back to its values.
  \<^item> \<open>TextCommands\<close>: every handler of the dispatch map.
  \<^item> \<open>SessionReader\<close>, \<open>ReaderProperties\<close>: the reads of a session as the step relation \<open>reader_step\<close>, one completion
    with any number of bytes at a time; the sizes of the reads do not matter (\<open>stream_run\<close> terminates because every
    command consumes bytes).
  \<^item> \<open>TextEffects\<close>, \<open>TextProperties\<close>: a command with data from its bytes to its answer, a binary request from the socket to
    its handler, data that is asked for once, and the access rule that is not enforced.

  \<^bold>\<open>The X1 encoding\<close> (\<^verbatim>\<open>Serialize\<close> of \<^verbatim>\<open>TioTcpServer.cpp\<close>, \<^verbatim>\<open>x1_decode\<close> of \<^verbatim>\<open>tioclient.c\<close>): \<open>X1Fields\<close>.  The client decodes what the
  server encodes; what empty values and a negative number of fields do.

  \<^bold>\<open>The protocol log and its replay\<close> (\<^verbatim>\<open>BinaryProtocolLogger.h\<close>, \<^verbatim>\<open>src/tools/TioLogReplayCpp/tiologreplay.cpp\<close>).
  \<^item> \<open>ProtocolLog\<close>: \<^verbatim>\<open>LogMessage\<close> and the text of its lines; \<open>LogReplay\<close>: how the tool reads a line and what it requests.
  \<^item> \<open>ReplayProperties\<close>: a log that is replayed repeats what was logged; what a line end in a value does.
  \<^item> \<open>RawLogQueue\<close>: the circular queue between the callers of \<^verbatim>\<open>RawLog\<close> and the writing thread as the step relation
    \<open>raw_step\<close>, one step for each access of the shared indices and slots; the order of the texts, and the run that loses one.

  \<^bold>\<open>Not modelled.\<close>  HTTP requests (\<^verbatim>\<open>OnHttpCommand\<close>, \<^verbatim>\<open>HttpParser.h\<close>), which depend on the http-parser library; interleavings
  of the server's threads finer than one command or one pass of the publisher, apart from the queue of the protocol log; the cluster
  functions of the client, which open connections from inside a callback; \<^verbatim>\<open>LogDbStorage.h\<close> and \<^verbatim>\<open>FileSystemStorage.h\<close>, which the build disables; the
  Python plugins, the bindings for other languages, the other tools, the benchmarks and the vendored
  libraries.  Formatting of floating point numbers is a parameter of the functions that use it.
\<close>

end
